(* ===== verification/Prelude.thy ===== *)
theory Prelude
  imports Main "HOL-Library.Sublist" "HOL-Library.Multiset"
begin

text \<open>
  What every theory of the development shares: the clock and the Go \<open>time.Duration\<close>
  arithmetic, the collections that carry the automation, and the generic lemmas on lists,
  options and maps that the components use.

  A \<open>time.Time\<close> is the number of nanoseconds since Go's zero time, so that
  \<open>t.IsZero()\<close> is \<open>t = 0\<close>. A \<open>time.Duration\<close> is an \<open>int\<close> of nanoseconds; the
  difference of two times saturates at the ends of the 64-bit range, as \<open>Time.Sub\<close> does.
\<close>

named_theorems store_laws "what a read returns after a write or a delete"
named_theorems frame_laws "what an operation leaves unchanged"

type_synonym time = int
type_synonym duration = int

text \<open>A \<open>time.Duration\<close> product wraps at 64 bits.\<close>

definition wrap64 :: "int \<Rightarrow> duration" where
  "wrap64 n = (n + 2 ^ 63) mod 2 ^ 64 - 2 ^ 63"


definition second :: duration where "second = 1000000000"
definition minute :: duration where "minute = 60 * second"
definition hour :: duration where "hour = 60 * minute"

definition max_duration :: duration where "max_duration = 2 ^ 63 - 1"
definition min_duration :: duration where "min_duration = - (2 ^ 63)"

definition time_sub :: "time \<Rightarrow> time \<Rightarrow> duration" where
  "time_sub t u = max min_duration (min max_duration (t - u))"

lemma time_sub_less_iff:
  "min_duration < d \<Longrightarrow> d \<le> max_duration \<Longrightarrow> time_sub t u < d \<longleftrightarrow> t - u < d"
  by (auto simp: time_sub_def min_duration_def max_duration_def)

lemma duration_bounds [simp]:
  "min_duration < 3 * minute" "3 * minute \<le> max_duration"
  "min_duration < minute" "minute \<le> max_duration"
  by (simp_all add: min_duration_def max_duration_def minute_def second_def)

subsection \<open>Lists\<close>

fun first_index :: "('a \<Rightarrow> bool) \<Rightarrow> 'a list \<Rightarrow> nat option" where
  "first_index P [] = None"
| "first_index P (x # xs) = (if P x then Some 0 else map_option Suc (first_index P xs))"

lemma first_index_None [simp]: "first_index P xs = None \<longleftrightarrow> (\<forall>x \<in> set xs. \<not> P x)"
  by (induction xs) auto

lemma first_index_Some:
  "first_index P xs = Some i \<Longrightarrow>
     i < length xs \<and> P (xs ! i) \<and> (\<forall>j < i. \<not> P (xs ! j))"
proof (induction xs arbitrary: i)
  case Nil
  then show ?case by simp
next
  case (Cons x xs)
  then show ?case by (auto split: if_splits simp: less_Suc_eq_0_disj)
qed

lemma first_index_less: "first_index P xs = Some i \<Longrightarrow> i < length xs"
  by (simp add: first_index_Some)

lemma first_index_sat: "first_index P xs = Some i \<Longrightarrow> P (xs ! i)"
  by (simp add: first_index_Some)

definition remove_at :: "nat \<Rightarrow> 'a list \<Rightarrow> 'a list" where
  "remove_at i xs = take i xs @ drop (Suc i) xs"

lemma mset_remove_at: "i < length xs \<Longrightarrow> add_mset (xs ! i) (mset (remove_at i xs)) = mset xs"
proof -
  assume "i < length xs"
  then have "xs = take i xs @ xs ! i # drop (Suc i) xs"
    by (rule id_take_nth_drop)
  then have "mset xs = mset (take i xs @ xs ! i # drop (Suc i) xs)"
    by simp
  then show ?thesis by (simp add: remove_at_def)
qed

lemma length_remove_at [simp]: "i < length xs \<Longrightarrow> length (remove_at i xs) = length xs - 1"
  by (simp add: remove_at_def)

lemma set_remove_at_subset: "set (remove_at i xs) \<subseteq> set xs"
  by (auto simp: remove_at_def dest: in_set_takeD in_set_dropD)

lemma mset_filter_partition:
  "mset (filter P xs) + mset (filter (\<lambda>x. \<not> P x) xs) = mset xs"
  by (induction xs) auto

lemma find_append: "find P (xs @ ys) = (case find P xs of None \<Rightarrow> find P ys | Some x \<Rightarrow> Some x)"
  by (induction xs) auto

lemma find_filter_None: "(\<And>x. P x \<Longrightarrow> \<not> Q x) \<Longrightarrow> find P (filter Q xs) = None"
  by (auto simp: find_None_iff)

lemma find_filter_same: "(\<And>x. P x \<Longrightarrow> Q x) \<Longrightarrow> find P (filter Q xs) = find P xs"
  by (induction xs) auto

lemma find_SomeD: "find P xs = Some x \<Longrightarrow> P x \<and> x \<in> set xs"
  by (auto simp: find_Some_iff)

lemma distinct_map_filterI: "distinct (map f xs) \<Longrightarrow> distinct (map f (filter P xs))"
  by (induction xs) auto

lemma filter_other_if_new: "k \<notin> f ` set xs \<Longrightarrow> filter (\<lambda>x. f x \<noteq> k) xs = xs"
  by (induction xs) auto

lemma map_of_filter_other: "k \<noteq> j \<Longrightarrow> map_of (filter (\<lambda>p. fst p \<noteq> k) ps) j = map_of ps j"
  by (induction ps) auto

lemma key_image_filter: "f ` {x \<in> A. f x \<noteq> k} = f ` A - {k}"
  by auto

text \<open>A sequence of checks: the first that fails is the error.\<close>

definition first_error :: "'e option list \<Rightarrow> 'e option" where
  "first_error xs = (case find (\<lambda>x. x \<noteq> None) xs of None \<Rightarrow> None | Some e \<Rightarrow> e)"

definition reject_if :: "bool \<Rightarrow> 'e \<Rightarrow> 'e option" where
  "reject_if b e = (if b then Some e else None)"

lemma first_error_None [simp]: "first_error xs = None \<longleftrightarrow> (\<forall>x \<in> set xs. x = None)"
  by (auto simp: first_error_def find_None_iff split: option.splits dest: find_SomeD)

lemma reject_if_None [simp]: "reject_if b e = None \<longleftrightarrow> \<not> b"
  by (simp add: reject_if_def)

end
