(* ===== verification/GoText.thy ===== *)
theory GoText
  imports Prelude
begin

text \<open>
  The functions of Go's \<open>strings\<close>, \<open>encoding/hex\<close> and \<open>path/filepath\<close> packages that the code
  uses. A Go string is its list of bytes, one \<open>char\<close> each. White space is Unicode's, read as
  UTF-8 byte sequences. \<open>to_lower\<close> maps the ASCII letters and the two other code points
  whose lower case is an ASCII letter (the Kelvin sign and the dotted capital I); every other
  code point lowers to one outside ASCII, which no comparison in the code can tell apart.
\<close>

fun has_prefix :: "string \<Rightarrow> string \<Rightarrow> bool" where
  "has_prefix s [] = True"
| "has_prefix [] (p # ps) = False"
| "has_prefix (c # s) (p # ps) = (c = p \<and> has_prefix s ps)"

definition has_suffix :: "string \<Rightarrow> string \<Rightarrow> bool" where
  "has_suffix s p = has_prefix (rev s) (rev p)"

definition trim_prefix :: "string \<Rightarrow> string \<Rightarrow> string" where
  "trim_prefix s p = (if has_prefix s p then drop (length p) s else s)"

definition trim_suffix :: "string \<Rightarrow> string \<Rightarrow> string" where
  "trim_suffix s p = (if has_suffix s p then take (length s - length p) s else s)"

fun index_of :: "string \<Rightarrow> string \<Rightarrow> nat option" where
  "index_of [] sub = (if sub = [] then Some 0 else None)"
| "index_of (c # s) sub =
     (if has_prefix (c # s) sub then Some 0 else map_option Suc (index_of s sub))"

definition str_contains :: "string \<Rightarrow> string \<Rightarrow> bool" where
  "str_contains s sub = (index_of s sub \<noteq> None)"

definition cut :: "string \<Rightarrow> string \<Rightarrow> (string \<times> string) option" where
  "cut s sep =
     (case index_of s sep of
        None \<Rightarrow> None
      | Some i \<Rightarrow> Some (take i s, drop (i + length sep) s))"

definition cut_prefix :: "string \<Rightarrow> string \<Rightarrow> string option" where
  "cut_prefix s p = (if has_prefix s p then Some (drop (length p) s) else None)"

fun str_join :: "string \<Rightarrow> string list \<Rightarrow> string" where
  "str_join sep [] = []"
| "str_join sep [x] = x"
| "str_join sep (x # y # zs) = x @ sep @ str_join sep (y # zs)"

subsection \<open>Prefixes, suffixes and substrings\<close>

lemma has_prefix_iff: "has_prefix s p \<longleftrightarrow> (\<exists>r. s = p @ r)"
  by (induction s p rule: has_prefix.induct) auto

lemma has_prefix_append [simp]: "has_prefix (p @ r) p"
  by (auto simp: has_prefix_iff)

lemma has_prefix_refl [simp]: "has_prefix p p"
  using has_prefix_append [of p "[]"] by simp

lemma has_suffix_iff: "has_suffix s p \<longleftrightarrow> (\<exists>r. s = r @ p)"
proof
  assume "has_suffix s p"
  then obtain r where "rev s = rev p @ r"
    by (auto simp: has_suffix_def has_prefix_iff)
  then have "s = rev r @ p"
    by (metis rev_append rev_rev_ident)
  then show "\<exists>r. s = r @ p" ..
next
  assume "\<exists>r. s = r @ p"
  then show "has_suffix s p" by (auto simp: has_suffix_def)
qed

lemma has_suffix_append [simp]: "has_suffix (r @ p) p"
  by (auto simp: has_suffix_iff)

lemma trim_prefix_append [simp]: "trim_prefix (p @ r) p = r"
  by (simp add: trim_prefix_def)

lemma trim_suffix_append [simp]: "trim_suffix (r @ p) p = r"
  by (simp add: trim_suffix_def)

lemma cut_prefix_append [simp]: "cut_prefix (p @ r) p = Some r"
  by (simp add: cut_prefix_def)

lemma cut_prefix_Some: "cut_prefix s p = Some r \<longleftrightarrow> s = p @ r"
  by (auto simp: cut_prefix_def has_prefix_iff)

lemma index_of_Some: "index_of s sub = Some i \<Longrightarrow> \<exists>a b. s = a @ sub @ b \<and> length a = i"
proof (induction s arbitrary: i)
  case Nil
  then show ?case by (simp split: if_splits)
next
  case (Cons c s)
  show ?case
  proof (cases "has_prefix (c # s) sub")
    case True
    with Cons.prems have "i = 0" by simp
    with True show ?thesis by (auto simp: has_prefix_iff)
  next
    case False
    with Cons.prems obtain j where j: "index_of s sub = Some j" and i: "i = Suc j" by auto
    from Cons.IH [OF j] obtain a b where "s = a @ sub @ b" "length a = j" by blast
    with i have "c # s = (c # a) @ sub @ b \<and> length (c # a) = i" by simp
    then show ?thesis by blast
  qed
qed

lemma index_of_prefix: "has_prefix s sub \<Longrightarrow> index_of s sub = Some 0"
  by (cases s) (auto simp: has_prefix_iff)

lemma index_of_hit: "\<exists>i. index_of (a @ sub @ b) sub = Some i \<and> i \<le> length a"
proof (induction a)
  case Nil
  have "index_of (sub @ b) sub = Some 0" by (rule index_of_prefix) simp
  then show ?case by simp
next
  case (Cons c a)
  then show ?case by auto
qed

lemma str_contains_iff: "str_contains s sub \<longleftrightarrow> (\<exists>a b. s = a @ sub @ b)"
proof
  assume "str_contains s sub"
  then obtain i where "index_of s sub = Some i" by (auto simp: str_contains_def)
  then show "\<exists>a b. s = a @ sub @ b" using index_of_Some by blast
next
  assume "\<exists>a b. s = a @ sub @ b"
  then obtain a b where "s = a @ sub @ b" by blast
  then show "str_contains s sub"
    using index_of_hit [of a sub b] by (auto simp: str_contains_def)
qed

lemma str_contains_single: "str_contains s [c] \<longleftrightarrow> c \<in> set s"
  unfolding str_contains_iff by (metis append_Cons append_Nil in_set_conv_decomp)

lemma index_of_least:
  "index_of s sub = Some i \<Longrightarrow> j < i \<Longrightarrow> \<not> has_prefix (drop j s) sub"
proof (induction s arbitrary: i j)
  case Nil
  then show ?case by (simp split: if_splits)
next
  case (Cons c s)
  then show ?case by (cases j) (auto split: if_splits)
qed

text \<open>
  Where no copy of the separator starts before position \<open>length a\<close>, the first one found in
  \<open>a @ sep @ b\<close> is the written one.
\<close>

lemma index_of_first:
  assumes "\<And>j. j < length a \<Longrightarrow> \<not> has_prefix (drop j (a @ sep @ b)) sep"
  shows "index_of (a @ sep @ b) sep = Some (length a)"
proof -
  obtain i where i: "index_of (a @ sep @ b) sep = Some i" "i \<le> length a"
    using index_of_hit [of a sep b] by blast
  then obtain x y where "a @ sep @ b = x @ sep @ y" "length x = i"
    using index_of_Some by blast
  then have "has_prefix (drop i (a @ sep @ b)) sep" by simp
  with assms i(2) have "i = length a" by (metis le_neq_implies_less)
  with i(1) show ?thesis by simp
qed

lemma cut_first:
  assumes "\<And>j. j < length a \<Longrightarrow> \<not> has_prefix (drop j (a @ sep @ b)) sep"
  shows "cut (a @ sep @ b) sep = Some (a, b)"
  using index_of_first [OF assms] by (simp add: cut_def)

lemma no_head_no_prefix: "p \<notin> set (take n s) \<Longrightarrow> j < n \<Longrightarrow> n \<le> length s \<Longrightarrow> \<not> has_prefix (drop j s) (p # ps)"
proof
  assume a: "p \<notin> set (take n s)" "j < n" "n \<le> length s" "has_prefix (drop j s) (p # ps)"
  then have "drop j s = s ! j # drop (Suc j) s" by (simp add: Cons_nth_drop_Suc)
  with a(4) have "s ! j = p" by simp
  moreover have "s ! j \<in> set (take n s)" using a(2,3) by (metis in_set_conv_nth length_take min.absorb2 nth_take)
  ultimately show False using a(1) by simp
qed

lemma index_of_fresh_head:
  "p \<notin> set a \<Longrightarrow> index_of (a @ (p # ps) @ b) (p # ps) = Some (length a)"
  by (rule index_of_first, rule no_head_no_prefix [of _ "length a"]) auto

lemma cut_fresh_head: "p \<notin> set a \<Longrightarrow> cut (a @ (p # ps) @ b) (p # ps) = Some (a, b)"
  using index_of_fresh_head [of p a ps b] by (simp add: cut_def)

subsection \<open>White space, trimming, fields and case\<close>

text \<open>
  \<open>space_len s\<close> is the number of bytes of the white-space rune \<open>s\<close> starts with, 0 if it
  starts with none. No byte of a longer rune can be read as the start of one of these
  sequences, so scanning byte by byte finds the same spaces as scanning rune by rune.
\<close>

definition ascii_spaces :: string where
  "ascii_spaces = [CHR 0x09, CHR 0x0A, CHR 0x0B, CHR 0x0C, CHR 0x0D, CHR 0x20]"

definition space_len :: "string \<Rightarrow> nat" where
  "space_len s =
     (case s of
        [] \<Rightarrow> 0
      | c # r \<Rightarrow>
          if c \<in> set ascii_spaces then 1
          else if c = CHR 0xC2 then
            (if take 1 r = [CHR 0x85] \<or> take 1 r = [CHR 0xA0] then 2 else 0)
          else if c = CHR 0xE1 then (if take 2 r = [CHR 0x9A, CHR 0x80] then 3 else 0)
          else if c = CHR 0xE2 then
            (case r of
               d # e # _ \<Rightarrow>
                 if d = CHR 0x80 \<and>
                    e \<in> set [CHR 0x80, CHR 0x81, CHR 0x82, CHR 0x83, CHR 0x84, CHR 0x85,
                             CHR 0x86, CHR 0x87, CHR 0x88, CHR 0x89, CHR 0x8A, CHR 0xA8,
                             CHR 0xA9, CHR 0xAF] then 3
                 else if d = CHR 0x81 \<and> e = CHR 0x9F then 3
                 else 0
             | _ \<Rightarrow> 0)
          else if c = CHR 0xE3 then (if take 2 r = [CHR 0x80, CHR 0x80] then 3 else 0)
          else 0)"

fun trim_left_go :: "nat \<Rightarrow> string \<Rightarrow> string" where
  "trim_left_go k [] = []"
| "trim_left_go (Suc k) (c # s) = trim_left_go k s"
| "trim_left_go 0 (c # s) =
     (case space_len (c # s) of 0 \<Rightarrow> c # s | Suc k \<Rightarrow> trim_left_go k s)"

fun trim_right :: "string \<Rightarrow> string" where
  "trim_right [] = []"
| "trim_right (c # s) = (if trim_left_go 0 (c # s) = [] then [] else c # trim_right s)"

definition trim_space :: "string \<Rightarrow> string" where
  "trim_space s = trim_right (trim_left_go 0 s)"

text \<open>\<open>strings.Fields\<close>: \<open>cur\<close> is the field being read, \<open>k\<close> the bytes of a space still to skip.\<close>

fun str_fields_go :: "nat \<Rightarrow> string \<Rightarrow> string \<Rightarrow> string list" where
  "str_fields_go k cur [] = (if cur = [] then [] else [cur])"
| "str_fields_go (Suc k) cur (c # s) = str_fields_go k cur s"
| "str_fields_go 0 cur (c # s) =
     (case space_len (c # s) of
        0 \<Rightarrow> str_fields_go 0 (cur @ [c]) s
      | Suc k \<Rightarrow> (if cur = [] then [] else [cur]) @ str_fields_go k [] s)"

definition str_fields :: "string \<Rightarrow> string list" where
  "str_fields s = str_fields_go 0 [] s"

text \<open>A word: no byte of it starts a space, whatever follows.\<close>

definition plain_char :: "char \<Rightarrow> bool" where
  "plain_char c =
     (c \<notin> set ascii_spaces \<and> c \<notin> set [CHR 0xC2, CHR 0xE1, CHR 0xE2, CHR 0xE3])"

definition plain_word :: "string \<Rightarrow> bool" where
  "plain_word s = (s \<noteq> [] \<and> list_all plain_char s)"

lemma space_len_plain [simp]: "plain_char c \<Longrightarrow> space_len (c # s) = 0"
  by (simp add: space_len_def plain_char_def)

lemma space_len_space [simp]: "space_len (CHR '' '' # s) = 1"
  by (simp add: space_len_def ascii_spaces_def)

lemma str_fields_go_plain:
  "list_all plain_char w \<Longrightarrow> str_fields_go 0 cur (w @ s) = str_fields_go 0 (cur @ w) s"
  by (induction w arbitrary: cur) auto

lemma str_fields_three:
  assumes "plain_word a" "plain_word b" "plain_word c"
  shows "str_fields (a @ '' '' @ b @ '' '' @ c) = [a, b, c]"
proof -
  have "str_fields_go 0 [] (c @ []) = str_fields_go 0 c []"
    using assms(3) str_fields_go_plain [of c "[]" "[]"] by (simp add: plain_word_def)
  then show ?thesis
    using assms by (simp add: str_fields_def str_fields_go_plain plain_word_def)
qed

definition lower_char :: "char \<Rightarrow> char" where
  "lower_char c =
     (let n = of_char c :: nat in if 65 \<le> n \<and> n \<le> 90 then char_of (n + 32) else c)"

fun to_lower :: "string \<Rightarrow> string" where
  "to_lower (a # b # c # s) =
     (if a = CHR 0xE2 \<and> b = CHR 0x84 \<and> c = CHR 0xAA then CHR ''k'' # to_lower s
      else if a = CHR 0xC4 \<and> b = CHR 0xB0 then CHR ''i'' # to_lower (c # s)
      else lower_char a # to_lower (b # c # s))"
| "to_lower [a, b] =
     (if a = CHR 0xC4 \<and> b = CHR 0xB0 then ''i'' else [lower_char a, lower_char b])"
| "to_lower [a] = [lower_char a]"
| "to_lower [] = []"

lemma to_lower_yes [simp]: "to_lower ''yes'' = ''yes''" and to_lower_y [simp]: "to_lower ''y'' = ''y''"
  by (simp_all add: lower_char_def)

lemma trim_space_yes [simp]: "trim_space ''yes'' = ''yes''" and trim_space_y [simp]: "trim_space ''y'' = ''y''"
  by (simp_all add: trim_space_def space_len_def ascii_spaces_def)

subsection \<open>Hexadecimal digits\<close>

definition hex_val :: "char \<Rightarrow> nat option" where
  "hex_val c =
     (let n = of_char c :: nat in
      if 48 \<le> n \<and> n \<le> 57 then Some (n - 48)
      else if 97 \<le> n \<and> n \<le> 102 then Some (n - 87)
      else if 65 \<le> n \<and> n \<le> 70 then Some (n - 55)
      else None)"

fun hex_decode :: "string \<Rightarrow> nat list option" where
  "hex_decode [] = Some []"
| "hex_decode [c] = None"
| "hex_decode (c # d # s) =
     (case (hex_val c, hex_val d, hex_decode s) of
        (Some h, Some l, Some bs) \<Rightarrow> Some ((16 * h + l) # bs)
      | _ \<Rightarrow> None)"

definition hex_digit :: "nat \<Rightarrow> char" where
  "hex_digit n = (if n < 10 then char_of (48 + n) else char_of (87 + n))"

lemma hex_val_digit [simp]: "n < 16 \<Longrightarrow> hex_val (hex_digit n) = Some n"
  by (auto simp: hex_val_def hex_digit_def Let_def)

lemma hex_val_bound: "hex_val c = Some n \<Longrightarrow> n < 16"
  by (auto simp: hex_val_def Let_def split: if_splits)

end
