(* ===== verification/Glob.thy ===== *)
theory Glob
  imports GoText
begin

text \<open>
  Go's \<open>filepath.Match\<close>, which \<open>expandMCPGlobs\<close> applies to tool names: the pattern is cut
  into chunks at its stars, each chunk is matched at the first place it fits, and no star
  crosses a slash. The code ignores the error of a malformed pattern and reads only the
  verdict, and a malformed pattern never matches, so an error and a mismatch are both \<open>None\<close>
  here. The result needed most is \<open>glob_match_prefix\<close>: a literal prefix with a trailing star
  matches exactly the names that start with the prefix and have no slash after it.
\<close>

definition byte_of :: "char \<Rightarrow> nat" where
  "byte_of c = of_char c"

definition rune_error :: nat where "rune_error = 0xFFFD"

definition cont_byte :: "nat \<Rightarrow> nat \<Rightarrow> nat \<Rightarrow> bool" where
  "cont_byte lo hi b = (lo \<le> b \<and> b \<le> hi)"

text \<open>\<open>utf8.DecodeRuneInString\<close>: the first rune and its width; a bad byte is one error rune.\<close>

definition decode_rune :: "string \<Rightarrow> nat \<times> nat" where
  "decode_rune s =
     (case map byte_of (take 4 s) of
        [] \<Rightarrow> (rune_error, 0)
      | b0 # bs \<Rightarrow>
          if b0 < 0x80 then (b0, 1)
          else if 0xC2 \<le> b0 \<and> b0 \<le> 0xDF then
            (case bs of
               b1 # _ \<Rightarrow> if cont_byte 0x80 0xBF b1
                          then ((b0 - 0xC0) * 64 + (b1 - 0x80), 2) else (rune_error, 1)
             | _ \<Rightarrow> (rune_error, 1))
          else if 0xE0 \<le> b0 \<and> b0 \<le> 0xEF then
            (case bs of
               b1 # b2 # _ \<Rightarrow>
                 if cont_byte (if b0 = 0xE0 then 0xA0 else 0x80) (if b0 = 0xED then 0x9F else 0xBF) b1 \<and>
                    cont_byte 0x80 0xBF b2
                 then ((b0 - 0xE0) * 4096 + (b1 - 0x80) * 64 + (b2 - 0x80), 3)
                 else (rune_error, 1)
             | _ \<Rightarrow> (rune_error, 1))
          else if 0xF0 \<le> b0 \<and> b0 \<le> 0xF4 then
            (case bs of
               b1 # b2 # b3 # _ \<Rightarrow>
                 if cont_byte (if b0 = 0xF0 then 0x90 else 0x80) (if b0 = 0xF4 then 0x8F else 0xBF) b1 \<and>
                    cont_byte 0x80 0xBF b2 \<and> cont_byte 0x80 0xBF b3
                 then ((b0 - 0xF0) * 262144 + (b1 - 0x80) * 4096 + (b2 - 0x80) * 64 + (b3 - 0x80), 4)
                 else (rune_error, 1)
             | _ \<Rightarrow> (rune_error, 1))
          else (rune_error, 1))"

lemma decode_rune_width: "s \<noteq> [] \<Longrightarrow> 0 < snd (decode_rune s)"
  by (cases s) (auto simp: decode_rune_def split: list.splits)

text \<open>\<open>getEsc\<close>: one character of a class, possibly escaped; something must follow it.\<close>

definition get_esc_rune :: "string \<Rightarrow> (nat \<times> string) option" where
  "get_esc_rune chunk =
     (if chunk = [] then None
      else (case decode_rune chunk of
              (r, n) \<Rightarrow>
                if r = rune_error \<and> n = 1 then None
                else if drop n chunk = [] then None
                else Some (r, drop n chunk)))"

definition get_esc :: "string \<Rightarrow> (nat \<times> string) option" where
  "get_esc chunk =
     (case chunk of
        [] \<Rightarrow> None
      | c # cs \<Rightarrow>
          if c = CHR ''-'' \<or> c = CHR '']'' then None
          else get_esc_rune (if c = CHR 0x5C then cs else chunk))"

lemma get_esc_rune_shorter: "get_esc_rune c = Some (r, d) \<Longrightarrow> length d < length c \<and> d \<noteq> []"
  using decode_rune_width [of c] by (auto simp: get_esc_rune_def split: if_splits prod.splits)

lemma get_esc_shorter: "get_esc c = Some (r, d) \<Longrightarrow> length d < length c \<and> d \<noteq> []"
  by (fastforce simp: get_esc_def split: list.splits if_splits dest: get_esc_rune_shorter)

text \<open>One range of a class: a character, or two with a dash between them.\<close>

definition class_range :: "string \<Rightarrow> ((nat \<times> nat) \<times> string) option" where
  "class_range chunk =
     (case get_esc chunk of
        None \<Rightarrow> None
      | Some (lo, c1) \<Rightarrow>
          if hd c1 = CHR ''-'' then
            (case get_esc (tl c1) of None \<Rightarrow> None | Some (hi, c2) \<Rightarrow> Some ((lo, hi), c2))
          else Some ((lo, lo), c1))"

lemma class_range_shorter: "class_range c = Some (r, d) \<Longrightarrow> length d < length c"
  by (fastforce simp: class_range_def split: option.splits if_splits prod.splits
        dest: get_esc_shorter)

function class_ranges :: "bool \<Rightarrow> string \<Rightarrow> ((nat \<times> nat) list \<times> string) option" where
  "class_ranges started chunk =
     (if started \<and> chunk \<noteq> [] \<and> hd chunk = CHR '']'' then Some ([], tl chunk)
      else (case class_range chunk of
              None \<Rightarrow> None
            | Some (r, c) \<Rightarrow> map_option (\<lambda>(rs, d). (r # rs, d)) (class_ranges True c)))"
  by pat_completeness auto

termination
  by (relation "measure (\<lambda>(_, c). length c)") (auto dest: class_range_shorter)

declare class_ranges.simps [simp del]

lemma class_ranges_shorter: "class_ranges b c = Some (rs, d) \<Longrightarrow> length d < length c"
proof (induction b c arbitrary: rs d rule: class_ranges.induct)
  case (1 started chunk)
  show ?case
  proof (cases "started \<and> chunk \<noteq> [] \<and> hd chunk = CHR '']''")
    case True
    with "1.prems" have "d = tl chunk" by (subst (asm) class_ranges.simps) simp
    with True show ?thesis by simp
  next
    case False
    with "1.prems" obtain r e rs' where
      e: "class_range chunk = Some (r, e)" "class_ranges True e = Some (rs', d)"
      by (subst (asm) class_ranges.simps) (auto split: option.splits)
    with "1.IH" False have "length d < length e" by blast
    with class_range_shorter [OF e(1)] show ?thesis by simp
  qed
qed

definition char_class :: "string \<Rightarrow> (bool \<times> (nat \<times> nat) list \<times> string) option" where
  "char_class cs =
     (let negated = (cs \<noteq> [] \<and> hd cs = CHR ''^'')
      in map_option (\<lambda>(rs, d). (negated, rs, d)) (class_ranges False (if negated then tl cs else cs)))"

lemma char_class_shorter: "char_class c = Some (b, rs, d) \<Longrightarrow> length d < length c"
  by (cases c) (auto simp: char_class_def Let_def split: if_splits dest: class_ranges_shorter)

definition in_class :: "nat \<Rightarrow> (nat \<times> nat) list \<Rightarrow> bool" where
  "in_class r rs = list_ex (\<lambda>(lo, hi). lo \<le> r \<and> r \<le> hi) rs"

text \<open>\<open>matchChunk\<close>: what is left of the name after the chunk, or \<open>None\<close>.\<close>

function match_chunk :: "string \<Rightarrow> string \<Rightarrow> string option" where
  "match_chunk [] s = Some s"
| "match_chunk (c # cs) [] = None"
| "match_chunk (c # cs) (a # s) =
     (if c = CHR ''['' then
        (case char_class cs of
           None \<Rightarrow> None
         | Some (neg, rs, d) \<Rightarrow>
             if in_class (fst (decode_rune (a # s))) rs = neg then None
             else match_chunk d (drop (snd (decode_rune (a # s))) (a # s)))
      else if c = CHR ''?'' then
        (if a = CHR ''/'' then None
         else match_chunk cs (drop (snd (decode_rune (a # s))) (a # s)))
      else if c = CHR 0x5C then
        (case cs of [] \<Rightarrow> None | d # ds \<Rightarrow> if d = a then match_chunk ds s else None)
      else if c = a then match_chunk cs s else None)"
  by pat_completeness auto

termination
  by (relation "measure (length \<circ> fst)") (auto dest: char_class_shorter)

text \<open>\<open>scanChunk\<close> after the leading stars: up to the next star outside a class.\<close>

fun scan_chunk :: "bool \<Rightarrow> string \<Rightarrow> string \<times> string" where
  "scan_chunk inrange [] = ([], [])"
| "scan_chunk inrange (c # cs) =
     (if c = CHR 0x5C then
        (case cs of
           [] \<Rightarrow> ([c], [])
         | d # ds \<Rightarrow> (case scan_chunk inrange ds of (x, y) \<Rightarrow> (c # d # x, y)))
      else if c = CHR ''*'' \<and> \<not> inrange then ([], c # cs)
      else (case scan_chunk (if c = CHR ''['' then True else if c = CHR '']'' then False else inrange) cs of
              (x, y) \<Rightarrow> (c # x, y)))"

lemma scan_chunk_append: "fst (scan_chunk b s) @ snd (scan_chunk b s) = s"
proof (induction b s rule: scan_chunk.induct)
  case (1 b)
  then show ?case by simp
next
  case (2 b c cs)
  consider "c = CHR 0x5C" "cs = []" | d ds where "c = CHR 0x5C" "cs = d # ds"
    | "c \<noteq> CHR 0x5C" "c = CHR ''*'' \<and> \<not> b" | "c \<noteq> CHR 0x5C" "\<not> (c = CHR ''*'' \<and> \<not> b)"
    by (cases cs) auto
  then show ?case
  proof cases
    case (2 d ds)
    with "2.IH"(1) have "fst (scan_chunk b ds) @ snd (scan_chunk b ds) = ds" by blast
    with 2 show ?thesis by (simp add: case_prod_unfold)
  next
    case 4
    with "2.IH"(2) show ?thesis by (simp add: case_prod_unfold)
  qed simp_all
qed

text \<open>The loop that moves the chunk after a star along the name, a byte at a time.\<close>

fun skip_match :: "string \<Rightarrow> bool \<Rightarrow> string \<Rightarrow> string option" where
  "skip_match chunk lastc [] = None"
| "skip_match chunk lastc (a # s) =
     (if a = CHR ''/'' then None
      else (case match_chunk chunk s of
              None \<Rightarrow> skip_match chunk lastc s
            | Some t \<Rightarrow> if lastc \<and> t \<noteq> [] then skip_match chunk lastc s else Some t))"

definition split_pattern :: "string \<Rightarrow> bool \<times> string \<times> string" where
  "split_pattern p =
     (p \<noteq> [] \<and> hd p = CHR ''*'', scan_chunk False (dropWhile (\<lambda>c. c = CHR ''*'') p))"

lemma split_pattern_shorter:
  assumes "split_pattern p = (star, chunk, rest)" "p \<noteq> []"
  shows "length rest < length p"
proof -
  let ?b = "dropWhile (\<lambda>c. c = CHR ''*'') p"
  from assms have s: "scan_chunk False ?b = (chunk, rest)" by (simp add: split_pattern_def)
  have b: "?b = chunk @ rest" using scan_chunk_append [of False ?b] s by simp
  have le: "length ?b \<le> length p" by (rule length_dropWhile_le)
  show ?thesis
  proof (cases "chunk = []")
    case True
    with s have "?b = []"
      by (cases ?b) (auto split: if_splits list.splits prod.splits simp: dropWhile_eq_Cons_conv)
    with b True assms(2) show ?thesis by simp
  next
    case False
    with b have "length rest < length ?b" by simp
    with le show ?thesis by simp
  qed
qed

function glob_match :: "string \<Rightarrow> string \<Rightarrow> bool" where
  "glob_match pattern name =
     (if pattern = [] then name = []
      else (case split_pattern pattern of
              (star, chunk, rest) \<Rightarrow>
                if star \<and> chunk = [] then CHR ''/'' \<notin> set name
                else (case match_chunk chunk name of
                        Some t \<Rightarrow>
                          if t = [] \<or> rest \<noteq> [] then glob_match rest t
                          else if star then
                            (case skip_match chunk (rest = []) name of
                               None \<Rightarrow> False
                             | Some u \<Rightarrow> glob_match rest u)
                          else False
                      | None \<Rightarrow>
                          if star then
                            (case skip_match chunk (rest = []) name of
                               None \<Rightarrow> False
                             | Some u \<Rightarrow> glob_match rest u)
                          else False)))"
  by pat_completeness auto

termination
  by (relation "measure (length \<circ> fst)") (auto dest: split_pattern_shorter [OF sym])

declare glob_match.simps [simp del]

subsection \<open>Literal patterns and trailing stars\<close>

definition literal_pattern :: "string \<Rightarrow> bool" where
  "literal_pattern p = list_all (\<lambda>c. c \<notin> set [CHR ''*'', CHR ''?'', CHR ''['', CHR 0x5C]) p"

lemma literal_pattern_Cons [simp]:
  "literal_pattern (c # p) \<longleftrightarrow>
     c \<noteq> CHR ''*'' \<and> c \<noteq> CHR ''?'' \<and> c \<noteq> CHR ''['' \<and> c \<noteq> CHR 0x5C \<and> literal_pattern p"
  by (auto simp: literal_pattern_def)

lemma literal_pattern_Nil [simp]: "literal_pattern []"
  by (simp add: literal_pattern_def)

lemma literal_pattern_append [simp]:
  "literal_pattern (p @ q) \<longleftrightarrow> literal_pattern p \<and> literal_pattern q"
  by (induction p) auto

lemma match_chunk_literal:
  "literal_pattern p \<Longrightarrow>
     match_chunk p s = (if has_prefix s p then Some (drop (length p) s) else None)"
  by (induction p s rule: match_chunk.induct) auto

lemma scan_chunk_literal: "literal_pattern p \<Longrightarrow> scan_chunk False p = (p, [])"
  by (induction p) auto

lemma scan_chunk_literal_star:
  "literal_pattern p \<Longrightarrow> scan_chunk False (p @ CHR ''*'' # r) = (p, CHR ''*'' # r)"
  by (induction p) auto

lemma dropWhile_literal: "literal_pattern p \<Longrightarrow> p \<noteq> [] \<Longrightarrow> dropWhile (\<lambda>c. c = CHR ''*'') (p @ r) = p @ r"
  by (cases p) auto

lemma glob_match_literal: "literal_pattern p \<Longrightarrow> glob_match p s \<longleftrightarrow> s = p"
proof (cases p)
  case Nil
  then show ?thesis by (simp add: glob_match.simps [of "[]"])
next
  case (Cons c q)
  assume lit: "literal_pattern p"
  from Cons have ne: "p \<noteq> []" by simp
  from Cons lit have sp: "split_pattern p = (False, p, [])"
    using dropWhile_literal [OF lit, of "[]"] by (simp add: split_pattern_def scan_chunk_literal)
  have e: "glob_match [] t \<longleftrightarrow> t = []" for t by (simp add: glob_match.simps)
  have "glob_match p s \<longleftrightarrow> (case match_chunk p s of None \<Rightarrow> False | Some t \<Rightarrow> t = [])"
    using ne by (subst glob_match.simps) (simp add: sp e split: option.split)
  then show ?thesis
    by (auto simp: match_chunk_literal [OF lit] has_prefix_iff)
qed

lemma glob_match_star: "glob_match [CHR ''*''] s \<longleftrightarrow> CHR ''/'' \<notin> set s"
  by (subst glob_match.simps) (simp add: split_pattern_def)

lemma glob_match_prefix:
  assumes "literal_pattern p"
  shows "glob_match (p @ [CHR ''*'']) s \<longleftrightarrow> (\<exists>r. s = p @ r \<and> CHR ''/'' \<notin> set r)"
proof (cases "p = []")
  case True
  then show ?thesis by (simp add: glob_match_star)
next
  case False
  have sp: "split_pattern (p @ [CHR ''*'']) = (False, p, [CHR ''*''])"
    using False assms dropWhile_literal [OF assms False, of "[CHR ''*'']"]
    by (cases p) (simp_all add: split_pattern_def scan_chunk_literal_star)
  show ?thesis
    by (subst glob_match.simps)
       (auto simp: sp match_chunk_literal [OF assms] glob_match_star has_prefix_iff)
qed

lemma glob_examples:
  "glob_match ''a?c'' ''abc''" "\<not> glob_match ''a?c'' ''a/c''"
  "glob_match ''*_send'' ''channel_send''" "glob_match ''[a-c]x'' ''bx''"
  "\<not> glob_match ''[^a-c]x'' ''bx''" "\<not> glob_match ''[a-'' ''a''"
  by (simp_all add: glob_match.simps split_pattern_def char_class_def class_ranges.simps
        class_range_def get_esc_def get_esc_rune_def decode_rune_def byte_of_def in_class_def rune_error_def)

end
