(* ===== verification/GoPath.thy ===== *)
theory GoPath
  imports GoText
begin

text \<open>
  The functions of Go's \<open>path/filepath\<close> the code uses, on Unix paths: \<open>Clean\<close>, \<open>Join\<close>,
  \<open>Base\<close> and \<open>Ext\<close>. \<open>clean_segs\<close> is the lexical loop of \<open>Clean\<close> over the path's elements,
  with the elements kept so far as a stack.
\<close>

abbreviation slash :: char where "slash \<equiv> CHR ''/''"
abbreviation dot :: string where "dot \<equiv> ''.''"
abbreviation dotdot :: string where "dotdot \<equiv> ''..''"

fun split_on :: "char \<Rightarrow> string \<Rightarrow> string list" where
  "split_on d [] = [[]]"
| "split_on d (c # s) =
     (if c = d then [] # split_on d s
      else (case split_on d s of [] \<Rightarrow> [[c]] | x # xs \<Rightarrow> (c # x) # xs))"

fun clean_segs :: "bool \<Rightarrow> string list \<Rightarrow> string list \<Rightarrow> string list" where
  "clean_segs rooted out [] = rev out"
| "clean_segs rooted out (x # xs) =
     (if x = [] \<or> x = dot then clean_segs rooted out xs
      else if x = dotdot then
        (case out of
           [] \<Rightarrow> if rooted then clean_segs rooted [] xs else clean_segs rooted [x] xs
         | y # ys \<Rightarrow>
             if y = dotdot then clean_segs rooted (x # out) xs else clean_segs rooted ys xs)
      else clean_segs rooted (x # out) xs)"

definition is_rooted :: "string \<Rightarrow> bool" where
  "is_rooted p = has_prefix p [slash]"

definition path_segs :: "string \<Rightarrow> string list" where
  "path_segs p = clean_segs (is_rooted p) [] (split_on slash p)"

definition clean_path :: "string \<Rightarrow> string" where
  "clean_path p =
     (if p = [] then dot
      else if is_rooted p then slash # str_join [slash] (path_segs p)
      else if path_segs p = [] then dot
      else str_join [slash] (path_segs p))"

definition join_path :: "string \<Rightarrow> string \<Rightarrow> string" where
  "join_path a b =
     (if a = [] then (if b = [] then [] else clean_path b)
      else if b = [] then clean_path a
      else clean_path (a @ slash # b))"

definition base_path :: "string \<Rightarrow> string" where
  "base_path p =
     (if p = [] then dot
      else (let q = rev (dropWhile (\<lambda>c. c = slash) (rev p));
                e = rev (takeWhile (\<lambda>c. c \<noteq> slash) (rev q))
            in if e = [] then [slash] else e))"

definition path_ext :: "string \<Rightarrow> string" where
  "path_ext p =
     (let e = takeWhile (\<lambda>c. c \<noteq> slash) (rev p)
      in if CHR ''.'' \<in> set e then CHR ''.'' # rev (takeWhile (\<lambda>c. c \<noteq> CHR ''.'') e) else [])"

subsection \<open>Splitting and joining\<close>

lemma split_on_nonempty [simp]: "split_on d s \<noteq> []"
  by (induction s) (auto split: list.splits)

lemma split_on_append: "split_on d (a @ d # b) = split_on d a @ split_on d b"
proof (induction a)
  case Nil
  then show ?case by simp
next
  case (Cons c a)
  then show ?case
    by (cases "split_on d a") (auto split: list.splits simp: neq_Nil_conv dest: arg_cong [of "split_on d a" "[]" length])
qed

lemma split_on_no_sep: "d \<notin> set s \<Longrightarrow> split_on d s = [s]"
  by (induction s) auto

lemma split_on_elems: "x \<in> set (split_on d s) \<Longrightarrow> d \<notin> set x"
proof (induction s arbitrary: x)
  case Nil
  then show ?case by simp
next
  case (Cons c s)
  show ?case
  proof (cases "c = d")
    case True
    with Cons show ?thesis by auto
  next
    case False
    then obtain y ys where y: "split_on d s = y # ys" by (cases "split_on d s") auto
    with False Cons.prems have "x = c # y \<or> x \<in> set ys" by auto
    with Cons.IH y False show ?thesis by (metis list.set_intros(1,2) set_ConsD)
  qed
qed

lemma split_on_no_slash: "list_all (\<lambda>x. d \<notin> set x) (split_on d s)"
  by (auto simp: list_all_iff dest: split_on_elems)

lemma split_on_join:
  "xs \<noteq> [] \<Longrightarrow> (\<And>x. x \<in> set xs \<Longrightarrow> d \<notin> set x) \<Longrightarrow> split_on d (str_join [d] xs) = xs"
  by (induction "[d]" xs rule: str_join.induct) (simp_all add: split_on_no_sep split_on_append)

subsection \<open>What \<open>Clean\<close> leaves\<close>

definition normal_seg :: "string \<Rightarrow> bool" where
  "normal_seg x = (x \<noteq> [] \<and> x \<noteq> dot \<and> x \<noteq> dotdot \<and> slash \<notin> set x)"

lemma clean_segs_normal_rest:
  "list_all normal_seg xs \<Longrightarrow> clean_segs rt out xs = rev out @ xs"
  by (induction xs arbitrary: out) (auto simp: normal_seg_def)

lemma clean_segs_normal:
  "list_all normal_seg out \<Longrightarrow> list_all (\<lambda>x. slash \<notin> set x) xs \<Longrightarrow>
   list_all normal_seg (clean_segs True out xs)"
proof (induction xs arbitrary: out)
  case Nil
  then show ?case by simp
next
  case (Cons x xs)
  then show ?case by (cases out) (auto simp: normal_seg_def)
qed

lemma path_segs_normal: "is_rooted p \<Longrightarrow> list_all normal_seg (path_segs p)"
  by (simp add: path_segs_def clean_segs_normal split_on_no_slash)

lemma clean_segs_append:
  "list_all normal_seg out \<Longrightarrow> list_all (\<lambda>x. slash \<notin> set x) xs \<Longrightarrow>
   clean_segs True out (xs @ ys) = clean_segs True (rev (clean_segs True out xs)) ys"
proof (induction xs arbitrary: out)
  case Nil
  then show ?case by simp
next
  case (Cons x xs)
  then show ?case by (cases out) (auto simp: normal_seg_def)
qed

lemma clean_rooted: "is_rooted p \<Longrightarrow> clean_path p = slash # str_join [slash] (path_segs p)"
  by (auto simp: clean_path_def is_rooted_def)

lemma is_rooted_append: "is_rooted d \<Longrightarrow> is_rooted (d @ k)"
  by (auto simp: is_rooted_def has_prefix_iff)

lemma path_segs_under:
  assumes "is_rooted d" and "list_all normal_seg ks" and "ks \<noteq> []"
  shows "path_segs (d @ slash # str_join [slash] ks) = path_segs d @ ks"
proof -
  have ks: "split_on slash (str_join [slash] ks) = ks"
    using assms(2,3) by (intro split_on_join) (auto simp: list_all_iff normal_seg_def)
  have "clean_segs True [] (split_on slash d @ ks) = clean_segs True [] (split_on slash d) @ ks"
    by (simp add: clean_segs_append split_on_no_slash assms(2) clean_segs_normal_rest)
  with assms(1) show ?thesis
    by (simp add: path_segs_def is_rooted_append split_on_append ks)
qed

lemma str_join_append:
  "xs \<noteq> [] \<Longrightarrow> ys \<noteq> [] \<Longrightarrow> str_join s (xs @ ys) = str_join s xs @ s @ str_join s ys"
proof (induction s xs rule: str_join.induct)
  case (2 s x)
  then show ?case by (cases ys) auto
qed auto

lemma base_path_no_slash:
  assumes "base_path p = p" and "p \<noteq> [slash]"
  shows "slash \<notin> set p"
proof (cases "p = []")
  case True
  with assms show ?thesis by (simp add: base_path_def)
next
  case False
  define q where "q = rev (dropWhile (\<lambda>c. c = slash) (rev p))"
  define e where "e = rev (takeWhile (\<lambda>c. c \<noteq> slash) (rev q))"
  have "base_path p = (if e = [] then [slash] else e)"
    using False by (simp only: base_path_def q_def e_def Let_def if_False)
  with assms have "p = e" by (metis assms)
  then show ?thesis by (auto simp: e_def dest: set_takeWhileD)
qed

end
