(* ===== verification/Store.thy ===== *)
theory Store
  imports GoPath
begin

text \<open>
  The key-value store of \<open>internal/libraries/store\<close>: the \<open>Store\<close> interface as the locale
  \<open>kv_store\<close>, and the filesystem store \<open>FS\<close> that implements it (\<open>fs.go\<close>).

  A value is stored as JSON text. The model keeps the value the reader decodes: \<open>Doc v\<close> for
  text \<open>json.Unmarshal\<close> reads as \<open>v\<close>, \<open>Malformed\<close> for text it rejects, \<open>EmptyFile\<close> for a
  file of no bytes, which readers treat apart. Every call of the operating system takes the
  next outcome of \<open>st_io\<close> (\<open>Good\<close> once the list is used up), so that any call of a run may
  fail; a failing write may leave the file untouched, empty or cut short.
\<close>

datatype 'v doc = Doc 'v | Malformed | EmptyFile

datatype io = Good | Refused | TornEmpty | TornPart

datatype store_error = PathTraversal | IOError

record 'v store =
  st_dir :: string
  st_files :: "string \<Rightarrow> 'v doc option"
  st_io :: "io list"

definition safe_path :: "string \<Rightarrow> string \<Rightarrow> string option" where
  "safe_path dir key =
     (let cleaned = clean_path (join_path dir key); cleaned_dir = clean_path dir
      in if \<not> has_prefix cleaned (cleaned_dir @ [slash]) \<and> cleaned \<noteq> cleaned_dir
         then None else Some cleaned)"

definition next_io :: "'v store \<Rightarrow> io \<times> 'v store" where
  "next_io s = (case st_io s of [] \<Rightarrow> (Good, s) | x # xs \<Rightarrow> (x, s\<lparr>st_io := xs\<rparr>))"

definition store_get :: "string \<Rightarrow> 'v store \<Rightarrow> (store_error + 'v doc option) \<times> 'v store" where
  "store_get key s =
     (case safe_path (st_dir s) key of
        None \<Rightarrow> (Inl PathTraversal, s)
      | Some p \<Rightarrow>
          (case next_io s of
             (outcome, s') \<Rightarrow>
               if p = clean_path (st_dir s) \<or> outcome \<noteq> Good then (Inl IOError, s')
               else (Inr (st_files s' p), s')))"

definition store_set :: "string \<Rightarrow> 'v \<Rightarrow> 'v store \<Rightarrow> store_error option \<times> 'v store" where
  "store_set key v s =
     (case safe_path (st_dir s) key of
        None \<Rightarrow> (Some PathTraversal, s)
      | Some p \<Rightarrow>
          (case next_io s of
             (outcome, s') \<Rightarrow>
               if p = clean_path (st_dir s) then (Some IOError, s')
               else (case outcome of
                       Good \<Rightarrow> (None, s'\<lparr>st_files := (st_files s')(p := Some (Doc v))\<rparr>)
                     | Refused \<Rightarrow> (Some IOError, s')
                     | TornEmpty \<Rightarrow>
                         (Some IOError, s'\<lparr>st_files := (st_files s')(p := Some EmptyFile)\<rparr>)
                     | TornPart \<Rightarrow>
                         (Some IOError, s'\<lparr>st_files := (st_files s')(p := Some Malformed)\<rparr>))))"

definition store_delete :: "string \<Rightarrow> 'v store \<Rightarrow> store_error option \<times> 'v store" where
  "store_delete key s =
     (case safe_path (st_dir s) key of
        None \<Rightarrow> (Some PathTraversal, s)
      | Some p \<Rightarrow>
          (case next_io s of
             (outcome, s') \<Rightarrow>
               if outcome \<noteq> Good then (Some IOError, s')
               else (None, s'\<lparr>st_files := (st_files s')(p := None)\<rparr>)))"

text \<open>What the store holds under a key, read without touching the outside world.\<close>

definition store_view :: "'v store \<Rightarrow> string \<Rightarrow> 'v doc option" where
  "store_view s key =
     (case safe_path (st_dir s) key of None \<Rightarrow> None | Some p \<Rightarrow> st_files s p)"

definition same_loc :: "'v store \<Rightarrow> string \<Rightarrow> string \<Rightarrow> bool" where
  "same_loc s k j = (safe_path (st_dir s) k = safe_path (st_dir s) j)"

definition fresh_store :: "'v store" where
  "fresh_store = \<lparr>st_dir = ''/data'', st_files = (\<lambda>_. None), st_io = []\<rparr>"

subsection \<open>The interface\<close>

text \<open>
  What a client of \<open>Store\<close> relies on. \<open>view\<close> is the stored value under a key and \<open>same\<close> says
  when two keys name one place (\<open>a//b\<close> and \<open>a/b\<close> do). A successful write is what a later
  read returns, nothing else changes, and a failing delete changes nothing.
\<close>

locale kv_store =
  fixes get :: "string \<Rightarrow> 's \<Rightarrow> ('e + 'v doc option) \<times> 's"
    and set :: "string \<Rightarrow> 'v \<Rightarrow> 's \<Rightarrow> 'e option \<times> 's"
    and delete :: "string \<Rightarrow> 's \<Rightarrow> 'e option \<times> 's"
    and view :: "'s \<Rightarrow> string \<Rightarrow> 'v doc option"
    and same :: "'s \<Rightarrow> string \<Rightarrow> string \<Rightarrow> bool"
  assumes get_ok: "get k s = (Inr d, s') \<Longrightarrow> d = view s k"
    and get_frame: "get k s = (r, s') \<Longrightarrow> view s' = view s \<and> same s' = same s"
    and set_ok: "set k v s = (None, s') \<Longrightarrow> view s' k = Some (Doc v)"
    and set_frame: "set k v s = (u, s') \<Longrightarrow> \<not> same s k j \<Longrightarrow> view s' j = view s j"
    and set_same: "set k v s = (u, s') \<Longrightarrow> same s' = same s"
    and delete_ok: "delete k s = (None, s') \<Longrightarrow> view s' k = None"
    and delete_fail: "delete k s = (Some e, s') \<Longrightarrow> view s' = view s"
    and delete_frame: "delete k s = (u, s') \<Longrightarrow> \<not> same s k j \<Longrightarrow> view s' j = view s j"
    and same_refl: "same s k k"
begin

text \<open>
  A read-modify-write of one key, the shape every list of records in the program is kept in:
  it either reports an error or leaves exactly the new value under the key.
\<close>

lemma update_reads_back:
  assumes "get k s = (Inr d, s1)" and "set k (f d) s1 = (None, s2)"
  shows "view s2 k = Some (Doc (f (view s k)))"
  using set_ok [OF assms(2)] get_ok [OF assms(1)] by simp

lemma update_frame:
  assumes "get k s = (r, s1)" and "set k v s1 = (r', s2)" and "\<not> same s k j"
  shows "view s2 j = view s j"
proof -
  from get_frame [OF assms(1)] have "view s1 = view s" "same s1 = same s" by simp_all
  with assms(3) set_frame [OF assms(2), of j] show ?thesis by simp
qed

lemma get_after_set:
  assumes "set k v s = (None, s1)" and "get k s1 = (Inr d, s2)"
  shows "d = Some (Doc v)"
  using get_ok [OF assms(2)] set_ok [OF assms(1)] by simp

lemma get_after_delete:
  assumes "delete k s = (None, s1)" and "get k s1 = (Inr d, s2)"
  shows "d = None"
  using get_ok [OF assms(2)] delete_ok [OF assms(1)] by simp

end

subsection \<open>The filesystem store implements it\<close>

lemma next_io_frame: "next_io s = (x, s') \<Longrightarrow> st_files s' = st_files s \<and> st_dir s' = st_dir s"
  by (auto simp: next_io_def split: list.splits)

lemma store_get_dir: "store_get k s = (r, s') \<Longrightarrow> st_dir s' = st_dir s"
  by (auto dest!: next_io_frame simp: store_get_def split: option.splits prod.splits if_splits)

lemma store_set_dir: "store_set k v s = (r, s') \<Longrightarrow> st_dir s' = st_dir s"
  by (auto dest!: next_io_frame simp: store_set_def split: option.splits prod.splits if_splits io.splits)

lemma store_delete_dir: "store_delete k s = (r, s') \<Longrightarrow> st_dir s' = st_dir s"
  by (auto dest!: next_io_frame simp: store_delete_def split: option.splits prod.splits if_splits)

interpretation fs: kv_store store_get store_set store_delete store_view same_loc
proof unfold_locales
  fix k j :: string and v :: 'a and s s' :: "'a store" and d r r' and e :: store_error
  show "store_get k s = (Inr d, s') \<Longrightarrow> d = store_view s k"
    by (auto dest!: next_io_frame simp: store_get_def store_view_def split: option.splits prod.splits if_splits)
  show "store_get k s = (r, s') \<Longrightarrow> store_view s' = store_view s \<and> same_loc s' = same_loc s"
    by (auto dest!: next_io_frame simp: store_get_def store_view_def same_loc_def fun_eq_iff
        split: option.splits prod.splits if_splits)
  show "store_set k v s = (None, s') \<Longrightarrow> store_view s' k = Some (Doc v)"
    by (auto dest!: next_io_frame simp: store_set_def store_view_def split: option.splits prod.splits if_splits io.splits)
  show "store_set k v s = (r', s') \<Longrightarrow> \<not> same_loc s k j \<Longrightarrow> store_view s' j = store_view s j"
    by (auto dest!: next_io_frame simp: store_set_def store_view_def same_loc_def
        split: option.splits prod.splits if_splits io.splits)
  show "store_set k v s = (r', s') \<Longrightarrow> same_loc s' = same_loc s"
    by (auto simp: same_loc_def fun_eq_iff dest: store_set_dir)
  show "store_delete k s = (None, s') \<Longrightarrow> store_view s' k = None"
    by (auto dest!: next_io_frame simp: store_delete_def store_view_def split: option.splits prod.splits if_splits)
  show "store_delete k s = (Some e, s') \<Longrightarrow> store_view s' = store_view s"
    by (auto dest!: next_io_frame simp: store_delete_def store_view_def split: option.splits prod.splits if_splits)
  show "store_delete k s = (r', s') \<Longrightarrow> \<not> same_loc s k j \<Longrightarrow> store_view s' j = store_view s j"
    by (auto dest!: next_io_frame simp: store_delete_def store_view_def same_loc_def
        split: option.splits prod.splits if_splits)
  show "same_loc s k k" by (simp add: same_loc_def)
qed

lemmas store_laws_fs [store_laws] =
  fs.get_ok fs.set_ok fs.delete_ok fs.get_after_set fs.get_after_delete
lemmas frame_laws_fs [frame_laws] =
  fs.get_frame fs.set_frame fs.delete_fail fs.delete_frame

subsection \<open>When nothing fails\<close>

definition writable :: "'v store \<Rightarrow> string \<Rightarrow> bool" where
  "writable s k =
     (st_io s = [] \<and>
      (case safe_path (st_dir s) k of None \<Rightarrow> False | Some p \<Rightarrow> p \<noteq> clean_path (st_dir s)))"

lemma get_writable: "writable s k \<Longrightarrow> store_get k s = (Inr (store_view s k), s)"
  by (auto simp: writable_def store_get_def store_view_def next_io_def split: option.splits)

lemma set_writable:
  "writable s k \<Longrightarrow> \<exists>s'. store_set k v s = (None, s') \<and> writable s' k \<and> store_view s' k = Some (Doc v)"
  by (auto simp: writable_def store_set_def store_view_def next_io_def split: option.splits)

lemma delete_writable:
  "writable s k \<Longrightarrow> \<exists>s'. store_delete k s = (None, s') \<and> writable s' k \<and> store_view s' k = None"
  by (auto simp: writable_def store_delete_def store_view_def next_io_def split: option.splits)

lemma data_dir_clean [simp]: "clean_path ''/data'' = ''/data''"
  by code_simp

text \<open>A store that answers and holds one document, for concrete runs.\<close>

definition doc_holding :: "string \<Rightarrow> 'v \<Rightarrow> 'v store" where
  "doc_holding key v = fresh_store\<lparr>st_files := (\<lambda>p. if safe_path ''/data'' key = Some p then Some (Doc v) else None)\<rparr>"

lemma fresh_writable:
  "safe_path ''/data'' key = Some p \<Longrightarrow> p \<noteq> clean_path ''/data'' \<Longrightarrow> writable fresh_store key"
  by (simp add: writable_def fresh_store_def)

lemma doc_holding_writable:
  "safe_path ''/data'' key = Some p \<Longrightarrow> p \<noteq> clean_path ''/data'' \<Longrightarrow> writable (doc_holding key v) key"
  by (simp add: writable_def doc_holding_def fresh_store_def)

lemma doc_holding_view:
  "safe_path ''/data'' key = Some p \<Longrightarrow> store_view (doc_holding key v) key = Some (Doc v)"
  by (simp add: store_view_def doc_holding_def fresh_store_def)

lemma fresh_view [simp]: "store_view fresh_store key = None"
  by (simp add: store_view_def fresh_store_def split: option.split)

subsection \<open>A key never leaves the store's directory\<close>

lemma split_clean_rooted:
  assumes "is_rooted p"
  shows "split_on slash (clean_path p) = (if path_segs p = [] then [[], []] else [] # path_segs p)"
proof (cases "path_segs p = []")
  case True
  with assms show ?thesis by (simp add: clean_rooted)
next
  case False
  have "split_on slash (str_join [slash] (path_segs p)) = path_segs p"
    using path_segs_normal [OF assms] False
    by (intro split_on_join) (auto simp: list_all_iff normal_seg_def)
  with assms False show ?thesis by (simp add: clean_rooted)
qed

lemma clean_path_rooted [simp]: "is_rooted p \<Longrightarrow> is_rooted (clean_path p)"
  by (simp add: clean_rooted is_rooted_def)

lemma clean_path_no_dotdot: "is_rooted p \<Longrightarrow> dotdot \<notin> set (split_on slash (clean_path p))"
  using path_segs_normal [of p]
  by (auto simp: split_clean_rooted list_all_iff normal_seg_def)

lemma join_path_clean:
  "d \<noteq> [] \<Longrightarrow> \<exists>q. join_path d k = clean_path (d @ q)"
  by (auto simp: join_path_def intro: exI [of _ "[]"])

lemma rooted_nonempty: "is_rooted d \<Longrightarrow> d \<noteq> []"
  by (auto simp: is_rooted_def)

text \<open>
  Whatever the key, a file the store opens lies under its directory: the path has the
  directory's own elements first and no \<open>..\<close> element after cleaning, so a key that holds
  \<open>../\<close> sequences is refused or stays inside.
\<close>

theorem safe_path_contained:
  assumes "is_rooted d" and "safe_path d k = Some p"
  shows "(\<exists>ks. split_on slash p = split_on slash (clean_path d) @ ks) \<and>
         dotdot \<notin> set (split_on slash p)"
proof -
  obtain q where q: "join_path d k = clean_path (d @ q)"
    using join_path_clean rooted_nonempty [OF assms(1)] by blast
  have r: "is_rooted (join_path d k)"
    using assms(1) by (simp add: q is_rooted_append)
  from assms(2) have p: "p = clean_path (join_path d k)"
    and pre: "has_prefix p (clean_path d @ [slash]) \<or> p = clean_path d"
    by (auto simp: safe_path_def Let_def split: if_splits)
  from pre have "\<exists>ks. split_on slash p = split_on slash (clean_path d) @ ks"
    by (auto simp: has_prefix_iff split_on_append)
  with clean_path_no_dotdot [OF r] p show ?thesis by simp
qed

theorem safe_path_contained_witness:
  "is_rooted ''/data'' \<and> safe_path ''/data'' ''a/../outbox/c'' = Some ''/data/outbox/c'' \<and>
   dotdot \<notin> set (split_on slash ''/data/outbox/c'')"
proof -
  have r: "is_rooted ''/data''" by (simp add: is_rooted_def)
  have s: "safe_path ''/data'' ''a/../outbox/c'' = Some ''/data/outbox/c''" by code_simp
  from r s safe_path_contained [OF r s] show ?thesis by simp
qed

end
