(* ===== verification/Registry.thy ===== *)
theory Registry
  imports Store
begin

text \<open>
  The shape in which the program keeps its collections (schedules, notification
  subscriptions, credential sets, remote MCP servers): one JSON list under one store key,
  read whole, changed and written back. The interface \<open>id_registry\<close> states what an add and a
  remove promise of such a collection, and its lemmas are proved once; each store interprets
  it on its own operations.
\<close>

datatype 'k list_error =
    ListRead store_error | ListParse | ListSave store_error | AlreadyExists 'k | NotFound 'k

text \<open>\<open>len(data) == 0\<close> covers a missing key and a file of no bytes.\<close>

definition list_decode :: "'v list doc option \<Rightarrow> 'k list_error + 'v list" where
  "list_decode d =
     (case d of None \<Rightarrow> Inr [] | Some EmptyFile \<Rightarrow> Inr [] | Some Malformed \<Rightarrow> Inl ListParse
              | Some (Doc xs) \<Rightarrow> Inr xs)"

definition list_read :: "string \<Rightarrow> 'v list store \<Rightarrow> ('k list_error + 'v list) \<times> 'v list store" where
  "list_read key st =
     (case store_get key st of
        (Inl e, st') \<Rightarrow> (Inl (ListRead e), st')
      | (Inr d, st') \<Rightarrow> (list_decode d, st'))"

definition list_write :: "string \<Rightarrow> 'v list \<Rightarrow> 'v list store \<Rightarrow> 'k list_error option \<times> 'v list store" where
  "list_write key xs st =
     (case store_set key xs st of
        (Some e, st') \<Rightarrow> (Some (ListSave e), st')
      | (None, st') \<Rightarrow> (None, st'))"

text \<open>What the list is, read without touching the outside world; \<open>None\<close> when it does not parse.\<close>

definition list_view :: "string \<Rightarrow> 'v list store \<Rightarrow> 'v list option" where
  "list_view key st =
     (case store_view st key of
        None \<Rightarrow> Some [] | Some EmptyFile \<Rightarrow> Some [] | Some Malformed \<Rightarrow> None | Some (Doc xs) \<Rightarrow> Some xs)"

fun update_first :: "('v \<Rightarrow> bool) \<Rightarrow> ('v \<Rightarrow> 'v) \<Rightarrow> 'v list \<Rightarrow> 'v list" where
  "update_first P f [] = []"
| "update_first P f (x # xs) = (if P x then f x # xs else x # update_first P f xs)"

lemma update_first_keys:
  "(\<And>x. P x \<Longrightarrow> key (f x) = key x) \<Longrightarrow> map key (update_first P f xs) = map key xs"
  by (induction xs) auto

lemma length_update_first [simp]: "length (update_first P f xs) = length xs"
  by (induction xs) auto

lemma set_update_first: "y \<in> set (update_first P f xs) \<Longrightarrow> y \<in> set xs \<or> (\<exists>x \<in> set xs. P x \<and> y = f x)"
  by (induction xs) (auto split: if_splits)

lemma find_update_first:
  "(\<And>x. key x = k \<Longrightarrow> key (f x) = k) \<Longrightarrow>
   find (\<lambda>x. key x = j) (update_first (\<lambda>x. key x = k) f xs) =
     (if j = k then map_option f (find (\<lambda>x. key x = k) xs) else find (\<lambda>x. key x = j) xs)"
  by (induction xs) auto

lemma list_decode_view: "list_decode (store_view st key) = Inr xs \<longleftrightarrow> list_view key st = Some xs"
  by (auto simp: list_decode_def list_view_def split: option.splits doc.splits)

lemma list_read_view: "list_read key st = (Inr xs, st') \<Longrightarrow> list_view key st = Some xs"
  by (auto simp: list_read_def list_decode_view split: prod.splits sum.splits dest!: fs.get_ok)

lemma list_read_frame: "list_read key st = (r, st') \<Longrightarrow> store_view st' = store_view st"
  by (auto simp: list_read_def split: prod.splits sum.splits dest!: fs.get_frame)

lemma list_read_keeps: "list_read key st = (r, st') \<Longrightarrow> list_view k st' = list_view k st"
  by (simp add: list_view_def list_read_frame)

lemma list_write_ok: "list_write key xs st = (None, st') \<Longrightarrow> list_view key st' = Some xs"
  by (auto simp: list_write_def list_view_def split: prod.splits option.splits dest!: fs.set_ok)

text \<open>A write that fails leaves the list alone, empty or unreadable.\<close>

lemma store_set_fail:
  "store_set k v s = (Some e, s') \<Longrightarrow>
     store_view s' k \<in> {store_view s k, Some EmptyFile, Some Malformed}"
  by (auto dest!: next_io_frame simp: store_set_def store_view_def
      split: option.splits prod.splits if_splits io.splits)

lemma list_write_fail:
  "list_write key xs st = (Some e, st') \<Longrightarrow>
     list_view key st' \<in> {list_view key st, Some [], None}"
proof -
  assume "list_write key xs st = (Some e, st')"
  then obtain e' where "store_set key xs st = (Some e', st')"
    by (auto simp: list_write_def split: prod.splits option.splits)
  from store_set_fail [OF this] show ?thesis
    by (auto simp: list_view_def)
qed

lemma list_rewrite_fail:
  "list_read key st = (r, st1) \<Longrightarrow> list_write key xs st1 = (Some e, st') \<Longrightarrow>
     list_view key st' = list_view key st \<or> list_view key st' = Some [] \<or> list_view key st' = None"
  using list_write_fail [of key xs st1 e st'] list_read_keeps [of key st r st1 key] by auto

lemma list_read_writable:
  "writable st key \<Longrightarrow> list_view key st = Some xs \<Longrightarrow> list_read key st = (Inr xs, st)"
  by (simp add: list_read_def get_writable list_decode_view)

lemma list_write_writable:
  "writable st key \<Longrightarrow>
     \<exists>st'. list_write key xs st = (None, st') \<and> writable st' key \<and> list_view key st' = Some xs"
  using set_writable [of st key xs] by (auto simp: list_write_def list_view_def)

text \<open>A store that answers and holds one list: the concrete states the examples run on.\<close>

definition store_holding :: "string \<Rightarrow> 'v list \<Rightarrow> 'v list store" where
  "store_holding key xs = fresh_store\<lparr>st_files := (\<lambda>p. if safe_path ''/data'' key = Some p then Some (Doc xs) else None)\<rparr>"

lemma store_holding_writable:
  "safe_path ''/data'' key = Some p \<Longrightarrow> p \<noteq> clean_path ''/data'' \<Longrightarrow> writable (store_holding key xs) key"
  by (simp add: writable_def store_holding_def fresh_store_def)

lemma store_holding_view:
  "safe_path ''/data'' key = Some p \<Longrightarrow> list_view key (store_holding key xs) = Some xs"
  by (simp add: list_view_def store_view_def store_holding_def fresh_store_def)

lemma store_holding_read:
  "safe_path ''/data'' key = Some p \<Longrightarrow> p \<noteq> ''/data'' \<Longrightarrow>
     list_read key (store_holding key xs) = (Inr xs, store_holding key xs)"
  by (rule list_read_writable) (simp_all add: store_holding_writable store_holding_view)

lemma store_holding_write:
  "safe_path ''/data'' key = Some p \<Longrightarrow> p \<noteq> ''/data'' \<Longrightarrow>
     \<exists>st'. list_write key ys (store_holding key xs) = (None, st') \<and> writable st' key \<and>
           list_view key st' = Some ys"
  by (rule list_write_writable) (simp add: store_holding_writable)

subsection \<open>The interface\<close>

text \<open>
  \<open>entries s\<close> is the collection (\<open>None\<close> when it cannot be parsed), \<open>item a\<close> the record an add
  request makes. A failing operation leaves the collection alone, empty or unreadable: a
  write the disk cut short does no better.
\<close>

locale id_registry =
  fixes key :: "'v \<Rightarrow> 'k"
    and item :: "'a \<Rightarrow> 'v"
    and entries :: "'s \<Rightarrow> 'v list option"
    and add :: "'a \<Rightarrow> 's \<Rightarrow> 'e option \<times> 's"
    and remove :: "'k \<Rightarrow> 's \<Rightarrow> 'e option \<times> 's"
  assumes add_ok: "add a s = (None, s') \<Longrightarrow>
      \<exists>xs. entries s = Some xs \<and> key (item a) \<notin> key ` set xs \<and> entries s' = Some (xs @ [item a])"
    and add_fail: "add a s = (Some e, s') \<Longrightarrow> entries s' \<in> {entries s, Some [], None}"
    and remove_ok: "remove k s = (None, s') \<Longrightarrow>
      \<exists>xs. entries s = Some xs \<and> k \<in> key ` set xs \<and>
           entries s' = Some (filter (\<lambda>v. key v \<noteq> k) xs)"
    and remove_fail: "remove k s = (Some e, s') \<Longrightarrow> entries s' \<in> {entries s, Some [], None}"
begin

lemma add_distinct:
  assumes "add a s = (r, s')" and "\<And>xs. entries s = Some xs \<Longrightarrow> distinct (map key xs)"
    and "entries s' = Some ys"
  shows "distinct (map key ys)"
proof (cases r)
  case None
  with assms add_ok [of a s s'] show ?thesis by auto
next
  case (Some e)
  with assms add_fail [of a s e s'] show ?thesis by auto
qed

lemma remove_distinct:
  assumes "remove k s = (r, s')" and "\<And>xs. entries s = Some xs \<Longrightarrow> distinct (map key xs)"
    and "entries s' = Some ys"
  shows "distinct (map key ys)"
proof (cases r)
  case None
  with assms remove_ok [of k s s'] show ?thesis by (auto intro: distinct_map_filterI)
next
  case (Some e)
  with assms remove_fail [of k s e s'] show ?thesis by auto
qed

lemma run_distinct:
  assumes "\<And>xs. entries s = Some xs \<Longrightarrow> distinct (map key xs)"
    and "entries (fold (\<lambda>req. case req of Inl a \<Rightarrow> snd \<circ> add a | Inr k \<Rightarrow> snd \<circ> remove k) reqs s) = Some ys"
  shows "distinct (map key ys)"
  using assms
proof (induction reqs arbitrary: s)
  case Nil
  then show ?case by simp
next
  case (Cons req reqs)
  let ?s = "(case req of Inl a \<Rightarrow> snd \<circ> add a | Inr k \<Rightarrow> snd \<circ> remove k) s"
  have "distinct (map key zs)" if "entries ?s = Some zs" for zs
    using that Cons.prems(1)
    by (cases req) (auto intro: add_distinct [OF surjective_pairing] remove_distinct [OF surjective_pairing])
  from Cons.IH [OF this] Cons.prems(2) show ?case by simp
qed

lemma add_lookup:
  assumes "add a s = (None, s')"
  shows "Option.bind (entries s') (find (\<lambda>v. key v = k)) =
           (if k = key (item a) then Some (item a) else Option.bind (entries s) (find (\<lambda>v. key v = k)))"
proof -
  from add_ok [OF assms] obtain xs where xs:
    "entries s = Some xs" "key (item a) \<notin> key ` set xs" "entries s' = Some (xs @ [item a])" by blast
  then have "find (\<lambda>v. key v = key (item a)) xs = None"
    by (auto simp: find_None_iff image_iff)
  with xs show ?thesis by (auto simp: find_append split: option.splits)
qed

lemma remove_lookup:
  assumes "remove k s = (None, s')"
  shows "Option.bind (entries s') (find (\<lambda>v. key v = j)) =
           (if j = k then None else Option.bind (entries s) (find (\<lambda>v. key v = j)))"
proof -
  from remove_ok [OF assms] obtain xs where
    "entries s = Some xs" "entries s' = Some (filter (\<lambda>v. key v \<noteq> k) xs)" by blast
  then show ?thesis
    by (cases "j = k") (simp_all add: find_filter_None
        find_filter_same [of "\<lambda>v. key v = j" "\<lambda>v. key v \<noteq> k"])
qed

lemma add_then_remove:
  assumes "add a s = (None, s1)" and "remove (key (item a)) s1 = (None, s2)"
  shows "entries s2 = entries s"
  using add_ok [OF assms(1)] remove_ok [OF assms(2)] by (auto simp: filter_other_if_new)

lemma remove_absent: "remove k s = (None, s') \<Longrightarrow> entries s' = Some ys \<Longrightarrow> k \<notin> key ` set ys"
  by (auto dest!: remove_ok)

end

end
