(* ===== verification/Secrets.thy ===== *)
theory Secrets
  imports Registry
begin

text \<open>
  The encrypted secret store (\<open>internal/libraries/secret/encrypted.go\<close>) and the values the
  program keeps in it: plain texts, the OAuth tokens of a credential set
  (\<open>internal/credential/credentialset.go\<close>) and the authorisation of a remote MCP server
  (\<open>internal/remotemcpstore\<close>).

  A secret is a file under the store's directory. The model keeps what the file decrypts to
  with this user's key: \<open>Doc v\<close> for a file sealed with it, \<open>Malformed\<close> for one that does not
  open, \<open>EmptyFile\<close> for one shorter than a nonce; the cipher itself is a library.
\<close>

record oauth_tokens =
  ot_access :: string
  ot_refresh :: string
  ot_expires_at :: time

record pending_exchange =
  pe_verifier :: string
  pe_state :: string
  pe_redirect_uri :: string
  pe_started_at :: time

record remote_mcp_auth =
  ra_issuer :: string
  ra_authorization_endpoint :: string
  ra_token_endpoint :: string
  ra_registration_endpoint :: string
  ra_client_id :: string
  ra_client_secret :: string
  ra_access_token :: string
  ra_refresh_token :: string
  ra_token_expiry :: time
  ra_pending :: "pending_exchange option"
  ra_static_headers :: "(string \<times> string) list"

text \<open>
  A secret's text: a plain value, or the JSON text of one of the two records.
\<close>

datatype secret_value = PlainText string | TokensText oauth_tokens | AuthText remote_mcp_auth

type_synonym secrets = "secret_value store"

datatype secret_error = SecretPath | SecretRead | SecretTooShort | SecretUndecryptable | SecretWrite | SecretDelete

definition secret_safe_path :: "string \<Rightarrow> string \<Rightarrow> string option" where
  "secret_safe_path dir key =
     (let cleaned = clean_path (join_path dir key); cleaned_dir = clean_path dir
      in if \<not> has_prefix cleaned (cleaned_dir @ [slash]) \<and> cleaned \<noteq> cleaned_dir
         then None else Some cleaned)"

definition secret_get :: "string \<Rightarrow> secrets \<Rightarrow> (secret_error + secret_value) \<times> secrets" where
  "secret_get key s =
     (case secret_safe_path (st_dir s) key of
        None \<Rightarrow> (Inl SecretPath, s)
      | Some p \<Rightarrow>
          (case next_io s of
             (outcome, s') \<Rightarrow>
               if p = clean_path (st_dir s) \<or> outcome \<noteq> Good then (Inl SecretRead, s')
               else (case st_files s' p of
                       None \<Rightarrow> (Inr (PlainText []), s')
                     | Some EmptyFile \<Rightarrow> (Inl SecretTooShort, s')
                     | Some Malformed \<Rightarrow> (Inl SecretUndecryptable, s')
                     | Some (Doc v) \<Rightarrow> (Inr v, s'))))"

definition secret_set :: "string \<Rightarrow> secret_value \<Rightarrow> secrets \<Rightarrow> secret_error option \<times> secrets" where
  "secret_set key v s =
     (case secret_safe_path (st_dir s) key of
        None \<Rightarrow> (Some SecretPath, s)
      | Some p \<Rightarrow>
          (case next_io s of
             (outcome, s') \<Rightarrow>
               if p = clean_path (st_dir s) then (Some SecretWrite, s')
               else (case outcome of
                       Good \<Rightarrow> (None, s'\<lparr>st_files := (st_files s')(p := Some (Doc v))\<rparr>)
                     | Refused \<Rightarrow> (Some SecretWrite, s')
                     | TornEmpty \<Rightarrow> (Some SecretWrite, s'\<lparr>st_files := (st_files s')(p := Some EmptyFile)\<rparr>)
                     | TornPart \<Rightarrow> (Some SecretWrite, s'\<lparr>st_files := (st_files s')(p := Some Malformed)\<rparr>))))"

definition secret_delete :: "string \<Rightarrow> secrets \<Rightarrow> secret_error option \<times> secrets" where
  "secret_delete key s =
     (case secret_safe_path (st_dir s) key of
        None \<Rightarrow> (Some SecretPath, s)
      | Some p \<Rightarrow>
          (case next_io s of
             (outcome, s') \<Rightarrow>
               if outcome \<noteq> Good then (Some SecretDelete, s')
               else (None, s'\<lparr>st_files := (st_files s')(p := None)\<rparr>)))"

text \<open>The two stores guard their keys alike, so the containment of one is that of the other.\<close>

lemma secret_safe_path_eq: "secret_safe_path = safe_path"
  by (intro ext) (simp add: secret_safe_path_def safe_path_def)

text \<open>The raw read behind \<open>Get\<close>, in the shape of the key-value interface.\<close>

definition secret_raw_get :: "string \<Rightarrow> secrets \<Rightarrow> (secret_error + secret_value doc option) \<times> secrets" where
  "secret_raw_get key s =
     (case store_get key s of
        (Inl PathTraversal, s') \<Rightarrow> (Inl SecretPath, s')
      | (Inl IOError, s') \<Rightarrow> (Inl SecretRead, s')
      | (Inr d, s') \<Rightarrow> (Inr d, s'))"

lemma secret_get_raw:
  "secret_get key s =
     (case secret_raw_get key s of
        (Inl e, s') \<Rightarrow> (Inl e, s')
      | (Inr None, s') \<Rightarrow> (Inr (PlainText []), s')
      | (Inr (Some EmptyFile), s') \<Rightarrow> (Inl SecretTooShort, s')
      | (Inr (Some Malformed), s') \<Rightarrow> (Inl SecretUndecryptable, s')
      | (Inr (Some (Doc v)), s') \<Rightarrow> (Inr v, s'))"
  by (auto simp: secret_get_def secret_raw_get_def store_get_def secret_safe_path_eq
      split: option.splits prod.splits doc.splits)

lemma secret_set_store:
  "secret_set key v s = (case store_set key v s of
     (None, s') \<Rightarrow> (None, s') | (Some PathTraversal, s') \<Rightarrow> (Some SecretPath, s')
   | (Some IOError, s') \<Rightarrow> (Some SecretWrite, s'))"
  by (auto simp: secret_set_def store_set_def secret_safe_path_eq split: option.splits prod.splits io.splits)

lemma secret_delete_store:
  "secret_delete key s = (case store_delete key s of
     (None, s') \<Rightarrow> (None, s') | (Some PathTraversal, s') \<Rightarrow> (Some SecretPath, s')
   | (Some IOError, s') \<Rightarrow> (Some SecretDelete, s'))"
  by (auto simp: secret_delete_def store_delete_def secret_safe_path_eq split: option.splits prod.splits)

lemma secret_raw_get_store:
  "secret_raw_get k s = (r, s') \<Longrightarrow> \<exists>r0. store_get k s = (r0, s')"
  by (auto simp: secret_raw_get_def split: prod.splits sum.splits store_error.splits)

lemma secret_raw_get_ok: "secret_raw_get k s = (Inr d, s') \<Longrightarrow> store_get k s = (Inr d, s')"
  by (auto simp: secret_raw_get_def split: prod.splits sum.splits store_error.splits)

lemma secret_set_None: "secret_set k v s = (r, s') \<Longrightarrow> \<exists>r0. store_set k v s = (r0, s') \<and> (r = None \<longleftrightarrow> r0 = None)"
  by (auto simp: secret_set_store split: prod.splits option.splits store_error.splits)

lemma secret_delete_None:
  "secret_delete k s = (r, s') \<Longrightarrow> \<exists>r0. store_delete k s = (r0, s') \<and> (r = None \<longleftrightarrow> r0 = None)"
  by (auto simp: secret_delete_store split: prod.splits option.splits store_error.splits)

interpretation sec: kv_store secret_raw_get secret_set secret_delete store_view same_loc
proof unfold_locales
  fix k j :: string and v s s' d r r' and e :: secret_error
  show "secret_raw_get k s = (Inr d, s') \<Longrightarrow> d = store_view s k"
    using secret_raw_get_ok fs.get_ok by blast
  show "secret_raw_get k s = (r, s') \<Longrightarrow> store_view s' = store_view s \<and> same_loc s' = same_loc s"
    using secret_raw_get_store fs.get_frame by meson
  show "secret_set k v s = (None, s') \<Longrightarrow> store_view s' k = Some (Doc v)"
    by (auto dest!: secret_set_None intro: fs.set_ok)
  show "secret_set k v s = (r', s') \<Longrightarrow> \<not> same_loc s k j \<Longrightarrow> store_view s' j = store_view s j"
    using secret_set_None fs.set_frame by meson
  show "secret_set k v s = (r', s') \<Longrightarrow> same_loc s' = same_loc s"
    using secret_set_None fs.set_same by meson
  show "secret_delete k s = (None, s') \<Longrightarrow> store_view s' k = None"
    by (auto dest!: secret_delete_None intro: fs.delete_ok)
  show "secret_delete k s = (Some e, s') \<Longrightarrow> store_view s' = store_view s"
    using secret_delete_None [of k s "Some e" s'] fs.delete_fail [of k s _ s'] by fastforce
  show "secret_delete k s = (r', s') \<Longrightarrow> \<not> same_loc s k j \<Longrightarrow> store_view s' j = store_view s j"
    using secret_delete_None fs.delete_frame by meson
  show "same_loc s k k" by (simp add: same_loc_def)
qed

lemmas store_laws_sec [store_laws] =
  sec.get_ok sec.set_ok sec.delete_ok sec.get_after_set sec.get_after_delete
lemmas frame_laws_sec [frame_laws] = sec.get_frame sec.set_frame sec.delete_fail sec.delete_frame

lemma secret_set_then_get:
  assumes "secret_set k v s = (None, s1)" and "secret_get k s1 = (Inr u, s2)"
  shows "u = v"
proof -
  from assms(2) obtain d where "secret_raw_get k s1 = (Inr d, s2)"
    by (auto simp: secret_get_raw split: prod.splits sum.splits option.splits doc.splits)
  with sec.get_after_set [OF assms(1) this] assms(2) show ?thesis
    by (simp add: secret_get_raw)
qed

lemma secret_get_value:
  "secret_get k s = (Inr v, s') \<Longrightarrow> store_view s k = Some (Doc v) \<or> (store_view s k = None \<and> v = PlainText [])"
  by (auto simp: secret_get_raw split: prod.splits sum.splits option.splits doc.splits dest: sec.get_ok)

lemma secret_get_frame: "secret_get k s = (r, s') \<Longrightarrow> store_view s' = store_view s \<and> same_loc s' = same_loc s"
  by (auto simp: secret_get_raw split: prod.splits sum.splits option.splits doc.splits dest: sec.get_frame)

lemma secret_get_writable:
  "writable s k \<Longrightarrow> secret_get k s =
     (case store_view s k of
        None \<Rightarrow> Inr (PlainText []) | Some EmptyFile \<Rightarrow> Inl SecretTooShort
      | Some Malformed \<Rightarrow> Inl SecretUndecryptable | Some (Doc v) \<Rightarrow> Inr v, s)"
  by (simp add: secret_get_raw secret_raw_get_def get_writable split: option.splits doc.splits)

lemma secret_set_writable:
  "writable s k \<Longrightarrow> \<exists>s'. secret_set k v s = (None, s') \<and> writable s' k \<and> store_view s' k = Some (Doc v)"
  using set_writable [of s k v] by (auto simp: secret_set_store)

end
