(* ===== verification/Credentials.thy ===== *)
theory Credentials
  imports Secrets
begin

text \<open>
  Credential sets (\<open>internal/credential\<close>): named, optionally channel-scoped collections of
  secrets for the tool packages. \<open>Manager\<close> is the list of the sets in the key-value store
  together with their fields and OAuth tokens in the secret store. The fields of a set are
  keyed by its identifier, so they outlive the set unless something deletes them.
\<close>

type_synonym credential_set_id = string

definition new_credential_set_id :: "string \<Rightarrow> string \<Rightarrow> credential_set_id" where
  "new_credential_set_id package label = package @ ''/'' @ label"

record credential_set =
  cs_id :: credential_set_id
  cs_package :: string
  cs_label :: string
  cs_channel :: string
  cs_description :: string
  cs_created_at :: time

record add_credential_params =
  ac_package :: string
  ac_label :: string
  ac_channel :: string
  ac_description :: string

definition tokens_expired :: "oauth_tokens \<Rightarrow> time \<Rightarrow> bool" where
  "tokens_expired t now =
     (if ot_expires_at t = 0 then False else ot_expires_at t - 1 * minute < now)"

record cred_world =
  cd_store :: "credential_set list store"
  cd_secrets :: secrets

datatype cred_error =
    CredSets "string list_error" | CredField secret_error | CredTokensParse
  | CredNoTokens | CredNoRefreshToken | CredRefreshFailed

definition sets_store_key :: string where "sets_store_key = ''credential_sets''"

definition cred_list :: "cred_world \<Rightarrow> (cred_error + credential_set list) \<times> cred_world" where
  "cred_list w =
     (case list_read sets_store_key (cd_store w) of
        (Inl e, st) \<Rightarrow> (Inl (CredSets e), w\<lparr>cd_store := st\<rparr>)
      | (Inr xs, st) \<Rightarrow> (Inr xs, w\<lparr>cd_store := st\<rparr>))"

definition save_sets :: "credential_set list \<Rightarrow> cred_world \<Rightarrow> cred_error option \<times> cred_world" where
  "save_sets xs w =
     (case list_write sets_store_key xs (cd_store w) of
        (Some e, st) \<Rightarrow> (Some (CredSets e), w\<lparr>cd_store := st\<rparr>)
      | (None, st) \<Rightarrow> (None, w\<lparr>cd_store := st\<rparr>))"

definition list_by_package :: "string \<Rightarrow> cred_world \<Rightarrow> (cred_error + credential_set list) \<times> cred_world" where
  "list_by_package package w =
     (case cred_list w of
        (Inl e, w') \<Rightarrow> (Inl e, w')
      | (Inr xs, w') \<Rightarrow> (Inr (filter (\<lambda>s. cs_package s = package) xs), w'))"

definition list_by_channel :: "string \<Rightarrow> cred_world \<Rightarrow> (cred_error + credential_set list) \<times> cred_world" where
  "list_by_channel name w =
     (case cred_list w of
        (Inl e, w') \<Rightarrow> (Inl e, w')
      | (Inr xs, w') \<Rightarrow> (Inr (filter (\<lambda>s. cs_channel s = [] \<or> cs_channel s = name) xs), w'))"

definition cred_get :: "credential_set_id \<Rightarrow> cred_world \<Rightarrow> (cred_error + credential_set option) \<times> cred_world" where
  "cred_get i w =
     (case cred_list w of
        (Inl e, w') \<Rightarrow> (Inl e, w')
      | (Inr xs, w') \<Rightarrow> (Inr (find (\<lambda>s. cs_id s = i) xs), w'))"

definition new_credential_set :: "add_credential_params \<times> time \<Rightarrow> credential_set" where
  "new_credential_set a =
     (case a of (p, now) \<Rightarrow>
        \<lparr>cs_id = new_credential_set_id (ac_package p) (ac_label p), cs_package = ac_package p,
         cs_label = ac_label p, cs_channel = ac_channel p, cs_description = ac_description p,
         cs_created_at = now\<rparr>)"

definition cred_add ::
  "add_credential_params \<times> time \<Rightarrow> cred_world \<Rightarrow> (cred_error + credential_set) \<times> cred_world" where
  "cred_add a w =
     (case cred_list w of
        (Inl e, w') \<Rightarrow> (Inl e, w')
      | (Inr xs, w') \<Rightarrow>
          (let set = new_credential_set a
           in if \<exists>s \<in> List.set xs. cs_id s = cs_id set
              then (Inl (CredSets (AlreadyExists (cs_id set))), w')
              else (case save_sets (xs @ [set]) w' of
                      (Some e, w'') \<Rightarrow> (Inl e, w'')
                    | (None, w'') \<Rightarrow> (Inr set, w''))))"

definition oauth_field_key :: string where "oauth_field_key = ''_oauth''"

definition field_key :: "credential_set_id \<Rightarrow> string \<Rightarrow> string" where
  "field_key i field = ''cred/'' @ i @ ''/'' @ field"

text \<open>\<open>Remove\<close> deletes the token blob, ignoring an error, and then the entry.\<close>

definition cred_remove :: "credential_set_id \<Rightarrow> cred_world \<Rightarrow> cred_error option \<times> cred_world" where
  "cred_remove i w =
     (case cred_list w of
        (Inl e, w') \<Rightarrow> (Some e, w')
      | (Inr xs, w') \<Rightarrow>
          if \<forall>s \<in> set xs. cs_id s \<noteq> i then (Some (CredSets (NotFound i)), w')
          else (case secret_delete (field_key i oauth_field_key) (cd_secrets w') of
                  (_, sec) \<Rightarrow> save_sets (filter (\<lambda>s. cs_id s \<noteq> i) xs) (w'\<lparr>cd_secrets := sec\<rparr>)))"

definition set_field :: "credential_set_id \<Rightarrow> string \<Rightarrow> string \<Rightarrow> cred_world \<Rightarrow> cred_error option \<times> cred_world" where
  "set_field i field v w =
     (case secret_set (field_key i field) (PlainText v) (cd_secrets w) of
        (e, sec) \<Rightarrow> (map_option CredField e, w\<lparr>cd_secrets := sec\<rparr>))"

definition get_field :: "credential_set_id \<Rightarrow> string \<Rightarrow> cred_world \<Rightarrow> (cred_error + secret_value) \<times> cred_world" where
  "get_field i field w =
     (case secret_get (field_key i field) (cd_secrets w) of
        (Inl e, sec) \<Rightarrow> (Inl (CredField e), w\<lparr>cd_secrets := sec\<rparr>)
      | (Inr v, sec) \<Rightarrow> (Inr v, w\<lparr>cd_secrets := sec\<rparr>))"

text \<open>\<open>GetAllFields\<close>: the map of the fields that are set, as its entries in key order.\<close>

fun get_all_fields ::
  "credential_set_id \<Rightarrow> string list \<Rightarrow> cred_world \<Rightarrow> (cred_error + (string \<times> secret_value) list) \<times> cred_world" where
  "get_all_fields i [] w = (Inr [], w)"
| "get_all_fields i (k # ks) w =
     (case get_field i k w of
        (Inl e, w1) \<Rightarrow> (Inl e, w1)
      | (Inr v, w1) \<Rightarrow>
          (case get_all_fields i ks w1 of
             (Inl e, w2) \<Rightarrow> (Inl e, w2)
           | (Inr m, w2) \<Rightarrow> (Inr (if v = PlainText [] then m else (k, v) # m), w2)))"

definition set_oauth_tokens :: "credential_set_id \<Rightarrow> oauth_tokens \<Rightarrow> cred_world \<Rightarrow> cred_error option \<times> cred_world" where
  "set_oauth_tokens i t w =
     (case secret_set (field_key i oauth_field_key) (TokensText t) (cd_secrets w) of
        (e, sec) \<Rightarrow> (map_option CredField e, w\<lparr>cd_secrets := sec\<rparr>))"

definition get_oauth_tokens ::
  "credential_set_id \<Rightarrow> cred_world \<Rightarrow> (cred_error + oauth_tokens option) \<times> cred_world" where
  "get_oauth_tokens i w =
     (case secret_get (field_key i oauth_field_key) (cd_secrets w) of
        (Inl e, sec) \<Rightarrow> (Inl (CredField e), w\<lparr>cd_secrets := sec\<rparr>)
      | (Inr v, sec) \<Rightarrow>
          (case v of
             PlainText [] \<Rightarrow> (Inr None, w\<lparr>cd_secrets := sec\<rparr>)
           | TokensText t \<Rightarrow> (Inr (Some t), w\<lparr>cd_secrets := sec\<rparr>)
           | _ \<Rightarrow> (Inl CredTokensParse, w\<lparr>cd_secrets := sec\<rparr>)))"

fun fields_ready :: "credential_set_id \<Rightarrow> string list \<Rightarrow> cred_world \<Rightarrow> (cred_error + bool) \<times> cred_world" where
  "fields_ready i [] w = (Inr True, w)"
| "fields_ready i (k # ks) w =
     (case get_field i k w of
        (Inl e, w1) \<Rightarrow> (Inl e, w1)
      | (Inr v, w1) \<Rightarrow> if v = PlainText [] then (Inr False, w1) else fields_ready i ks w1)"

definition cred_is_ready ::
  "credential_set_id \<Rightarrow> string list \<Rightarrow> bool \<Rightarrow> cred_world \<Rightarrow> (cred_error + bool) \<times> cred_world" where
  "cred_is_ready i required needs_oauth w =
     (case fields_ready i required w of
        (Inl e, w1) \<Rightarrow> (Inl e, w1)
      | (Inr False, w1) \<Rightarrow> (Inr False, w1)
      | (Inr True, w1) \<Rightarrow>
          if needs_oauth
          then (case get_oauth_tokens i w1 of
                  (Inl e, w2) \<Rightarrow> (Inl e, w2)
                | (Inr t, w2) \<Rightarrow>
                    (Inr (case t of None \<Rightarrow> False | Some tok \<Rightarrow> ot_access tok \<noteq> []), w2))
          else (Inr True, w1))"

text \<open>
  \<open>RefreshIfNeeded\<close>. The exchange with the provider is the caller's \<open>refresh\<close>, \<open>None\<close> for an
  error.
\<close>

definition refresh_if_needed ::
  "credential_set_id \<Rightarrow> (string \<Rightarrow> oauth_tokens option) \<Rightarrow> time \<Rightarrow> cred_world
     \<Rightarrow> (cred_error + oauth_tokens) \<times> cred_world" where
  "refresh_if_needed i refresh now w =
     (case get_oauth_tokens i w of
        (Inl e, w1) \<Rightarrow> (Inl e, w1)
      | (Inr None, w1) \<Rightarrow> (Inl CredNoTokens, w1)
      | (Inr (Some t), w1) \<Rightarrow>
          if \<not> tokens_expired t now then (Inr t, w1)
          else if ot_refresh t = [] then (Inl CredNoRefreshToken, w1)
          else (case refresh (ot_refresh t) of
                  None \<Rightarrow> (Inl CredRefreshFailed, w1)
                | Some n \<Rightarrow>
                    (let n' = (if ot_refresh n = [] then n\<lparr>ot_refresh := ot_refresh t\<rparr> else n)
                     in case set_oauth_tokens i n' w1 of
                          (Some e, w2) \<Rightarrow> (Inl e, w2)
                        | (None, w2) \<Rightarrow> (Inr n', w2))))"

definition git_token_key :: "string \<Rightarrow> string" where
  "git_token_key label =
     field_key (new_credential_set_id ''git'' (if label = [] then ''default'' else label)) ''token''"

subsection \<open>The sets are a registry\<close>

definition cred_view :: "cred_world \<Rightarrow> credential_set list option" where
  "cred_view w = list_view sets_store_key (cd_store w)"

definition stored_tokens :: "credential_set_id \<Rightarrow> cred_world \<Rightarrow> secret_value doc option" where
  "stored_tokens i w = store_view (cd_secrets w) (field_key i oauth_field_key)"

lemma cred_view_secrets [simp]: "cred_view (w\<lparr>cd_secrets := s\<rparr>) = cred_view w"
  by (simp add: cred_view_def)

lemma cred_list_view: "cred_list w = (Inr xs, w') \<Longrightarrow> cred_view w = Some xs"
  by (auto simp: cred_list_def cred_view_def split: prod.splits sum.splits dest: list_read_view)

lemma cred_list_frame:
  "cred_list w = (r, w') \<Longrightarrow> cred_view w' = cred_view w \<and> cd_secrets w' = cd_secrets w"
  by (auto simp: cred_list_def cred_view_def split: prod.splits sum.splits dest: list_read_keeps)

lemma cred_list_ok:
  "cred_list w = (Inr xs, w') \<Longrightarrow>
     cred_view w = Some xs \<and> cred_view w' = Some xs \<and> cd_secrets w' = cd_secrets w"
  using cred_list_view cred_list_frame by metis

lemma save_sets_ok: "save_sets xs w = (None, w') \<Longrightarrow> cred_view w' = Some xs \<and> cd_secrets w' = cd_secrets w"
  by (auto simp: save_sets_def cred_view_def split: prod.splits option.splits dest: list_write_ok)

lemma save_sets_secrets: "save_sets xs w = (r, w') \<Longrightarrow> cd_secrets w' = cd_secrets w"
  by (auto simp: save_sets_def split: prod.splits option.splits)

lemma save_sets_fail:
  "save_sets xs w = (Some e, w') \<Longrightarrow> cred_view w' = cred_view w \<or> cred_view w' = Some [] \<or> cred_view w' = None"
  by (auto simp: save_sets_def cred_view_def split: prod.splits option.splits dest!: list_write_fail)

definition cred_add_step :: "add_credential_params \<times> time \<Rightarrow> cred_world \<Rightarrow> cred_error option \<times> cred_world" where
  "cred_add_step a w = (case cred_add a w of (Inl e, w') \<Rightarrow> (Some e, w') | (Inr _, w') \<Rightarrow> (None, w'))"

interpretation cred_reg: id_registry cs_id new_credential_set cred_view cred_add_step cred_remove
proof unfold_locales
  fix a k s s' e
  show "cred_add_step a s = (None, s') \<Longrightarrow>
      \<exists>xs. cred_view s = Some xs \<and> cs_id (new_credential_set a) \<notin> cs_id ` set xs \<and>
           cred_view s' = Some (xs @ [new_credential_set a])"
    by (fastforce simp: cred_add_step_def cred_add_def Let_def
        split: prod.splits sum.splits if_splits option.splits dest!: cred_list_ok save_sets_ok)
  show "cred_remove k s = (None, s') \<Longrightarrow>
      \<exists>xs. cred_view s = Some xs \<and> k \<in> cs_id ` set xs \<and>
           cred_view s' = Some (filter (\<lambda>v. cs_id v \<noteq> k) xs)"
    by (fastforce simp: cred_remove_def
        split: prod.splits sum.splits if_splits option.splits dest!: cred_list_ok save_sets_ok)
  show "cred_add_step a s = (Some e, s') \<Longrightarrow> cred_view s' \<in> {cred_view s, Some [], None}"
    by (auto simp: cred_add_step_def cred_add_def Let_def
        split: prod.splits sum.splits if_splits option.splits dest!: cred_list_frame dest: save_sets_fail)
  show "cred_remove k s = (Some e, s') \<Longrightarrow> cred_view s' \<in> {cred_view s, Some [], None}"
    by (auto simp: cred_remove_def
        split: prod.splits sum.splits if_splits option.splits dest!: cred_list_frame dest: save_sets_fail)
qed

lemma list_by_channel_scope:
  "list_by_channel name w = (Inr xs, w') \<Longrightarrow>
     s \<in> set xs \<longleftrightarrow>
       (\<exists>ys. cred_view w = Some ys \<and> s \<in> set ys \<and> (cs_channel s = [] \<or> cs_channel s = name))"
  by (auto simp: list_by_channel_def split: prod.splits sum.splits dest!: cred_list_ok)

subsection \<open>Tokens and fields\<close>

lemma get_oauth_tokens_view:
  assumes "get_oauth_tokens i w = (Inr (Some t), w')"
  shows "stored_tokens i w = Some (Doc (TokensText t)) \<and> stored_tokens i w' = stored_tokens i w"
proof -
  from assms obtain s where g: "secret_get (field_key i oauth_field_key) (cd_secrets w) = (Inr (TokensText t), s)"
    and w': "w' = w\<lparr>cd_secrets := s\<rparr>"
    by (auto simp: get_oauth_tokens_def split: prod.splits sum.splits secret_value.splits list.splits)
  from secret_get_value [OF g] secret_get_frame [OF g] show ?thesis
    by (auto simp: w' stored_tokens_def)
qed

lemma set_oauth_tokens_view:
  "set_oauth_tokens i t w = (None, w') \<Longrightarrow> stored_tokens i w' = Some (Doc (TokensText t))"
  by (auto simp: set_oauth_tokens_def stored_tokens_def split: prod.splits dest: sec.set_ok)

text \<open>
  A refresh never hands out a token it has not stored and never loses the refresh token.
  What \<open>RefreshIfNeeded\<close> returns is exactly what is stored for the set afterwards; either it
  was stored before and still runs, or the stored one had run out, the provider was asked with
  its refresh token, and the answer was stored, with the old refresh token kept when the
  provider sent none.
\<close>

theorem refresh_returns_stored_tokens:
  assumes "refresh_if_needed i refresh now w = (Inr t, w')"
  shows "stored_tokens i w' = Some (Doc (TokensText t)) \<and>
         (\<exists>old. stored_tokens i w = Some (Doc (TokensText old)) \<and>
            (if tokens_expired old now
             then ot_refresh old \<noteq> [] \<and> ot_refresh t \<noteq> [] \<and>
                  (\<exists>n. refresh (ot_refresh old) = Some n \<and> ot_access t = ot_access n \<and>
                       ot_expires_at t = ot_expires_at n)
             else t = old))"
proof -
  from assms obtain old w1 where g: "get_oauth_tokens i w = (Inr (Some old), w1)"
    by (auto simp: refresh_if_needed_def split: prod.splits sum.splits option.splits)
  note v = get_oauth_tokens_view [OF g]
  show ?thesis
  proof (cases "tokens_expired old now")
    case False
    with assms g v show ?thesis by (auto simp: refresh_if_needed_def)
  next
    case True
    from assms g True obtain n where n: "ot_refresh old \<noteq> []" "refresh (ot_refresh old) = Some n"
      by (auto simp: refresh_if_needed_def split: if_splits option.splits)
    let ?n = "if ot_refresh n = [] then n\<lparr>ot_refresh := ot_refresh old\<rparr> else n"
    from assms g True n have "set_oauth_tokens i ?n w1 = (None, w')" and t: "t = ?n"
      by (auto simp: refresh_if_needed_def Let_def split: prod.splits option.splits if_splits)
    from set_oauth_tokens_view [OF this(1)] v n True show ?thesis
      unfolding t by auto
  qed
qed

definition cred_holding :: "credential_set list \<Rightarrow> string \<Rightarrow> secret_value \<Rightarrow> cred_world" where
  "cred_holding sets key v =
     \<lparr>cd_store = store_holding sets_store_key sets, cd_secrets = doc_holding key v\<rparr>"

definition sample_tokens :: oauth_tokens where
  "sample_tokens = \<lparr>ot_access = ''old'', ot_refresh = ''again'', ot_expires_at = 1\<rparr>"

lemma sample_oauth_path: "safe_path ''/data'' (field_key ''google/work'' oauth_field_key) = Some ''/data/cred/google/work/_oauth''"
  by code_simp

theorem refresh_returns_stored_tokens_witness:
  "\<exists>w'. refresh_if_needed ''google/work'' (\<lambda>_. Some \<lparr>ot_access = ''new'', ot_refresh = [], ot_expires_at = 99\<rparr>)
           (hour) (cred_holding [] (field_key ''google/work'' oauth_field_key) (TokensText sample_tokens))
         = (Inr \<lparr>ot_access = ''new'', ot_refresh = ''again'', ot_expires_at = 99\<rparr>, w') \<and>
        stored_tokens ''google/work'' w' =
          Some (Doc (TokensText \<lparr>ot_access = ''new'', ot_refresh = ''again'', ot_expires_at = 99\<rparr>))"
proof -
  let ?k = "field_key ''google/work'' oauth_field_key"
  let ?n = "\<lparr>ot_access = ''new'', ot_refresh = ''again'', ot_expires_at = 99\<rparr>"
  let ?w = "cred_holding [] ?k (TokensText sample_tokens)"
  have wr: "writable (cd_secrets ?w) ?k"
    by (simp add: cred_holding_def doc_holding_writable [OF sample_oauth_path])
  have g: "get_oauth_tokens ''google/work'' ?w = (Inr (Some sample_tokens), ?w)"
    by (simp add: get_oauth_tokens_def secret_get_writable [OF wr])
       (simp add: cred_holding_def doc_holding_view [OF sample_oauth_path])
  from secret_set_writable [OF wr, of "TokensText ?n"] obtain s' where
    "secret_set ?k (TokensText ?n) (cd_secrets ?w) = (None, s')" by blast
  then have r: "refresh_if_needed ''google/work'' (\<lambda>_. Some \<lparr>ot_access = ''new'', ot_refresh = [], ot_expires_at = 99\<rparr>)
           hour ?w = (Inr ?n, ?w\<lparr>cd_secrets := s'\<rparr>)"
    by (simp add: refresh_if_needed_def g set_oauth_tokens_def)
       (simp add: sample_tokens_def tokens_expired_def hour_def minute_def second_def)
  from refresh_returns_stored_tokens [OF this] r show ?thesis by blast
qed

text \<open>
  What \<open>Remove\<close> leaves behind: only the token blob goes. Every other field of the set stays in
  the secret store under the set's key, and a set added later under the same package and label
  finds it.
\<close>

lemma removal_keeps_fields:
  assumes "cred_remove i w = (r, w')"
    and "\<not> same_loc (cd_secrets w) (field_key i oauth_field_key) (field_key i field)"
  shows "store_view (cd_secrets w') (field_key i field) = store_view (cd_secrets w) (field_key i field)"
proof (cases "cred_list w")
  case (Pair u w1)
  note frame = cred_list_frame [OF Pair]
  obtain e sec' where d: "secret_delete (field_key i oauth_field_key) (cd_secrets w1) = (e, sec')"
    by fastforce
  with frame assms(2) sec.delete_frame
  have "store_view sec' (field_key i field) = store_view (cd_secrets w) (field_key i field)" by metis
  with assms(1) Pair frame d show ?thesis
    by (auto simp: cred_remove_def split: sum.splits if_splits dest!: save_sets_secrets)
qed

end
