(* ===== verification/RemoteMcp.thy ===== *)
theory RemoteMcp
  imports Secrets
begin

text \<open>
  Registrations of remote MCP servers (\<open>internal/remotemcpstore/remotemcpstore.go\<close>): which
  servers there are, which channels each reaches, and the authorisation kept for each in the
  secret store. A server whose channel list is empty reaches every channel.
\<close>

record remote_mcp =
  rm_name :: string
  rm_url :: string
  rm_created_at :: time
  rm_channels :: "string list"
  rm_url_sensitive :: bool
  rm_tool_names :: "string list"
  rm_tls_pin :: string
  rm_instructions :: string

record add_mcp_params =
  ap_name :: string
  ap_url :: string
  ap_channels :: "string list"
  ap_url_sensitive :: bool
  ap_tool_names :: "string list"
  ap_tls_pin :: string
  ap_instructions :: string

definition pending_exchange_ttl :: duration where "pending_exchange_ttl = 30 * minute"

definition exchange_expired :: "pending_exchange \<Rightarrow> time \<Rightarrow> bool" where
  "exchange_expired p now = (pending_exchange_ttl < time_sub now (pe_started_at p))"

definition auth_token_expired :: "remote_mcp_auth \<Rightarrow> time \<Rightarrow> bool" where
  "auth_token_expired a now =
     (if ra_token_expiry a = 0 then False else ra_token_expiry a - 1 * minute < now)"

record mcp_world =
  mw_store :: "remote_mcp list store"
  mw_secrets :: secrets

datatype mcp_error = McpList "string list_error" | McpSecret secret_error | McpAuthParse

definition remote_mcps_store_key :: string where "remote_mcps_store_key = ''remote_mcps''"

definition remote_mcp_auth_key :: "string \<Rightarrow> string" where
  "remote_mcp_auth_key name = ''remote_mcp/'' @ name"

definition mcp_load :: "mcp_world \<Rightarrow> (mcp_error + remote_mcp list) \<times> mcp_world" where
  "mcp_load w =
     (case list_read remote_mcps_store_key (mw_store w) of
        (Inl e, st) \<Rightarrow> (Inl (McpList e), w\<lparr>mw_store := st\<rparr>)
      | (Inr xs, st) \<Rightarrow> (Inr xs, w\<lparr>mw_store := st\<rparr>))"

definition mcp_save :: "remote_mcp list \<Rightarrow> mcp_world \<Rightarrow> mcp_error option \<times> mcp_world" where
  "mcp_save xs w =
     (case list_write remote_mcps_store_key xs (mw_store w) of
        (Some e, st) \<Rightarrow> (Some (McpList e), w\<lparr>mw_store := st\<rparr>)
      | (None, st) \<Rightarrow> (None, w\<lparr>mw_store := st\<rparr>))"

definition get_remote_mcp :: "string \<Rightarrow> mcp_world \<Rightarrow> (mcp_error + remote_mcp option) \<times> mcp_world" where
  "get_remote_mcp name w =
     (case mcp_load w of
        (Inl e, w') \<Rightarrow> (Inl e, w')
      | (Inr xs, w') \<Rightarrow> (Inr (find (\<lambda>m. rm_name m = name) xs), w'))"

definition new_remote_mcp :: "add_mcp_params \<times> time \<Rightarrow> remote_mcp" where
  "new_remote_mcp a =
     (case a of (p, now) \<Rightarrow>
        \<lparr>rm_name = ap_name p, rm_url = ap_url p, rm_created_at = now, rm_channels = ap_channels p,
         rm_url_sensitive = ap_url_sensitive p, rm_tool_names = ap_tool_names p,
         rm_tls_pin = ap_tls_pin p, rm_instructions = ap_instructions p\<rparr>)"

definition add_remote_mcp ::
  "add_mcp_params \<times> time \<Rightarrow> mcp_world \<Rightarrow> (mcp_error + remote_mcp) \<times> mcp_world" where
  "add_remote_mcp a w =
     (case mcp_load w of
        (Inl e, w') \<Rightarrow> (Inl e, w')
      | (Inr xs, w') \<Rightarrow>
          if \<exists>m \<in> set xs. rm_name m = ap_name (fst a)
          then (Inl (McpList (AlreadyExists (ap_name (fst a)))), w')
          else (case mcp_save (xs @ [new_remote_mcp a]) w' of
                  (Some e, w'') \<Rightarrow> (Inl e, w'')
                | (None, w'') \<Rightarrow> (Inr (new_remote_mcp a), w'')))"

definition mcp_update ::
  "string \<Rightarrow> (remote_mcp \<Rightarrow> remote_mcp) \<Rightarrow> mcp_world \<Rightarrow> mcp_error option \<times> mcp_world" where
  "mcp_update name f w =
     (case mcp_load w of
        (Inl e, w') \<Rightarrow> (Some e, w')
      | (Inr xs, w') \<Rightarrow>
          if \<exists>m \<in> set xs. rm_name m = name
          then mcp_save (update_first (\<lambda>m. rm_name m = name) f xs) w'
          else (Some (McpList (NotFound name)), w'))"

definition set_tool_names :: "string \<Rightarrow> string list \<Rightarrow> mcp_world \<Rightarrow> mcp_error option \<times> mcp_world" where
  "set_tool_names name ts w = mcp_update name (\<lambda>m. m\<lparr>rm_tool_names := ts\<rparr>) w"

definition set_instructions :: "string \<Rightarrow> string \<Rightarrow> mcp_world \<Rightarrow> mcp_error option \<times> mcp_world" where
  "set_instructions name text w = mcp_update name (\<lambda>m. m\<lparr>rm_instructions := text\<rparr>) w"

definition set_channels :: "string \<Rightarrow> string list \<Rightarrow> mcp_world \<Rightarrow> mcp_error option \<times> mcp_world" where
  "set_channels name cs w = mcp_update name (\<lambda>m. m\<lparr>rm_channels := cs\<rparr>) w"

record prune_result =
  pr_pruned :: "string list"
  pr_left_alone :: "string list"

text \<open>The loop of \<open>RemoveChannelFromAll\<close>: the new list, and what was done to which server.\<close>

fun prune_channel :: "string \<Rightarrow> remote_mcp list \<Rightarrow> remote_mcp list \<times> prune_result" where
  "prune_channel c [] = ([], \<lparr>pr_pruned = [], pr_left_alone = []\<rparr>)"
| "prune_channel c (m # ms) =
     (case prune_channel c ms of
        (ms', r) \<Rightarrow>
          (let remaining = filter (\<lambda>n. n \<noteq> c) (rm_channels m)
           in if length remaining = length (rm_channels m) then (m # ms', r)
              else if remaining = [] then (m # ms', r\<lparr>pr_left_alone := rm_name m # pr_left_alone r\<rparr>)
              else (m\<lparr>rm_channels := remaining\<rparr> # ms', r\<lparr>pr_pruned := rm_name m # pr_pruned r\<rparr>)))"

definition remove_channel_from_all ::
  "string \<Rightarrow> mcp_world \<Rightarrow> (mcp_error + prune_result) \<times> mcp_world" where
  "remove_channel_from_all c w =
     (case mcp_load w of
        (Inl e, w') \<Rightarrow> (Inl e, w')
      | (Inr xs, w') \<Rightarrow>
          (case prune_channel c xs of
             (ys, r) \<Rightarrow>
               if pr_pruned r = [] then (Inr r, w')
               else (case mcp_save ys w' of
                       (Some e, w'') \<Rightarrow> (Inl e, w'')
                     | (None, w'') \<Rightarrow> (Inr r, w''))))"

definition remove_remote_mcp :: "string \<Rightarrow> mcp_world \<Rightarrow> mcp_error option \<times> mcp_world" where
  "remove_remote_mcp name w =
     (case mcp_load w of
        (Inl e, w') \<Rightarrow> (Some e, w')
      | (Inr xs, w') \<Rightarrow>
          if \<forall>m \<in> set xs. rm_name m \<noteq> name then (Some (McpList (NotFound name)), w')
          else (case secret_delete (remote_mcp_auth_key name) (mw_secrets w') of
                  (Some e, sec) \<Rightarrow> (Some (McpSecret e), w'\<lparr>mw_secrets := sec\<rparr>)
                | (None, sec) \<Rightarrow>
                    mcp_save (filter (\<lambda>m. rm_name m \<noteq> name) xs) (w'\<lparr>mw_secrets := sec\<rparr>)))"

definition get_remote_mcp_auth ::
  "string \<Rightarrow> mcp_world \<Rightarrow> (mcp_error + remote_mcp_auth option) \<times> mcp_world" where
  "get_remote_mcp_auth name w =
     (case secret_get (remote_mcp_auth_key name) (mw_secrets w) of
        (Inl e, sec) \<Rightarrow> (Inl (McpSecret e), w\<lparr>mw_secrets := sec\<rparr>)
      | (Inr v, sec) \<Rightarrow>
          (case v of
             PlainText [] \<Rightarrow> (Inr None, w\<lparr>mw_secrets := sec\<rparr>)
           | AuthText a \<Rightarrow> (Inr (Some a), w\<lparr>mw_secrets := sec\<rparr>)
           | _ \<Rightarrow> (Inl McpAuthParse, w\<lparr>mw_secrets := sec\<rparr>)))"

definition set_remote_mcp_auth ::
  "string \<Rightarrow> remote_mcp_auth \<Rightarrow> mcp_world \<Rightarrow> mcp_error option \<times> mcp_world" where
  "set_remote_mcp_auth name a w =
     (case secret_set (remote_mcp_auth_key name) (AuthText a) (mw_secrets w) of
        (Some e, sec) \<Rightarrow> (Some (McpSecret e), w\<lparr>mw_secrets := sec\<rparr>)
      | (None, sec) \<Rightarrow> (None, w\<lparr>mw_secrets := sec\<rparr>))"

definition mcp_view :: "mcp_world \<Rightarrow> remote_mcp list option" where
  "mcp_view w = list_view remote_mcps_store_key (mw_store w)"

subsection \<open>The registrations are a registry\<close>

lemma mcp_load_view: "mcp_load w = (Inr xs, w') \<Longrightarrow> mcp_view w = Some xs"
  by (auto simp: mcp_load_def mcp_view_def split: prod.splits sum.splits dest: list_read_view)

lemma mcp_load_frame:
  "mcp_load w = (r, w') \<Longrightarrow> mcp_view w' = mcp_view w \<and> mw_secrets w' = mw_secrets w"
  by (auto simp: mcp_load_def mcp_view_def split: prod.splits sum.splits dest: list_read_keeps)

lemma mcp_load_ok:
  "mcp_load w = (Inr xs, w') \<Longrightarrow>
     mcp_view w = Some xs \<and> mcp_view w' = Some xs \<and> mw_secrets w' = mw_secrets w"
  using mcp_load_view mcp_load_frame by metis

lemma mcp_save_ok: "mcp_save xs w = (None, w') \<Longrightarrow> mcp_view w' = Some xs \<and> mw_secrets w' = mw_secrets w"
  by (auto simp: mcp_save_def mcp_view_def split: prod.splits option.splits dest: list_write_ok)

lemma mcp_save_fail:
  "mcp_save xs w = (Some e, w') \<Longrightarrow> mcp_view w' = mcp_view w \<or> mcp_view w' = Some [] \<or> mcp_view w' = None"
  by (auto simp: mcp_save_def mcp_view_def split: prod.splits option.splits dest!: list_write_fail)

lemma mcp_view_secrets [simp]: "mcp_view (w\<lparr>mw_secrets := s\<rparr>) = mcp_view w"
  by (simp add: mcp_view_def)

definition add_mcp_step :: "add_mcp_params \<times> time \<Rightarrow> mcp_world \<Rightarrow> mcp_error option \<times> mcp_world" where
  "add_mcp_step a w = (case add_remote_mcp a w of (Inl e, w') \<Rightarrow> (Some e, w') | (Inr m, w') \<Rightarrow> (None, w'))"

interpretation mcp_reg: id_registry rm_name new_remote_mcp mcp_view add_mcp_step remove_remote_mcp
proof unfold_locales
  fix a k s s' e
  have n: "rm_name (new_remote_mcp a) = ap_name (fst a)"
    by (simp add: new_remote_mcp_def split: prod.splits)
  show "add_mcp_step a s = (None, s') \<Longrightarrow>
      \<exists>xs. mcp_view s = Some xs \<and> rm_name (new_remote_mcp a) \<notin> rm_name ` set xs \<and>
           mcp_view s' = Some (xs @ [new_remote_mcp a])"
    unfolding n
    by (fastforce simp: add_mcp_step_def add_remote_mcp_def
        split: prod.splits sum.splits if_splits option.splits dest!: mcp_load_view mcp_save_ok)
  show "remove_remote_mcp k s = (None, s') \<Longrightarrow>
      \<exists>xs. mcp_view s = Some xs \<and> k \<in> rm_name ` set xs \<and>
           mcp_view s' = Some (filter (\<lambda>v. rm_name v \<noteq> k) xs)"
    by (fastforce simp: remove_remote_mcp_def
        split: prod.splits sum.splits if_splits option.splits dest!: mcp_load_view mcp_save_ok)
  show "add_mcp_step a s = (Some e, s') \<Longrightarrow> mcp_view s' \<in> {mcp_view s, Some [], None}"
    by (auto simp: add_mcp_step_def add_remote_mcp_def
        split: prod.splits sum.splits if_splits option.splits dest!: mcp_load_frame dest: mcp_save_fail)
  show "remove_remote_mcp k s = (Some e, s') \<Longrightarrow> mcp_view s' \<in> {mcp_view s, Some [], None}"
    by (auto simp: remove_remote_mcp_def
        split: prod.splits sum.splits if_splits option.splits dest!: mcp_load_frame dest: mcp_save_fail)
qed

subsection \<open>Properties\<close>

lemma prune_channel_spec:
  "list_all2 (\<lambda>m m'. m' = m\<lparr>rm_channels :=
         (if filter (\<lambda>n. n \<noteq> c) (rm_channels m) = [] then rm_channels m
          else filter (\<lambda>n. n \<noteq> c) (rm_channels m))\<rparr>)
     ms (fst (prune_channel c ms))"
proof (induction ms)
  case (Cons m ms)
  have "length (filter (\<lambda>n. n \<noteq> c) (rm_channels m)) = length (rm_channels m) \<longleftrightarrow>
      filter (\<lambda>n. n \<noteq> c) (rm_channels m) = rm_channels m"
    by (metis filter_id_conv length_filter_less less_irrefl)
  with Cons show ?case by (auto simp: Let_def split: prod.splits)
qed simp

lemma prune_nothing: "prune_channel c ms = (ys, r) \<Longrightarrow> pr_pruned r = [] \<Longrightarrow> ys = ms"
  by (induction ms arbitrary: ys r) (auto simp: Let_def split: prod.splits if_splits)

lemma remove_channel_ok:
  "remove_channel_from_all c w = (Inr r, w') \<Longrightarrow>
     \<exists>xs. mcp_view w = Some xs \<and> mcp_view w' = Some (fst (prune_channel c xs)) \<and> r = snd (prune_channel c xs)"
  by (auto simp: remove_channel_from_all_def
      split: prod.splits sum.splits if_splits option.splits
      dest!: mcp_load_ok mcp_save_ok dest: prune_nothing)

lemma kept_channels:
  assumes "cs' = (if filter (\<lambda>n. n \<noteq> c) cs = [] then cs else filter (\<lambda>n. n \<noteq> c) cs)"
  shows "(cs' = [] \<longleftrightarrow> cs = []) \<and> set cs' \<subseteq> set cs \<and> set cs - {c} \<subseteq> set cs' \<and>
         (c \<in> set cs' \<longrightarrow> set cs = {c})"
proof (cases "filter (\<lambda>n. n \<noteq> c) cs = []")
  case True
  then have "set cs \<subseteq> {c}" by (auto simp: filter_empty_conv)
  moreover from True assms have "cs' = cs" by simp
  ultimately show ?thesis by blast
next
  case False
  with assms have f: "cs' = filter (\<lambda>n. n \<noteq> c) cs" by simp
  have "set cs' = set cs - {c}" unfolding f by auto
  moreover have "cs' \<noteq> []" using False f by simp
  moreover have "cs \<noteq> []" using False by auto
  ultimately show ?thesis by simp
qed

text \<open>
  Taking a deleted channel off every server never widens one: each server keeps its place
  and everything but its channels, reaches no channel it did not reach before, reaches every
  channel only if it did before, and still names the channel only if it named no other.
\<close>

theorem prune_never_widens:
  assumes "remove_channel_from_all c w = (Inr r, w')"
  shows "\<exists>xs ys. mcp_view w = Some xs \<and> mcp_view w' = Some ys \<and>
           list_all2 (\<lambda>m m'. \<exists>cs. m' = m\<lparr>rm_channels := cs\<rparr> \<and>
                (cs = [] \<longleftrightarrow> rm_channels m = []) \<and> set cs \<subseteq> set (rm_channels m) \<and>
                set (rm_channels m) - {c} \<subseteq> set cs \<and>
                (c \<in> set cs \<longrightarrow> set (rm_channels m) = {c})) xs ys"
proof -
  from remove_channel_ok [OF assms] obtain xs where
    "mcp_view w = Some xs" "mcp_view w' = Some (fst (prune_channel c xs))" by blast
  moreover have "list_all2 (\<lambda>m m'. \<exists>cs. m' = m\<lparr>rm_channels := cs\<rparr> \<and>
                (cs = [] \<longleftrightarrow> rm_channels m = []) \<and> set cs \<subseteq> set (rm_channels m) \<and>
                set (rm_channels m) - {c} \<subseteq> set cs \<and>
                (c \<in> set cs \<longrightarrow> set (rm_channels m) = {c})) xs (fst (prune_channel c xs))"
  proof (rule list_all2_mono [OF prune_channel_spec [of c xs]], goal_cases)
    case (1 m m')
    with kept_channels [OF refl, of c "rm_channels m"] show ?case by blast
  qed
  ultimately show ?thesis by blast
qed

lemma mcps_path: "safe_path ''/data'' remote_mcps_store_key = Some ''/data/remote_mcps''"
  by code_simp

definition sample_mcp :: "string \<Rightarrow> string list \<Rightarrow> remote_mcp" where
  "sample_mcp name cs =
     \<lparr>rm_name = name, rm_url = ''https://mcp.example'', rm_created_at = 1, rm_channels = cs,
      rm_url_sensitive = False, rm_tool_names = [], rm_tls_pin = [], rm_instructions = []\<rparr>"

definition mcp_holding :: "remote_mcp list \<Rightarrow> mcp_world" where
  "mcp_holding ms = \<lparr>mw_store = store_holding remote_mcps_store_key ms, mw_secrets = fresh_store\<rparr>"

lemma mcp_holding_load [simp]: "mcp_load (mcp_holding ms) = (Inr ms, mcp_holding ms)"
  by (simp add: mcp_load_def mcp_holding_def store_holding_read [OF mcps_path])

lemma mcp_holding_save: "\<exists>w'. mcp_save ys (mcp_holding ms) = (None, w')"
proof -
  obtain st :: "remote_mcp list store" where
    "(list_write remote_mcps_store_key ys (store_holding remote_mcps_store_key ms) :: string list_error option \<times> _) = (None, st)"
    using store_holding_write [OF mcps_path, of ys ms] by auto
  then show ?thesis by (simp add: mcp_save_def mcp_holding_def)
qed

theorem prune_never_widens_witness:
  "\<exists>r w' ys. remove_channel_from_all ''old'' (mcp_holding [sample_mcp ''a'' [''old''], sample_mcp ''b'' [''old'', ''dev'']]) = (Inr r, w') \<and>
     mcp_view w' = Some ys \<and> length ys = 2 \<and> rm_channels (ys ! 0) \<noteq> [] \<and> ''dev'' \<in> set (rm_channels (ys ! 1))"
proof -
  let ?ms = "[sample_mcp ''a'' [''old''], sample_mcp ''b'' [''old'', ''dev'']]"
  have "prune_channel ''old'' ?ms =
      ([sample_mcp ''a'' [''old''], sample_mcp ''b'' [''dev'']], \<lparr>pr_pruned = [''b''], pr_left_alone = [''a'']\<rparr>)"
    by (simp add: sample_mcp_def)
  then obtain r w' where ok: "remove_channel_from_all ''old'' (mcp_holding ?ms) = (Inr r, w')"
    using mcp_holding_save [of "[sample_mcp ''a'' [''old''], sample_mcp ''b'' [''dev'']]" ?ms]
    by (auto simp: remove_channel_from_all_def)
  have "mcp_view (mcp_holding ?ms) = Some ?ms"
    using mcp_load_view [OF mcp_holding_load] .
  with prune_never_widens [OF ok] obtain ys where "mcp_view w' = Some ys"
    "length ys = 2 \<and> rm_channels (ys ! 0) \<noteq> [] \<and> ''dev'' \<in> set (rm_channels (ys ! 1))"
    by (auto simp: list_all2_Cons1 sample_mcp_def)
  with ok show ?thesis by blast
qed

text \<open>
  Removing a server removes its credentials with it: after a successful removal no
  registration has the name, the others are as they were, and nothing is stored as the
  server's authorisation any more. The credentials go first, so a removal that fails half way
  leaves a server without a token, never a token without its server.
\<close>

theorem removed_server_leaves_no_token:
  assumes "remove_remote_mcp name w = (r, w')"
  shows "(r = None \<longrightarrow>
            (\<exists>xs. mcp_view w = Some xs \<and> mcp_view w' = Some (filter (\<lambda>m. rm_name m \<noteq> name) xs)) \<and>
            store_view (mw_secrets w') (remote_mcp_auth_key name) = None) \<and>
         (mcp_view w' \<noteq> mcp_view w \<longrightarrow> store_view (mw_secrets w') (remote_mcp_auth_key name) = None)"
proof (cases "mcp_load w")
  case (Pair u w1)
  note frame = mcp_load_frame [OF Pair]
  show ?thesis
  proof (cases u)
    case (Inl e)
    with assms Pair frame show ?thesis by (auto simp: remove_remote_mcp_def)
  next
    case (Inr xs)
    show ?thesis
    proof (cases "\<forall>m \<in> set xs. rm_name m \<noteq> name")
      case True
      with assms Pair Inr frame show ?thesis by (auto simp: remove_remote_mcp_def)
    next
      case False
      obtain d sec where d: "secret_delete (remote_mcp_auth_key name) (mw_secrets w1) = (d, sec)" by fastforce
      show ?thesis
      proof (cases d)
        case (Some e)
        with assms Pair Inr False d frame show ?thesis by (auto simp: remove_remote_mcp_def)
      next
        case None
        with sec.delete_ok d have gone: "store_view sec (remote_mcp_auth_key name) = None" by blast
        from assms Pair Inr False d None
        have save: "mcp_save (filter (\<lambda>m. rm_name m \<noteq> name) xs) (w1\<lparr>mw_secrets := sec\<rparr>) = (r, w')"
          by (auto simp: remove_remote_mcp_def)
        then have "mw_secrets w' = sec"
          by (auto simp: mcp_save_def split: prod.splits option.splits)
        with gone save mcp_save_ok mcp_load_view [of w xs w1] Pair Inr show ?thesis
          by (metis mcp_view_secrets)
      qed
    qed
  qed
qed

lemma sample_secret_path: "safe_path ''/data'' ''remote_mcp/a'' = Some ''/data/remote_mcp/a''"
  by code_simp

theorem removed_server_leaves_no_token_witness:
  "\<exists>w'. remove_remote_mcp ''a'' (mcp_holding [sample_mcp ''a'' [''dev''], sample_mcp ''b'' [''dev'']]) = (None, w') \<and>
        mcp_view w' = Some [sample_mcp ''b'' [''dev'']] \<and>
        store_view (mw_secrets w') (remote_mcp_auth_key ''a'') = None"
proof -
  let ?ms = "[sample_mcp ''a'' [''dev''], sample_mcp ''b'' [''dev'']]"
  obtain sec where sec: "secret_delete (remote_mcp_auth_key ''a'') (mw_secrets (mcp_holding ?ms)) = (None, sec)"
    using sample_secret_path
    by (auto simp: secret_delete_def secret_safe_path_eq remote_mcp_auth_key_def mcp_holding_def fresh_store_def next_io_def)
  obtain w' where "mcp_save [sample_mcp ''b'' [''dev'']] ((mcp_holding ?ms)\<lparr>mw_secrets := sec\<rparr>) = (None, w')"
    using mcp_holding_save [of "[sample_mcp ''b'' [''dev'']]" ?ms]
    by (auto simp: mcp_save_def mcp_holding_def split: prod.splits option.splits)
  with sec have "remove_remote_mcp ''a'' (mcp_holding ?ms) = (None, w')"
    by (simp add: remove_remote_mcp_def) (simp add: sample_mcp_def)
  with removed_server_leaves_no_token [OF this] mcp_load_view [OF mcp_holding_load [of ?ms]] show ?thesis
    by (auto simp: sample_mcp_def)
qed

end
