(* ===== verification/CliTypes.thy ===== *)
theory CliTypes
  imports GoText
begin

text \<open>
  The names the Claude CLI understands (\<open>internal/claudecli\<close>): tools, models with their short
  names, permission modes, and the turn settings a channel may set over the user's.
\<close>

type_synonym tool = string
type_synonym model = string

subsection \<open>Tool and model names\<close>

definition cli_tools :: "tool list" where
  "cli_tools =
     [''Bash'', ''Read'', ''Edit'', ''Write'', ''Glob'', ''Grep'', ''LS'', ''LSP'', ''WebFetch'', ''WebSearch'',
      ''NotebookEdit'', ''Agent'', ''Task'', ''TaskStop'', ''TodoWrite'', ''ToolSearch'', ''Skill'',
      ''AskUserQuestion'', ''EnterPlanMode'', ''ExitPlanMode'', ''EnterWorktree'', ''ListMcpResources'',
      ''ReadMcpResource'']"

definition builtin_reset :: tool where "builtin_reset = ''builtin__reset''"
definition builtin_reset_session :: tool where "builtin_reset_session = ''builtin__reset_session''"
definition builtin_stop :: tool where "builtin_stop = ''builtin__stop''"
definition builtin_compact :: tool where "builtin_compact = ''builtin__compact''"
definition builtin_login :: tool where "builtin_login = ''builtin__login''"
definition builtin_auth :: tool where "builtin_auth = ''builtin__auth''"

definition is_builtin_tool :: "tool \<Rightarrow> bool" where
  "is_builtin_tool t = has_prefix t ''builtin__''"

definition scoped :: "tool \<Rightarrow> string \<Rightarrow> tool" where
  "scoped t pattern = t @ ''('' @ pattern @ '')''"

definition valid_tool :: "tool \<Rightarrow> bool" where
  "valid_tool t =
     (if t \<in> set cli_tools then True
      else if has_prefix t ''mcp__'' then True
      else if has_prefix t ''builtin__'' then True
      else (case index_of t ''('' of
              None \<Rightarrow> False
            | Some i \<Rightarrow> if 0 < i \<and> has_suffix t '')'' then take i t \<in> set cli_tools else False))"

definition model_short_names :: "(model \<times> string) list" where
  "model_short_names =
     [(''claude-opus-5-5'', ''opus-5.5''), (''claude-opus-5'', ''opus-5''),
      (''claude-sonnet-5'', ''sonnet-5''), (''claude-fable-5-1'', ''fable-5.1''),
      (''claude-fable-5'', ''fable-5''), (''claude-opus-4-8'', ''opus-4.8''),
      (''claude-opus-4-7'', ''opus-4.7''), (''claude-opus-4-6'', ''opus-4.6''),
      (''claude-sonnet-4-6'', ''sonnet-4.6''), (''claude-haiku-4-5-20251001'', ''haiku-4.5''),
      (''claude-opus-4-20250514'', ''opus-4''), (''claude-sonnet-4-20250514'', ''sonnet-4''),
      (''claude-3-7-sonnet-20250219'', ''sonnet-3.7''),
      (''claude-3-5-sonnet-20241022'', ''sonnet-3.5v2''),
      (''claude-3-5-sonnet-20240620'', ''sonnet-3.5''),
      (''claude-3-5-haiku-20241022'', ''haiku-3.5''), (''claude-3-opus-20240229'', ''opus-3''),
      (''claude-3-haiku-20240307'', ''haiku-3'')]"

definition valid_models :: "model list" where
  "valid_models =
     [''claude-opus-5-5'', ''claude-opus-5'', ''claude-sonnet-5'', ''claude-fable-5-1'', ''claude-fable-5'',
      ''claude-opus-4-8'', ''claude-opus-4-7'', ''claude-opus-4-6'', ''claude-sonnet-4-6'',
      ''claude-haiku-4-5-20251001'', ''claude-opus-4-20250514'', ''claude-sonnet-4-20250514'',
      ''claude-3-7-sonnet-20250219'', ''claude-3-5-sonnet-20241022'', ''claude-3-5-sonnet-20240620'',
      ''claude-3-5-haiku-20241022'', ''claude-3-opus-20240229'', ''claude-3-haiku-20240307'']"

definition valid_model :: "model \<Rightarrow> bool" where
  "valid_model m = (m \<in> set valid_models)"

definition short_name :: "model \<Rightarrow> string" where
  "short_name m =
     (case map_of model_short_names m of Some s \<Rightarrow> s | None \<Rightarrow> trim_prefix m ''claude-'')"

text \<open>\<open>ShortNameToModel\<close>: both names of every model, and \<open>auto\<close> for no model flag.\<close>

definition short_name_to_model :: "string \<Rightarrow> model option" where
  "short_name_to_model =
     map_of (concat (map (\<lambda>(m, s). [(s, m), (m, m)]) model_short_names) @ [(''auto'', [])])"

definition valid_permission_mode :: "string \<Rightarrow> bool" where
  "valid_permission_mode p =
     (p \<in> set [''default'', ''acceptEdits'', ''plan'', ''dontAsk'', ''bypassPermissions'', ''auto''])"

subsection \<open>Turn settings\<close>

text \<open>
  A \<open>float64\<close> as far as the code looks at one: \<open>Finite m e\<close> is \<open>m * 2 ^ e\<close>, so its sign is
  that of \<open>m\<close>. Every comparison with a NaN but \<open>!=\<close> is false.
\<close>

datatype float64 = Finite int int | PosInf | NegInf | NaN

definition f_nonzero :: "float64 \<Rightarrow> bool" where
  "f_nonzero x = (case x of Finite m e \<Rightarrow> m \<noteq> 0 | _ \<Rightarrow> True)"

definition f_negative :: "float64 \<Rightarrow> bool" where
  "f_negative x = (case x of Finite m e \<Rightarrow> m < 0 | NegInf \<Rightarrow> True | _ \<Rightarrow> False)"

definition f_positive :: "float64 \<Rightarrow> bool" where
  "f_positive x = (case x of Finite m e \<Rightarrow> 0 < m | PosInf \<Rightarrow> True | _ \<Rightarrow> False)"

record turn_settings =
  ts_effort :: string
  ts_max_budget :: float64
  ts_fallback_model :: model

definition no_turn_settings :: turn_settings where
  "no_turn_settings = \<lparr>ts_effort = [], ts_max_budget = Finite 0 0, ts_fallback_model = []\<rparr>"

text \<open>The comparison with the zero value: a NaN equals nothing, the two zeroes are equal.\<close>

definition no_settings :: "turn_settings \<Rightarrow> bool" where
  "no_settings s = (ts_effort s = [] \<and> \<not> f_nonzero (ts_max_budget s) \<and> ts_fallback_model s = [])"

definition settings_over :: "turn_settings \<Rightarrow> turn_settings \<Rightarrow> turn_settings" where
  "settings_over s base =
     \<lparr>ts_effort = (if ts_effort s \<noteq> [] then ts_effort s else ts_effort base),
      ts_max_budget = (if f_nonzero (ts_max_budget s) then ts_max_budget s else ts_max_budget base),
      ts_fallback_model =
        (if ts_fallback_model s \<noteq> [] then ts_fallback_model s else ts_fallback_model base)\<rparr>"

definition valid_effort :: "string \<Rightarrow> bool" where
  "valid_effort e = (e \<in> set [''low'', ''medium'', ''high'', ''xhigh'', ''max'', ''ultracode''])"

datatype settings_error = UnknownEffort | NegativeBudget | UnknownFallback

definition validate_settings :: "turn_settings \<Rightarrow> settings_error list" where
  "validate_settings s =
     (if ts_effort s \<noteq> [] \<and> \<not> valid_effort (ts_effort s) then [UnknownEffort] else []) @
     (if f_negative (ts_max_budget s) then [NegativeBudget] else []) @
     (if ts_fallback_model s \<noteq> [] \<and> \<not> valid_model (ts_fallback_model s) then [UnknownFallback] else [])"

subsection \<open>Properties\<close>

lemma valid_models_named: "valid_models = map fst model_short_names"
  by (simp add: valid_models_def model_short_names_def)

definition name_entries :: "(string \<times> model) list" where
  "name_entries = concat (map (\<lambda>(m, s). [(s, m), (m, m)]) model_short_names)"

lemma name_entries_distinct: "distinct (map fst name_entries)" "distinct (map fst model_short_names)"
  unfolding name_entries_def model_short_names_def by simp_all

lemma in_name_entries:
  "x \<in> set name_entries \<longleftrightarrow>
     (\<exists>m s. (m, s) \<in> set model_short_names \<and> (x = (s, m) \<or> x = (m, m)))"
  unfolding name_entries_def set_concat set_map by (simp add: Bex_def case_prod_unfold)

lemma short_name_to_model_entries:
  "(s, m) \<in> set name_entries \<Longrightarrow> short_name_to_model s = Some m"
  using name_entries_distinct(1)
  by (simp add: short_name_to_model_def name_entries_def [symmetric] map_add_def)

text \<open>
  The names of a model read back: looking up the short name of a valid model, or the model
  itself, gives that model, and everything that can be looked up is a valid model or \<open>auto\<close>,
  which stands for no model flag.
\<close>

theorem model_names_roundtrip:
  "(\<forall>m. valid_model m \<longrightarrow>
      short_name_to_model (short_name m) = Some m \<and> short_name_to_model m = Some m) \<and>
   (\<forall>s m. short_name_to_model s = Some m \<longrightarrow> valid_model m \<or> (s = ''auto'' \<and> m = []))"
proof (intro conjI allI impI)
  fix m assume "valid_model m"
  then obtain s where s: "(m, s) \<in> set model_short_names"
    by (auto simp: valid_model_def valid_models_named)
  then have e: "(s, m) \<in> set name_entries" "(m, m) \<in> set name_entries"
    unfolding in_name_entries by blast+
  have "short_name m = s"
    using map_of_is_SomeI [OF name_entries_distinct(2) s] by (simp add: short_name_def)
  with e show "short_name_to_model (short_name m) = Some m" "short_name_to_model m = Some m"
    by (simp_all add: short_name_to_model_entries)
next
  fix s m assume "short_name_to_model s = Some m"
  then have "(s, m) \<in> set (name_entries @ [(''auto'', [])])"
    unfolding short_name_to_model_def name_entries_def by (rule map_of_SomeD)
  then have "(s, m) \<in> set name_entries \<or> (s, m) = (''auto'', [])" by auto
  then show "valid_model m \<or> (s = ''auto'' \<and> m = [])"
    unfolding valid_model_def valid_models_named set_append in_name_entries by force
qed

theorem model_names_roundtrip_witness:
  "short_name_to_model (short_name ''claude-opus-4-6'') = Some ''claude-opus-4-6''"
  using model_names_roundtrip by (simp add: valid_model_def valid_models_def)

text \<open>
  A channel's budget of NaN passes validation, replaces the user's, and then is not positive, so
  no budget is passed to the CLI at all: one bad value lifts the user's limit.
\<close>

lemma nan_budget_lifts_limit:
  assumes "ts_max_budget s = NaN" "ts_effort s = []" "ts_fallback_model s = []"
  shows "validate_settings s = [] \<and> \<not> f_positive (ts_max_budget (settings_over s base))"
  using assms by (simp add: validate_settings_def settings_over_def f_negative_def f_nonzero_def f_positive_def)

lemma settings_over_valid:
  "validate_settings s = [] \<Longrightarrow> validate_settings base = [] \<Longrightarrow> validate_settings (settings_over s base) = []"
  by (auto simp: validate_settings_def settings_over_def split: if_splits)

lemma settings_over_unset [simp]: "settings_over no_turn_settings base = base"
  by (simp add: settings_over_def no_turn_settings_def f_nonzero_def)

lemma settings_over_assoc: "settings_over (settings_over s t) u = settings_over s (settings_over t u)"
  by (simp add: settings_over_def)

end
