(* ===== verification/ConfigWriter.thy ===== *)
theory ConfigWriter
  imports Store CliTypes
begin

text \<open>
  The writer of the config file (\<open>internal/config/writer.go\<close>): adding, changing and removing a
  user's channels in the YAML tree. A node is a scalar, a mapping (its pairs in order) or a
  sequence. The pointer into the tree that \<open>findChannelsNode\<close> returns is the list of channel
  nodes together with the function that puts a new list in its place.

  Decoding a node into a channel and encoding it back is the YAML library's work on the struct's
  tags: the parameter \<open>yaml_codec\<close>. Of a channel's settings the model names the ones the
  program's own logic reads; the others are \<open>cc_rest\<close>.
\<close>

datatype yaml = YScalar string | YMap "(yaml \<times> yaml) list" | YSeq "yaml list"

record channel_link =
  cl_target :: string
  cl_description :: string

record channel_config =
  cc_type :: string
  cc_name :: string
  cc_description :: string
  cc_purpose :: string
  cc_model :: model
  cc_max_turns :: int
  cc_turn_settings :: turn_settings
  cc_tool_groups :: "string list"
  cc_allowed :: "tool list"
  cc_disallowed :: "tool list"
  cc_creatable :: "string list"
  cc_links :: "channel_link list"
  cc_ephemeral :: bool
  cc_idle_timeout :: string
  cc_session_timeout :: string
  cc_initial_message :: string
  cc_parent :: string
  cc_created_at :: string
  cc_rest :: string

record yaml_codec =
  yc_decode :: "yaml \<Rightarrow> channel_config option"
  yc_encode :: "channel_config \<Rightarrow> yaml"

datatype config_content = ConfigMissing | ConfigUnparsable | ConfigNoDocument | ConfigDoc yaml

record config_file =
  cf_content :: config_content
  cf_io :: "io list"

datatype config_error =
    CfgRead | CfgParse | CfgStructure | CfgNoEnv | CfgNoUsers | CfgUsersNotList | CfgNoUser
  | CfgChannelsNotList | CfgChannelExists string | CfgChannelNotFound string
  | CfgDecode string | CfgWrite

subsection \<open>The tree\<close>

definition node_value :: "yaml \<Rightarrow> string" where
  "node_value n = (case n of YScalar s \<Rightarrow> s | _ \<Rightarrow> [])"

fun lookup_pair :: "(yaml \<times> yaml) list \<Rightarrow> string \<Rightarrow> yaml option" where
  "lookup_pair [] key = None"
| "lookup_pair ((k, v) # ps) key = (if node_value k = key then Some v else lookup_pair ps key)"

definition find_mapping_value :: "yaml \<Rightarrow> string \<Rightarrow> yaml option" where
  "find_mapping_value n key = (case n of YMap ps \<Rightarrow> lookup_pair ps key | _ \<Rightarrow> None)"

definition node_scalar_value :: "yaml \<Rightarrow> string \<Rightarrow> string" where
  "node_scalar_value n key = (case find_mapping_value n key of None \<Rightarrow> [] | Some v \<Rightarrow> node_value v)"

text \<open>Writing through the pointer \<open>findMappingValue\<close> returned.\<close>

fun put_pair :: "(yaml \<times> yaml) list \<Rightarrow> string \<Rightarrow> yaml \<Rightarrow> (yaml \<times> yaml) list" where
  "put_pair [] key v = [(YScalar key, v)]"
| "put_pair ((k, u) # ps) key v = (if node_value k = key then (k, v) # ps else (k, u) # put_pair ps key v)"

definition put_mapping_value :: "yaml \<Rightarrow> string \<Rightarrow> yaml \<Rightarrow> yaml" where
  "put_mapping_value n key v = (case n of YMap ps \<Rightarrow> YMap (put_pair ps key v) | _ \<Rightarrow> n)"

lemma lookup_put_pair [simp]:
  "lookup_pair (put_pair ps k v) j = (if j = k then Some v else lookup_pair ps j)"
  by (induction ps) (auto simp: node_value_def)

lemma find_put_mapping [simp]:
  "find_mapping_value (put_mapping_value (YMap ps) k v) j =
     (if j = k then Some v else find_mapping_value (YMap ps) j)"
  by (simp add: find_mapping_value_def put_mapping_value_def)

definition is_user_node :: "string \<Rightarrow> yaml \<Rightarrow> bool" where
  "is_user_node uid n =
     (case n of
        YMap ps \<Rightarrow> (case find_mapping_value n ''id'' of None \<Rightarrow> False | Some v \<Rightarrow> node_value v = uid)
      | _ \<Rightarrow> False)"

text \<open>
  The navigation of \<open>findChannelsNode\<close> over the parsed document. A user without a \<open>channels\<close>
  key gets an empty one, which is also what \<open>put_pair\<close> writes at the end of the mapping.
\<close>

definition find_channels_node ::
  "string \<Rightarrow> string \<Rightarrow> yaml \<Rightarrow> config_error + (yaml list \<times> (yaml list \<Rightarrow> yaml))" where
  "find_channels_node env uid root =
     (case root of
        YMap rs \<Rightarrow>
          (case find_mapping_value root env of
             None \<Rightarrow> Inl CfgNoEnv
           | Some envnode \<Rightarrow>
               (case find_mapping_value envnode ''users'' of
                  None \<Rightarrow> Inl CfgNoUsers
                | Some (YSeq us) \<Rightarrow>
                    (case first_index (is_user_node uid) us of
                       None \<Rightarrow> Inl CfgNoUser
                     | Some i \<Rightarrow>
                         (let put = (\<lambda>cs. put_mapping_value root env
                                 (put_mapping_value envnode ''users''
                                    (YSeq (us[i := put_mapping_value (us ! i) ''channels'' (YSeq cs)]))))
                          in case find_mapping_value (us ! i) ''channels'' of
                               None \<Rightarrow> Inr ([], put)
                             | Some (YSeq cs) \<Rightarrow> Inr (cs, put)
                             | Some _ \<Rightarrow> Inl CfgChannelsNotList))
                | Some _ \<Rightarrow> Inl CfgUsersNotList))
      | _ \<Rightarrow> Inl CfgStructure)"

subsection \<open>Reading and writing the file\<close>

definition cfg_next_io :: "config_file \<Rightarrow> io \<times> config_file" where
  "cfg_next_io f = (case cf_io f of [] \<Rightarrow> (Good, f) | x # xs \<Rightarrow> (x, f\<lparr>cf_io := xs\<rparr>))"

definition read_channel_nodes ::
  "string \<Rightarrow> string \<Rightarrow> config_file \<Rightarrow> (config_error + (yaml list \<times> (yaml list \<Rightarrow> yaml))) \<times> config_file" where
  "read_channel_nodes env uid f =
     (case cfg_next_io f of
        (outcome, f') \<Rightarrow>
          (if outcome \<noteq> Good then Inl CfgRead
           else (case cf_content f' of
                   ConfigMissing \<Rightarrow> Inl CfgRead
                 | ConfigUnparsable \<Rightarrow> Inl CfgParse
                 | ConfigNoDocument \<Rightarrow> Inl CfgStructure
                 | ConfigDoc root \<Rightarrow> find_channels_node env uid root), f'))"

text \<open>
  The new text goes to a temporary file that is renamed over the old one, so a failure at any
  step leaves the file as it was.
\<close>

definition write_atomic :: "yaml \<Rightarrow> config_file \<Rightarrow> config_error option \<times> config_file" where
  "write_atomic root f =
     (case cfg_next_io f of
        (outcome, f') \<Rightarrow>
          if outcome \<noteq> Good then (Some CfgWrite, f') else (None, f'\<lparr>cf_content := ConfigDoc root\<rparr>))"

definition cfg_mutate ::
  "string \<Rightarrow> string \<Rightarrow> (yaml list \<Rightarrow> config_error + yaml list) \<Rightarrow> config_file \<Rightarrow>
     config_error option \<times> config_file" where
  "cfg_mutate env uid fn f =
     (case read_channel_nodes env uid f of
        (Inl e, f') \<Rightarrow> (Some e, f')
      | (Inr (nodes, put), f') \<Rightarrow>
          (case fn nodes of
             Inl e \<Rightarrow> (Some e, f')
           | Inr nodes' \<Rightarrow> write_atomic (put nodes') f'))"

definition add_channel_nodes :: "yaml_codec \<Rightarrow> channel_config \<Rightarrow> yaml list \<Rightarrow> config_error + yaml list" where
  "add_channel_nodes codec ch nodes =
     (if \<exists>n \<in> set nodes. node_scalar_value n ''name'' = cc_name ch then Inl (CfgChannelExists (cc_name ch))
      else Inr (nodes @ [yc_encode codec ch]))"

definition cfg_add_channel ::
  "yaml_codec \<Rightarrow> string \<Rightarrow> string \<Rightarrow> channel_config \<Rightarrow> config_file \<Rightarrow> config_error option \<times> config_file" where
  "cfg_add_channel codec env uid ch f = cfg_mutate env uid (add_channel_nodes codec ch) f"

definition update_channel_nodes ::
  "yaml_codec \<Rightarrow> string \<Rightarrow> (channel_config \<Rightarrow> channel_config) \<Rightarrow> yaml list \<Rightarrow> config_error + yaml list" where
  "update_channel_nodes codec name fn nodes =
     (case first_index (\<lambda>n. node_scalar_value n ''name'' = name) nodes of
        None \<Rightarrow> Inl (CfgChannelNotFound name)
      | Some i \<Rightarrow>
          (case yc_decode codec (nodes ! i) of
             None \<Rightarrow> Inl (CfgDecode name)
           | Some ch \<Rightarrow> Inr (nodes[i := yc_encode codec (fn ch)])))"

definition cfg_update_channel ::
  "yaml_codec \<Rightarrow> string \<Rightarrow> string \<Rightarrow> string \<Rightarrow> (channel_config \<Rightarrow> channel_config) \<Rightarrow> config_file \<Rightarrow>
     config_error option \<times> config_file" where
  "cfg_update_channel codec env uid name fn f = cfg_mutate env uid (update_channel_nodes codec name fn) f"

text \<open>The loop that strips the links to a removed channel.\<close>

fun strip_links :: "yaml_codec \<Rightarrow> string \<Rightarrow> yaml list \<Rightarrow> config_error + yaml list" where
  "strip_links codec name [] = Inr []"
| "strip_links codec name (n # ns) =
     (case yc_decode codec n of
        None \<Rightarrow> Inl (CfgDecode (node_scalar_value n ''name''))
      | Some ch \<Rightarrow>
          (let kept = filter (\<lambda>l. cl_target l \<noteq> name) (cc_links ch);
               n' = (if length kept = length (cc_links ch) then n
                     else yc_encode codec (ch\<lparr>cc_links := kept\<rparr>))
           in case strip_links codec name ns of Inl e \<Rightarrow> Inl e | Inr ns' \<Rightarrow> Inr (n' # ns')))"

definition remove_channel_nodes :: "yaml_codec \<Rightarrow> string \<Rightarrow> yaml list \<Rightarrow> config_error + yaml list" where
  "remove_channel_nodes codec name nodes =
     (case first_index (\<lambda>n. node_scalar_value n ''name'' = name) nodes of
        None \<Rightarrow> Inl (CfgChannelNotFound name)
      | Some i \<Rightarrow> strip_links codec name (remove_at i nodes))"

definition cfg_remove_channel ::
  "yaml_codec \<Rightarrow> string \<Rightarrow> string \<Rightarrow> string \<Rightarrow> config_file \<Rightarrow> config_error option \<times> config_file" where
  "cfg_remove_channel codec env uid name f = cfg_mutate env uid (remove_channel_nodes codec name) f"

fun decode_all :: "yaml_codec \<Rightarrow> yaml list \<Rightarrow> channel_config list option" where
  "decode_all codec [] = Some []"
| "decode_all codec (n # ns) =
     (case yc_decode codec n of
        None \<Rightarrow> None
      | Some c \<Rightarrow> (case decode_all codec ns of None \<Rightarrow> None | Some cs \<Rightarrow> Some (c # cs)))"

definition cfg_read_channels ::
  "yaml_codec \<Rightarrow> string \<Rightarrow> string \<Rightarrow> config_file \<Rightarrow> (config_error + channel_config list) \<times> config_file" where
  "cfg_read_channels codec env uid f =
     (case read_channel_nodes env uid f of
        (Inl e, f') \<Rightarrow> (Inl e, f')
      | (Inr (nodes, put), f') \<Rightarrow>
          (case decode_all codec nodes of
             None \<Rightarrow> (Inl (CfgDecode []), f') | Some cs \<Rightarrow> (Inr cs, f')))"

text \<open>What the file says, read without touching the outside world.\<close>

definition channel_nodes :: "string \<Rightarrow> string \<Rightarrow> config_file \<Rightarrow> yaml list option" where
  "channel_nodes env uid f =
     (case cf_content f of
        ConfigDoc root \<Rightarrow>
          (case find_channels_node env uid root of Inl e \<Rightarrow> None | Inr (nodes, put) \<Rightarrow> Some nodes)
      | _ \<Rightarrow> None)"

definition config_channels :: "yaml_codec \<Rightarrow> string \<Rightarrow> string \<Rightarrow> config_file \<Rightarrow> channel_config list option" where
  "config_channels codec env uid f =
     (case channel_nodes env uid f of None \<Rightarrow> None | Some ns \<Rightarrow> decode_all codec ns)"

text \<open>What the YAML library promises of a struct it has written.\<close>

definition codec_ok :: "yaml_codec \<Rightarrow> bool" where
  "codec_ok codec =
     ((\<forall>c. yc_decode codec (yc_encode codec c) = Some c) \<and>
      (\<forall>n c. yc_decode codec n = Some c \<longrightarrow> cc_name c = node_scalar_value n ''name''))"

lemma put_pair_keeps: "lookup_pair ps k = Some v \<Longrightarrow> put_pair ps k v = ps"
  by (induction ps) auto

lemma is_user_put:
  "is_user_node u (put_mapping_value n ''channels'' v) = is_user_node u n"
  by (cases n) (auto simp: is_user_node_def put_mapping_value_def find_mapping_value_def)

lemma first_index_update:
  assumes "\<And>x. P (f x) = P x" and "i < length xs"
  shows "first_index P (xs[i := f (xs ! i)]) = first_index P xs"
  using assms
proof (induction xs arbitrary: i)
  case (Cons x xs)
  then show ?case by (cases i) auto
qed simp

text \<open>The pointer's laws: what is put is what is found, and another user's nodes stay.\<close>

lemma find_channels_put:
  assumes "find_channels_node env uid root = Inr (nodes, put)"
  shows "\<exists>put'. find_channels_node env uid (put ns) = Inr (ns, put')"
proof -
  from assms obtain rs ev us i where d: "root = YMap rs" "find_mapping_value root env = Some ev"
      "find_mapping_value ev ''users'' = Some (YSeq us)" "first_index (is_user_node uid) us = Some i"
      "put = (\<lambda>cs. put_mapping_value root env (put_mapping_value ev ''users''
                (YSeq (us[i := put_mapping_value (us ! i) ''channels'' (YSeq cs)]))))"
    by (auto simp: find_channels_node_def Let_def split: yaml.splits option.splits)
  from d(3) obtain es where ev: "ev = YMap es"
    by (auto simp: find_mapping_value_def split: yaml.splits)
  have i: "i < length us" and u: "is_user_node uid (us ! i)"
    using first_index_Some [OF d(4)] by auto
  from u obtain ups where ups: "us ! i = YMap ups"
    by (auto simp: is_user_node_def split: yaml.splits)
  have idx: "first_index (is_user_node uid) (us[i := put_mapping_value (us ! i) ''channels'' (YSeq ns)]) = Some i"
    using first_index_update [of "is_user_node uid" "\<lambda>n. put_mapping_value n ''channels'' (YSeq ns)" i us]
      i d(4) by (simp add: is_user_put)
  have "\<exists>ps. put ns = YMap ps" using d(1,5) by (simp add: put_mapping_value_def)
  moreover have "find_mapping_value (put ns) env = Some (put_mapping_value ev ''users''
      (YSeq (us[i := put_mapping_value (us ! i) ''channels'' (YSeq ns)])))"
    using d(1,5) by simp
  moreover have "find_mapping_value (put_mapping_value ev ''users''
      (YSeq (us[i := put_mapping_value (us ! i) ''channels'' (YSeq ns)]))) ''users'' =
      Some (YSeq (us[i := put_mapping_value (us ! i) ''channels'' (YSeq ns)]))"
    by (simp add: ev)
  ultimately show ?thesis
    using idx i ups by (auto simp: find_channels_node_def Let_def)
qed

lemma find_channels_other:
  assumes "find_channels_node env uid root = Inr (nodes, put)" and "u \<noteq> uid"
  shows "(case find_channels_node env u (put ns) of Inl e \<Rightarrow> Inl e | Inr (x, p) \<Rightarrow> Inr x) =
         (case find_channels_node env u root of Inl e \<Rightarrow> Inl e | Inr (x, p) \<Rightarrow> Inr x)"
proof -
  from assms obtain rs ev us i where d: "root = YMap rs" "find_mapping_value root env = Some ev"
      "find_mapping_value ev ''users'' = Some (YSeq us)" "first_index (is_user_node uid) us = Some i"
      "put = (\<lambda>cs. put_mapping_value root env (put_mapping_value ev ''users''
                (YSeq (us[i := put_mapping_value (us ! i) ''channels'' (YSeq cs)]))))"
    by (auto simp: find_channels_node_def Let_def split: yaml.splits option.splits)
  from d(3) obtain es where ev: "ev = YMap es"
    by (auto simp: find_mapping_value_def split: yaml.splits)
  have i: "i < length us" and at: "is_user_node uid (us ! i)"
    using first_index_Some [OF d(4)] by auto
  let ?us = "us[i := put_mapping_value (us ! i) ''channels'' (YSeq ns)]"
  have idx: "first_index (is_user_node u) ?us = first_index (is_user_node u) us"
    using first_index_update [of "is_user_node u" "\<lambda>n. put_mapping_value n ''channels'' (YSeq ns)" i us]
      i by (simp add: is_user_put)
  have same: "?us ! j = us ! j" if "first_index (is_user_node u) us = Some j" for j
  proof -
    from first_index_Some [OF that] have "is_user_node u (us ! j)" by simp
    with at assms(2) have "j \<noteq> i"
      by (auto simp: is_user_node_def split: yaml.splits option.splits)
    then show ?thesis by simp
  qed
  have new: "find_mapping_value (put ns) env = Some (put_mapping_value ev ''users'' (YSeq ?us))"
    "\<exists>ps. put ns = YMap ps"
    using d(1,5) by (simp_all add: put_mapping_value_def find_mapping_value_def)
  have users: "find_mapping_value (put_mapping_value ev ''users'' (YSeq ?us)) ''users'' = Some (YSeq ?us)"
    by (simp add: ev)
  from new(2) obtain ps where ps: "put ns = YMap ps" ..
  note nav = new(1) users d(1-3) ps
  show ?thesis
  proof (cases "first_index (is_user_node u) us")
    case None
    with idx have "first_index (is_user_node u) ?us = None" by (simp del: first_index_None)
    with None show ?thesis
      using nav by (simp add: find_channels_node_def del: first_index_None)
  next
    case (Some j)
    with idx have "first_index (is_user_node u) ?us = Some j" by simp
    with Some same [OF Some] show ?thesis
      using nav by (simp add: find_channels_node_def Let_def split: option.split yaml.split)
  qed
qed

subsection \<open>What a change leaves\<close>

lemma cfg_io_content: "cfg_next_io f = (x, f') \<Longrightarrow> cf_content f' = cf_content f"
  by (auto simp: cfg_next_io_def split: list.splits)

lemma read_nodes_view:
  "read_channel_nodes env uid f = (Inr (nodes, put), f') \<Longrightarrow>
     cf_content f' = cf_content f \<and>
     (\<exists>root. cf_content f = ConfigDoc root \<and> find_channels_node env uid root = Inr (nodes, put))"
  by (auto simp: read_channel_nodes_def dest!: cfg_io_content split: prod.splits if_splits config_content.splits)

lemma read_nodes_content: "read_channel_nodes env uid f = (r, f') \<Longrightarrow> cf_content f' = cf_content f"
  by (auto simp: read_channel_nodes_def dest!: cfg_io_content split: prod.splits)

lemma write_atomic_cases:
  "write_atomic root f = (r, f') \<Longrightarrow>
     (if r = None then cf_content f' = ConfigDoc root else cf_content f' = cf_content f)"
  by (auto simp: write_atomic_def dest!: cfg_io_content split: prod.splits if_splits)

lemma cfg_mutate_fail: "cfg_mutate env uid fn f = (Some e, f') \<Longrightarrow> cf_content f' = cf_content f"
  by (auto simp: cfg_mutate_def split: prod.splits sum.splits
      dest!: read_nodes_content write_atomic_cases)

lemma cfg_mutate_ok:
  assumes "cfg_mutate env uid fn f = (None, f')"
  shows "\<exists>ns ns'. channel_nodes env uid f = Some ns \<and> fn ns = Inr ns' \<and> channel_nodes env uid f' = Some ns' \<and>
           (\<forall>u. u \<noteq> uid \<longrightarrow> channel_nodes env u f' = channel_nodes env u f)"
proof -
  from assms obtain ns put f1 ns' where r: "read_channel_nodes env uid f = (Inr (ns, put), f1)"
      "fn ns = Inr ns'" "write_atomic (put ns') f1 = (None, f')"
    by (auto simp: cfg_mutate_def split: prod.splits sum.splits)
  from read_nodes_view [OF r(1)] obtain root where root: "cf_content f = ConfigDoc root"
      "find_channels_node env uid root = Inr (ns, put)" by blast
  have f': "cf_content f' = ConfigDoc (put ns')" using write_atomic_cases [OF r(3)] by simp
  have "channel_nodes env uid f' = Some ns'"
    using find_channels_put [OF root(2), of ns'] f' by (auto simp: channel_nodes_def)
  moreover have "channel_nodes env u f' = channel_nodes env u f" if "u \<noteq> uid" for u
    using find_channels_other [OF root(2) that, of ns'] f' root(1)
    by (simp add: channel_nodes_def split: sum.splits prod.splits)
  ultimately show ?thesis using r(2) root by (auto simp: channel_nodes_def)
qed

definition unlink :: "string \<Rightarrow> channel_config \<Rightarrow> channel_config" where
  "unlink name c = c\<lparr>cc_links := filter (\<lambda>l. cl_target l \<noteq> name) (cc_links c)\<rparr>"

lemma strip_links_decode:
  assumes "codec_ok codec" and "strip_links codec name ns = Inr ns'"
  shows "\<exists>cs. decode_all codec ns = Some cs \<and> decode_all codec ns' = Some (map (unlink name) cs)"
  using assms(2)
proof (induction ns arbitrary: ns')
  case Nil
  then show ?case by simp
next
  case (Cons n ns)
  then obtain c rest where c: "yc_decode codec n = Some c" "strip_links codec name ns = Inr rest"
    by (auto split: option.splits sum.splits simp: Let_def)
  from Cons.IH [OF c(2)] obtain cs where cs: "decode_all codec ns = Some cs"
    "decode_all codec rest = Some (map (unlink name) cs)" by blast
  let ?kept = "filter (\<lambda>l. cl_target l \<noteq> name) (cc_links c)"
  let ?n = "if length ?kept = length (cc_links c) then n else yc_encode codec (c\<lparr>cc_links := ?kept\<rparr>)"
  have "?kept = cc_links c" if "length ?kept = length (cc_links c)"
    using that by (metis filter_id_conv length_filter_less less_irrefl)
  then have "yc_decode codec ?n = Some (unlink name c)"
    using assms(1) c(1) by (auto simp: codec_ok_def unlink_def)
  moreover have "ns' = ?n # rest" using Cons.prems c by (simp add: Let_def)
  ultimately show ?case using c(1) cs by simp
qed

lemma decode_all_remove_at:
  "decode_all codec ns = Some cs \<Longrightarrow> i < length ns \<Longrightarrow> decode_all codec (remove_at i ns) = Some (remove_at i cs)"
proof (induction ns arbitrary: cs i)
  case (Cons n ns)
  then obtain c rest where c: "yc_decode codec n = Some c" "decode_all codec ns = Some rest" "cs = c # rest"
    by (auto split: option.splits)
  show ?case
  proof (cases i)
    case 0
    with c show ?thesis by (simp add: remove_at_def)
  next
    case (Suc j)
    with Cons.IH [OF c(2), of j] Cons.prems(2) c show ?thesis by (simp add: remove_at_def)
  qed
qed simp

lemma decode_all_length: "decode_all codec ns = Some cs \<Longrightarrow> length cs = length ns"
  by (induction ns arbitrary: cs) (auto split: option.splits)

subsection \<open>A concrete codec\<close>

text \<open>
  Integers and budgets are written in unary, which is all a concrete codec needs to be read back.
\<close>

definition enc_int :: "int \<Rightarrow> yaml" where
  "enc_int i = YMap [(YScalar (if i < 0 then ''-'' else []), YSeq (replicate (nat \<bar>i\<bar>) (YScalar [])))]"

definition dec_int :: "yaml \<Rightarrow> int" where
  "dec_int n = (case n of
     YMap [(s, YSeq xs)] \<Rightarrow> (if node_value s = [] then int (length xs) else - int (length xs)) | _ \<Rightarrow> 0)"

definition enc_float :: "float64 \<Rightarrow> yaml" where
  "enc_float x = (case x of Finite m e \<Rightarrow> YSeq [enc_int m, enc_int e] | PosInf \<Rightarrow> YScalar ''inf''
     | NegInf \<Rightarrow> YScalar ''-inf'' | NaN \<Rightarrow> YScalar ''nan'')"

definition dec_float :: "yaml \<Rightarrow> float64" where
  "dec_float n = (case n of YSeq [m, e] \<Rightarrow> Finite (dec_int m) (dec_int e)
     | YScalar s \<Rightarrow> if s = ''inf'' then PosInf else if s = ''-inf'' then NegInf else NaN | _ \<Rightarrow> NaN)"

definition enc_strings :: "string list \<Rightarrow> yaml" where
  "enc_strings xs = YSeq (map YScalar xs)"

definition dec_strings :: "yaml \<Rightarrow> string list" where
  "dec_strings n = (case n of YSeq xs \<Rightarrow> map node_value xs | _ \<Rightarrow> [])"

definition enc_links :: "channel_link list \<Rightarrow> yaml" where
  "enc_links ls = YSeq (map (\<lambda>l. YSeq [YScalar (cl_target l), YScalar (cl_description l)]) ls)"

definition dec_link :: "yaml \<Rightarrow> channel_link" where
  "dec_link n =
     (case n of YSeq [t, d] \<Rightarrow> \<lparr>cl_target = node_value t, cl_description = node_value d\<rparr>
              | _ \<Rightarrow> \<lparr>cl_target = [], cl_description = []\<rparr>)"

definition dec_links :: "yaml \<Rightarrow> channel_link list" where
  "dec_links n = (case n of YSeq ls \<Rightarrow> map dec_link ls | _ \<Rightarrow> [])"

lemma dec_enc_int [simp]: "dec_int (enc_int i) = i"
  by (simp add: dec_int_def enc_int_def node_value_def)

lemma dec_link_enc [simp]: "dec_link (YSeq [YScalar (cl_target l), YScalar (cl_description l)]) = l"
  by (simp add: dec_link_def node_value_def)

lemma dec_enc [simp]:
  "dec_float (enc_float x) = x" "dec_strings (enc_strings xs) = xs" "dec_links (enc_links ls) = ls"
  by (simp_all add: dec_float_def enc_float_def dec_strings_def enc_strings_def node_value_def comp_def
      dec_links_def enc_links_def map_idI split: float64.splits)

definition sample_encode :: "channel_config \<Rightarrow> yaml" where
  "sample_encode c = YMap
     [(YScalar ''type'', YScalar (cc_type c)), (YScalar ''name'', YScalar (cc_name c)),
      (YScalar ''description'', YScalar (cc_description c)), (YScalar ''purpose'', YScalar (cc_purpose c)),
      (YScalar ''model'', YScalar (cc_model c)), (YScalar ''max_turns'', enc_int (cc_max_turns c)),
      (YScalar ''effort'', YScalar (ts_effort (cc_turn_settings c))),
      (YScalar ''max_budget_usd'', enc_float (ts_max_budget (cc_turn_settings c))),
      (YScalar ''fallback_model'', YScalar (ts_fallback_model (cc_turn_settings c))),
      (YScalar ''tool_groups'', enc_strings (cc_tool_groups c)),
      (YScalar ''allowed_tools'', enc_strings (cc_allowed c)),
      (YScalar ''disallowed_tools'', enc_strings (cc_disallowed c)),
      (YScalar ''creatable_groups'', enc_strings (cc_creatable c)),
      (YScalar ''links'', enc_links (cc_links c)),
      (YScalar ''ephemeral'', YScalar (if cc_ephemeral c then ''true'' else [])),
      (YScalar ''ephemeral_idle_timeout'', YScalar (cc_idle_timeout c)),
      (YScalar ''claude_session_timeout'', YScalar (cc_session_timeout c)),
      (YScalar ''initial_message'', YScalar (cc_initial_message c)),
      (YScalar ''parent'', YScalar (cc_parent c)), (YScalar ''created_at'', YScalar (cc_created_at c)),
      (YScalar ''rest'', YScalar (cc_rest c))]"

definition sample_field :: "yaml \<Rightarrow> string \<Rightarrow> yaml" where
  "sample_field n key = (case find_mapping_value n key of None \<Rightarrow> YScalar [] | Some v \<Rightarrow> v)"

definition sample_decode :: "yaml \<Rightarrow> channel_config option" where
  "sample_decode n = Some
     \<lparr>cc_type = node_scalar_value n ''type'', cc_name = node_scalar_value n ''name'',
      cc_description = node_scalar_value n ''description'', cc_purpose = node_scalar_value n ''purpose'',
      cc_model = node_scalar_value n ''model'', cc_max_turns = dec_int (sample_field n ''max_turns''),
      cc_turn_settings =
        \<lparr>ts_effort = node_scalar_value n ''effort'', ts_max_budget = dec_float (sample_field n ''max_budget_usd''),
         ts_fallback_model = node_scalar_value n ''fallback_model''\<rparr>,
      cc_tool_groups = dec_strings (sample_field n ''tool_groups''),
      cc_allowed = dec_strings (sample_field n ''allowed_tools''),
      cc_disallowed = dec_strings (sample_field n ''disallowed_tools''),
      cc_creatable = dec_strings (sample_field n ''creatable_groups''),
      cc_links = dec_links (sample_field n ''links''),
      cc_ephemeral = (node_scalar_value n ''ephemeral'' = ''true''),
      cc_idle_timeout = node_scalar_value n ''ephemeral_idle_timeout'',
      cc_session_timeout = node_scalar_value n ''claude_session_timeout'',
      cc_initial_message = node_scalar_value n ''initial_message'',
      cc_parent = node_scalar_value n ''parent'', cc_created_at = node_scalar_value n ''created_at'',
      cc_rest = node_scalar_value n ''rest''\<rparr>"

definition sample_codec :: yaml_codec where
  "sample_codec = \<lparr>yc_decode = sample_decode, yc_encode = sample_encode\<rparr>"

lemma sample_decode_encode: "sample_decode (sample_encode c) = Some c"
  by (cases c) (simp add: sample_decode_def sample_encode_def node_scalar_value_def sample_field_def
      find_mapping_value_def node_value_def)

lemma sample_codec_ok: "codec_ok sample_codec"
  by (auto simp: codec_ok_def sample_codec_def sample_decode_encode) (auto simp: sample_decode_def)

definition sample_channel :: "string \<Rightarrow> channel_link list \<Rightarrow> channel_config" where
  "sample_channel name ls =
     \<lparr>cc_type = ''telegram'', cc_name = name, cc_description = ''phone'', cc_purpose = [], cc_model = [],
      cc_max_turns = 0, cc_turn_settings = no_turn_settings, cc_tool_groups = [], cc_allowed = [],
      cc_disallowed = [], cc_creatable = [], cc_links = ls, cc_ephemeral = True, cc_idle_timeout = [],
      cc_session_timeout = [], cc_initial_message = [], cc_parent = [], cc_created_at = [], cc_rest = []\<rparr>"

definition sample_config :: "channel_config list \<Rightarrow> config_file" where
  "sample_config cs =
     \<lparr>cf_content = ConfigDoc (YMap [(YScalar ''prod'', YMap [(YScalar ''users'',
        YSeq [YMap [(YScalar ''id'', YScalar ''u''), (YScalar ''channels'', YSeq (map sample_encode cs))]])])]),
      cf_io = []\<rparr>"

lemma sample_user [simp]: "is_user_node u (YMap [(YScalar ''id'', YScalar ''u''), (YScalar ''channels'', x)]) = (u = ''u'')"
  by (auto simp: is_user_node_def find_mapping_value_def node_value_def)

lemma sample_nodes: "\<exists>put. read_channel_nodes ''prod'' ''u'' (sample_config cs) = (Inr (map sample_encode cs, put), sample_config cs)"
  by (simp add: read_channel_nodes_def cfg_next_io_def sample_config_def find_channels_node_def
      find_mapping_value_def node_value_def Let_def)

lemma sample_channel_nodes [simp]: "channel_nodes ''prod'' ''u'' (sample_config cs) = Some (map sample_encode cs)"
  by (simp add: channel_nodes_def sample_config_def find_channels_node_def find_mapping_value_def
      node_value_def Let_def)

lemma sample_mutate:
  "fn (map sample_encode cs) = Inr ns \<Longrightarrow> \<exists>f'. cfg_mutate ''prod'' ''u'' fn (sample_config cs) = (None, f')"
  using sample_nodes [of cs] by (auto simp: cfg_mutate_def write_atomic_def cfg_next_io_def sample_config_def)

lemma sample_node_name [simp]: "node_scalar_value (sample_encode c) ''name'' = cc_name c"
  by (simp add: sample_encode_def node_scalar_value_def find_mapping_value_def node_value_def)

text \<open>
  Removing a channel from the config never leaves a link to it: when the removal reports
  success the file's channels for the user are the others in their order, each without the
  links that named the removed channel and otherwise as it was, every other user's channels are
  as they were; when it reports an error the file has not changed at all.
\<close>

theorem removed_channel_leaves_no_links:
  assumes "codec_ok codec" and "cfg_remove_channel codec env uid name f = (r, f')"
  shows "(r \<noteq> None \<longrightarrow> cf_content f' = cf_content f) \<and>
         (r = None \<longrightarrow>
            (\<forall>u. u \<noteq> uid \<longrightarrow> channel_nodes env u f' = channel_nodes env u f) \<and>
            (\<exists>ns i cs. channel_nodes env uid f = Some ns \<and>
               first_index (\<lambda>n. node_scalar_value n ''name'' = name) ns = Some i \<and>
               decode_all codec (remove_at i ns) = Some cs \<and>
               config_channels codec env uid f' = Some (map (unlink name) cs) \<and>
               (\<forall>c \<in> set (map (unlink name) cs). \<forall>l \<in> set (cc_links c). cl_target l \<noteq> name)))"
proof (cases r)
  case (Some e)
  with assms(2) cfg_mutate_fail show ?thesis by (auto simp: cfg_remove_channel_def)
next
  case None
  with assms(2) have "cfg_mutate env uid (remove_channel_nodes codec name) f = (None, f')"
    by (simp add: cfg_remove_channel_def)
  from cfg_mutate_ok [OF this] obtain ns ns' where m: "channel_nodes env uid f = Some ns"
      "remove_channel_nodes codec name ns = Inr ns'" "channel_nodes env uid f' = Some ns'"
      "\<forall>u. u \<noteq> uid \<longrightarrow> channel_nodes env u f' = channel_nodes env u f" by blast
  from m(2) obtain i where i: "first_index (\<lambda>n. node_scalar_value n ''name'' = name) ns = Some i"
      "strip_links codec name (remove_at i ns) = Inr ns'"
    by (auto simp: remove_channel_nodes_def split: option.splits)
  from strip_links_decode [OF assms(1) i(2)] obtain cs where
    "decode_all codec (remove_at i ns) = Some cs" "decode_all codec ns' = Some (map (unlink name) cs)" by blast
  with None m i(1) show ?thesis
    by (auto simp: config_channels_def unlink_def)
qed

theorem removed_channel_leaves_no_links_witness:
  "\<exists>f'. cfg_remove_channel sample_codec ''prod'' ''u'' ''old''
          (sample_config [sample_channel ''old'' [],
             sample_channel ''dev'' [\<lparr>cl_target = ''old'', cl_description = []\<rparr>, \<lparr>cl_target = ''main'', cl_description = []\<rparr>]]) = (None, f') \<and>
        config_channels sample_codec ''prod'' ''u'' f' =
          Some [sample_channel ''dev'' [\<lparr>cl_target = ''main'', cl_description = []\<rparr>]]"
proof -
  let ?l = "\<lparr>cl_target = ''main'', cl_description = []\<rparr>"
  let ?cs = "[sample_channel ''old'' [], sample_channel ''dev'' [\<lparr>cl_target = ''old'', cl_description = []\<rparr>, ?l]]"
  have name: "cc_name (sample_channel n ls) = n" "cc_links (sample_channel n ls) = ls" for n ls
    by (simp_all add: sample_channel_def)
  have idx: "first_index (\<lambda>n. node_scalar_value n ''name'' = ''old'') (map sample_encode ?cs) = Some 0"
    by (simp add: name)
  have rest: "remove_at 0 (map sample_encode ?cs) = [sample_encode (?cs ! 1)]"
    by (simp add: remove_at_def)
  have dec: "yc_decode sample_codec (sample_encode c) = Some c" for c
    by (simp add: sample_codec_def sample_decode_encode)
  have "\<exists>ns. remove_channel_nodes sample_codec ''old'' (map sample_encode ?cs) = Inr ns"
    unfolding remove_channel_nodes_def idx option.case rest by (simp add: dec Let_def)
  then obtain ns where "remove_channel_nodes sample_codec ''old'' (map sample_encode ?cs) = Inr ns" ..
  from sample_mutate [of "remove_channel_nodes sample_codec ''old''" ?cs, OF this]
  obtain f' where f': "cfg_remove_channel sample_codec ''prod'' ''u'' ''old'' (sample_config ?cs) = (None, f')"
    unfolding cfg_remove_channel_def by blast
  from removed_channel_leaves_no_links [OF sample_codec_ok f'] obtain ns i cs where
    "ns = map sample_encode ?cs" "first_index (\<lambda>n. node_scalar_value n ''name'' = ''old'') ns = Some i"
    "decode_all sample_codec (remove_at i ns) = Some cs"
    "config_channels sample_codec ''prod'' ''u'' f' = Some (map (unlink ''old'') cs)" by auto
  moreover from this idx have "i = 0" by simp
  ultimately have "config_channels sample_codec ''prod'' ''u'' f' = Some [unlink ''old'' (?cs ! 1)]"
    using rest by (auto simp: dec)
  with f' show ?thesis by (simp add: unlink_def sample_channel_def)
qed

text \<open>
  Adding a channel writes exactly that channel after the user's others, and only when none
  of them has its name.
\<close>

theorem added_channel_is_last_and_new:
  assumes "codec_ok codec" and "cfg_add_channel codec env uid ch f = (None, f')"
  shows "\<exists>ns. channel_nodes env uid f = Some ns \<and>
           (\<forall>n \<in> set ns. node_scalar_value n ''name'' \<noteq> cc_name ch) \<and>
           channel_nodes env uid f' = Some (ns @ [yc_encode codec ch]) \<and>
           yc_decode codec (yc_encode codec ch) = Some ch \<and>
           (\<forall>u. u \<noteq> uid \<longrightarrow> channel_nodes env u f' = channel_nodes env u f)"
  using cfg_mutate_ok [OF assms(2) [unfolded cfg_add_channel_def]] assms(1)
  by (auto simp: add_channel_nodes_def codec_ok_def split: if_splits)

theorem added_channel_is_last_and_new_witness:
  "\<exists>f'. cfg_add_channel sample_codec ''prod'' ''u'' (sample_channel ''dev'' []) (sample_config [sample_channel ''main'' []]) = (None, f') \<and>
        channel_nodes ''prod'' ''u'' f' = Some [sample_encode (sample_channel ''main'' []), sample_encode (sample_channel ''dev'' [])]"
proof -
  have "add_channel_nodes sample_codec (sample_channel ''dev'' []) (map sample_encode [sample_channel ''main'' []]) =
      Inr [sample_encode (sample_channel ''main'' []), sample_encode (sample_channel ''dev'' [])]"
    by (simp add: add_channel_nodes_def) (simp add: sample_channel_def sample_codec_def)
  from sample_mutate [of "add_channel_nodes sample_codec (sample_channel ''dev'' [])" "[sample_channel ''main'' []]", OF this]
  obtain f' where f': "cfg_add_channel sample_codec ''prod'' ''u'' (sample_channel ''dev'' []) (sample_config [sample_channel ''main'' []]) = (None, f')"
    unfolding cfg_add_channel_def by blast
  with added_channel_is_last_and_new [OF sample_codec_ok f'] show ?thesis
    by (auto simp: sample_codec_def)
qed

end
