(* ===== verification/Channels.thy ===== *)
theory Channels
  imports Store
begin

text \<open>
  The channel data model of \<open>internal/channel\<close>: messages and where they come from
  (\<open>channel.go\<close>), the channel map the router hands around, and the confirmation prompts'
  buttons (\<open>prompt.go\<close>).

  A Go map that is ranged over is the list of its entries, in the order the range visits
  them: Go leaves that order open, and a theorem about every list covers every order.
\<close>

type_synonym channel_id = string
type_synonym message_id = string

datatype message_source =
    SourceUser | SourceSchedule | SourceChannel | SourceInitialMessage
  | SourceResume | SourceNotification | SourceChild | SourceOther string

record source_info =
  si_source :: message_source
  si_from_channel :: string
  si_schedule_name :: string
  si_subscription_id :: string
  si_subscription_label :: string
  si_child_channel :: string

record tagged_message =
  tm_channel :: channel_id
  tm_text :: string
  tm_source :: "source_info option"

definition no_source :: "message_source \<Rightarrow> source_info" where
  "no_source src =
     \<lparr>si_source = src, si_from_channel = [], si_schedule_name = [], si_subscription_id = [],
      si_subscription_label = [], si_child_channel = []\<rparr>"

text \<open>
  What the modelled code asks of a live channel: its identity, its transport type and
  whether the transport implements \<open>Prompter\<close>, that is, has buttons.
\<close>

record chan =
  ch_id :: channel_id
  ch_name :: string
  ch_type :: string
  ch_prompter :: bool

type_synonym channel_map = "(channel_id \<times> chan) list"

text \<open>\<open>isUserMessage\<close>: a missing source is the user's.\<close>

definition from_user :: "source_info option \<Rightarrow> bool" where
  "from_user si = (case si of None \<Rightarrow> True | Some i \<Rightarrow> si_source i = SourceUser)"

text \<open>The first entry whose channel has the name, as the ranges over a channel map find it.\<close>

definition chan_by_name :: "channel_map \<Rightarrow> string \<Rightarrow> (channel_id \<times> chan) option" where
  "chan_by_name m name = find (\<lambda>(i, c). ch_name c = name) m"

lemma chan_by_name_Some:
  "chan_by_name m name = Some (i, c) \<Longrightarrow> (i, c) \<in> set m \<and> ch_name c = name"
  by (auto simp: chan_by_name_def dest: find_SomeD)

subsection \<open>Confirmation buttons\<close>

type_synonym prompt_reply = string

definition reply_yes :: prompt_reply where "reply_yes = ''yes''"
definition reply_no :: prompt_reply where "reply_no = ''no''"

record button_press =
  bp_prompt :: string
  bp_reply :: prompt_reply

definition button_press_prefix :: string where
  "button_press_prefix = [CHR 0xF0, CHR 0x9F, CHR 0x94, CHR 0x98, CHR '' '']"

definition prompt_mark :: string where
  "prompt_mark = '' (prompt ''"

definition button_press_text :: "button_press \<Rightarrow> string" where
  "button_press_text p = button_press_prefix @ bp_reply p @ prompt_mark @ bp_prompt p @ '')''"

definition parse_button_press :: "string \<Rightarrow> button_press option" where
  "parse_button_press text =
     (case cut_prefix text button_press_prefix of
        None \<Rightarrow> None
      | Some rest \<Rightarrow>
          (case cut rest prompt_mark of
             None \<Rightarrow> None
           | Some (reply, pid) \<Rightarrow>
               if \<not> has_suffix pid '')'' then None
               else Some \<lparr>bp_prompt = trim_suffix pid '')'', bp_reply = reply\<rparr>))"

lemma cut_SomeD: "cut s sep = Some (a, b) \<Longrightarrow> s = a @ sep @ b"
proof -
  assume "cut s sep = Some (a, b)"
  then obtain i where i: "index_of s sep = Some i" "a = take i s" "b = drop (i + length sep) s"
    by (auto simp: cut_def split: option.splits)
  from index_of_Some [OF i(1)] obtain x y where "s = x @ sep @ y" "length x = i" by blast
  with i(2,3) show ?thesis by simp
qed

lemma cut_prompt_mark:
  "CHR '' '' \<notin> set a \<Longrightarrow> cut (a @ prompt_mark @ b) prompt_mark = Some (a, b)"
  unfolding prompt_mark_def by (rule cut_fresh_head)

lemma parse_press_text:
  assumes "CHR '' '' \<notin> set (bp_reply p)"
  shows "parse_button_press (button_press_text p) = Some p"
  using cut_prompt_mark [OF assms, of "bp_prompt p @ '')''"]
  by (simp add: parse_button_press_def button_press_text_def)

lemma press_text_parse:
  assumes "parse_button_press t = Some p"
  shows "t = button_press_text p"
proof -
  from assms obtain rest reply pid where
    "t = button_press_prefix @ rest" "cut rest prompt_mark = Some (reply, pid)"
    "has_suffix pid '')''" "p = \<lparr>bp_prompt = trim_suffix pid '')'', bp_reply = reply\<rparr>"
    by (auto simp: parse_button_press_def cut_prefix_Some split: option.splits if_splits)
  then show ?thesis
    by (auto simp: button_press_text_def has_suffix_iff dest: cut_SomeD)
qed

text \<open>
  A button press is one message: the text a transport delivers for a press reads back as
  that press, and any text read as a press is exactly the text of that press. No other message
  can stand for a press, and two presses never share a text.
\<close>

theorem button_press_roundtrip:
  assumes "bp_reply p \<in> {reply_yes, reply_no}"
  shows "parse_button_press (button_press_text p) = Some p \<and>
         (parse_button_press t = Some p \<longleftrightarrow> t = button_press_text p)"
proof -
  have "CHR '' '' \<notin> set (bp_reply p)"
    using assms by (auto simp: reply_yes_def reply_no_def)
  then show ?thesis
    by (auto simp: parse_press_text dest: press_text_parse)
qed

theorem button_press_roundtrip_witness:
  "parse_button_press (button_press_text \<lparr>bp_prompt = ''A(B)'', bp_reply = ''yes''\<rparr>)
     = Some \<lparr>bp_prompt = ''A(B)'', bp_reply = ''yes''\<rparr>"
  using button_press_roundtrip [of "\<lparr>bp_prompt = ''A(B)'', bp_reply = ''yes''\<rparr>" "[]"]
  by (simp add: reply_yes_def)

lemma typed_answer_no_press [simp]:
  "parse_button_press ''yes'' = None" "parse_button_press ''y'' = None"
  by (simp_all add: parse_button_press_def cut_prefix_def button_press_prefix_def)

subsection \<open>Which channels have a prompt of the agent's own open\<close>

type_synonym open_prompts = "channel_id list"

definition open_prompts_set :: "channel_id \<Rightarrow> bool \<Rightarrow> open_prompts \<Rightarrow> open_prompts" where
  "open_prompts_set c open_now s = (if open_now then List.insert c s else removeAll c s)"

definition open_prompts_is_open :: "open_prompts \<Rightarrow> channel_id \<Rightarrow> bool" where
  "open_prompts_is_open s c = (c \<in> set s)"

lemma open_prompts_laws [simp]:
  "open_prompts_is_open (open_prompts_set c b s) d = (if c = d then b else open_prompts_is_open s d)"
  by (auto simp: open_prompts_is_open_def open_prompts_set_def)

end
