(* ===== verification/ChannelRegistry.thy ===== *)
theory ChannelRegistry
  imports CliTypes ConfigWriter Channels
begin

text \<open>
  The in-memory view of the configured channels (\<open>internal/channel/registry.go\<close>) and the live
  channel map (\<open>router/channelset.go\<close>, \<open>channel/multi.go\<close>). The registry keeps the entries twice,
  as a list and as a map by name; the invariant \<open>registry_ok\<close> ties the two together: the map
  holds, for every name, the last entry of the list that has it.
\<close>

record registry_entry =
  re_id :: channel_id
  re_type :: string
  re_name :: string
  re_description :: string
  re_purpose :: string
  re_model :: model
  re_max_turns :: int
  re_output_style :: string
  re_turn_settings :: turn_settings
  re_allowed :: "tool list"
  re_disallowed :: "tool list"
  re_creatable_groups :: "string list"
  re_notify_lifecycle :: bool
  re_links :: "channel_link list"
  re_parent :: string

record registry =
  rg_entries :: "registry_entry list"
  rg_by_name :: "string \<Rightarrow> registry_entry option"

definition load_registry :: "registry_entry list \<Rightarrow> registry" where
  "load_registry es =
     \<lparr>rg_entries = es, rg_by_name = fold (\<lambda>e m. m(re_name e := Some e)) es (\<lambda>_. None)\<rparr>"

definition registry_all :: "registry \<Rightarrow> registry_entry list" where
  "registry_all r = rg_entries r"

definition registry_by_name :: "registry \<Rightarrow> string \<Rightarrow> registry_entry option" where
  "registry_by_name r name = rg_by_name r name"

definition name_exists :: "registry \<Rightarrow> string \<Rightarrow> bool" where
  "name_exists r name = (rg_by_name r name \<noteq> None)"

definition registry_add :: "registry_entry \<Rightarrow> registry \<Rightarrow> registry" where
  "registry_add e r =
     \<lparr>rg_entries = rg_entries r @ [e], rg_by_name = (rg_by_name r)(re_name e := Some e)\<rparr>"

definition registry_remove :: "string \<Rightarrow> registry \<Rightarrow> registry" where
  "registry_remove name r =
     (if rg_by_name r name = None then r
      else \<lparr>rg_entries = filter (\<lambda>e. re_name e \<noteq> name) (rg_entries r),
            rg_by_name = (rg_by_name r)(name := None)\<rparr>)"

definition registry_links :: "registry \<Rightarrow> string \<Rightarrow> channel_link list option" where
  "registry_links r =
     fold (\<lambda>e m. if re_links e \<noteq> [] then m(re_name e := Some (re_links e)) else m) (rg_entries r) (\<lambda>_. None)"

definition lifecycle_channel_names :: "registry \<Rightarrow> string \<Rightarrow> bool" where
  "lifecycle_channel_names r name =
     list_ex (\<lambda>e. re_name e = name \<and> re_notify_lifecycle e) (rg_entries r)"

subsection \<open>The invariant\<close>

definition last_named :: "registry_entry list \<Rightarrow> string \<Rightarrow> registry_entry option" where
  "last_named es name = find (\<lambda>e. re_name e = name) (rev es)"

definition registry_ok :: "registry \<Rightarrow> bool" where
  "registry_ok r = (rg_by_name r = last_named (rg_entries r))"

lemma last_named_snoc:
  "last_named (es @ [e]) = (last_named es)(re_name e := Some e)"
  by (auto simp: last_named_def fun_eq_iff)

lemma fold_by_name:
  "fold (\<lambda>e m. m(re_name e := Some e)) es (\<lambda>_. None) = last_named es"
proof (induction es rule: rev_induct)
  case Nil
  show ?case by (simp add: last_named_def fun_eq_iff)
next
  case (snoc e es)
  then have "fold (\<lambda>e m. m(re_name e := Some e)) (es @ [e]) (\<lambda>_. None) =
      (last_named es)(re_name e := Some e)" by (simp only: fold_append fold.simps comp_apply id_apply)
  then show ?case by (simp only: last_named_snoc)
qed

lemma last_named_filter:
  "last_named (filter (\<lambda>e. re_name e \<noteq> name) es) = (last_named es)(name := None)"
  by (rule ext) (auto simp: last_named_def rev_filter find_filter_None
      intro!: find_filter_same)

lemma load_registry_ok [simp]: "registry_ok (load_registry es)"
  by (simp add: registry_ok_def load_registry_def fold_by_name)

lemma registry_add_ok: "registry_ok r \<Longrightarrow> registry_ok (registry_add e r)"
  by (simp add: registry_ok_def registry_add_def last_named_snoc)

lemma registry_remove_ok: "registry_ok r \<Longrightarrow> registry_ok (registry_remove name r)"
  by (simp add: registry_ok_def registry_remove_def last_named_filter)

datatype registry_op = RegReload "registry_entry list" | RegAdd registry_entry | RegRemove string

fun run_registry_op :: "registry_op \<Rightarrow> registry \<Rightarrow> registry" where
  "run_registry_op (RegReload es) r = load_registry es"
| "run_registry_op (RegAdd e) r = registry_add e r"
| "run_registry_op (RegRemove name) r = registry_remove name r"

lemma run_registry_ok: "registry_ok r \<Longrightarrow> registry_ok (fold run_registry_op ops r)"
proof (induction ops arbitrary: r)
  case (Cons op ops)
  then show ?case
    by (cases op) (simp_all add: registry_add_ok registry_remove_ok)
qed simp

text \<open>
  The two halves of the channel registry never disagree: after any sequence of reloads, adds
  and removes the lookup by name finds exactly the last entry of the list with that name, so a
  name exists if and only if some entry of the list has it, and a removed name is in neither.
\<close>

theorem registry_halves_agree:
  "registry_by_name (fold run_registry_op ops (load_registry es)) name
     = last_named (registry_all (fold run_registry_op ops (load_registry es))) name \<and>
   (name_exists (fold run_registry_op ops (load_registry es)) name \<longleftrightarrow>
      name \<in> re_name ` set (registry_all (fold run_registry_op ops (load_registry es)))) \<and>
   \<not> name_exists (registry_remove name (fold run_registry_op ops (load_registry es))) name \<and>
   name \<notin> re_name ` set (registry_all (registry_remove name (fold run_registry_op ops (load_registry es))))"
proof -
  let ?r = "fold run_registry_op ops (load_registry es)"
  have ok: "registry_ok ?r" by (rule run_registry_ok) simp
  then have eq: "rg_by_name ?r = last_named (rg_entries ?r)" by (simp add: registry_ok_def)
  have ex: "last_named xs n = None \<longleftrightarrow> n \<notin> re_name ` set xs" for xs n
    by (auto simp: last_named_def find_None_iff)
  show ?thesis
    by (auto simp: registry_by_name_def name_exists_def registry_all_def eq registry_remove_def ex)
qed

subsection \<open>The live channels\<close>

text \<open>\<open>ChannelMap\<close>, and the channel set with its snapshot, add and replace.\<close>

definition channel_map_of :: "chan list \<Rightarrow> channel_id \<Rightarrow> chan option" where
  "channel_map_of cs = fold (\<lambda>c m. m(ch_id c := Some c)) cs (\<lambda>_. None)"

definition set_snapshot :: "channel_map \<Rightarrow> channel_id \<Rightarrow> chan option" where
  "set_snapshot s = map_of s"

definition set_add :: "channel_map \<Rightarrow> channel_map \<Rightarrow> channel_map" where
  "set_add new s = new @ filter (\<lambda>(i, c). i \<notin> fst ` set new) s"

definition set_replace :: "channel_map \<Rightarrow> channel_map \<Rightarrow> channel_map" where
  "set_replace new s = new"

lemma set_add_snapshot: "set_snapshot (set_add new s) = set_snapshot s ++ set_snapshot new"
proof
  fix i
  have "map_of (filter (\<lambda>p. fst p \<notin> A) s) i = (if i \<in> A then None else map_of s i)" for A
    by (induction s) auto
  then have *: "map_of (filter (\<lambda>(i, c). i \<notin> fst ` set new) s) i = (if i \<in> fst ` set new then None else map_of s i)"
    by (simp add: case_prod_unfold)
  show "set_snapshot (set_add new s) i = (set_snapshot s ++ set_snapshot new) i"
  proof (cases "map_of new i")
    case None
    then have "i \<notin> fst ` set new" by (simp add: map_of_eq_None_iff)
    with None * show ?thesis by (simp add: set_snapshot_def set_add_def map_add_def)
  next
    case (Some c)
    then show ?thesis by (simp add: set_snapshot_def set_add_def map_add_def)
  qed
qed

end
