(* ===== verification/ToolAccess.thy ===== *)
theory ToolAccess
  imports Glob Credentials RemoteMcp ChannelRegistry
begin

text \<open>
  Which tools a turn may use: the tool and model names of \<open>internal/claudecli\<close>, the tool groups
  of \<open>internal/toolgroup\<close>, the per-channel lists the router builds (\<open>router/tools.go\<close>), and the
  lists the agent hands to the CLI (\<open>agent/agent.go\<close>): builtin commands filtered out, glob
  patterns expanded against the live MCP tool names.
\<close>

type_synonym tool_group = string

subsection \<open>Tool groups\<close>

definition all_builtins :: "tool list" where
  "all_builtins = [builtin_stop, builtin_compact, builtin_login, builtin_auth, builtin_reset]"

definition mcp_tools_all :: tool where "mcp_tools_all = ''mcp__*''"

definition all_tools_group :: "tool list" where
  "all_tools_group = cli_tools @ all_builtins @ [mcp_tools_all]"

type_synonym group_map = "tool_group \<Rightarrow> tool list option"

definition static_groups :: group_map where
  "static_groups =
     map_of
       [(''all_tools'', all_tools_group),
        (''core_tools'',
          [''Bash'', ''Read'', ''Edit'', ''Write'', ''Glob'', ''Grep'', ''WebFetch'', ''WebSearch'']),
        (''all_builtins'', all_builtins),
        (''safe_builtins'', [builtin_stop, builtin_compact, builtin_reset_session])]"

definition group_tools :: "group_map \<Rightarrow> tool_group \<Rightarrow> tool list" where
  "group_tools gm g = (case gm g of None \<Rightarrow> [] | Some ts \<Rightarrow> ts)"

text \<open>\<open>SetPackageTools\<close>: every package group's tools are appended to the group's.\<close>

fun set_package_tools :: "(tool_group \<times> tool list) list \<Rightarrow> group_map \<Rightarrow> group_map" where
  "set_package_tools [] gm = gm"
| "set_package_tools ((g, ts) # ps) gm =
     set_package_tools ps (gm(g := Some (group_tools gm g @ ts)))"

definition valid_group :: "group_map \<Rightarrow> tool_group \<Rightarrow> bool" where
  "valid_group gm g = (gm g \<noteq> None)"

text \<open>The loop of \<open>ResolveGroups\<close>: \<open>seen\<close> is what the result holds already.\<close>

fun keep_first :: "tool list \<Rightarrow> tool list \<Rightarrow> tool list" where
  "keep_first seen [] = []"
| "keep_first seen (t # ts) =
     (if t \<in> set seen then keep_first seen ts else t # keep_first (t # seen) ts)"

definition resolve_groups :: "group_map \<Rightarrow> tool_group list \<Rightarrow> tool list" where
  "resolve_groups gm gs = keep_first [] (concat (map (group_tools gm) gs))"

record channel_context =
  cc_packages :: "string list"
  cc_remote_mcps :: "string list"

definition credential_tool_patterns :: "channel_context \<Rightarrow> tool list" where
  "credential_tool_patterns c = map (\<lambda>name. ''mcp__tclaw__'' @ name @ ''_*'') (cc_packages c)"

definition remote_mcp_tool_patterns :: "channel_context \<Rightarrow> tool list" where
  "remote_mcp_tool_patterns c = map (\<lambda>name. ''mcp__'' @ name @ ''__*'') (cc_remote_mcps c)"

lemma set_keep_first: "set (keep_first seen ts) = set ts - set seen"
  by (induction seen ts rule: keep_first.induct) auto

lemma distinct_keep_first: "distinct (keep_first seen ts)"
  by (induction seen ts rule: keep_first.induct) (auto simp: set_keep_first)

lemma set_resolve_groups: "set (resolve_groups gm gs) = (\<Union>g \<in> set gs. set (group_tools gm g))"
  by (auto simp: resolve_groups_def set_keep_first)

subsection \<open>The lists the router builds\<close>

record channel_tools =
  ct_allowed :: "tool list"
  ct_disallowed :: "tool list"

text \<open>\<open>partitionRemoteMCPs\<close>: a server naming a channel twice is listed twice under it.\<close>

definition global_mcps :: "remote_mcp list \<Rightarrow> remote_mcp list" where
  "global_mcps ms = filter (\<lambda>m. rm_channels m = []) ms"

definition scoped_mcps :: "remote_mcp list \<Rightarrow> string \<Rightarrow> remote_mcp list" where
  "scoped_mcps ms name =
     concat (map (\<lambda>m. map (\<lambda>_. m) (filter (\<lambda>n. n = name) (rm_channels m))) ms)"

text \<open>\<open>buildChannelContext\<close>: a listing that fails is logged and counts as empty.\<close>

definition build_channel_context :: "cred_world \<Rightarrow> mcp_world \<Rightarrow> string \<Rightarrow> channel_context" where
  "build_channel_context creds mcps name =
     \<lparr>cc_packages =
        (case fst (list_by_channel name creds) of
           Inl e \<Rightarrow> []
         | Inr sets \<Rightarrow> keep_first [] (map cs_package sets)),
      cc_remote_mcps =
        (case fst (mcp_load mcps) of
           Inl e \<Rightarrow> []
         | Inr ms \<Rightarrow> map rm_name (global_mcps ms) @ map rm_name (scoped_mcps ms name))\<rparr>"

text \<open>
  One round of \<open>buildChannelToolOverrides\<close>. The lists of a channel are its registry entry's
  two, or the user's two when its own allowed list is empty.
\<close>

definition channel_tool_source :: "registry_entry option \<Rightarrow> channel_tools \<Rightarrow> channel_tools" where
  "channel_tool_source entry user =
     (case entry of
        None \<Rightarrow> user
      | Some e \<Rightarrow>
          if re_allowed e = [] then user
          else \<lparr>ct_allowed = re_allowed e, ct_disallowed = re_disallowed e\<rparr>)"

definition channel_override ::
  "registry \<Rightarrow> channel_tools \<Rightarrow> cred_world \<Rightarrow> mcp_world \<Rightarrow> string \<Rightarrow> channel_tools option" where
  "channel_override reg user creds mcps name =
     (let src = channel_tool_source (registry_by_name reg name) user;
          ctx = build_channel_context creds mcps name;
          allowed = ct_allowed src @ credential_tool_patterns ctx @ remote_mcp_tool_patterns ctx
      in if allowed = [] \<and> ct_disallowed src = [] then None
         else Some \<lparr>ct_allowed = allowed, ct_disallowed = ct_disallowed src\<rparr>)"

text \<open>
  The map over all channels. \<open>worlds i\<close> is the state the stores are in when channel \<open>i\<close> is
  reached, so that no order of the channels and no outcome of a read is ruled out.
\<close>

definition build_channel_tool_overrides ::
  "channel_map \<Rightarrow> registry \<Rightarrow> channel_tools \<Rightarrow> (channel_id \<Rightarrow> cred_world \<times> mcp_world)
     \<Rightarrow> channel_id \<Rightarrow> channel_tools option" where
  "build_channel_tool_overrides chans reg user worlds i =
     (case map_of chans i of
        None \<Rightarrow> None
      | Some c \<Rightarrow> channel_override reg user (fst (worlds i)) (snd (worlds i)) (ch_name c))"

text \<open>The settings a channel's registry entry makes, \<open>None\<close> where it makes none.\<close>

definition entry_of :: "channel_map \<Rightarrow> registry \<Rightarrow> channel_id \<Rightarrow> registry_entry option" where
  "entry_of chans reg i =
     (case map_of chans i of None \<Rightarrow> None | Some c \<Rightarrow> registry_by_name reg (ch_name c))"

definition build_channel_models :: "channel_map \<Rightarrow> registry \<Rightarrow> channel_id \<Rightarrow> model option" where
  "build_channel_models chans reg i =
     (case entry_of chans reg i of
        None \<Rightarrow> None | Some e \<Rightarrow> if re_model e = [] then None else Some (re_model e))"

definition build_channel_max_turns :: "channel_map \<Rightarrow> registry \<Rightarrow> channel_id \<Rightarrow> int option" where
  "build_channel_max_turns chans reg i =
     (case entry_of chans reg i of
        None \<Rightarrow> None | Some e \<Rightarrow> if re_max_turns e \<le> 0 then None else Some (re_max_turns e))"

definition build_channel_output_styles :: "channel_map \<Rightarrow> registry \<Rightarrow> channel_id \<Rightarrow> string option" where
  "build_channel_output_styles chans reg i =
     (case entry_of chans reg i of
        None \<Rightarrow> None | Some e \<Rightarrow> if re_output_style e = [] then None else Some (re_output_style e))"

definition build_channel_turn_settings :: "channel_map \<Rightarrow> registry \<Rightarrow> channel_id \<Rightarrow> turn_settings option" where
  "build_channel_turn_settings chans reg i =
     (case entry_of chans reg i of
        None \<Rightarrow> None
      | Some e \<Rightarrow>
          if no_settings (re_turn_settings e) then None else Some (re_turn_settings e))"

subsection \<open>The MCP servers a channel's turns are given\<close>

record mcp_server_config =
  sv_url :: string
  sv_headers :: "(string \<times> string) list"

record remote_entry =
  ren_name :: string
  ren_url :: string
  ren_headers :: "(string \<times> string) list"

definition remote_config_entries :: "(string \<Rightarrow> string) \<Rightarrow> string \<Rightarrow> remote_mcp list \<Rightarrow> remote_entry list" where
  "remote_config_entries proxy_url token ms =
     map (\<lambda>m. \<lparr>ren_name = rm_name m, ren_url = proxy_url (rm_name m),
               ren_headers = [(''X-Tclaw-Proxy-Token'', token)]\<rparr>) ms"

text \<open>The server map \<open>writeConfigFile\<close> writes: the local server first, then each remote.\<close>

definition local_server :: "string \<Rightarrow> string \<Rightarrow> mcp_server_config" where
  "local_server addr token =
     \<lparr>sv_url = ''http://'' @ addr @ ''/mcp'',
      sv_headers = (if token = [] then [] else [(''Authorization'', ''Bearer '' @ token)])\<rparr>"

definition config_servers :: "string \<Rightarrow> string \<Rightarrow> remote_entry list \<Rightarrow> string \<Rightarrow> mcp_server_config option" where
  "config_servers addr token remotes =
     fold (\<lambda>r m. m(ren_name r := Some \<lparr>sv_url = ren_url r, sv_headers = ren_headers r\<rparr>)) remotes
       [''tclaw'' \<mapsto> local_server addr token]"

text \<open>
  \<open>buildMCPConfigPaths\<close> writes a file of its own for a channel with servers of its own, and the
  agent falls back to the default file, which holds the global servers.
\<close>

definition own_config_mcps :: "remote_mcp list \<Rightarrow> string \<Rightarrow> remote_mcp list option" where
  "own_config_mcps ms name =
     (if scoped_mcps ms name = [] then None else Some (global_mcps ms @ scoped_mcps ms name))"

definition channel_config_mcps :: "remote_mcp list \<Rightarrow> string \<Rightarrow> remote_mcp list" where
  "channel_config_mcps ms name =
     (case own_config_mcps ms name of None \<Rightarrow> global_mcps ms | Some own \<Rightarrow> own)"

text \<open>\<open>MCPToolNames\<close>: the qualified names of the tools that exist now.\<close>

definition permission_prompt_name :: string where "permission_prompt_name = ''permission_prompt''"

definition mcp_tool_names :: "string list \<Rightarrow> mcp_world \<Rightarrow> tool list" where
  "mcp_tool_names local mcps =
     map (\<lambda>n. ''mcp__tclaw__'' @ n) (filter (\<lambda>n. n \<noteq> permission_prompt_name) local) @
     (case fst (mcp_load mcps) of
        Inl e \<Rightarrow> []
      | Inr ms \<Rightarrow> concat (map (\<lambda>m. map (\<lambda>t. ''mcp__'' @ rm_name m @ ''__'' @ t) (rm_tool_names m)) ms))"

subsection \<open>The lists the agent hands to the CLI\<close>

definition is_glob :: "string \<Rightarrow> bool" where
  "is_glob t = list_ex (\<lambda>c. c \<in> set ''*?['') t"

fun expand_mcp_globs :: "tool list \<Rightarrow> tool list \<Rightarrow> tool list" where
  "expand_mcp_globs ts [] = ts"
| "expand_mcp_globs ts (n # ns) =
     concat (map (\<lambda>t. if \<not> is_glob t then [t]
                      else (let hits = filter (glob_match t) (n # ns)
                            in if hits = [] then [t] else hits)) ts)"

definition filter_out_builtins :: "tool list \<Rightarrow> tool list" where
  "filter_out_builtins ts = filter (\<lambda>t. \<not> is_builtin_tool t) ts"

text \<open>
  \<open>isBuiltinAllowed\<close> and \<open>resolveToolsForChannel\<close> read the same source: the channel's lists if
  it has an entry, else the user's.
\<close>

definition effective_tools :: "(channel_id \<Rightarrow> channel_tools option) \<Rightarrow> channel_tools \<Rightarrow> channel_id \<Rightarrow> channel_tools" where
  "effective_tools overrides user c = (case overrides c of None \<Rightarrow> user | Some o1 \<Rightarrow> o1)"

definition is_reset_builtin :: "tool \<Rightarrow> bool" where
  "is_reset_builtin cmd = (cmd = builtin_reset \<or> cmd = builtin_reset_session)"

definition is_builtin_allowed ::
  "(channel_id \<Rightarrow> channel_tools option) \<Rightarrow> channel_tools \<Rightarrow> channel_id \<Rightarrow> tool \<Rightarrow> bool" where
  "is_builtin_allowed overrides user c cmd =
     list_ex (\<lambda>t. t = cmd \<or> (t = builtin_reset \<and> is_reset_builtin cmd))
       (ct_allowed (effective_tools overrides user c))"

definition resolve_tools_for_channel ::
  "(channel_id \<Rightarrow> channel_tools option) \<Rightarrow> channel_tools \<Rightarrow> tool list \<Rightarrow> channel_id
     \<Rightarrow> tool list \<times> tool list" where
  "resolve_tools_for_channel overrides user names c =
     (let eff = effective_tools overrides user c
      in (expand_mcp_globs (filter_out_builtins (ct_allowed eff)) names,
          expand_mcp_globs (filter_out_builtins (ct_disallowed eff)) names))"


subsection \<open>What the lists hold\<close>

lemma expand_mcp_globs_set:
  assumes "names \<noteq> []"
  shows "t \<in> set (expand_mcp_globs ts names) \<longleftrightarrow>
    (t \<in> set ts \<and> (is_glob t \<longrightarrow> (\<forall>n \<in> set names. \<not> glob_match t n))) \<or>
    (t \<in> set names \<and> (\<exists>p \<in> set ts. is_glob p \<and> glob_match p t))"
proof -
  obtain n ns where n: "names = n # ns" using assms by (cases names) auto
  have hits: "filter (glob_match p) names = [] \<longleftrightarrow> (\<forall>x \<in> set names. \<not> glob_match p x)" for p
    by (auto simp: filter_empty_conv)
  show ?thesis
    unfolding n expand_mcp_globs.simps set_concat set_map Let_def
    unfolding n [symmetric] hits by auto
qed

lemma expand_mcp_globs_no_names: "set (expand_mcp_globs ts []) = set ts"
  by simp

lemma expand_mcp_globs_subset: "set (expand_mcp_globs ts names) \<subseteq> set ts \<union> set names"
  using expand_mcp_globs_set [of names _ ts] by (cases "names = []") auto

lemma mcp_not_builtin: "has_prefix t ''mcp__'' \<Longrightarrow> \<not> is_builtin_tool t"
  by (cases t) (auto simp: is_builtin_tool_def)

lemma mcp_tool_names_prefix: "t \<in> set (mcp_tool_names local mcps) \<Longrightarrow> has_prefix t ''mcp__''"
  by (auto simp: mcp_tool_names_def split: sum.splits)

lemma expanded_entry:
  assumes "t \<in> set (expand_mcp_globs ts names)"
  shows "t \<in> set names \<and> (\<exists>p \<in> set ts. is_glob p \<and> glob_match p t) \<or>
         t \<in> set ts \<and> (is_glob t \<longrightarrow> (\<forall>n \<in> set names. \<not> glob_match t n))"
  using assms expand_mcp_globs_set [of names t ts] by (cases "names = []") auto

lemma expanded_hit:
  "p \<in> set ts \<Longrightarrow> is_glob p \<Longrightarrow> n \<in> set names \<Longrightarrow> glob_match p n \<Longrightarrow> n \<in> set (expand_mcp_globs ts names)"
  using expand_mcp_globs_set [of names n ts] by (cases "names = []") auto

lemma expanded_kept: "t \<in> set ts \<Longrightarrow> \<not> is_glob t \<Longrightarrow> t \<in> set (expand_mcp_globs ts names)"
  using expand_mcp_globs_set [of names t ts] by (cases "names = []") auto

text \<open>
  C38. The CLI is handed names it can read, and patterns are expanded. If every entry of a channel's
  lists is a valid tool, then whatever MCP tools exist, both lists resolved for a turn consist of
  valid tools, none of them one of the builtin commands, which only tclaw understands. Each entry is
  an existing MCP tool that a pattern of the same list of the channel matches, or an entry of that
  list which is no pattern or a pattern that no existing tool matches; no other tool slips in.
  Every existing tool that a pattern of the list matches is there by its own name, and every plain
  entry that is no builtin is kept.
\<close>

theorem resolved_tools_are_cli_tools:
  assumes "\<forall>t \<in> set (ct_allowed (effective_tools overrides user c)) \<union>
                 set (ct_disallowed (effective_tools overrides user c)). valid_tool t"
    and "names = mcp_tool_names local mcps"
    and "resolve_tools_for_channel overrides user names c = (allowed, disallowed)"
  shows "\<forall>(out, own) \<in> {(allowed, ct_allowed (effective_tools overrides user c)),
                        (disallowed, ct_disallowed (effective_tools overrides user c))}.
           (\<forall>t \<in> set out. valid_tool t \<and> \<not> is_builtin_tool t \<and>
              (t \<in> set names \<and> (\<exists>p \<in> set own. is_glob p \<and> glob_match p t) \<or>
               t \<in> set own \<and> (is_glob t \<longrightarrow> (\<forall>n \<in> set names. \<not> glob_match t n)))) \<and>
           (\<forall>p \<in> set own. \<not> is_builtin_tool p \<longrightarrow>
              (if is_glob p then \<forall>n \<in> set names. glob_match p n \<longrightarrow> n \<in> set out else p \<in> set out))"
proof -
  have registered: "valid_tool t \<and> \<not> is_builtin_tool t" if "t \<in> set names" for t
    using mcp_tool_names_prefix [of t local mcps] mcp_not_builtin that by (auto simp: assms(2) valid_tool_def)
  have one: "(\<forall>t \<in> set out. valid_tool t \<and> \<not> is_builtin_tool t \<and>
        (t \<in> set names \<and> (\<exists>p \<in> set own. is_glob p \<and> glob_match p t) \<or>
         t \<in> set own \<and> (is_glob t \<longrightarrow> (\<forall>n \<in> set names. \<not> glob_match t n)))) \<and>
      (\<forall>p \<in> set own. \<not> is_builtin_tool p \<longrightarrow>
        (if is_glob p then \<forall>n \<in> set names. glob_match p n \<longrightarrow> n \<in> set out else p \<in> set out))"
    if out: "out = expand_mcp_globs (filter_out_builtins own) names" and own: "\<forall>t \<in> set own. valid_tool t" for out own
  proof (intro conjI ballI impI)
    fix t assume "t \<in> set out"
    then have from_list: "t \<in> set names \<and> (\<exists>p \<in> set own. is_glob p \<and> glob_match p t) \<or>
        t \<in> set own \<and> \<not> is_builtin_tool t \<and> (is_glob t \<longrightarrow> (\<forall>n \<in> set names. \<not> glob_match t n))"
      using expanded_entry [of t "filter_out_builtins own" names] by (auto simp: out filter_out_builtins_def)
    with registered own show "valid_tool t" "\<not> is_builtin_tool t"
      "t \<in> set names \<and> (\<exists>p \<in> set own. is_glob p \<and> glob_match p t) \<or>
       t \<in> set own \<and> (is_glob t \<longrightarrow> (\<forall>n \<in> set names. \<not> glob_match t n))" by blast+
  next
    fix p assume "p \<in> set own" "\<not> is_builtin_tool p"
    then have "p \<in> set (filter_out_builtins own)" by (simp add: filter_out_builtins_def)
    then show "if is_glob p then \<forall>n \<in> set names. glob_match p n \<longrightarrow> n \<in> set out else p \<in> set out"
      by (cases "is_glob p") (simp_all add: out expanded_hit expanded_kept)
  qed
  have lists: "allowed = expand_mcp_globs (filter_out_builtins (ct_allowed (effective_tools overrides user c))) names"
    "disallowed = expand_mcp_globs (filter_out_builtins (ct_disallowed (effective_tools overrides user c))) names"
    using assms(3) by (simp_all add: resolve_tools_for_channel_def Let_def)
  note both = one [OF lists(1)] one [OF lists(2)]
  show ?thesis
    unfolding ball_simps(5,7) ball_simps prod.case using both assms(1) by blast
qed

text \<open>
  What a turn may use, exactly. With tools registered, a name is on the list resolved for a
  channel if and only if the channel's list holds it, it is no builtin, and it is no pattern
  that matches some registered tool; or it is a registered tool that some pattern of the
  channel's list matches.
\<close>

theorem allowed_tools_exact:
  assumes "mcp_tool_names local mcps \<noteq> []"
  shows "t \<in> set (fst (resolve_tools_for_channel overrides user (mcp_tool_names local mcps) c)) \<longleftrightarrow>
     (t \<in> set (ct_allowed (effective_tools overrides user c)) \<and> \<not> is_builtin_tool t \<and>
        (is_glob t \<longrightarrow> (\<forall>n \<in> set (mcp_tool_names local mcps). \<not> glob_match t n))) \<or>
     (t \<in> set (mcp_tool_names local mcps) \<and>
        (\<exists>p \<in> set (ct_allowed (effective_tools overrides user c)).
            \<not> is_builtin_tool p \<and> is_glob p \<and> glob_match p t))"
  unfolding resolve_tools_for_channel_def Let_def fst_conv expand_mcp_globs_set [OF assms]
  by (auto simp: filter_out_builtins_def)

subsection \<open>Servers and their names\<close>

text \<open>
  A name that cannot be confused with another's prefix: the first double underscore of
  \<open>name__\<close> is the one that ends it.
\<close>

definition simple_name :: "string \<Rightarrow> bool" where
  "simple_name n = (index_of (n @ ''__'') ''__'' = Some (length n) \<and> literal_pattern n)"

lemma has_prefix_append_long:
  "length p \<le> length a \<Longrightarrow> has_prefix (a @ b) p = has_prefix a p"
  by (induction a p rule: has_prefix.induct) auto

lemma simple_name_index:
  assumes "simple_name n"
  shows "index_of (n @ ''__'' @ x) ''__'' = Some (length n)"
proof (rule index_of_first)
  fix j assume j: "j < length n"
  have "index_of (n @ ''__'') ''__'' = Some (length n)" using assms by (simp add: simple_name_def)
  from index_of_least [OF this j] have "\<not> has_prefix (drop j (n @ ''__'')) ''__''" .
  moreover have "drop j (n @ ''__'' @ x) = drop j (n @ ''__'') @ x" using j by simp
  ultimately show "\<not> has_prefix (drop j (n @ ''__'' @ x)) ''__''"
    using j has_prefix_append_long [of "''__''" "drop j (n @ ''__'')" x] by simp
qed

lemma simple_name_inj:
  assumes "simple_name m" "simple_name n" "m @ ''__'' @ x = n @ ''__'' @ y"
  shows "m = n \<and> x = y"
proof -
  have "length m = length n"
    using simple_name_index [OF assms(1), of x] simple_name_index [OF assms(2), of y] assms(3) by simp
  with assms(3) show ?thesis by simp
qed

lemma tclaw_simple [simp]: "simple_name ''tclaw''"
  by code_simp

definition server_tool :: "string \<Rightarrow> string \<Rightarrow> tool" where
  "server_tool m t = ''mcp__'' @ m @ ''__'' @ t"

lemma server_pattern_hits:
  assumes "simple_name n" "simple_name m" "glob_match (''mcp__'' @ n @ ''__*'') (server_tool m t)"
  shows "n = m"
proof -
  have "literal_pattern (''mcp__'' @ n @ ''__'')" using assms(1) by (simp add: simple_name_def)
  from glob_match_prefix [OF this] assms(3) obtain r where
    "m @ ''__'' @ t = n @ ''__'' @ r" by (auto simp: server_tool_def)
  from simple_name_inj [OF assms(2,1) this] show ?thesis by simp
qed

lemma package_pattern_hits:
  assumes "simple_name m" "literal_pattern p" "glob_match (''mcp__tclaw__'' @ p @ ''_*'') (server_tool m t)"
  shows "m = ''tclaw''"
proof -
  have "literal_pattern (''mcp__tclaw__'' @ p @ ''_'')" using assms(2) by simp
  from glob_match_prefix [OF this] assms(3) obtain r where
    "m @ ''__'' @ t = ''tclaw'' @ ''__'' @ p @ ''_'' @ r" by (auto simp: server_tool_def)
  from simple_name_inj [OF assms(1) tclaw_simple this] show ?thesis by simp
qed

lemma visible_server:
  assumes "mcp_load mcps = (Inr ms, w)" "n \<in> set (cc_remote_mcps (build_channel_context creds mcps name))"
  shows "\<exists>m \<in> set ms. rm_name m = n \<and> (rm_channels m = [] \<or> name \<in> set (rm_channels m))"
  using assms by (auto simp: build_channel_context_def global_mcps_def scoped_mcps_def)

lemma is_glob_star [simp]: "is_glob (p @ ''*'')"
  by (simp add: is_glob_def)


lemma resolved_allowed_source:
  assumes "t \<in> set (fst (resolve_tools_for_channel overrides user names c))"
  shows "\<exists>p \<in> set (ct_allowed (effective_tools overrides user c)). p = t \<or> glob_match p t"
proof -
  let ?ts = "filter_out_builtins (ct_allowed (effective_tools overrides user c))"
  have sub: "set ?ts \<subseteq> set (ct_allowed (effective_tools overrides user c))"
    by (auto simp: filter_out_builtins_def)
  from assms have t: "t \<in> set (expand_mcp_globs ?ts names)"
    by (simp add: resolve_tools_for_channel_def Let_def)
  show ?thesis
  proof (cases "names = []")
    case True
    with t sub show ?thesis by auto
  next
    case False
    from t sub show ?thesis unfolding expand_mcp_globs_set [OF False] by auto
  qed
qed

lemma pattern_of_package:
  "p \<in> set (credential_tool_patterns ctx) \<Longrightarrow>
     \<exists>n \<in> set (cc_packages ctx). p = ''mcp__tclaw__'' @ n @ ''_*''"
  by (auto simp: credential_tool_patterns_def)

lemma pattern_of_server:
  "p \<in> set (remote_mcp_tool_patterns ctx) \<Longrightarrow>
     \<exists>n \<in> set (cc_remote_mcps ctx). p = ''mcp__'' @ n @ ''__*''"
  by (auto simp: remote_mcp_tool_patterns_def)

lemma override_allowed:
  "channel_override reg user creds mcps name = Some ov \<Longrightarrow>
     set (ct_allowed ov) = set (ct_allowed (channel_tool_source (registry_by_name reg name) user)) \<union>
       set (credential_tool_patterns (build_channel_context creds mcps name)) \<union>
       set (remote_mcp_tool_patterns (build_channel_context creds mcps name))"
  by (auto simp: channel_override_def Let_def split: if_splits)

text \<open>
  A server scoped to some channels is out of reach on every other. Where the registered
  names cannot be confused with each other's prefixes (and none is the local server's), no tool
  of a scoped server is on the list resolved for a channel the server does not name, unless the
  channel's own configured list grants it.
\<close>

theorem scoped_server_stays_in_its_channels:
  assumes ms: "mcp_load mcps = (Inr ms, w)" "distinct (map rm_name ms)" "\<forall>m \<in> set ms. simple_name (rm_name m)"
    and m: "m \<in> set ms" "rm_name m \<noteq> ''tclaw''" "rm_channels m \<noteq> []" "name \<notin> set (rm_channels m)"
    and pk: "\<forall>p \<in> set (cc_packages (build_channel_context creds mcps name)). literal_pattern p"
    and ov: "channel_override reg user creds mcps name = Some ov" "overrides c = Some ov"
    and src: "\<forall>p \<in> set (ct_allowed (channel_tool_source (registry_by_name reg name) user)).
        p \<noteq> server_tool (rm_name m) t \<and> \<not> glob_match p (server_tool (rm_name m) t)"
  shows "server_tool (rm_name m) t \<notin> set (fst (resolve_tools_for_channel overrides user' names c))"
proof
  let ?x = "server_tool (rm_name m) t" and ?ctx = "build_channel_context creds mcps name"
  assume "?x \<in> set (fst (resolve_tools_for_channel overrides user' names c))"
  from resolved_allowed_source [OF this] ov(2) obtain p where
    p: "p \<in> set (ct_allowed ov)" "p = ?x \<or> glob_match p ?x" by (auto simp: effective_tools_def)
  from ms(3) m(1) have simple: "simple_name (rm_name m)" by blast
  from p(1) override_allowed [OF ov(1)] p(2) src
  consider "p \<in> set (credential_tool_patterns ?ctx)" | "p \<in> set (remote_mcp_tool_patterns ?ctx)" by blast
  then show False
  proof cases
    case 1
    then obtain n where n: "n \<in> set (cc_packages ?ctx)" "p = ''mcp__tclaw__'' @ n @ ''_*''"
      by (blast dest: pattern_of_package)
    show False
    proof (cases "p = ?x")
      case True
      with n(2) have "rm_name m @ ''__'' @ t = ''tclaw'' @ ''__'' @ n @ ''_*''"
        by (simp add: server_tool_def)
      from simple_name_inj [OF simple tclaw_simple this] m(2) show False by blast
    next
      case False
      with p(2) have "glob_match (''mcp__tclaw__'' @ n @ ''_*'') ?x" unfolding n(2) by blast
      from package_pattern_hits [OF simple _ this] pk n(1) m(2) show False by blast
    qed
  next
    case 2
    then obtain n where n: "n \<in> set (cc_remote_mcps ?ctx)" "p = ''mcp__'' @ n @ ''__*''"
      by (blast dest: pattern_of_server)
    from visible_server [OF ms(1) n(1)] obtain m' where
      m': "m' \<in> set ms" "rm_name m' = n" "rm_channels m' = [] \<or> name \<in> set (rm_channels m')" by blast
    with ms(3) have simple': "simple_name n" by blast
    have "n = rm_name m"
    proof (cases "p = ?x")
      case True
      with n(2) have "rm_name m @ ''__'' @ t = n @ ''__'' @ ''*''" by (simp add: server_tool_def)
      from simple_name_inj [OF simple simple' this] show ?thesis by simp
    next
      case False
      with p(2) have "glob_match (''mcp__'' @ n @ ''__*'') ?x" unfolding n(2) by blast
      from server_pattern_hits [OF simple' simple this] show ?thesis .
    qed
    with m' ms(2) m(1) have "m' = m" by (auto simp: distinct_map dest: inj_onD)
    with m' m(3,4) show False by simp
  qed
qed

definition sample_entry :: "string \<Rightarrow> tool list \<Rightarrow> registry_entry" where
  "sample_entry name ts =
     \<lparr>re_id = name, re_type = ''socket'', re_name = name, re_description = [], re_purpose = [],
      re_model = [], re_max_turns = 0, re_output_style = [], re_turn_settings = no_turn_settings,
      re_allowed = ts, re_disallowed = [], re_creatable_groups = [], re_notify_lifecycle = False,
      re_links = [], re_parent = []\<rparr>"

definition no_tools :: channel_tools where
  "no_tools = \<lparr>ct_allowed = [], ct_disallowed = []\<rparr>"

lemma sample_mcp_fields [simp]:
  "rm_name (sample_mcp n cs) = n" "rm_channels (sample_mcp n cs) = cs"
  "rm_tool_names (sample_mcp n cs) = []"
  by (simp_all add: sample_mcp_def)

lemma sets_path: "safe_path ''/data'' sets_store_key = Some ''/data/credential_sets''"
  by code_simp

lemma sample_cred_list [simp]: "cred_list (cred_holding sets k v) = (Inr sets, cred_holding sets k v)"
  by (simp add: cred_list_def cred_holding_def store_holding_read [OF sets_path])

lemma sample_context:
  "build_channel_context (cred_holding [] k v) (mcp_holding ms) name =
     \<lparr>cc_packages = [], cc_remote_mcps = map rm_name (global_mcps ms) @ map rm_name (scoped_mcps ms name)\<rparr>"
  by (simp add: build_channel_context_def list_by_channel_def)

theorem scoped_server_stays_in_its_channels_witness:
  "server_tool ''bank'' ''pay'' \<notin> set (fst (resolve_tools_for_channel
      (\<lambda>_. channel_override (load_registry [sample_entry ''dev'' [''Bash'']]) no_tools
              (cred_holding [] ''k'' (PlainText [])) (mcp_holding [sample_mcp ''bank'' [''money''], sample_mcp ''docs'' []]) ''dev'')
      no_tools (mcp_tool_names [] (mcp_holding [sample_mcp ''bank'' [''money''], sample_mcp ''docs'' []])) ''c1''))"
proof -
  let ?ms = "[sample_mcp ''bank'' [''money''], sample_mcp ''docs'' []]"
  let ?m = "sample_mcp ''bank'' [''money'']"
  let ?reg = "load_registry [sample_entry ''dev'' [''Bash'']]"
  let ?cr = "cred_holding [] ''k'' (PlainText [])"
  have src: "channel_tool_source (registry_by_name ?reg ''dev'') no_tools = \<lparr>ct_allowed = [''Bash''], ct_disallowed = []\<rparr>"
    by (simp add: registry_by_name_def load_registry_def sample_entry_def channel_tool_source_def)
  obtain ov where ov: "channel_override ?reg no_tools ?cr (mcp_holding ?ms) ''dev'' = Some ov"
    by (simp add: channel_override_def src Let_def)
  have simple: "simple_name ''bank''" "simple_name ''docs''" by code_simp+
  have lit: "literal_pattern ''Bash''" by simp
  have no_hit: "\<not> glob_match ''Bash'' (server_tool ''bank'' ''pay'')"
    unfolding glob_match_literal [OF lit] by (simp add: server_tool_def)
  have "server_tool (rm_name ?m) ''pay'' \<notin> set (fst (resolve_tools_for_channel
      (\<lambda>_. channel_override ?reg no_tools ?cr (mcp_holding ?ms) ''dev'')
      no_tools (mcp_tool_names [] (mcp_holding ?ms)) ''c1''))"
    by (rule scoped_server_stays_in_its_channels [where ms = ?ms and m = ?m and reg = ?reg
          and name = "''dev''" and user = no_tools and creds = ?cr and ov = ov and w = "mcp_holding ?ms"
          and mcps = "mcp_holding ?ms"])
       (simp_all add: sample_context src simple no_hit ov, simp add: server_tool_def)
  then show ?thesis by simp
qed


subsection \<open>The config file agrees with the patterns\<close>

lemma config_servers_snoc:
  "config_servers addr token (rs @ [r]) =
     (config_servers addr token rs)(ren_name r := Some \<lparr>sv_url = ren_url r, sv_headers = ren_headers r\<rparr>)"
  by (simp add: config_servers_def)

lemma config_servers_dom:
  "(config_servers addr token rs n \<noteq> None) \<longleftrightarrow> n = ''tclaw'' \<or> n \<in> ren_name ` set rs"
  by (induction rs rule: rev_induct) (auto simp: config_servers_snoc, simp_all add: config_servers_def split: if_splits)

lemma config_servers_local:
  "''tclaw'' \<notin> ren_name ` set rs \<Longrightarrow> config_servers addr token rs ''tclaw'' = Some (local_server addr token)"
  by (induction rs rule: rev_induct) (simp add: config_servers_def, auto simp: config_servers_snoc)

lemma ren_name_entries [simp]: "ren_name ` set (remote_config_entries u tok ms) = rm_name ` set ms"
  by (simp add: remote_config_entries_def image_image)

lemma channel_config_names:
  assumes "mcp_load mcps = (Inr ms, w)"
  shows "map rm_name (channel_config_mcps ms name) = cc_remote_mcps (build_channel_context creds mcps name)"
  using assms by (simp add: channel_config_mcps_def own_config_mcps_def build_channel_context_def)

text \<open>
  A channel is handed a server exactly when it is handed the server's tools. The config
  file of a channel's turns names the local server and precisely the remote servers whose tool
  patterns the channel's list gets, whether the channel has a file of its own or shares the
  default one; the entry of the local server is tclaw's own as long as no remote server visible
  on the channel is called tclaw.
\<close>

theorem config_servers_match_patterns:
  assumes "mcp_load mcps = (Inr ms, w)"
  shows "(config_servers addr token (remote_config_entries url ptoken (channel_config_mcps ms name)) n \<noteq> None) =
           (n = ''tclaw'' \<or>
            ''mcp__'' @ n @ ''__*'' \<in> set (remote_mcp_tool_patterns (build_channel_context creds mcps name))) \<and>
         (''tclaw'' \<in> set (cc_remote_mcps (build_channel_context creds mcps name)) \<or>
          config_servers addr token (remote_config_entries url ptoken (channel_config_mcps ms name)) ''tclaw''
            = Some (local_server addr token))"
proof -
  have names: "rm_name ` set (channel_config_mcps ms name) =
      set (cc_remote_mcps (build_channel_context creds mcps name))"
    using channel_config_names [OF assms, of name creds] by (metis set_map)
  have "''mcp__'' @ n @ ''__*'' \<in> set (remote_mcp_tool_patterns (build_channel_context creds mcps name)) \<longleftrightarrow>
      n \<in> set (cc_remote_mcps (build_channel_context creds mcps name))"
    by (auto simp: remote_mcp_tool_patterns_def)
  then show ?thesis
    using config_servers_dom [of addr token "remote_config_entries url ptoken (channel_config_mcps ms name)" n]
      config_servers_local [of "remote_config_entries url ptoken (channel_config_mcps ms name)" addr token]
    unfolding ren_name_entries names by blast
qed

theorem config_servers_match_patterns_witness:
  "config_servers ''127.0.0.1:1'' ''t'' (remote_config_entries (\<lambda>n. n) ''p''
      (channel_config_mcps [sample_mcp ''bank'' [''money''], sample_mcp ''docs'' []] ''dev'')) ''bank'' = None"
  using config_servers_match_patterns [OF mcp_holding_load, of "''127.0.0.1:1''" "''t''" "\<lambda>n. n" "''p''"
      "[sample_mcp ''bank'' [''money''], sample_mcp ''docs'' []]" "''dev''" "''bank''" "cred_holding [] ''k'' (PlainText [])"]
  by (auto simp: sample_context remote_mcp_tool_patterns_def global_mcps_def scoped_mcps_def)

text \<open>
  Nothing stops a registration from taking the local server's name. Its entry then replaces the
  local one in the config, so every tclaw tool, the permission prompt included, is asked of the
  remote server, and its pattern grants every tclaw tool.
\<close>

lemma tclaw_named_server_takes_over:
  assumes "mcp_load mcps = (Inr [sample_mcp ''tclaw'' [name]], w)"
  shows "config_servers addr token
           (remote_config_entries url ptoken (channel_config_mcps [sample_mcp ''tclaw'' [name]] name)) ''tclaw''
           = Some \<lparr>sv_url = url ''tclaw'', sv_headers = [(''X-Tclaw-Proxy-Token'', ptoken)]\<rparr>"
    and "''mcp__tclaw__*'' \<in> set (remote_mcp_tool_patterns (build_channel_context creds mcps name))"
  using assms
  by (simp_all add: channel_config_mcps_def own_config_mcps_def global_mcps_def scoped_mcps_def
      remote_config_entries_def config_servers_def build_channel_context_def remote_mcp_tool_patterns_def)

text \<open>A channel that only denies tools loses its denials: its empty allowed list makes both lists the user's.\<close>

lemma denials_alone_are_dropped:
  "re_allowed e = [] \<Longrightarrow> channel_tool_source (Some e) user = user"
  by (simp add: channel_tool_source_def)

text \<open>
  The permission prompt is never the model's to call. No pattern can bring the CLI's prompt
  tool onto the list of a turn: unless a list names it in full, or a registered server is called
  tclaw, it is not on the list resolved for any channel, whatever wildcards the list holds.
\<close>

theorem prompt_tool_never_granted:
  assumes "\<And>ms w m. mcp_load mcps = (Inr ms, w) \<Longrightarrow> m \<in> set ms \<Longrightarrow> simple_name (rm_name m) \<and> rm_name m \<noteq> ''tclaw''"
    and "server_tool ''tclaw'' permission_prompt_name \<notin> set (ct_allowed (effective_tools overrides user c))"
  shows "server_tool ''tclaw'' permission_prompt_name
           \<notin> set (fst (resolve_tools_for_channel overrides user (mcp_tool_names local mcps) c))"
proof
  let ?x = "server_tool ''tclaw'' permission_prompt_name"
  assume in_list: "?x \<in> set (fst (resolve_tools_for_channel overrides user (mcp_tool_names local mcps) c))"
  have "?x \<notin> set (mcp_tool_names local mcps)"
  proof
    assume "?x \<in> set (mcp_tool_names local mcps)"
    then have "\<exists>ms m t. fst (mcp_load mcps) = Inr ms \<and> m \<in> set ms \<and>
        ''tclaw'' @ ''__'' @ permission_prompt_name = rm_name m @ ''__'' @ t"
      by (cases "fst (mcp_load mcps)") (auto simp: mcp_tool_names_def server_tool_def)
    then obtain m t ms where m: "fst (mcp_load mcps) = Inr ms" "m \<in> set ms"
      "''tclaw'' @ ''__'' @ permission_prompt_name = rm_name m @ ''__'' @ t" by blast
    from m(1) obtain w where "mcp_load mcps = (Inr ms, w)" by (cases "mcp_load mcps") auto
    from assms(1) [OF this m(2)] simple_name_inj [OF tclaw_simple _ m(3)] show False by auto
  qed
  with in_list have "?x \<in> set (filter_out_builtins (ct_allowed (effective_tools overrides user c)))"
    using expand_mcp_globs_subset unfolding resolve_tools_for_channel_def Let_def by fastforce
  with assms(2) show False by (simp add: filter_out_builtins_def)
qed

theorem prompt_tool_never_granted_witness:
  "''mcp__tclaw__permission_prompt'' \<notin> set (fst (resolve_tools_for_channel (\<lambda>_. None)
      \<lparr>ct_allowed = [''mcp__*''], ct_disallowed = []\<rparr>
      (mcp_tool_names [''channel_send'', ''permission_prompt''] (mcp_holding [])) ''c1''))"
  using prompt_tool_never_granted [of "mcp_holding []" "\<lambda>_. None" "\<lparr>ct_allowed = [''mcp__*''], ct_disallowed = []\<rparr>"
      "''c1''" "[''channel_send'', ''permission_prompt'']"]
  by (simp add: server_tool_def permission_prompt_name_def effective_tools_def)

theorem resolved_tools_are_cli_tools_witness:
  "valid_tool ''mcp__tclaw__channel_send'' \<and>
   resolve_tools_for_channel (\<lambda>_. None) \<lparr>ct_allowed = [''mcp__*'', ''builtin__stop''], ct_disallowed = []\<rparr>
     (mcp_tool_names [''channel_send''] (mcp_holding [])) ''c1'' = ([''mcp__tclaw__channel_send''], [])"
proof -
  let ?u = "\<lparr>ct_allowed = [''mcp__*'', ''builtin__stop''], ct_disallowed = []\<rparr>"
  have lit: "literal_pattern ''mcp__''" by simp
  have g: "glob_match ''mcp__*'' ''mcp__tclaw__channel_send''"
    using glob_match_prefix [OF lit, of "''mcp__tclaw__channel_send''"] by simp
  have r: "resolve_tools_for_channel (\<lambda>_. None) ?u (mcp_tool_names [''channel_send''] (mcp_holding [])) ''c1''
      = ([''mcp__tclaw__channel_send''], [])"
    using g by (simp add: resolve_tools_for_channel_def mcp_tool_names_def effective_tools_def
        filter_out_builtins_def is_builtin_tool_def permission_prompt_name_def is_glob_def)
  have v: "\<forall>t \<in> set (ct_allowed (effective_tools (\<lambda>_. None) ?u ''c1'')) \<union>
      set (ct_disallowed (effective_tools (\<lambda>_. None) ?u ''c1'')). valid_tool t"
    by (simp add: effective_tools_def valid_tool_def)
  from resolved_tools_are_cli_tools [OF v refl r] r show ?thesis by simp
qed

theorem allowed_tools_exact_witness:
  "''mcp__tclaw__x'' \<in> set (fst (resolve_tools_for_channel (\<lambda>_. None) \<lparr>ct_allowed = [''mcp__tclaw__*''], ct_disallowed = []\<rparr>
     (mcp_tool_names [''x''] (mcp_holding [])) ''c1''))"
proof -
  have n: "mcp_tool_names [''x''] (mcp_holding []) \<noteq> []"
    by (simp add: mcp_tool_names_def permission_prompt_name_def)
  have lit: "literal_pattern ''mcp__tclaw__''" by simp
  show ?thesis
    using glob_match_prefix [OF lit, of "''mcp__tclaw__x''"]
    by (subst allowed_tools_exact [OF n])
       (simp add: mcp_tool_names_def permission_prompt_name_def effective_tools_def is_builtin_tool_def is_glob_def)
qed

end
