(* ===== verification/CliArgs.thy ===== *)
theory CliArgs
  imports ToolAccess
begin

text \<open>
  The command line and the environment of a turn (\<open>agent/agent.go\<close>, \<open>agent/handle.go\<close>): the
  settings resolved for the channel, the argument list the CLI is started with, and the
  variables it inherits.

  The decimal form of a budget (\<open>strconv.FormatFloat\<close>) and the quoted form of an output style
  (\<open>%q\<close>) are the library's; they are the parameters \<open>fmt_float\<close> and \<open>quote\<close>.
\<close>

subsection \<open>Decimal numbers\<close>

function dec_nat :: "nat \<Rightarrow> string" where
  "dec_nat n = (if n < 10 then [char_of (48 + n)] else dec_nat (n div 10) @ [char_of (48 + n mod 10)])"
  by pat_completeness auto

termination by (relation "measure id") auto

declare dec_nat.simps [simp del]

definition dec_int :: "int \<Rightarrow> string" where
  "dec_int i = (if i < 0 then CHR ''-'' # dec_nat (nat (- i)) else dec_nat (nat i))"

subsection \<open>What is resolved for a channel\<close>

record agent_options =
  ao_permission_mode :: string
  ao_model :: model
  ao_model_func :: "model option"
  ao_channel_models :: "channel_id \<Rightarrow> model option"
  ao_max_turns :: int
  ao_channel_max_turns :: "channel_id \<Rightarrow> int option"
  ao_output_style :: string
  ao_channel_output_styles :: "channel_id \<Rightarrow> string option"
  ao_turn_settings :: turn_settings
  ao_channel_turn_settings :: "channel_id \<Rightarrow> turn_settings option"
  ao_permission_prompt_tool :: tool
  ao_api_key :: string
  ao_setup_token :: string
  ao_home_dir :: string
  ao_memory_dir :: string
  ao_add_dirs :: "string list"
  ao_tools :: channel_tools
  ao_overrides :: "channel_id \<Rightarrow> channel_tools option"
  ao_mcp_config_path :: string
  ao_mcp_config_paths :: "channel_id \<Rightarrow> string option"
  ao_mcp_tool_names :: "tool list"
  ao_system_prompt :: string
  ao_resume_notice :: string

text \<open>A read of a Go map: the zero value for a key it does not hold.\<close>

definition map_or :: "'v \<Rightarrow> 'v option \<Rightarrow> 'v" where
  "map_or d v = (case v of None \<Rightarrow> d | Some x \<Rightarrow> x)"

definition output_style_off :: string where "output_style_off = ''none''"

definition resolve_output_style :: "agent_options \<Rightarrow> channel_id \<Rightarrow> string" where
  "resolve_output_style o1 c =
     (let style = map_or [] (ao_channel_output_styles o1 c)
      in if style = output_style_off then []
         else if style \<noteq> [] then style
         else ao_output_style o1)"

definition resolve_turn_settings :: "agent_options \<Rightarrow> channel_id \<Rightarrow> turn_settings" where
  "resolve_turn_settings o1 c =
     settings_over (map_or no_turn_settings (ao_channel_turn_settings o1 c)) (ao_turn_settings o1)"

definition default_max_turns :: int where "default_max_turns = 10"

definition resolve_max_turns :: "agent_options \<Rightarrow> channel_id \<Rightarrow> int" where
  "resolve_max_turns o1 c =
     (if 0 < map_or 0 (ao_channel_max_turns o1 c) then map_or 0 (ao_channel_max_turns o1 c)
      else if 0 < ao_max_turns o1 then ao_max_turns o1
      else default_max_turns)"

definition resolve_model :: "agent_options \<Rightarrow> channel_id \<Rightarrow> model" where
  "resolve_model o1 c =
     (if map_or [] (ao_model_func o1) \<noteq> [] then map_or [] (ao_model_func o1)
      else if map_or [] (ao_channel_models o1 c) \<noteq> [] then map_or [] (ao_channel_models o1 c)
      else ao_model o1)"

definition resolve_mcp_config_path :: "agent_options \<Rightarrow> channel_id \<Rightarrow> string" where
  "resolve_mcp_config_path o1 c =
     (case ao_mcp_config_paths o1 c of None \<Rightarrow> ao_mcp_config_path o1 | Some p \<Rightarrow> p)"

definition permission_prompt_tool_for :: "agent_options \<Rightarrow> chan \<Rightarrow> bool \<Rightarrow> tool" where
  "permission_prompt_tool_for o1 ch unattended =
     (if \<not> ch_prompter ch \<or> unattended \<or> ao_permission_mode o1 = ''dontAsk'' then []
      else ao_permission_prompt_tool o1)"

subsection \<open>The argument list\<close>

record build_args_params =
  ba_options :: agent_options
  ba_model :: model
  ba_max_turns :: int
  ba_output_style :: string
  ba_turn_settings :: turn_settings
  ba_session_id :: string
  ba_system_prompt :: string
  ba_prompt :: string
  ba_allowed :: "tool list"
  ba_disallowed :: "tool list"
  ba_mcp_config_path :: string
  ba_unattended :: bool
  ba_permission_prompt_tool :: tool

definition flag_if :: "bool \<Rightarrow> string \<Rightarrow> string \<Rightarrow> string list" where
  "flag_if c flag v = (if c then [flag, v] else [])"

definition permission_args :: "build_args_params \<Rightarrow> string list" where
  "permission_args p =
     (if ba_unattended p then [''--permission-prompts'', ''none'']
      else if ba_permission_prompt_tool p \<noteq> [] then
        [''--permission-prompt-tool'', ba_permission_prompt_tool p,
         ''--disallowedTools'', ba_permission_prompt_tool p]
      else [])"

definition build_args :: "(float64 \<Rightarrow> string) \<Rightarrow> (string \<Rightarrow> string) \<Rightarrow> build_args_params \<Rightarrow> string list" where
  "build_args fmt_float quote p =
     [''--output-format'', ''stream-json'', ''--verbose'', ''--print'', ''--include-partial-messages'',
      ''--forward-subagent-text'', ''--strict-mcp-config'', ''--thinking-display'', ''summarized''] @
     flag_if (ba_session_id p \<noteq> []) ''--resume'' (ba_session_id p) @
     flag_if (ba_system_prompt p \<noteq> []) ''--append-system-prompt'' (ba_system_prompt p) @
     flag_if (ao_permission_mode (ba_options p) \<noteq> []) ''--permission-mode'' (ao_permission_mode (ba_options p)) @
     flag_if (ba_model p \<noteq> []) ''--model'' (ba_model p) @
     [''--max-turns'', dec_int (ba_max_turns p)] @
     permission_args p @
     flag_if (ts_effort (ba_turn_settings p) \<noteq> []) ''--effort'' (ts_effort (ba_turn_settings p)) @
     flag_if (f_positive (ts_max_budget (ba_turn_settings p))) ''--max-budget-usd''
       (fmt_float (ts_max_budget (ba_turn_settings p))) @
     flag_if (ts_fallback_model (ba_turn_settings p) \<noteq> []) ''--fallback-model''
       (ts_fallback_model (ba_turn_settings p)) @
     flag_if (ba_output_style p \<noteq> []) ''--settings''
       (''{\"outputStyle\":'' @ quote (ba_output_style p) @ ''}'') @
     concat (map (\<lambda>t. [''--allowedTools'', t]) (ba_allowed p)) @
     concat (map (\<lambda>t. [''--disallowedTools'', t]) (ba_disallowed p)) @
     flag_if (ba_mcp_config_path p \<noteq> []) ''--mcp-config'' (ba_mcp_config_path p) @
     flag_if (ao_memory_dir (ba_options p) \<noteq> []) ''--add-dir'' (ao_memory_dir (ba_options p)) @
     concat (map (\<lambda>d. [''--add-dir'', d]) (ao_add_dirs (ba_options p))) @
     [''--'', ba_prompt p]"

subsection \<open>The message context and the arguments of a turn\<close>

definition source_line :: "source_info option \<Rightarrow> string" where
  "source_line si =
     (let i = (case si of None \<Rightarrow> no_source SourceUser | Some i \<Rightarrow> i)
      in case si_source i of
           SourceSchedule \<Rightarrow> ''Source: scheduled prompt ('' @ si_schedule_name i @ '')\<newline>''
         | SourceChannel \<Rightarrow> ''Source: cross-channel message from **'' @ si_from_channel i @ ''**\<newline>''
         | SourceNotification \<Rightarrow> ''Source: notification subscription ('' @ si_subscription_label i @ '')\<newline>''
         | SourceChild \<Rightarrow> ''Source: lifecycle event from child channel **'' @ si_child_channel i @ ''**\<newline>''
         | SourceInitialMessage \<Rightarrow>
             ''Source: the brief this channel was created with'' @
             (if si_from_channel i \<noteq> [] then '', by **'' @ si_from_channel i @ ''**'' else []) @ ''\<newline>''
         | SourceResume \<Rightarrow> ''Source: auto-resume after interrupted turn\<newline>''
         | _ \<Rightarrow> ''Source: user message\<newline>'')"

definition context_section :: "chan \<Rightarrow> string \<Rightarrow> source_info option \<Rightarrow> string" where
  "context_section ch description si =
     ''\<newline># Message Context\<newline>\<newline>Channel: **'' @ ch_name ch @ ''** ('' @ ch_type ch @ ''): '' @ description @ ''\<newline>'' @
     source_line si @
     ''Channel knowledge: `./channels/'' @ ch_name ch @ ''/`\<newline>''"

text \<open>
  The parameters \<open>handle\<close> assembles: the turn is unattended unless the user's own message
  started it.
\<close>

definition turn_params :: "agent_options \<Rightarrow> chan \<Rightarrow> string \<Rightarrow> string \<Rightarrow> tagged_message \<Rightarrow> build_args_params" where
  "turn_params o1 ch description session msg =
     (let c = tm_channel msg;
          tools = resolve_tools_for_channel (ao_overrides o1) (ao_tools o1) (ao_mcp_tool_names o1) c;
          unattended = (\<not> from_user (tm_source msg))
      in \<lparr>ba_options = o1, ba_model = resolve_model o1 c, ba_max_turns = resolve_max_turns o1 c,
          ba_output_style = resolve_output_style o1 c, ba_turn_settings = resolve_turn_settings o1 c,
          ba_session_id = session,
          ba_system_prompt = ao_system_prompt o1 @ context_section ch description (tm_source msg),
          ba_prompt = (if ao_resume_notice o1 \<noteq> [] then ao_resume_notice o1 @ tm_text msg else tm_text msg),
          ba_allowed = fst tools, ba_disallowed = snd tools,
          ba_mcp_config_path = resolve_mcp_config_path o1 c,
          ba_unattended = unattended,
          ba_permission_prompt_tool = permission_prompt_tool_for o1 ch unattended\<rparr>)"

subsection \<open>The environment\<close>

definition allowed_env_prefixes :: "string list" where
  "allowed_env_prefixes =
     [''PATH'', ''TERM'', ''COLORTERM'', ''LANG'', ''LC_'', ''TMPDIR'', ''USER'', ''LOGNAME'', ''SHELL'',
      ''EDITOR'', ''VISUAL'', ''XDG_'', ''TZ'']"

definition allowed_env_var :: "string \<Rightarrow> bool" where
  "allowed_env_var key = list_ex (\<lambda>p. key = p \<or> has_prefix key p) allowed_env_prefixes"

text \<open>\<open>strings.Cut(kv, "=")\<close>: the part before the first equals sign, all of it if there is none.\<close>

definition env_key :: "string \<Rightarrow> string" where
  "env_key kv = (case cut kv ''='' of None \<Rightarrow> kv | Some (k, v) \<Rightarrow> k)"

definition env_value :: "string list \<Rightarrow> string \<Rightarrow> string" where
  "env_value environ key =
     (case find (\<lambda>kv. env_key kv = key) environ of
        None \<Rightarrow> []
      | Some kv \<Rightarrow> (case cut kv ''='' of None \<Rightarrow> [] | Some (k, v) \<Rightarrow> v))"

text \<open>
  The overrides, as the entries of the map; its keys are distinct, so the order in which the
  range visits them is the only thing left open.
\<close>

definition env_overrides :: "agent_options \<Rightarrow> string \<Rightarrow> string list \<Rightarrow> (string \<times> string) list" where
  "env_overrides o1 channel environ =
     (if ao_home_dir o1 \<noteq> [] then
        [(''HOME'', ao_home_dir o1), (''CLAUDE_CONFIG_DIR'', join_path (ao_home_dir o1) ''.claude'')] else []) @
     (if ao_api_key o1 \<noteq> [] then [(''ANTHROPIC_API_KEY'', ao_api_key o1)] else []) @
     (if ao_setup_token o1 \<noteq> [] then [(''CLAUDE_CODE_OAUTH_TOKEN'', ao_setup_token o1)] else []) @
     [(''CLAUDE_CODE_DISABLE_AUTO_MEMORY'', ''1'')] @
     (if ao_memory_dir o1 \<noteq> [] then [(''TCLAW_MEMORY_DIR'', ao_memory_dir o1)] else []) @
     (if channel \<noteq> [] then [(''TCLAW_CHANNEL'', channel)] else []) @
     [(''CLAUDE_CODE_ADDITIONAL_DIRECTORIES_CLAUDE_MD'', ''1''), (''MCP_TIMEOUT'', ''60000'')] @
     (if env_value environ ''NODE_MAX_HEAP_MB'' \<noteq> []
      then [(''NODE_OPTIONS'', ''--max-old-space-size='' @ env_value environ ''NODE_MAX_HEAP_MB'')] else [])"

definition build_env :: "agent_options \<Rightarrow> string \<Rightarrow> string list \<Rightarrow> string list" where
  "build_env o1 channel environ =
     filter (\<lambda>kv. env_key kv \<notin> fst ` set (env_overrides o1 channel environ) \<and> allowed_env_var (env_key kv)) environ @
     map (\<lambda>(k, v). k @ ''='' @ v) (env_overrides o1 channel environ)"


subsection \<open>Properties\<close>

text \<open>
  A message is never read as an option. However the text of a message begins, the argument
  list is the same list of options followed by the terminator and one last argument, which is
  the resume notice and the text: no text changes, adds or removes an option of its turn.
\<close>

theorem message_is_one_argument:
  "\<exists>options. \<forall>text.
     build_args fmt_float quote (turn_params o1 ch description session (msg\<lparr>tm_text := text\<rparr>))
       = options @ [''--'', ao_resume_notice o1 @ text]"
proof -
  let ?p = "\<lambda>text. turn_params o1 ch description session (msg\<lparr>tm_text := text\<rparr>)"
  let ?opts = "butlast (butlast (build_args fmt_float quote (?p [])))"
  have "build_args fmt_float quote (?p t) = ?opts @ [''--'', ao_resume_notice o1 @ t]" for t
    by (simp add: turn_params_def build_args_def permission_args_def Let_def butlast_append)
  then show ?thesis by blast
qed

lemma turn_permission_args:
  "permission_args (turn_params o1 ch description session msg) =
     (if \<not> from_user (tm_source msg) then [''--permission-prompts'', ''none'']
      else if ch_prompter ch \<and> ao_permission_mode o1 \<noteq> ''dontAsk'' \<and> ao_permission_prompt_tool o1 \<noteq> []
      then [''--permission-prompt-tool'', ao_permission_prompt_tool o1,
            ''--disallowedTools'', ao_permission_prompt_tool o1]
      else [])"
  by (simp add: permission_args_def turn_params_def permission_prompt_tool_for_def Let_def)

lemma env_key_pair: "CHR ''='' \<notin> set k \<Longrightarrow> env_key (k @ ''='' @ v) = k"
  using cut_fresh_head [of "CHR ''=''" k "[]" v] by (simp add: env_key_def)

lemma override_keys_plain: "(k, v) \<in> set (env_overrides o1 ch environ) \<Longrightarrow> CHR ''='' \<notin> set k"
  by (auto simp: env_overrides_def split: if_splits)

text \<open>
  The CLI inherits no secret of its parent. A variable of the CLI's environment whose name
  does not start with one of the thirteen allowed prefixes was set by tclaw, to the value tclaw
  chose; a variable tclaw sets is never the parent's; and the API key is there exactly when the
  turn's options hold one.
\<close>

theorem environment_is_confined:
  assumes "kv \<in> set (build_env o1 channel environ)"
  shows "(\<not> allowed_env_var (env_key kv) \<or> env_key kv \<in> fst ` set (env_overrides o1 channel environ) \<longrightarrow>
            (\<exists>v. (env_key kv, v) \<in> set (env_overrides o1 channel environ) \<and> kv = env_key kv @ ''='' @ v)) \<and>
         (kv \<notin> set environ \<longrightarrow> env_key kv \<in> fst ` set (env_overrides o1 channel environ)) \<and>
         (env_key kv = ''ANTHROPIC_API_KEY'' \<longrightarrow>
            ao_api_key o1 \<noteq> [] \<and> kv = ''ANTHROPIC_API_KEY='' @ ao_api_key o1)"
proof -
  have own: "(env_key kv, v) \<in> set (env_overrides o1 channel environ) \<and> kv = env_key kv @ ''='' @ v"
    if "(k, v) \<in> set (env_overrides o1 channel environ)" "kv = k @ ''='' @ v" for k v
    using that env_key_pair [OF override_keys_plain [OF that(1)], of v] by simp
  have api: "(''ANTHROPIC_API_KEY'', v) \<in> set (env_overrides o1 channel environ) \<longleftrightarrow>
      ao_api_key o1 \<noteq> [] \<and> v = ao_api_key o1" for v
    by (auto simp: env_overrides_def)
  have refused: "\<not> allowed_env_var ''ANTHROPIC_API_KEY''"
    by (simp add: allowed_env_var_def allowed_env_prefixes_def)
  from assms consider
      k v where "(k, v) \<in> set (env_overrides o1 channel environ)" "kv = k @ ''='' @ v"
    | "kv \<in> set environ" "env_key kv \<notin> fst ` set (env_overrides o1 channel environ)" "allowed_env_var (env_key kv)"
    by (auto simp: build_env_def)
  then show ?thesis
  proof cases
    case 1
    from own [OF 1] have o: "(env_key kv, v) \<in> set (env_overrides o1 channel environ)" "kv = env_key kv @ ''='' @ v"
      by blast+
    moreover from o(1) have "env_key kv \<in> fst ` set (env_overrides o1 channel environ)" by force
    moreover have "ao_api_key o1 \<noteq> [] \<and> kv = ''ANTHROPIC_API_KEY='' @ ao_api_key o1"
      if "env_key kv = ''ANTHROPIC_API_KEY''"
      using o api [of v] that by (metis append_Cons append_Nil)
    ultimately show ?thesis by blast
  next
    case 2
    with refused show ?thesis by auto
  qed
qed

definition sample_options :: agent_options where
  "sample_options =
     \<lparr>ao_permission_mode = ''default'', ao_model = [], ao_model_func = None, ao_channel_models = (\<lambda>_. None),
      ao_max_turns = 0, ao_channel_max_turns = (\<lambda>_. None), ao_output_style = [],
      ao_channel_output_styles = (\<lambda>_. None), ao_turn_settings = no_turn_settings,
      ao_channel_turn_settings = (\<lambda>_. None), ao_permission_prompt_tool = ''mcp__tclaw__permission_prompt'',
      ao_api_key = ''sk'', ao_setup_token = [], ao_home_dir = ''/home/u'', ao_memory_dir = ''/mem'',
      ao_add_dirs = [], ao_tools = no_tools, ao_overrides = (\<lambda>_. None), ao_mcp_config_path = [],
      ao_mcp_config_paths = (\<lambda>_. None), ao_mcp_tool_names = [], ao_system_prompt = [], ao_resume_notice = []\<rparr>"

theorem environment_is_confined_witness:
  "''ANTHROPIC_API_KEY=sk'' \<in> set (build_env sample_options ''dev'' [''PATH=/bin'', ''ANTHROPIC_API_KEY=other'']) \<and>
   ''ANTHROPIC_API_KEY=other'' \<notin> set (build_env sample_options ''dev'' [''PATH=/bin'', ''ANTHROPIC_API_KEY=other''])"
proof -
  let ?env = "build_env sample_options ''dev'' [''PATH=/bin'', ''ANTHROPIC_API_KEY=other'']"
  have key: "env_key (''ANTHROPIC_API_KEY'' @ ''='' @ v) = ''ANTHROPIC_API_KEY''" for v
    by (rule env_key_pair) simp
  have "(''ANTHROPIC_API_KEY'', ''sk'') \<in> set (env_overrides sample_options ''dev'' [''PATH=/bin'', ''ANTHROPIC_API_KEY=other''])"
    by (simp add: env_overrides_def sample_options_def)
  then have "''ANTHROPIC_API_KEY'' @ ''='' @ ''sk'' \<in> set ?env"
    by (force simp: build_env_def)
  moreover have "''ANTHROPIC_API_KEY=other'' \<notin> set ?env"
  proof
    assume "''ANTHROPIC_API_KEY=other'' \<in> set ?env"
    from environment_is_confined [OF this] key [of "''other''"] show False
      by (simp add: sample_options_def)
  qed
  ultimately show ?thesis by simp
qed

end
