(* ===== verification/TurnText.thy ===== *)
theory TurnText
  imports CliArgs "HOL-Library.List_Lexorder" "HOL-Library.Char_ord"
begin

text \<open>
  The texts a turn's output is made of: \<open>agent/format.go\<close> and the formatting functions of
  \<open>agent/handle.go\<close>. What \<open>encoding/json\<close> reads from the bytes of a tool's input or result is the
  \<open>json_reader\<close>; a Go map is the list of its entries in the order the loop meets them. Numbers with
  a fractional part are the texts they print as, except byte counts, whose decimals are worked out.
\<close>

subsection \<open>Content blocks and what is read from their bytes\<close>

record content_block =
  cb_type :: string
  cb_text :: string
  cb_name :: string
  cb_input :: string
  cb_thinking :: string

definition content_text :: string where "content_text = ''text''"
definition content_tool_use :: string where "content_tool_use = ''tool_use''"
definition content_thinking :: string where "content_thinking = ''thinking''"

text \<open>
  \<open>jr_object\<close>: the entries of an object, each with the bytes of its value. \<open>jr_skill\<close>: the two string
  fields of a skill's input. \<open>jr_meta\<close>: an object's duration with one decimal, when it is positive.
\<close>

record json_reader =
  jr_object :: "string \<Rightarrow> (string \<times> string) list option"
  jr_string :: "string \<Rightarrow> string option"
  jr_skill :: "string \<Rightarrow> (string \<times> string) option"
  jr_meta :: "string \<Rightarrow> string option option"

definition newline_text :: string where "newline_text = [CHR 0x0A]"

definition icon_tool :: string where "icon_tool = [CHR 0xF0, CHR 0x9F, CHR 0x94, CHR 0xA7]"
definition icon_skill :: string where "icon_skill = [CHR 0xF0, CHR 0x9F, CHR 0x8E, CHR 0x93]"
definition icon_hook :: string where "icon_hook = [CHR 0xF0, CHR 0x9F, CHR 0xAA, CHR 0x9D]"
definition icon_notice :: string where "icon_notice = [CHR 0xE2, CHR 0x84, CHR 0xB9, CHR 0xEF, CHR 0xB8, CHR 0x8F]"
definition icon_thinking :: string where "icon_thinking = [CHR 0xF0, CHR 0x9F, CHR 0x92, CHR 0xAD] @ '' ''"
definition icon_robot :: string where "icon_robot = [CHR 0xF0, CHR 0x9F, CHR 0xA4, CHR 0x96] @ '' ''"
definition icon_compact :: string where "icon_compact = [CHR 0xF0, CHR 0x9F, CHR 0x97, CHR 0x9C, CHR 0xEF, CHR 0xB8, CHR 0x8F] @ '' ''"
definition arrow_text :: string where "arrow_text = '' '' @ [CHR 0xE2, CHR 0x86, CHR 0x92] @ '' ''"
definition result_lead :: string where "result_lead = ''  '' @ [CHR 0xE2, CHR 0x86, CHR 0xB3] @ '' ''"
definition middle_dot :: string where "middle_dot = '' '' @ [CHR 0xC2, CHR 0xB7] @ '' ''"
definition icon_wait :: string where "icon_wait = [CHR 0xE2, CHR 0x8F, CHR 0xB3] @ '' ''"
definition icon_warning :: string where "icon_warning = [CHR 0xE2, CHR 0x9A, CHR 0xA0, CHR 0xEF, CHR 0xB8, CHR 0x8F] @ '' ''"

definition arg_max_len :: nat where "arg_max_len = 60"
definition quote_max_len :: nat where "quote_max_len = 120"

subsection \<open>Cutting\<close>

definition first_line :: "string \<Rightarrow> string" where
  "first_line s = (case cut s newline_text of None \<Rightarrow> s | Some (l, _) \<Rightarrow> l)"

text \<open>
  The loop of \<open>truncate\<close> over the runes: \<open>i\<close> is the place in the text, \<open>k\<close> the bytes left of the
  present rune and \<open>c\<close> the cut so far.
\<close>

fun last_start :: "nat \<Rightarrow> nat \<Rightarrow> nat \<Rightarrow> nat \<Rightarrow> string \<Rightarrow> nat" where
  "last_start lim i k c [] = c"
| "last_start lim i (Suc k) c (x # s) = last_start lim (Suc i) k c s"
| "last_start lim i 0 c (x # s) =
     (if lim < i then c else last_start lim (Suc i) (snd (decode_rune (x # s)) - 1) i s)"

definition truncate_text :: "string \<Rightarrow> nat \<Rightarrow> string" where
  "truncate_text s max_len =
     (if length s \<le> max_len then s else take (last_start (max_len - 3) 0 0 0 s) s @ ''...'')"

definition truncate_value :: "string \<Rightarrow> string" where
  "truncate_value s = truncate_text s arg_max_len"

fun trim_right_newlines :: "string \<Rightarrow> string" where
  "trim_right_newlines [] = []"
| "trim_right_newlines (c # s) =
     (case trim_right_newlines s of [] \<Rightarrow> if c = CHR 0x0A then [] else [c] | t \<Rightarrow> c # t)"

lemma last_start_le: "c \<le> lim \<Longrightarrow> last_start lim i k c s \<le> lim"
  by (induction lim i k c s rule: last_start.induct) auto

text \<open>A quoted text keeps to its budget.\<close>

lemma truncate_text_length: "3 \<le> max_len \<Longrightarrow> length (truncate_text s max_len) \<le> max_len"
  using last_start_le [of 0 "max_len - 3" 0 0 s] by (auto simp: truncate_text_def)

subsection \<open>Tool calls\<close>

definition format_skill_use :: "json_reader \<Rightarrow> content_block \<Rightarrow> string" where
  "format_skill_use jr b =
     (let unnamed = newline_text @ icon_skill @ '' '' @ cb_name b @ newline_text
      in case jr_skill jr (cb_input b) of
           None \<Rightarrow> unnamed
         | Some (skill, args) \<Rightarrow>
             if skill = [] then unnamed
             else if args = [] then newline_text @ icon_skill @ '' '' @ skill @ newline_text
             else newline_text @ icon_skill @ '' '' @ skill @ '' ('' @ truncate_value args @ '')'' @ newline_text)"

definition format_arg :: "json_reader \<Rightarrow> string \<times> string \<Rightarrow> string" where
  "format_arg jr kv =
     (let s = trim_space (snd kv);
          shown = (if 2 \<le> length s \<and> hd s = CHR 0x22
                   then (case jr_string jr (snd kv) of None \<Rightarrow> s | Some u \<Rightarrow> u) else s)
      in fst kv @ ''='' @ truncate_value shown)"

definition format_tool_use :: "json_reader \<Rightarrow> content_block \<Rightarrow> string" where
  "format_tool_use jr b =
     (let bare = newline_text @ icon_tool @ '' '' @ cb_name b @ newline_text
      in if cb_name b = ''Skill'' then format_skill_use jr b
         else if cb_input b = [] \<or> cb_input b = ''{}'' then bare
         else (case jr_object jr (cb_input b) of
                 None \<Rightarrow> bare
               | Some args \<Rightarrow>
                   newline_text @ icon_tool @ '' '' @ cb_name b @ ''('' @
                   str_join '', '' (map (format_arg jr) args) @ '')'' @ newline_text))"

definition format_block :: "json_reader \<Rightarrow> content_block \<Rightarrow> string" where
  "format_block jr b =
     (if cb_type b = content_text then cb_text b
      else if cb_type b = content_thinking then
        (let thinking = trim_right_newlines (cb_thinking b)
         in if thinking = [] then [] else icon_thinking @ thinking @ newline_text)
      else if cb_type b = content_tool_use then format_tool_use jr b
      else [])"

definition format_subagent_text :: "string \<Rightarrow> string" where
  "format_subagent_text s =
     (let line = trim_space (first_line (trim_space s))
      in if line = [] then []
         else newline_text @ icon_robot @ truncate_text line quote_max_len @ newline_text)"

subsection \<open>Notices\<close>

record compact_metadata =
  cm_trigger :: string
  cm_pre_tokens :: int
  cm_post_tokens :: int

definition format_token_count :: "int \<Rightarrow> string" where
  "format_token_count n = (if n < 1000 then dec_int n else dec_int ((n + 500) div 1000) @ ''k'')"

definition format_compact_boundary :: "compact_metadata option \<Rightarrow> string" where
  "format_compact_boundary m =
     (case m of
        None \<Rightarrow> newline_text @ icon_compact @ ''Context compacted'' @ newline_text
      | Some cm \<Rightarrow>
          newline_text @ icon_compact @
          (if cm_trigger cm = ''auto'' then ''Context was full, compacted automatically'' else ''Context compacted'') @
          '': '' @ format_token_count (cm_pre_tokens cm) @ arrow_text @ format_token_count (cm_post_tokens cm) @
          '' tokens'' @ newline_text)"

definition strip_speaker :: "string \<Rightarrow> string" where
  "strip_speaker line =
     (case cut line '' says: '' of
        None \<Rightarrow> line
      | Some (speaker, said) \<Rightarrow>
          if CHR 0x20 \<in> set speaker \<or> CHR 0x09 \<in> set speaker then line else said)"

definition notice_lines :: "string \<Rightarrow> string list" where
  "notice_lines content =
     filter (\<lambda>l. l \<noteq> []) (map (\<lambda>l. trim_space (strip_speaker l)) (split_on (CHR 0x0A) content))"

definition format_notice :: "string \<Rightarrow> string" where
  "format_notice content =
     (case notice_lines content of
        [] \<Rightarrow> []
      | l # ls \<Rightarrow>
          newline_text @ icon_notice @ '' '' @ truncate_text l quote_max_len @
          (if ls = [] then [] else '' (+'' @ dec_nat (length ls) @ '' more)'') @ newline_text)"

subsection \<open>Tool results\<close>

text \<open>\<open>%.1f\<close> of \<open>n / d\<close>: the nearest tenth, the even one of two equally near.\<close>

definition one_decimal :: "nat \<Rightarrow> nat \<Rightarrow> string" where
  "one_decimal n d =
     (let q = 10 * n div d; r = 10 * n mod d;
          t = (if 2 * r < d \<or> 2 * r = d \<and> even q then q else q + 1)
      in dec_nat (t div 10) @ ''.'' @ dec_nat (t mod 10))"

definition format_bytes :: "nat \<Rightarrow> string" where
  "format_bytes n =
     (if 1024 * 1024 \<le> n then one_decimal n (1024 * 1024) @ '' MB''
      else if 1024 \<le> n then one_decimal n 1024 @ '' KB''
      else dec_nat n @ '' B'')"

record hook_refusal =
  hr_hook :: string
  hr_tool :: string
  hr_reason :: string

definition tclaw_hook_name :: "string \<Rightarrow> string" where
  "tclaw_hook_name command =
     (if \<not> str_contains command ''tclaw-hooks'' then []
      else (case str_fields command of [] \<Rightarrow> [] | fs \<Rightarrow> last fs))"

definition parse_hook_refusal :: "json_reader \<Rightarrow> string \<Rightarrow> hook_refusal option" where
  "parse_hook_refusal jr raw =
     (case jr_string jr raw of
        None \<Rightarrow> None
      | Some result \<Rightarrow>
          (case cut result '' hook error: '' of
             None \<Rightarrow> None
           | Some (refused, rest) \<Rightarrow>
               (case cut refused ''PreToolUse:'' of
                  None \<Rightarrow> None
                | Some (_, tool) \<Rightarrow>
                    if tool = [] \<or> \<not> has_prefix rest ''['' then None
                    else (case cut (trim_prefix rest ''['') '']: '' of
                            None \<Rightarrow> None
                          | Some (command, said) \<Rightarrow>
                              let reason = trim_space said
                              in Some \<lparr>hr_hook = tclaw_hook_name command, hr_tool = tool,
                                       hr_reason = (if reason = ''No stderr output'' then [] else reason)\<rparr>))))"

definition format_hook_refusal :: "hook_refusal \<Rightarrow> string" where
  "format_hook_refusal r =
     (let who = (if hr_hook r = [] then ''a PreToolUse hook'' else hr_hook r);
          reason = truncate_text (trim_space (first_line (hr_reason r))) quote_max_len
      in result_lead @ icon_hook @ '' '' @ who @ '' blocked '' @ hr_tool r @
         (if reason = [] then [] else '': '' @ reason) @ newline_text)"

definition done_with :: "string \<Rightarrow> string" where
  "done_with s = result_lead @ ''Done ('' @ s @ '')'' @ newline_text"

definition format_tool_result :: "json_reader \<Rightarrow> string \<Rightarrow> string" where
  "format_tool_result jr raw =
     (if raw = [] then result_lead @ ''Done'' @ newline_text
      else let trimmed = trim_space raw
           in if trimmed = [] \<or> hd trimmed \<noteq> CHR 0x7B then
                (case parse_hook_refusal jr raw of
                   Some r \<Rightarrow> format_hook_refusal r
                 | None \<Rightarrow> done_with (format_bytes (length raw)))
              else (case jr_meta jr raw of
                      None \<Rightarrow> done_with (format_bytes (length raw))
                    | Some None \<Rightarrow> done_with (format_bytes (length raw))
                    | Some (Some secs) \<Rightarrow>
                        done_with (str_join middle_dot [secs @ ''s'', format_bytes (length raw)])))"

subsection \<open>Errors and statistics\<close>

definition is_rate_limit_error :: "string \<Rightarrow> bool" where
  "is_rate_limit_error raw =
     (let lower = to_lower raw
      in str_contains lower ''rate limit'' \<or> str_contains lower ''rate_limit'' \<or> str_contains lower ''429'')"

definition friendly_error_message :: "string \<Rightarrow> string \<Rightarrow> string" where
  "friendly_error_message raw subtype =
     (let lower = to_lower raw; has = str_contains lower
      in if subtype = ''error_max_budget_usd'' then
           ''spend cap reached '' @ [CHR 0xE2, CHR 0x80, CHR 0x94] @ '' the max_budget_usd cap stopped this turn. Send another message to carry on, or raise the cap''
         else if has ''rate limit'' \<or> has ''rate_limit'' \<or> has ''429'' then
           ''rate limit reached '' @ [CHR 0xE2, CHR 0x80, CHR 0x94] @ '' please wait a moment before sending another message''
         else if has ''usage'' \<or> has ''session limit'' then
           ''usage limit reached '' @ [CHR 0xE2, CHR 0x80, CHR 0x94] @ '' '' @ raw
         else if has ''context'' \<and> (has ''length'' \<or> has ''too long'' \<or> has ''limit'') then
           ''context too long '' @ [CHR 0xE2, CHR 0x80, CHR 0x94] @ '' use '' @ [CHR 0x27] @ ''compact'' @ [CHR 0x27] @ '' to reduce conversation size and try again''
         else if has ''authentication'' \<or> has ''auth'' \<or> has ''unauthorized'' \<or> has ''401'' then
           ''authentication error '' @ [CHR 0xE2, CHR 0x80, CHR 0x94] @ '' use '' @ [CHR 0x27] @ ''login'' @ [CHR 0x27] @ '' to re-authenticate''
         else if trim_space raw = [] then
           (let s = trim_space subtype
            in if s \<noteq> [] then ''claude ended the turn with an error ('' @ s @ '') but gave no details '' @ [CHR 0xE2, CHR 0x80, CHR 0x94] @ '' check the logs''
               else ''claude ended the turn with an error but gave no details '' @ [CHR 0xE2, CHR 0x80, CHR 0x94] @ '' check the logs'')
         else ''claude error: '' @ raw)"

definition short_model_name :: "string \<Rightarrow> string" where
  "short_model_name m = short_name (case index_of m ''['' of None \<Rightarrow> m | Some i \<Rightarrow> take i m)"

definition model_summary :: "string list \<Rightarrow> string" where
  "model_summary models =
     (if models = [] then [] else ''('' @ str_join '', '' (sort (map short_model_name models)) @ '')'')"

definition go_quot :: "int \<Rightarrow> int \<Rightarrow> int" where
  "go_quot a b = (if a < 0 then - ((- a) div b) else a div b)"

definition format_api_retry :: "string \<Rightarrow> int \<Rightarrow> int \<Rightarrow> int \<Rightarrow> string" where
  "format_api_retry err delay attempt retries =
     icon_wait @ ''API error ('' @ err @ '') '' @ [CHR 0xE2, CHR 0x80, CHR 0x94] @ '' retrying in '' @ dec_int (go_quot (wrap64 (delay + 999)) 1000) @
     ''s (attempt '' @ dec_int attempt @ ''/'' @ dec_int retries @ '')'' @ newline_text"

definition format_mcp_problems :: "(string \<times> string) list \<Rightarrow> (string \<times> string) list \<Rightarrow> string" where
  "format_mcp_problems servers skipped =
     concat (map (\<lambda>(n, st). if st = ''connected'' \<or> st = ''pending'' then []
                   else icon_warning @ ''MCP server '' @ n @ '' is unavailable this turn ('' @ st @ '')'' @ newline_text) servers) @
     concat (map (\<lambda>(n, m). icon_warning @ ''MCP server '' @ n @ '' was skipped: '' @ m @ newline_text) skipped)"

end
