(* ===== verification/TurnWriter.thy ===== *)
theory TurnWriter
  imports GoText Prelude
begin

text \<open>
  How a turn's output reaches the chat: \<open>turnWriter\<close> in \<open>agent/handle.go\<close>. On a channel that splits,
  status lines and the reply go to messages of their own, which are edited while they grow; a reply
  may be shown as a draft first.

  The chat is the list of the messages sent, oldest first, each with its present text; a message's
  id is its place. Every call to the channel takes the next of \<open>tw_io\<close> as its outcome, \<open>CallOk\<close> when
  the list is exhausted. \<open>NotModified\<close> is the platform's word that a message shows the text already,
  \<open>CallStopped\<close> a call that failed because the turn was stopped.
\<close>

datatype write_phase = PhaseStatus | PhaseResponse | PhaseThinking

datatype message_kind = StatusMsg | ReplyMsg

datatype call_outcome = CallOk | NotModified | CallFailed | CallStopped

definition call_failed :: "call_outcome \<Rightarrow> bool" where
  "call_failed x = (x = CallFailed \<or> x = CallStopped)"

record turn_writer =
  tw_split :: bool
  tw_reply_limit :: nat
  tw_wrap_opening :: string
  tw_wrap_closing :: string
  tw_buf :: string
  tw_id :: "nat option"
  tw_status_buf :: string
  tw_status_id :: "nat option"
  tw_resp_buf :: string
  tw_resp_id :: "nat option"
  tw_status_sealed :: bool
  tw_resp_sealed :: bool
  tw_wrap_open :: bool
  tw_drafts :: bool
  tw_draft_id :: nat
  tw_last_draft :: time
  tw_chat :: "(message_kind \<times> string) list"
  tw_shown_draft :: string
  tw_io :: "call_outcome list"

definition max_message_len :: nat where "max_message_len = 3500"
definition telegram_truncate_len :: nat where "telegram_truncate_len = 3900"
definition draft_interval :: duration where "draft_interval = 700000000"

definition truncation_mark :: string where
  "truncation_mark = [CHR 0xE2, CHR 0x80, CHR 0xA6] @ ''[truncated]''"

definition truncate_for_telegram :: "string \<Rightarrow> string" where
  "truncate_for_telegram s =
     (if length s \<le> telegram_truncate_len then s else take telegram_truncate_len s @ truncation_mark)"

definition tw_next_io :: "turn_writer \<Rightarrow> call_outcome \<times> turn_writer" where
  "tw_next_io w = (case tw_io w of [] \<Rightarrow> (CallOk, w) | x # xs \<Rightarrow> (x, w\<lparr>tw_io := xs\<rparr>))"

text \<open>\<open>send\<close> and \<open>sendReply\<close>; a failed call sends nothing.\<close>

definition tw_send :: "message_kind \<Rightarrow> string \<Rightarrow> turn_writer \<Rightarrow> nat option \<times> turn_writer" where
  "tw_send kind text' w =
     (case tw_next_io w of
        (outcome, w') \<Rightarrow>
          if outcome = CallOk then (Some (length (tw_chat w')), w'\<lparr>tw_chat := tw_chat w' @ [(kind, text')]\<rparr>)
          else (None, w'))"

definition tw_edit :: "nat \<Rightarrow> string \<Rightarrow> turn_writer \<Rightarrow> call_outcome \<times> turn_writer" where
  "tw_edit i text' w =
     (case tw_next_io w of
        (outcome, w') \<Rightarrow>
          (outcome, if call_failed outcome then w'
                    else w'\<lparr>tw_chat := (tw_chat w')[i := (fst (tw_chat w' ! i), text')]\<rparr>))"

datatype write_error = SendFailed | EditFailed

definition flush_draft :: "turn_writer \<Rightarrow> write_error option \<times> turn_writer" where
  "flush_draft w =
     (if tw_draft_id w = 0 then (None, w)
      else (case tw_send ReplyMsg (tw_resp_buf w) (w\<lparr>tw_draft_id := 0\<rparr>) of
              (None, w1) \<Rightarrow> (Some SendFailed, w1)
            | (Some i, w1) \<Rightarrow> (None, w1\<lparr>tw_resp_id := Some i\<rparr>)))"

text \<open>
  \<open>fresh\<close> is the random id a new draft gets, between 1 and \<open>2 ^ 31 - 1\<close>; a new draft's last update is
  the zero time. \<open>True\<close> when the draft stands for the reply for now.
\<close>

definition stream_draft :: "time \<Rightarrow> nat \<Rightarrow> string \<Rightarrow> turn_writer \<Rightarrow> bool \<times> turn_writer" where
  "stream_draft now fresh content w =
     (let w0 = (if tw_draft_id w = 0 then w\<lparr>tw_draft_id := fresh, tw_last_draft := 0\<rparr> else w)
      in if time_sub now (tw_last_draft w0) < draft_interval then (True, w0)
         else (case tw_next_io w0 of
                 (outcome, w1) \<Rightarrow>
                   if outcome = CallOk then (True, w1\<lparr>tw_last_draft := now, tw_shown_draft := content\<rparr>)
                   else if outcome = CallStopped then (True, w1)
                   else (False, w1\<lparr>tw_drafts := False, tw_draft_id := 0\<rparr>)))"

definition status_suffix :: "string \<Rightarrow> turn_writer \<Rightarrow> string" where
  "status_suffix content w =
     (if tw_wrap_open w \<and> tw_wrap_closing w \<noteq> [] then content @ tw_wrap_closing w else content)"

definition status_prefix :: "string \<Rightarrow> turn_writer \<Rightarrow> string" where
  "status_prefix content w = (if tw_wrap_opening w \<noteq> [] then tw_wrap_opening w @ content else content)"

definition write_single :: "string \<Rightarrow> turn_writer \<Rightarrow> write_error option \<times> turn_writer" where
  "write_single text' w =
     (let w0 = w\<lparr>tw_buf := tw_buf w @ text'\<rparr>; content = status_suffix (tw_buf w0) w0
      in case tw_id w0 of
           None \<Rightarrow>
             (case tw_send ReplyMsg content w0 of
                (None, w1) \<Rightarrow> (Some SendFailed, w1) | (Some i, w1) \<Rightarrow> (None, w1\<lparr>tw_id := Some i\<rparr>))
         | Some i \<Rightarrow>
             (case tw_edit i content w0 of
                (outcome, w1) \<Rightarrow> (if outcome = CallOk then None else Some EditFailed, w1)))"

subsection \<open>Status\<close>

text \<open>A new status message: its failure is logged and swallowed.\<close>

definition send_status :: "string \<Rightarrow> turn_writer \<Rightarrow> turn_writer" where
  "send_status content w =
     (case tw_send StatusMsg (truncate_for_telegram content) w of
        (None, w1) \<Rightarrow> w1
      | (Some i, w1) \<Rightarrow>
          w1\<lparr>tw_status_id := Some i, tw_resp_sealed := (tw_resp_sealed w1 \<or> tw_resp_id w1 \<noteq> None)\<rparr>)"

text \<open>The message that takes over from one that could not be edited: it does not seal the reply.\<close>

definition replace_status :: "string \<Rightarrow> turn_writer \<Rightarrow> turn_writer" where
  "replace_status text' w =
     (let fresh = status_prefix text' w; w0 = w\<lparr>tw_status_buf := fresh, tw_status_id := None\<rparr>
      in case tw_send StatusMsg (truncate_for_telegram (status_suffix fresh w0)) w0 of
           (None, w1) \<Rightarrow> w1 | (Some i, w1) \<Rightarrow> w1\<lparr>tw_status_id := Some i\<rparr>)"

definition write_status :: "string \<Rightarrow> turn_writer \<Rightarrow> write_error option \<times> turn_writer" where
  "write_status text' w =
     (case flush_draft w of
        (Some e, w0) \<Rightarrow> (Some e, w0)
      | (None, w0) \<Rightarrow>
          (let w1 = (if tw_status_sealed w0
                     then w0\<lparr>tw_status_buf := [], tw_status_id := None, tw_status_sealed := False, tw_wrap_open := False\<rparr>
                     else w0);
               opens = (\<not> tw_wrap_open w1 \<and> tw_wrap_opening w1 \<noteq> []);
               t = (if opens then tw_wrap_opening w1 @ text' else text');
               w2 = w1\<lparr>tw_wrap_open := (tw_wrap_open w1 \<or> opens), tw_status_buf := tw_status_buf w1 @ t\<rparr>;
               content = status_suffix (tw_status_buf w2) w2;
               rotate = (tw_status_id w2 \<noteq> None \<and> max_message_len < length content);
               fresh = status_prefix t w2;
               w3 = (if rotate then w2\<lparr>tw_status_buf := fresh, tw_status_id := None\<rparr> else w2);
               content' = (if rotate then status_suffix fresh w3 else content)
           in (None,
               case tw_status_id w3 of
                 None \<Rightarrow> send_status content' w3
               | Some i \<Rightarrow>
                   (case tw_edit i (truncate_for_telegram content') w3 of
                      (outcome, w4) \<Rightarrow> if call_failed outcome then replace_status t w4 else w4))))"

subsection \<open>The reply\<close>

definition show_reply ::
  "time \<Rightarrow> nat \<Rightarrow> string \<Rightarrow> turn_writer \<Rightarrow> write_error option \<times> turn_writer" where
  "show_reply now fresh text' w =
     (let content = tw_resp_buf w
      in if trim_space content = [] then (None, w)
         else
           (case (if tw_drafts w \<and> tw_resp_id w = None then stream_draft now fresh content w else (False, w)) of
              (True, w1) \<Rightarrow> (None, w1)
            | (False, w1) \<Rightarrow>
                (case tw_resp_id w1 of
                   None \<Rightarrow>
                     (case tw_send ReplyMsg content w1 of
                        (None, w2) \<Rightarrow> (Some SendFailed, w2)
                      | (Some i, w2) \<Rightarrow> (None, w2\<lparr>tw_resp_id := Some i\<rparr>))
                 | Some i \<Rightarrow>
                     (case tw_edit i content w1 of
                        (outcome, w2) \<Rightarrow>
                          if \<not> call_failed outcome then (None, w2)
                          else (case tw_send ReplyMsg text' (w2\<lparr>tw_resp_buf := text', tw_resp_id := None\<rparr>) of
                                  (None, w3) \<Rightarrow> (Some SendFailed, w3)
                                | (Some j, w3) \<Rightarrow> (None, w3\<lparr>tw_resp_id := Some j\<rparr>))))))"

definition write_response ::
  "time \<Rightarrow> nat \<Rightarrow> string \<Rightarrow> turn_writer \<Rightarrow> write_error option \<times> turn_writer" where
  "write_response now fresh text' w =
     (let w0 = (if tw_resp_sealed w then w\<lparr>tw_resp_buf := [], tw_resp_id := None, tw_resp_sealed := False\<rparr> else w);
          w1 = (if tw_resp_id w0 = None then w0\<lparr>tw_status_sealed := True\<rparr> else w0)
      in if tw_resp_buf w1 \<noteq> [] \<and> tw_reply_limit w1 < length (tw_resp_buf w1) + length text'
         then (case flush_draft w1 of
                 (Some e, w2) \<Rightarrow> (Some e, w2)
               | (None, w2) \<Rightarrow> show_reply now fresh text' (w2\<lparr>tw_resp_buf := text', tw_resp_id := None\<rparr>))
         else show_reply now fresh text' (w1\<lparr>tw_resp_buf := tw_resp_buf w1 @ text'\<rparr>))"

definition turn_write ::
  "time \<Rightarrow> nat \<Rightarrow> write_phase \<Rightarrow> string \<Rightarrow> turn_writer \<Rightarrow> write_error option \<times> turn_writer" where
  "turn_write now fresh phase text' w =
     (if \<not> tw_split w then write_single text' w
      else (case phase of
              PhaseResponse \<Rightarrow> write_response now fresh text' w
            | _ \<Rightarrow> write_status text' w))"

text \<open>
  The writer of a turn on a channel: whether it splits, the length of its replies, its wrap tags and
  whether it can show drafts.
\<close>

definition new_turn_writer :: "bool \<Rightarrow> nat option \<Rightarrow> string \<times> string \<Rightarrow> bool \<Rightarrow> call_outcome list \<Rightarrow> turn_writer" where
  "new_turn_writer split rich_limit wrap streams outcomes =
     \<lparr>tw_split = split, tw_reply_limit = (case rich_limit of None \<Rightarrow> max_message_len | Some n \<Rightarrow> n),
      tw_wrap_opening = fst wrap, tw_wrap_closing = snd wrap, tw_buf = [], tw_id = None, tw_status_buf = [],
      tw_status_id = None, tw_resp_buf = [], tw_resp_id = None, tw_status_sealed = False, tw_resp_sealed = False,
      tw_wrap_open = False, tw_drafts = (streams \<and> split), tw_draft_id = 0, tw_last_draft = 0, tw_chat = [],
      tw_shown_draft = [], tw_io = outcomes\<rparr>"

subsection \<open>White space at the end of a text\<close>

text \<open>A text that ends within no white-space rune, as every UTF-8 text does.\<close>

definition whole_runes :: "string \<Rightarrow> bool" where
  "whole_runes s =
     (s = [] \<or>
      (last s \<notin> {CHR 0xC2, CHR 0xE1, CHR 0xE2, CHR 0xE3} \<and>
       \<not> has_suffix s [CHR 0xE1, CHR 0x9A] \<and> \<not> has_suffix s [CHR 0xE2, CHR 0x80] \<and>
       \<not> has_suffix s [CHR 0xE2, CHR 0x81] \<and> \<not> has_suffix s [CHR 0xE3, CHR 0x80]))"

definition blank :: "string \<Rightarrow> bool" where
  "blank s = (trim_space s = [])"

lemma trim_right_empty: "trim_right s = [] \<longleftrightarrow> trim_left_go 0 s = []"
  by (cases s) auto

lemma blank_iff: "blank s \<longleftrightarrow> trim_left_go 0 s = []"
proof -
  have "trim_left_go 0 (trim_left_go k s) = trim_left_go k s" for k
    by (induction k s rule: trim_left_go.induct) (auto split: nat.splits)
  then show ?thesis by (simp add: blank_def trim_space_def trim_right_empty)
qed

lemma blank_Nil [simp]: "blank []"
  by (simp add: blank_iff)

definition part_of_space :: "string \<Rightarrow> bool" where
  "part_of_space t =
     (t \<in> {[CHR 0xC2], [CHR 0xE1], [CHR 0xE2], [CHR 0xE3], [CHR 0xE1, CHR 0x9A], [CHR 0xE2, CHR 0x80],
            [CHR 0xE2, CHR 0x81], [CHR 0xE3, CHR 0x80]})"

lemma space_len_append:
  assumes "t \<noteq> []" and "\<not> part_of_space t"
  shows "space_len (t @ x) = space_len t"
proof -
  from assms(1) obtain c r where t: "t = c # r" by (cases t) auto
  show ?thesis
  proof (cases r)
    case Nil
    with t assms(2) show ?thesis by (auto simp: space_len_def part_of_space_def)
  next
    case (Cons d q)
    with t assms(2) show ?thesis
      by (cases q; cases x) (auto simp: space_len_def part_of_space_def)
  qed
qed

lemma whole_suffix:
  assumes "whole_runes (a @ t)" and "t \<noteq> []"
  shows "\<not> part_of_space t"
proof
  assume "part_of_space t"
  with assms show False by (auto simp: part_of_space_def whole_runes_def has_suffix_iff)
qed

lemma trim_left_append:
  "whole_runes (a @ s) \<Longrightarrow> trim_left_go k s \<noteq> [] \<Longrightarrow> trim_left_go k (s @ x) = trim_left_go k s @ x"
proof (induction k s arbitrary: a rule: trim_left_go.induct)
  case (1 k)
  then show ?case by simp
next
  case (2 k c s)
  from "2.IH" [of "a @ [c]"] "2.prems" show ?case by simp
next
  case (3 c s)
  have len: "space_len ((c # s) @ x) = space_len (c # s)"
    using whole_suffix [OF "3.prems"(1)] by (intro space_len_append) simp_all
  from "3.IH" [of _ "a @ [c]"] "3.prems" len show ?case by (auto split: nat.splits)
qed

lemma blank_prefix: "whole_runes s \<Longrightarrow> blank (s @ x) \<Longrightarrow> blank s"
  using trim_left_append [of "[]" s 0 x] by (auto simp: blank_iff)

lemma space_len_le: "space_len s \<le> length s"
  by (auto simp: space_len_def split: list.splits)

lemma trim_left_all:
  "whole_runes (a @ s) \<Longrightarrow> k \<le> length s \<Longrightarrow> trim_left_go k s = [] \<Longrightarrow> trim_left_go k (s @ x) = trim_left_go 0 x"
proof (induction k s arbitrary: a rule: trim_left_go.induct)
  case (1 k)
  then show ?case by simp
next
  case (2 k c s)
  from "2.IH" [of "a @ [c]"] "2.prems" show ?case by simp
next
  case (3 c s)
  have len: "space_len ((c # s) @ x) = space_len (c # s)"
    using whole_suffix [OF "3.prems"(1)] by (intro space_len_append) simp_all
  from "3.prems"(3) obtain n where n: "space_len (c # s) = Suc n" by (auto split: nat.splits)
  with space_len_le [of "c # s"] have "n \<le> length s" by simp
  with "3.IH" [of n "a @ [c]"] "3.prems" len n show ?case by simp
qed

lemma blank_rest:
  assumes "whole_runes s" and "blank (s @ x)"
  shows "blank x"
  using assms(2) trim_left_all [of "[]" s 0 x] blank_prefix [OF assms] assms(1) by (simp add: blank_iff)

lemma whole_append:
  assumes "whole_runes s" and "whole_runes x"
  shows "whole_runes (s @ x)"
proof (cases "s = [] \<or> x = []")
  case True
  with assms show ?thesis by auto
next
  case False
  have pair: "has_suffix x [u, v]" if "has_suffix (s @ x) [u, v]" "u \<in> {CHR 0xE1, CHR 0xE2, CHR 0xE3}" for u v
  proof (cases "tl x = []")
    case True
    with False obtain y where y: "x = [y]" by (cases x) auto
    from that(1) y obtain r where "s @ [y] = r @ [u, v]" by (auto simp: has_suffix_iff)
    then have "s = r @ [u]" by (metis append.assoc append1_eq_conv append_Cons append_Nil)
    with assms(1) that(2) show ?thesis by (auto simp: whole_runes_def)
  next
    case t: False
    with False obtain y z q where x: "x = q @ [y, z]"
      by (metis append.assoc append_Cons append_Nil append_butlast_last_id butlast_tl list.sel(3) neq_Nil_conv)
    with that(1) have "u = y" "v = z" by (auto simp: has_suffix_iff)
    with x show ?thesis by (auto simp: has_suffix_iff)
  qed
  from False assms(2) have "last (s @ x) \<notin> {CHR 0xC2, CHR 0xE1, CHR 0xE2, CHR 0xE3}"
    by (simp add: whole_runes_def)
  with False assms(2) pair show ?thesis by (simp add: whole_runes_def) blast
qed

subsection \<open>What the chat shows\<close>

definition replies_of :: "(message_kind \<times> string) list \<Rightarrow> string list" where
  "replies_of c = map snd (filter (\<lambda>m. fst m = ReplyMsg) c)"

lemma replies_of_simps [simp]:
  "replies_of [] = []" "replies_of (a @ b) = replies_of a @ replies_of b"
  "replies_of ((ReplyMsg, t) # a) = t # replies_of a" "replies_of ((StatusMsg, t) # a) = replies_of a"
  by (simp_all add: replies_of_def)

text \<open>The messages hold the text, in order and once, but for stretches of white space between them.\<close>

inductive reply_covers :: "string list \<Rightarrow> string \<Rightarrow> bool" where
  covers_nothing: "reply_covers [] []"
| covers_message: "reply_covers ms t \<Longrightarrow> reply_covers (ms @ [m]) (t @ m)"
| covers_blank: "reply_covers ms t \<Longrightarrow> blank b \<Longrightarrow> reply_covers ms (t @ b)"

text \<open>
  The invariant between writes; \<open>t\<close> is the reply text written so far. The message being edited is
  always the last of the chat, so what is edited never moves above what came later.
\<close>

definition reply_ok :: "string \<Rightarrow> turn_writer \<Rightarrow> bool" where
  "reply_ok t w =
     (whole_runes (tw_resp_buf w) \<and>
      (\<exists>t0 ms. t = t0 @ tw_resp_buf w \<and> reply_covers ms t0 \<and>
         (case tw_resp_id w of
            None \<Rightarrow> replies_of (tw_chat w) = ms \<and> (tw_draft_id w = 0 \<longrightarrow> blank (tw_resp_buf w))
          | Some i \<Rightarrow>
              (\<exists>sent rest. tw_resp_buf w = sent @ rest \<and> whole_runes sent \<and> blank rest \<and>
                 replies_of (tw_chat w) = ms @ [sent] \<and>
                 (\<not> tw_resp_sealed w \<longrightarrow>
                    (\<exists>pre. tw_chat w = pre @ [(ReplyMsg, sent)] \<and> i = length pre))))))"

definition chat_ok :: "turn_writer \<Rightarrow> bool" where
  "chat_ok w =
     ((tw_draft_id w \<noteq> 0 \<longrightarrow> tw_resp_id w = None \<and> tw_drafts w \<and> (tw_status_sealed w \<or> tw_status_id w = None)) \<and>
      (tw_resp_sealed w \<longrightarrow> tw_resp_id w \<noteq> None) \<and>
      (tw_resp_id w \<noteq> None \<longrightarrow> \<not> tw_resp_sealed w \<longrightarrow> tw_status_sealed w \<or> tw_status_id w = None) \<and>
      (\<forall>j. tw_status_id w = Some j \<longrightarrow> \<not> tw_status_sealed w \<longrightarrow>
         (\<exists>pre s. tw_chat w = pre @ [(StatusMsg, s)] \<and> j = length pre)))"

definition writer_ok :: "string \<Rightarrow> turn_writer \<Rightarrow> bool" where
  "writer_ok t w = (tw_split w \<and> reply_ok t w \<and> chat_ok w)"

lemma tw_next_io_frame:
  "tw_next_io w = (x, w') \<Longrightarrow> \<exists>r. w' = w\<lparr>tw_io := r\<rparr>"
  by (auto simp: tw_next_io_def split: list.splits intro: exI [of _ "tw_io w"])

lemma tw_send_cases:
  assumes "tw_send k t w = (r, w')"
  shows "(\<exists>io. r = None \<and> w' = w\<lparr>tw_io := io\<rparr>) \<or>
         (\<exists>io. r = Some (length (tw_chat w)) \<and> w' = w\<lparr>tw_io := io, tw_chat := tw_chat w @ [(k, t)]\<rparr>)"
proof -
  obtain x w1 where x: "tw_next_io w = (x, w1)" by (rule prod.exhaust)
  from tw_next_io_frame [OF x] obtain io where "w1 = w\<lparr>tw_io := io\<rparr>" ..
  with assms x show ?thesis by (auto simp: tw_send_def split: if_splits)
qed

lemma tw_edit_cases:
  assumes "tw_edit i t w = (x, w')"
  shows "\<exists>io. w' = (if call_failed x then w\<lparr>tw_io := io\<rparr>
                     else w\<lparr>tw_io := io, tw_chat := (tw_chat w)[i := (fst (tw_chat w ! i), t)]\<rparr>)"
proof -
  obtain y w1 where y: "tw_next_io w = (y, w1)" by (rule prod.exhaust)
  from tw_next_io_frame [OF y] obtain io where "w1 = w\<lparr>tw_io := io\<rparr>" ..
  with assms y show ?thesis by (auto simp: tw_edit_def)
qed

lemma flush_draft_ok:
  assumes "writer_ok t w" and "flush_draft w = (None, w')"
  shows "writer_ok t w' \<and> tw_draft_id w' = 0"
proof (cases "tw_draft_id w = 0")
  case True
  with assms show ?thesis by (simp add: flush_draft_def)
next
  case False
  obtain r w1 where s: "tw_send ReplyMsg (tw_resp_buf w) (w\<lparr>tw_draft_id := 0\<rparr>) = (r, w1)" by (rule prod.exhaust)
  from assms(2) False s obtain i where r: "r = Some i" "w' = w1\<lparr>tw_resp_id := Some i\<rparr>"
    by (auto simp: flush_draft_def split: option.splits)
  from tw_send_cases [OF s] r obtain io where w': "w' = w\<lparr>tw_draft_id := 0, tw_io := io,
      tw_chat := tw_chat w @ [(ReplyMsg, tw_resp_buf w)], tw_resp_id := Some (length (tw_chat w))\<rparr>"
    by auto
  from assms(1) False show ?thesis
    by (auto simp: writer_ok_def reply_ok_def chat_ok_def w')
qed

lemma flush_draft_frame:
  "flush_draft w = (e, w') \<Longrightarrow>
   tw_split w' = tw_split w \<and> tw_resp_sealed w' = tw_resp_sealed w \<and> tw_status_sealed w' = tw_status_sealed w \<and>
   tw_status_id w' = tw_status_id w"
  by (auto simp: flush_draft_def split: if_splits prod.splits option.splits dest!: tw_send_cases)

lemma writer_ok_status_fields [simp]:
  "writer_ok t (w\<lparr>tw_status_buf := a\<rparr>) = writer_ok t w"
  "writer_ok t (w\<lparr>tw_wrap_open := b\<rparr>) = writer_ok t w"
  "writer_ok t (w\<lparr>tw_io := io\<rparr>) = writer_ok t w"
  by (simp_all add: writer_ok_def reply_ok_def chat_ok_def cong: option.case_cong)

lemma writer_ok_no_status:
  "writer_ok t w \<Longrightarrow> writer_ok t (w\<lparr>tw_status_id := None\<rparr>)"
  "writer_ok t w \<Longrightarrow> tw_draft_id w = 0 \<Longrightarrow>
   writer_ok t (w\<lparr>tw_status_buf := a, tw_status_id := None, tw_status_sealed := False, tw_wrap_open := b\<rparr>)"
  by (auto simp: writer_ok_def reply_ok_def chat_ok_def cong: option.case_cong)

lemma send_status_ok:
  assumes "writer_ok t w" and "tw_draft_id w = 0" and "tw_status_id w = None" and "\<not> tw_status_sealed w"
  shows "writer_ok t (send_status c w)"
proof -
  obtain r w1 where s: "tw_send StatusMsg (truncate_for_telegram c) w = (r, w1)" by (rule prod.exhaust)
  from tw_send_cases [OF s] s assms show ?thesis
    by (auto simp: send_status_def writer_ok_def reply_ok_def chat_ok_def split: option.splits)
qed

lemma replace_status_ok:
  assumes "writer_ok t w" and "tw_draft_id w = 0" and "\<not> tw_status_sealed w"
    and "tw_resp_id w = None \<or> tw_resp_sealed w"
  shows "writer_ok t (replace_status c w)"
proof -
  define w0 where "w0 = w\<lparr>tw_status_buf := status_prefix c w, tw_status_id := None\<rparr>"
  obtain r w1 where s: "tw_send StatusMsg (truncate_for_telegram (status_suffix (status_prefix c w) w0)) w0 = (r, w1)"
    by (rule prod.exhaust)
  have rs: "replace_status c w = (case r of None \<Rightarrow> w1 | Some i \<Rightarrow> w1\<lparr>tw_status_id := Some i\<rparr>)"
    using s by (simp add: replace_status_def w0_def Let_def)
  from tw_send_cases [OF s] assms show ?thesis
    by (auto simp: rs w0_def writer_ok_def reply_ok_def chat_ok_def split: option.splits)
qed

lemma edit_status_ok:
  assumes "writer_ok t w" and "tw_draft_id w = 0" and "tw_status_id w = Some i" and "\<not> tw_status_sealed w"
    and "tw_edit i c w = (x, w')"
  shows "writer_ok t w' \<and> tw_draft_id w' = 0 \<and> \<not> tw_status_sealed w' \<and>
         (tw_resp_id w' = None \<or> tw_resp_sealed w')"
proof -
  from assms(1,3,4) obtain pre s0 where at: "tw_chat w = pre @ [(StatusMsg, s0)]" "i = length pre"
    by (auto simp: writer_ok_def chat_ok_def)
  from assms(1,3,4) have sealed: "tw_resp_id w = None \<or> tw_resp_sealed w" by (auto simp: writer_ok_def chat_ok_def)
  have upd: "(tw_chat w)[i := (fst (tw_chat w ! i), c)] = pre @ [(StatusMsg, c)]" by (simp add: at)
  from tw_edit_cases [OF assms(5)] obtain io where
    w': "w' = (if call_failed x then w\<lparr>tw_io := io\<rparr> else w\<lparr>tw_io := io, tw_chat := pre @ [(StatusMsg, c)]\<rparr>)"
    unfolding upd ..
  show ?thesis
  proof (cases "call_failed x")
    case True
    with assms sealed show ?thesis by (simp add: w')
  next
    case False
    have "writer_ok t (w\<lparr>tw_io := io, tw_chat := pre @ [(StatusMsg, c)]\<rparr>)"
      using assms(1-4) sealed at by (auto simp: writer_ok_def reply_ok_def chat_ok_def split: option.splits)
    with False assms sealed show ?thesis by (simp add: w')
  qed
qed

text \<open>What a status write does once the draft is flushed: it puts one text in one message.\<close>

definition opened_status :: "turn_writer \<Rightarrow> turn_writer" where
  "opened_status w =
     (if tw_status_sealed w
      then w\<lparr>tw_status_buf := [], tw_status_id := None, tw_status_sealed := False, tw_wrap_open := False\<rparr> else w)"

definition put_status :: "string \<Rightarrow> string \<Rightarrow> turn_writer \<Rightarrow> turn_writer" where
  "put_status content again w =
     (case tw_status_id w of
        None \<Rightarrow> send_status content w
      | Some i \<Rightarrow>
          (case tw_edit i (truncate_for_telegram content) w of
             (outcome, w1) \<Rightarrow> if call_failed outcome then replace_status again w1 else w1))"

lemma write_status_put:
  assumes "flush_draft w = (None, w0)" and "write_status c w = (r, w')"
  obtains content again w3 where "w' = put_status content again w3"
    and "tw_chat w3 = tw_chat w0" and "tw_draft_id w3 = tw_draft_id w0" and "\<not> tw_status_sealed w3"
    and "tw_status_id w3 = None \<or> tw_status_id w3 = tw_status_id w0 \<and> \<not> tw_status_sealed w0"
    and "\<And>t. writer_ok t w0 \<Longrightarrow> tw_draft_id w0 = 0 \<Longrightarrow> writer_ok t w3"
proof -
  define w1 where "w1 = opened_status w0"
  define shown where "shown = (if \<not> tw_wrap_open w1 \<and> tw_wrap_opening w1 \<noteq> [] then tw_wrap_opening w1 @ c else c)"
  define w2 where "w2 = w1\<lparr>tw_wrap_open := (tw_wrap_open w1 \<or> \<not> tw_wrap_open w1 \<and> tw_wrap_opening w1 \<noteq> []),
      tw_status_buf := tw_status_buf w1 @ shown\<rparr>"
  define rotate where "rotate = (tw_status_id w2 \<noteq> None \<and> max_message_len < length (status_suffix (tw_status_buf w2) w2))"
  define w3 where "w3 = (if rotate then w2\<lparr>tw_status_buf := status_prefix shown w2, tw_status_id := None\<rparr> else w2)"
  define content where "content = (if rotate then status_suffix (status_prefix shown w2) w3 else status_suffix (tw_status_buf w2) w2)"
  have w': "w' = put_status content shown w3"
    using assms
    unfolding write_status_def opened_status_def w1_def shown_def w2_def rotate_def w3_def content_def Let_def put_status_def
    by simp
  have ok: "writer_ok t w3" if "writer_ok t w0" "tw_draft_id w0 = 0" for t
  proof -
    from that writer_ok_no_status(2) [OF that] have "writer_ok t w1" by (auto simp: w1_def opened_status_def)
    then show ?thesis by (auto simp: w3_def w2_def intro!: writer_ok_no_status(1))
  qed
  show ?thesis
    by (rule that [OF w' _ _ _ _ ok]) (auto simp: w3_def w2_def w1_def opened_status_def)
qed

lemma put_status_ok:
  assumes "writer_ok t w" and "tw_draft_id w = 0" and "\<not> tw_status_sealed w"
  shows "writer_ok t (put_status content again w)"
proof (cases "tw_status_id w")
  case None
  with assms send_status_ok [of t w content] show ?thesis by (simp add: put_status_def)
next
  case (Some i)
  obtain x w1 where ed: "tw_edit i (truncate_for_telegram content) w = (x, w1)" by (rule prod.exhaust)
  note ok = edit_status_ok [OF assms(1,2) Some assms(3) ed]
  show ?thesis using Some ed ok replace_status_ok [of t w1 again] by (simp add: put_status_def)
qed

lemma write_status_ok:
  assumes "writer_ok t w" and "write_status c w = (None, w')"
  shows "writer_ok t w'"
proof -
  obtain e w0 where f: "flush_draft w = (e, w0)" by (rule prod.exhaust)
  with assms(2) have "e = None" by (auto simp: write_status_def split: option.splits)
  with flush_draft_ok [OF assms(1)] f have ok0: "writer_ok t w0" "tw_draft_id w0 = 0" by auto
  from f \<open>e = None\<close> have "flush_draft w = (None, w0)" by simp
  from write_status_put [OF this assms(2)] ok0 put_status_ok show ?thesis by metis
qed

lemma writer_covers:
  assumes "writer_ok t w" and "tw_draft_id w = 0"
  shows "reply_covers (replies_of (tw_chat w)) t"
proof -
  from assms obtain t0 ms where t: "t = t0 @ tw_resp_buf w" "reply_covers ms t0"
    and c: "case tw_resp_id w of
            None \<Rightarrow> replies_of (tw_chat w) = ms \<and> blank (tw_resp_buf w)
          | Some i \<Rightarrow> (\<exists>sent rest. tw_resp_buf w = sent @ rest \<and> blank rest \<and> replies_of (tw_chat w) = ms @ [sent])"
    by (auto simp: writer_ok_def reply_ok_def split: option.splits)
  show ?thesis
  proof (cases "tw_resp_id w")
    case None
    with t c covers_blank show ?thesis by auto
  next
    case (Some i)
    with c obtain sent rest where "tw_resp_buf w = sent @ rest" "blank rest" "replies_of (tw_chat w) = ms @ [sent]"
      by auto
    with t covers_blank [OF covers_message [OF t(2)]] show ?thesis by simp
  qed
qed

lemma show_reply_fresh_ok:
  assumes "tw_split w" and "tw_resp_id w = None" and "\<not> tw_resp_sealed w"
    and "tw_status_sealed w \<or> tw_status_id w = None" and "whole_runes (tw_resp_buf w)"
    and "reply_covers (replies_of (tw_chat w)) t0"
    and "tw_draft_id w \<noteq> 0 \<longrightarrow> tw_drafts w" and "0 < fresh" and "show_reply now fresh x w = (None, w')"
  shows "writer_ok (t0 @ tw_resp_buf w) w'"
proof (cases "trim_space (tw_resp_buf w) = []")
  case True
  with assms show ?thesis
    by (auto simp: show_reply_def writer_ok_def reply_ok_def chat_ok_def blank_def)
next
  case False
  obtain d w1 where d: "(if tw_drafts w \<and> tw_resp_id w = None then stream_draft now fresh (tw_resp_buf w) w
      else (False, w)) = (d, w1)" by (rule prod.exhaust)
  then have w1: "tw_split w1" "tw_resp_id w1 = None" "\<not> tw_resp_sealed w1" "tw_resp_buf w1 = tw_resp_buf w"
    "tw_status_sealed w1 \<or> tw_status_id w1 = None" "tw_chat w1 = tw_chat w"
    "d \<Longrightarrow> tw_draft_id w1 \<noteq> 0 \<and> tw_drafts w1" "\<not> d \<Longrightarrow> tw_draft_id w1 = 0"
    using assms(1-4,7,8) tw_next_io_frame
    by (auto simp: stream_draft_def Let_def split: if_splits prod.splits dest!: tw_next_io_frame)
  show ?thesis
  proof (cases d)
    case True
    with False d w1 assms(9) have w': "w' = w1" by (simp add: show_reply_def)
    with True w1 assms(5,6) show ?thesis by (auto simp: w' writer_ok_def reply_ok_def chat_ok_def)
  next
    case nd: False
    obtain r w2 where s: "tw_send ReplyMsg (tw_resp_buf w) w1 = (r, w2)" by (rule prod.exhaust)
    with False d nd w1 assms(9) obtain i where r: "r = Some i" "w' = w2\<lparr>tw_resp_id := Some i\<rparr>"
      by (auto simp: show_reply_def Let_def split: option.splits)
    from tw_send_cases [OF s] r obtain io where
      w': "w' = w1\<lparr>tw_io := io, tw_chat := tw_chat w1 @ [(ReplyMsg, tw_resp_buf w)], tw_resp_id := Some (length (tw_chat w1))\<rparr>"
      by auto
    from nd w1 assms(5,6) show ?thesis
      by (auto simp: w' writer_ok_def reply_ok_def chat_ok_def)
  qed
qed


lemma show_reply_edit_ok:
  assumes "tw_split w" and "\<not> tw_resp_sealed w" and "tw_draft_id w = 0"
    and "tw_status_sealed w \<or> tw_status_id w = None"
    and at: "tw_resp_id w = Some (length pre)" "tw_chat w = pre @ [(ReplyMsg, sent)]"
    and buf: "tw_resp_buf w = sent @ rest @ x" "whole_runes sent" "whole_runes (sent @ rest)" "whole_runes x"
    and covers: "reply_covers (replies_of pre) t0" and rest: "blank rest"
    and run: "show_reply now fresh x w = (None, w')"
  shows "writer_ok (t0 @ sent @ rest @ x) w'"
proof (cases "trim_space (tw_resp_buf w) = []")
  case True
  with buf have "blank (rest @ x)" by (auto simp: blank_def [symmetric] intro: blank_rest)
  moreover from buf whole_append [of "sent @ rest" x] have "whole_runes (tw_resp_buf w)" by simp
  moreover from True run have "w' = w" by (simp add: show_reply_def)
  ultimately show ?thesis using assms(1-4) at buf(1,2) covers
    by (fastforce simp: writer_ok_def reply_ok_def chat_ok_def)
next
  case False
  obtain o1 w2 where e: "tw_edit (length pre) (sent @ rest @ x) w = (o1, w2)" by (rule prod.exhaust)
  have whole: "whole_runes (sent @ rest @ x)" using whole_append [OF buf(3,4)] by simp
  have upd: "(tw_chat w)[length pre := (fst (tw_chat w ! length pre), sent @ rest @ x)] =
      pre @ [(ReplyMsg, sent @ rest @ x)]" by (simp add: at)
  from tw_edit_cases [OF e] obtain io where
    w2: "w2 = (if call_failed o1 then w\<lparr>tw_io := io\<rparr>
               else w\<lparr>tw_io := io, tw_chat := pre @ [(ReplyMsg, sent @ rest @ x)]\<rparr>)"
    unfolding upd ..
  show ?thesis
  proof (cases "call_failed o1")
    case nf: False
    with False run at(1) e buf(1) have "w' = w2" by (simp add: show_reply_def)
    with nf have w': "w' = w\<lparr>tw_io := io, tw_chat := pre @ [(ReplyMsg, sent @ rest @ x)]\<rparr>" by (simp add: w2)
    show ?thesis using assms(1-4) at(1) buf(1) whole covers
      by (fastforce simp: w' writer_ok_def reply_ok_def chat_ok_def)
  next
    case True
    obtain r w3 where s: "tw_send ReplyMsg x (w2\<lparr>tw_resp_buf := x, tw_resp_id := None\<rparr>) = (r, w3)"
      by (rule prod.exhaust)
    with False run at(1) e buf(1) True obtain j where "r = Some j" "w' = w3\<lparr>tw_resp_id := Some j\<rparr>"
      by (auto simp: show_reply_def split: option.splits)
    with tw_send_cases [OF s] True obtain io2 where w': "w' = w\<lparr>tw_resp_buf := x, tw_io := io2,
        tw_chat := (pre @ [(ReplyMsg, sent)]) @ [(ReplyMsg, x)], tw_resp_id := Some (length (pre @ [(ReplyMsg, sent)]))\<rparr>"
      by (auto simp: w2 at)
    have "reply_covers (replies_of (pre @ [(ReplyMsg, sent)])) (t0 @ sent @ rest)"
      using covers_blank [OF covers_message [OF covers] rest] by simp
    then have "reply_ok (t0 @ sent @ rest @ x) w'"
      using assms(2) buf(4) unfolding reply_ok_def
      by (intro conjI exI [of _ "t0 @ sent @ rest"] exI [of _ "replies_of (pre @ [(ReplyMsg, sent)])"])
         (auto simp: w')
    with assms(1-4) show ?thesis by (auto simp: w' writer_ok_def chat_ok_def)
  qed
qed


text \<open>A status message came below the reply: the next text starts a new one.\<close>

lemma writer_ok_restart:
  assumes "writer_ok t w" and "tw_resp_sealed w"
  shows "writer_ok t (w\<lparr>tw_resp_buf := [], tw_resp_id := None, tw_resp_sealed := False\<rparr>)"
proof -
  from assms have d: "tw_draft_id w = 0" by (auto simp: writer_ok_def chat_ok_def)
  from writer_covers [OF assms(1) d] assms d show ?thesis
    by (auto simp: writer_ok_def reply_ok_def chat_ok_def whole_runes_def)
qed

text \<open>The writer a reply's text is added to.\<close>

definition opened_reply :: "turn_writer \<Rightarrow> turn_writer" where
  "opened_reply w =
     (let w0 = (if tw_resp_sealed w then w\<lparr>tw_resp_buf := [], tw_resp_id := None, tw_resp_sealed := False\<rparr> else w)
      in if tw_resp_id w0 = None then w0\<lparr>tw_status_sealed := True\<rparr> else w0)"

lemma write_response_opened:
  "write_response now fresh x w =
     (if tw_resp_buf (opened_reply w) \<noteq> [] \<and>
         tw_reply_limit (opened_reply w) < length (tw_resp_buf (opened_reply w)) + length x
      then (case flush_draft (opened_reply w) of
              (Some e, w2) \<Rightarrow> (Some e, w2)
            | (None, w2) \<Rightarrow> show_reply now fresh x (w2\<lparr>tw_resp_buf := x, tw_resp_id := None\<rparr>))
      else show_reply now fresh x ((opened_reply w)\<lparr>tw_resp_buf := tw_resp_buf (opened_reply w) @ x\<rparr>))"
  unfolding write_response_def opened_reply_def Let_def ..

lemma opened_reply_ok:
  assumes "writer_ok t w"
  shows "writer_ok t (opened_reply w)" and "\<not> tw_resp_sealed (opened_reply w)"
    and "tw_status_sealed (opened_reply w) \<or> tw_status_id (opened_reply w) = None"
proof -
  define w0 where
    "w0 = (if tw_resp_sealed w then w\<lparr>tw_resp_buf := [], tw_resp_id := None, tw_resp_sealed := False\<rparr> else w)"
  have o: "opened_reply w = (if tw_resp_id w0 = None then w0\<lparr>tw_status_sealed := True\<rparr> else w0)"
    by (simp add: opened_reply_def w0_def Let_def)
  have ok0: "writer_ok t w0" "\<not> tw_resp_sealed w0" using assms writer_ok_restart by (auto simp: w0_def)
  then show "writer_ok t (opened_reply w)" and "\<not> tw_resp_sealed (opened_reply w)"
    and "tw_status_sealed (opened_reply w) \<or> tw_status_id (opened_reply w) = None"
    by (auto simp: o writer_ok_def reply_ok_def chat_ok_def)
qed

lemma write_response_ok:
  assumes "writer_ok t w" and "whole_runes x" and "0 < fresh" and "write_response now fresh x w = (None, w')"
  shows "writer_ok (t @ x) w'"
proof -
  define w1 where "w1 = opened_reply w"
  have ok1: "writer_ok t w1" "\<not> tw_resp_sealed w1" "tw_status_sealed w1 \<or> tw_status_id w1 = None"
    using opened_reply_ok [OF assms(1)] by (simp_all add: w1_def)
  from ok1(1) have split: "tw_split w1" and whole: "whole_runes (tw_resp_buf w1)"
    by (auto simp: writer_ok_def reply_ok_def)
  have run: "(if tw_resp_buf w1 \<noteq> [] \<and> tw_reply_limit w1 < length (tw_resp_buf w1) + length x
         then (case flush_draft w1 of
                 (Some e, w2) \<Rightarrow> (Some e, w2)
               | (None, w2) \<Rightarrow> show_reply now fresh x (w2\<lparr>tw_resp_buf := x, tw_resp_id := None\<rparr>))
         else show_reply now fresh x (w1\<lparr>tw_resp_buf := tw_resp_buf w1 @ x\<rparr>)) = (None, w')"
    using assms(4) unfolding write_response_opened w1_def .
  show ?thesis
  proof (cases "tw_resp_buf w1 \<noteq> [] \<and> tw_reply_limit w1 < length (tw_resp_buf w1) + length x")
    case True
    obtain e w2 where f: "flush_draft w1 = (e, w2)" by (rule prod.exhaust)
    with True run have e: "e = None"
      and r: "show_reply now fresh x (w2\<lparr>tw_resp_buf := x, tw_resp_id := None\<rparr>) = (None, w')"
      by (auto split: option.splits)
    from flush_draft_ok [OF ok1(1)] f e have ok2: "writer_ok t w2" "tw_draft_id w2 = 0" by auto
    have kept: "tw_split w2" "\<not> tw_resp_sealed w2" "tw_status_sealed w2 \<or> tw_status_id w2 = None"
      using flush_draft_frame [OF f] split ok1 by auto
    from show_reply_fresh_ok [OF _ _ _ _ _ _ _ assms(3) r, of t] kept ok2 assms(2) writer_covers [OF ok2]
    show ?thesis by simp
  next
    case False
    with run have r: "show_reply now fresh x (w1\<lparr>tw_resp_buf := tw_resp_buf w1 @ x\<rparr>) = (None, w')" by auto
    show ?thesis
    proof (cases "tw_resp_id w1")
      case None
      with ok1(1) obtain t0 where t: "t = t0 @ tw_resp_buf w1" "reply_covers (replies_of (tw_chat w1)) t0"
        and d: "tw_draft_id w1 \<noteq> 0 \<longrightarrow> tw_drafts w1"
        by (auto simp: writer_ok_def reply_ok_def chat_ok_def)
      show ?thesis
        using show_reply_fresh_ok [OF _ _ _ _ _ _ _ assms(3) r, of t0] None t d split ok1 whole_append [OF whole assms(2)]
        by simp
    next
      case (Some i)
      with ok1 obtain t0 ms sent rest pre where t: "t = t0 @ sent @ rest" "tw_resp_buf w1 = sent @ rest" "whole_runes sent"
        "blank rest" "reply_covers ms t0" "replies_of (tw_chat w1) = ms @ [sent]"
        "tw_chat w1 = pre @ [(ReplyMsg, sent)]" "i = length pre"
        by (auto simp: writer_ok_def reply_ok_def)
      from Some ok1(1) have "tw_draft_id w1 = 0" by (auto simp: writer_ok_def chat_ok_def)
      with show_reply_edit_ok [of "w1\<lparr>tw_resp_buf := tw_resp_buf w1 @ x\<rparr>" pre sent rest x t0 now fresh w']
        Some t split ok1 whole assms(2) r
      show ?thesis by simp
    qed
  qed
qed


subsection \<open>A turn's writes\<close>

text \<open>The writes of a turn, one after the other, up to the first that fails: time, draft id, phase, text.\<close>

fun write_all :: "(time \<times> nat \<times> write_phase \<times> string) list \<Rightarrow> turn_writer \<Rightarrow> write_error option \<times> turn_writer" where
  "write_all [] w = (None, w)"
| "write_all ((now, fresh, phase, x) # ws) w =
     (case turn_write now fresh phase x w of
        (Some e, w1) \<Rightarrow> (Some e, w1)
      | (None, w1) \<Rightarrow> write_all ws w1)"

definition reply_text :: "(time \<times> nat \<times> write_phase \<times> string) list \<Rightarrow> string" where
  "reply_text ws = concat (map (\<lambda>(now, fresh, phase, x). if phase = PhaseResponse then x else []) ws)"

lemma writer_ok_split [dest]: "writer_ok t w \<Longrightarrow> tw_split w"
  by (simp add: writer_ok_def)

lemma turn_write_ok:
  assumes "writer_ok t w" and "0 < fresh" and "phase = PhaseResponse \<longrightarrow> whole_runes x" and "turn_write now fresh phase x w = (None, w')"
  shows "writer_ok (t @ (if phase = PhaseResponse then x else [])) w'"
  using assms writer_ok_split [OF assms(1)]
  by (cases phase) (auto simp: turn_write_def intro: write_status_ok write_response_ok)

lemma write_all_ok:
  "write_all ws w = (None, w') \<Longrightarrow> writer_ok t w \<Longrightarrow>
   (\<forall>(now, fresh, phase, x) \<in> set ws. 0 < fresh \<and> (phase = PhaseResponse \<longrightarrow> whole_runes x)) \<Longrightarrow> writer_ok (t @ reply_text ws) w'"
proof (induction ws w arbitrary: t rule: write_all.induct)
  case (1 w)
  then show ?case by (simp add: reply_text_def)
next
  case (2 now fresh phase x ws w)
  obtain e w1 where s: "turn_write now fresh phase x w = (e, w1)" by (rule prod.exhaust)
  with "2.prems"(1) have e: "e = None" by (auto split: option.splits)
  with turn_write_ok [OF "2.prems"(2) _ _ s [unfolded e]] "2.prems"(3)
  have "writer_ok (t @ (if phase = PhaseResponse then x else [])) w1" by auto
  from "2.IH" [OF s [symmetric] e _ this] s e "2.prems"(1,3) show ?case
    by (simp add: reply_text_def)
qed

lemma new_writer_ok: "writer_ok [] (new_turn_writer True rich wrap streams outcomes)"
  by (auto simp: writer_ok_def reply_ok_def chat_ok_def new_turn_writer_def whole_runes_def intro: covers_nothing)

text \<open>
  When every write of a turn and its closing flush went through, the chat's reply messages hold
  the turn's reply text in order and once, white space between messages apart.
\<close>

theorem reply_reaches_the_chat:
  assumes "\<forall>(now, fresh, phase, x) \<in> set ws. 0 < fresh \<and> (phase = PhaseResponse \<longrightarrow> whole_runes x)"
    and "write_all ws (new_turn_writer True rich wrap streams outcomes) = (None, w)"
    and "flush_draft w = (None, w')"
  shows "reply_covers (replies_of (tw_chat w')) (reply_text ws)"
proof -
  from write_all_ok [OF assms(2) new_writer_ok assms(1)] have "writer_ok (reply_text ws) w" by simp
  with flush_draft_ok assms(3) writer_covers show ?thesis by blast
qed

text \<open>A turn on a channel with drafts: a reply whose draft a tool call flushes, and more reply.\<close>

definition sample_writes :: "(time \<times> nat \<times> write_phase \<times> string) list" where
  "sample_writes =
     [(2000000000, 2, PhaseResponse, ''Hi.''), (3000000000, 3, PhaseStatus, ''ls''),
      (4000000000, 4, PhaseResponse, CHR 10 # ''Ok'')]"

definition sample_writer :: "write_error option \<times> turn_writer" where
  "sample_writer = write_all sample_writes (new_turn_writer True None ('''', '''') True [])"

lemma sample_writes_fine:
  "\<forall>(now, fresh, phase, x) \<in> set sample_writes. 0 < fresh \<and> (phase = PhaseResponse \<longrightarrow> whole_runes x)"
  "\<forall>(now, fresh, phase, x) \<in> set sample_writes. phase = PhaseResponse \<longrightarrow> length x \<le> (case None of None \<Rightarrow> max_message_len | Some n \<Rightarrow> n)"
  by (simp_all add: sample_writes_def whole_runes_def has_suffix_iff max_message_len_def)

lemma sample_writer_run:
  "(fst sample_writer, fst (flush_draft (snd sample_writer)), tw_chat (snd (flush_draft (snd sample_writer)))) =
     (None, None, [(ReplyMsg, ''Hi.''), (StatusMsg, ''ls''), (ReplyMsg, CHR 10 # ''Ok'')])"
  by code_simp

lemma sample_writer_pair:
  "write_all sample_writes (new_turn_writer True None ('''', '''') True []) =
     (None, snd sample_writer)"
  "flush_draft (snd sample_writer) = (None, snd (flush_draft (snd sample_writer)))"
  using sample_writer_run by (simp_all add: sample_writer_def prod_eq_iff)

theorem reply_reaches_the_chat_witness:
  "reply_covers [''Hi.'', CHR 10 # ''Ok''] (''Hi.'' @ [CHR 10] @ ''Ok'')"
  using reply_reaches_the_chat [OF sample_writes_fine(1) sample_writer_pair] sample_writer_run
  by (simp add: replies_of_def reply_text_def sample_writes_def)

subsection \<open>Order in the chat\<close>

lemma tw_send_appends: "tw_send k t w = (r, w') \<Longrightarrow> \<exists>more. tw_chat w' = tw_chat w @ more"
  by (drule tw_send_cases) auto

lemma flush_draft_appends: "flush_draft w = (r, w') \<Longrightarrow> \<exists>more. tw_chat w' = tw_chat w @ more"
  by (auto simp: flush_draft_def split: if_splits prod.splits option.splits dest!: tw_send_appends)

lemma stream_draft_chat: "stream_draft now fresh c w = (d, w') \<Longrightarrow> tw_chat w' = tw_chat w \<and> tw_resp_id w' = tw_resp_id w"
  by (auto simp: stream_draft_def Let_def split: if_splits prod.splits dest!: tw_next_io_frame)

lemma tw_edit_last:
  "tw_edit (length pre) c w = (x, w') \<Longrightarrow> tw_chat w = pre @ [m] \<Longrightarrow> \<exists>m'. tw_chat w' = pre @ [m']"
  by (drule tw_edit_cases) (auto split: if_splits)


definition grows :: "turn_writer \<Rightarrow> turn_writer \<Rightarrow> bool" where
  "grows w w' = (\<exists>more. tw_chat w' = butlast (tw_chat w) @ more)"

lemma grows_append: "\<exists>more. tw_chat w' = tw_chat w @ more \<Longrightarrow> grows w w'"
proof -
  assume "\<exists>more. tw_chat w' = tw_chat w @ more"
  then obtain more where "tw_chat w' = tw_chat w @ more" ..
  moreover have "tw_chat w = butlast (tw_chat w) @ (if tw_chat w = [] then [] else [last (tw_chat w)])" by simp
  ultimately show ?thesis unfolding grows_def by (metis append.assoc)
qed

lemma show_reply_appends:
  assumes "tw_resp_id w = None" and "show_reply now fresh x w = (r, w')"
  shows "\<exists>more. tw_chat w' = tw_chat w @ more"
  using assms stream_draft_chat
  by (auto simp: show_reply_def Let_def split: if_splits prod.splits option.splits bool.splits
           dest!: tw_send_appends stream_draft_chat)

lemma show_reply_edits_last:
  assumes "tw_resp_id w = Some (length pre)" and "tw_chat w = pre @ [m]" and "show_reply now fresh x w = (r, w')"
  shows "\<exists>more. tw_chat w' = pre @ more"
proof (cases "trim_space (tw_resp_buf w) = []")
  case True
  with assms show ?thesis by (simp add: show_reply_def)
next
  case False
  obtain o1 w2 where e: "tw_edit (length pre) (tw_resp_buf w) w = (o1, w2)" by (rule prod.exhaust)
  from tw_edit_last [OF e assms(2)] obtain m' where m': "tw_chat w2 = pre @ [m']" ..
  show ?thesis
  proof (cases "call_failed o1")
    case nf: False
    with False assms(1,3) e m' show ?thesis by (simp add: show_reply_def)
  next
    case True
    obtain r2 w3 where s: "tw_send ReplyMsg x (w2\<lparr>tw_resp_buf := x, tw_resp_id := None\<rparr>) = (r2, w3)" by (rule prod.exhaust)
    from tw_send_appends [OF s] m' obtain more where "tw_chat w3 = pre @ [m'] @ more" by auto
    with False assms(1,3) e True s show ?thesis by (auto simp: show_reply_def split: option.splits)
  qed
qed

lemma write_response_grows:
  assumes "writer_ok t w" and "write_response now fresh x w = (r, w')"
  shows "grows w w'"
proof -
  define w1 where "w1 = opened_reply w"
  have chat1: "tw_chat w1 = tw_chat w" by (simp add: w1_def opened_reply_def Let_def)
  have run: "(if tw_resp_buf w1 \<noteq> [] \<and> tw_reply_limit w1 < length (tw_resp_buf w1) + length x
         then (case flush_draft w1 of
                 (Some e, w2) \<Rightarrow> (Some e, w2)
               | (None, w2) \<Rightarrow> show_reply now fresh x (w2\<lparr>tw_resp_buf := x, tw_resp_id := None\<rparr>))
         else show_reply now fresh x (w1\<lparr>tw_resp_buf := tw_resp_buf w1 @ x\<rparr>)) = (r, w')"
    using assms(2) unfolding write_response_opened w1_def .
  show ?thesis
  proof (cases "tw_resp_buf w1 \<noteq> [] \<and> tw_reply_limit w1 < length (tw_resp_buf w1) + length x")
    case True
    obtain e w2 where f: "flush_draft w1 = (e, w2)" by (rule prod.exhaust)
    from flush_draft_appends [OF f] chat1 obtain more where m: "tw_chat w2 = tw_chat w @ more" by auto
    show ?thesis
    proof (rule grows_append, cases e)
      case None
      with True run f have "show_reply now fresh x (w2\<lparr>tw_resp_buf := x, tw_resp_id := None\<rparr>) = (r, w')" by simp
      from show_reply_appends [OF _ this] m show "\<exists>more. tw_chat w' = tw_chat w @ more" by auto
    next
      case (Some e')
      with True run f m show "\<exists>more. tw_chat w' = tw_chat w @ more" by auto
    qed
  next
    case False
    with run have r: "show_reply now fresh x (w1\<lparr>tw_resp_buf := tw_resp_buf w1 @ x\<rparr>) = (r, w')" by auto
    show ?thesis
    proof (cases "tw_resp_id w1")
      case None
      from show_reply_appends [OF _ r] None chat1 show ?thesis by (intro grows_append) simp
    next
      case (Some i)
      then have "w1 = w" "\<not> tw_resp_sealed w" by (auto simp: w1_def opened_reply_def Let_def split: if_splits)
      with assms(1) Some obtain pre m where at: "tw_chat w = pre @ [m]" "i = length pre"
        by (auto simp: writer_ok_def reply_ok_def)
      from show_reply_edits_last [OF _ _ r, of pre m] Some \<open>w1 = w\<close> at have "\<exists>more. tw_chat w' = pre @ more" by simp
      with at show ?thesis by (simp add: grows_def)
    qed
  qed
qed


lemma send_status_appends: "\<exists>more. tw_chat (send_status c w) = tw_chat w @ more"
  by (auto simp: send_status_def split: prod.splits option.splits dest!: tw_send_appends)

lemma replace_status_appends: "\<exists>more. tw_chat (replace_status c w) = tw_chat w @ more"
  by (auto simp: replace_status_def Let_def split: prod.splits option.splits dest!: tw_send_appends)

text \<open>The status message that a write edits is the last of the chat: a draft's reply seals it first.\<close>

lemma status_target:
  assumes "writer_ok t w" and "flush_draft w = (r, w0)" and "tw_status_id w0 = Some i" and "\<not> tw_status_sealed w0"
  shows "tw_chat w0 = tw_chat w \<and> (\<exists>pre m. tw_chat w = pre @ [m] \<and> i = length pre)"
proof -
  from flush_draft_frame [OF assms(2)] assms(3,4) have st: "tw_status_id w = Some i" "\<not> tw_status_sealed w" by auto
  with assms(1) have "tw_draft_id w = 0" by (auto simp: writer_ok_def chat_ok_def)
  with assms(2) have "w0 = w" by (simp add: flush_draft_def)
  with st assms(1) show ?thesis by (auto simp: writer_ok_def chat_ok_def)
qed

lemma put_status_appends:
  "tw_status_id w = None \<Longrightarrow> \<exists>more. tw_chat (put_status content again w) = tw_chat w @ more"
  using send_status_appends [of content w] by (simp add: put_status_def)

lemma put_status_edits_last:
  assumes "tw_status_id w = Some (length pre)" and "tw_chat w = pre @ [m]"
  shows "\<exists>more. tw_chat (put_status content again w) = pre @ more"
proof -
  obtain x w1 where ed: "tw_edit (length pre) (truncate_for_telegram content) w = (x, w1)" by (rule prod.exhaust)
  from tw_edit_last [OF ed assms(2)] obtain m' where "tw_chat w1 = pre @ [m']" ..
  with replace_status_appends [of again w1] ed assms(1) show ?thesis by (auto simp: put_status_def)
qed

lemma write_status_grows:
  assumes "writer_ok t w" and "write_status c w = (r, w')"
  shows "grows w w'"
proof -
  obtain e w0 where f: "flush_draft w = (e, w0)" by (rule prod.exhaust)
  from flush_draft_appends [OF f] obtain more where m0: "tw_chat w0 = tw_chat w @ more" ..
  show ?thesis
  proof (cases e)
    case (Some e')
    with assms(2) f m0 show ?thesis by (intro grows_append) (auto simp: write_status_def)
  next
    case None
    with f have f0: "flush_draft w = (None, w0)" by simp
    from write_status_put [OF f0 assms(2)] obtain content again w3 where
      w': "w' = put_status content again w3" and chat: "tw_chat w3 = tw_chat w0"
      and id3: "tw_status_id w3 = None \<or> tw_status_id w3 = tw_status_id w0 \<and> \<not> tw_status_sealed w0"
      by metis
    show ?thesis
    proof (cases "tw_status_id w3")
      case None
      from put_status_appends [OF None, of content again] chat m0 w' show ?thesis by (intro grows_append) auto
    next
      case (Some i)
      with id3 have "tw_status_id w0 = Some i" "\<not> tw_status_sealed w0" by auto
      from status_target [OF assms(1) f this] obtain pre m where
        "tw_chat w0 = pre @ [m]" "tw_chat w = pre @ [m]" "i = length pre" by auto
      with put_status_edits_last [of w3 pre m content again] Some chat w' show ?thesis by (simp add: grows_def)
    qed
  qed
qed

text \<open>
  C17. A turn writer only ever edits the last of its own messages. In a channel that splits status and
  replies, after any writes of this turn that have all succeeded (with draft ids that are not zero, replies
  cut at characters), one more write, of a status or of a reply, leaves all of this writer's messages
  above its last one as they are and adds new ones below, whether it succeeds or fails. The chat meant
  here is the list of messages this writer has sent: prompts and notices that others put into the same
  chat are not in it, and may stand below. Nothing is claimed of a channel that does not split, nor of
  the writes that follow a failed one.
\<close>

theorem only_the_last_message_changes:
  assumes "\<forall>(now, fresh, phase, x) \<in> set ws. 0 < fresh \<and> (phase = PhaseResponse \<longrightarrow> whole_runes x)"
    and "write_all ws (new_turn_writer True rich wrap streams outcomes) = (None, w)"
    and "turn_write now fresh phase x w = (r, w')"
  shows "\<exists>below. tw_chat w' = butlast (tw_chat w) @ below"
proof -
  from write_all_ok [OF assms(2) new_writer_ok assms(1)] have ok: "writer_ok (reply_text ws) w" by simp
  from writer_ok_split [OF ok] assms(3) have "grows w w'"
    by (cases phase) (auto simp: turn_write_def intro: write_status_grows [OF ok] write_response_grows [OF ok])
  then show ?thesis by (simp add: grows_def)
qed


theorem only_the_last_message_changes_witness:
  "\<exists>below. tw_chat (snd (turn_write 7000000000 7 PhaseResponse ''!'' (snd sample_writer))) =
     [(ReplyMsg, ''Hi.'')] @ below"
proof -
  have "butlast (tw_chat (snd sample_writer)) = [(ReplyMsg, ''Hi.'')]"
    by code_simp
  with only_the_last_message_changes [OF sample_writes_fine(1) sample_writer_pair(1) surjective_pairing,
      of 7000000000 7 PhaseResponse "''!''"]
  show ?thesis by simp
qed

subsection \<open>The length of messages\<close>

lemma truncated_length: "length (truncate_for_telegram s) \<le> 3914"
  by (simp add: truncate_for_telegram_def telegram_truncate_len_def truncation_mark_def)

definition fits :: "nat \<Rightarrow> nat \<Rightarrow> turn_writer \<Rightarrow> bool" where
  "fits lim n w =
     (tw_split w \<and> (\<forall>m \<in> set (tw_chat w). length (snd m) \<le> n) \<and> tw_reply_limit w = lim \<and> length (tw_resp_buf w) \<le> lim \<and>
      lim \<le> n \<and> 3914 \<le> n)"

lemma fits_send: "tw_send k t w = (r, w') \<Longrightarrow> fits lim n w \<Longrightarrow> length t \<le> n \<Longrightarrow> fits lim n w'"
  by (drule tw_send_cases) (auto simp: fits_def)

lemma fits_edit:
  assumes "tw_edit i t w = (r, w')" and "fits lim n w" and "length t \<le> n"
  shows "fits lim n w'"
proof -
  have "\<forall>m \<in> set ((tw_chat w)[i := (fst (tw_chat w ! i), t)]). length (snd m) \<le> n"
    using set_update_subset_insert [of "tw_chat w" i "(fst (tw_chat w ! i), t)"] assms(2,3)
    by (fastforce simp: fits_def)
  with tw_edit_cases [OF assms(1)] assms(2) show ?thesis by (cases "call_failed r") (auto simp: fits_def)
qed

lemma fits_status_fields [simp]:
  "fits lim n (w\<lparr>tw_status_buf := a\<rparr>) = fits lim n w" "fits lim n (w\<lparr>tw_status_id := i\<rparr>) = fits lim n w"
  "fits lim n (w\<lparr>tw_status_sealed := b\<rparr>) = fits lim n w" "fits lim n (w\<lparr>tw_wrap_open := b\<rparr>) = fits lim n w"
  "fits lim n (w\<lparr>tw_resp_sealed := b\<rparr>) = fits lim n w" "fits lim n (w\<lparr>tw_resp_id := i\<rparr>) = fits lim n w"
  "fits lim n (w\<lparr>tw_draft_id := d\<rparr>) = fits lim n w" "fits lim n (w\<lparr>tw_drafts := b\<rparr>) = fits lim n w"
  by (simp_all add: fits_def)

lemma fits_buf: "fits lim n w \<Longrightarrow> length x \<le> lim \<Longrightarrow> fits lim n (w\<lparr>tw_resp_buf := x\<rparr>)"
  by (simp add: fits_def)

lemma fits_lengths:
  "fits lim n w \<Longrightarrow> length (tw_resp_buf w) \<le> n" "fits lim n w \<Longrightarrow> length (truncate_for_telegram s) \<le> n"
  using truncated_length [of s] by (simp_all add: fits_def)

lemma fits_flush: "flush_draft w = (r, w') \<Longrightarrow> fits lim n w \<Longrightarrow> fits lim n w'"
  by (auto simp: flush_draft_def fits_lengths split: if_splits prod.splits option.splits dest!: fits_send)


lemma fits_stream: "stream_draft now fresh c w = (d, w') \<Longrightarrow> fits lim n w \<Longrightarrow> fits lim n w'"
  by (auto simp: stream_draft_def Let_def fits_def split: if_splits prod.splits dest!: tw_next_io_frame)

lemma fits_put_status:
  assumes "fits lim n w"
  shows "fits lim n (put_status content again w)"
proof -
  have send: "fits lim n (send_status c v)" "fits lim n (replace_status c v)" if "fits lim n v" for c v
    using that by (auto simp: send_status_def replace_status_def Let_def fits_lengths split: prod.splits option.splits
        dest!: fits_send)
  from assms send show ?thesis
    by (auto simp: put_status_def fits_lengths split: option.splits prod.splits dest!: fits_edit)
qed


lemma fits_write_status:
  assumes "fits lim n w" and "write_status c w = (r, w')"
  shows "fits lim n w'"
proof -
  obtain e w0 where f: "flush_draft w = (e, w0)" by (rule prod.exhaust)
  from fits_flush [OF this assms(1)] have "fits lim n w0" .
  with assms(2) f fits_put_status show ?thesis
    unfolding write_status_def Let_def put_status_def [symmetric]
    by (auto split: option.splits simp: put_status_def [symmetric])
qed

lemma fits_show_reply:
  assumes "fits lim n w" and "length x \<le> lim" and "show_reply now fresh x w = (r, w')"
  shows "fits lim n w'"
proof -
  have "length x \<le> n" using assms(1,2) by (simp add: fits_def)
  have send: "fits lim n w2" if "tw_send ReplyMsg c w1 = (r1, w2)" "fits lim n w1" "length c \<le> n" for c w1 r1 w2
    using fits_send that .
  have edit: "fits lim n w2" if "tw_edit i c w1 = (r1, w2)" "fits lim n w1" "length c \<le> n" for i c w1 r1 w2
    using fits_edit that .
  obtain d w1 where d: "(if tw_drafts w \<and> tw_resp_id w = None then stream_draft now fresh (tw_resp_buf w) w
      else (False, w)) = (d, w1)" by (rule prod.exhaust)
  with assms(1) have w1: "fits lim n w1" by (auto dest: fits_stream split: if_splits)
  note le = fits_lengths(1) [OF assms(1)]
  show ?thesis
  proof (cases "trim_space (tw_resp_buf w) = [] \<or> d")
    case True
    with assms d w1 show ?thesis by (cases "trim_space (tw_resp_buf w) = []") (auto simp: show_reply_def)
  next
    case False
    show ?thesis
    proof (cases "tw_resp_id w1")
      case None
      obtain r2 w2 where "tw_send ReplyMsg (tw_resp_buf w) w1 = (r2, w2)" by (rule prod.exhaust)
      with send [OF this w1 le] False None d assms(3) show ?thesis
        by (auto simp: show_reply_def Let_def split: option.splits)
    next
      case (Some i)
      obtain o2 w2 where e: "tw_edit i (tw_resp_buf w) w1 = (o2, w2)" by (rule prod.exhaust)
      note w2 = edit [OF e w1 le]
      obtain r3 w3 where s: "tw_send ReplyMsg x (w2\<lparr>tw_resp_buf := x, tw_resp_id := None\<rparr>) = (r3, w3)"
        by (rule prod.exhaust)
      have "fits lim n w3" using send [OF s] fits_buf [OF w2 assms(2)] \<open>length x \<le> n\<close> by simp
      with w2 e s False Some d assms(3) show ?thesis
        by (auto simp: show_reply_def Let_def split: option.splits if_splits)
    qed
  qed
qed

lemma fits_write_response:
  assumes "fits lim n w" and "length x \<le> lim" and "write_response now fresh x w = (r, w')"
  shows "fits lim n w'"
proof -
  define w1 where "w1 = opened_reply w"
  have ok1: "fits lim n w1" using assms(1) by (simp add: w1_def opened_reply_def Let_def fits_def)
  then have lim: "tw_reply_limit w1 = lim" by (simp add: fits_def)
  have run: "(if tw_resp_buf w1 \<noteq> [] \<and> tw_reply_limit w1 < length (tw_resp_buf w1) + length x
         then (case flush_draft w1 of
                 (Some e, w2) \<Rightarrow> (Some e, w2)
               | (None, w2) \<Rightarrow> show_reply now fresh x (w2\<lparr>tw_resp_buf := x, tw_resp_id := None\<rparr>))
         else show_reply now fresh x (w1\<lparr>tw_resp_buf := tw_resp_buf w1 @ x\<rparr>)) = (r, w')"
    using assms(3) unfolding write_response_opened w1_def .
  show ?thesis
  proof (cases "tw_resp_buf w1 \<noteq> [] \<and> tw_reply_limit w1 < length (tw_resp_buf w1) + length x")
    case True
    obtain e w2 where f: "flush_draft w1 = (e, w2)" by (rule prod.exhaust)
    note w2 = fits_flush [OF f ok1]
    from fits_buf [OF w2 assms(2)] have "fits lim n (w2\<lparr>tw_resp_buf := x, tw_resp_id := None\<rparr>)" by simp
    from fits_show_reply [OF this assms(2)] True run f w2 show ?thesis by (auto split: option.splits)
  next
    case False
    with lim assms(2) have "length (tw_resp_buf w1 @ x) \<le> lim" by auto
    from fits_show_reply [OF fits_buf [OF ok1 this] assms(2)] False run show ?thesis by auto
  qed
qed

lemma fits_turn_write:
  assumes "fits lim n w" and "phase = PhaseResponse \<longrightarrow> length x \<le> lim"
    and "turn_write now fresh phase x w = (r, w')"
  shows "fits lim n w'"
proof -
  from assms(1) have "tw_split w" by (simp add: fits_def)
  with assms show ?thesis by (cases phase) (auto simp: turn_write_def intro: fits_write_status fits_write_response)
qed

lemma fits_write_all:
  "write_all ws w = (r, w') \<Longrightarrow> fits lim n w \<Longrightarrow>
   (\<forall>(now, fresh, phase, x) \<in> set ws. phase = PhaseResponse \<longrightarrow> length x \<le> lim) \<Longrightarrow> fits lim n w'"
proof (induction ws w rule: write_all.induct)
  case (1 w)
  then show ?case by simp
next
  case (2 now fresh phase x ws w)
  obtain e w1 where s: "turn_write now fresh phase x w = (e, w1)" by (rule prod.exhaust)
  have "fits lim n w1" using fits_turn_write [OF "2.prems"(2) _ s] "2.prems"(3) by simp
  with "2.IH" [OF s [symmetric]] s "2.prems"(1,3) show ?case by (cases e) auto
qed

text \<open>
  When no single piece of reply text is longer than the channel's reply limit, every message a turn
  sends on a splitting channel is at most the longer of that limit and 3914 bytes, so within
  Telegram's 4096 on a channel without a limit of its own. This holds also for a turn that failed.
\<close>

theorem every_message_fits:
  assumes "\<forall>(now, fresh, phase, x) \<in> set ws. phase = PhaseResponse \<longrightarrow>
             length x \<le> (case rich of None \<Rightarrow> max_message_len | Some n \<Rightarrow> n)"
    and "write_all ws (new_turn_writer True rich wrap streams outcomes) = (r, w)"
    and "flush_draft w = (r', w')" and "m \<in> set (tw_chat w')"
  shows "length (snd m) \<le> max 3914 (case rich of None \<Rightarrow> max_message_len | Some n \<Rightarrow> n)"
proof -
  let ?lim = "case rich of None \<Rightarrow> max_message_len | Some n \<Rightarrow> n"
  have "fits ?lim (max 3914 ?lim) (new_turn_writer True rich wrap streams outcomes)"
    by (simp add: fits_def new_turn_writer_def)
  from fits_flush [OF assms(3) fits_write_all [OF assms(2) this assms(1)]] assms(4) show ?thesis
    by (simp add: fits_def)
qed


theorem every_message_fits_witness:
  "length (snd (ReplyMsg, ''Hi.'')) \<le> max 3914 max_message_len"
  using every_message_fits [OF sample_writes_fine(2) sample_writer_pair, of "(ReplyMsg, ''Hi.'')"]
    sample_writer_run
  by simp

subsection \<open>A status longer than the cap\<close>

text \<open>The cap is applied after the closing tag was added, and cuts it off.\<close>

lemma long_status_loses_its_closing_tag:
  "tw_chat (snd (turn_write 0 1 PhaseStatus (replicate 3900 (CHR ''x''))
      (new_turn_writer True None (''<blockquote>'', ''</blockquote>'') False []))) =
   [(StatusMsg, ''<blockquote>'' @ replicate 3888 (CHR ''x'') @ truncation_mark)]"
  by (simp add: turn_write_def new_turn_writer_def write_status_def flush_draft_def Let_def status_suffix_def
      send_status_def tw_send_def tw_next_io_def truncate_for_telegram_def telegram_truncate_len_def)

end
