(* ===== verification/StreamResponse.thy ===== *)
theory StreamResponse
  imports TurnText TurnWriter
begin

text \<open>
  How the CLI's output becomes the turn's output: \<open>streamResponse\<close> in \<open>agent/handle.go\<close>, with the
  event types of \<open>claudecli/events.go\<close>. The input is the CLI's lines as \<open>encoding/json\<close> reads them;
  \<open>None\<close> stands for an event whose own fields could not be read. The text of a write is timed by
  \<open>clock\<close> and, when it starts a draft, named by \<open>ids\<close>, both counted by writes.
\<close>

subsection \<open>Events\<close>

record system_event =
  sy_subtype :: string
  sy_session :: string
  sy_content :: string
  sy_level :: string
  sy_compact :: "compact_metadata option"
  sy_servers :: "(string \<times> string) list"
  sy_server_errors :: "(string \<times> string) list"
  sy_attempt :: int
  sy_max_retries :: int
  sy_retry_delay :: int
  sy_retry_error :: string
  sy_tool :: string

record message_usage =
  mu_input :: int
  mu_cache_creation :: int
  mu_cache_read :: int

definition context_tokens :: "message_usage \<Rightarrow> int" where
  "context_tokens u = wrap64 (mu_input u + mu_cache_creation u + mu_cache_read u)"

record stream_delta =
  sd_type :: string
  sd_text :: string
  sd_thinking :: string
  sd_partial :: string

record assistant_event =
  as_content :: "content_block list"
  as_error :: string
  as_parent :: "string option"

text \<open>\<open>rs_seconds\<close> and \<open>rs_cost\<close> are the duration and the cost as they print.\<close>

record result_event =
  rs_is_error :: bool
  rs_subtype :: string
  rs_result :: string
  rs_seconds :: string
  rs_turns :: int
  rs_session :: string
  rs_cost :: string
  rs_denials :: "string list"
  rs_models :: "string list"

datatype cli_event =
    EvSystem "system_event option"
  | EvMessageStart "message_usage option"
  | EvMessageStop
  | EvBlockStart "content_block option"
  | EvBlockDelta "stream_delta option"
  | EvBlockStop
  | EvAssistant "assistant_event option"
  | EvUser "string option"
  | EvRateLimit "int option"
  | EvResult "result_event option"
  | EvOther

text \<open>
  A line: empty or no JSON, an event of its own, or an event wrapped in a \<open>stream_event\<close>, which names
  the subagent it came from; \<open>None\<close> for a wrapper or a wrapped event that could not be read.
\<close>

datatype cli_line =
    LineSkipped
  | LineEvent cli_event
  | LineStream "string option" "cli_event option"

subsection \<open>The state of the reading\<close>

record stream_state =
  ss_session :: string
  ss_block_type :: string
  ss_streaming :: bool
  ss_context :: int
  ss_tool_block :: content_block
  ss_tool_input :: string
  ss_thinking_started :: bool
  ss_held :: string
  ss_had_text :: bool
  ss_denied :: "string list"
  ss_context_reports :: "int list"

definition no_block :: content_block where
  "no_block = \<lparr>cb_type = [], cb_text = [], cb_name = [], cb_input = [], cb_thinking = []\<rparr>"

definition stream_start :: stream_state where
  "stream_start =
     \<lparr>ss_session = [], ss_block_type = [], ss_streaming = False, ss_context = 0, ss_tool_block = no_block,
      ss_tool_input = [], ss_thinking_started = False, ss_held = [], ss_had_text = False, ss_denied = [],
      ss_context_reports = []\<rparr>"

record stream_config =
  sc_reader :: json_reader
  sc_allowed :: "tool list"
  sc_max_turns :: int
  sc_records_context :: bool

datatype stream_error =
    StreamAuthRequired
  | StreamRateLimited
  | StreamTurnError string string
  | StreamDenied "string list" string
  | StreamWrite write_error
  | StreamScanner

type_synonym turn_write_text = "write_phase \<times> string"

text \<open>What an event leads to: writes and going on, or the end of the turn with a session and an error.\<close>

datatype stream_step =
    Goes "turn_write_text list" stream_state
  | Stops string stream_error stream_state

subsection \<open>One function per kind of event\<close>

definition on_system :: "system_event \<Rightarrow> stream_state \<Rightarrow> stream_step" where
  "on_system sys st =
     (if sy_subtype sys = ''init'' then
        Goes [(PhaseStatus, [CHR 0xE2, CHR 0x9C, CHR 0x85] @ '' Session ready, generating response...'' @ [CHR 0x0A] @
                 format_mcp_problems (sy_servers sys) (sy_server_errors sys))]
          (if sy_session sys \<noteq> [] then st\<lparr>ss_session := sy_session sys\<rparr> else st)
      else if sy_subtype sys = ''informational'' then
        (if sy_level sys = ''info'' \<or> format_notice (sy_content sys) = [] then Goes [] st
         else Goes [(PhaseStatus, format_notice (sy_content sys))] st)
      else if sy_subtype sys = ''api_retry'' then
        Goes [(PhaseStatus, format_api_retry (sy_retry_error sys) (sy_retry_delay sys) (sy_attempt sys) (sy_max_retries sys))] st
      else if sy_subtype sys = ''permission_denied'' then
        Goes [(PhaseStatus, [CHR 0x0A, CHR 0xF0, CHR 0x9F, CHR 0x9A, CHR 0xAB] @ '' '' @ sy_tool sys @ '' call was refused'' @ newline_text)] st
      else if sy_subtype sys = ''compact_boundary'' then
        Goes [(PhaseStatus, format_compact_boundary (sy_compact sys))]
          (case sy_compact sys of None \<Rightarrow> st | Some m \<Rightarrow> st\<lparr>ss_context := cm_post_tokens m\<rparr>)
      else Goes [] st)"

definition on_message_start :: "message_usage option \<Rightarrow> stream_state \<Rightarrow> stream_step" where
  "on_message_start u st =
     Goes [] ((case u of None \<Rightarrow> st | Some m \<Rightarrow> st\<lparr>ss_context := context_tokens m\<rparr>)\<lparr>ss_streaming := True\<rparr>)"

definition on_block_start :: "content_block \<Rightarrow> stream_state \<Rightarrow> stream_step" where
  "on_block_start b st =
     (let st1 = st\<lparr>ss_block_type := cb_type b\<rparr>
      in if cb_type b = content_text then
           Goes (if ss_had_text st then [(PhaseResponse, newline_text @ newline_text)] else []) st1
         else if cb_type b = content_thinking then Goes [] (st1\<lparr>ss_thinking_started := False, ss_held := []\<rparr>)
         else if cb_type b = content_tool_use then Goes [] (st1\<lparr>ss_tool_block := b, ss_tool_input := []\<rparr>)
         else Goes [] st1)"

definition on_delta :: "stream_delta \<Rightarrow> stream_state \<Rightarrow> stream_step" where
  "on_delta d st =
     (if sd_type d = ''text_delta'' then Goes [(PhaseResponse, sd_text d)] st
      else if sd_type d = ''thinking_delta'' then
        (let t = ss_held st @ sd_thinking d; visible = trim_right_newlines t;
             st1 = st\<lparr>ss_held := drop (length visible) t\<rparr>
         in if visible = [] then Goes [] st1
            else if \<not> ss_thinking_started st1
            then Goes [(PhaseThinking, icon_thinking @ visible)] (st1\<lparr>ss_thinking_started := True\<rparr>)
            else Goes [(PhaseThinking, visible)] st1)
      else if sd_type d = ''input_json_delta'' then Goes [] (st\<lparr>ss_tool_input := ss_tool_input st @ sd_partial d\<rparr>)
      else Goes [] st)"

definition on_block_stop :: "json_reader \<Rightarrow> stream_state \<Rightarrow> stream_step" where
  "on_block_stop jr st =
     (if ss_block_type st = content_tool_use then
        (let b = (if ss_tool_input st \<noteq> [] then (ss_tool_block st)\<lparr>cb_input := ss_tool_input st\<rparr> else ss_tool_block st)
         in Goes [(PhaseStatus, format_tool_use jr b)] (st\<lparr>ss_block_type := []\<rparr>))
      else if ss_block_type st = content_text then Goes [] (st\<lparr>ss_had_text := True, ss_block_type := []\<rparr>)
      else if ss_block_type st = content_thinking \<and> ss_thinking_started st then
        Goes [(PhaseStatus, newline_text)] (st\<lparr>ss_block_type := []\<rparr>)
      else Goes [] (st\<lparr>ss_block_type := []\<rparr>))"

definition subagent_line :: "json_reader \<Rightarrow> content_block \<Rightarrow> string" where
  "subagent_line jr b =
     (if cb_type b = content_tool_use then format_tool_use jr b
      else if cb_type b = content_text then format_subagent_text (cb_text b)
      else [])"

text \<open>
  The blocks of a message that was not streamed: \<open>had\<close> tells whether reply text came before. What
  remains is the writes and whether a text was among them.
\<close>

fun whole_message :: "json_reader \<Rightarrow> bool \<Rightarrow> content_block list \<Rightarrow> turn_write_text list \<times> bool" where
  "whole_message jr had [] = ([], False)"
| "whole_message jr had (b # bs) =
     (let t = format_block jr b
      in if t = [] then whole_message jr had bs
         else if cb_type b = content_text then
           (case whole_message jr True bs of
              (ws, _) \<Rightarrow> ((PhaseResponse, if had then newline_text @ newline_text @ t else t) # ws, True))
         else (case whole_message jr had bs of
                 (ws, wrote) \<Rightarrow>
                   ((if cb_type b = content_thinking then PhaseThinking else PhaseStatus, t) # ws, wrote)))"

definition on_assistant :: "json_reader \<Rightarrow> assistant_event \<Rightarrow> stream_state \<Rightarrow> stream_step" where
  "on_assistant jr m st =
     (if as_error m = ''authentication_failed'' then Stops (ss_session st) StreamAuthRequired st
      else if as_parent m \<noteq> None then
        Goes (map (\<lambda>l. (PhaseStatus, l)) (filter (\<lambda>l. l \<noteq> []) (map (subagent_line jr) (as_content m)))) st
      else if ss_streaming st \<and> as_error m = [] then Goes [] st
      else (case whole_message jr (ss_had_text st) (as_content m) of
              (ws, wrote) \<Rightarrow> Goes ws (if wrote then st\<lparr>ss_had_text := True\<rparr> else st)))"

definition on_user :: "json_reader \<Rightarrow> string \<Rightarrow> stream_state \<Rightarrow> stream_step" where
  "on_user jr raw st =
     (if raw = [] \<or> raw = ''null'' then Goes [] st else Goes [(PhaseStatus, format_tool_result jr raw)] st)"

definition on_rate_limit :: "int \<Rightarrow> stream_state \<Rightarrow> stream_step" where
  "on_rate_limit ms st =
     (if ms \<le> 0 then Goes [] st
      else Goes [(PhaseStatus, [CHR 0xE2, CHR 0x8F, CHR 0xB3] @ '' Rate limited '' @ [CHR 0xE2, CHR 0x80, CHR 0x94] @ '' retrying in '' @ dec_int (ms div 1000) @ ''s...'' @ newline_text)] st)"

definition result_stats :: "stream_config \<Rightarrow> result_event \<Rightarrow> string" where
  "result_stats cfg r =
     newline_text @ [CHR 0xF0, CHR 0x9F, CHR 0x93, CHR 0x8A] @ '' '' @ dec_int (rs_turns r) @ '' turns | '' @ rs_seconds r @ ''s | $'' @ rs_cost r @
     (if rs_models r = [] then [] else '' '' @ model_summary (rs_models r)) @
     (if sc_max_turns cfg \<le> rs_turns r
      then newline_text @ icon_warning @ ''Turn limit reached ('' @ dec_int (rs_turns r) @ ''/'' @ dec_int (sc_max_turns cfg) @
           ''). Send another message to continue.'' else []) @
     newline_text"

definition on_result :: "stream_config \<Rightarrow> result_event \<Rightarrow> stream_state \<Rightarrow> stream_step" where
  "on_result cfg r st =
     (let st1 = (if 0 < ss_context st \<and> sc_records_context cfg
                 then st\<lparr>ss_context_reports := ss_context_reports st @ [ss_context st]\<rparr> else st);
          named = (if ss_session st1 = [] then rs_session r else ss_session st1)
      in if rs_is_error r then
           (if is_rate_limit_error (rs_result r) then Stops (ss_session st1) StreamRateLimited st1
            else Stops [] (StreamTurnError (friendly_error_message (rs_result r) (rs_subtype r)) named) st1)
         else
           (let st2 = st1\<lparr>ss_session := named\<rparr>;
                st3 = (if sc_allowed cfg = [] then st2
                       else st2\<lparr>ss_denied :=
                              ss_denied st2 @ filter (\<lambda>t. t \<notin> set (sc_allowed cfg)) (rs_denials r)\<rparr>)
            in Goes [(PhaseStatus, result_stats cfg r)] st3))"

definition on_event :: "stream_config \<Rightarrow> cli_event \<Rightarrow> stream_state \<Rightarrow> stream_step" where
  "on_event cfg ev st =
     (case ev of
        EvSystem (Some sys) \<Rightarrow> on_system sys st
      | EvMessageStart u \<Rightarrow> on_message_start u st
      | EvMessageStop \<Rightarrow> Goes [] (st\<lparr>ss_streaming := False\<rparr>)
      | EvBlockStart (Some b) \<Rightarrow> on_block_start b st
      | EvBlockDelta (Some d) \<Rightarrow> on_delta d st
      | EvBlockStop \<Rightarrow> on_block_stop (sc_reader cfg) st
      | EvAssistant (Some m) \<Rightarrow> on_assistant (sc_reader cfg) m st
      | EvUser (Some raw) \<Rightarrow> on_user (sc_reader cfg) raw st
      | EvRateLimit (Some ms) \<Rightarrow> on_rate_limit ms st
      | EvResult (Some r) \<Rightarrow> on_result cfg r st
      | _ \<Rightarrow> Goes [] st)"

definition on_line :: "stream_config \<Rightarrow> cli_line \<Rightarrow> stream_state \<Rightarrow> stream_step" where
  "on_line cfg l st =
     (case l of
        LineEvent ev \<Rightarrow> on_event cfg ev st
      | LineStream None (Some ev) \<Rightarrow> on_event cfg ev st
      | _ \<Rightarrow> Goes [] st)"

subsection \<open>The loop\<close>

text \<open>The writes of one event; \<open>n\<close> counts the turn's writes.\<close>

fun write_texts ::
  "(nat \<Rightarrow> time) \<Rightarrow> (nat \<Rightarrow> nat) \<Rightarrow> nat \<Rightarrow> turn_write_text list \<Rightarrow> turn_writer \<Rightarrow> write_error option \<times> turn_writer" where
  "write_texts clock ids n [] w = (None, w)"
| "write_texts clock ids n ((phase, x) # ws) w =
     (case turn_write (clock n) (ids n) phase x w of
        (Some e, w1) \<Rightarrow> (Some e, w1)
      | (None, w1) \<Rightarrow> write_texts clock ids (Suc n) ws w1)"

text \<open>
  Each line comes with whether the turn had been stopped when it was read. \<open>broken\<close>: reading ended
  with an error.
\<close>

fun stream_lines ::
  "stream_config \<Rightarrow> (nat \<Rightarrow> time) \<Rightarrow> (nat \<Rightarrow> nat) \<Rightarrow> nat \<Rightarrow> (bool \<times> cli_line) list \<Rightarrow> bool \<Rightarrow> stream_state \<Rightarrow> turn_writer \<Rightarrow>
   (string \<times> stream_error option) \<times> stream_state \<times> turn_writer" where
  "stream_lines cfg clock ids n [] broken st w =
     ((if broken then ([], Some StreamScanner)
       else if ss_denied st \<noteq> []
       then (ss_session st, Some (StreamDenied (sort (remdups (ss_denied st))) (ss_session st)))
       else (ss_session st, None)), st, w)"
| "stream_lines cfg clock ids n ((stopped, l) # ls) broken st w =
     (if stopped then ((ss_session st, None), st, w)
      else (case on_line cfg l st of
              Stops session e st1 \<Rightarrow> ((session, Some e), st1, w)
            | Goes ws st1 \<Rightarrow>
                (case write_texts clock ids n ws w of
                   (Some e, w1) \<Rightarrow> (([], Some (StreamWrite e)), st1, w1)
                 | (None, w1) \<Rightarrow> stream_lines cfg clock ids (n + length ws) ls broken st1 w1)))"

definition stream_response ::
  "stream_config \<Rightarrow> (nat \<Rightarrow> time) \<Rightarrow> (nat \<Rightarrow> nat) \<Rightarrow> nat \<Rightarrow> (bool \<times> cli_line) list \<Rightarrow> bool \<Rightarrow> turn_writer \<Rightarrow>
   (string \<times> stream_error option) \<times> stream_state \<times> turn_writer" where
  "stream_response cfg clock ids n ls broken w = stream_lines cfg clock ids n ls broken stream_start w"

subsection \<open>A turn's output\<close>

text \<open>
  What \<open>handle\<close> makes of the CLI's output: the first status line, the lines, the draft sent in any
  case. The result is the session to go on with, or the errors, with which no session is returned.
\<close>

definition first_status :: "bool \<Rightarrow> string" where
  "first_status resumed = (if resumed then [CHR 0xF0, CHR 0x9F, CHR 0x94, CHR 0x84] @ '' Resuming interrupted turn...'' @ [CHR 0x0A] else [CHR 0xF0, CHR 0x9F, CHR 0xA4, CHR 0x94] @ '' Thinking...'' @ [CHR 0x0A])"

definition turn_output ::
  "stream_config \<Rightarrow> (nat \<Rightarrow> time) \<Rightarrow> (nat \<Rightarrow> nat) \<Rightarrow> bool \<Rightarrow> string \<Rightarrow> (bool \<times> cli_line) list \<Rightarrow> bool \<Rightarrow> turn_writer \<Rightarrow>
   string \<times> stream_error list \<times> stream_state \<times> turn_writer" where
  "turn_output cfg clock ids resumed session ls broken w =
     (case turn_write (clock 0) (ids 0) PhaseStatus (first_status resumed) w of
        (Some e, w1) \<Rightarrow> ([], [StreamWrite e], stream_start, w1)
      | (None, w1) \<Rightarrow>
          (case stream_response cfg clock ids 1 ls broken w1 of
             ((named, err), st, w2) \<Rightarrow>
               (case flush_draft w2 of
                  (flushed, w3) \<Rightarrow>
                    (let errs = (case err of None \<Rightarrow> [] | Some e \<Rightarrow> [e]) @
                                (case flushed of None \<Rightarrow> [] | Some e \<Rightarrow> [StreamWrite e])
                     in (if errs \<noteq> [] then [] else if named \<noteq> [] then named else session, errs, st, w3)))))"

subsection \<open>What the model says in a turn\<close>

text \<open>
  The lines of a turn as the CLI sends them: messages streamed on the main thread, block by block,
  messages sent whole, and anything else between and within them. While a message is streamed its
  blocks come once more as whole events; what subagents do comes at any time.
\<close>

datatype mid_block = Delta stream_delta | Beside cli_line

datatype message_piece = Block content_block "mid_block list" | Between cli_line

datatype turn_item =
    Streamed "message_usage option" "message_piece list"
  | Whole assistant_event
  | Aside cli_line

definition streamed :: "cli_event \<Rightarrow> cli_line" where
  "streamed ev = LineStream None (Some ev)"

fun mid_line :: "mid_block \<Rightarrow> cli_line" where
  "mid_line (Delta d) = streamed (EvBlockDelta (Some d))"
| "mid_line (Beside l) = l"

fun piece_lines :: "message_piece \<Rightarrow> cli_line list" where
  "piece_lines (Block b ms) = streamed (EvBlockStart (Some b)) # map mid_line ms @ [streamed EvBlockStop]"
| "piece_lines (Between l) = [l]"

fun item_lines :: "turn_item \<Rightarrow> cli_line list" where
  "item_lines (Streamed u ps) =
     streamed (EvMessageStart u) # concat (map piece_lines ps) @ [streamed EvMessageStop]"
| "item_lines (Whole m) = [LineEvent (EvAssistant (Some m))]"
| "item_lines (Aside l) = [l]"

text \<open>A line that is no part of the reply; \<open>within\<close> tells whether a message is being streamed.\<close>

fun beside_event :: "bool \<Rightarrow> cli_event \<Rightarrow> bool" where
  "beside_event within (EvResult (Some r)) = (\<not> rs_is_error r)"
| "beside_event within (EvAssistant (Some m)) =
     (as_error m \<noteq> ''authentication_failed'' \<and> (as_parent m \<noteq> None \<or> within \<and> as_error m = []))"
| "beside_event within (EvMessageStart u) = False"
| "beside_event within EvMessageStop = False"
| "beside_event within (EvBlockStart (Some b)) = False"
| "beside_event within (EvBlockDelta (Some d)) = False"
| "beside_event within EvBlockStop = False"
| "beside_event within ev = True"

fun beside :: "bool \<Rightarrow> cli_line \<Rightarrow> bool" where
  "beside within LineSkipped = True"
| "beside within (LineEvent ev) = beside_event within ev"
| "beside within (LineStream None (Some ev)) = beside_event within ev"
| "beside within (LineStream p e) = True"

definition is_text_delta :: "mid_block \<Rightarrow> bool" where
  "is_text_delta m = (case m of Delta d \<Rightarrow> sd_type d = ''text_delta'' | _ \<Rightarrow> False)"

fun mid_ok :: "bool \<Rightarrow> mid_block \<Rightarrow> bool" where
  "mid_ok is_text (Delta d) = (sd_type d = ''text_delta'' \<longrightarrow> is_text \<and> whole_runes (sd_text d))"
| "mid_ok is_text (Beside l) = beside True l"

fun piece_ok :: "message_piece \<Rightarrow> bool" where
  "piece_ok (Block b ms) = list_all (mid_ok (cb_type b = content_text)) ms"
| "piece_ok (Between l) = beside True l"

fun item_ok :: "turn_item \<Rightarrow> bool" where
  "item_ok (Streamed u ps) = list_all piece_ok ps"
| "item_ok (Whole m) =
     (as_parent m = None \<and> as_error m \<noteq> ''authentication_failed'' \<and>
      list_all (\<lambda>b. cb_type b = content_text \<longrightarrow> whole_runes (cb_text b)) (as_content m))"
| "item_ok (Aside l) = beside False l"

text \<open>The texts the model says, one for each text block.\<close>

fun mid_text :: "mid_block \<Rightarrow> string" where
  "mid_text (Delta d) = (if sd_type d = ''text_delta'' then sd_text d else [])"
| "mid_text (Beside l) = []"

fun piece_texts :: "message_piece \<Rightarrow> string list" where
  "piece_texts (Block b ms) = (if cb_type b = content_text then [concat (map mid_text ms)] else [])"
| "piece_texts (Between l) = []"

definition block_texts :: "content_block list \<Rightarrow> string list" where
  "block_texts bs = filter (\<lambda>t. t \<noteq> []) (map cb_text (filter (\<lambda>b. cb_type b = content_text) bs))"

fun item_texts :: "turn_item \<Rightarrow> string list" where
  "item_texts (Streamed u ps) = concat (map piece_texts ps)"
| "item_texts (Whole m) = block_texts (as_content m)"
| "item_texts (Aside l) = []"

definition turn_lines :: "turn_item list \<Rightarrow> cli_line list" where
  "turn_lines items = concat (map item_lines items)"

definition spoken :: "turn_item list \<Rightarrow> string list" where
  "spoken items = concat (map item_texts items)"

subsection \<open>The writes of a run\<close>

text \<open>The writes of the lines up to one that ends the turn, without the writer.\<close>

fun all_writes :: "stream_config \<Rightarrow> cli_line list \<Rightarrow> stream_state \<Rightarrow> (turn_write_text list \<times> stream_state) option" where
  "all_writes cfg [] st = Some ([], st)"
| "all_writes cfg (l # ls) st =
     (case on_line cfg l st of
        Stops s e st1 \<Rightarrow> None
      | Goes ws st1 \<Rightarrow>
          (case all_writes cfg ls st1 of None \<Rightarrow> None | Some (ws', st2) \<Rightarrow> Some (ws @ ws', st2)))"

definition said :: "turn_write_text list \<Rightarrow> string" where
  "said ws = concat (map (\<lambda>(phase, x). if phase = PhaseResponse then x else []) ws)"

lemma said_simps [simp]:
  "said [] = []" "said ((PhaseResponse, x) # ws) = x @ said ws" "said ((PhaseStatus, x) # ws) = said ws"
  "said ((PhaseThinking, x) # ws) = said ws" "said (us @ ws) = said us @ said ws"
  by (simp_all add: said_def)

lemma said_status [simp]: "said (map (\<lambda>l. (PhaseStatus, l)) ls) = []"
  by (induction ls) simp_all

lemma all_writes_append:
  "all_writes cfg (as @ bs) st =
     (case all_writes cfg as st of
        None \<Rightarrow> None
      | Some (us, st1) \<Rightarrow> (case all_writes cfg bs st1 of None \<Rightarrow> None | Some (ws, st2) \<Rightarrow> Some (us @ ws, st2)))"
  by (induction as arbitrary: st) (auto split: stream_step.splits option.splits)

text \<open>\<open>quiet\<close>: a step that says nothing and leaves what the reply depends on.\<close>

definition quiet :: "stream_state \<Rightarrow> stream_step \<Rightarrow> bool" where
  "quiet st r =
     (case r of
        Goes ws st1 \<Rightarrow> said ws = [] \<and> ss_had_text st1 = ss_had_text st \<and> ss_streaming st1 = ss_streaming st \<and>
                      ss_block_type st1 = ss_block_type st
      | Stops s e st1 \<Rightarrow> False)"

lemma beside_event_quiet:
  "beside_event (ss_streaming st) ev \<Longrightarrow> quiet st (on_event cfg ev st)"
  by (cases "(ss_streaming st, ev)" rule: beside_event.cases)
     (auto simp: quiet_def on_event_def on_system_def on_assistant_def on_user_def on_rate_limit_def on_result_def Let_def
           split: option.splits)

lemma beside_quiet: "beside (ss_streaming st) l \<Longrightarrow> quiet st (on_line cfg l st)"
  by (cases "(ss_streaming st, l)" rule: beside.cases)
     (auto simp: on_line_def quiet_def split: option.splits intro: beside_event_quiet [unfolded quiet_def])

definition whole_said :: "turn_write_text list \<Rightarrow> bool" where
  "whole_said ws = list_all (\<lambda>(phase, x). phase = PhaseResponse \<longrightarrow> whole_runes x) ws"

lemma whole_runes_Nil [simp]: "whole_runes []"
  by (simp add: whole_runes_def)

lemma whole_said_simps [simp]:
  "whole_said []" "whole_said ((phase, x) # ws) = ((phase = PhaseResponse \<longrightarrow> whole_runes x) \<and> whole_said ws)"
  "whole_said (us @ ws) = (whole_said us \<and> whole_said ws)"
  by (simp_all add: whole_said_def)

lemma said_nothing_whole: "said ws = [] \<Longrightarrow> whole_said ws"
  by (induction ws) (auto simp: said_def split: if_splits)

text \<open>The lines lead from one state to another and say a text.\<close>

definition runs :: "stream_config \<Rightarrow> cli_line list \<Rightarrow> stream_state \<Rightarrow> string \<Rightarrow> stream_state \<Rightarrow> bool" where
  "runs cfg ls st x st' = (\<exists>ws. all_writes cfg ls st = Some (ws, st') \<and> said ws = x \<and> whole_said ws)"

lemma runs_append: "runs cfg as st x st1 \<Longrightarrow> runs cfg bs st1 y st2 \<Longrightarrow> runs cfg (as @ bs) st (x @ y) st2"
  by (auto simp: runs_def all_writes_append)

lemma runs_Nil: "runs cfg [] st [] st"
  by (simp add: runs_def)

definition goes_saying :: "stream_step \<Rightarrow> string \<Rightarrow> (stream_state \<Rightarrow> bool) \<Rightarrow> bool" where
  "goes_saying r x Q =
     (case r of Goes ws st1 \<Rightarrow> said ws = x \<and> whole_said ws \<and> Q st1 | Stops s e st1 \<Rightarrow> False)"

lemma runs_step: "goes_saying (on_line cfg l st) x Q \<Longrightarrow> \<exists>st'. runs cfg [l] st x st' \<and> Q st'"
  by (auto simp: goes_saying_def runs_def split: stream_step.splits)

definition same_frame :: "stream_state \<Rightarrow> stream_state \<Rightarrow> bool" where
  "same_frame st st' =
     (ss_had_text st' = ss_had_text st \<and> ss_streaming st' = ss_streaming st \<and> ss_block_type st' = ss_block_type st)"

lemma runs_beside:
  assumes "beside (ss_streaming st) l"
  shows "\<exists>st'. runs cfg [l] st [] st' \<and> same_frame st st'"
proof (rule runs_step)
  from beside_quiet [OF assms, of cfg] show "goes_saying (on_line cfg l st) [] (same_frame st)"
    by (auto simp: quiet_def goes_saying_def same_frame_def said_nothing_whole split: stream_step.splits)
qed

lemma runs_mid:
  assumes "mid_ok (ss_block_type st = content_text) m" and "ss_streaming st"
  shows "\<exists>st'. runs cfg [mid_line m] st (mid_text m) st' \<and> same_frame st st'"
proof (cases m)
  case (Beside l)
  with assms runs_beside [of st l cfg] show ?thesis by simp
next
  case (Delta d)
  show ?thesis
    by (rule runs_step)
       (use assms Delta in \<open>auto simp: goes_saying_def on_line_def streamed_def on_event_def on_delta_def Let_def same_frame_def\<close>)
qed

lemma runs_mids:
  "list_all (mid_ok (ss_block_type st = content_text)) ms \<Longrightarrow> ss_streaming st \<Longrightarrow>
   \<exists>st'. runs cfg (map mid_line ms) st (concat (map mid_text ms)) st' \<and> same_frame st st'"
proof (induction ms arbitrary: st)
  case Nil
  then show ?case using runs_Nil by (auto simp: same_frame_def)
next
  case (Cons m ms)
  from Cons.prems have "mid_ok (ss_block_type st = content_text) m" by simp
  from runs_mid [OF this Cons.prems(2)] obtain st1 where 1: "runs cfg [mid_line m] st (mid_text m) st1" "same_frame st st1" by blast
  with Cons.prems Cons.IH [of st1] obtain st2 where "runs cfg (map mid_line ms) st1 (concat (map mid_text ms)) st2" "same_frame st1 st2"
    by (auto simp: same_frame_def)
  with 1 runs_append [OF 1(1)] show ?case by (fastforce simp: same_frame_def)
qed

definition joined :: "bool \<Rightarrow> string list \<Rightarrow> string" where
  "joined had ts = (if ts = [] then [] else (if had then newline_text @ newline_text else []) @ str_join (newline_text @ newline_text) ts)"

lemma joined_Cons: "joined had (t # ts) = (if had then newline_text @ newline_text else []) @ t @ joined True ts"
  by (cases ts) (simp_all add: joined_def)

lemma joined_append: "joined had (us @ ts) = joined had us @ joined (had \<or> us \<noteq> []) ts"
proof (induction us arbitrary: had)
  case Nil
  then show ?case by (simp add: joined_def)
next
  case (Cons u us)
  from Cons.IH [of True] show ?case by (simp add: joined_Cons)
qed

lemma joined_simps [simp]: "joined had [] = []" "joined had [t] = (if had then newline_text @ newline_text else []) @ t"
  by (simp_all add: joined_def)

lemma whole_newlines [simp]: "whole_runes (newline_text @ newline_text)"
  by (simp add: whole_runes_def newline_text_def has_suffix_iff)

lemma runs_block:
  assumes "list_all (mid_ok (cb_type b = content_text)) ms" and "ss_streaming st"
  shows "\<exists>st'. runs cfg (piece_lines (Block b ms)) st (joined (ss_had_text st) (piece_texts (Block b ms))) st' \<and>
           ss_streaming st' \<and> ss_had_text st' = (ss_had_text st \<or> piece_texts (Block b ms) \<noteq> [])"
proof -
  let ?sep = "if cb_type b = content_text \<and> ss_had_text st then newline_text @ newline_text else []"
  have "\<exists>st1. runs cfg [streamed (EvBlockStart (Some b))] st ?sep st1 \<and>
      (ss_block_type st1 = cb_type b \<and> ss_streaming st1 \<and> ss_had_text st1 = ss_had_text st)"
    by (rule runs_step)
       (use assms(2) in \<open>auto simp: goes_saying_def on_line_def streamed_def on_event_def on_block_start_def Let_def\<close>)
  then obtain st1 where 1: "runs cfg [streamed (EvBlockStart (Some b))] st ?sep st1"
    "ss_block_type st1 = cb_type b" "ss_streaming st1" "ss_had_text st1 = ss_had_text st" by blast
  from assms(1) 1 runs_mids [of st1 ms cfg] obtain st2 where
    2: "runs cfg (map mid_line ms) st1 (concat (map mid_text ms)) st2" "same_frame st1 st2" by auto
  have "\<exists>st3. runs cfg [streamed EvBlockStop] st2 [] st3 \<and>
      (ss_streaming st3 \<and> ss_had_text st3 = (ss_had_text st \<or> cb_type b = content_text))"
    by (rule runs_step)
       (use 1 2(2) in \<open>auto simp: goes_saying_def on_line_def streamed_def on_event_def on_block_stop_def Let_def
          same_frame_def content_text_def content_tool_use_def content_thinking_def\<close>)
  then obtain st3 where 3: "runs cfg [streamed EvBlockStop] st2 [] st3" "ss_streaming st3"
    "ss_had_text st3 = (ss_had_text st \<or> cb_type b = content_text)" by blast
  have mute: "concat (map mid_text ms) = []" if "cb_type b \<noteq> content_text"
  proof -
    have "mid_text m = []" if "m \<in> set ms" for m
      using assms(1) that \<open>cb_type b \<noteq> content_text\<close> by (cases m) (auto simp: list_all_iff)
    then show ?thesis by simp
  qed
  have "?sep @ concat (map mid_text ms) @ [] = joined (ss_had_text st) (piece_texts (Block b ms))"
    using mute by auto
  with runs_append [OF 1(1) runs_append [OF 2(1) 3(1)]] 3(2,3) show ?thesis by auto
qed

lemma runs_piece:
  assumes "piece_ok p" and "ss_streaming st"
  shows "\<exists>st'. runs cfg (piece_lines p) st (joined (ss_had_text st) (piece_texts p)) st' \<and>
           ss_streaming st' \<and> ss_had_text st' = (ss_had_text st \<or> piece_texts p \<noteq> [])"
proof (cases p)
  case (Block b ms)
  with assms runs_block [of b ms st cfg] show ?thesis by simp
next
  case (Between l)
  with assms runs_beside [of st l cfg] show ?thesis by (auto simp: same_frame_def)
qed

lemma runs_pieces:
  "list_all piece_ok ps \<Longrightarrow> ss_streaming st \<Longrightarrow>
   \<exists>st'. runs cfg (concat (map piece_lines ps)) st (joined (ss_had_text st) (concat (map piece_texts ps))) st' \<and>
     ss_streaming st' \<and> ss_had_text st' = (ss_had_text st \<or> concat (map piece_texts ps) \<noteq> [])"
proof (induction ps arbitrary: st)
  case Nil
  then show ?case using runs_Nil by auto
next
  case (Cons p ps)
  from Cons.prems have "piece_ok p" by simp
  from runs_piece [OF this Cons.prems(2)] obtain st1 where
    1: "runs cfg (piece_lines p) st (joined (ss_had_text st) (piece_texts p)) st1" "ss_streaming st1"
      "ss_had_text st1 = (ss_had_text st \<or> piece_texts p \<noteq> [])" by blast
  with Cons obtain st2 where "runs cfg (concat (map piece_lines ps)) st1 (joined (ss_had_text st1) (concat (map piece_texts ps))) st2"
    "ss_streaming st2" "ss_had_text st2 = (ss_had_text st1 \<or> concat (map piece_texts ps) \<noteq> [])" by fastforce
  with runs_append [OF 1(1) this(1)] 1(3) show ?case by (auto simp: joined_append)
qed

lemma whole_message_said:
  "list_all (\<lambda>b. cb_type b = content_text \<longrightarrow> whole_runes (cb_text b)) bs \<Longrightarrow> whole_message jr had bs = (ws, wrote) \<Longrightarrow>
   said ws = joined had (block_texts bs) \<and> whole_said ws \<and> (wrote \<longleftrightarrow> block_texts bs \<noteq> [])"
proof (induction jr had bs arbitrary: ws wrote rule: whole_message.induct)
  case (1 jr had)
  then show ?case by (simp add: block_texts_def)
next
  case (2 jr had b bs)
  define t where "t = format_block jr b"
  show ?case
  proof (cases "t = []")
    case True
    with 2 have "said ws = joined had (block_texts bs) \<and> whole_said ws \<and> (wrote \<longleftrightarrow> block_texts bs \<noteq> [])"
      by (simp add: t_def)
    moreover from True have "block_texts (b # bs) = block_texts bs"
      by (auto simp: block_texts_def t_def format_block_def)
    ultimately show ?thesis by simp
  next
    case ne: False
    show ?thesis
    proof (cases "cb_type b = content_text")
      case True
      then have t: "t = cb_text b" "block_texts (b # bs) = t # block_texts bs"
        using ne by (simp_all add: t_def format_block_def block_texts_def)
      obtain us w where r: "whole_message jr True bs = (us, w)" by (rule prod.exhaust)
      from "2.IH"(2) [OF t_def ne True _ r] "2.prems"(1)
      have ih: "said us = joined True (block_texts bs)" "whole_said us" by (simp_all add: t_def)
      from "2.prems"(2) True ne r have ws: "ws = (PhaseResponse, if had then newline_text @ newline_text @ t else t) # us" "wrote"
        by (auto simp: t_def Let_def)
      have "whole_runes t" using "2.prems"(1) True t(1) by simp
      with ih ws t(2) whole_append [OF whole_newlines this] show ?thesis by (simp add: joined_Cons)
    next
      case other: False
      obtain us w where r: "whole_message jr had bs = (us, w)" by (rule prod.exhaust)
      from "2.IH"(3) [OF t_def ne other _ r] "2.prems"(1)
      have ih: "said us = joined had (block_texts bs)" "whole_said us" "w \<longleftrightarrow> block_texts bs \<noteq> []" by (simp_all add: t_def)
      from "2.prems"(2) other ne r have "ws = (if cb_type b = content_thinking then PhaseThinking else PhaseStatus, t) # us"
        "wrote = w" by (auto simp: t_def Let_def)
      moreover from other have "block_texts (b # bs) = block_texts bs" by (simp add: block_texts_def)
      ultimately show ?thesis using ih by simp
    qed
  qed
qed

lemma runs_item:
  assumes "item_ok i" and "\<not> ss_streaming st"
  shows "\<exists>st'. runs cfg (item_lines i) st (joined (ss_had_text st) (item_texts i)) st' \<and>
           \<not> ss_streaming st' \<and> ss_had_text st' = (ss_had_text st \<or> item_texts i \<noteq> [])"
proof (cases i)
  case (Streamed u ps)
  have "\<exists>st1. runs cfg [streamed (EvMessageStart u)] st [] st1 \<and> (ss_streaming st1 \<and> ss_had_text st1 = ss_had_text st)"
    by (rule runs_step)
       (auto simp: goes_saying_def on_line_def streamed_def on_event_def on_message_start_def split: option.splits)
  then obtain st1 where 1: "runs cfg [streamed (EvMessageStart u)] st [] st1" "ss_streaming st1" "ss_had_text st1 = ss_had_text st"
    by blast
  with runs_pieces [of ps st1 cfg] assms(1) Streamed obtain st2 where
    2: "runs cfg (concat (map piece_lines ps)) st1 (joined (ss_had_text st) (item_texts i)) st2"
      "ss_had_text st2 = (ss_had_text st \<or> item_texts i \<noteq> [])" by auto
  have "\<exists>st3. runs cfg [streamed EvMessageStop] st2 [] st3 \<and> (\<not> ss_streaming st3 \<and> ss_had_text st3 = ss_had_text st2)"
    by (rule runs_step) (simp add: goes_saying_def on_line_def streamed_def on_event_def)
  then obtain st3 where 3: "runs cfg [streamed EvMessageStop] st2 [] st3" "\<not> ss_streaming st3" "ss_had_text st3 = ss_had_text st2"
    by blast
  from runs_append [OF 1(1) runs_append [OF 2(1) 3(1)]] 2(2) 3 Streamed show ?thesis by auto
next
  case (Whole m)
  obtain ws wrote where r: "whole_message (sc_reader cfg) (ss_had_text st) (as_content m) = (ws, wrote)" by (rule prod.exhaust)
  with whole_message_said assms(1) Whole have w: "said ws = joined (ss_had_text st) (item_texts i)" "whole_said ws"
    "wrote \<longleftrightarrow> item_texts i \<noteq> []" by fastforce+
  have "\<exists>st'. runs cfg (item_lines i) st (joined (ss_had_text st) (item_texts i)) st' \<and>
      (\<not> ss_streaming st' \<and> ss_had_text st' = (ss_had_text st \<or> item_texts i \<noteq> []))"
    unfolding Whole item_lines.simps
    by (rule runs_step)
       (use assms w r Whole in \<open>auto simp: goes_saying_def on_line_def on_event_def on_assistant_def\<close>)
  then show ?thesis by blast
next
  case (Aside l)
  with assms runs_beside [of st l cfg] show ?thesis by (auto simp: same_frame_def)
qed

lemma runs_turn:
  "list_all item_ok items \<Longrightarrow> \<not> ss_streaming st \<Longrightarrow>
   \<exists>st'. runs cfg (turn_lines items) st (joined (ss_had_text st) (spoken items)) st'"
proof (induction items arbitrary: st)
  case Nil
  then show ?case using runs_Nil by (auto simp: turn_lines_def spoken_def)
next
  case (Cons i items)
  from Cons.prems have "item_ok i" by simp
  from runs_item [OF this Cons.prems(2)] obtain st1 where
    1: "runs cfg (item_lines i) st (joined (ss_had_text st) (item_texts i)) st1" "\<not> ss_streaming st1"
      "ss_had_text st1 = (ss_had_text st \<or> item_texts i \<noteq> [])" by blast
  with Cons obtain st2 where "runs cfg (turn_lines items) st1 (joined (ss_had_text st1) (spoken items)) st2" by fastforce
  from runs_append [OF 1(1) this] 1(3) show ?case by (auto simp: turn_lines_def spoken_def joined_append)
qed

subsection \<open>From the stream to the chat\<close>

lemma write_texts_ok:
  "write_texts clock ids n ws w = (None, w') \<Longrightarrow> writer_ok t w \<Longrightarrow> (\<And>n. 0 < ids n) \<Longrightarrow> whole_said ws \<Longrightarrow>
   writer_ok (t @ said ws) w'"
proof (induction clock ids n ws w arbitrary: t rule: write_texts.induct)
  case (1 clock ids n w)
  then show ?case by simp
next
  case (2 clock ids n phase x ws w)
  obtain e w1 where s: "turn_write (clock n) (ids n) phase x w = (e, w1)" by (rule prod.exhaust)
  with "2.prems"(1) have e: "e = None" by (auto split: option.splits)
  from turn_write_ok [OF "2.prems"(2) _ _ s [unfolded e]] "2.prems"(3,4)
  have "writer_ok (t @ (if phase = PhaseResponse then x else [])) w1" by auto
  from "2.IH" [OF s [symmetric] e _ this] s e "2.prems"(1,3,4) show ?case by (simp add: said_def)
qed

lemma write_texts_append:
  "write_texts clock ids n (us @ ws) w =
     (case write_texts clock ids n us w of
        (Some e, w1) \<Rightarrow> (Some e, w1)
      | (None, w1) \<Rightarrow> write_texts clock ids (n + length us) ws w1)"
  by (induction clock ids n us w rule: write_texts.induct) (auto split: prod.splits option.splits)

text \<open>A run that no write and no read cut short has made all the writes.\<close>

lemma stream_lines_writes:
  "all_writes cfg ls st = Some (ws, st') \<Longrightarrow>
   stream_lines cfg clock ids n (map (Pair False) ls) False st w = ((s, e), st2, w') \<Longrightarrow>
   (\<forall>x. e \<noteq> Some (StreamWrite x)) \<Longrightarrow> write_texts clock ids n ws w = (None, w')"
proof (induction ls arbitrary: st ws n w)
  case Nil
  then show ?case by auto
next
  case (Cons l ls)
  then obtain us st1 vs where l: "on_line cfg l st = Goes us st1" "all_writes cfg ls st1 = Some (vs, st')" "ws = us @ vs"
    by (auto split: stream_step.splits option.splits)
  obtain r w1 where u: "write_texts clock ids n us w = (r, w1)" by (rule prod.exhaust)
  with Cons.prems(2,3) l have r: "r = None" by (auto split: option.splits)
  with Cons.prems(2) l u have "stream_lines cfg clock ids (n + length us) (map (Pair False) ls) False st1 w1 = ((s, e), st2, w')"
    by simp
  from Cons.IH [OF l(2) this Cons.prems(3)] u r l(3) show ?case by (simp add: write_texts_append)
qed

text \<open>
  C1. What the model says is what the user reads. The CLI streams a turn's messages block by block,
  repeats them as whole events, mixes in what subagents say and do, notices and tool results, and
  may send some messages whole. When no write of the turn failed, the reply messages of the chat
  hold the texts of the main conversation, a blank line between one and the next, in order and once,
  and nothing else; only white space can be lost, where one message follows another.
\<close>

theorem reply_reads_as_spoken:
  assumes "list_all item_ok items" and "\<forall>n. 0 < ids n"
    and "turn_output cfg clock ids resumed session (map (Pair False) (turn_lines items)) False
           (new_turn_writer True rich wrap streams outcomes) = (s, errs, st, w)"
    and "\<forall>x. StreamWrite x \<notin> set errs"
  shows "reply_covers (replies_of (tw_chat w)) (str_join (newline_text @ newline_text) (spoken items))"
proof -
  let ?w = "new_turn_writer True rich wrap streams outcomes"
  obtain e0 w1 where 0: "turn_write (clock 0) (ids 0) PhaseStatus (first_status resumed) ?w = (e0, w1)" by (rule prod.exhaust)
  from assms(3,4) 0 have e0: "e0 = None" by (cases e0) (auto simp: turn_output_def)
  note 1 = 0 [unfolded e0]
  obtain named err st' w2 where 2: "stream_response cfg clock ids 1 (map (Pair False) (turn_lines items)) False w1 = ((named, err), st', w2)"
    by (metis prod.exhaust)
  obtain e3 w3 where 3: "flush_draft w2 = (e3, w3)" by (rule prod.exhaust)
  from assms(3) 1 2 3 have w: "w3 = w" and errs: "errs = (case err of None \<Rightarrow> [] | Some e \<Rightarrow> [e]) @
      (case e3 of None \<Rightarrow> [] | Some e \<Rightarrow> [StreamWrite e])" by (simp_all add: turn_output_def Let_def)
  from errs assms(4) have err: "\<forall>x. err \<noteq> Some (StreamWrite x)" and e3: "e3 = None"
    by (auto split: option.splits)
  from 3 e3 w have 3: "flush_draft w2 = (None, w)" by simp
  from turn_write_ok [OF new_writer_ok _ _ 1] assms(2) have w1: "writer_ok [] w1" by simp
  have start: "\<not> ss_streaming stream_start" "\<not> ss_had_text stream_start" by (simp_all add: stream_start_def)
  from runs_turn [OF assms(1) start(1), of cfg] start(2) obtain ws st' where
    ws: "all_writes cfg (turn_lines items) stream_start = Some (ws, st')" "said ws = joined False (spoken items)" "whole_said ws"
    by (auto simp: runs_def)
  from stream_lines_writes [OF ws(1) 2 [unfolded stream_response_def] err] have "write_texts clock ids 1 ws w1 = (None, w2)" .
  from write_texts_ok [OF this w1 _ ws(3)] assms(2) ws(2) have "writer_ok (joined False (spoken items)) w2" by simp
  with flush_draft_ok 3 writer_covers have "reply_covers (replies_of (tw_chat w)) (joined False (spoken items))" by blast
  then show ?thesis by (simp add: joined_def split: if_splits)
qed

text \<open>Tools are offered only when the CLI refused them and the channel's list lacks them.\<close>

lemma on_line_denied:
  "on_line cfg l st = Goes ws st1 \<Longrightarrow> t \<in> set (ss_denied st1) \<Longrightarrow> t \<notin> set (ss_denied st) \<Longrightarrow>
   t \<notin> set (sc_allowed cfg) \<and> sc_allowed cfg \<noteq> [] \<and>
   (\<exists>r. (l = LineEvent (EvResult (Some r)) \<or> l = LineStream None (Some (EvResult (Some r)))) \<and> t \<in> set (rs_denials r))"
  by (auto simp: on_line_def on_event_def on_system_def on_message_start_def on_block_start_def on_delta_def
        on_block_stop_def on_assistant_def on_user_def on_rate_limit_def on_result_def Let_def
      split: cli_line.splits cli_event.splits option.splits if_splits prod.splits)

definition refused_in :: "cli_line list \<Rightarrow> string \<Rightarrow> bool" where
  "refused_in ls t =
     (\<exists>r. (LineEvent (EvResult (Some r)) \<in> set ls \<or> LineStream None (Some (EvResult (Some r))) \<in> set ls) \<and>
          t \<in> set (rs_denials r))"

lemma sort_remdups_empty [simp]: "sort (remdups xs) = [] \<longleftrightarrow> xs = []"
  by (metis set_empty set_remdups set_sort)

lemma stream_lines_denied:
  "stream_lines cfg clock ids n ls broken st w = ((s, Some (StreamDenied ts s')), st', w') \<Longrightarrow>
   ts = sort (remdups (ss_denied st')) \<and> ts \<noteq> [] \<and> s' = s \<and>
   (\<forall>t \<in> set (ss_denied st').
      t \<in> set (ss_denied st) \<or> t \<notin> set (sc_allowed cfg) \<and> sc_allowed cfg \<noteq> [] \<and> refused_in (map snd ls) t)"
proof (induction cfg clock ids n ls broken st w rule: stream_lines.induct)
  case (1 cfg clock ids n broken st w)
  then show ?case by (auto split: if_splits)
next
  case (2 cfg clock ids n stopped l ls broken st w)
  show ?case
  proof (cases "on_line cfg l st")
    case (Stops s1 e st1)
    then have "e \<noteq> StreamDenied ts s'" for ts s'
      by (auto simp: on_line_def on_event_def on_system_def on_message_start_def on_block_start_def on_delta_def
          on_block_stop_def on_assistant_def on_user_def on_rate_limit_def on_result_def Let_def
        split: cli_line.splits cli_event.splits option.splits if_splits prod.splits)
    with "2.prems" Stops show ?thesis by (auto split: if_splits)
  next
    case (Goes ws st1)
    obtain r w1 where u: "write_texts clock ids n ws w = (r, w1)" by (rule prod.exhaust)
    from "2.prems" Goes u have r: "r = None" "\<not> stopped" by (auto split: option.splits if_splits)
    from "2.prems" Goes u r have run: "stream_lines cfg clock ids (n + length ws) ls broken st1 w1 =
        ((s, Some (StreamDenied ts s')), st', w')" by simp
    note ih = "2.IH" [OF r(2) Goes u [symmetric] r(1) run]
    have "t \<in> set (ss_denied st) \<or> t \<notin> set (sc_allowed cfg) \<and> sc_allowed cfg \<noteq> [] \<and> refused_in (map snd ((stopped, l) # ls)) t"
      if "t \<in> set (ss_denied st')" for t
      using ih that on_line_denied [OF Goes, of t] by (fastforce simp: refused_in_def)
    with ih show ?thesis by blast
  qed
qed

text \<open>
  The user is asked only about tools the CLI's own record of the turn says were refused and that the
  channel's list lacks, each once and in order; with no list, as when the turn could ask on its own,
  about none.
\<close>

theorem only_missing_tools_are_offered:
  assumes "stream_response cfg clock ids n ls broken w = ((s, Some (StreamDenied ts s')), st, w')"
  shows "ts \<noteq> [] \<and> distinct ts \<and> sorted ts \<and> sc_allowed cfg \<noteq> [] \<and>
         (\<forall>t \<in> set ts. t \<notin> set (sc_allowed cfg) \<and> refused_in (map snd ls) t)"
proof -
  from stream_lines_denied [OF assms [unfolded stream_response_def]]
  have ts: "ts = sort (remdups (ss_denied st))" "ts \<noteq> []"
    and all: "\<forall>t \<in> set ts. t \<notin> set (sc_allowed cfg) \<and> sc_allowed cfg \<noteq> [] \<and> refused_in (map snd ls) t"
    by (auto simp: stream_start_def)
  from ts(2) obtain t where "t \<in> set ts" by (cases ts) auto
  with all ts show ?thesis by auto
qed

subsection \<open>Concrete turns\<close>

definition plain_reader :: json_reader where
  "plain_reader = \<lparr>jr_object = (\<lambda>_. None), jr_string = (\<lambda>_. None), jr_skill = (\<lambda>_. None), jr_meta = (\<lambda>_. None)\<rparr>"

definition sample_stream_config :: stream_config where
  "sample_stream_config =
     \<lparr>sc_reader = plain_reader, sc_allowed = [''Read''], sc_max_turns = 10, sc_records_context = False\<rparr>"

definition text_block :: "string \<Rightarrow> content_block" where
  "text_block t = no_block\<lparr>cb_type := content_text, cb_text := t\<rparr>"

definition said_delta :: "string \<Rightarrow> stream_delta" where
  "said_delta t = \<lparr>sd_type = ''text_delta'', sd_text = t, sd_thinking = [], sd_partial = []\<rparr>"

definition from_agent :: "string \<Rightarrow> string option \<Rightarrow> assistant_event" where
  "from_agent t parent = \<lparr>as_content = [text_block t], as_error = [], as_parent = parent\<rparr>"

text \<open>A message streamed with its whole copy beside it, a subagent's remark, and a message sent whole.\<close>

definition sample_items :: "turn_item list" where
  "sample_items =
     [Streamed None
        [Block (text_block []) [Delta (said_delta ''Hi''), Beside (LineEvent (EvAssistant (Some (from_agent ''Hi!'' None)))),
                                Delta (said_delta ''!'')]],
      Aside (LineEvent (EvAssistant (Some (from_agent ''psst'' (Some ''t1''))))),
      Whole (from_agent ''Bye.'' None)]"

definition sample_output :: "string \<times> stream_error list \<times> stream_state \<times> turn_writer" where
  "sample_output =
     turn_output sample_stream_config (\<lambda>n. 1000000000 * int n) Suc False [] (map (Pair False) (turn_lines sample_items)) False
       (new_turn_writer True None ([], []) False [])"

lemma sample_items_ok: "list_all item_ok sample_items" "\<forall>n. 0 < Suc n"
  by (simp_all add: sample_items_def from_agent_def text_block_def said_delta_def no_block_def whole_runes_def has_suffix_iff)

lemma sample_spoken: "spoken sample_items = [''Hi!'', ''Bye.'']"
  by (simp add: spoken_def sample_items_def from_agent_def text_block_def said_delta_def no_block_def block_texts_def)

lemma sample_output_run:
  "fst (snd sample_output) = [] \<and>
   replies_of (tw_chat (snd (snd (snd sample_output)))) = [''Hi!'', newline_text @ newline_text @ ''Bye.'']"
  by code_simp

theorem reply_reads_as_spoken_witness:
  "reply_covers [''Hi!'', newline_text @ newline_text @ ''Bye.''] (str_join (newline_text @ newline_text) [''Hi!'', ''Bye.''])"
proof -
  obtain s errs st w where o1: "sample_output = (s, errs, st, w)" by (metis prod.exhaust)
  from sample_output_run have "errs = []" "replies_of (tw_chat w) = [''Hi!'', newline_text @ newline_text @ ''Bye.'']"
    by (simp_all add: o1)
  with reply_reads_as_spoken [OF sample_items_ok o1 [unfolded sample_output_def]] show ?thesis
    by (simp add: sample_spoken)
qed

definition refused_lines :: "(bool \<times> cli_line) list" where
  "refused_lines =
     [(False, LineEvent (EvResult (Some
        \<lparr>rs_is_error = False, rs_subtype = ''success'', rs_result = [], rs_seconds = ''1.0'', rs_turns = 1, rs_session = ''s1'',
         rs_cost = ''0.0100'', rs_denials = [''Write'', ''Read'', ''Bash''], rs_models = []\<rparr>)))]"

definition refused_output :: "(string \<times> stream_error option) \<times> stream_state \<times> turn_writer" where
  "refused_output =
     stream_response sample_stream_config (\<lambda>n. 0) Suc 0 refused_lines False (new_turn_writer True None ([], []) False [])"

lemma refused_output_run: "fst refused_output = (''s1'', Some (StreamDenied [''Bash'', ''Write''] ''s1''))"
  by code_simp

theorem only_missing_tools_are_offered_witness:
  "''Bash'' \<noteq> ''Read'' \<and> refused_in (map snd refused_lines) ''Bash''"
proof -
  obtain r st w where o1: "refused_output = (r, st, w)" by (metis prod.exhaust)
  from refused_output_run have "refused_output = ((''s1'', Some (StreamDenied [''Bash'', ''Write''] ''s1'')), st, w)"
    by (simp add: o1)
  from only_missing_tools_are_offered [OF this [unfolded refused_output_def]] show ?thesis
    by (auto simp: sample_stream_config_def)
qed

text \<open>
  A turn the CLI ended for its rate limit returns no session, although the session had begun: the
  attempt after it starts another one.
\<close>

definition limited_lines :: "(bool \<times> cli_line) list" where
  "limited_lines =
     [(False, LineEvent (EvSystem (Some
        \<lparr>sy_subtype = ''init'', sy_session = ''s1'', sy_content = [], sy_level = [], sy_compact = None, sy_servers = [],
         sy_server_errors = [], sy_attempt = 0, sy_max_retries = 0, sy_retry_delay = 0, sy_retry_error = [], sy_tool = []\<rparr>))),
      (False, LineEvent (EvResult (Some
        \<lparr>rs_is_error = True, rs_subtype = ''error_during_execution'', rs_result = ''429'', rs_seconds = [], rs_turns = 1,
         rs_session = ''s1'', rs_cost = [], rs_denials = [], rs_models = []\<rparr>)))]"

lemma rate_limited_turn_forgets_its_session:
  "(case turn_output sample_stream_config (\<lambda>n. 0) Suc False [] limited_lines False (new_turn_writer True None ([], []) False []) of
      (s, errs, st, w) \<Rightarrow> (s, errs, ss_session st)) = ([], [StreamRateLimited], ''s1'')"
  by code_simp

end
