(* ===== verification/Repo.thy ===== *)
theory Repo
  imports Store "HOL-Library.AList"
begin

text \<open>
  Tracked git repositories (\<open>internal/repo\<close>): the record, the access tiers and when a grant
  is in force (\<open>repo.go\<close>), and the store of all tracked repos under one key (\<open>store.go\<close>).
  The map of repos is its list of entries, read and written with \<open>map_of\<close>,
  \<open>AList.update\<close> and \<open>AList.delete\<close>.
\<close>

datatype access = AccessUnset | AccessReadOnly | AccessPullRequestsOnly | AccessFullWrite | AccessOther string

record tracked_repo =
  tr_name :: string
  tr_url :: string
  tr_branch :: string
  tr_last_seen_commit :: string
  tr_repo_dir :: string
  tr_worktree_dir :: string
  tr_managed :: bool
  tr_channels :: "string list"
  tr_description :: string
  tr_credential :: string
  tr_access :: access
  tr_drop_to_read_only_at :: time
  tr_drop_clone_if_unused_for :: duration
  tr_fetch_every :: duration
  tr_last_used_at :: time
  tr_added_at :: time
  tr_last_synced_at :: time

definition effective_access :: "tracked_repo \<Rightarrow> time \<Rightarrow> access" where
  "effective_access r now =
     (if tr_access r = AccessUnset then AccessReadOnly
      else if tr_drop_to_read_only_at r \<noteq> 0 \<and> tr_drop_to_read_only_at r < now then AccessReadOnly
      else tr_access r)"

definition visible_to :: "tracked_repo \<Rightarrow> string \<Rightarrow> bool" where
  "visible_to r name = (tr_channels r = [] \<or> (\<exists>c \<in> set (tr_channels r). c = name))"

definition valid_access :: "access \<Rightarrow> bool" where
  "valid_access a =
     (case a of AccessReadOnly \<Rightarrow> True | AccessPullRequestsOnly \<Rightarrow> True
              | AccessFullWrite \<Rightarrow> True | _ \<Rightarrow> False)"

definition valid_access_tiers :: "access list" where
  "valid_access_tiers = [AccessReadOnly, AccessPullRequestsOnly, AccessFullWrite]"

definition allows_push :: "access \<Rightarrow> bool" where
  "allows_push a = (a = AccessPullRequestsOnly \<or> a = AccessFullWrite)"

definition access_rank :: "access \<Rightarrow> nat" where
  "access_rank a = (case a of AccessPullRequestsOnly \<Rightarrow> 1 | AccessFullWrite \<Rightarrow> 2 | _ \<Rightarrow> 0)"

definition exceeds :: "access \<Rightarrow> access \<Rightarrow> bool" where
  "exceeds a b = (access_rank b < access_rank a)"

lemma valid_access_iff: "valid_access a \<longleftrightarrow> a \<in> set valid_access_tiers"
  by (cases a) (simp_all add: valid_access_def valid_access_tiers_def)

lemma allows_push_iff: "allows_push a \<longleftrightarrow> 0 < access_rank a"
  by (cases a) (simp_all add: allows_push_def access_rank_def)

lemma effective_access_rank: "access_rank (effective_access r now) \<le> access_rank (tr_access r)"
  by (simp add: effective_access_def access_rank_def)

lemma effective_access_antimono:
  "now \<le> later \<Longrightarrow> access_rank (effective_access r later) \<le> access_rank (effective_access r now)"
  by (auto simp: effective_access_def access_rank_def)

text \<open>
  A tier in force never exceeds the tier granted, an elapsed or unset grant is read-only,
  and access only falls with time: once a grant has lapsed, no later moment brings it back.
\<close>

theorem effective_access_least_privilege:
  "\<not> exceeds (effective_access r now) (tr_access r) \<and>
   (tr_access r = AccessUnset \<or> (tr_drop_to_read_only_at r \<noteq> 0 \<and> tr_drop_to_read_only_at r < now) \<longrightarrow>
      effective_access r now = AccessReadOnly \<and> \<not> allows_push (effective_access r now)) \<and>
   (now \<le> later \<longrightarrow> \<not> exceeds (effective_access r later) (effective_access r now))"
  using effective_access_rank [of r now] effective_access_antimono [of now later r]
  by (auto simp: exceeds_def not_less effective_access_def allows_push_def)

definition sample_repo :: tracked_repo where
  "sample_repo =
     \<lparr>tr_name = ''app'', tr_url = ''https://github.com/o/app'', tr_branch = ''main'',
      tr_last_seen_commit = [], tr_repo_dir = ''/r/app'', tr_worktree_dir = [], tr_managed = True,
      tr_channels = [''dev''], tr_description = [], tr_credential = [],
      tr_access = AccessPullRequestsOnly, tr_drop_to_read_only_at = 100,
      tr_drop_clone_if_unused_for = 0, tr_fetch_every = 0, tr_last_used_at = 0,
      tr_added_at = 1, tr_last_synced_at = 0\<rparr>"

theorem effective_access_least_privilege_witness:
  "effective_access sample_repo 100 = AccessPullRequestsOnly \<and>
   effective_access sample_repo 101 = AccessReadOnly \<and>
   \<not> exceeds (effective_access sample_repo 101) (effective_access sample_repo 100)"
proof -
  have "\<not> exceeds (effective_access sample_repo 101) (effective_access sample_repo 100)"
    using effective_access_least_privilege [of sample_repo 100 101] by simp
  then show ?thesis by (simp add: effective_access_def sample_repo_def)
qed

subsection \<open>The store of tracked repos\<close>

type_synonym repo_map = "(string \<times> tracked_repo) list"

datatype repo_error =
    RepoRead store_error | RepoParse | RepoSave store_error
  | NoTrackedRepos | NoSuchRepo string | AmbiguousRepo "string list"

definition repos_key :: string where "repos_key = ''tracked_repos''"

text \<open>\<open>data == nil\<close> is the only empty case here: a file of no bytes fails to decode.\<close>

definition repos_decode :: "repo_map doc option \<Rightarrow> repo_error + repo_map" where
  "repos_decode d =
     (case d of None \<Rightarrow> Inr [] | Some (Doc m) \<Rightarrow> Inr m | Some _ \<Rightarrow> Inl RepoParse)"

definition repo_list :: "repo_map store \<Rightarrow> (repo_error + repo_map) \<times> repo_map store" where
  "repo_list st =
     (case store_get repos_key st of
        (Inl e, st') \<Rightarrow> (Inl (RepoRead e), st')
      | (Inr d, st') \<Rightarrow> (repos_decode d, st'))"

definition repo_save :: "repo_map \<Rightarrow> repo_map store \<Rightarrow> repo_error option \<times> repo_map store" where
  "repo_save m st =
     (case store_set repos_key m st of
        (Some e, st') \<Rightarrow> (Some (RepoSave e), st')
      | (None, st') \<Rightarrow> (None, st'))"

definition repo_get ::
  "string \<Rightarrow> repo_map store \<Rightarrow> (repo_error + tracked_repo option) \<times> repo_map store" where
  "repo_get name st =
     (case repo_list st of
        (Inl e, st') \<Rightarrow> (Inl e, st')
      | (Inr m, st') \<Rightarrow> (Inr (map_of m name), st'))"

definition repo_put :: "tracked_repo \<Rightarrow> repo_map store \<Rightarrow> repo_error option \<times> repo_map store" where
  "repo_put r st =
     (case repo_list st of
        (Inl e, st') \<Rightarrow> (Some e, st')
      | (Inr m, st') \<Rightarrow> repo_save (AList.update (tr_name r) r m) st')"

definition repo_delete :: "string \<Rightarrow> repo_map store \<Rightarrow> repo_error option \<times> repo_map store" where
  "repo_delete name st =
     (case repo_list st of
        (Inl e, st') \<Rightarrow> (Some e, st')
      | (Inr m, st') \<Rightarrow> repo_save (AList.delete name m) st')"

definition repo_resolve ::
  "string \<Rightarrow> repo_map store \<Rightarrow> (repo_error + tracked_repo) \<times> repo_map store" where
  "repo_resolve name st =
     (case repo_list st of
        (Inl e, st') \<Rightarrow> (Inl e, st')
      | (Inr m, st') \<Rightarrow>
          (if m = [] then Inl NoTrackedRepos
           else if name \<noteq> [] then
             (case map_of m name of None \<Rightarrow> Inl (NoSuchRepo name) | Some r \<Rightarrow> Inr r)
           else (case m of [(n, r)] \<Rightarrow> Inr r | _ \<Rightarrow> Inl (AmbiguousRepo (map fst m))), st'))"

definition repo_view :: "repo_map store \<Rightarrow> repo_error + repo_map" where
  "repo_view st = repos_decode (store_view st repos_key)"

lemma repo_list_view: "repo_list st = (Inr m, st') \<Longrightarrow> repo_view st = Inr m"
  by (auto simp: repo_list_def repo_view_def split: prod.splits sum.splits dest: fs.get_ok)

lemma repo_list_frame: "repo_list st = (r, st') \<Longrightarrow> store_view st' = store_view st"
  by (auto simp: repo_list_def split: prod.splits sum.splits dest: fs.get_frame)

lemma repo_save_ok: "repo_save m st = (None, st') \<Longrightarrow> repo_view st' = Inr m"
  by (auto simp: repo_save_def repo_view_def repos_decode_def split: prod.splits option.splits dest: fs.set_ok)

lemma repo_put_ok:
  "repo_put r st = (None, st') \<Longrightarrow>
     \<exists>m. repo_view st = Inr m \<and> repo_view st' = Inr (AList.update (tr_name r) r m)"
  by (auto simp: repo_put_def split: prod.splits sum.splits dest!: repo_list_view repo_save_ok)

lemma repo_delete_ok:
  "repo_delete n st = (None, st') \<Longrightarrow>
     \<exists>m. repo_view st = Inr m \<and> repo_view st' = Inr (AList.delete n m)"
  by (auto simp: repo_delete_def split: prod.splits sum.splits dest!: repo_list_view repo_save_ok)

lemma repo_get_view:
  "repo_get n st = (Inr r, st') \<Longrightarrow> \<exists>m. repo_view st = Inr m \<and> r = map_of m n"
  by (auto simp: repo_get_def split: prod.splits sum.splits dest!: repo_list_view)

lemma repo_get_frame: "repo_get n st = (r, st') \<Longrightarrow> store_view st' = store_view st"
  by (auto simp: repo_get_def split: prod.splits sum.splits dest!: repo_list_frame)

lemma repo_put_lookup:
  "repo_put r st = (None, st') \<Longrightarrow> repo_get n st' = (Inr x, st'') \<Longrightarrow>
     \<exists>m. repo_view st = Inr m \<and> x = (if n = tr_name r then Some r else map_of m n)"
  by (cases "n = tr_name r") (auto dest!: repo_put_ok repo_get_view simp: update_conv')

lemma repo_delete_lookup:
  "repo_delete k st = (None, st') \<Longrightarrow> repo_get n st' = (Inr x, st'') \<Longrightarrow>
     \<exists>m. repo_view st = Inr m \<and> x = (if n = k then None else map_of m n)"
  by (cases "n = k") (auto dest!: repo_delete_ok repo_get_view simp: delete_conv')

end
