(* ===== verification/GitProxy.thy ===== *)
theory GitProxy
  imports Repo
begin

text \<open>
  The per-user git proxy (\<open>internal/gitproxy\<close>): reading the ref commands at the head of a push
  (\<open>refs.go\<close>), the access tiers enforced on it and the request handler (\<open>gitproxy.go\<close>), and
  the lookup that resolves a tracked repo for it (\<open>router/repos.go\<close>).

  A request body is its list of bytes; a read error while the commands are read is a body that
  ends early, which the code treats the same way. The rest of the body is the packfile. An
  \<open>int\<close> length is \<open>decoded[0]<<8 | decoded[1]\<close>, at most 65535, so it is a \<open>nat\<close> here.
\<close>

subsection \<open>Ref commands\<close>

definition command_section_limit :: nat where
  "command_section_limit = 64 * 1024"

definition zero_oid :: string where
  "zero_oid = replicate 40 (CHR ''0'')"

record ref_command =
  rc_old_oid :: string
  rc_new_oid :: string
  rc_ref :: string

definition is_delete :: "ref_command \<Rightarrow> bool" where
  "is_delete c = (rc_new_oid c = zero_oid)"

datatype parse_error =
  ReadLengthFailed | MalformedLength | LengthTooShort nat | ReadPayloadFailed | MalformedCommand

definition parse_pkt_length :: "string \<Rightarrow> nat option" where
  "parse_pkt_length raw =
     (case hex_decode raw of
        None \<Rightarrow> None
      | Some bs \<Rightarrow> (case bs of [h, l] \<Rightarrow> Some (256 * h + l) | _ \<Rightarrow> None))"

definition parse_ref_command :: "string \<Rightarrow> ref_command option" where
  "parse_ref_command payload =
     (let payload = takeWhile (\<lambda>c. c \<noteq> CHR 0x00) payload;
          payload = rev (dropWhile (\<lambda>c. c = CHR 0x0A) (rev payload))
      in case str_fields payload of
           [a, b, c] \<Rightarrow> Some \<lparr>rc_old_oid = a, rc_new_oid = b, rc_ref = c\<rparr>
         | _ \<Rightarrow> None)"

function parse_commands_loop ::
  "string \<Rightarrow> string \<Rightarrow> ref_command list \<Rightarrow> parse_error + ref_command list \<times> string" where
  "parse_commands_loop input seen commands =
     (let length_hex = take 4 input; seen' = seen @ length_hex
      in if length length_hex < 4 then Inl ReadLengthFailed
         else case parse_pkt_length length_hex of
                None \<Rightarrow> Inl MalformedLength
              | Some n \<Rightarrow>
                  if n = 0 then Inr (commands, seen')
                  else if n < 4 then Inl (LengthTooShort n)
                  else let payload = take (n - 4) (drop 4 input)
                       in if length payload < n - 4 then Inl ReadPayloadFailed
                          else case parse_ref_command payload of
                                 None \<Rightarrow> Inl MalformedCommand
                               | Some c \<Rightarrow>
                                   parse_commands_loop (drop n input) (seen' @ payload) (commands @ [c]))"
  by pat_completeness auto
termination
  by (relation "measure (\<lambda>(input, seen, commands). length input)") auto

declare parse_commands_loop.simps [simp del]

definition parse_ref_commands :: "string \<Rightarrow> parse_error + ref_command list \<times> string" where
  "parse_ref_commands body = parse_commands_loop (take command_section_limit body) [] []"

datatype push_refusal =
    RefuseReadOnly | RefuseEncoding string | RefuseUnreadable parse_error
  | RefuseNoUpdates | RefuseDefaultBranch string | RefuseNotBranch string

definition heads_prefix :: string where "heads_prefix = ''refs/heads/''"

fun check_refs :: "string \<Rightarrow> ref_command list \<Rightarrow> string \<Rightarrow> push_refusal option" where
  "check_refs default_ref [] branch = None"
| "check_refs default_ref (c # cs) branch =
     (if rc_ref c = default_ref then Some (RefuseDefaultBranch branch)
      else if \<not> has_prefix (rc_ref c) heads_prefix then Some (RefuseNotBranch (rc_ref c))
      else check_refs default_ref cs branch)"

definition check_pull_requests_only :: "ref_command list \<Rightarrow> string \<Rightarrow> push_refusal option" where
  "check_pull_requests_only commands default_branch =
     (if commands = [] then Some RefuseNoUpdates
      else check_refs (heads_prefix @ default_branch) commands default_branch)"

subsection \<open>The request handler\<close>

record proxy_repo =
  pr_path :: string
  pr_access :: access
  pr_default_branch :: string
  pr_token :: string

record git_request =
  rq_method :: string
  rq_host :: string
  rq_path :: string
  rq_service :: string
  rq_encoding :: string
  rq_auth :: "string option"
  rq_body :: string

datatype operation = OperationFetch | OperationPush

datatype proxy_reply =
    NotFound | Forbidden "push_refusal option" | LookupFailed
  | Forwarded git_request

definition classify :: "string \<Rightarrow> string \<Rightarrow> operation option" where
  "classify endpoint service =
     (if endpoint = ''info/refs'' then
        (if service = ''git-upload-pack'' then Some OperationFetch
         else if service = ''git-receive-pack'' then Some OperationPush
         else None)
      else if endpoint = ''git-upload-pack'' then Some OperationFetch
      else if endpoint = ''git-receive-pack'' then Some OperationPush
      else None)"

definition git_suffix :: string where "git_suffix = ''.git/''"

definition split_proxy_path :: "string \<Rightarrow> (string \<times> string) option" where
  "split_proxy_path path =
     (let trimmed = trim_prefix path [slash]
      in case index_of trimmed git_suffix of
           None \<Rightarrow> None
         | Some i \<Rightarrow>
             if i = 0 then None
             else let name = take i trimmed; endpoint = drop (i + length git_suffix) trimmed
                  in if name = [] \<or> endpoint = [] \<or> str_contains name [slash] then None
                     else Some (name, endpoint))"

definition upstream_path :: "proxy_repo \<Rightarrow> string \<Rightarrow> string" where
  "upstream_path r path =
     (case split_proxy_path path of
        None \<Rightarrow> path
      | Some (name, endpoint) \<Rightarrow> [slash] @ pr_path r @ git_suffix @ endpoint)"

text \<open>
  \<open>checkPush\<close>: the refusal, if any, and the body as it is replayed to the upstream. The bytes
  read while inspecting the commands are put back in front of what is still on the wire.
\<close>

definition replayed_body :: "string \<Rightarrow> string \<Rightarrow> string" where
  "replayed_body consumed body = consumed @ drop (length consumed) body"

definition check_push :: "git_request \<Rightarrow> proxy_repo \<Rightarrow> push_refusal option \<times> git_request" where
  "check_push r resolved =
     (if pr_access resolved = AccessFullWrite then (None, r)
      else if pr_access resolved \<noteq> AccessPullRequestsOnly then (Some RefuseReadOnly, r)
      else if rq_method r \<noteq> ''POST'' then (None, r)
      else if rq_encoding r \<noteq> [] then (Some (RefuseEncoding (rq_encoding r)), r)
      else case parse_ref_commands (rq_body r) of
             Inl e \<Rightarrow> (Some (RefuseUnreadable e), r)
           | Inr (commands, consumed) \<Rightarrow>
               (check_pull_requests_only commands (pr_default_branch resolved),
                r\<lparr>rq_body := replayed_body consumed (rq_body r)\<rparr>))"

text \<open>The reverse proxy's \<open>Director\<close>: the host is the configured upstream's, the path is
  rewritten, the credentials replaced.\<close>

definition default_upstream :: string where "default_upstream = ''github.com''"

definition director :: "string \<Rightarrow> proxy_repo \<Rightarrow> git_request \<Rightarrow> git_request" where
  "director upstream resolved r =
     (let r' = r\<lparr>rq_host := upstream, rq_path := upstream_path resolved (rq_path r)\<rparr>
      in if pr_token resolved \<noteq> [] then r'\<lparr>rq_auth := Some (pr_token resolved)\<rparr> else r')"

definition handle_git ::
  "string \<Rightarrow> (string \<Rightarrow> 'e + proxy_repo option) \<Rightarrow> git_request \<Rightarrow> proxy_reply" where
  "handle_git upstream repos r =
     (case split_proxy_path (rq_path r) of
        None \<Rightarrow> NotFound
      | Some (name, endpoint) \<Rightarrow>
          (case classify endpoint (rq_service r) of
             None \<Rightarrow> Forbidden None
           | Some op \<Rightarrow>
               (case repos name of
                  Inl e \<Rightarrow> LookupFailed
                | Inr None \<Rightarrow> NotFound
                | Inr (Some resolved) \<Rightarrow>
                    if op = OperationPush then
                      (case check_push r resolved of
                         (Some reason, r') \<Rightarrow> Forbidden (Some reason)
                       | (None, r') \<Rightarrow> Forwarded (director upstream resolved r'))
                    else Forwarded (director upstream resolved r))))"

definition remote_url :: "string \<Rightarrow> string \<Rightarrow> string" where
  "remote_url addr name =
     (if addr = [] then [] else ''http://'' @ addr @ [slash] @ name @ ''.git'')"

subsection \<open>What the proxy is told of a tracked repo\<close>

text \<open>
  \<open>url_path\<close> stands for the path component \<open>net/url\<close> parses out of the repo's URL, \<open>None\<close>
  where it rejects the URL.
\<close>

datatype lookup_error = RepoLookupFailed repo_error | UpstreamPathUnknown

definition trim_slashes :: "string \<Rightarrow> string" where
  "trim_slashes s =
     rev (dropWhile (\<lambda>c. c = slash) (rev (dropWhile (\<lambda>c. c = slash) s)))"

definition repo_path_from_url :: "(string \<Rightarrow> string option) \<Rightarrow> string \<Rightarrow> string option" where
  "repo_path_from_url url_path url =
     (case url_path url of
        None \<Rightarrow> None
      | Some p \<Rightarrow>
          let path = trim_suffix (trim_slashes p) ''.git''
          in if path = [] then None else Some path)"

text \<open>\<open>token\<close> is what the secret store holds in the slot, empty when it could not be read.\<close>

definition git_proxy_lookup ::
  "(string \<Rightarrow> string option) \<Rightarrow> (string \<Rightarrow> string) \<Rightarrow> time \<Rightarrow> repo_map store \<Rightarrow> string \<Rightarrow>
     lookup_error + proxy_repo option" where
  "git_proxy_lookup url_path token now st name =
     (case repo_get name st of
        (Inl e, _) \<Rightarrow> Inl (RepoLookupFailed e)
      | (Inr None, _) \<Rightarrow> Inr None
      | (Inr (Some tracked), _) \<Rightarrow>
          (case repo_path_from_url url_path (tr_url tracked) of
             None \<Rightarrow> Inl UpstreamPathUnknown
           | Some path \<Rightarrow>
               Inr (Some \<lparr>pr_path = path, pr_access = effective_access tracked now,
                          pr_default_branch = tr_branch tracked,
                          pr_token = trim_space (token (tr_credential tracked))\<rparr>)))"

subsection \<open>The bytes inspected are the bytes forwarded\<close>

lemma parse_loop_consumed:
  "parse_commands_loop input seen commands = Inr (cs, consumed) \<Longrightarrow>
     \<exists>p q. input = p @ q \<and> consumed = seen @ p"
proof (induction input seen commands rule: parse_commands_loop.induct)
  case (1 input seen commands)
  from "1.prems" obtain n where len: "\<not> length (take 4 input) < 4"
    and n: "parse_pkt_length (take 4 input) = Some n"
    by (subst (asm) parse_commands_loop.simps) (auto simp: Let_def split: if_splits option.splits)
  show ?case
  proof (cases "n = 0")
    case True
    with "1.prems" len n have "consumed = seen @ take 4 input"
      by (subst (asm) parse_commands_loop.simps) simp
    then show ?thesis by (metis append_take_drop_id)
  next
    case False
    let ?pl = "take (n - 4) (drop 4 input)"
    from "1.prems" len n False obtain c where
      n4: "\<not> n < 4" and pl: "\<not> length ?pl < n - 4" and c: "parse_ref_command ?pl = Some c"
      and rec: "parse_commands_loop (drop n input) ((seen @ take 4 input) @ ?pl) (commands @ [c])
                  = Inr (cs, consumed)"
      by (subst (asm) parse_commands_loop.simps) (auto simp: Let_def split: if_splits option.splits)
    from "1.IH" [OF refl refl len n False n4 refl pl c rec] obtain p q where
      pq: "drop n input = p @ q" "consumed = ((seen @ take 4 input) @ ?pl) @ p" by blast
    have "take 4 input @ ?pl = take n input"
      using n4 by (metis le_add_diff_inverse not_less take_add)
    with pq have "input = (take n input @ p) @ q \<and> consumed = seen @ (take n input @ p)"
      by (metis append.assoc append_take_drop_id)
    then show ?thesis by blast
  qed
qed

lemma replayed_body_id:
  "parse_ref_commands body = Inr (cs, consumed) \<Longrightarrow> replayed_body consumed body = body"
proof -
  assume "parse_ref_commands body = Inr (cs, consumed)"
  then obtain p q where "take command_section_limit body = p @ q" "consumed = p"
    using parse_loop_consumed by (fastforce simp: parse_ref_commands_def)
  then have "body = consumed @ q @ drop command_section_limit body"
    by (metis append.assoc append_take_drop_id)
  then show ?thesis by (metis replayed_body_def append_eq_conv_conj)
qed

lemma check_push_request [simp]: "snd (check_push r resolved) = r"
  by (auto simp: check_push_def replayed_body_id split: sum.splits)

lemma check_push_result: "check_push r resolved = (x, r') \<Longrightarrow> r' = r"
  using check_push_request [of r resolved] by simp

subsection \<open>What a wire-format push is read as\<close>

definition hex4 :: "nat \<Rightarrow> string" where
  "hex4 n = [hex_digit (n div 4096), hex_digit (n div 256 mod 16),
             hex_digit (n div 16 mod 16), hex_digit (n mod 16)]"

definition command_payload :: "ref_command \<times> string option \<Rightarrow> string" where
  "command_payload cc =
     rc_old_oid (fst cc) @ '' '' @ rc_new_oid (fst cc) @ '' '' @ rc_ref (fst cc) @
     (case snd cc of None \<Rightarrow> [] | Some caps \<Rightarrow> CHR 0x00 # caps)"

definition pkt_line :: "string \<Rightarrow> string" where
  "pkt_line payload = hex4 (length payload + 4) @ payload"

definition encode_push :: "(ref_command \<times> string option) list \<Rightarrow> string" where
  "encode_push cs = concat (map (\<lambda>c. pkt_line (command_payload c)) cs) @ ''0000''"

definition wire_word :: "string \<Rightarrow> bool" where
  "wire_word w = (plain_word w \<and> CHR 0x00 \<notin> set w)"

definition wire_command :: "ref_command \<times> string option \<Rightarrow> bool" where
  "wire_command cc =
     (wire_word (rc_old_oid (fst cc)) \<and> wire_word (rc_new_oid (fst cc)) \<and>
      wire_word (rc_ref (fst cc)) \<and> length (command_payload cc) + 4 < 65536)"

lemma nibbles:
  "n = 16 * a + r \<Longrightarrow> a = 16 * b + s \<Longrightarrow> b = 16 * c + t \<Longrightarrow>
     256 * (16 * c + t) + (16 * s + r) = (n::nat)"
  by simp

lemma parse_pkt_length_hex4 [simp]: "n < 65536 \<Longrightarrow> parse_pkt_length (hex4 n) = Some n"
proof -
  assume n: "n < 65536"
  then have "n div 4096 < 16" by simp
  moreover have "256 * (16 * (n div 4096) + n div 256 mod 16) + (16 * (n div 16 mod 16) + n mod 16) = n"
  proof -
    have d: "n div 256 = n div 16 div 16" "n div 4096 = n div 16 div 16 div 16"
      by (simp_all add: div_mult2_eq [symmetric])
    have "n = 16 * (n div 16) + n mod 16"
      "n div 16 = 16 * (n div 16 div 16) + n div 16 mod 16"
      "n div 16 div 16 = 16 * (n div 16 div 16 div 16) + n div 16 div 16 mod 16"
      by simp_all
    then show ?thesis unfolding d by (rule nibbles)
  qed
  ultimately show ?thesis by (simp add: parse_pkt_length_def hex4_def)
qed

lemma length_hex4 [simp]: "length (hex4 n) = 4"
  by (simp add: hex4_def)

lemma take_hex4 [simp]: "take 4 (hex4 n @ s) = hex4 n" "drop 4 (hex4 n @ s) = s"
  by simp_all

lemma plain_word_no_newline: "plain_word w \<Longrightarrow> CHR 0x0A \<notin> set w"
  by (auto simp: plain_word_def list_all_iff plain_char_def ascii_spaces_def)

lemma parse_command_payload:
  assumes "wire_command cc"
  shows "parse_ref_command (command_payload cc) = Some (fst cc)"
proof -
  obtain c caps where cc: "cc = (c, caps)" by fastforce
  let ?w = "rc_old_oid c @ '' '' @ rc_new_oid c @ '' '' @ rc_ref c"
  have words: "plain_word (rc_old_oid c)" "plain_word (rc_new_oid c)" "plain_word (rc_ref c)"
    and nul: "CHR 0x00 \<notin> set ?w"
    using assms by (auto simp: cc wire_command_def wire_word_def)
  define X where "X = (case caps of None \<Rightarrow> [] | Some cs \<Rightarrow> CHR 0x00 # cs)"
  have "takeWhile (\<lambda>c. c \<noteq> CHR 0x00) (?w @ X) = ?w @ takeWhile (\<lambda>c. c \<noteq> CHR 0x00) X"
    by (rule takeWhile_append2) (use nul in auto)
  moreover have "takeWhile (\<lambda>c. c \<noteq> CHR 0x00) X = []"
    by (simp add: X_def split: option.split)
  moreover have "command_payload cc = ?w @ X"
    by (simp add: cc command_payload_def X_def)
  ultimately have tw: "takeWhile (\<lambda>c. c \<noteq> CHR 0x00) (command_payload cc) = ?w"
    by simp
  have ne: "rc_ref c \<noteq> []" using words(3) by (simp add: plain_word_def)
  moreover have "last (rc_ref c) \<noteq> CHR 0x0A"
    using last_in_set [OF ne] plain_word_no_newline [OF words(3)] by metis
  ultimately have dw: "rev (dropWhile (\<lambda>c. c = CHR 0x0A) (rev ?w)) = ?w"
    by (cases "rc_ref c" rule: rev_cases) auto
  show ?thesis
    unfolding parse_ref_command_def Let_def tw dw
    using str_fields_three [OF words] by (simp add: cc)
qed

lemma parse_loop_pkt_line:
  assumes "wire_command cc"
  shows "parse_commands_loop (pkt_line (command_payload cc) @ rest) seen commands =
         parse_commands_loop rest (seen @ pkt_line (command_payload cc)) (commands @ [fst cc])"
proof -
  let ?p = "command_payload cc" let ?n = "length ?p + 4"
  have n: "?n < 65536" using assms by (simp add: wire_command_def)
  have d: "drop ?n (hex4 ?n @ ?p @ rest) = rest" by simp
  show ?thesis
    by (subst parse_commands_loop.simps)
      (simp add: pkt_line_def n d parse_command_payload [OF assms] Let_def)
qed

lemma flush_length [simp]: "parse_pkt_length ''0000'' = Some 0"
  by (simp add: parse_pkt_length_def hex_val_def)

lemma parse_loop_encode:
  "list_all wire_command cs \<Longrightarrow>
     parse_commands_loop (encode_push cs @ rest) seen commands
       = Inr (commands @ map fst cs, seen @ encode_push cs)"
proof (induction cs arbitrary: seen commands)
  case Nil
  show ?case
    by (subst parse_commands_loop.simps) (simp add: encode_push_def)
next
  case (Cons c cs)
  have split: "encode_push (c # cs) = pkt_line (command_payload c) @ encode_push cs"
    by (simp add: encode_push_def)
  from Cons show ?case by (simp add: split parse_loop_pkt_line)
qed

lemma parse_encode_push:
  assumes "list_all wire_command cs" and "length (encode_push cs) \<le> command_section_limit"
  shows "parse_ref_commands (encode_push cs @ pack) = Inr (map fst cs, encode_push cs)"
proof -
  have "take command_section_limit (encode_push cs @ pack) =
        encode_push cs @ take (command_section_limit - length (encode_push cs)) pack"
    using assms(2) by simp
  with assms(1) show ?thesis by (simp add: parse_ref_commands_def parse_loop_encode)
qed

subsection \<open>What the gate lets through\<close>

definition allowed_ref :: "string \<Rightarrow> string \<Rightarrow> bool" where
  "allowed_ref branch ref = (has_prefix ref heads_prefix \<and> ref \<noteq> heads_prefix @ branch)"

lemma check_refs_None:
  "check_refs (heads_prefix @ b) cs b = None \<longleftrightarrow> (\<forall>c \<in> set cs. allowed_ref b (rc_ref c))"
  by (induction cs) (auto simp: allowed_ref_def)

lemma check_pull_requests_None:
  "check_pull_requests_only cs b = None \<longleftrightarrow> cs \<noteq> [] \<and> (\<forall>c \<in> set cs. allowed_ref b (rc_ref c))"
  by (simp add: check_pull_requests_only_def check_refs_None)

lemma split_proxy_path_Some:
  assumes "split_proxy_path p = Some (n, e)"
  shows "trim_prefix p [slash] = n @ git_suffix @ e \<and> n \<noteq> [] \<and> e \<noteq> [] \<and> slash \<notin> set n"
proof -
  from assms obtain i where i: "index_of (trim_prefix p [slash]) git_suffix = Some i"
    and n: "n = take i (trim_prefix p [slash])"
    and e: "e = drop (i + length git_suffix) (trim_prefix p [slash])"
    and side: "n \<noteq> []" "e \<noteq> []" "\<not> str_contains n [slash]"
    by (auto simp: split_proxy_path_def Let_def split: option.splits if_splits)
  from index_of_Some [OF i] obtain a b where
    "trim_prefix p [slash] = a @ git_suffix @ b" "length a = i" by blast
  with n e side show ?thesis by (simp add: str_contains_single)
qed

lemma forwardedD:
  assumes "handle_git up repos r = Forwarded r'"
  shows "\<exists>name ep op resolved.
           split_proxy_path (rq_path r) = Some (name, ep) \<and> classify ep (rq_service r) = Some op \<and>
           repos name = Inr (Some resolved) \<and> r' = director up resolved r \<and>
           (op = OperationPush \<longrightarrow> fst (check_push r resolved) = None)"
  using assms
  by (auto simp: handle_git_def split: option.splits prod.splits sum.splits if_splits
      dest: check_push_result)

lemma fst_check_push_None:
  "fst (check_push r p) = None \<longleftrightarrow>
     pr_access p = AccessFullWrite \<or>
     (pr_access p = AccessPullRequestsOnly \<and>
      (rq_method r \<noteq> ''POST'' \<or>
       (rq_encoding r = [] \<and>
        (\<exists>cs used. parse_ref_commands (rq_body r) = Inr (cs, used) \<and>
                  check_pull_requests_only cs (pr_default_branch p) = None))))"
  by (auto simp: check_push_def split: sum.splits)

lemma push_gate:
  assumes "split_proxy_path (rq_path r) = Some (name, ''git-receive-pack'')"
    and "repos name = Inr (Some p)"
  shows "(\<exists>r'. handle_git up repos r = Forwarded r') \<longleftrightarrow> fst (check_push r p) = None"
  using assms
  by (auto simp: handle_git_def classify_def split: prod.splits option.splits)

text \<open>
  C30. The ref commands of a push are read exactly: take any list of commands whose fields are words,
  each with or without capabilities, whose wire encoding is not longer than the 64 KiB the proxy
  reads of a command section. Followed by any packfile, the encoding is read back as that list, and
  the bytes consumed are the encoding alone, so the packfile is untouched.
\<close>

theorem ref_commands_roundtrip:
  assumes "list_all wire_command cs" and "length (encode_push cs) \<le> command_section_limit"
  shows "parse_ref_commands (encode_push cs @ pack) = Inr (map fst cs, encode_push cs)"
  using assms by (rule parse_encode_push)

theorem ref_commands_roundtrip_witness:
  "parse_ref_commands
     (encode_push [(\<lparr>rc_old_oid = ''0a'', rc_new_oid = ''1b'', rc_ref = ''refs/heads/x''\<rparr>,
                    Some ''side-band'')] @ ''PACK'') =
   Inr ([\<lparr>rc_old_oid = ''0a'', rc_new_oid = ''1b'', rc_ref = ''refs/heads/x''\<rparr>],
        encode_push [(\<lparr>rc_old_oid = ''0a'', rc_new_oid = ''1b'', rc_ref = ''refs/heads/x''\<rparr>,
                      Some ''side-band'')])"
proof -
  let ?c = "\<lparr>rc_old_oid = ''0a'', rc_new_oid = ''1b'', rc_ref = ''refs/heads/x''\<rparr>"
  have "list_all wire_command [(?c, Some ''side-band'')]"
    by (simp add: wire_command_def wire_word_def plain_word_def plain_char_def
        ascii_spaces_def command_payload_def)
  moreover have "length (encode_push [(?c, Some ''side-band'')]) \<le> command_section_limit"
    by (simp add: encode_push_def pkt_line_def command_payload_def command_section_limit_def)
  ultimately show ?thesis
    using ref_commands_roundtrip [of "[(?c, Some ''side-band'')]" "''PACK''"] by simp
qed

text \<open>
  C27. The access tiers decide a push POST whose body encodes commands \<open>cs\<close> within the 64 KiB the
  proxy reads of a command section. It gets past the gate exactly when the repo is at full write, or
  at pull-requests-only with no content encoding, at least one command, and every command on a
  branch other than the protected one. What is forwarded carries the very body that was inspected.
  Longer command sections, and bodies that are not such an encoding, are outside of this claim.
\<close>

theorem push_gate_exact:
  assumes "split_proxy_path (rq_path r) = Some (name, ''git-receive-pack'')"
    and "repos name = Inr (Some p)"
    and "rq_method r = ''POST''"
    and "rq_body r = encode_push cs @ pack"
    and "list_all wire_command cs" and "length (encode_push cs) \<le> command_section_limit"
  shows "((\<exists>r'. handle_git up repos r = Forwarded r') \<longleftrightarrow>
          pr_access p = AccessFullWrite \<or>
          (pr_access p = AccessPullRequestsOnly \<and> rq_encoding r = [] \<and> cs \<noteq> [] \<and>
           (\<forall>c \<in> set cs. allowed_ref (pr_default_branch p) (rc_ref (fst c))))) \<and>
         (\<forall>r'. handle_git up repos r = Forwarded r' \<longrightarrow> rq_body r' = encode_push cs @ pack)"
proof -
  note gate = push_gate [of r name repos p up, OF assms(1,2)]
  have "rq_body r' = encode_push cs @ pack" if "handle_git up repos r = Forwarded r'" for r'
    using forwardedD [OF that] assms(4) by (auto simp: director_def Let_def)
  then show ?thesis
    using gate assms(3,4) parse_encode_push [OF assms(5,6), of pack]
    by (auto simp: fst_check_push_None check_pull_requests_None)
qed

definition sample_push :: "string \<Rightarrow> git_request" where
  "sample_push ref =
     \<lparr>rq_method = ''POST'', rq_host = ''127.0.0.1'', rq_path = ''/app.git/git-receive-pack'',
      rq_service = [], rq_encoding = [], rq_auth = None,
      rq_body = encode_push [(\<lparr>rc_old_oid = ''0a'', rc_new_oid = ''1b'', rc_ref = ref\<rparr>, None)] @ ''PACK''\<rparr>"

definition sample_proxy_repo :: proxy_repo where
  "sample_proxy_repo =
     \<lparr>pr_path = ''o/app'', pr_access = AccessPullRequestsOnly, pr_default_branch = ''main'',
      pr_token = ''t''\<rparr>"

lemma sample_push_path:
  "split_proxy_path (rq_path (sample_push ref)) = Some (''app'', ''git-receive-pack'')"
  by (simp add: sample_push_def) code_simp

lemma sample_push_wire:
  "wire_word ref \<Longrightarrow> length ref < 100 \<Longrightarrow>
     list_all wire_command [(\<lparr>rc_old_oid = ''0a'', rc_new_oid = ''1b'', rc_ref = ref\<rparr>, None)] \<and>
     length (encode_push [(\<lparr>rc_old_oid = ''0a'', rc_new_oid = ''1b'', rc_ref = ref\<rparr>, None)])
       \<le> command_section_limit"
  by (simp add: wire_command_def wire_word_def plain_word_def plain_char_def ascii_spaces_def
      command_payload_def encode_push_def pkt_line_def command_section_limit_def)

lemma sample_push_gate:
  assumes "wire_word ref" and "length ref < 100"
  shows "(\<exists>r'. handle_git up (\<lambda>n. Inr (Some sample_proxy_repo) :: unit + proxy_repo option)
          (sample_push ref) = Forwarded r') \<longleftrightarrow> allowed_ref ''main'' ref"
  using push_gate [of "sample_push ref" "''app''"
      "\<lambda>n. Inr (Some sample_proxy_repo) :: unit + proxy_repo option" sample_proxy_repo up]
    sample_push_path sample_push_wire [OF assms] parse_encode_push
  by (simp add: fst_check_push_None check_pull_requests_None sample_push_def sample_proxy_repo_def)

theorem push_gate_exact_witness:
  "(\<exists>r'. handle_git default_upstream (\<lambda>n. Inr (Some sample_proxy_repo) :: unit + proxy_repo option)
          (sample_push ''refs/heads/x'') = Forwarded r') \<and>
   \<not> (\<exists>r'. handle_git default_upstream (\<lambda>n. Inr (Some sample_proxy_repo) :: unit + proxy_repo option)
          (sample_push ''refs/heads/main'') = Forwarded r')"
proof -
  let ?cmd = "\<lambda>ref. [(\<lparr>rc_old_oid = ''0a'', rc_new_oid = ''1b'', rc_ref = ref\<rparr>, None)]"
  have w: "wire_word ''refs/heads/x''" "wire_word ''refs/heads/main''"
    by (simp_all add: wire_word_def plain_word_def plain_char_def ascii_spaces_def)
  have gate: "(\<exists>r'. handle_git default_upstream (\<lambda>n. Inr (Some sample_proxy_repo) :: unit + proxy_repo option)
          (sample_push ref) = Forwarded r') \<longleftrightarrow> allowed_ref ''main'' ref"
    if "wire_word ref" "length ref < 100" for ref
    using push_gate_exact [of "sample_push ref" "''app''"
        "\<lambda>n. Inr (Some sample_proxy_repo) :: unit + proxy_repo option" sample_proxy_repo
        "?cmd ref" "''PACK''" default_upstream] sample_push_path sample_push_wire [OF that]
    by (simp add: sample_push_def sample_proxy_repo_def)
  show ?thesis
    using gate [OF w(1)] gate [OF w(2)] by (simp add: allowed_ref_def heads_prefix_def)
qed

text \<open>
  C26. A repo below push access never has a push forwarded: at read-only, at an unset or an
  unknown tier, neither the push advertisement nor the push itself reaches the upstream, and
  the answer is the read-only refusal. In particular this holds for a tracked repo whose grant
  has lapsed, whatever tier it was granted.
\<close>

theorem no_push_without_access:
  assumes "git_proxy_lookup url_path token now st name = Inr (Some p)"
    and "split_proxy_path (rq_path r) = Some (name, ep)"
    and "classify ep (rq_service r) = Some OperationPush"
    and "map_of m name = Some tracked" and "repo_view st = Inr m"
    and "\<not> allows_push (effective_access tracked now)"
  shows "handle_git up (git_proxy_lookup url_path token now st) r = Forbidden (Some RefuseReadOnly)"
proof -
  from assms(1,4,5) have "pr_access p = effective_access tracked now"
    by (auto simp: git_proxy_lookup_def split: prod.splits sum.splits option.splits
        dest!: repo_get_view)
  with assms(6) have "check_push r p = (Some RefuseReadOnly, r)"
    by (simp add: check_push_def allows_push_def)
  with assms(1-3) show ?thesis by (simp add: handle_git_def)
qed

definition sample_repo_store :: "tracked_repo \<Rightarrow> repo_map store" where
  "sample_repo_store t = fresh_store\<lparr>st_files := [''/data/tracked_repos'' \<mapsto> Doc [(tr_name t, t)]]\<rparr>"

lemma safe_tracked_repos: "safe_path ''/data'' ''tracked_repos'' = Some ''/data/tracked_repos''"
  by code_simp

lemma sample_repo_store_view: "repo_view (sample_repo_store t) = Inr [(tr_name t, t)]"
  by (simp add: repo_view_def store_view_def sample_repo_store_def fresh_store_def repos_key_def
      safe_tracked_repos repos_decode_def)

lemma sample_repo_store_get:
  "repo_get n (sample_repo_store t) = (Inr (map_of [(tr_name t, t)] n), sample_repo_store t)"
  by (simp add: repo_get_def repo_list_def store_get_def sample_repo_store_def fresh_store_def
      repos_key_def safe_tracked_repos data_dir_clean next_io_def repos_decode_def)

theorem no_push_without_access_witness:
  "handle_git default_upstream
     (git_proxy_lookup (\<lambda>u. Some ''/o/app.git'') (\<lambda>c. ''tok'') 200 (sample_repo_store sample_repo))
     (sample_push ''refs/heads/x'') = Forbidden (Some RefuseReadOnly)"
proof -
  let ?look = "git_proxy_lookup (\<lambda>u. Some ''/o/app.git'') (\<lambda>c. ''tok'') 200 (sample_repo_store sample_repo)"
  have path: "repo_path_from_url (\<lambda>u. Some ''/o/app.git'') u = Some ''o/app''" for u
    by (simp add: repo_path_from_url_def) code_simp
  have "\<exists>p. ?look ''app'' = Inr (Some p)"
    by (simp add: git_proxy_lookup_def sample_repo_store_get path sample_repo_def)
  then obtain p where p: "?look ''app'' = Inr (Some p)" by blast
  have cl: "classify ''git-receive-pack'' (rq_service (sample_push ''refs/heads/x'')) = Some OperationPush"
    by (simp add: classify_def)
  show ?thesis
    by (rule no_push_without_access [where tracked = sample_repo,
          OF p sample_push_path cl _ sample_repo_store_view])
      (simp_all add: sample_repo_def effective_access_def allows_push_def)
qed

text \<open>
  Whatever the request, what is forwarded goes to the configured upstream host and to the
  resolved repo's own path on one of git's smart-HTTP endpoints. The name that was looked up
  holds no slash, so no crafted URL reaches another path, and a repo's token replaces any
  credentials the request carried.
\<close>

theorem forwarded_stays_on_upstream:
  assumes "handle_git up repos r = Forwarded r'"
  shows "\<exists>name ep p. repos name = Inr (Some p) \<and> slash \<notin> set name \<and>
           ep \<in> {''info/refs'', ''git-upload-pack'', ''git-receive-pack''} \<and>
           rq_host r' = up \<and> rq_path r' = [slash] @ pr_path p @ git_suffix @ ep \<and>
           rq_body r' = rq_body r \<and>
           rq_auth r' = (if pr_token p = [] then rq_auth r else Some (pr_token p))"
proof -
  from forwardedD [OF assms] obtain name ep op p where
    f: "split_proxy_path (rq_path r) = Some (name, ep)" "classify ep (rq_service r) = Some op"
       "repos name = Inr (Some p)" "r' = director up p r" by blast
  from f(2) have "ep \<in> {''info/refs'', ''git-upload-pack'', ''git-receive-pack''}"
    by (auto simp: classify_def split: if_splits)
  moreover have "slash \<notin> set name" using split_proxy_path_Some [OF f(1)] by simp
  ultimately show ?thesis
    using f by (intro exI [of _ name] exI [of _ ep] exI [of _ p])
      (simp add: director_def upstream_path_def Let_def)
qed

theorem forwarded_stays_on_upstream_witness:
  "\<exists>r'. handle_git default_upstream (\<lambda>n. Inr (Some sample_proxy_repo) :: unit + proxy_repo option)
          (sample_push ''refs/heads/x'') = Forwarded r' \<and>
        rq_host r' = default_upstream \<and> rq_body r' = rq_body (sample_push ''refs/heads/x'') \<and>
        rq_auth r' = Some ''t''"
proof -
  let ?h = "handle_git default_upstream (\<lambda>n. Inr (Some sample_proxy_repo) :: unit + proxy_repo option)
              (sample_push ''refs/heads/x'')"
  have "wire_word ''refs/heads/x''"
    by (simp add: wire_word_def plain_word_def plain_char_def ascii_spaces_def)
  from sample_push_gate [OF this, of default_upstream] obtain r' where r': "?h = Forwarded r'"
    by (auto simp: allowed_ref_def heads_prefix_def)
  with forwarded_stays_on_upstream [OF r'] show ?thesis
    by (auto simp: sample_proxy_repo_def)
qed

text \<open>
  The branch the gate protects is the branch the entry tracks, which need not be the remote's
  default branch.
\<close>

theorem protected_branch_is_tracked_branch:
  assumes "git_proxy_lookup url_path token now st name = Inr (Some p)"
    and "repo_view st = Inr m" and "map_of m name = Some tracked"
  shows "pr_default_branch p = tr_branch tracked \<and>
         (tr_branch tracked \<noteq> ''main'' \<longrightarrow>
            allowed_ref (pr_default_branch p) (heads_prefix @ ''main''))"
  using assms
  by (auto simp: git_proxy_lookup_def allowed_ref_def split: prod.splits sum.splits option.splits
      dest!: repo_get_view)

end
