(* ===== verification/ConfigLoad.thy ===== *)
theory ConfigLoad
  imports ConfigWriter Repo
begin

text \<open>
  Loading the configuration (\<open>internal/config/config.go\<close>): the secrets its references name, the
  checks and the defaults, and what the rest of the program is given. Reading the YAML file is the
  library's work, so a load starts from what it decoded; \<open>boot_lib\<close> holds what the code takes from
  libraries. The process's environment, the keychain and the cache of resolved secrets are the
  \<open>boot_world\<close>. A Go map is the list of its entries in the order the loop meets them.
\<close>

subsection \<open>The configuration\<close>

record credential_slot =
  cs_type :: string
  cs_label :: string
  cs_channel :: string
  cs_description :: string
  cs_fields :: "(string \<times> string) list"

definition slot_id :: "credential_slot \<Rightarrow> string" where
  "slot_id c = cs_type c @ ''/'' @ cs_label c"

record repo_config =
  rc_name :: string
  rc_repo :: string
  rc_branch :: string
  rc_description :: string
  rc_channels :: "string list"
  rc_access :: access
  rc_credential :: string
  rc_fetch_every :: string
  rc_drop_at :: string
  rc_drop_clone :: string
  rc_mount_at :: string

record knowledge_config =
  kc_repo :: string
  kc_mount_at :: string
  kc_commit_name :: string
  kc_commit_email :: string
  kc_dirs :: "(string \<times> string) list"
  kc_links :: "(string \<times> string) list"

record boot_channel = channel_config + bc_token :: "string option"

record boot_user =
  bu_id :: string
  bu_api_key :: string
  bu_model :: model
  bu_permission_mode :: string
  bu_max_turns :: int
  bu_debug :: bool
  bu_output_style :: string
  bu_turn_settings :: turn_settings
  bu_debounce :: string
  bu_allowed :: "tool list"
  bu_disallowed :: "tool list"
  bu_system_prompt :: string
  bu_knowledge :: "knowledge_config option"
  bu_repos :: "repo_config list"
  bu_telegram :: "string option"
  bu_channels :: "boot_channel list"

record egress_settings =
  eg_url :: string
  eg_token :: string
  eg_hosts :: "string list"

record boot_config =
  bo_base_dir :: string
  bo_env :: string
  bo_addr :: string
  bo_public_url :: string
  bo_slots :: "credential_slot list"
  bo_egress :: "egress_settings option"
  bo_users :: "boot_user list"

record boot_lib =
  bl_duration :: "string \<Rightarrow> duration option"
  bl_time :: "string \<Rightarrow> time option"
  bl_marshal :: "boot_config \<Rightarrow> string option"

datatype boot_error =
    ConfigNotRead
  | ConfigNotParsed
  | EnvNotFound
  | ConfigNotDecoded
  | KeychainFailed string
  | SecretNotFound string
  | NotMarshalled
  | UnresolvedRefs "string list"
  | NoUsers
  | BadSlotType string
  | BadSlotLabel string
  | DuplicateSlot string
  | SlotChannelUnknown string
  | UserWithoutId
  | DuplicateUser string
  | UserBad string string
  | ChannelBad string string
  | LinkBad string string
  | RepoBad string string
  | KnowledgeBad string

subsection \<open>Secrets\<close>

text \<open>
  \<open>bw_keychain\<close> is \<open>None\<close> where there is no keychain; its lookup gives \<open>None\<close> when it fails and the
  empty text for a secret it does not hold.
\<close>

record boot_world =
  bw_cache :: "string \<rightharpoonup> string"
  bw_keychain :: "(string \<Rightarrow> string option) option"
  bw_env :: "string \<rightharpoonup> string"

definition boot_ref_prefix :: string where "boot_ref_prefix = ''${boot:''"

definition boot_getenv :: "string \<Rightarrow> boot_world \<Rightarrow> string" where
  "boot_getenv n w = (case bw_env w n of None \<Rightarrow> [] | Some v \<Rightarrow> v)"

definition cache_resolved :: "string \<Rightarrow> string \<Rightarrow> boot_world \<Rightarrow> boot_world" where
  "cache_resolved n v w = w\<lparr>bw_cache := (bw_cache w)(n \<mapsto> v)\<rparr>"

type_synonym 'a resolved = "boot_error + 'a \<times> string list"

text \<open>A resolved value comes with the environment variable it was read from, if any.\<close>

definition from_environment :: "string \<Rightarrow> boot_world \<Rightarrow> string resolved \<times> boot_world" where
  "from_environment n w =
     (if boot_getenv n w \<noteq> [] then (Inr (boot_getenv n w, [n]), cache_resolved n (boot_getenv n w) w)
      else (Inl (SecretNotFound n), w))"

definition resolve_secret :: "string \<Rightarrow> boot_world \<Rightarrow> string resolved \<times> boot_world" where
  "resolve_secret n w =
     (case bw_cache w n of
        Some v \<Rightarrow> (Inr (v, []), w)
      | None \<Rightarrow>
          (case bw_keychain w of
             None \<Rightarrow> from_environment n w
           | Some keys \<Rightarrow>
               (case keys n of
                  None \<Rightarrow> (Inl (KeychainFailed n), w)
                | Some v \<Rightarrow> if v \<noteq> [] then (Inr (v, []), cache_resolved n v w) else from_environment n w)))"

definition resolve_ref :: "string \<Rightarrow> boot_world \<Rightarrow> string resolved \<times> boot_world" where
  "resolve_ref s w =
     (if \<not> has_prefix s boot_ref_prefix \<or> \<not> has_suffix s ''}'' then (Inr (s, []), w)
      else resolve_secret (take (length s - 1 - length boot_ref_prefix) (drop (length boot_ref_prefix) s)) w)"

text \<open>The loops over channels, users, slots and fields: one after the other, up to the first error.\<close>

fun resolve_all ::
  "('a \<Rightarrow> boot_world \<Rightarrow> 'a resolved \<times> boot_world) \<Rightarrow> 'a list \<Rightarrow> boot_world \<Rightarrow> 'a list resolved \<times> boot_world" where
  "resolve_all f [] w = (Inr ([], []), w)"
| "resolve_all f (x # xs) w =
     (case f x w of
        (Inl e, w1) \<Rightarrow> (Inl e, w1)
      | (Inr (y, vars), w1) \<Rightarrow>
          (case resolve_all f xs w1 of
             (Inl e, w2) \<Rightarrow> (Inl e, w2)
           | (Inr (ys, vars'), w2) \<Rightarrow> (Inr (y # ys, vars @ vars'), w2)))"

definition map_resolved :: "('a \<Rightarrow> 'b) \<Rightarrow> 'a resolved \<times> boot_world \<Rightarrow> 'b resolved \<times> boot_world" where
  "map_resolved g r =
     (case r of (Inl e, w) \<Rightarrow> (Inl e, w) | (Inr (x, vars), w) \<Rightarrow> (Inr (g x, vars), w))"

definition resolve_boot_channel :: "boot_channel \<Rightarrow> boot_world \<Rightarrow> boot_channel resolved \<times> boot_world" where
  "resolve_boot_channel c w =
     (case bc_token c of
        None \<Rightarrow> (Inr (c, []), w)
      | Some t \<Rightarrow>
          if t = [] then (Inr (c, []), w)
          else map_resolved (\<lambda>v. c\<lparr>bc_token := Some v\<rparr>) (resolve_ref t w))"

definition resolve_user :: "boot_user \<Rightarrow> boot_world \<Rightarrow> boot_user resolved \<times> boot_world" where
  "resolve_user u w =
     (case resolve_ref (bu_api_key u) w of
        (Inl e, w1) \<Rightarrow> (Inl e, w1)
      | (Inr (key, vars), w1) \<Rightarrow>
          (case resolve_all resolve_boot_channel (bu_channels u) w1 of
             (Inl e, w2) \<Rightarrow> (Inl e, w2)
           | (Inr (chans, vars'), w2) \<Rightarrow>
               (Inr (u\<lparr>bu_api_key := key, bu_channels := chans\<rparr>, vars @ vars'), w2)))"

definition resolve_egress :: "egress_settings option \<Rightarrow> boot_world \<Rightarrow> egress_settings option resolved \<times> boot_world" where
  "resolve_egress e w =
     (case e of
        None \<Rightarrow> (Inr (None, []), w)
      | Some p \<Rightarrow> map_resolved (\<lambda>v. Some (p\<lparr>eg_token := v\<rparr>)) (resolve_ref (eg_token p) w))"

definition resolve_field :: "string \<times> string \<Rightarrow> boot_world \<Rightarrow> (string \<times> string) resolved \<times> boot_world" where
  "resolve_field kv w = map_resolved (\<lambda>v. (fst kv, v)) (resolve_ref (snd kv) w)"

definition resolve_slot :: "credential_slot \<Rightarrow> boot_world \<Rightarrow> credential_slot resolved \<times> boot_world" where
  "resolve_slot s w = map_resolved (\<lambda>fs. s\<lparr>cs_fields := fs\<rparr>) (resolve_all resolve_field (cs_fields s) w)"

text \<open>
  \<open>bootSecretRefPattern\<close>: the name of a reference that starts here, and all names in a text; \<open>k\<close> is
  what is left of the last match.
\<close>

definition ref_at :: "string \<Rightarrow> string option" where
  "ref_at s =
     (if has_prefix s boot_ref_prefix then
        (let r = drop (length boot_ref_prefix) s; n = takeWhile (\<lambda>c. c \<noteq> CHR ''}'') r
         in if n \<noteq> [] \<and> length n < length r then Some n else None)
      else None)"

fun scan_refs :: "nat \<Rightarrow> string \<Rightarrow> string list" where
  "scan_refs k [] = []"
| "scan_refs (Suc k) (c # s) = scan_refs k s"
| "scan_refs 0 (c # s) =
     (case ref_at (c # s) of
        None \<Rightarrow> scan_refs 0 s
      | Some n \<Rightarrow> n # scan_refs (length boot_ref_prefix + length n) s)"

definition unique_names :: "string list \<Rightarrow> string list" where
  "unique_names ns = rev (remdups (rev ns))"

definition assert_no_unresolved :: "boot_lib \<Rightarrow> boot_config \<Rightarrow> boot_error option" where
  "assert_no_unresolved lib cfg =
     (case bl_marshal lib cfg of
        None \<Rightarrow> Some NotMarshalled
      | Some t \<Rightarrow> if scan_refs 0 t = [] then None else Some (UnresolvedRefs (unique_names (scan_refs 0 t))))"

definition resolve_secrets :: "boot_lib \<Rightarrow> boot_config \<Rightarrow> boot_world \<Rightarrow> boot_config resolved \<times> boot_world" where
  "resolve_secrets lib cfg w =
     (case resolve_all resolve_user (bo_users cfg) w of
        (Inl e, w1) \<Rightarrow> (Inl e, w1)
      | (Inr (users, vars1), w1) \<Rightarrow>
          (case resolve_egress (bo_egress cfg) w1 of
             (Inl e, w2) \<Rightarrow> (Inl e, w2)
           | (Inr (proxy, vars2), w2) \<Rightarrow>
               (case resolve_all resolve_slot (bo_slots cfg) w2 of
                  (Inl e, w3) \<Rightarrow> (Inl e, w3)
                | (Inr (slots, vars3), w3) \<Rightarrow>
                    (let cfg' = cfg\<lparr>bo_users := users, bo_egress := proxy, bo_slots := slots\<rparr>
                     in case assert_no_unresolved lib cfg' of
                          Some e \<Rightarrow> (Inl e, w3)
                        | None \<Rightarrow> (Inr (cfg', vars1 @ vars2 @ vars3), w3)))))"

text \<open>\<open>BootSecretRefs\<close>: the references of one environment's part of the file, as it marshals.\<close>

datatype env_text = EnvUnread | EnvUnparsed | EnvMissing | EnvUnmarshalled | EnvText string

definition boot_secret_refs :: "env_text \<Rightarrow> boot_error + string list" where
  "boot_secret_refs t =
     (case t of
        EnvUnread \<Rightarrow> Inl ConfigNotRead
      | EnvUnparsed \<Rightarrow> Inl ConfigNotParsed
      | EnvMissing \<Rightarrow> Inl EnvNotFound
      | EnvUnmarshalled \<Rightarrow> Inl NotMarshalled
      | EnvText s \<Rightarrow> Inr (unique_names (scan_refs 0 s)))"

definition has_env :: "env_text \<Rightarrow> bool" where
  "has_env t = (case t of EnvText s \<Rightarrow> True | EnvUnmarshalled \<Rightarrow> True | _ \<Rightarrow> False)"

subsection \<open>Names\<close>

definition lower_or_digit :: "char \<Rightarrow> bool" where
  "lower_or_digit c = (let n = of_char c :: nat in 97 \<le> n \<and> n \<le> 122 \<or> 48 \<le> n \<and> n \<le> 57)"

definition letter_or_digit :: "char \<Rightarrow> bool" where
  "letter_or_digit c = (lower_or_digit c \<or> (let n = of_char c :: nat in 65 \<le> n \<and> n \<le> 90))"

definition matches_name :: "(char \<Rightarrow> bool) \<Rightarrow> (char \<Rightarrow> bool) \<Rightarrow> string \<Rightarrow> bool" where
  "matches_name start later s = (case s of [] \<Rightarrow> False | c # r \<Rightarrow> start c \<and> list_all later r)"

definition channel_name_pattern :: "string \<Rightarrow> bool" where
  "channel_name_pattern = matches_name letter_or_digit (\<lambda>c. letter_or_digit c \<or> c = CHR ''_'' \<or> c = CHR ''-'')"

definition slot_name_pattern :: "string \<Rightarrow> bool" where
  "slot_name_pattern = matches_name lower_or_digit (\<lambda>c. lower_or_digit c \<or> c = CHR ''_'' \<or> c = CHR ''-'')"

definition valid_repo_name :: "string \<Rightarrow> bool" where
  "valid_repo_name = matches_name letter_or_digit (\<lambda>c. letter_or_digit c \<or> c = CHR ''-'')"

subsection \<open>Credential slots\<close>

definition git_credential_type :: string where "git_credential_type = ''git''"

definition git_slot_labels :: "credential_slot list \<Rightarrow> string set" where
  "git_slot_labels slots = cs_label ` set (filter (\<lambda>c. cs_type c = git_credential_type) slots)"

fun check_slots :: "string list \<Rightarrow> string list \<Rightarrow> credential_slot list \<Rightarrow> boot_error option" where
  "check_slots names seen [] = None"
| "check_slots names seen (c # cs) =
     (case first_error
        [reject_if (\<not> slot_name_pattern (cs_type c)) (BadSlotType (cs_type c)),
         reject_if (\<not> slot_name_pattern (cs_label c)) (BadSlotLabel (cs_label c)),
         reject_if (slot_id c \<in> set seen) (DuplicateSlot (slot_id c)),
         reject_if (cs_channel c \<noteq> [] \<and> cs_channel c \<notin> set names) (SlotChannelUnknown (cs_channel c))] of
        Some e \<Rightarrow> Some e
      | None \<Rightarrow> check_slots names (slot_id c # seen) cs)"

definition validate_credential_slots :: "boot_config \<Rightarrow> boot_error option" where
  "validate_credential_slots cfg =
     check_slots (concat (map (\<lambda>u. map cc_name (bu_channels u)) (bo_users cfg))) [] (bo_slots cfg)"

text \<open>\<open>ValidateCredentialSlotTypes\<close>: the place of the first slot whose type nothing consumes.\<close>

definition validate_slot_types :: "credential_slot list \<Rightarrow> string list \<Rightarrow> nat option" where
  "validate_slot_types slots known = first_index (\<lambda>c. cs_type c \<notin> set known) slots"

subsection \<open>Channels\<close>

fun dedup_channels :: "string list \<Rightarrow> boot_channel list \<Rightarrow> boot_channel list" where
  "dedup_channels seen [] = []"
| "dedup_channels seen (c # cs) =
     (if cc_name c \<in> set seen then dedup_channels seen cs else c # dedup_channels (cc_name c # seen) cs)"

definition duration_or_empty :: "boot_lib \<Rightarrow> string \<Rightarrow> bool" where
  "duration_or_empty lib t = (t = [] \<or> bl_duration lib t \<noteq> None)"

definition check_channel :: "boot_lib \<Rightarrow> boot_user \<Rightarrow> string list \<Rightarrow> boot_channel \<Rightarrow> boot_error option" where
  "check_channel lib u seen c =
     (let bad = ChannelBad (cc_name c)
      in first_error
        [reject_if (cc_name c = []) (bad ''missing name''),
         reject_if (\<not> channel_name_pattern (cc_name c)) (bad ''invalid characters''),
         reject_if (cc_name c \<in> set seen) (bad ''duplicate name''),
         reject_if (cc_description c = []) (bad ''missing description''),
         reject_if (cc_model c \<noteq> [] \<and> \<not> valid_model (cc_model c)) (bad ''unknown model''),
         reject_if (cc_max_turns c < 0) (bad ''max_turns''),
         reject_if (validate_settings (cc_turn_settings c) \<noteq> []) (bad ''turn settings''),
         reject_if (\<not> list_all valid_tool (cc_allowed c)) (bad ''allowed_tools''),
         reject_if (\<not> list_all valid_tool (cc_disallowed c)) (bad ''disallowed_tools''),
         reject_if (\<not> duration_or_empty lib (cc_idle_timeout c)) (bad ''ephemeral_idle_timeout''),
         reject_if (\<not> duration_or_empty lib (cc_session_timeout c)) (bad ''claude_session_timeout''),
         reject_if (cc_created_at c \<noteq> [] \<and> bl_time lib (cc_created_at c) = None) (bad ''created_at''),
         (if cc_type c = ''socket'' \<or> cc_type c = ''stdio'' then None
          else if cc_type c = ''telegram''
          then reject_if (bu_telegram u = None \<or> bu_telegram u = Some []) (bad ''telegram.user_id'')
          else Some (bad ''type''))])"

fun check_channels :: "boot_lib \<Rightarrow> boot_user \<Rightarrow> string list \<Rightarrow> boot_channel list \<Rightarrow> boot_error option" where
  "check_channels lib u seen [] = None"
| "check_channels lib u seen (c # cs) =
     (case check_channel lib u seen c of
        Some e \<Rightarrow> Some e
      | None \<Rightarrow> check_channels lib u (cc_name c # seen) cs)"

fun check_links :: "string \<Rightarrow> string list \<Rightarrow> string list \<Rightarrow> channel_link list \<Rightarrow> boot_error option" where
  "check_links name names seen [] = None"
| "check_links name names seen (l # ls) =
     (case first_error
        [reject_if (cl_target l = []) (LinkBad name ''missing target''),
         reject_if (cl_description l = []) (LinkBad name ''missing description''),
         reject_if (cl_target l = name) (LinkBad name ''self-link''),
         reject_if (cl_target l \<in> set seen) (LinkBad name ''duplicate target''),
         reject_if (cl_target l \<notin> set names) (LinkBad name ''unknown target'')] of
        Some e \<Rightarrow> Some e
      | None \<Rightarrow> check_links name names (cl_target l # seen) ls)"

subsection \<open>Repositories and the vault\<close>

definition normalize_repo_url :: "string \<Rightarrow> string" where
  "normalize_repo_url s =
     (let r = trim_space s
      in if has_prefix r ''http://'' \<or> has_prefix r ''https://'' then r
         else ''https://github.com/'' @ trim_suffix (trim_prefix r ''/'') ''/'')"

record repo_lifecycle =
  rl_fetch_every :: duration
  rl_drop_at :: time
  rl_drop_clone :: duration

definition no_lifecycle :: repo_lifecycle where
  "no_lifecycle = \<lparr>rl_fetch_every = 0, rl_drop_at = 0, rl_drop_clone = 0\<rparr>"

definition parsed_or_zero :: "(string \<Rightarrow> int option) \<Rightarrow> string \<Rightarrow> int option" where
  "parsed_or_zero f t = (if t = [] then Some 0 else f t)"

definition parse_lifecycle :: "boot_lib \<Rightarrow> repo_config \<Rightarrow> repo_lifecycle option" where
  "parse_lifecycle lib r =
     (case (parsed_or_zero (bl_duration lib) (rc_fetch_every r), parsed_or_zero (bl_duration lib) (rc_drop_clone r),
            parsed_or_zero (bl_time lib) (rc_drop_at r)) of
        (Some f, Some d, Some t) \<Rightarrow> Some \<lparr>rl_fetch_every = f, rl_drop_at = t, rl_drop_clone = d\<rparr>
      | _ \<Rightarrow> None)"

definition normalize_repo :: "boot_lib \<Rightarrow> repo_config \<Rightarrow> boot_error + repo_config" where
  "normalize_repo lib r =
     (let bad = RepoBad (rc_name r);
          r1 = r\<lparr>rc_branch := (if rc_branch r = [] then ''main'' else rc_branch r),
                 rc_access := (if rc_access r = AccessUnset then AccessReadOnly else rc_access r)\<rparr>
      in case first_error
           [reject_if (trim_space (rc_name r) = []) (bad ''name is required''),
            reject_if (\<not> valid_repo_name (rc_name r) \<or> 64 < length (rc_name r)) (bad ''name''),
            reject_if (trim_space (rc_repo r) = []) (bad ''repo is required''),
            reject_if (\<not> valid_access (rc_access r1)) (bad ''unknown access''),
            reject_if (parse_lifecycle lib r1 = None) (bad ''lifecycle'')] of
           Some e \<Rightarrow> Inl e
         | None \<Rightarrow> Inr (r1\<lparr>rc_repo := normalize_repo_url (rc_repo r)\<rparr>))"

definition default_mount_at :: string where "default_mount_at = ''knowledge''"

definition has_separator :: "string \<Rightarrow> bool" where
  "has_separator s = (CHR ''/'' \<in> set s \<or> CHR 0x5C \<in> set s)"

fun normalize_repos ::
  "boot_lib \<Rightarrow> credential_slot list \<Rightarrow> string list \<Rightarrow> string list \<Rightarrow> repo_config list \<Rightarrow> boot_error + repo_config list" where
  "normalize_repos lib slots names seen [] = Inr []"
| "normalize_repos lib slots names seen (r # rs) =
     (case normalize_repo lib r of
        Inl e \<Rightarrow> Inl e
      | Inr r1 \<Rightarrow>
          (let bad = RepoBad (rc_name r1)
           in case first_error
             [reject_if (rc_name r1 \<in> set seen) (bad ''duplicate name''),
              reject_if (\<not> list_all (\<lambda>c. c \<in> set names) (rc_channels r1)) (bad ''visible_to_channels''),
              reject_if (rc_mount_at r1 \<noteq> [] \<and> rc_mount_at r1 \<noteq> default_mount_at \<and> has_separator (rc_mount_at r1))
                (bad ''mount_at''),
              reject_if (rc_credential r1 \<noteq> [] \<and> rc_credential r1 \<notin> git_slot_labels slots) (bad ''credential'')] of
             Some e \<Rightarrow> Inl e
           | None \<Rightarrow>
               (case normalize_repos lib slots names (rc_name r1 # seen) rs of
                  Inl e \<Rightarrow> Inl e
                | Inr rs1 \<Rightarrow> Inr (r1 # rs1))))"

definition plain_relative_path :: "string \<Rightarrow> bool" where
  "plain_relative_path p =
     (p \<noteq> [] \<and> \<not> is_rooted p \<and> p = clean_path p \<and> p \<noteq> ''..'' \<and> \<not> has_prefix p ''../'')"

definition install_ok :: "string \<times> string \<Rightarrow> bool" where
  "install_ok nd =
     (plain_relative_path (snd nd) \<and> fst nd \<noteq> [] \<and> \<not> has_separator (fst nd) \<and> fst nd \<noteq> ''.'' \<and> fst nd \<noteq> ''..'')"

definition normalize_knowledge :: "knowledge_config \<Rightarrow> boot_error + knowledge_config" where
  "normalize_knowledge k =
     (case first_error
        [reject_if (trim_space (kc_repo k) = []) (KnowledgeBad ''repo is required''),
         reject_if (\<not> list_all install_ok (kc_dirs k)) (KnowledgeBad ''claude_dirs''),
         reject_if (\<not> list_all install_ok (kc_links k)) (KnowledgeBad ''claude_links''),
         reject_if (\<exists>l \<in> set (kc_links k). \<exists>d \<in> set (kc_dirs k). fst d = fst l \<and> snd d \<noteq> [])
           (KnowledgeBad ''both copied and linked'')] of
        Some e \<Rightarrow> Inl e
      | None \<Rightarrow> Inr (k\<lparr>kc_mount_at := (if kc_mount_at k = [] then default_mount_at else kc_mount_at k)\<rparr>))"

definition place_vault :: "knowledge_config \<Rightarrow> repo_config list \<Rightarrow> boot_error + repo_config list" where
  "place_vault k rs =
     (case first_index (\<lambda>r. rc_name r = kc_repo k) rs of
        None \<Rightarrow> Inl (KnowledgeBad ''no such repo'')
      | Some i \<Rightarrow>
          if \<not> allows_push (rc_access (rs ! i)) then Inl (KnowledgeBad ''access'')
          else Inr (rs[i := (rs ! i)\<lparr>rc_mount_at := kc_mount_at k\<rparr>]))"

subsection \<open>Users\<close>

definition check_user_fields :: "boot_lib \<Rightarrow> string list \<Rightarrow> boot_user \<Rightarrow> boot_error option" where
  "check_user_fields lib seen u =
     first_error
       [reject_if (bu_id u = []) UserWithoutId,
        reject_if (bu_id u \<in> set seen) (DuplicateUser (bu_id u)),
        reject_if (bu_model u \<noteq> [] \<and> \<not> valid_model (bu_model u)) (UserBad (bu_id u) ''model''),
        reject_if (bu_permission_mode u \<noteq> [] \<and> \<not> valid_permission_mode (bu_permission_mode u))
          (UserBad (bu_id u) ''permission_mode''),
        reject_if (validate_settings (bu_turn_settings u) \<noteq> []) (UserBad (bu_id u) ''turn settings''),
        reject_if (\<not> list_all valid_tool (bu_allowed u)) (UserBad (bu_id u) ''allowed_tools''),
        reject_if (\<not> list_all valid_tool (bu_disallowed u)) (UserBad (bu_id u) ''disallowed_tools''),
        reject_if (\<not> duration_or_empty lib (bu_debounce u)) (UserBad (bu_id u) ''message_debounce''),
        reject_if (bu_channels u = []) (UserBad (bu_id u) ''no channels'')]"

definition validate_user ::
  "boot_lib \<Rightarrow> credential_slot list \<Rightarrow> string list \<Rightarrow> boot_user \<Rightarrow> boot_error + boot_user" where
  "validate_user lib slots seen u =
     (case check_user_fields lib seen u of
        Some e \<Rightarrow> Inl e
      | None \<Rightarrow>
          (let chans = dedup_channels [] (bu_channels u);
               names = map cc_name chans
           in case first_error (check_channels lib u [] chans # map (\<lambda>c. check_links (cc_name c) names [] (cc_links c)) chans) of
                Some e \<Rightarrow> Inl e
              | None \<Rightarrow>
                  (case normalize_repos lib slots names [] (bu_repos u) of
                     Inl e \<Rightarrow> Inl e
                   | Inr repos \<Rightarrow>
                       (case bu_knowledge u of
                          None \<Rightarrow> Inr (u\<lparr>bu_channels := chans, bu_repos := repos\<rparr>)
                        | Some k \<Rightarrow>
                            (case normalize_knowledge k of
                               Inl e \<Rightarrow> Inl e
                             | Inr k1 \<Rightarrow>
                                 (case place_vault k1 repos of
                                    Inl e \<Rightarrow> Inl e
                                  | Inr repos1 \<Rightarrow>
                                      Inr (u\<lparr>bu_channels := chans, bu_repos := repos1, bu_knowledge := Some k1\<rparr>)))))))"

fun validate_users ::
  "boot_lib \<Rightarrow> credential_slot list \<Rightarrow> string list \<Rightarrow> boot_user list \<Rightarrow> boot_error + boot_user list" where
  "validate_users lib slots seen [] = Inr []"
| "validate_users lib slots seen (u # us) =
     (case validate_user lib slots seen u of
        Inl e \<Rightarrow> Inl e
      | Inr u1 \<Rightarrow>
          (case validate_users lib slots (bu_id u # seen) us of
             Inl e \<Rightarrow> Inl e
           | Inr us1 \<Rightarrow> Inr (u1 # us1)))"

definition validate_config :: "boot_lib \<Rightarrow> boot_config \<Rightarrow> boot_error + boot_config" where
  "validate_config lib cfg =
     (if bo_users cfg = [] then Inl NoUsers
      else (case validate_credential_slots cfg of
              Some e \<Rightarrow> Inl e
            | None \<Rightarrow>
                (case validate_users lib (bo_slots cfg) [] (bo_users cfg) of
                   Inl e \<Rightarrow> Inl e
                 | Inr us \<Rightarrow> Inr (cfg\<lparr>bo_users := us\<rparr>))))"

subsection \<open>Loading\<close>

datatype config_input = InputUnread | InputUnparsed | InputNoEnv | InputUndecoded | InputConfig boot_config

definition with_defaults :: "string \<Rightarrow> boot_config \<Rightarrow> boot_config" where
  "with_defaults env cfg =
     cfg\<lparr>bo_env := env,
        bo_base_dir := (if bo_base_dir cfg = [] then ''/tmp/tclaw'' else bo_base_dir cfg),
        bo_addr := (if bo_addr cfg = [] then ''127.0.0.1:9876'' else bo_addr cfg)\<rparr>"

definition unset_all :: "string list \<Rightarrow> boot_world \<Rightarrow> boot_world" where
  "unset_all vars w = w\<lparr>bw_env := (\<lambda>n. if n \<in> set vars then None else bw_env w n)\<rparr>"

definition load_config ::
  "boot_lib \<Rightarrow> string \<Rightarrow> config_input \<Rightarrow> boot_world \<Rightarrow> (boot_error + boot_config) \<times> boot_world" where
  "load_config lib env inp w =
     (case inp of
        InputUnread \<Rightarrow> (Inl ConfigNotRead, w)
      | InputUnparsed \<Rightarrow> (Inl ConfigNotParsed, w)
      | InputNoEnv \<Rightarrow> (Inl EnvNotFound, w)
      | InputUndecoded \<Rightarrow> (Inl ConfigNotDecoded, w)
      | InputConfig cfg \<Rightarrow>
          (case resolve_secrets lib (with_defaults env cfg) w of
             (Inl e, w1) \<Rightarrow> (Inl e, w1)
           | (Inr (cfg1, vars), w1) \<Rightarrow> (validate_config lib cfg1, unset_all vars w1)))"

subsection \<open>What the router is given\<close>

record user_repo =
  ur_name :: string
  ur_url :: string
  ur_branch :: string
  ur_description :: string
  ur_channels :: "string list"
  ur_access :: access
  ur_credential :: string
  ur_mount_at :: string
  ur_lifecycle :: repo_lifecycle

record user_config =
  uc_id :: string
  uc_api_key :: string
  uc_model :: model
  uc_permission_mode :: string
  uc_allowed :: "tool list"
  uc_disallowed :: "tool list"
  uc_max_turns :: int
  uc_output_style :: string
  uc_turn_settings :: turn_settings
  uc_debug :: bool
  uc_system_prompt :: string
  uc_telegram_user :: string
  uc_knowledge :: "knowledge_config option"
  uc_repos :: "user_repo list"
  uc_debounce :: duration

definition default_debounce :: duration where "default_debounce = second"

definition debounce_duration :: "boot_lib \<Rightarrow> boot_user \<Rightarrow> duration" where
  "debounce_duration lib u =
     (if bu_debounce u = [] then default_debounce
      else (case bl_duration lib (bu_debounce u) of None \<Rightarrow> default_debounce | Some d \<Rightarrow> d))"

definition to_user_repo :: "boot_lib \<Rightarrow> repo_config \<Rightarrow> user_repo" where
  "to_user_repo lib r =
     \<lparr>ur_name = rc_name r, ur_url = rc_repo r, ur_branch = rc_branch r, ur_description = rc_description r,
      ur_channels = rc_channels r, ur_access = rc_access r, ur_credential = rc_credential r, ur_mount_at = rc_mount_at r,
      ur_lifecycle = (case parse_lifecycle lib r of None \<Rightarrow> no_lifecycle | Some l \<Rightarrow> l)\<rparr>"

definition to_user_config :: "boot_lib \<Rightarrow> boot_user \<Rightarrow> user_config" where
  "to_user_config lib u =
     \<lparr>uc_id = bu_id u, uc_api_key = bu_api_key u, uc_model = bu_model u, uc_permission_mode = bu_permission_mode u,
      uc_allowed = bu_allowed u, uc_disallowed = bu_disallowed u, uc_max_turns = bu_max_turns u,
      uc_output_style = bu_output_style u, uc_turn_settings = bu_turn_settings u, uc_debug = bu_debug u,
      uc_system_prompt = bu_system_prompt u,
      uc_telegram_user = (case bu_telegram u of None \<Rightarrow> [] | Some i \<Rightarrow> i),
      uc_knowledge = map_option (\<lambda>k. k\<lparr>kc_mount_at := []\<rparr>) (bu_knowledge u),
      uc_repos = map (to_user_repo lib) (bu_repos u), uc_debounce = debounce_duration lib u\<rparr>"

subsection \<open>Secrets stay resolved\<close>

text \<open>
  What resolving does to the world: the cache only grows, by what the keychain holds or by variables
  it reports; environment and keychain stay as they are.
\<close>

definition resolves :: "boot_world \<Rightarrow> string list \<Rightarrow> boot_world \<Rightarrow> bool" where
  "resolves w vars w' =
     (bw_env w' = bw_env w \<and> bw_keychain w' = bw_keychain w \<and> bw_cache w \<subseteq>\<^sub>m bw_cache w' \<and>
      (\<forall>n v. bw_cache w' n = Some v \<longrightarrow> bw_cache w n = Some v \<or>
         (\<exists>keys. bw_keychain w = Some keys \<and> keys n = Some v) \<or> n \<in> set vars))"

lemma resolves_refl [simp]: "resolves w vars w"
  by (simp add: resolves_def)

lemma resolves_trans: "resolves w us w1 \<Longrightarrow> resolves w1 vs w2 \<Longrightarrow> resolves w (us @ vs) w2"
  unfolding resolves_def by (auto intro: map_le_trans)

text \<open>A resolver: it resolves, and once it has succeeded, any world with that cache gives the same.\<close>

definition resolver :: "('a \<Rightarrow> boot_world \<Rightarrow> 'b resolved \<times> boot_world) \<Rightarrow> bool" where
  "resolver f =
     (\<forall>x w y vars w'. f x w = (Inr (y, vars), w') \<longrightarrow>
        resolves w vars w' \<and> (\<forall>w2. bw_cache w' \<subseteq>\<^sub>m bw_cache w2 \<longrightarrow> f x w2 = (Inr (y, []), w2)))"

lemma resolverI:
  "(\<And>x w y vars w'. f x w = (Inr (y, vars), w') \<Longrightarrow> resolves w vars w') \<Longrightarrow>
   (\<And>x w y vars w' w2. f x w = (Inr (y, vars), w') \<Longrightarrow> bw_cache w' \<subseteq>\<^sub>m bw_cache w2 \<Longrightarrow> f x w2 = (Inr (y, []), w2)) \<Longrightarrow>
   resolver f"
  by (simp add: resolver_def)

lemma resolverD:
  assumes "resolver f" and "f x w = (Inr (y, vars), w')"
  shows "resolves w vars w'" and "bw_cache w' \<subseteq>\<^sub>m bw_cache w2 \<Longrightarrow> f x w2 = (Inr (y, []), w2)"
  using assms by (auto simp: resolver_def)

lemma resolves_cache: "resolves w vars w' \<Longrightarrow> bw_cache w \<subseteq>\<^sub>m bw_cache w'"
  by (simp add: resolves_def)

lemma cached_le: "m n = Some v \<Longrightarrow> m \<subseteq>\<^sub>m m' \<Longrightarrow> m' n = Some v"
  by (auto simp: map_le_def dom_def)

lemma fresh_le: "m n = None \<Longrightarrow> m \<subseteq>\<^sub>m m(n \<mapsto> v)"
  by (auto simp: map_le_def)

lemma resolver_secret: "resolver resolve_secret"
proof (rule resolverI)
  fix n w y vars w'
  assume "resolve_secret n w = (Inr (y, vars), w')"
  then show "resolves w vars w'"
    by (auto simp: resolve_secret_def from_environment_def cache_resolved_def resolves_def fresh_le
        split: option.splits if_splits)
next
  fix n w y vars w' and w2 :: boot_world
  assume r: "resolve_secret n w = (Inr (y, vars), w')" and le: "bw_cache w' \<subseteq>\<^sub>m bw_cache w2"
  from r have "bw_cache w' n = Some y"
    by (auto simp: resolve_secret_def from_environment_def cache_resolved_def split: option.splits if_splits)
  from cached_le [OF this le] show "resolve_secret n w2 = (Inr (y, []), w2)" by (simp add: resolve_secret_def)
qed

lemma resolver_ref: "resolver resolve_ref"
proof (rule resolverI)
  fix s w y vars w'
  assume "resolve_ref s w = (Inr (y, vars), w')"
  then show "resolves w vars w'" using resolverD(1) [OF resolver_secret] by (auto simp: resolve_ref_def split: if_splits)
next
  fix s w y vars w' and w2 :: boot_world
  assume "resolve_ref s w = (Inr (y, vars), w')" and "bw_cache w' \<subseteq>\<^sub>m bw_cache w2"
  then show "resolve_ref s w2 = (Inr (y, []), w2)"
    using resolverD(2) [OF resolver_secret] by (auto simp: resolve_ref_def split: if_splits)
qed

lemma map_resolved_Inr:
  "map_resolved g r = (Inr (y, vars), w) \<longleftrightarrow> (\<exists>x. r = (Inr (x, vars), w) \<and> y = g x)"
  by (auto simp: map_resolved_def split: prod.splits sum.splits)

lemma resolver_map: "resolver f \<Longrightarrow> resolver (\<lambda>x w. map_resolved (g x) (f (h x) w))"
  by (auto simp: resolver_def map_resolved_Inr)

lemma resolver_all:
  assumes "resolver f"
  shows "resolver (resolve_all f)"
proof (rule resolverI)
  fix xs w ys vars w'
  show "resolve_all f xs w = (Inr (ys, vars), w') \<Longrightarrow> resolves w vars w'"
  proof (induction xs arbitrary: w ys vars)
    case Nil
    then show ?case by simp
  next
    case (Cons x xs)
    then show ?case
      by (auto split: prod.splits sum.splits dest!: resolverD(1) [OF assms] intro: resolves_trans)
  qed
next
  fix xs w ys vars w' and w2 :: boot_world
  show "resolve_all f xs w = (Inr (ys, vars), w') \<Longrightarrow> bw_cache w' \<subseteq>\<^sub>m bw_cache w2 \<Longrightarrow>
      resolve_all f xs w2 = (Inr (ys, []), w2)"
  proof (induction xs arbitrary: w ys vars)
    case Nil
    then show ?case by simp
  next
    case (Cons x xs)
    from Cons.prems(1) obtain y us w1 zs vs where 1: "f x w = (Inr (y, us), w1)"
      "resolve_all f xs w1 = (Inr (zs, vs), w')" "ys = y # zs" by (auto split: prod.splits sum.splits)
    from Cons.IH [OF 1(2) Cons.prems(2)] have rest: "resolve_all f xs w2 = (Inr (zs, []), w2)" .
    have "resolves w1 vs w'" using 1(2)
    proof (induction xs arbitrary: w1 zs vs)
      case Nil
      then show ?case by simp
    next
      case (Cons x xs)
      then show ?case
        by (auto split: prod.splits sum.splits dest!: resolverD(1) [OF assms] intro: resolves_trans)
    qed
    then have "bw_cache w1 \<subseteq>\<^sub>m bw_cache w2" using Cons.prems(2) resolves_cache map_le_trans by blast
    with resolverD(2) [OF assms 1(1)] rest 1(3) show ?case by simp
  qed
qed

lemma resolver_boot_channel: "resolver resolve_boot_channel"
proof (rule resolverI)
  fix c w y vars w'
  assume "resolve_boot_channel c w = (Inr (y, vars), w')"
  then show "resolves w vars w'"
    using resolverD(1) [OF resolver_ref] by (auto simp: resolve_boot_channel_def map_resolved_Inr split: option.splits if_splits)
next
  fix c w y vars w' and w2 :: boot_world
  assume "resolve_boot_channel c w = (Inr (y, vars), w')" and "bw_cache w' \<subseteq>\<^sub>m bw_cache w2"
  then show "resolve_boot_channel c w2 = (Inr (y, []), w2)"
    using resolverD(2) [OF resolver_ref]
    by (fastforce simp: resolve_boot_channel_def map_resolved_Inr split: option.splits if_splits)
qed

lemma resolver_user: "resolver resolve_user"
proof (rule resolverI)
  fix u w y vars w'
  assume "resolve_user u w = (Inr (y, vars), w')"
  then show "resolves w vars w'"
    using resolverD(1) [OF resolver_ref] resolverD(1) [OF resolver_all [OF resolver_boot_channel]] resolves_trans
    by (fastforce simp: resolve_user_def split: prod.splits sum.splits)
next
  fix u w y vars w' and w2 :: boot_world
  assume "resolve_user u w = (Inr (y, vars), w')" and le: "bw_cache w' \<subseteq>\<^sub>m bw_cache w2"
  then obtain key us w1 chans vs where 1: "resolve_ref (bu_api_key u) w = (Inr (key, us), w1)"
    "resolve_all resolve_boot_channel (bu_channels u) w1 = (Inr (chans, vs), w')" "y = u\<lparr>bu_api_key := key, bu_channels := chans\<rparr>"
    by (auto simp: resolve_user_def split: prod.splits sum.splits)
  from resolverD [OF resolver_all [OF resolver_boot_channel] 1(2)] le
  have "resolve_all resolve_boot_channel (bu_channels u) w2 = (Inr (chans, []), w2)" "bw_cache w1 \<subseteq>\<^sub>m bw_cache w2"
    using resolves_cache map_le_trans by blast+
  with resolverD(2) [OF resolver_ref 1(1)] 1(3) show "resolve_user u w2 = (Inr (y, []), w2)" by (simp add: resolve_user_def)
qed

lemma resolver_egress: "resolver resolve_egress"
proof (rule resolverI)
  fix e w y vars w'
  assume "resolve_egress e w = (Inr (y, vars), w')"
  then show "resolves w vars w'"
    using resolverD(1) [OF resolver_ref] by (auto simp: resolve_egress_def map_resolved_Inr split: option.splits)
next
  fix e w y vars w' and w2 :: boot_world
  assume "resolve_egress e w = (Inr (y, vars), w')" and "bw_cache w' \<subseteq>\<^sub>m bw_cache w2"
  then show "resolve_egress e w2 = (Inr (y, []), w2)"
    using resolverD(2) [OF resolver_ref] by (fastforce simp: resolve_egress_def map_resolved_Inr split: option.splits)
qed

lemma resolver_slot: "resolver resolve_slot"
proof -
  have "resolver resolve_field"
    using resolver_map [OF resolver_ref, of "\<lambda>kv v. (fst kv, v)" snd]
    unfolding resolve_field_def [abs_def] .
  from resolver_map [OF resolver_all [OF this], of "\<lambda>s fs. s\<lparr>cs_fields := fs\<rparr>" cs_fields] show ?thesis
    unfolding resolve_slot_def [abs_def] .
qed

lemma resolver_secrets: "resolver (resolve_secrets lib)"
proof (rule resolverI)
  fix cfg w y vars w'
  assume "resolve_secrets lib cfg w = (Inr (y, vars), w')"
  then obtain us a w1 e b w2 ss c where "resolve_all resolve_user (bo_users cfg) w = (Inr (us, a), w1)"
    "resolve_egress (bo_egress cfg) w1 = (Inr (e, b), w2)" "resolve_all resolve_slot (bo_slots cfg) w2 = (Inr (ss, c), w')"
    "vars = a @ b @ c"
    by (auto simp: resolve_secrets_def Let_def split: prod.splits sum.splits option.splits)
  then show "resolves w vars w'"
    using resolverD(1) [OF resolver_all [OF resolver_user]] resolverD(1) [OF resolver_egress]
      resolverD(1) [OF resolver_all [OF resolver_slot]] by (blast intro: resolves_trans)
next
  fix cfg w y vars w' and w2 :: boot_world
  assume "resolve_secrets lib cfg w = (Inr (y, vars), w')" and le: "bw_cache w' \<subseteq>\<^sub>m bw_cache w2"
  then obtain us a wa e b wb ss c where 1: "resolve_all resolve_user (bo_users cfg) w = (Inr (us, a), wa)"
    "resolve_egress (bo_egress cfg) wa = (Inr (e, b), wb)" "resolve_all resolve_slot (bo_slots cfg) wb = (Inr (ss, c), w')"
    "y = cfg\<lparr>bo_users := us, bo_egress := e, bo_slots := ss\<rparr>" "assert_no_unresolved lib y = None"
    by (auto simp: resolve_secrets_def Let_def split: prod.splits sum.splits option.splits)
  from resolverD [OF resolver_all [OF resolver_slot] 1(3)] le
  have c: "resolve_all resolve_slot (bo_slots cfg) w2 = (Inr (ss, []), w2)" "bw_cache wb \<subseteq>\<^sub>m bw_cache w2"
    using resolves_cache map_le_trans by blast+
  from resolverD [OF resolver_egress 1(2)] c(2)
  have b: "resolve_egress (bo_egress cfg) w2 = (Inr (e, []), w2)" "bw_cache wa \<subseteq>\<^sub>m bw_cache w2"
    using resolves_cache map_le_trans by blast+
  from resolverD(2) [OF resolver_all [OF resolver_user] 1(1) b(2)] b(1) c(1) 1(4,5)
  show "resolve_secrets lib cfg w2 = (Inr (y, []), w2)" by (simp add: resolve_secrets_def Let_def)
qed

text \<open>
  A secret read from the environment does not stay there: after a load that succeeded, what the cache
  holds was there before, is the keychain's, or is gone from the environment, from which the load
  adds and changes nothing.
\<close>

theorem loaded_secrets_are_scrubbed:
  assumes "load_config lib env inp w = (Inr cfg, w')"
  shows "bw_env w' \<subseteq>\<^sub>m bw_env w \<and>
         (\<forall>n v. bw_cache w' n = Some v \<longrightarrow>
            bw_cache w n = Some v \<or> (\<exists>keys. bw_keychain w = Some keys \<and> keys n = Some v) \<or> bw_env w' n = None)"
proof -
  from assms obtain cfg0 cfg1 vars w1 where "inp = InputConfig cfg0"
    and r: "resolve_secrets lib (with_defaults env cfg0) w = (Inr (cfg1, vars), w1)" and w': "w' = unset_all vars w1"
    by (auto simp: load_config_def split: config_input.splits prod.splits sum.splits)
  from resolverD(1) [OF resolver_secrets r] show ?thesis
    by (auto simp: w' unset_all_def resolves_def map_le_def)
qed

text \<open>
  The environment is scrubbed, and still the configuration can be read again: a load from the same
  file, in any later state of environment and keychain that kept the cache, gives the same
  configuration and leaves the world as it is.
\<close>

theorem reload_gives_the_same:
  assumes "load_config lib env inp w = (Inr cfg, w')" and "bw_cache w' \<subseteq>\<^sub>m bw_cache w2"
  shows "load_config lib env inp w2 = (Inr cfg, w2)"
proof -
  from assms(1) obtain cfg0 cfg1 vars w1 where inp: "inp = InputConfig cfg0"
    and r: "resolve_secrets lib (with_defaults env cfg0) w = (Inr (cfg1, vars), w1)" and w': "w' = unset_all vars w1"
    and v: "validate_config lib cfg1 = Inr cfg"
    by (auto simp: load_config_def split: config_input.splits prod.splits sum.splits)
  from assms(2) have "bw_cache w1 \<subseteq>\<^sub>m bw_cache w2" by (simp add: w' unset_all_def)
  from resolverD(2) [OF resolver_secrets r this] v show ?thesis
    by (simp add: load_config_def inp unset_all_def)
qed

text \<open>The names of the references of a text, each once and as they come.\<close>

lemma unique_names_set [simp]: "set (unique_names ns) = set ns" and unique_names_distinct [simp]: "distinct (unique_names ns)"
  by (simp_all add: unique_names_def)

subsection \<open>What an accepted configuration is like\<close>

definition link_coherent :: "string \<Rightarrow> string list \<Rightarrow> channel_link \<Rightarrow> bool" where
  "link_coherent name names l =
     (cl_target l \<in> set names \<and> cl_target l \<noteq> name \<and> cl_description l \<noteq> [])"

definition channel_coherent :: "boot_lib \<Rightarrow> boot_user \<Rightarrow> string list \<Rightarrow> boot_channel \<Rightarrow> bool" where
  "channel_coherent lib u names c =
     (channel_name_pattern (cc_name c) \<and> cc_description c \<noteq> [] \<and>
      (cc_model c = [] \<or> valid_model (cc_model c)) \<and> 0 \<le> cc_max_turns c \<and> validate_settings (cc_turn_settings c) = [] \<and>
      list_all valid_tool (cc_allowed c) \<and> list_all valid_tool (cc_disallowed c) \<and>
      duration_or_empty lib (cc_idle_timeout c) \<and> duration_or_empty lib (cc_session_timeout c) \<and>
      (cc_type c \<in> {''socket'', ''stdio''} \<or> cc_type c = ''telegram'' \<and> (\<exists>i. bu_telegram u = Some i \<and> i \<noteq> [])) \<and>
      list_all (link_coherent (cc_name c) names) (cc_links c) \<and> distinct (map cl_target (cc_links c)))"

definition repo_coherent :: "boot_lib \<Rightarrow> credential_slot list \<Rightarrow> string list \<Rightarrow> repo_config \<Rightarrow> bool" where
  "repo_coherent lib slots names r =
     (valid_repo_name (rc_name r) \<and> length (rc_name r) \<le> 64 \<and> rc_branch r \<noteq> [] \<and> valid_access (rc_access r) \<and>
      (has_prefix (rc_repo r) ''http://'' \<or> has_prefix (rc_repo r) ''https://'') \<and> parse_lifecycle lib r \<noteq> None \<and>
      set (rc_channels r) \<subseteq> set names \<and>
      (rc_credential r = [] \<or> (\<exists>s \<in> set slots. cs_type s = git_credential_type \<and> cs_label s = rc_credential r)))"

definition vault_coherent :: "boot_user \<Rightarrow> bool" where
  "vault_coherent u =
     (case bu_knowledge u of
        None \<Rightarrow> True
      | Some k \<Rightarrow> list_all install_ok (kc_dirs k) \<and> list_all install_ok (kc_links k) \<and>
          (\<exists>r \<in> set (bu_repos u). rc_name r = kc_repo k \<and> allows_push (rc_access r) \<and> rc_mount_at r = kc_mount_at k))"

definition user_coherent :: "boot_lib \<Rightarrow> credential_slot list \<Rightarrow> boot_user \<Rightarrow> bool" where
  "user_coherent lib slots u =
     (let names = map cc_name (bu_channels u)
      in bu_id u \<noteq> [] \<and> names \<noteq> [] \<and> distinct names \<and> list_all (channel_coherent lib u names) (bu_channels u) \<and>
         distinct (map rc_name (bu_repos u)) \<and> list_all (repo_coherent lib slots names) (bu_repos u) \<and>
         vault_coherent u)"

definition config_coherent :: "boot_lib \<Rightarrow> boot_config \<Rightarrow> bool" where
  "config_coherent lib cfg =
     (bo_users cfg \<noteq> [] \<and> distinct (map bu_id (bo_users cfg)) \<and>
      list_all (user_coherent lib (bo_slots cfg)) (bo_users cfg) \<and>
      distinct (map slot_id (bo_slots cfg)) \<and>
      list_all (\<lambda>s. slot_name_pattern (cs_type s) \<and> slot_name_pattern (cs_label s) \<and>
         (cs_channel s = [] \<or> (\<exists>u \<in> set (bo_users cfg). cs_channel s \<in> cc_name ` set (bu_channels u)))) (bo_slots cfg))"

lemma dedup_channels_facts:
  "distinct (map cc_name (dedup_channels seen cs)) \<and>
   cc_name ` set (dedup_channels seen cs) = cc_name ` set cs - set seen \<and> set (dedup_channels seen cs) \<subseteq> set cs"
  by (induction seen cs rule: dedup_channels.induct) auto

lemma check_slots_None:
  "check_slots names seen cs = None \<Longrightarrow>
   distinct (map slot_id cs) \<and> set (map slot_id cs) \<inter> set seen = {} \<and>
   list_all (\<lambda>s. slot_name_pattern (cs_type s) \<and> slot_name_pattern (cs_label s) \<and> (cs_channel s = [] \<or> cs_channel s \<in> set names)) cs"
  by (induction names seen cs rule: check_slots.induct) (auto split: option.splits)

lemma check_channels_None:
  "check_channels lib u seen cs = None \<Longrightarrow> c \<in> set cs \<Longrightarrow> \<exists>s. check_channel lib u s c = None"
  by (induction lib u seen cs rule: check_channels.induct) (auto split: option.splits)

lemma check_links_None:
  "check_links name names seen ls = None \<Longrightarrow>
   distinct (map cl_target ls) \<and> set (map cl_target ls) \<inter> set seen = {} \<and> list_all (link_coherent name names) ls"
  by (induction name names seen ls rule: check_links.induct) (auto simp: link_coherent_def split: option.splits)

lemma normalize_repo_url_prefix:
  "has_prefix (normalize_repo_url s) ''http://'' \<or> has_prefix (normalize_repo_url s) ''https://''"
  by (auto simp: normalize_repo_url_def Let_def)

lemma normalize_repos_Inr:
  "normalize_repos lib slots names seen rs = Inr rs1 \<Longrightarrow>
   distinct (map rc_name rs1) \<and> set (map rc_name rs1) \<inter> set seen = {} \<and> list_all (repo_coherent lib slots names) rs1"
proof (induction lib slots names seen rs arbitrary: rs1 rule: normalize_repos.induct)
  case (1 lib slots names seen)
  then show ?case by simp
next
  case (2 lib slots names seen r rs)
  then obtain r1 rs2 where r1: "normalize_repo lib r = Inr r1"
    and ok: "rc_name r1 \<notin> set seen" "list_all (\<lambda>c. c \<in> set names) (rc_channels r1)"
      "rc_credential r1 = [] \<or> rc_credential r1 \<in> git_slot_labels slots"
    and rest: "normalize_repos lib slots names (rc_name r1 # seen) rs = Inr rs2" "rs1 = r1 # rs2"
    by (auto simp: Let_def split: sum.splits option.splits)
  from "2.IH" [OF r1 refl _ rest(1)] "2.prems" r1 have ih: "distinct (map rc_name rs2)"
    "set (map rc_name rs2) \<inter> set (rc_name r1 # seen) = {}" "list_all (repo_coherent lib slots names) rs2"
    by (auto simp: Let_def split: option.splits)
  have "repo_coherent lib slots names r1"
    using r1 ok normalize_repo_url_prefix [of "rc_repo r"]
    by (auto simp: normalize_repo_def Let_def repo_coherent_def git_slot_labels_def list_all_iff parse_lifecycle_def
        split: option.splits if_splits)
  with ih ok(1) rest(2) show ?case by auto
qed

lemma place_vault_Inr:
  assumes "place_vault k rs = Inr rs1"
  shows "map rc_name rs1 = map rc_name rs"
    and "list_all (repo_coherent lib slots names) rs \<Longrightarrow> list_all (repo_coherent lib slots names) rs1"
    and "\<exists>r \<in> set rs1. rc_name r = kc_repo k \<and> allows_push (rc_access r) \<and> rc_mount_at r = kc_mount_at k"
proof -
  from assms obtain i where i: "first_index (\<lambda>r. rc_name r = kc_repo k) rs = Some i" "allows_push (rc_access (rs ! i))"
    and rs1: "rs1 = rs[i := (rs ! i)\<lparr>rc_mount_at := kc_mount_at k\<rparr>]"
    by (auto simp: place_vault_def split: option.splits if_splits)
  note at = first_index_less [OF i(1)] first_index_sat [OF i(1)]
  from at(1) show "map rc_name rs1 = map rc_name rs" by (simp add: rs1 map_update list_update_same_conv)
  from at(1) have "(rs ! i)\<lparr>rc_mount_at := kc_mount_at k\<rparr> \<in> set rs1" by (simp add: rs1 set_update_memI)
  then show "\<exists>r \<in> set rs1. rc_name r = kc_repo k \<and> allows_push (rc_access r) \<and> rc_mount_at r = kc_mount_at k"
    by (rule bexI [rotated]) (use at(2) i(2) in simp)
  assume ok: "list_all (repo_coherent lib slots names) rs"
  have "repo_coherent lib slots names (r\<lparr>rc_mount_at := m\<rparr>) = repo_coherent lib slots names r" for r m
    by (simp add: repo_coherent_def parse_lifecycle_def)
  then have "repo_coherent lib slots names ((rs ! i)\<lparr>rc_mount_at := kc_mount_at k\<rparr>)"
    using ok nth_mem [OF at(1)] by (simp add: list_all_iff)
  with ok show "list_all (repo_coherent lib slots names) rs1"
    using set_update_subset_insert [of rs i "(rs ! i)\<lparr>rc_mount_at := kc_mount_at k\<rparr>"]
    by (auto simp: rs1 list_all_iff)
qed

lemma channel_coherent_checked:
  assumes "check_channel lib u s c = None" and "check_links (cc_name c) names [] (cc_links c) = None"
  shows "channel_coherent lib u names c"
  using assms(1) check_links_None [OF assms(2)]
  by (auto simp: check_channel_def Let_def channel_coherent_def split: if_splits)

lemma validate_user_Inr:
  assumes "validate_user lib slots seen u = Inr u1"
  shows "user_coherent lib slots u1 \<and> bu_id u1 = bu_id u \<and> bu_id u \<notin> set seen \<and>
         cc_name ` set (bu_channels u1) = cc_name ` set (bu_channels u)"
proof -
  define chans where "chans = dedup_channels [] (bu_channels u)"
  let ?names = "map cc_name chans"
  have fields: "bu_id u \<noteq> []" "bu_id u \<notin> set seen" "bu_channels u \<noteq> []"
    using assms by (auto simp: validate_user_def check_user_fields_def split: option.splits)
  have checks: "check_channels lib u [] chans = None" "\<forall>c \<in> set chans. check_links (cc_name c) ?names [] (cc_links c) = None"
    using assms by (auto simp: validate_user_def chans_def Let_def split: option.splits)
  from assms obtain repos where repos: "normalize_repos lib slots ?names [] (bu_repos u) = Inr repos"
    by (auto simp: validate_user_def chans_def Let_def split: option.splits sum.splits)
  note r = normalize_repos_Inr [OF repos]
  have u1: "(bu_knowledge u = None \<and> u1 = u\<lparr>bu_channels := chans, bu_repos := repos\<rparr>) \<or>
      (\<exists>k k1 repos1. bu_knowledge u = Some k \<and> normalize_knowledge k = Inr k1 \<and> place_vault k1 repos = Inr repos1 \<and>
         u1 = u\<lparr>bu_channels := chans, bu_repos := repos1, bu_knowledge := Some k1\<rparr>)"
    using assms repos by (auto simp: validate_user_def chans_def Let_def split: option.splits sum.splits)
  from dedup_channels_facts [of "[]" "bu_channels u"]
  have names: "distinct ?names" "cc_name ` set chans = cc_name ` set (bu_channels u)" by (simp_all add: chans_def)
  with fields(3) have ne: "?names \<noteq> []" by auto
  have tel: "bu_telegram u1 = bu_telegram u" "bu_channels u1 = chans" "bu_id u1 = bu_id u" using u1 by auto
  have "channel_coherent lib u1 ?names c" if "c \<in> set chans" for c
  proof -
    from check_channels_None [OF checks(1) that] obtain s where "check_channel lib u s c = None" ..
    with channel_coherent_checked checks(2) that have "channel_coherent lib u ?names c" by blast
    with tel(1) show ?thesis by (simp add: channel_coherent_def)
  qed
  then have ch: "list_all (channel_coherent lib u1 ?names) chans" by (simp add: list_all_iff)
  have rp: "distinct (map rc_name (bu_repos u1)) \<and> list_all (repo_coherent lib slots ?names) (bu_repos u1) \<and> vault_coherent u1"
    using u1
  proof (elim disjE exE conjE)
    assume "bu_knowledge u = None" and "u1 = u\<lparr>bu_channels := chans, bu_repos := repos\<rparr>"
    with r show ?thesis by (simp add: vault_coherent_def)
  next
    fix k k1 repos1
    assume k: "bu_knowledge u = Some k" "normalize_knowledge k = Inr k1" and p: "place_vault k1 repos = Inr repos1"
      and u1: "u1 = u\<lparr>bu_channels := chans, bu_repos := repos1, bu_knowledge := Some k1\<rparr>"
    from k(2) have "list_all install_ok (kc_dirs k1)" "list_all install_ok (kc_links k1)"
      by (auto simp: normalize_knowledge_def split: option.splits)
    with place_vault_Inr [OF p] r show ?thesis by (simp add: u1 vault_coherent_def)
  qed
  from fields names ne tel ch rp show ?thesis by (simp add: user_coherent_def Let_def)
qed

lemma validate_users_Inr:
  "validate_users lib slots seen us = Inr us1 \<Longrightarrow>
   list_all (user_coherent lib slots) us1 \<and> distinct (map bu_id us1) \<and> set (map bu_id us1) \<inter> set seen = {} \<and>
   map (\<lambda>u. cc_name ` set (bu_channels u)) us1 = map (\<lambda>u. cc_name ` set (bu_channels u)) us"
proof (induction lib slots seen us arbitrary: us1 rule: validate_users.induct)
  case (1 lib slots seen)
  then show ?case by simp
next
  case (2 lib slots seen u us)
  then obtain u1 us2 where u1: "validate_user lib slots seen u = Inr u1"
    and us2: "validate_users lib slots (bu_id u # seen) us = Inr us2" "us1 = u1 # us2"
    by (auto split: sum.splits)
  from validate_user_Inr [OF u1] "2.IH" [OF u1 us2(1)] us2(2) show ?case by auto
qed

text \<open>
  An accepted configuration hangs together: users, channels, repositories and credential slots are
  told apart by their names; every link, channel scope, credential and the vault refer to something
  declared; names are safe in paths; every setting is one the program knows; a Telegram channel has
  its user.
\<close>

theorem accepted_config_is_coherent:
  assumes "validate_config lib cfg = Inr cfg'"
  shows "config_coherent lib cfg'"
proof -
  from assms obtain us where ne: "bo_users cfg \<noteq> []" and slots: "validate_credential_slots cfg = None"
    and us: "validate_users lib (bo_slots cfg) [] (bo_users cfg) = Inr us" and cfg': "cfg' = cfg\<lparr>bo_users := us\<rparr>"
    by (auto simp: validate_config_def split: if_splits option.splits sum.splits)
  note u = validate_users_Inr [OF us]
  from u ne have "us \<noteq> []" by auto
  from check_slots_None [OF slots [unfolded validate_credential_slots_def]]
  have s: "distinct (map slot_id (bo_slots cfg))" "list_all (\<lambda>s. slot_name_pattern (cs_type s) \<and> slot_name_pattern (cs_label s) \<and>
      (cs_channel s = [] \<or> (\<exists>u \<in> set (bo_users cfg). cs_channel s \<in> cc_name ` set (bu_channels u)))) (bo_slots cfg)"
    by (auto simp: list_all_iff)
  have "(\<exists>u \<in> set us. x \<in> cc_name ` set (bu_channels u)) \<longleftrightarrow> (\<exists>u \<in> set (bo_users cfg). x \<in> cc_name ` set (bu_channels u))" for x
  proof -
    have "set (map (\<lambda>u. cc_name ` set (bu_channels u)) us) = set (map (\<lambda>u. cc_name ` set (bu_channels u)) (bo_users cfg))"
      using u by simp
    then have "(\<Union>u \<in> set us. cc_name ` set (bu_channels u)) = (\<Union>u \<in> set (bo_users cfg). cc_name ` set (bu_channels u))"
      by (simp only: set_map)
    then show ?thesis by (simp only: UN_iff [symmetric])
  qed
  with s u \<open>us \<noteq> []\<close> show ?thesis by (simp add: config_coherent_def cfg')
qed

subsection \<open>Concrete configurations\<close>

definition plain_boot_lib :: boot_lib where
  "plain_boot_lib = \<lparr>bl_duration = (\<lambda>t. None), bl_time = (\<lambda>t. None), bl_marshal = (\<lambda>c. Some [])\<rparr>"

definition sample_boot_channel :: "string \<Rightarrow> channel_link list \<Rightarrow> boot_channel" where
  "sample_boot_channel n ls =
     \<lparr>cc_type = ''socket'', cc_name = n, cc_description = ''desk'', cc_purpose = [], cc_model = [], cc_max_turns = 0,
      cc_turn_settings = no_turn_settings, cc_tool_groups = [], cc_allowed = [], cc_disallowed = [], cc_creatable = [],
      cc_links = ls, cc_ephemeral = False, cc_idle_timeout = [], cc_session_timeout = [], cc_initial_message = [],
      cc_parent = [], cc_created_at = [], cc_rest = [], bc_token = None\<rparr>"

definition sample_boot_repo :: "access \<Rightarrow> repo_config" where
  "sample_boot_repo a =
     \<lparr>rc_name = ''vault'', rc_repo = ''me/notes'', rc_branch = [], rc_description = [], rc_channels = [''a''], rc_access = a,
      rc_credential = ''notes'', rc_fetch_every = [], rc_drop_at = [], rc_drop_clone = [], rc_mount_at = []\<rparr>"

definition sample_boot_config :: "access \<Rightarrow> string \<Rightarrow> boot_config" where
  "sample_boot_config a mount =
     \<lparr>bo_base_dir = [], bo_env = [], bo_addr = [], bo_public_url = [],
      bo_slots = [\<lparr>cs_type = ''git'', cs_label = ''notes'', cs_channel = ''b'', cs_description = [],
                   cs_fields = [(''token'', ''${boot:TOKEN}'')]\<rparr>],
      bo_egress = None,
      bo_users =
        [\<lparr>bu_id = ''me'', bu_api_key = ''${boot:KEY}'', bu_model = [], bu_permission_mode = [], bu_max_turns = 0, bu_debug = False,
          bu_output_style = [], bu_turn_settings = no_turn_settings, bu_debounce = [], bu_allowed = [''Bash''], bu_disallowed = [],
          bu_system_prompt = [],
          bu_knowledge = Some \<lparr>kc_repo = ''vault'', kc_mount_at = mount, kc_commit_name = [], kc_commit_email = [],
                              kc_dirs = [], kc_links = []\<rparr>,
          bu_repos = [sample_boot_repo a], bu_telegram = None,
          bu_channels = [sample_boot_channel ''a'' [\<lparr>cl_target = ''b'', cl_description = ''next''\<rparr>],
                         sample_boot_channel ''b'' [], sample_boot_channel ''a'' []]\<rparr>]\<rparr>"

definition boot_env_world :: boot_world where
  "boot_env_world =
     \<lparr>bw_cache = (\<lambda>n. None), bw_keychain = None, bw_env = [''KEY'' \<mapsto> ''k1'', ''TOKEN'' \<mapsto> ''t1'', ''PATH'' \<mapsto> ''/bin'']\<rparr>"

definition sample_load :: "(boot_error + boot_config) \<times> boot_world" where
  "sample_load =
     load_config plain_boot_lib ''local'' (InputConfig (sample_boot_config AccessFullWrite [])) boot_env_world"

definition loaded_ok :: "(boot_error + boot_config) \<times> boot_world \<Rightarrow> bool" where
  "loaded_ok r = (case fst r of Inl e \<Rightarrow> False | Inr c \<Rightarrow> True)"

lemma sample_load_run:
  "loaded_ok sample_load \<and> bw_cache (snd sample_load) ''KEY'' = Some ''k1'' \<and> bw_env (snd sample_load) ''PATH'' = Some ''/bin''"
  by code_simp

text \<open>
  \<open>mount_at\<close> of the vault is never checked: the check in the loop over the repos runs before the
  vault is placed, when no repo has a \<open>mount_at\<close> yet, so a path out of the user's directory passes.
\<close>

lemma vault_mount_is_not_checked:
  "(case validate_config plain_boot_lib (sample_boot_config AccessFullWrite ''../other'') of
      Inl e \<Rightarrow> [] | Inr c \<Rightarrow> map rc_mount_at (concat (map bu_repos (bo_users c)))) = [''../other'']"
  by code_simp

text \<open>The vault may be a repo whose pushes to its default branch are refused.\<close>

lemma vault_may_be_pull_requests_only:
  "(case validate_config plain_boot_lib (sample_boot_config AccessPullRequestsOnly []) of
      Inl e \<Rightarrow> [] | Inr c \<Rightarrow> map rc_access (concat (map bu_repos (bo_users c)))) = [AccessPullRequestsOnly]"
  by code_simp

theorem accepted_config_is_coherent_witness:
  "\<exists>c. validate_config plain_boot_lib (sample_boot_config AccessFullWrite []) = Inr c \<and> config_coherent plain_boot_lib c"
proof -
  have "(case validate_config plain_boot_lib (sample_boot_config AccessFullWrite []) of Inl e \<Rightarrow> False | Inr c \<Rightarrow> True)"
    by code_simp
  then obtain c where "validate_config plain_boot_lib (sample_boot_config AccessFullWrite []) = Inr c"
    by (auto split: sum.splits)
  with accepted_config_is_coherent [OF this] show ?thesis by blast
qed

theorem reload_gives_the_same_witness:
  "\<exists>cfg. fst sample_load = Inr cfg \<and>
     load_config plain_boot_lib ''local'' (InputConfig (sample_boot_config AccessFullWrite [])) (snd sample_load) = (Inr cfg, snd sample_load)"
proof -
  obtain cfg where cfg: "fst sample_load = Inr cfg"
    using sample_load_run by (auto simp: loaded_ok_def split: sum.splits)
  then have "load_config plain_boot_lib ''local'' (InputConfig (sample_boot_config AccessFullWrite [])) boot_env_world =
      (Inr cfg, snd sample_load)"
    by (simp add: sample_load_def prod_eq_iff)
  from reload_gives_the_same [OF this] cfg show ?thesis by simp
qed

end
