(* ===== verification/Schedule.thy ===== *)
theory Schedule
  imports Registry Channels
begin

text \<open>
  Schedules (\<open>internal/schedule/schedule.go\<close>): the record, the store that keeps them as one
  list, and the tools the agent edits them with (\<open>internal/tool/scheduletools\<close>).

  The cron library, the time zone database and the RFC 3339 reader are the parameter
  \<open>cron_lib\<close>: \<open>cl_parse\<close> reads an expression into the function that gives the next time after
  a time in a location, \<open>cl_load\<close> looks a zone name up, \<open>cl_local\<close> is the server's own zone.
\<close>

type_synonym schedule_id = string

datatype sched_status = StatusActive | StatusPaused | StatusOther string

record schedule =
  sc_id :: schedule_id
  sc_cron :: string
  sc_prompt :: string
  sc_channel :: string
  sc_timezone :: string
  sc_status :: sched_status
  sc_once :: bool
  sc_created_at :: time
  sc_last_run_at :: time
  sc_next_run_at :: time

type_synonym sched_error = "schedule_id list_error"
type_synonym sched_store = "schedule list store"

definition schedules_store_key :: string where "schedules_store_key = ''schedules''"

definition sched_list :: "sched_store \<Rightarrow> (sched_error + schedule list) \<times> sched_store" where
  "sched_list st = list_read schedules_store_key st"

definition sched_save :: "schedule list \<Rightarrow> sched_store \<Rightarrow> sched_error option \<times> sched_store" where
  "sched_save xs st = list_write schedules_store_key xs st"

definition sched_get ::
  "schedule_id \<Rightarrow> sched_store \<Rightarrow> (sched_error + schedule option) \<times> sched_store" where
  "sched_get i st =
     (case sched_list st of
        (Inl e, st') \<Rightarrow> (Inl e, st')
      | (Inr xs, st') \<Rightarrow> (Inr (find (\<lambda>s. sc_id s = i) xs), st'))"

definition sched_add :: "schedule \<Rightarrow> sched_store \<Rightarrow> sched_error option \<times> sched_store" where
  "sched_add s st =
     (case sched_list st of
        (Inl e, st') \<Rightarrow> (Some e, st')
      | (Inr xs, st') \<Rightarrow>
          if \<exists>x \<in> set xs. sc_id x = sc_id s then (Some (AlreadyExists (sc_id s)), st')
          else sched_save (xs @ [s]) st')"

definition sched_update ::
  "schedule_id \<Rightarrow> (schedule \<Rightarrow> schedule) \<Rightarrow> sched_store \<Rightarrow> sched_error option \<times> sched_store" where
  "sched_update i f st =
     (case sched_list st of
        (Inl e, st') \<Rightarrow> (Some e, st')
      | (Inr xs, st') \<Rightarrow>
          if \<forall>x \<in> set xs. sc_id x \<noteq> i then (Some (NotFound i), st')
          else sched_save (update_first (\<lambda>x. sc_id x = i) f xs) st')"

definition sched_remove :: "schedule_id \<Rightarrow> sched_store \<Rightarrow> sched_error option \<times> sched_store" where
  "sched_remove i st =
     (case sched_list st of
        (Inl e, st') \<Rightarrow> (Some e, st')
      | (Inr xs, st') \<Rightarrow>
          if \<forall>x \<in> set xs. sc_id x \<noteq> i then (Some (NotFound i), st')
          else sched_save (filter (\<lambda>x. sc_id x \<noteq> i) xs) st')"

definition sched_view :: "sched_store \<Rightarrow> schedule list option" where
  "sched_view st = list_view schedules_store_key st"

lemmas sched_ops = sched_list_def sched_save_def sched_add_def sched_update_def sched_remove_def
  sched_view_def

interpretation sched_reg: id_registry sc_id "\<lambda>s. s" sched_view sched_add sched_remove
proof unfold_locales
  fix a :: schedule and k and s s' :: sched_store and e
  show "sched_add a s = (None, s') \<Longrightarrow>
      \<exists>xs. sched_view s = Some xs \<and> sc_id a \<notin> sc_id ` set xs \<and> sched_view s' = Some (xs @ [a])"
    by (fastforce simp: sched_ops split: prod.splits sum.splits if_splits
        dest!: list_read_view list_write_ok)
  show "sched_remove k s = (None, s') \<Longrightarrow>
      \<exists>xs. sched_view s = Some xs \<and> k \<in> sc_id ` set xs \<and>
           sched_view s' = Some (filter (\<lambda>v. sc_id v \<noteq> k) xs)"
    by (auto simp: sched_ops image_iff split: prod.splits sum.splits if_splits
        dest!: list_read_view list_write_ok)
  show "sched_add a s = (Some e, s') \<Longrightarrow> sched_view s' \<in> {sched_view s, Some [], None}"
    by (auto simp: sched_ops split: prod.splits sum.splits if_splits
        dest: list_read_keeps list_rewrite_fail)
  show "sched_remove k s = (Some e, s') \<Longrightarrow> sched_view s' \<in> {sched_view s, Some [], None}"
    by (auto simp: sched_ops split: prod.splits sum.splits if_splits
        dest: list_read_keeps list_rewrite_fail)
qed

lemma sched_update_ok:
  "sched_update i f st = (None, st') \<Longrightarrow>
     \<exists>xs. sched_view st = Some xs \<and> (\<exists>x \<in> set xs. sc_id x = i) \<and>
          sched_view st' = Some (update_first (\<lambda>x. sc_id x = i) f xs)"
  by (auto simp: sched_ops split: prod.splits sum.splits if_splits
      dest!: list_read_view list_write_ok)

lemma sched_list_writable:
  "writable st schedules_store_key \<Longrightarrow> sched_view st = Some xs \<Longrightarrow> sched_list st = (Inr xs, st)"
  by (simp add: sched_ops list_read_writable)

lemma sched_remove_writable:
  assumes "writable st schedules_store_key" "sched_view st = Some xs" "\<exists>x \<in> set xs. sc_id x = i"
  shows "\<exists>st'. sched_remove i st = (None, st') \<and> writable st' schedules_store_key \<and>
               sched_view st' = Some (filter (\<lambda>x. sc_id x \<noteq> i) xs)"
  using assms list_write_writable [OF assms(1), of "filter (\<lambda>x. sc_id x \<noteq> i) xs"]
  by (auto simp: sched_remove_def sched_list_writable sched_save_def sched_view_def)

lemma sched_update_writable:
  assumes "writable st schedules_store_key" "sched_view st = Some xs" "\<exists>x \<in> set xs. sc_id x = i"
  shows "\<exists>st'. sched_update i f st = (None, st') \<and> writable st' schedules_store_key \<and>
               sched_view st' = Some (update_first (\<lambda>x. sc_id x = i) f xs)"
  using assms list_write_writable [OF assms(1), of "update_first (\<lambda>x. sc_id x = i) f xs"]
  by (auto simp: sched_update_def sched_list_writable sched_save_def sched_view_def)

subsection \<open>Cron expressions and zones\<close>

record 'l cron_lib =
  cl_parse :: "string \<Rightarrow> ('l \<Rightarrow> time \<Rightarrow> time) option"
  cl_load :: "string \<Rightarrow> 'l option"
  cl_local :: 'l
  cl_rfc3339 :: "string \<Rightarrow> time option"

definition resolve_location :: "'l cron_lib \<Rightarrow> string \<Rightarrow> 'l option" where
  "resolve_location lib tz = (if tz = [] then Some (cl_local lib) else cl_load lib tz)"

definition compute_next_run_from_time :: "'l cron_lib \<Rightarrow> string \<Rightarrow> time \<Rightarrow> string \<Rightarrow> time" where
  "compute_next_run_from_time lib expr t tz =
     (let loc = (case resolve_location lib tz of None \<Rightarrow> cl_local lib | Some l \<Rightarrow> l)
      in case cl_parse lib expr of
           None \<Rightarrow> t + 24 * 365 * hour
         | Some next_after \<Rightarrow> next_after loc t)"

definition compute_next_run :: "'l cron_lib \<Rightarrow> time \<Rightarrow> schedule \<Rightarrow> time" where
  "compute_next_run lib now s =
     (if sc_next_run_at s \<noteq> 0 then sc_next_run_at s
      else compute_next_run_from_time lib (sc_cron s) now (sc_timezone s))"

text \<open>
  What the cron library documents: the next activation time is later than the given time,
  or the zero time when none is found.
\<close>

definition cron_lib_ok :: "'l cron_lib \<Rightarrow> bool" where
  "cron_lib_ok lib =
     (\<forall>expr f l t. cl_parse lib expr = Some f \<longrightarrow> t < f l t \<or> f l t = 0)"

lemma next_run_later:
  "cron_lib_ok lib \<Longrightarrow> t < compute_next_run_from_time lib expr t tz \<or>
     compute_next_run_from_time lib expr t tz = 0"
  by (auto simp: compute_next_run_from_time_def Let_def cron_lib_ok_def hour_def minute_def
      second_def split: option.splits)

subsection \<open>The agent's schedule tools\<close>

text \<open>
  The tools' state: the stored schedules and whether a reload signal waits in the
  scheduler's one-place channel. The decoded arguments are records; the JSON decoding that
  makes them and the texts of the answers are left out.
\<close>

record sched_tools =
  stw_store :: sched_store
  stw_reload :: bool

definition sched_reload :: "sched_tools \<Rightarrow> sched_tools" where
  "sched_reload w = w\<lparr>stw_reload := True\<rparr>"

datatype sched_tool_error =
    PromptRequired | RunAtAndCron | RunAtOrCron | ChannelRequired | BadRunAt | RunAtPast
  | BadCron | BadTimezone | IdRequired | ResumeBadCron | ToolStore sched_error

record create_args =
  ca_prompt :: string
  ca_cron :: string
  ca_run_at :: string
  ca_channel :: string
  ca_timezone :: string

definition create_next_run ::
  "'l cron_lib \<Rightarrow> create_args \<Rightarrow> time \<Rightarrow> schedule \<Rightarrow> sched_tool_error + schedule" where
  "create_next_run lib a now s =
     (if ca_run_at a \<noteq> [] then
        (case cl_rfc3339 lib (ca_run_at a) of
           None \<Rightarrow> Inl BadRunAt
         | Some t \<Rightarrow>
             if \<not> now < t then Inl RunAtPast
             else Inr (s\<lparr>sc_once := True, sc_next_run_at := t\<rparr>))
      else
        (case cl_parse lib (ca_cron a) of
           None \<Rightarrow> Inl BadCron
         | Some next_after \<Rightarrow>
             (case (if ca_timezone a = [] then Some (cl_local lib) else cl_load lib (ca_timezone a)) of
                None \<Rightarrow> Inl BadTimezone
              | Some loc \<Rightarrow>
                  Inr (s\<lparr>sc_cron := ca_cron a, sc_timezone := ca_timezone a,
                         sc_next_run_at := next_after loc now\<rparr>))))"

definition schedule_create_handler ::
  "'l cron_lib \<Rightarrow> schedule_id \<Rightarrow> time \<Rightarrow> create_args \<Rightarrow> sched_tools \<Rightarrow>
     (sched_tool_error + schedule) \<times> sched_tools" where
  "schedule_create_handler lib new_id now a w =
     (if ca_prompt a = [] then (Inl PromptRequired, w)
      else if ca_run_at a \<noteq> [] \<and> ca_cron a \<noteq> [] then (Inl RunAtAndCron, w)
      else if ca_run_at a = [] \<and> ca_cron a = [] then (Inl RunAtOrCron, w)
      else if ca_channel a = [] then (Inl ChannelRequired, w)
      else
        (case create_next_run lib a now
                \<lparr>sc_id = new_id, sc_cron = [], sc_prompt = ca_prompt a, sc_channel = ca_channel a,
                 sc_timezone = [], sc_status = StatusActive, sc_once = False, sc_created_at = now,
                 sc_last_run_at = 0, sc_next_run_at = 0\<rparr> of
           Inl e \<Rightarrow> (Inl e, w)
         | Inr s \<Rightarrow>
             (case sched_add s (stw_store w) of
                (Some e, st) \<Rightarrow> (Inl (ToolStore e), w\<lparr>stw_store := st\<rparr>)
              | (None, st) \<Rightarrow> (Inr s, sched_reload (w\<lparr>stw_store := st\<rparr>)))))"

definition schedule_delete_handler ::
  "string \<Rightarrow> sched_tools \<Rightarrow> sched_tool_error option \<times> sched_tools" where
  "schedule_delete_handler i w =
     (if i = [] then (Some IdRequired, w)
      else (case sched_remove i (stw_store w) of
              (Some e, st) \<Rightarrow> (Some (ToolStore e), w\<lparr>stw_store := st\<rparr>)
            | (None, st) \<Rightarrow> (None, sched_reload (w\<lparr>stw_store := st\<rparr>))))"

definition schedule_pause_handler ::
  "string \<Rightarrow> sched_tools \<Rightarrow> sched_tool_error option \<times> sched_tools" where
  "schedule_pause_handler i w =
     (if i = [] then (Some IdRequired, w)
      else (case sched_update i (\<lambda>s. s\<lparr>sc_status := StatusPaused\<rparr>) (stw_store w) of
              (Some e, st) \<Rightarrow> (Some (ToolStore e), w\<lparr>stw_store := st\<rparr>)
            | (None, st) \<Rightarrow> (None, sched_reload (w\<lparr>stw_store := st\<rparr>))))"

text \<open>
  The update callback of a resume. The error it captures for the caller is reported after
  the store has saved the record, so it is the second part of the handler below.
\<close>

definition resume_update :: "'l cron_lib \<Rightarrow> time \<Rightarrow> schedule \<Rightarrow> schedule" where
  "resume_update lib now s =
     (case cl_parse lib (sc_cron s) of
        None \<Rightarrow> s\<lparr>sc_status := StatusActive\<rparr>
      | Some next_after \<Rightarrow>
          s\<lparr>sc_status := StatusActive, sc_next_run_at := next_after (cl_local lib) now\<rparr>)"

definition resume_parse_error :: "'l cron_lib \<Rightarrow> string \<Rightarrow> sched_store \<Rightarrow> bool" where
  "resume_parse_error lib i st =
     (case sched_view st of
        None \<Rightarrow> False
      | Some xs \<Rightarrow> (case find (\<lambda>s. sc_id s = i) xs of
                       None \<Rightarrow> False | Some s \<Rightarrow> cl_parse lib (sc_cron s) = None))"

definition schedule_resume_handler ::
  "'l cron_lib \<Rightarrow> time \<Rightarrow> string \<Rightarrow> sched_tools \<Rightarrow> sched_tool_error option \<times> sched_tools" where
  "schedule_resume_handler lib now i w =
     (if i = [] then (Some IdRequired, w)
      else (case sched_update i (resume_update lib now) (stw_store w) of
              (Some e, st) \<Rightarrow> (Some (ToolStore e), w\<lparr>stw_store := st\<rparr>)
            | (None, st) \<Rightarrow>
                if resume_parse_error lib i (stw_store w)
                then (Some ResumeBadCron, w\<lparr>stw_store := st\<rparr>)
                else (None, sched_reload (w\<lparr>stw_store := st\<rparr>))))"

record edit_args =
  ea_id :: string
  ea_prompt :: string
  ea_cron :: string
  ea_channel :: string
  ea_timezone :: "string option"

definition edit_update :: "'l cron_lib \<Rightarrow> time \<Rightarrow> edit_args \<Rightarrow> schedule \<Rightarrow> schedule" where
  "edit_update lib now a s =
     (let s1 = (if ea_prompt a \<noteq> [] then s\<lparr>sc_prompt := ea_prompt a\<rparr> else s);
          s2 = (case ea_timezone a of None \<Rightarrow> s1 | Some tz \<Rightarrow> s1\<lparr>sc_timezone := tz\<rparr>);
          s3 = (if ea_cron a \<noteq> [] then s2\<lparr>sc_cron := ea_cron a\<rparr> else s2);
          s4 = (if ea_cron a \<noteq> [] \<or> ea_timezone a \<noteq> None then
                  (let loc = (if sc_timezone s3 = [] then cl_local lib
                              else case cl_load lib (sc_timezone s3) of
                                     None \<Rightarrow> cl_local lib | Some l \<Rightarrow> l)
                   in case cl_parse lib (sc_cron s3) of
                        None \<Rightarrow> s3
                      | Some next_after \<Rightarrow> s3\<lparr>sc_next_run_at := next_after loc now\<rparr>)
                else s3)
      in if ea_channel a \<noteq> [] then s4\<lparr>sc_channel := ea_channel a\<rparr> else s4)"

definition schedule_edit_handler ::
  "'l cron_lib \<Rightarrow> time \<Rightarrow> edit_args \<Rightarrow> sched_tools \<Rightarrow> sched_tool_error option \<times> sched_tools" where
  "schedule_edit_handler lib now a w =
     (if ea_id a = [] then (Some IdRequired, w)
      else if ea_cron a \<noteq> [] \<and> cl_parse lib (ea_cron a) = None then (Some BadCron, w)
      else if (case ea_timezone a of None \<Rightarrow> False | Some tz \<Rightarrow> tz \<noteq> [] \<and> cl_load lib tz = None)
        then (Some BadTimezone, w)
      else (case sched_update (ea_id a) (edit_update lib now a) (stw_store w) of
              (Some e, st) \<Rightarrow> (Some (ToolStore e), w\<lparr>stw_store := st\<rparr>)
            | (None, st) \<Rightarrow> (None, sched_reload (w\<lparr>stw_store := st\<rparr>))))"

subsection \<open>Properties\<close>

lemma schedules_path: "safe_path ''/data'' schedules_store_key = Some ''/data/schedules''"
  by code_simp

lemma sample_store_writable [simp]:
  "writable (store_holding schedules_store_key xs) schedules_store_key"
  by (rule store_holding_writable [OF schedules_path]) simp

lemma sample_store_view [simp]: "sched_view (store_holding schedules_store_key xs) = Some xs"
  by (simp add: sched_view_def store_holding_view [OF schedules_path])

definition sample_cron :: "unit cron_lib" where
  "sample_cron =
     \<lparr>cl_parse = (\<lambda>e. if e = ''@hourly'' then Some (\<lambda>_ t. t + hour)
                     else if e = ''0 0 30 2 *'' then Some (\<lambda>_ _. 0) else None),
      cl_load = (\<lambda>_. None), cl_local = (), cl_rfc3339 = (\<lambda>_. None)\<rparr>"

lemma sample_cron_ok: "cron_lib_ok sample_cron"
  by (simp add: cron_lib_ok_def sample_cron_def hour_def minute_def second_def)

definition sample_schedule :: "schedule_id \<Rightarrow> string \<Rightarrow> time \<Rightarrow> schedule" where
  "sample_schedule i expr next_run =
     \<lparr>sc_id = i, sc_cron = expr, sc_prompt = ''check mail'', sc_channel = ''main'', sc_timezone = [],
      sc_status = StatusActive, sc_once = (expr = []), sc_created_at = 1, sc_last_run_at = 0,
      sc_next_run_at = next_run\<rparr>"

text \<open>
  No sequence of adds and removes, whatever fails on the way, puts two schedules with one
  ID in the store.
\<close>

theorem schedule_ids_unique:
  assumes "\<And>xs. sched_view st = Some xs \<Longrightarrow> distinct (map sc_id xs)"
    and "sched_view (fold (\<lambda>req. case req of Inl s \<Rightarrow> snd \<circ> sched_add s | Inr i \<Rightarrow> snd \<circ> sched_remove i)
           reqs st) = Some ys"
  shows "distinct (map sc_id ys)"
  using sched_reg.run_distinct assms by blast

theorem schedule_ids_unique_witness:
  "\<exists>ys. sched_view (snd (sched_add (sample_schedule ''a'' [] 5) (store_holding schedules_store_key []))) = Some ys \<and>
        ys = [sample_schedule ''a'' [] 5] \<and> distinct (map sc_id ys)"
proof -
  let ?st = "store_holding schedules_store_key [] :: sched_store"
  obtain st where st: "sched_add (sample_schedule ''a'' [] 5) ?st = (None, st)"
    using list_write_writable [OF sample_store_writable, of "[sample_schedule ''a'' [] 5]" "[]"]
    by (auto simp: sched_add_def sched_list_writable sched_save_def)
  from sched_reg.add_ok [OF this]
  have v: "sched_view (snd (sched_add (sample_schedule ''a'' [] 5) ?st)) = Some [sample_schedule ''a'' [] 5]"
    using st by simp
  have "distinct (map sc_id [sample_schedule ''a'' [] 5])"
    by (rule schedule_ids_unique [of ?st "[Inl (sample_schedule ''a'' [] 5)]"]) (simp_all add: v)
  with v show ?thesis by blast
qed

text \<open>
  A resume computes the next run in the server's own zone, whatever zone the schedule is kept
  in; creating and editing use the schedule's.
\<close>

theorem resume_ignores_zone:
  assumes "sched_view (stw_store w) = Some xs" and "find (\<lambda>s. sc_id s = i) xs = Some s"
    and "cl_parse lib (sc_cron s) = Some f"
    and "schedule_resume_handler lib now i w = (None, w')"
  shows "\<exists>ys s'. sched_view (stw_store w') = Some ys \<and> find (\<lambda>s. sc_id s = i) ys = Some s' \<and>
           sc_next_run_at s' = f (cl_local lib) now \<and> sc_timezone s' = sc_timezone s"
proof -
  from assms(4) obtain st where u: "sched_update i (resume_update lib now) (stw_store w) = (None, st)"
      and st: "stw_store w' = st"
    by (auto simp: schedule_resume_handler_def sched_reload_def split: if_splits prod.splits option.splits)
  from sched_update_ok [OF u] assms(1)
  have "sched_view st = Some (update_first (\<lambda>x. sc_id x = i) (resume_update lib now) xs)" by auto
  moreover have "find (\<lambda>s. sc_id s = i) (update_first (\<lambda>x. sc_id x = i) (resume_update lib now) xs) =
      Some (resume_update lib now s)"
    using find_update_first [of sc_id i "resume_update lib now" i xs] assms(2)
    by (simp add: resume_update_def split: option.splits)
  ultimately show ?thesis
    using st assms(3) by (simp add: resume_update_def)
qed

text \<open>
  Resuming a paused one-shot reminder (which has no cron expression) reports an error, yet the
  stored reminder is active again; the scheduler is not told.
\<close>

theorem resume_one_shot_reports_failure:
  assumes "i \<noteq> []" and "sched_view (stw_store w) = Some xs" and "find (\<lambda>s. sc_id s = i) xs = Some s"
    and "cl_parse lib (sc_cron s) = None" and "writable (stw_store w) schedules_store_key"
  shows "\<exists>w' ys s'. schedule_resume_handler lib now i w = (Some ResumeBadCron, w') \<and>
           stw_reload w' = stw_reload w \<and> sched_view (stw_store w') = Some ys \<and>
           find (\<lambda>s. sc_id s = i) ys = Some s' \<and> sc_status s' = StatusActive"
proof -
  from find_SomeD [OF assms(3)] have "\<exists>x \<in> set xs. sc_id x = i" by auto
  from sched_update_writable [OF assms(5,2) this, of "resume_update lib now"]
  obtain st where st: "sched_update i (resume_update lib now) (stw_store w) = (None, st)"
    "sched_view st = Some (update_first (\<lambda>x. sc_id x = i) (resume_update lib now) xs)" by blast
  have "find (\<lambda>s. sc_id s = i) (update_first (\<lambda>x. sc_id x = i) (resume_update lib now) xs) =
      Some (resume_update lib now s)"
    using find_update_first [of sc_id i "resume_update lib now" i xs] assms(3)
    by (simp add: resume_update_def split: option.splits)
  with st assms show ?thesis
    by (simp add: schedule_resume_handler_def resume_parse_error_def resume_update_def)
qed

text \<open>
  A pause stops exactly the named schedule: after it nothing else in the store has changed
  and the schedule, with everything else it held, is paused, so no pass of the scheduler fires
  it until a resume.
\<close>

theorem pause_stops_schedule:
  assumes "schedule_pause_handler i w = (None, w')"
  shows "\<exists>xs. sched_view (stw_store w) = Some xs \<and> (\<exists>s \<in> set xs. sc_id s = i) \<and>
           sched_view (stw_store w') =
             Some (update_first (\<lambda>s. sc_id s = i) (\<lambda>s. s\<lparr>sc_status := StatusPaused\<rparr>) xs) \<and>
           stw_reload w'"
proof -
  from assms obtain st where
    "sched_update i (\<lambda>s. s\<lparr>sc_status := StatusPaused\<rparr>) (stw_store w) = (None, st)"
    "w' = sched_reload (w\<lparr>stw_store := st\<rparr>)"
    by (auto simp: schedule_pause_handler_def split: if_splits prod.splits option.splits)
  then show ?thesis by (auto simp: sched_reload_def dest: sched_update_ok)
qed

theorem pause_stops_schedule_witness:
  "\<exists>w'. schedule_pause_handler ''a'' \<lparr>stw_store = store_holding schedules_store_key [sample_schedule ''a'' [] 5], stw_reload = False\<rparr> = (None, w') \<and>
        sched_view (stw_store w') = Some [(sample_schedule ''a'' [] 5)\<lparr>sc_status := StatusPaused\<rparr>]"
proof -
  let ?xs = "[sample_schedule ''a'' [] 5]"
  have "\<exists>x \<in> set ?xs. sc_id x = ''a''" by (simp add: sample_schedule_def)
  from sched_update_writable [OF sample_store_writable sample_store_view this,
      of "\<lambda>s. s\<lparr>sc_status := StatusPaused\<rparr>"]
  obtain w' where "schedule_pause_handler ''a'' \<lparr>stw_store = store_holding schedules_store_key ?xs, stw_reload = False\<rparr> = (None, w')"
    by (auto simp: schedule_pause_handler_def)
  with pause_stops_schedule [OF this] show ?thesis
    by (auto simp: sample_schedule_def)
qed

end
