(* ===== verification/Scheduler.thy ===== *)
theory Scheduler
  imports Schedule
begin

text \<open>
  The scheduler daemon (\<open>internal/schedule/scheduler.go\<close>): how long it sleeps, what it fires
  when it wakes, and one turn of its loop. The output channel is the list of messages it has
  accepted; \<open>sw_sends\<close> says for each send whether it goes through (\<open>True\<close>, also once the list
  is used up) or the context ends while the buffer is full. The clock readings of one pass
  are one reading.
\<close>

record sched_world =
  sw_store :: sched_store
  sw_out :: "tagged_message list"
  sw_sends :: "bool list"

definition resolve_channel :: "channel_map \<Rightarrow> string \<Rightarrow> channel_id option" where
  "resolve_channel m name = map_option fst (chan_by_name m name)"

definition schedule_message :: "channel_id \<Rightarrow> schedule \<Rightarrow> tagged_message" where
  "schedule_message cid s =
     \<lparr>tm_channel = cid, tm_text = sc_prompt s,
      tm_source = Some ((no_source SourceSchedule)\<lparr>si_schedule_name := sc_id s\<rparr>)\<rparr>"

definition send_output :: "tagged_message \<Rightarrow> sched_world \<Rightarrow> bool \<times> sched_world" where
  "send_output msg w =
     (case sw_sends w of
        [] \<Rightarrow> (True, w\<lparr>sw_out := sw_out w @ [msg]\<rparr>)
      | True # r \<Rightarrow> (True, w\<lparr>sw_out := sw_out w @ [msg], sw_sends := r\<rparr>)
      | False # r \<Rightarrow> (False, w\<lparr>sw_sends := r\<rparr>))"

definition advance_after_failed_resolve ::
  "'l cron_lib \<Rightarrow> schedule \<Rightarrow> time \<Rightarrow> sched_store \<Rightarrow> sched_store" where
  "advance_after_failed_resolve lib s now st =
     (if sc_once s then snd (sched_remove (sc_id s) st)
      else snd (sched_update (sc_id s)
             (\<lambda>x. x\<lparr>sc_next_run_at := compute_next_run_from_time lib (sc_cron x) now (sc_timezone x)\<rparr>) st))"

definition advance_after_fire ::
  "'l cron_lib \<Rightarrow> schedule \<Rightarrow> time \<Rightarrow> sched_store \<Rightarrow> sched_store" where
  "advance_after_fire lib s now st =
     (if sc_once s then snd (sched_remove (sc_id s) st)
      else snd (sched_update (sc_id s)
             (\<lambda>x. x\<lparr>sc_last_run_at := now,
                    sc_next_run_at := compute_next_run_from_time lib (sc_cron x) now (sc_timezone x)\<rparr>) st))"

text \<open>One turn of the loop over the schedules; \<open>False\<close> is the \<open>return\<close> out of it.\<close>

definition fire_one ::
  "'l cron_lib \<Rightarrow> time \<Rightarrow> channel_map \<Rightarrow> schedule \<Rightarrow> sched_world \<Rightarrow> bool \<times> sched_world" where
  "fire_one lib now chans s w =
     (if sc_status s \<noteq> StatusActive then (True, w)
      else if now < compute_next_run lib now s then (True, w)
      else
        (case resolve_channel chans (sc_channel s) of
           None \<Rightarrow> (True, w\<lparr>sw_store := advance_after_failed_resolve lib s now (sw_store w)\<rparr>)
         | Some cid \<Rightarrow>
             send_output (schedule_message cid s)
               (w\<lparr>sw_store := advance_after_fire lib s now (sw_store w)\<rparr>)))"

fun fire_loop ::
  "'l cron_lib \<Rightarrow> time \<Rightarrow> channel_map \<Rightarrow> schedule list \<Rightarrow> sched_world \<Rightarrow> sched_world" where
  "fire_loop lib now chans [] w = w"
| "fire_loop lib now chans (s # ss) w =
     (case fire_one lib now chans s w of
        (go_on, w') \<Rightarrow> if go_on then fire_loop lib now chans ss w' else w')"

definition fire_ready_schedules ::
  "'l cron_lib \<Rightarrow> time \<Rightarrow> channel_map \<Rightarrow> sched_world \<Rightarrow> sched_world" where
  "fire_ready_schedules lib now chans w =
     (case sched_list (sw_store w) of
        (Inl e, st) \<Rightarrow> w\<lparr>sw_store := st\<rparr>
      | (Inr xs, st) \<Rightarrow> fire_loop lib now chans xs (w\<lparr>sw_store := st\<rparr>))"

fun find_earliest :: "'l cron_lib \<Rightarrow> time \<Rightarrow> schedule list \<Rightarrow> time \<Rightarrow> time" where
  "find_earliest lib now [] earliest = earliest"
| "find_earliest lib now (s # ss) earliest =
     (if sc_status s \<noteq> StatusActive then find_earliest lib now ss earliest
      else
        (let next_run = compute_next_run lib now s
         in find_earliest lib now ss
              (if earliest = 0 \<or> next_run < earliest then next_run else earliest)))"

text \<open>What the loop does next: wait for a reload, or sleep that long.\<close>

datatype sched_wait = AwaitReload | SleepFor duration

definition scheduler_wait ::
  "'l cron_lib \<Rightarrow> time \<Rightarrow> sched_store \<Rightarrow> sched_wait \<times> sched_store" where
  "scheduler_wait lib now st =
     (case sched_list st of
        (Inl e, st') \<Rightarrow> (AwaitReload, st')
      | (Inr xs, st') \<Rightarrow>
          (let earliest = find_earliest lib now xs 0
           in if earliest = 0 then (AwaitReload, st')
              else (SleepFor (max 0 (time_sub earliest now)), st')))"

datatype sched_event = CtxDone | ReloadSignal | TimerFires

text \<open>
  One turn of \<open>Run\<close>: load the schedules at \<open>now\<close>, wait, take the event that ends the wait, and
  fire at \<open>later\<close> if it is the timer. The first result says whether \<open>Run\<close> goes on. \<open>None\<close>: the
  event is not one the wait listens to.
\<close>

definition scheduler_step ::
  "'l cron_lib \<Rightarrow> time \<Rightarrow> sched_event \<Rightarrow> time \<Rightarrow> channel_map \<Rightarrow> sched_world \<Rightarrow>
     (bool \<times> sched_world) option" where
  "scheduler_step lib now ev later chans w =
     (case scheduler_wait lib now (sw_store w) of
        (wait, st) \<Rightarrow>
          (let w' = w\<lparr>sw_store := st\<rparr>
           in case ev of
                CtxDone \<Rightarrow> Some (False, w')
              | ReloadSignal \<Rightarrow> Some (True, w')
              | TimerFires \<Rightarrow>
                  (case wait of
                     AwaitReload \<Rightarrow> None
                   | SleepFor d \<Rightarrow> Some (True, fire_ready_schedules lib later chans w'))))"

subsection \<open>What a pass fires\<close>

definition schedule_due :: "'l cron_lib \<Rightarrow> time \<Rightarrow> schedule \<Rightarrow> bool" where
  "schedule_due lib now s = (sc_status s = StatusActive \<and> compute_next_run lib now s \<le> now)"

fun due_messages :: "'l cron_lib \<Rightarrow> time \<Rightarrow> channel_map \<Rightarrow> schedule list \<Rightarrow> tagged_message list" where
  "due_messages lib now chans [] = []"
| "due_messages lib now chans (s # ss) =
     (case (schedule_due lib now s, resolve_channel chans (sc_channel s)) of
        (True, Some cid) \<Rightarrow> schedule_message cid s # due_messages lib now chans ss
      | _ \<Rightarrow> due_messages lib now chans ss)"

lemma due_messages_set:
  "m \<in> set (due_messages lib now chans ss) \<Longrightarrow>
     \<exists>s \<in> set ss. schedule_due lib now s \<and>
       (\<exists>cid c. (cid, c) \<in> set chans \<and> ch_name c = sc_channel s \<and> m = schedule_message cid s)"
proof (induction ss)
  case (Cons s ss)
  then show ?case
    by (fastforce simp: resolve_channel_def split: bool.splits option.splits dest: chan_by_name_Some)
qed simp

lemma send_output_out:
  "send_output msg w = (b, w') \<Longrightarrow>
     sw_store w' = sw_store w \<and> sw_out w' = sw_out w @ (if b then [msg] else [])"
  by (auto simp: send_output_def split: list.splits bool.splits)

lemma fire_loop_prefix:
  "\<exists>n. sw_out (fire_loop lib now chans ss w) =
         sw_out w @ take n (due_messages lib now chans ss)"
proof (induction ss arbitrary: w)
  case Nil
  show ?case by simp
next
  case (Cons s ss)
  show ?case
  proof (cases "schedule_due lib now s \<and> resolve_channel chans (sc_channel s) \<noteq> None")
    case True
    then obtain cid where cid: "resolve_channel chans (sc_channel s) = Some cid" by auto
    let ?w = "w\<lparr>sw_store := advance_after_fire lib s now (sw_store w)\<rparr>"
    obtain b w' where s: "send_output (schedule_message cid s) ?w = (b, w')" by fastforce
    with True cid have one: "fire_one lib now chans s w = (b, w')"
      by (simp add: fire_one_def schedule_due_def)
    from True cid have due:
      "due_messages lib now chans (s # ss) = schedule_message cid s # due_messages lib now chans ss"
      by simp
    show ?thesis
    proof (cases b)
      case True
      obtain n where n: "sw_out (fire_loop lib now chans ss w') =
          sw_out w' @ take n (due_messages lib now chans ss)"
        using Cons.IH by blast
      show ?thesis
        using one True n send_output_out [OF s] due by (intro exI [of _ "Suc n"]) simp
    next
      case False
      then show ?thesis
        using one send_output_out [OF s] by (intro exI [of _ 0]) simp
    qed
  next
    case False
    then have "fst (fire_one lib now chans s w) \<and> sw_out (snd (fire_one lib now chans s w)) = sw_out w"
      by (auto simp: fire_one_def schedule_due_def split: option.splits)
    then obtain w' where one: "fire_one lib now chans s w = (True, w')" "sw_out w' = sw_out w"
      by (metis prod.collapse)
    from False have "due_messages lib now chans (s # ss) = due_messages lib now chans ss"
      by (auto split: option.splits bool.splits)
    with one Cons.IH [of w'] show ?thesis by simp
  qed
qed

text \<open>What a pass leaves of one schedule: nothing of a one-shot that was due.\<close>

definition settle :: "'l cron_lib \<Rightarrow> time \<Rightarrow> channel_map \<Rightarrow> schedule \<Rightarrow> schedule option" where
  "settle lib now chans s =
     (if \<not> schedule_due lib now s then Some s
      else if sc_once s then None
      else Some (s\<lparr>sc_last_run_at :=
                     (if resolve_channel chans (sc_channel s) = None then sc_last_run_at s else now),
                   sc_next_run_at :=
                     compute_next_run_from_time lib (sc_cron s) now (sc_timezone s)\<rparr>))"

lemma update_first_mid:
  "\<forall>x \<in> set xs. key x \<noteq> key s \<Longrightarrow>
     update_first (\<lambda>x. key x = key s) f (xs @ s # ys) = xs @ f s # ys"
  by (induction xs) auto

lemma filter_mid:
  "distinct (map key (xs @ s # ys)) \<Longrightarrow> filter (\<lambda>x. key x \<noteq> key s) (xs @ s # ys) = xs @ ys"
proof -
  assume "distinct (map key (xs @ s # ys))"
  then have "key s \<notin> key ` set xs" and "key s \<notin> key ` set ys" by auto
  then have "filter (\<lambda>x. key x \<noteq> key s) xs = xs" and "filter (\<lambda>x. key x \<noteq> key s) ys = ys"
    by (auto simp: image_iff intro!: filter_True)
  then show ?thesis by simp
qed

lemma settle_keys: "settle lib now chans s = Some s' \<Longrightarrow> sc_id s' = sc_id s"
  by (auto simp: settle_def split: if_splits)

text \<open>One step, on a store that answers and a channel that takes the message.\<close>

lemma fire_one_settles:
  assumes "writable (sw_store w) schedules_store_key"
    and "sched_view (sw_store w) = Some (xs @ s # ys)"
    and "distinct (map sc_id (xs @ s # ys))" and "sw_sends w = []"
  shows "\<exists>w'. fire_one lib now chans s w = (True, w') \<and> writable (sw_store w') schedules_store_key \<and>
           sched_view (sw_store w') = Some (xs @ (case settle lib now chans s of None \<Rightarrow> [] | Some x \<Rightarrow> [x]) @ ys) \<and>
           sw_sends w' = [] \<and> sw_out w' = sw_out w @ due_messages lib now chans [s]"
proof (cases "schedule_due lib now s")
  case False
  then show ?thesis
    using assms by (auto simp: fire_one_def schedule_due_def settle_def)
next
  case True
  have here: "\<exists>x \<in> set (xs @ s # ys). sc_id x = sc_id s" by auto
  have other: "\<forall>x \<in> set xs. sc_id x \<noteq> sc_id s"
    using assms(3) by simp (metis image_eqI)
  obtain st where rem: "sched_remove (sc_id s) (sw_store w) = (None, st)"
      "writable st schedules_store_key" "sched_view st = Some (xs @ ys)"
    using sched_remove_writable [OF assms(1,2) here] filter_mid [OF assms(3)] by auto
  have upd: "\<exists>st. sched_update (sc_id s) f (sw_store w) = (None, st) \<and>
      writable st schedules_store_key \<and> sched_view st = Some (xs @ f s # ys)" for f
    using sched_update_writable [OF assms(1,2) here, of f] update_first_mid [OF other] by auto
  show ?thesis
  proof (cases "sc_once s")
    case once: True
    with True rem assms(4) show ?thesis
      by (auto simp: fire_one_def schedule_due_def settle_def advance_after_fire_def
          advance_after_failed_resolve_def send_output_def split: option.splits)
  next
    case False
    let ?n = "\<lambda>x. compute_next_run_from_time lib (sc_cron x) now (sc_timezone x)"
    show ?thesis
      using True False assms(4) upd [of "\<lambda>x. x\<lparr>sc_next_run_at := ?n x\<rparr>"]
        upd [of "\<lambda>x. x\<lparr>sc_last_run_at := now, sc_next_run_at := ?n x\<rparr>"]
      by (auto simp: fire_one_def schedule_due_def settle_def advance_after_fire_def
          advance_after_failed_resolve_def send_output_def split: option.splits)
  qed
qed

lemma due_messages_append:
  "due_messages lib now chans (xs @ ys) = due_messages lib now chans xs @ due_messages lib now chans ys"
  by (induction xs) (auto split: bool.splits option.splits)

lemma fire_loop_settles:
  assumes "writable (sw_store w) schedules_store_key"
    and "sched_view (sw_store w) = Some (xs @ ss)"
    and "distinct (map sc_id (xs @ ss))" and "sw_sends w = []"
  shows "sched_view (sw_store (fire_loop lib now chans ss w)) =
           Some (xs @ List.map_filter (settle lib now chans) ss) \<and>
         sw_out (fire_loop lib now chans ss w) = sw_out w @ due_messages lib now chans ss"
  using assms
proof (induction ss arbitrary: xs w)
  case Nil
  then show ?case by (simp add: map_filter_simps)
next
  case (Cons s ss)
  let ?kept = "case settle lib now chans s of None \<Rightarrow> [] | Some x \<Rightarrow> [x]"
  obtain w' where w': "fire_one lib now chans s w = (True, w')"
      "writable (sw_store w') schedules_store_key"
      "sched_view (sw_store w') = Some (xs @ ?kept @ ss)"
      "sw_sends w' = []" "sw_out w' = sw_out w @ due_messages lib now chans [s]"
    using fire_one_settles [OF Cons.prems] by blast
  have view: "sched_view (sw_store w') = Some ((xs @ ?kept) @ ss)" using w'(3) by simp
  have "distinct (map sc_id ((xs @ ?kept) @ ss))"
    using Cons.prems(3) by (auto split: option.splits dest: settle_keys)
  from Cons.IH [OF w'(2) view this w'(4)] show ?case
    using w'(1,5) due_messages_append [of lib now chans "[s]" ss]
    by (auto simp: map_filter_simps split: option.splits)
qed


lemma fire_ready_settles:
  assumes "writable (sw_store w) schedules_store_key" and "sched_view (sw_store w) = Some xs"
    and "distinct (map sc_id xs)" and "sw_sends w = []"
  shows "sched_view (sw_store (fire_ready_schedules lib now chans w)) =
           Some (List.map_filter (settle lib now chans) xs) \<and>
         sw_out (fire_ready_schedules lib now chans w) = sw_out w @ due_messages lib now chans xs"
  using fire_loop_settles [of w "[]" xs] assms
  by (simp add: fire_ready_schedules_def sched_list_writable)

lemma settle_not_due:
  assumes "cron_lib_ok lib" and "settle lib now chans s = Some s'" and "schedule_due lib now s'"
  shows "compute_next_run lib now s' = 0"
proof (cases "schedule_due lib now s")
  case False
  with assms show ?thesis by (simp add: settle_def)
next
  case True
  let ?n = "compute_next_run_from_time lib (sc_cron s) now (sc_timezone s)"
  from True assms(2) have s': "sc_next_run_at s' = ?n" "sc_cron s' = sc_cron s"
      "sc_timezone s' = sc_timezone s"
    by (auto simp: settle_def split: if_splits)
  then have "compute_next_run lib now s' = ?n"
    by (simp add: compute_next_run_def)
  with assms(3) next_run_later [OF assms(1), of now "sc_cron s" "sc_timezone s"] show ?thesis
    by (auto simp: schedule_due_def)
qed

lemma sched_list_reads:
  "sched_view st = Some xs \<Longrightarrow> \<exists>r st'. sched_list st = (r, st') \<and> (case r of Inl e \<Rightarrow> True | Inr ys \<Rightarrow> ys = xs)"
  by (cases "sched_list st")
     (auto simp: sched_list_def sched_view_def split: sum.splits dest!: list_read_view)

subsection \<open>How long it sleeps\<close>

definition active_runs :: "'l cron_lib \<Rightarrow> time \<Rightarrow> schedule list \<Rightarrow> time list" where
  "active_runs lib now ss = map (compute_next_run lib now) (filter (\<lambda>s. sc_status s = StatusActive) ss)"

lemma find_earliest_from:
  "e \<noteq> 0 \<Longrightarrow> 0 \<notin> set (active_runs lib now ss) \<Longrightarrow>
     find_earliest lib now ss e = Min (set (e # active_runs lib now ss))"
  unfolding Min.set_eq_fold
  by (induction ss arbitrary: e) (auto simp: active_runs_def Let_def min_def)

lemma find_earliest_min:
  "0 \<notin> set (active_runs lib now ss) \<Longrightarrow>
     find_earliest lib now ss 0 =
       (if active_runs lib now ss = [] then 0 else Min (set (active_runs lib now ss)))"
proof (induction ss)
  case Nil
  then show ?case by (simp add: active_runs_def)
next
  case (Cons s ss)
  show ?case
  proof (cases "sc_status s = StatusActive")
    case False
    with Cons show ?thesis by (simp add: active_runs_def)
  next
    case True
    with Cons.prems have "compute_next_run lib now s \<noteq> 0" "0 \<notin> set (active_runs lib now ss)"
      by (auto simp: active_runs_def)
    with True find_earliest_from [of "compute_next_run lib now s" lib now ss] show ?thesis
      by (simp add: active_runs_def Let_def)
  qed
qed

lemma find_earliest_append:
  "find_earliest lib now (xs @ ys) e = find_earliest lib now ys (find_earliest lib now xs e)"
  by (induction xs arbitrary: e) (simp_all add: Let_def)

lemma find_earliest_nonneg:
  "0 \<le> e \<Longrightarrow> \<forall>t \<in> set (active_runs lib now ss). 0 \<le> t \<Longrightarrow> 0 \<le> find_earliest lib now ss e"
  by (induction ss arbitrary: e) (auto simp: active_runs_def Let_def)

lemma time_sub_mono: "a \<le> b \<Longrightarrow> time_sub a c \<le> time_sub b c"
  by (auto simp: time_sub_def)

text \<open>The state the examples run on: an hourly schedule that is due and one far ahead.\<close>

definition sample_schedules :: "schedule list" where
  "sample_schedules = [sample_schedule ''a'' ''@hourly'' 5, sample_schedule ''b'' [] 900]"

definition sample_sched_world :: sched_world where
  "sample_sched_world =
     \<lparr>sw_store = store_holding schedules_store_key sample_schedules, sw_out = [], sw_sends = []\<rparr>"

definition sample_chans :: channel_map where
  "sample_chans = [(''c1'', \<lparr>ch_id = ''c1'', ch_name = ''main'', ch_type = ''socket'', ch_prompter = False\<rparr>)]"

lemma sample_world_laws [simp]:
  "writable (sw_store sample_sched_world) schedules_store_key"
  "sched_view (sw_store sample_sched_world) = Some sample_schedules"
  "distinct (map sc_id sample_schedules)" "sw_sends sample_sched_world = []"
  "sw_out sample_sched_world = []"
  by (simp_all add: sample_sched_world_def sample_schedules_def sample_schedule_def)

lemma sample_due:
  "due_messages sample_cron 100 sample_chans sample_schedules =
     [schedule_message ''c1'' (sample_schedule ''a'' ''@hourly'' 5)]"
  by (simp add: sample_schedules_def schedule_due_def sample_schedule_def compute_next_run_def
      resolve_channel_def chan_by_name_def sample_chans_def)

subsection \<open>The properties\<close>

text \<open>
  Whatever the disk and the output channel do, a pass injects only prompts that are due:
  the messages are the first so many of the due schedules' in list order, each once, and each
  is the prompt of an active stored schedule whose time has come, sent to a live channel of
  the name it carries and marked as that schedule's.
\<close>

theorem scheduler_fires_only_due:
  assumes "sched_view (sw_store w) = Some xs"
  shows "\<exists>n. sw_out (fire_ready_schedules lib now chans w) =
               sw_out w @ take n (due_messages lib now chans xs) \<and>
             (\<forall>m \<in> set (take n (due_messages lib now chans xs)). \<exists>s \<in> set xs.
                sc_status s = StatusActive \<and> compute_next_run lib now s \<le> now \<and>
                (\<exists>cid c. (cid, c) \<in> set chans \<and> ch_name c = sc_channel s \<and>
                         m = schedule_message cid s))"
proof -
  from sched_list_reads [OF assms] obtain r st where r: "sched_list (sw_store w) = (r, st)"
      "case r of Inl e \<Rightarrow> True | Inr ys \<Rightarrow> ys = xs" by blast
  have "\<exists>n. sw_out (fire_ready_schedules lib now chans w) =
               sw_out w @ take n (due_messages lib now chans xs)"
  proof (cases r)
    case (Inl e)
    with r show ?thesis by (intro exI [of _ 0]) (simp add: fire_ready_schedules_def)
  next
    case (Inr ys)
    with r fire_loop_prefix [of lib now chans xs "w\<lparr>sw_store := st\<rparr>"] show ?thesis
      by (simp add: fire_ready_schedules_def)
  qed
  then obtain n where n: "sw_out (fire_ready_schedules lib now chans w) =
      sw_out w @ take n (due_messages lib now chans xs)" ..
  have due: "\<exists>s \<in> set xs. sc_status s = StatusActive \<and> compute_next_run lib now s \<le> now \<and>
      (\<exists>cid c. (cid, c) \<in> set chans \<and> ch_name c = sc_channel s \<and> m = schedule_message cid s)"
    if "m \<in> set (take n (due_messages lib now chans xs))" for m
    using due_messages_set [OF in_set_takeD [OF that]] by (auto simp: schedule_due_def)
  show ?thesis
    by (rule exI [of _ n], intro conjI ballI, rule n, erule due)
qed

theorem scheduler_fires_only_due_witness:
  "\<exists>n. sw_out (fire_ready_schedules sample_cron 100 sample_chans sample_sched_world) =
         take n [schedule_message ''c1'' (sample_schedule ''a'' ''@hourly'' 5)]"
  using scheduler_fires_only_due [of sample_sched_world sample_schedules sample_cron 100 sample_chans]
  by (auto simp: sample_due)

text \<open>
  A pass that is not disturbed injects exactly the due prompts and settles the store:
  schedules not due stay as they are, a due one-shot is gone, a due recurring schedule has its
  next run computed from the pass (and its last run set when its channel was there).
\<close>

theorem scheduler_pass_settles:
  assumes "writable (sw_store w) schedules_store_key" and "sched_view (sw_store w) = Some xs"
    and "distinct (map sc_id xs)" and "sw_sends w = []"
  shows "sw_out (fire_ready_schedules lib now chans w) = sw_out w @ due_messages lib now chans xs \<and>
         sched_view (sw_store (fire_ready_schedules lib now chans w)) =
           Some (List.map_filter (settle lib now chans) xs)"
  by (simp add: fire_ready_settles [OF assms])

theorem scheduler_pass_settles_witness:
  "sw_out (fire_ready_schedules sample_cron 100 sample_chans sample_sched_world) =
     [schedule_message ''c1'' (sample_schedule ''a'' ''@hourly'' 5)] \<and>
   sched_view (sw_store (fire_ready_schedules sample_cron 100 sample_chans sample_sched_world)) =
     Some [(sample_schedule ''a'' ''@hourly'' 5)\<lparr>sc_last_run_at := 100, sc_next_run_at := 100 + hour\<rparr>,
           sample_schedule ''b'' [] 900]"
proof -
  have "List.map_filter (settle sample_cron 100 sample_chans) sample_schedules =
    [(sample_schedule ''a'' ''@hourly'' 5)\<lparr>sc_last_run_at := 100, sc_next_run_at := 100 + hour\<rparr>,
     sample_schedule ''b'' [] 900]"
    by (simp add: sample_schedules_def settle_def schedule_due_def sample_schedule_def
        compute_next_run_def compute_next_run_from_time_def resolve_location_def sample_cron_def
        resolve_channel_def chan_by_name_def sample_chans_def map_filter_simps)
  then show ?thesis
    using scheduler_pass_settles [of sample_sched_world sample_schedules sample_cron 100 sample_chans]
    by (simp add: sample_due)
qed

text \<open>
  No tight loop: after an undisturbed pass at \<open>now\<close> nothing stored is still due at \<open>now\<close>,
  whether or not its channel could be resolved. The one exception is a schedule for whose
  expression the cron library finds no next time at all.
\<close>

theorem scheduler_no_respin:
  assumes "cron_lib_ok lib"
    and "writable (sw_store w) schedules_store_key" and "sched_view (sw_store w) = Some xs"
    and "distinct (map sc_id xs)" and "sw_sends w = []"
    and "sched_view (sw_store (fire_ready_schedules lib now chans w)) = Some ys"
    and "s \<in> set ys" and "schedule_due lib now s"
  shows "compute_next_run lib now s = 0"
proof -
  have "ys = List.map_filter (settle lib now chans) xs"
    using assms(6) by (simp add: fire_ready_settles [OF assms(2-5)])
  with assms(7) obtain x where "settle lib now chans x = Some s"
    by (auto simp: List.map_filter_def)
  with assms(1,8) show ?thesis by (auto intro: settle_not_due)
qed

text \<open>The hypotheses hold together: an impossible schedule is still due after the pass.\<close>

theorem scheduler_no_respin_witness:
  "let bad = sample_schedule ''x'' ''0 0 30 2 *'' 0;
       w = \<lparr>sw_store = store_holding schedules_store_key [bad], sw_out = [], sw_sends = []\<rparr>
   in sched_view (sw_store (fire_ready_schedules sample_cron 100 [] w)) = Some [bad] \<and>
      schedule_due sample_cron 100 bad \<and> compute_next_run sample_cron 100 bad = 0"
proof -
  let ?bad = "sample_schedule ''x'' ''0 0 30 2 *'' 0"
  let ?w = "\<lparr>sw_store = store_holding schedules_store_key [?bad], sw_out = [], sw_sends = []\<rparr> :: sched_world"
  have n: "compute_next_run_from_time sample_cron ''0 0 30 2 *'' 100 [] = 0"
    by (simp add: compute_next_run_from_time_def resolve_location_def sample_cron_def)
  then have due: "schedule_due sample_cron 100 ?bad"
    by (simp add: schedule_due_def sample_schedule_def compute_next_run_def)
  have "settle sample_cron 100 [] ?bad = Some ?bad"
    using due n by (simp add: settle_def resolve_channel_def chan_by_name_def sample_schedule_def)
  with fire_ready_settles [of ?w "[?bad]" sample_cron 100 "[]"]
  have v: "sched_view (sw_store (fire_ready_schedules sample_cron 100 [] ?w)) = Some [?bad]"
    by (simp add: map_filter_simps)
  have "compute_next_run sample_cron 100 ?bad = 0"
    by (rule scheduler_no_respin [OF sample_cron_ok _ _ _ _ v _ due, where xs = "[?bad]"]) simp_all
  with v due show ?thesis by (simp add: Let_def)
qed

text \<open>
  The scheduler does not sleep past a schedule: when every active schedule has a next run,
  it sleeps until the earliest of them, no longer than any of them needs, and only waits for a
  reload when none is active.
\<close>

theorem scheduler_sleeps_in_time:
  assumes "writable st schedules_store_key" and "sched_view st = Some xs"
    and "0 \<notin> set (active_runs lib now xs)"
  shows "(active_runs lib now xs = [] \<longrightarrow> scheduler_wait lib now st = (AwaitReload, st)) \<and>
         (active_runs lib now xs \<noteq> [] \<longrightarrow>
            (\<exists>d. scheduler_wait lib now st = (SleepFor d, st) \<and>
                 (\<exists>t \<in> set (active_runs lib now xs). d = max 0 (time_sub t now)) \<and>
                 (\<forall>t \<in> set (active_runs lib now xs). d \<le> max 0 (time_sub t now))))"
proof -
  let ?ts = "active_runs lib now xs"
  have wait: "scheduler_wait lib now st =
      (if ?ts = [] \<or> Min (set ?ts) = 0 then AwaitReload else SleepFor (max 0 (time_sub (Min (set ?ts)) now)), st)"
    using find_earliest_min [OF assms(3)]
    by (simp add: scheduler_wait_def sched_list_writable [OF assms(1,2)] Let_def)
  show ?thesis
  proof (cases "?ts = []")
    case True
    with wait show ?thesis by simp
  next
    case False
    then have m: "Min (set ?ts) \<in> set ?ts" by (intro Min_in) simp_all
    with assms(3) have "Min (set ?ts) \<noteq> 0" by auto
    moreover have "max 0 (time_sub (Min (set ?ts)) now) \<le> max 0 (time_sub t now)" if "t \<in> set ?ts" for t
      using time_sub_mono [OF Min_le [OF _ that], of now] by simp
    ultimately show ?thesis using wait False m by auto
  qed
qed

theorem scheduler_sleeps_in_time_witness:
  "\<exists>d. scheduler_wait sample_cron 2 (sw_store sample_sched_world) = (SleepFor d, sw_store sample_sched_world) \<and>
       d \<le> max 0 (time_sub 5 2)"
proof -
  have "active_runs sample_cron 2 sample_schedules = [5, 900]"
    by (simp add: active_runs_def sample_schedules_def sample_schedule_def compute_next_run_def)
  with scheduler_sleeps_in_time [of "sw_store sample_sched_world" sample_schedules sample_cron 2]
  show ?thesis by auto
qed

text \<open>
  A stored schedule whose expression never matches (the cron library answers with the zero
  time, e.g. for 30 February) undoes this: listed last, it makes the scheduler wait for a
  reload although others are due, because the zero time doubles as "none found".
\<close>

theorem impossible_schedule_stops_scheduler:
  assumes "writable st schedules_store_key" and "sched_view st = Some (xs @ [bad])"
    and "sc_status bad = StatusActive" and "compute_next_run lib now bad = 0"
    and "\<forall>t \<in> set (active_runs lib now xs). 0 \<le> t"
  shows "scheduler_wait lib now st = (AwaitReload, st)"
  using assms find_earliest_nonneg [of 0 lib now xs]
  by (simp add: scheduler_wait_def sched_list_writable find_earliest_append Let_def)

text \<open>And whenever another schedule wakes the scheduler, the impossible one fires as well.\<close>

theorem impossible_schedule_fires:
  assumes "sc_status s = StatusActive" and "compute_next_run lib now s = 0" and "0 \<le> now"
    and "resolve_channel chans (sc_channel s) = Some cid"
  shows "due_messages lib now chans [s] = [schedule_message cid s]"
  using assms by (simp add: schedule_due_def)

end
