(* ===== verification/Notifications.thy ===== *)
theory Notifications
  imports Scheduler "HOL-Library.AList"
begin

text \<open>
  Notification subscriptions: the store (\<open>internal/notification/store.go\<close>, with the data of
  \<open>notification.go\<close>) and the manager that starts watchers, delivers what they emit and keeps
  subscriptions and watchers in step (\<open>manager.go\<close>).

  A package's notifier is code the manager only calls. It is the record \<open>notifier\<close>: what it
  emits through its emitter during the call, and what the call returns. A cancel function is a
  token; calling it puts the token in \<open>nw_cancelled\<close>.
\<close>

type_synonym subscription_id = string
type_synonym cancel_func = nat

datatype scope = ScopeOneShot | ScopeCredential | ScopePersistent | ScopeOther string

record subscription =
  sub_id :: subscription_id
  sub_scope :: scope
  sub_channel :: string
  sub_package :: string
  sub_type :: string
  sub_config :: string
  sub_credential_set :: string
  sub_label :: string
  sub_created_at :: time

record emission =
  nn_subscription :: subscription_id
  nn_text :: string

record subscribe_params =
  sp_type :: string
  sp_channel :: string
  sp_scope :: scope
  sp_credential_set :: string
  sp_label :: string
  sp_params :: "(string \<times> string) list"

record subscribe_result =
  sr_subscription :: subscription
  sr_cancel :: "cancel_func option"
  sr_info :: "(string \<times> string) list"

record notifier =
  nt_subscribe :: "subscribe_params \<Rightarrow> emission list \<times> (string + subscribe_result)"
  nt_resubscribe :: "subscription \<Rightarrow> emission list \<times> (string + cancel_func option)"

type_synonym notif_error = "subscription_id list_error"
type_synonym notif_store = "subscription list store"

subsection \<open>The store\<close>

definition subscriptions_store_key :: string where
  "subscriptions_store_key = ''notification_subscriptions''"

definition nstore_list :: "notif_store \<Rightarrow> (notif_error + subscription list) \<times> notif_store" where
  "nstore_list st = list_read subscriptions_store_key st"

definition nstore_save :: "subscription list \<Rightarrow> notif_store \<Rightarrow> notif_error option \<times> notif_store" where
  "nstore_save xs st = list_write subscriptions_store_key xs st"

definition nstore_get ::
  "subscription_id \<Rightarrow> notif_store \<Rightarrow> (notif_error + subscription option) \<times> notif_store" where
  "nstore_get i st =
     (case nstore_list st of
        (Inl e, st') \<Rightarrow> (Inl e, st')
      | (Inr xs, st') \<Rightarrow> (Inr (find (\<lambda>s. sub_id s = i) xs), st'))"

definition nstore_add :: "subscription \<Rightarrow> notif_store \<Rightarrow> notif_error option \<times> notif_store" where
  "nstore_add s st =
     (case nstore_list st of
        (Inl e, st') \<Rightarrow> (Some e, st')
      | (Inr xs, st') \<Rightarrow>
          if \<exists>x \<in> set xs. sub_id x = sub_id s then (Some (AlreadyExists (sub_id s)), st')
          else nstore_save (xs @ [s]) st')"

definition nstore_remove :: "subscription_id \<Rightarrow> notif_store \<Rightarrow> notif_error option \<times> notif_store" where
  "nstore_remove i st =
     (case nstore_list st of
        (Inl e, st') \<Rightarrow> (Some e, st')
      | (Inr xs, st') \<Rightarrow>
          if \<forall>x \<in> set xs. sub_id x \<noteq> i then (Some (NotFound i), st')
          else nstore_save (filter (\<lambda>x. sub_id x \<noteq> i) xs) st')"

definition nstore_remove_by_credential_set ::
  "string \<Rightarrow> notif_store \<Rightarrow> (notif_error + subscription list) \<times> notif_store" where
  "nstore_remove_by_credential_set cs st =
     (case nstore_list st of
        (Inl e, st') \<Rightarrow> (Inl e, st')
      | (Inr xs, st') \<Rightarrow>
          (let removed = filter (\<lambda>s. sub_credential_set s = cs) xs;
               remaining = filter (\<lambda>s. sub_credential_set s \<noteq> cs) xs
           in if removed = [] then (Inr [], st')
              else (case nstore_save remaining st' of
                      (Some e, st'') \<Rightarrow> (Inl e, st'')
                    | (None, st'') \<Rightarrow> (Inr removed, st''))))"

definition nstore_view :: "notif_store \<Rightarrow> subscription list option" where
  "nstore_view st = list_view subscriptions_store_key st"

lemmas nstore_ops = nstore_list_def nstore_save_def nstore_add_def nstore_remove_def nstore_view_def

interpretation notif_reg: id_registry sub_id "\<lambda>s. s" nstore_view nstore_add nstore_remove
proof unfold_locales
  fix a :: subscription and k and s s' :: notif_store and e
  show "nstore_add a s = (None, s') \<Longrightarrow>
      \<exists>xs. nstore_view s = Some xs \<and> sub_id a \<notin> sub_id ` set xs \<and> nstore_view s' = Some (xs @ [a])"
    by (fastforce simp: nstore_ops split: prod.splits sum.splits if_splits
        dest!: list_read_view list_write_ok)
  show "nstore_remove k s = (None, s') \<Longrightarrow>
      \<exists>xs. nstore_view s = Some xs \<and> k \<in> sub_id ` set xs \<and>
           nstore_view s' = Some (filter (\<lambda>v. sub_id v \<noteq> k) xs)"
    by (auto simp: nstore_ops image_iff split: prod.splits sum.splits if_splits
        dest!: list_read_view list_write_ok)
  show "nstore_add a s = (Some e, s') \<Longrightarrow> nstore_view s' \<in> {nstore_view s, Some [], None}"
    by (auto simp: nstore_ops split: prod.splits sum.splits if_splits
        dest: list_read_keeps list_rewrite_fail)
  show "nstore_remove k s = (Some e, s') \<Longrightarrow> nstore_view s' \<in> {nstore_view s, Some [], None}"
    by (auto simp: nstore_ops split: prod.splits sum.splits if_splits
        dest: list_read_keeps list_rewrite_fail)
qed

abbreviation nstore_up :: "notif_store \<Rightarrow> bool" where
  "nstore_up st \<equiv> writable st subscriptions_store_key"

lemma nstore_list_up: "nstore_up st \<Longrightarrow> nstore_view st = Some xs \<Longrightarrow> nstore_list st = (Inr xs, st)"
  by (simp add: nstore_ops list_read_writable)

lemma nstore_save_up:
  "nstore_up st \<Longrightarrow> \<exists>st'. nstore_save xs st = (None, st') \<and> nstore_up st' \<and> nstore_view st' = Some xs"
  using list_write_writable [of st subscriptions_store_key xs]
  by (simp add: nstore_save_def nstore_view_def)

lemma nstore_add_up:
  assumes "nstore_up st" "nstore_view st = Some xs"
  shows "\<exists>r st'. nstore_add s st = (r, st') \<and> nstore_up st' \<and>
           (if sub_id s \<in> sub_id ` set xs then r \<noteq> None \<and> nstore_view st' = Some xs
            else r = None \<and> nstore_view st' = Some (xs @ [s]))"
  using assms nstore_save_up [OF assms(1), of "xs @ [s]"]
  by (auto simp: nstore_add_def nstore_list_up image_iff)

lemma nstore_remove_up:
  assumes "nstore_up st" "nstore_view st = Some xs"
  shows "\<exists>r st'. nstore_remove i st = (r, st') \<and> nstore_up st' \<and>
           nstore_view st' = Some (filter (\<lambda>x. sub_id x \<noteq> i) xs) \<and>
           (r = None \<longleftrightarrow> i \<in> sub_id ` set xs)"
proof (cases "i \<in> sub_id ` set xs")
  case True
  with assms nstore_save_up [OF assms(1), of "filter (\<lambda>x. sub_id x \<noteq> i) xs"] show ?thesis
    by (auto simp: nstore_remove_def nstore_list_up)
next
  case False
  then have "filter (\<lambda>x. sub_id x \<noteq> i) xs = xs" by (rule filter_other_if_new)
  with False assms show ?thesis
    by (auto simp: nstore_remove_def nstore_list_up image_iff)
qed

lemma nstore_remove_by_set_up:
  assumes "nstore_up st" "nstore_view st = Some xs"
  shows "\<exists>st'. nstore_remove_by_credential_set cs st = (Inr (filter (\<lambda>s. sub_credential_set s = cs) xs), st') \<and>
           nstore_up st' \<and> nstore_view st' = Some (filter (\<lambda>s. sub_credential_set s \<noteq> cs) xs)"
proof (cases "filter (\<lambda>s. sub_credential_set s = cs) xs = []")
  case True
  then have "filter (\<lambda>s. sub_credential_set s \<noteq> cs) xs = xs"
    by (auto simp: filter_empty_conv intro!: filter_True)
  with True assms show ?thesis
    by (simp add: nstore_remove_by_credential_set_def nstore_list_up)
next
  case False
  with assms nstore_save_up [OF assms(1), of "filter (\<lambda>s. sub_credential_set s \<noteq> cs) xs"] show ?thesis
    by (auto simp: nstore_remove_by_credential_set_def nstore_list_up)
qed

subsection \<open>The manager\<close>

record notif_world =
  nw_store :: notif_store
  nw_out :: "tagged_message list"
  nw_sends :: "bool list"
  nw_notifiers :: "(string \<times> notifier) list"
  nw_cancels :: "(subscription_id \<times> cancel_func option) list"
  nw_cancelled :: "cancel_func list"

definition register_notifier :: "string \<Rightarrow> notifier \<Rightarrow> notif_world \<Rightarrow> notif_world" where
  "register_notifier pkg n w = w\<lparr>nw_notifiers := AList.update pkg n (nw_notifiers w)\<rparr>"

definition unregister_notifier :: "string \<Rightarrow> notif_world \<Rightarrow> notif_world" where
  "unregister_notifier pkg w = w\<lparr>nw_notifiers := AList.delete pkg (nw_notifiers w)\<rparr>"

definition call_cancel :: "cancel_func option \<Rightarrow> notif_world \<Rightarrow> notif_world" where
  "call_cancel c w = (case c of None \<Rightarrow> w | Some f \<Rightarrow> w\<lparr>nw_cancelled := nw_cancelled w @ [f]\<rparr>)"

definition cancel_one :: "subscription_id \<Rightarrow> notif_world \<Rightarrow> notif_world" where
  "cancel_one i w =
     (case map_of (nw_cancels w) i of
        None \<Rightarrow> w
      | Some c \<Rightarrow> call_cancel c (w\<lparr>nw_cancels := AList.delete i (nw_cancels w)\<rparr>))"

definition cancel_all :: "notif_world \<Rightarrow> notif_world" where
  "cancel_all w = fold (\<lambda>(i, c). call_cancel c) (nw_cancels w) (w\<lparr>nw_cancels := []\<rparr>)"

definition notification_message ::
  "channel_id \<Rightarrow> subscription_id \<Rightarrow> string \<Rightarrow> string \<Rightarrow> tagged_message" where
  "notification_message cid i text label =
     \<lparr>tm_channel = cid, tm_text = text,
      tm_source = Some ((no_source SourceNotification)\<lparr>si_subscription_id := i, si_subscription_label := label\<rparr>)\<rparr>"

text \<open>The manager resolves a name to the ID the channel reports.\<close>

definition notif_resolve_channel :: "channel_map \<Rightarrow> string \<Rightarrow> channel_id option" where
  "notif_resolve_channel m name = map_option (\<lambda>(i, c). ch_id c) (chan_by_name m name)"

definition notif_send :: "tagged_message \<Rightarrow> notif_world \<Rightarrow> bool \<times> notif_world" where
  "notif_send msg w =
     (case nw_sends w of
        [] \<Rightarrow> (True, w\<lparr>nw_out := nw_out w @ [msg]\<rparr>)
      | True # r \<Rightarrow> (True, w\<lparr>nw_out := nw_out w @ [msg], nw_sends := r\<rparr>)
      | False # r \<Rightarrow> (False, w\<lparr>nw_sends := r\<rparr>))"

definition deliver ::
  "channel_map \<Rightarrow> subscription_id \<Rightarrow> string \<Rightarrow> string \<Rightarrow> scope \<Rightarrow> string \<Rightarrow> notif_world \<Rightarrow> notif_world" where
  "deliver chans i cname text sc label w =
     (case notif_resolve_channel chans cname of
        None \<Rightarrow> w
      | Some cid \<Rightarrow>
          (case notif_send (notification_message cid i text label) w of
             (False, w1) \<Rightarrow> w1
           | (True, w1) \<Rightarrow>
               if sc = ScopeOneShot then
                 (let w2 = cancel_one i w1
                  in w2\<lparr>nw_store := snd (nstore_remove i (nw_store w2))\<rparr>)
               else w1))"

text \<open>
  An emitter carries the channel, scope and label it was made with and remembers whether it
  has fired; it fires even when the channel is gone.
\<close>

record emitter =
  em_channel :: string
  em_scope :: scope
  em_label :: string
  em_delivered :: bool

definition emitter_for :: "string \<Rightarrow> scope \<Rightarrow> string \<Rightarrow> emitter" where
  "emitter_for cname sc label = \<lparr>em_channel = cname, em_scope = sc, em_label = label, em_delivered = False\<rparr>"

definition emit :: "channel_map \<Rightarrow> emission \<Rightarrow> emitter \<times> notif_world \<Rightarrow> emitter \<times> notif_world" where
  "emit chans n ew =
     (case ew of (e, w) \<Rightarrow>
        (e\<lparr>em_delivered := True\<rparr>,
         deliver chans (nn_subscription n) (em_channel e) (nn_text n) (em_scope e) (em_label e) w))"

datatype subscribe_error = NoNotifier | NotifierFailed string | PersistFailed notif_error

definition notif_subscribe ::
  "channel_map \<Rightarrow> string \<Rightarrow> subscribe_params \<Rightarrow> notif_world \<Rightarrow>
     (subscribe_error + subscribe_result) \<times> notif_world" where
  "notif_subscribe chans pkg p w =
     (case map_of (nw_notifiers w) pkg of
        None \<Rightarrow> (Inl NoNotifier, w)
      | Some n \<Rightarrow>
          (case nt_subscribe n p of
             (emits, res) \<Rightarrow>
               (case fold (emit chans) emits (emitter_for (sp_channel p) (sp_scope p) (sp_label p), w) of
                  (em, w1) \<Rightarrow>
                    (case res of
                       Inl e \<Rightarrow> (Inl (NotifierFailed e), w1)
                     | Inr r \<Rightarrow>
                         (case nstore_add (sr_subscription r) (nw_store w1) of
                            (Some e, st) \<Rightarrow>
                              (Inl (PersistFailed e), call_cancel (sr_cancel r) (w1\<lparr>nw_store := st\<rparr>))
                          | (None, st) \<Rightarrow>
                              if em_delivered em \<and> sp_scope p = ScopeOneShot then
                                (let w2 = call_cancel (sr_cancel r) (w1\<lparr>nw_store := st\<rparr>)
                                 in (Inr r, w2\<lparr>nw_store := snd (nstore_remove (sub_id (sr_subscription r)) (nw_store w2))\<rparr>))
                              else
                                (Inr r, w1\<lparr>nw_store := st,
                                          nw_cancels := AList.update (sub_id (sr_subscription r)) (sr_cancel r) (nw_cancels w1)\<rparr>))))))"

definition notif_unsubscribe ::
  "subscription_id \<Rightarrow> notif_world \<Rightarrow> notif_error option \<times> notif_world" where
  "notif_unsubscribe i w =
     (let w1 = cancel_one i w
      in case nstore_remove i (nw_store w1) of (r, st) \<Rightarrow> (r, w1\<lparr>nw_store := st\<rparr>))"

definition notif_unsubscribe_by_credential_set ::
  "string \<Rightarrow> notif_world \<Rightarrow> notif_error option \<times> notif_world" where
  "notif_unsubscribe_by_credential_set cs w =
     (case nstore_remove_by_credential_set cs (nw_store w) of
        (Inl e, st) \<Rightarrow> (Some e, w\<lparr>nw_store := st\<rparr>)
      | (Inr removed, st) \<Rightarrow> (None, fold (\<lambda>s. cancel_one (sub_id s)) removed (w\<lparr>nw_store := st\<rparr>)))"

definition resubscribe_one :: "channel_map \<Rightarrow> subscription \<Rightarrow> notif_world \<Rightarrow> notif_world" where
  "resubscribe_one chans s w =
     (case map_of (nw_notifiers w) (sub_package s) of
        None \<Rightarrow> w
      | Some n \<Rightarrow>
          (case nt_resubscribe n s of
             (emits, res) \<Rightarrow>
               (let w1 = snd (fold (emit chans) emits (emitter_for (sub_channel s) (sub_scope s) (sub_label s), w))
                in case res of
                     Inl e \<Rightarrow> w1
                   | Inr c \<Rightarrow> w1\<lparr>nw_cancels := AList.update (sub_id s) c (nw_cancels w1)\<rparr>)))"

definition resubscribe_all :: "channel_map \<Rightarrow> notif_world \<Rightarrow> notif_world" where
  "resubscribe_all chans w =
     (case nstore_list (nw_store w) of
        (Inl e, st) \<Rightarrow> w\<lparr>nw_store := st\<rparr>
      | (Inr xs, st) \<Rightarrow> fold (resubscribe_one chans) xs (w\<lparr>nw_store := st\<rparr>))"

subsection \<open>Watchers and subscriptions stay in step\<close>

definition watched_persisted :: "notif_world \<Rightarrow> bool" where
  "watched_persisted w =
     (nstore_up (nw_store w) \<and>
      (\<exists>xs. nstore_view (nw_store w) = Some xs \<and> fst ` set (nw_cancels w) \<subseteq> sub_id ` set xs))"

lemma call_cancel_simps [simp]:
  "nw_store (call_cancel c w) = nw_store w" "nw_out (call_cancel c w) = nw_out w"
  "nw_cancels (call_cancel c w) = nw_cancels w" "nw_sends (call_cancel c w) = nw_sends w"
  "nw_notifiers (call_cancel c w) = nw_notifiers w"
  "nw_cancelled (call_cancel c w) = nw_cancelled w @ (case c of None \<Rightarrow> [] | Some f \<Rightarrow> [f])"
  by (simp_all add: call_cancel_def split: option.splits)

lemma delete_absent: "i \<notin> fst ` set xs \<Longrightarrow> AList.delete i xs = xs"
  by (induction xs) auto

lemma cancel_one_simps [simp]:
  "nw_store (cancel_one i w) = nw_store w" "nw_out (cancel_one i w) = nw_out w"
  "nw_sends (cancel_one i w) = nw_sends w" "nw_notifiers (cancel_one i w) = nw_notifiers w"
  "nw_cancels (cancel_one i w) = AList.delete i (nw_cancels w)"
  by (auto simp: cancel_one_def delete_absent map_of_eq_None_iff split: option.splits)

lemma delete_keys_image [simp]: "fst ` set (AList.delete k xs) = fst ` set xs - {k}"
  by (induction xs) auto

lemma fold_cancel_one:
  "nw_store (fold (\<lambda>s. cancel_one (f s)) xs w) = nw_store w \<and>
   fst ` set (nw_cancels (fold (\<lambda>s. cancel_one (f s)) xs w)) = fst ` set (nw_cancels w) - f ` set xs"
  by (induction xs arbitrary: w) auto

lemma notif_send_frame:
  "notif_send m w = (b, w') \<Longrightarrow> nw_store w' = nw_store w \<and> nw_cancels w' = nw_cancels w \<and>
     nw_notifiers w' = nw_notifiers w \<and> nw_out w' = nw_out w @ (if b then [m] else []) \<and>
     nw_cancelled w' = nw_cancelled w"
  by (auto simp: notif_send_def split: list.splits bool.splits)

text \<open>Dropping a subscription and its watcher together keeps the two in step.\<close>

lemma watched_remove:
  assumes "watched_persisted w" and "nw_store w1 = nw_store w"
    and "fst ` set (nw_cancels w1) \<subseteq> fst ` set (nw_cancels w) - {i}"
  shows "watched_persisted (w1\<lparr>nw_store := snd (nstore_remove i (nw_store w))\<rparr>)"
proof -
  from assms(1) obtain xs where xs: "nstore_up (nw_store w)" "nstore_view (nw_store w) = Some xs"
    "fst ` set (nw_cancels w) \<subseteq> sub_id ` set xs" by (auto simp: watched_persisted_def)
  obtain r st where "nstore_remove i (nw_store w) = (r, st)" "nstore_up st"
    "nstore_view st = Some (filter (\<lambda>x. sub_id x \<noteq> i) xs)"
    using nstore_remove_up [OF xs(1,2), of i] by blast
  moreover have "fst ` set (nw_cancels w1) \<subseteq> sub_id ` {x \<in> set xs. sub_id x \<noteq> i}"
    using xs(3) assms(3) by (simp only: key_image_filter) blast
  ultimately show ?thesis by (simp add: watched_persisted_def)
qed

lemma watched_cong:
  "watched_persisted w \<Longrightarrow> nw_store w' = nw_store w \<Longrightarrow> nw_cancels w' = nw_cancels w \<Longrightarrow>
     watched_persisted w'"
  by (simp add: watched_persisted_def)

lemma deliver_watched:
  assumes "watched_persisted w"
  shows "watched_persisted (deliver chans i cname text sc label w)"
proof (cases "notif_resolve_channel chans cname")
  case None
  with assms show ?thesis by (simp add: deliver_def)
next
  case (Some cid)
  obtain b w1 where s: "notif_send (notification_message cid i text label) w = (b, w1)" by fastforce
  note frame = notif_send_frame [OF s]
  show ?thesis
  proof (cases "b \<and> sc = ScopeOneShot")
    case True
    have "watched_persisted ((cancel_one i w1)\<lparr>nw_store := snd (nstore_remove i (nw_store w))\<rparr>)"
      by (rule watched_remove [OF assms]) (use frame in simp_all)
    with True Some s frame show ?thesis by (simp add: deliver_def Let_def)
  next
    case False
    with Some s frame watched_cong [OF assms, of w1] show ?thesis
      by (auto simp: deliver_def split: bool.splits)
  qed
qed

lemma emits_watched:
  "watched_persisted w \<Longrightarrow> watched_persisted (snd (fold (emit chans) ems (em, w)))"
proof (induction ems arbitrary: em w)
  case (Cons n ems)
  then show ?case by (simp add: emit_def deliver_watched)
qed simp

lemma watched_add:
  assumes "watched_persisted w" and "nstore_add s (nw_store w) = (r, st)"
  shows "watched_persisted (w\<lparr>nw_store := st\<rparr>) \<and>
    (r = None \<longrightarrow> (\<forall>c. watched_persisted (w\<lparr>nw_store := st, nw_cancels := AList.update (sub_id s) c (nw_cancels w)\<rparr>)) \<and>
       sub_id s \<notin> fst ` set (nw_cancels w))"
proof -
  from assms(1) obtain xs where xs: "nstore_up (nw_store w)" "nstore_view (nw_store w) = Some xs"
    "fst ` set (nw_cancels w) \<subseteq> sub_id ` set xs" by (auto simp: watched_persisted_def)
  from nstore_add_up [OF xs(1,2), of s] assms(2) have "nstore_up st"
    "if sub_id s \<in> sub_id ` set xs then r \<noteq> None \<and> nstore_view st = Some xs
     else r = None \<and> nstore_view st = Some (xs @ [s])" by auto
  with xs(3) show ?thesis by (auto simp: watched_persisted_def dom_update split: if_splits)
qed

lemma subscribe_watched:
  assumes "watched_persisted w"
  shows "watched_persisted (snd (notif_subscribe chans pkg p w))"
proof (cases "map_of (nw_notifiers w) pkg")
  case None
  with assms show ?thesis by (simp add: notif_subscribe_def)
next
  case (Some n)
  obtain emits res where sub: "nt_subscribe n p = (emits, res)" by fastforce
  obtain em w1 where em: "fold (emit chans) emits
      (emitter_for (sp_channel p) (sp_scope p) (sp_label p), w) = (em, w1)" by fastforce
  have w1: "watched_persisted w1" using emits_watched [OF assms] em by (metis snd_conv)
  show ?thesis
  proof (cases res)
    case (Inl e)
    with Some sub em w1 show ?thesis by (simp add: notif_subscribe_def)
  next
    case (Inr r)
    obtain u st where add: "nstore_add (sr_subscription r) (nw_store w1) = (u, st)" by fastforce
    note added = watched_add [OF w1 add]
    show ?thesis
    proof (cases "u = None \<and> em_delivered em \<and> sp_scope p = ScopeOneShot")
      case True
      let ?w2 = "call_cancel (sr_cancel r) (w1\<lparr>nw_store := st\<rparr>)"
      have "watched_persisted (?w2\<lparr>nw_store := snd (nstore_remove (sub_id (sr_subscription r)) (nw_store (w1\<lparr>nw_store := st\<rparr>)))\<rparr>)"
        using added True by (intro watched_remove [of "w1\<lparr>nw_store := st\<rparr>"]) auto
      with True Some sub em Inr add show ?thesis by (simp add: notif_subscribe_def Let_def)
    next
      case False
      with Some sub em Inr add added watched_cong [of "w1\<lparr>nw_store := st\<rparr>"] show ?thesis
        by (auto simp: notif_subscribe_def Let_def split: option.splits)
    qed
  qed
qed

lemma unsubscribe_watched:
  assumes "watched_persisted w"
  shows "watched_persisted (snd (notif_unsubscribe i w))"
proof -
  have "watched_persisted ((cancel_one i w)\<lparr>nw_store := snd (nstore_remove i (nw_store w))\<rparr>)"
    by (rule watched_remove [OF assms]) simp_all
  then show ?thesis
    by (cases "nstore_remove i (nw_store w)") (simp add: notif_unsubscribe_def Let_def)
qed

lemma unsubscribe_set_watched:
  assumes "watched_persisted w"
  shows "watched_persisted (snd (notif_unsubscribe_by_credential_set cs w))"
proof -
  from assms obtain xs where xs: "nstore_up (nw_store w)" "nstore_view (nw_store w) = Some xs"
    "fst ` set (nw_cancels w) \<subseteq> sub_id ` set xs" by (auto simp: watched_persisted_def)
  obtain st where st: "nstore_remove_by_credential_set cs (nw_store w) =
      (Inr (filter (\<lambda>s. sub_credential_set s = cs) xs), st)" "nstore_up st"
      "nstore_view st = Some (filter (\<lambda>s. sub_credential_set s \<noteq> cs) xs)"
    using nstore_remove_by_set_up [OF xs(1,2), of cs] by blast
  let ?removed = "filter (\<lambda>s. sub_credential_set s = cs) xs"
  let ?w = "fold (\<lambda>s. cancel_one (sub_id s)) ?removed (w\<lparr>nw_store := st\<rparr>)"
  note f = fold_cancel_one [of sub_id ?removed "w\<lparr>nw_store := st\<rparr>"]
  from f have gone: "fst ` set (nw_cancels ?w) = fst ` set (nw_cancels w) - sub_id ` set ?removed"
    by simp
  have kept: "sub_id ` set xs \<subseteq> sub_id ` {s \<in> set xs. sub_credential_set s \<noteq> cs} \<union> sub_id ` set ?removed"
    by auto
  have "fst ` set (nw_cancels ?w) \<subseteq> sub_id ` {s \<in> set xs. sub_credential_set s \<noteq> cs}"
    unfolding gone using xs(3) kept by blast
  with f st show ?thesis
    by (simp add: notif_unsubscribe_by_credential_set_def watched_persisted_def)
qed

subsection \<open>Runs of the manager\<close>

text \<open>
  The requests the manager takes once it is running: what an MCP tool asks, and what the
  watcher of a stored subscription emits.
\<close>

datatype notif_request =
    Subscribe string subscribe_params
  | Unsubscribe subscription_id
  | UnsubscribeSet string
  | WatcherEmits emission string scope string

definition notif_handle :: "channel_map \<Rightarrow> notif_request \<Rightarrow> notif_world \<Rightarrow> notif_world" where
  "notif_handle chans req w =
     (case req of
        Subscribe pkg p \<Rightarrow> snd (notif_subscribe chans pkg p w)
      | Unsubscribe i \<Rightarrow> snd (notif_unsubscribe i w)
      | UnsubscribeSet cs \<Rightarrow> snd (notif_unsubscribe_by_credential_set cs w)
      | WatcherEmits n cname sc label \<Rightarrow> snd (emit chans n (emitter_for cname sc label, w)))"

definition empty_notif_world :: notif_world where
  "empty_notif_world =
     \<lparr>nw_store = store_holding subscriptions_store_key [], nw_out = [], nw_sends = [],
      nw_notifiers = [], nw_cancels = [], nw_cancelled = []\<rparr>"

lemma subscriptions_path:
  "safe_path ''/data'' subscriptions_store_key = Some ''/data/notification_subscriptions''"
  by code_simp

lemma sample_nstore [simp]:
  "nstore_up (store_holding subscriptions_store_key xs)"
  "nstore_view (store_holding subscriptions_store_key xs) = Some xs"
  by (simp_all add: nstore_view_def store_holding_view [OF subscriptions_path]
      store_holding_writable [OF subscriptions_path])

lemma empty_notif_watched: "watched_persisted empty_notif_world"
  by (simp add: watched_persisted_def empty_notif_world_def)

text \<open>
  Every running watcher belongs to a stored subscription: the manager starts so and no
  request, in any order, leaves a watcher behind without its subscription, however
  subscriptions end (unsubscribed, delivered as one-shots, removed with their credential set).
\<close>

theorem watchers_have_subscriptions:
  assumes "watched_persisted w"
  shows "watched_persisted (fold (notif_handle chans) reqs w)"
  using assms
proof (induction reqs arbitrary: w)
  case Nil
  then show ?case by simp
next
  case (Cons req reqs)
  have "watched_persisted (notif_handle chans req w)"
    using Cons.prems
    by (cases req) (simp_all add: notif_handle_def subscribe_watched unsubscribe_watched
        unsubscribe_set_watched emit_def deliver_watched)
  with Cons.IH show ?case by simp
qed

theorem watchers_have_subscriptions_witness:
  "watched_persisted (fold (notif_handle []) [Unsubscribe ''x'', UnsubscribeSet ''google/work''] empty_notif_world)"
  using watchers_have_subscriptions [OF empty_notif_watched] .

text \<open>
  A one-shot subscription ends with its delivery: when its watcher emits and the message
  goes out, exactly that message is added, the subscription is no longer stored, its watcher
  is no longer registered and was cancelled, and every other subscription is as before.
\<close>

theorem one_shot_ends_with_delivery:
  assumes "watched_persisted w" and "nw_sends w = []"
    and "nstore_view (nw_store w) = Some xs"
    and "notif_resolve_channel chans cname = Some cid"
    and "w' = snd (emit chans n (emitter_for cname ScopeOneShot label, w))"
    and "i = nn_subscription n"
  shows "nw_out w' = nw_out w @ [notification_message cid i (nn_text n) label] \<and>
         nstore_view (nw_store w') = Some (filter (\<lambda>s. sub_id s \<noteq> i) xs) \<and>
         map_of (nw_cancels w') i = None \<and>
         (\<forall>f. map_of (nw_cancels w) i = Some (Some f) \<longrightarrow> f \<in> set (nw_cancelled w'))"
proof -
  let ?m = "notification_message cid i (nn_text n) label"
  let ?w1 = "w\<lparr>nw_out := nw_out w @ [?m]\<rparr>"
  have "nstore_up (nw_store w)" using assms(1) by (simp add: watched_persisted_def)
  from nstore_remove_up [OF this assms(3), of i] obtain r st where
    "nstore_remove i (nw_store w) = (r, st)" "nstore_view st = Some (filter (\<lambda>s. sub_id s \<noteq> i) xs)"
    by blast
  moreover from assms have w': "w' = (cancel_one i ?w1)\<lparr>nw_store := snd (nstore_remove i (nw_store w))\<rparr>"
    by (simp add: emit_def emitter_for_def deliver_def notif_send_def Let_def)
  ultimately show ?thesis
    by (auto simp: cancel_one_def call_cancel_def delete_conv' split: option.splits)
qed

definition sample_sub :: "subscription_id \<Rightarrow> subscription" where
  "sample_sub i =
     \<lparr>sub_id = i, sub_scope = ScopeOneShot, sub_channel = ''main'', sub_package = ''dev'',
      sub_type = ''pr_merge'', sub_config = [], sub_credential_set = [], sub_label = ''PR 7'',
      sub_created_at = 1\<rparr>"

lemma sample_main [simp]: "notif_resolve_channel sample_chans ''main'' = Some ''c1''"
  by (simp add: notif_resolve_channel_def chan_by_name_def sample_chans_def)

theorem one_shot_ends_with_delivery_witness:
  "let w = empty_notif_world\<lparr>nw_store := store_holding subscriptions_store_key [sample_sub ''a'', sample_sub ''b''],
                             nw_cancels := [(''a'', Some 1), (''b'', Some 2)]\<rparr>;
       w' = snd (emit sample_chans \<lparr>nn_subscription = ''a'', nn_text = ''merged''\<rparr>
                   (emitter_for ''main'' ScopeOneShot ''PR 7'', w))
   in nw_out w' = [notification_message ''c1'' ''a'' ''merged'' ''PR 7''] \<and>
      nstore_view (nw_store w') = Some [sample_sub ''b''] \<and> 1 \<in> set (nw_cancelled w')"
proof -
  let ?w = "empty_notif_world\<lparr>nw_store := store_holding subscriptions_store_key [sample_sub ''a'', sample_sub ''b''],
                             nw_cancels := [(''a'', Some 1), (''b'', Some 2)]\<rparr>"
  have "watched_persisted ?w" by (simp add: watched_persisted_def sample_sub_def)
  from one_shot_ends_with_delivery [OF this _ _ sample_main refl refl,
      of "[sample_sub ''a'', sample_sub ''b'']" "\<lparr>nn_subscription = ''a'', nn_text = ''merged''\<rparr>" "''PR 7''"]
  show ?thesis
    by (simp add: Let_def empty_notif_world_def sample_sub_def)
qed

text \<open>
  A one-shot whose package emits while it is being subscribed leaves nothing behind
  either: the messages are out, the subscription that could not be removed when it fired
  is removed again, its watcher is cancelled and none is registered.
\<close>

theorem one_shot_fired_while_subscribing:
  assumes "watched_persisted w" and "nw_sends w = []"
    and "nstore_view (nw_store w) = Some xs"
    and "map_of (nw_notifiers w) pkg = Some n"
    and "sp_scope p = ScopeOneShot"
    and "nt_subscribe n p = ([\<lparr>nn_subscription = sub_id (sr_subscription r), nn_text = text\<rparr>], Inr r)"
    and "sub_id (sr_subscription r) \<notin> sub_id ` set xs"
    and "notif_resolve_channel chans (sp_channel p) = Some cid"
    and "notif_subscribe chans pkg p w = (res, w')"
  shows "res = Inr r \<and>
         nw_out w' = nw_out w @ [notification_message cid (sub_id (sr_subscription r)) text (sp_label p)] \<and>
         nstore_view (nw_store w') = Some xs \<and> nw_cancels w' = nw_cancels w \<and>
         nw_cancelled w' = nw_cancelled w @ (case sr_cancel r of None \<Rightarrow> [] | Some f \<Rightarrow> [f])"
proof -
  let ?i = "sub_id (sr_subscription r)"
  let ?w1 = "w\<lparr>nw_out := nw_out w @ [notification_message cid ?i text (sp_label p)]\<rparr>"
  from assms(1,3) have up: "nstore_up (nw_store w)" and sub: "fst ` set (nw_cancels w) \<subseteq> sub_id ` set xs"
    by (auto simp: watched_persisted_def)
  from sub assms(7) have fresh: "?i \<notin> fst ` set (nw_cancels w)" by auto
  obtain q st where rem: "nstore_remove ?i (nw_store w) = (q, st)" "nstore_up st" "nstore_view st = Some xs"
    using nstore_remove_up [OF up assms(3), of ?i] filter_other_if_new [OF assms(7)] by auto
  obtain st2 where add: "nstore_add (sr_subscription r) st = (None, st2)" "nstore_up st2"
      "nstore_view st2 = Some (xs @ [sr_subscription r])"
    using nstore_add_up [OF rem(2,3), of "sr_subscription r"] assms(7) by auto
  obtain q3 st3 where rem3: "nstore_remove ?i st2 = (q3, st3)" "nstore_view st3 = Some xs"
    using nstore_remove_up [OF add(2,3), of ?i] filter_other_if_new [OF assms(7)] by auto
  have del: "cancel_one ?i ?w1 = ?w1"
    using fresh by (simp add: cancel_one_def map_of_eq_None_iff [THEN iffD2])
  have "fold (emit chans) [\<lparr>nn_subscription = ?i, nn_text = text\<rparr>]
      (emitter_for (sp_channel p) (sp_scope p) (sp_label p), w) =
      ((emitter_for (sp_channel p) (sp_scope p) (sp_label p))\<lparr>em_delivered := True\<rparr>, ?w1\<lparr>nw_store := st\<rparr>)"
    using assms(2,5,8) rem(1) del
    by (simp add: emit_def emitter_for_def deliver_def notif_send_def Let_def)
  with assms(4-6,9) add(1) rem3 show ?thesis
    by (auto simp: notif_subscribe_def Let_def)
qed

definition eager_notifier :: notifier where
  "eager_notifier =
     \<lparr>nt_subscribe = (\<lambda>p. ([\<lparr>nn_subscription = ''a'', nn_text = ''merged''\<rparr>],
                      Inr \<lparr>sr_subscription = sample_sub ''a'', sr_cancel = Some 1, sr_info = []\<rparr>)),
      nt_resubscribe = (\<lambda>s. ([], Inr None))\<rparr>"

theorem one_shot_fired_while_subscribing_witness:
  "let p = \<lparr>sp_type = ''pr_merge'', sp_channel = ''main'', sp_scope = ScopeOneShot, sp_credential_set = [],
            sp_label = ''PR 7'', sp_params = []\<rparr>;
       w = register_notifier ''dev'' eager_notifier empty_notif_world;
       w' = snd (notif_subscribe sample_chans ''dev'' p w)
   in nw_out w' = [notification_message ''c1'' ''a'' ''merged'' ''PR 7''] \<and>
      nstore_view (nw_store w') = Some [] \<and> nw_cancels w' = [] \<and> nw_cancelled w' = [1]"
proof -
  let ?p = "\<lparr>sp_type = ''pr_merge'', sp_channel = ''main'', sp_scope = ScopeOneShot, sp_credential_set = [],
            sp_label = ''PR 7'', sp_params = []\<rparr>"
  let ?r = "\<lparr>sr_subscription = sample_sub ''a'', sr_cancel = Some 1, sr_info = []\<rparr>"
  let ?w = "register_notifier ''dev'' eager_notifier empty_notif_world"
  have watched: "watched_persisted ?w"
    by (rule watched_cong [OF empty_notif_watched]) (simp_all add: register_notifier_def)
  obtain res w' where res: "notif_subscribe sample_chans ''dev'' ?p ?w = (res, w')" by fastforce
  have w: "nw_sends ?w = []" "nstore_view (nw_store ?w) = Some []" "map_of (nw_notifiers ?w) ''dev'' = Some eager_notifier"
      "nw_out ?w = []" "nw_cancels ?w = []" "nw_cancelled ?w = []"
    by (simp_all add: register_notifier_def empty_notif_world_def)
  have i: "sub_id (sample_sub ''a'') = ''a''" by (simp add: sample_sub_def)
  have "nt_subscribe eager_notifier ?p = ([\<lparr>nn_subscription = sub_id (sr_subscription ?r), nn_text = ''merged''\<rparr>], Inr ?r)"
    by (simp add: eager_notifier_def i)
  from one_shot_fired_while_subscribing [OF watched w(1-3) _ this _ _ res, of "''c1''"]
  show ?thesis
    unfolding Let_def res by (simp add: w i)
qed

text \<open>
  Restarting watchers after a reboot has no such check: a one-shot that fires while it is
  being resubscribed is removed from the store, yet its cancel function is registered
  afterwards, for a subscription that no longer exists.
\<close>

theorem resubscribed_one_shot_leaves_watcher:
  assumes "nstore_up (nw_store w)" and "nstore_view (nw_store w) = Some xs" and "nw_sends w = []"
    and "map_of (nw_notifiers w) (sub_package s) = Some n"
    and "nt_resubscribe n s = ([\<lparr>nn_subscription = sub_id s, nn_text = text\<rparr>], Inr c)"
    and "sub_scope s = ScopeOneShot"
    and "notif_resolve_channel chans (sub_channel s) = Some cid"
  shows "map_of (nw_cancels (resubscribe_one chans s w)) (sub_id s) = Some c \<and>
         (\<forall>ys. nstore_view (nw_store (resubscribe_one chans s w)) = Some ys \<longrightarrow> sub_id s \<notin> sub_id ` set ys)"
proof -
  from nstore_remove_up [OF assms(1,2), of "sub_id s"] obtain r st where
    "nstore_remove (sub_id s) (nw_store w) = (r, st)"
    "nstore_view st = Some (filter (\<lambda>x. sub_id x \<noteq> sub_id s) xs)" by blast
  with assms(3-7) show ?thesis
    by (auto simp: resubscribe_one_def emit_def emitter_for_def deliver_def notif_send_def Let_def update_conv')
qed

end
