(* ===== verification/RuntimeState.thy ===== *)
theory RuntimeState
  imports Channels
begin

text \<open>
  Per-channel runtime state (\<open>internal/channel/runtime_state.go\<close>): the record kept for a
  channel, the pending confirmation in it and its expiry, and the store that reads and
  updates one record per channel under \<open>channel_runtime/<name>\<close>. The payload of a pending
  action is opaque here, as in the code, so it is a type parameter.
\<close>

record platform_state =
  ps_type :: string
  ps_data :: string

definition has_platform_state :: "platform_state \<Rightarrow> bool" where
  "has_platform_state p = (ps_type p \<noteq> [])"

record teardown_state =
  ts_type :: string
  ts_data :: string

definition has_teardown_state :: "teardown_state \<Rightarrow> bool" where
  "has_teardown_state t = (ts_type t \<noteq> [])"

datatype pending_kind = PendingChannelDone | PendingRepoGrant | PendingRuleWrite | PendingOther string

record 'p pending_action =
  pa_kind :: pending_kind
  pa_payload :: 'p
  pa_requested_at :: time
  pa_expires_at :: time
  pa_prompt_id :: string

record 'p runtime_state =
  rs_platform :: platform_state
  rs_teardown :: teardown_state
  rs_pending :: "'p pending_action option"
  rs_last_message_at :: time
  rs_last_message_source :: message_source
  rs_context_tokens :: int
  rs_context_measured_at :: time

definition zero_runtime_state :: "'p runtime_state" where
  "zero_runtime_state =
     \<lparr>rs_platform = \<lparr>ps_type = [], ps_data = []\<rparr>, rs_teardown = \<lparr>ts_type = [], ts_data = []\<rparr>,
      rs_pending = None, rs_last_message_at = 0, rs_last_message_source = SourceOther [],
      rs_context_tokens = 0, rs_context_measured_at = 0\<rparr>"

subsection \<open>Pending confirmations\<close>

definition pending_expired :: "'p pending_action \<Rightarrow> time \<Rightarrow> bool" where
  "pending_expired p now = (pa_expires_at p \<noteq> 0 \<and> pa_expires_at p < now)"

datatype arm_error = ErrPromptWaiting

definition arm_pending_action ::
  "'p runtime_state \<Rightarrow> 'p pending_action \<Rightarrow> time \<Rightarrow> arm_error option \<times> 'p runtime_state" where
  "arm_pending_action rs pending now =
     (case rs_pending rs of
        Some p \<Rightarrow>
          if \<not> pending_expired p now then (Some ErrPromptWaiting, rs)
          else (None, rs\<lparr>rs_pending := Some pending\<rparr>)
      | None \<Rightarrow> (None, rs\<lparr>rs_pending := Some pending\<rparr>))"

definition pending_confirmation_ttl :: duration where
  "pending_confirmation_ttl = 30 * minute"

definition new_pending_action ::
  "pending_kind \<Rightarrow> 'p \<Rightarrow> time \<Rightarrow> string \<Rightarrow> 'p pending_action" where
  "new_pending_action kind payload now pid =
     \<lparr>pa_kind = kind, pa_payload = payload, pa_requested_at = now,
      pa_expires_at = now + pending_confirmation_ttl, pa_prompt_id = pid\<rparr>"

lemma ttl_pos [simp]: "0 < pending_confirmation_ttl"
  by (simp add: pending_confirmation_ttl_def minute_def second_def)

lemma new_pending_expiry:
  "0 < now \<Longrightarrow> pending_expired (new_pending_action k p now pid) t \<longleftrightarrow>
     now + pending_confirmation_ttl < t"
  by (auto simp: pending_expired_def new_pending_action_def pending_confirmation_ttl_def
      minute_def second_def)

text \<open>Arming never changes a question the user still has open.\<close>

lemma arm_keeps_open:
  "rs_pending rs = Some p \<Longrightarrow> \<not> pending_expired p now \<Longrightarrow>
     arm_pending_action rs new now = (Some ErrPromptWaiting, rs)"
  by (simp add: arm_pending_action_def)

lemma arm_ok_iff:
  "fst (arm_pending_action rs new now) = None \<longleftrightarrow>
     (\<forall>p. rs_pending rs = Some p \<longrightarrow> pending_expired p now)"
  by (auto simp: arm_pending_action_def split: option.splits)

lemma arm_ok_sets:
  "arm_pending_action rs new now = (None, rs') \<Longrightarrow> rs' = rs\<lparr>rs_pending := Some new\<rparr>"
  by (auto simp: arm_pending_action_def split: option.splits if_splits)

subsection \<open>The store of runtime states\<close>

datatype rs_error = RsRead store_error | RsParse | RsSave store_error | RsDelete store_error

definition runtime_key :: "string \<Rightarrow> string" where
  "runtime_key name = ''channel_runtime/'' @ name"

definition rs_decode :: "'p runtime_state doc option \<Rightarrow> rs_error + 'p runtime_state" where
  "rs_decode d =
     (case d of
        None \<Rightarrow> Inr zero_runtime_state
      | Some EmptyFile \<Rightarrow> Inr zero_runtime_state
      | Some Malformed \<Rightarrow> Inl RsParse
      | Some (Doc v) \<Rightarrow> Inr v)"

definition rs_get ::
  "string \<Rightarrow> 'p runtime_state store \<Rightarrow> (rs_error + 'p runtime_state) \<times> 'p runtime_state store" where
  "rs_get name st =
     (case store_get (runtime_key name) st of
        (Inl e, st') \<Rightarrow> (Inl (RsRead e), st')
      | (Inr d, st') \<Rightarrow> (rs_decode d, st'))"

text \<open>
  \<open>Update\<close> runs a callback on the record and saves it. The callback may also report
  something to its caller through a captured variable; that is its first result.
\<close>

definition rs_update ::
  "string \<Rightarrow> ('p runtime_state \<Rightarrow> 'x \<times> 'p runtime_state) \<Rightarrow> 'p runtime_state store \<Rightarrow>
     (rs_error + 'x) \<times> 'p runtime_state store" where
  "rs_update name f st =
     (case rs_get name st of
        (Inl e, st') \<Rightarrow> (Inl e, st')
      | (Inr rs, st') \<Rightarrow>
          (case f rs of
             (x, rs') \<Rightarrow>
               (case store_set (runtime_key name) rs' st' of
                  (Some e, st'') \<Rightarrow> (Inl (RsSave e), st'')
                | (None, st'') \<Rightarrow> (Inr x, st''))))"

definition rs_delete ::
  "string \<Rightarrow> 'p runtime_state store \<Rightarrow> rs_error option \<times> 'p runtime_state store" where
  "rs_delete name st =
     (case store_delete (runtime_key name) st of
        (Some e, st') \<Rightarrow> (Some (RsDelete e), st')
      | (None, st') \<Rightarrow> (None, st'))"

text \<open>What is recorded for a channel, read without touching the outside world.\<close>

definition rs_view :: "'p runtime_state store \<Rightarrow> string \<Rightarrow> rs_error + 'p runtime_state" where
  "rs_view st name = rs_decode (store_view st (runtime_key name))"

lemma rs_get_view: "rs_get name st = (Inr rs, st') \<Longrightarrow> rs_view st name = Inr rs"
  by (auto simp: rs_get_def rs_view_def split: prod.splits sum.splits dest: fs.get_ok)

lemma rs_get_frame: "rs_get name st = (r, st') \<Longrightarrow> rs_view st' = rs_view st \<and> same_loc st' = same_loc st"
  by (auto simp: rs_get_def rs_view_def fun_eq_iff split: prod.splits sum.splits dest!: fs.get_frame)

lemma rs_update_ok:
  assumes "rs_update name f st = (Inr x, st')"
  shows "\<exists>rs rs'. rs_view st name = Inr rs \<and> f rs = (x, rs') \<and> rs_view st' name = Inr rs'"
proof -
  from assms obtain rs st1 rs' where
    g: "rs_get name st = (Inr rs, st1)" and f: "f rs = (x, rs')"
    and s: "store_set (runtime_key name) rs' st1 = (None, st')"
    by (auto simp: rs_update_def split: prod.splits sum.splits option.splits)
  have "rs_view st' name = Inr rs'"
    using fs.set_ok [OF s] by (simp add: rs_view_def rs_decode_def)
  with rs_get_view [OF g] f show ?thesis by blast
qed

lemma rs_update_frame:
  assumes "rs_update name f st = (r, st')" and "\<not> same_loc st (runtime_key name) (runtime_key other)"
  shows "rs_view st' other = rs_view st other"
proof -
  obtain g st1 where g: "rs_get name st = (g, st1)" by fastforce
  note frame = rs_get_frame [OF g]
  show ?thesis
  proof (cases g)
    case (Inl e)
    with assms(1) g frame show ?thesis by (auto simp: rs_update_def)
  next
    case (Inr rs)
    obtain x rs' where f: "f rs = (x, rs')" by fastforce
    obtain u st2 where s: "store_set (runtime_key name) rs' st1 = (u, st2)" by fastforce
    with assms(1) g Inr f have "st' = st2"
      by (auto simp: rs_update_def split: option.splits)
    moreover have "store_view st2 (runtime_key other) = store_view st1 (runtime_key other)"
      using fs.set_frame [OF s] assms(2) frame by simp
    ultimately show ?thesis using frame by (metis rs_view_def)
  qed
qed

lemma rs_get_writable:
  "writable st (runtime_key name) \<Longrightarrow> rs_get name st = (rs_view st name, st)"
  by (simp add: rs_get_def get_writable rs_view_def)

lemma rs_update_writable:
  assumes "writable st (runtime_key name)" and "rs_view st name = Inr rs" and "f rs = (x, rs')"
  shows "\<exists>st'. rs_update name f st = (Inr x, st') \<and> rs_view st' name = Inr rs' \<and>
               writable st' (runtime_key name)"
proof -
  obtain st' where st': "store_set (runtime_key name) rs' st = (None, st')"
      "writable st' (runtime_key name)" "store_view st' (runtime_key name) = Some (Doc rs')"
    using set_writable [OF assms(1), of rs'] by blast
  then show ?thesis
    using assms by (simp add: rs_update_def rs_get_writable rs_view_def rs_decode_def)
qed

end
