(* ===== verification/MemoryLayout.thy ===== *)
theory MemoryLayout
  imports GoPath
begin

text \<open>
  The paths the agent loop and the hook binary agree on (\<open>memorylayout/layout.go\<close>), and whether
  a path lies in the rulebook pool. Resolving symbolic links (\<open>filepath.EvalSymlinks\<close>) and the
  working directory (\<open>filepath.Abs\<close>) are the operating system's: the parameters \<open>eval_links\<close> and
  \<open>abs_path\<close>, \<open>None\<close> where the call fails.
\<close>

definition rules_dir :: "string \<Rightarrow> string" where
  "rules_dir memory_dir = join_path memory_dir ''rules''"

definition channel_dir :: "string \<Rightarrow> string \<Rightarrow> string" where
  "channel_dir memory_dir name = join_path (join_path memory_dir ''channels'') name"

definition config_dir :: "string \<Rightarrow> string" where
  "config_dir home_dir = join_path home_dir ''.claude''"

definition feedback_dir :: "string \<Rightarrow> string" where
  "feedback_dir cdir = join_path cdir ''feedback''"

definition inbox_path :: "string \<Rightarrow> string" where
  "inbox_path cdir = join_path (feedback_dir cdir) ''inbox.jsonl''"

definition processing_path :: "string \<Rightarrow> string" where
  "processing_path cdir = join_path (feedback_dir cdir) ''processing.jsonl''"

subsection \<open>The rulebook pool\<close>

definition show_segs :: "bool \<Rightarrow> string list \<Rightarrow> string" where
  "show_segs rooted segs =
     (if rooted then slash # str_join [slash] segs else if segs = [] then dot else str_join [slash] segs)"

text \<open>
  The loop of \<open>resolve\<close>: the directory's elements still to try, the last first, and the part of
  the path below it.
\<close>

fun resolve_go :: "(string \<Rightarrow> string option) \<Rightarrow> bool \<Rightarrow> string list \<Rightarrow> string \<Rightarrow> string" where
  "resolve_go eval_links rooted [] base =
     (case eval_links (show_segs rooted []) of
        Some real \<Rightarrow> join_path real base
      | None \<Rightarrow> join_path (show_segs rooted []) base)"
| "resolve_go eval_links rooted (x # up) base =
     (case eval_links (show_segs rooted (rev (x # up))) of
        Some real \<Rightarrow> join_path real base
      | None \<Rightarrow> resolve_go eval_links rooted up (join_path x base))"

text \<open>\<open>resolve\<close> of a clean path: its directory is resolved, its last element kept as it is.\<close>

definition resolve_path :: "(string \<Rightarrow> string option) \<Rightarrow> string \<Rightarrow> string" where
  "resolve_path eval_links p =
     (case rev (path_segs p) of
        [] \<Rightarrow> resolve_go eval_links (is_rooted p) [] []
      | base # up \<Rightarrow> resolve_go eval_links (is_rooted p) up base)"

definition in_rules ::
  "(string \<Rightarrow> string option) \<Rightarrow> (string \<Rightarrow> string option) \<Rightarrow> string \<Rightarrow> string \<Rightarrow> bool" where
  "in_rules eval_links abs_path memory_dir p =
     (if memory_dir = [] \<or> p = [] then False
      else (case abs_path p of
              None \<Rightarrow> False
            | Some a \<Rightarrow>
                (let rules = resolve_path eval_links (rules_dir memory_dir)
                 in rules \<noteq> [] \<and> has_prefix (resolve_path eval_links a) (rules @ [slash]))))"

lemma resolve_known_dir:
  assumes "rev (path_segs p) = base # up" and "eval_links (show_segs (is_rooted p) (rev up)) = Some real"
  shows "resolve_path eval_links p = join_path real base"
  using assms by (cases up) (simp_all add: resolve_path_def)

end
