(* ===== verification/Confirm.thy ===== *)
theory Confirm
  imports RuntimeState Repo RemoteMcp ConfigWriter MemoryLayout
begin

text \<open>
  Confirmations: what the router does with a message that may answer a question the agent
  asked (\<open>internal/router/done.go\<close>), the three actions a yes can start (closing a channel,
  \<open>confirmRepoGrant\<close> of \<open>repo_grant.go\<close>, \<open>confirmRuleWrite\<close> of \<open>rule_write.go\<close>), and the hooks
  and the tool that ask (\<open>newRepoGrantArmer\<close>, \<open>newRuleWriteArmer\<close>,
  \<open>internal/tool/channeltools/done.go\<close>).

  The state is everything these handlers may write. A pending action's payload is the text the
  arming side encoded: of a grant, of a rulebook, none, or text that does not decode. Reading it
  as the other kind of record gives that record's zero value, as \<open>json.Unmarshal\<close> does with
  unknown fields. A message the router sends the user is its meaning (\<open>notice\<close>), not its wording.
\<close>

record grant_payload =
  gp_repo :: string
  gp_access :: access
  gp_credential :: string
  gp_drop_at :: time

record rule_payload =
  rp_file :: string
  rp_content :: string
  rp_reason :: string

datatype payload = GrantPayload grant_payload | RulePayload rule_payload | NoPayload | BadPayload

definition decode_grant :: "payload \<Rightarrow> grant_payload option" where
  "decode_grant p =
     (case p of
        GrantPayload g \<Rightarrow> Some g
      | RulePayload r \<Rightarrow> Some \<lparr>gp_repo = [], gp_access = AccessUnset, gp_credential = [], gp_drop_at = 0\<rparr>
      | _ \<Rightarrow> None)"

definition decode_rule :: "payload \<Rightarrow> rule_payload option" where
  "decode_rule p =
     (case p of
        RulePayload r \<Rightarrow> Some r
      | GrantPayload g \<Rightarrow> Some \<lparr>rp_file = [], rp_content = [], rp_reason = []\<rparr>
      | _ \<Rightarrow> None)"

datatype notice =
    Declined
  | TwoPromptsWaiting pending_kind
  | YesAnsweredThis pending_kind
  | GrantUnreadable | GrantNoStore | GrantReadFailed string | GrantNotTracked string
  | GrantNotVisible string | GrantSaveFailed string | Granted string access time
  | RuleUnreadable | RuleNoDir | RuleDirFailed | RuleBadName | RuleWriteFailed string
  | RuleSaved string bool

datatype platform_event =
    ClosingMessage string platform_state
  | PlatformTeardown teardown_state
  | TeardownPrompt string platform_state string

text \<open>A question put to the user: what it asks, with which prompt ID, and whether with buttons.\<close>

record grant_request =
  gr_repo :: string
  gr_access :: access
  gr_credential :: string
  gr_drop_at :: time
  gr_reason :: string

record rule_request =
  rr_file :: string
  rr_content :: string
  rr_reason :: string

datatype question = AskGrant grant_request | AskRule rule_request

record asked =
  as_channel :: channel_id
  as_question :: question
  as_prompt :: string
  as_buttons :: bool

text \<open>A transport's provisioner is code the router only calls; it answers with success or not.\<close>

record provisioner =
  pv_closing_ok :: "platform_state \<Rightarrow> bool"
  pv_teardown_ok :: "teardown_state \<Rightarrow> bool"
  pv_prompt_ok :: "platform_state \<Rightarrow> bool"

record confirm_params =
  cp_channels :: "channel_map option"
  cp_codec :: yaml_codec
  cp_env :: string
  cp_user :: string
  cp_provisioners :: "string \<Rightarrow> provisioner option"
  cp_repo_store :: bool
  cp_remote_mcps :: bool
  cp_agent_prompts :: open_prompts
  cp_on_change :: bool
  cp_memory_dir :: string

record confirm_world =
  cw_runtime :: "payload runtime_state store"
  cw_config :: config_file
  cw_mcps :: mcp_world
  cw_repos :: "repo_map store"
  cw_files :: "string \<Rightarrow> string option"
  cw_fs_io :: "io list"
  cw_notes :: "(channel_id \<times> notice) list"
  cw_platform :: "platform_event list"
  cw_changes :: nat
  cw_asked :: "asked list"
  cw_registry :: "(string \<times> string) list"

definition notify :: "channel_id \<Rightarrow> notice \<Rightarrow> confirm_world \<Rightarrow> confirm_world" where
  "notify cid n w = w\<lparr>cw_notes := cw_notes w @ [(cid, n)]\<rparr>"

definition channel_secret_key :: "string \<Rightarrow> string" where
  "channel_secret_key name = ''channel/'' @ name @ ''/token''"

subsection \<open>Files of the memory directory\<close>

definition fs_next_io :: "confirm_world \<Rightarrow> io \<times> confirm_world" where
  "fs_next_io w = (case cw_fs_io w of [] \<Rightarrow> (Good, w) | x # xs \<Rightarrow> (x, w\<lparr>cw_fs_io := xs\<rparr>))"

text \<open>A write the disk cuts short leaves no bytes or some; half stands for some.\<close>

definition write_file :: "string \<Rightarrow> string \<Rightarrow> confirm_world \<Rightarrow> bool \<times> confirm_world" where
  "write_file p text w =
     (case fs_next_io w of
        (outcome, w') \<Rightarrow>
          (case outcome of
             Good \<Rightarrow> (True, w'\<lparr>cw_files := (cw_files w')(p := Some text)\<rparr>)
           | Refused \<Rightarrow> (False, w')
           | TornEmpty \<Rightarrow> (False, w'\<lparr>cw_files := (cw_files w')(p := Some [])\<rparr>)
           | TornPart \<Rightarrow>
               (False, w'\<lparr>cw_files := (cw_files w')(p := Some (take (length text div 2) text))\<rparr>)))"

definition remove_all :: "string \<Rightarrow> confirm_world \<Rightarrow> confirm_world" where
  "remove_all dir w =
     (case fs_next_io w of
        (outcome, w') \<Rightarrow>
          if outcome = Good
          then w'\<lparr>cw_files := (\<lambda>p. if p = dir \<or> has_prefix p (dir @ [slash]) then None else cw_files w' p)\<rparr>
          else w')"

subsection \<open>The three actions\<close>

definition clear_pending_action :: "string \<Rightarrow> confirm_world \<Rightarrow> confirm_world" where
  "clear_pending_action name w =
     w\<lparr>cw_runtime := snd (rs_update name (\<lambda>s. ((), s\<lparr>rs_pending := None\<rparr>)) (cw_runtime w))\<rparr>"

definition send_closing ::
  "confirm_params \<Rightarrow> chan \<Rightarrow> string \<Rightarrow> payload runtime_state \<Rightarrow> confirm_world \<Rightarrow> confirm_world" where
  "send_closing p ch name rs w =
     (if \<not> has_platform_state (rs_platform rs) then w
      else (case cp_provisioners p (ch_type ch) of
              None \<Rightarrow> w
            | Some pv \<Rightarrow>
                (case secret_get (channel_secret_key name) (mw_secrets (cw_mcps w)) of
                   (r, sec) \<Rightarrow>
                     (let w1 = w\<lparr>cw_mcps := (cw_mcps w)\<lparr>mw_secrets := sec\<rparr>\<rparr>
                      in case r of
                           Inl e \<Rightarrow> w1
                         | Inr tok \<Rightarrow>
                             w1\<lparr>cw_platform := cw_platform w1 @
                                  [ClosingMessage (case tok of PlainText t \<Rightarrow> t | _ \<Rightarrow> []) (rs_platform rs)]\<rparr>))))"

text \<open>The teardown of the platform's side; \<open>False\<close> when it failed and the channel must stay.\<close>

definition platform_teardown ::
  "confirm_params \<Rightarrow> string \<Rightarrow> payload runtime_state \<Rightarrow> confirm_world \<Rightarrow> bool \<times> confirm_world" where
  "platform_teardown p ctype rs w =
     (if \<not> has_teardown_state (rs_teardown rs) then (True, w)
      else (case cp_provisioners p ctype of
              None \<Rightarrow> (True, w)
            | Some pv \<Rightarrow>
                (pv_teardown_ok pv (rs_teardown rs),
                 w\<lparr>cw_platform := cw_platform w @ [PlatformTeardown (rs_teardown rs)]\<rparr>)))"

text \<open>What follows the removal from the config: none of it may fail the teardown.\<close>

definition forget_channel :: "confirm_params \<Rightarrow> string \<Rightarrow> confirm_world \<Rightarrow> confirm_world" where
  "forget_channel p name w =
     (let w1 = w\<lparr>cw_runtime := snd (rs_delete name (cw_runtime w))\<rparr>;
          w2 = w1\<lparr>cw_mcps := (cw_mcps w1)\<lparr>mw_secrets :=
                    snd (secret_delete (channel_secret_key name) (mw_secrets (cw_mcps w1)))\<rparr>\<rparr>;
          w3 = (if cp_memory_dir p = [] then w2
                else remove_all (join_path (join_path (cp_memory_dir p) ''channels'') name) w2);
          w4 = (if cp_remote_mcps p then w3\<lparr>cw_mcps := snd (remove_channel_from_all name (cw_mcps w3))\<rparr>
                else w3)
      in if cp_on_change p then w4\<lparr>cw_changes := Suc (cw_changes w4)\<rparr> else w4)"

definition confirm_channel_done ::
  "confirm_params \<Rightarrow> chan \<Rightarrow> string \<Rightarrow> payload runtime_state \<Rightarrow> confirm_world \<Rightarrow> bool \<times> confirm_world" where
  "confirm_channel_done p ch name rs w =
     (case platform_teardown p (ch_type ch) rs (send_closing p ch name rs w) of
        (False, w1) \<Rightarrow> (True, w1)
      | (True, w1) \<Rightarrow>
          (case cfg_remove_channel (cp_codec p) (cp_env p) (cp_user p) name (cw_config w1) of
             (Some e, cfg) \<Rightarrow> (True, w1\<lparr>cw_config := cfg\<rparr>)
           | (None, cfg) \<Rightarrow> (True, forget_channel p name (w1\<lparr>cw_config := cfg\<rparr>))))"

definition confirm_repo_grant ::
  "confirm_params \<Rightarrow> channel_id \<Rightarrow> string \<Rightarrow> payload pending_action \<Rightarrow> confirm_world \<Rightarrow> bool \<times> confirm_world" where
  "confirm_repo_grant p cid name pending w =
     (case decode_grant (pa_payload pending) of
        None \<Rightarrow> (True, notify cid GrantUnreadable w)
      | Some g \<Rightarrow>
          if \<not> cp_repo_store p then (True, notify cid GrantNoStore w)
          else
            (case repo_get (gp_repo g) (cw_repos w) of
               (Inl e, st) \<Rightarrow> (True, notify cid (GrantReadFailed (gp_repo g)) (w\<lparr>cw_repos := st\<rparr>))
             | (Inr None, st) \<Rightarrow> (True, notify cid (GrantNotTracked (gp_repo g)) (w\<lparr>cw_repos := st\<rparr>))
             | (Inr (Some r), st) \<Rightarrow>
                 if \<not> visible_to r name
                 then (True, notify cid (GrantNotVisible (gp_repo g)) (w\<lparr>cw_repos := st\<rparr>))
                 else
                   (case repo_put (r\<lparr>tr_access := gp_access g, tr_credential := gp_credential g,
                                     tr_drop_to_read_only_at := gp_drop_at g\<rparr>) st of
                      (Some e, st') \<Rightarrow>
                        (True, notify cid (GrantSaveFailed (gp_repo g)) (w\<lparr>cw_repos := st'\<rparr>))
                    | (None, st') \<Rightarrow>
                        (True, notify cid (Granted (gp_repo g) (gp_access g) (gp_drop_at g)) (w\<lparr>cw_repos := st'\<rparr>)))))"

definition confirm_rule_write ::
  "confirm_params \<Rightarrow> channel_id \<Rightarrow> string \<Rightarrow> payload pending_action \<Rightarrow> confirm_world \<Rightarrow> bool \<times> confirm_world" where
  "confirm_rule_write p cid name pending w =
     (case decode_rule (pa_payload pending) of
        None \<Rightarrow> (True, notify cid RuleUnreadable w)
      | Some r \<Rightarrow>
          if cp_memory_dir p = [] then (True, notify cid RuleNoDir w)
          else
            (case fs_next_io w of
               (outcome, w1) \<Rightarrow>
                 if outcome \<noteq> Good then (True, notify cid RuleDirFailed w1)
                 else if rp_file r \<noteq> base_path (rp_file r) \<or> path_ext (rp_file r) \<noteq> ''.md''
                 then (True, notify cid RuleBadName w1)
                 else
                   (let path = join_path (rules_dir (cp_memory_dir p)) (rp_file r);
                        existed = (cw_files w1 path \<noteq> None)
                    in case write_file path (rp_content r) w1 of
                         (False, w2) \<Rightarrow> (True, notify cid (RuleWriteFailed (rp_file r)) w2)
                       | (True, w2) \<Rightarrow> (True, notify cid (RuleSaved (rp_file r) existed) w2))))"

subsection \<open>The intercept\<close>

definition perform_pending ::
  "confirm_params \<Rightarrow> channel_id \<Rightarrow> chan \<Rightarrow> string \<Rightarrow> payload runtime_state \<Rightarrow> payload pending_action \<Rightarrow>
     confirm_world \<Rightarrow> bool \<times> confirm_world" where
  "perform_pending p cid ch name rs pending w =
     (case pa_kind pending of
        PendingChannelDone \<Rightarrow> confirm_channel_done p ch name rs w
      | PendingRepoGrant \<Rightarrow> confirm_repo_grant p cid name pending w
      | PendingRuleWrite \<Rightarrow> confirm_rule_write p cid name pending w
      | PendingOther k \<Rightarrow> (False, w))"

text \<open>The part of the intercept from the user's genuine, timely answer on.\<close>

definition answer_pending ::
  "confirm_params \<Rightarrow> tagged_message \<Rightarrow> chan \<Rightarrow> string \<Rightarrow> payload runtime_state \<Rightarrow> payload pending_action \<Rightarrow>
     confirm_world \<Rightarrow> bool \<times> confirm_world" where
  "answer_pending p msg ch name rs pending w =
     (let press = parse_button_press (tm_text msg)
      in case press of
           Some b \<Rightarrow>
             if bp_prompt b \<noteq> pa_prompt_id pending then (False, w)
             else if bp_reply b \<noteq> reply_yes
             then (True, notify (tm_channel msg) Declined (clear_pending_action name w))
             else perform_pending p (tm_channel msg) ch name rs pending (clear_pending_action name w)
         | None \<Rightarrow>
             (let text = trim_space (to_lower (tm_text msg));
                  yes = (text = ''yes'' \<or> text = ''y'');
                  both_open = (yes \<and> open_prompts_is_open (cp_agent_prompts p) (tm_channel msg))
              in if both_open \<and> ch_prompter ch
                 then (True, notify (tm_channel msg) (TwoPromptsWaiting (pa_kind pending)) w)
                 else
                   (let w1 = (if both_open
                              then notify (tm_channel msg) (YesAnsweredThis (pa_kind pending)) w else w)
                    in if \<not> yes then (False, clear_pending_action name w1)
                       else perform_pending p (tm_channel msg) ch name rs pending
                              (clear_pending_action name w1))))"

definition intercept_pending_confirmation ::
  "confirm_params \<Rightarrow> time \<Rightarrow> tagged_message \<Rightarrow> confirm_world \<Rightarrow> bool \<times> confirm_world" where
  "intercept_pending_confirmation p now msg w =
     (case cp_channels p of
        None \<Rightarrow> (False, w)
      | Some chans \<Rightarrow>
          (case map_of chans (tm_channel msg) of
             None \<Rightarrow> (False, w)
           | Some ch \<Rightarrow>
               (case rs_get (ch_name ch) (cw_runtime w) of
                  (r, st) \<Rightarrow>
                    (let w1 = w\<lparr>cw_runtime := st\<rparr>
                     in case r of
                          Inl e \<Rightarrow> (False, w1)
                        | Inr rs \<Rightarrow>
                            (case rs_pending rs of
                               None \<Rightarrow> (False, w1)
                             | Some pending \<Rightarrow>
                                 if \<not> from_user (tm_source msg) then (False, w1)
                                 else if pending_expired pending now
                                 then (False, clear_pending_action (ch_name ch) w1)
                                 else answer_pending p msg ch (ch_name ch) rs pending w1)))))"

subsection \<open>Asking\<close>

text \<open>
  The hooks that ask for a confirmation. \<open>send_ok\<close> is the outcome of sending the prompt (through
  the transport's buttons or as plain text), \<open>pid\<close> the fresh prompt ID. The pending action is
  stored before the prompt is sent and taken back when the prompt cannot be sent.
\<close>

datatype arm_failure =
    NoActiveChannel | ChannelNotLive string | ArmStoreFailed rs_error | ArmPromptWaiting | PromptNotSent

definition ask_user ::
  "bool \<Rightarrow> channel_id \<Rightarrow> chan \<Rightarrow> question \<Rightarrow> string \<Rightarrow> confirm_world \<Rightarrow> bool \<times> confirm_world" where
  "ask_user send_ok cid ch q pid w =
     (if send_ok
      then (True, w\<lparr>cw_asked := cw_asked w @
              [\<lparr>as_channel = cid, as_question = q, as_prompt = pid, as_buttons = ch_prompter ch\<rparr>]\<rparr>)
      else (False, w))"

definition arm_repo_grant ::
  "string \<Rightarrow> channel_map \<Rightarrow> time \<Rightarrow> string \<Rightarrow> bool \<Rightarrow> grant_request \<Rightarrow> confirm_world \<Rightarrow>
     arm_failure option \<times> confirm_world" where
  "arm_repo_grant active chans now pid send_ok req w =
     (if active = [] then (Some NoActiveChannel, w)
      else
        (case chan_by_name chans active of
           None \<Rightarrow> (Some (ChannelNotLive active), w)
         | Some (cid, ch) \<Rightarrow>
             if cid = [] then (Some (ChannelNotLive active), w)
             else
               (let pending = new_pending_action PendingRepoGrant
                       (GrantPayload \<lparr>gp_repo = gr_repo req, gp_access = gr_access req,
                                      gp_credential = gr_credential req, gp_drop_at = gr_drop_at req\<rparr>) now pid
                in case rs_update active (\<lambda>s. arm_pending_action s pending now) (cw_runtime w) of
                     (Inl e, st) \<Rightarrow> (Some (ArmStoreFailed e), w\<lparr>cw_runtime := st\<rparr>)
                   | (Inr (Some ErrPromptWaiting), st) \<Rightarrow> (Some ArmPromptWaiting, w\<lparr>cw_runtime := st\<rparr>)
                   | (Inr None, st) \<Rightarrow>
                       (case ask_user send_ok cid ch (AskGrant req) pid (w\<lparr>cw_runtime := st\<rparr>) of
                          (True, w1) \<Rightarrow> (None, w1)
                        | (False, w1) \<Rightarrow> (Some PromptNotSent, clear_pending_action active w1)))))"

definition arm_rule_write ::
  "string \<Rightarrow> channel_map \<Rightarrow> time \<Rightarrow> string \<Rightarrow> bool \<Rightarrow> rule_request \<Rightarrow> confirm_world \<Rightarrow>
     arm_failure option \<times> confirm_world" where
  "arm_rule_write active chans now pid send_ok req w =
     (if active = [] then (Some NoActiveChannel, w)
      else
        (case chan_by_name chans active of
           None \<Rightarrow> (Some (ChannelNotLive active), w)
         | Some (cid, ch) \<Rightarrow>
             if cid = [] then (Some (ChannelNotLive active), w)
             else
               (let pending = new_pending_action PendingRuleWrite
                       (RulePayload \<lparr>rp_file = rr_file req, rp_content = rr_content req,
                                     rp_reason = rr_reason req\<rparr>) now pid
                in case rs_update active (\<lambda>s. arm_pending_action s pending now) (cw_runtime w) of
                     (Inl e, st) \<Rightarrow> (Some (ArmStoreFailed e), w\<lparr>cw_runtime := st\<rparr>)
                   | (Inr (Some ErrPromptWaiting), st) \<Rightarrow> (Some ArmPromptWaiting, w\<lparr>cw_runtime := st\<rparr>)
                   | (Inr None, st) \<Rightarrow>
                       (case ask_user send_ok cid ch (AskRule req) pid (w\<lparr>cw_runtime := st\<rparr>) of
                          (True, w1) \<Rightarrow> (None, w1)
                        | (False, w1) \<Rightarrow> (Some PromptNotSent, clear_pending_action active w1)))))"

text \<open>The tool that closes a channel: it asks where the channel has a chat, and acts where not.\<close>

datatype done_error =
    DoneNoResults | DoneNoName | DoneNotFound string | DoneRuntime rs_error | DoneNoProvisioner string
  | DoneToken secret_error | DoneArm rs_error | DonePromptWaiting | DonePromptFailed
  | DoneTeardownFailed | DoneConfig config_error

datatype done_result = AwaitingConfirmation | Deleted

definition ask_teardown ::
  "provisioner \<Rightarrow> string \<Rightarrow> string \<Rightarrow> time \<Rightarrow> string \<Rightarrow> platform_state \<Rightarrow> confirm_world \<Rightarrow>
     (done_error + done_result) \<times> confirm_world" where
  "ask_teardown pv name tok now pid ps w =
     (let pending = new_pending_action PendingChannelDone NoPayload now pid
      in case rs_update name (\<lambda>s. arm_pending_action s pending now) (cw_runtime w) of
           (Inl e, st) \<Rightarrow> (Inl (DoneArm e), w\<lparr>cw_runtime := st\<rparr>)
         | (Inr (Some ErrPromptWaiting), st) \<Rightarrow> (Inl DonePromptWaiting, w\<lparr>cw_runtime := st\<rparr>)
         | (Inr None, st) \<Rightarrow>
             (let w1 = w\<lparr>cw_runtime := st, cw_platform := cw_platform w @ [TeardownPrompt tok ps pid]\<rparr>
              in if pv_prompt_ok pv ps then (Inr AwaitingConfirmation, w1)
                 else (Inl DonePromptFailed, clear_pending_action name w1)))"

definition delete_channel_now ::
  "confirm_params \<Rightarrow> string \<Rightarrow> string \<Rightarrow> payload runtime_state \<Rightarrow> confirm_world \<Rightarrow>
     (done_error + done_result) \<times> confirm_world" where
  "delete_channel_now p name ctype rs w =
     (case platform_teardown p ctype rs w of
        (False, w1) \<Rightarrow> (Inl DoneTeardownFailed, w1)
      | (True, w1) \<Rightarrow>
          (case cfg_remove_channel (cp_codec p) (cp_env p) (cp_user p) name (cw_config w1) of
             (Some e, cfg) \<Rightarrow> (Inl (DoneConfig e), w1\<lparr>cw_config := cfg\<rparr>)
           | (None, cfg) \<Rightarrow>
               (Inr Deleted,
                forget_channel p name
                  (w1\<lparr>cw_config := cfg, cw_registry := filter (\<lambda>(n, t). n \<noteq> name) (cw_registry w1)\<rparr>))))"

definition channel_done_handler ::
  "confirm_params \<Rightarrow> string \<Rightarrow> time \<Rightarrow> string \<Rightarrow> string \<Rightarrow> string \<Rightarrow> confirm_world \<Rightarrow>
     (done_error + done_result) \<times> confirm_world" where
  "channel_done_handler p active now pid results_sent arg w =
     (if results_sent = [] then (Inl DoneNoResults, w)
      else
        (let name = (if arg = [] then active else arg)
         in if name = [] then (Inl DoneNoName, w)
            else
              (case map_of (cw_registry w) name of
                 None \<Rightarrow> (Inl (DoneNotFound name), w)
               | Some ctype \<Rightarrow>
                   (case rs_get name (cw_runtime w) of
                      (Inl e, st) \<Rightarrow> (Inl (DoneRuntime e), w\<lparr>cw_runtime := st\<rparr>)
                    | (Inr rs, st) \<Rightarrow>
                        (let w1 = w\<lparr>cw_runtime := st\<rparr>
                         in if \<not> has_platform_state (rs_platform rs) then delete_channel_now p name ctype rs w1
                            else
                              (case cp_provisioners p ctype of
                                 None \<Rightarrow> (Inl (DoneNoProvisioner ctype), w1)
                               | Some pv \<Rightarrow>
                                   (case secret_get (channel_secret_key name) (mw_secrets (cw_mcps w1)) of
                                      (r, sec) \<Rightarrow>
                                        (let w2 = w1\<lparr>cw_mcps := (cw_mcps w1)\<lparr>mw_secrets := sec\<rparr>\<rparr>
                                         in case r of
                                              Inl e \<Rightarrow> (Inl (DoneToken e), w2)
                                            | Inr tok \<Rightarrow>
                                                ask_teardown pv name (case tok of PlainText t \<Rightarrow> t | _ \<Rightarrow> [])
                                                  now pid (rs_platform rs) w2))))))))"

end
