(* ===== verification/ConfirmProps.thy ===== *)
theory ConfirmProps
  imports Confirm
begin

text \<open>
  What the confirmations guarantee: an action needs the user's consent, automated traffic and
  other prompts' buttons touch nothing, a question is answered once, each action does exactly
  what was asked, and asking never replaces a question that is still open.
\<close>

subsection \<open>Consent\<close>



text \<open>Everything a confirmed action may change, beyond the runtime state and the chat.\<close>

definition acted_on :: "confirm_world \<Rightarrow>
    config_file \<times> mcp_world \<times> repo_map store \<times> (string \<Rightarrow> string option) \<times> platform_event list \<times> nat" where
  "acted_on w = (cw_config w, cw_mcps w, cw_repos w, cw_files w, cw_platform w, cw_changes w)"

lemma acted_on_clear [simp]: "acted_on (clear_pending_action n w) = acted_on w"
  by (simp add: acted_on_def clear_pending_action_def)

lemma acted_on_notify [simp]: "acted_on (notify c n w) = acted_on w"
  by (simp add: acted_on_def notify_def)

lemma acted_on_runtime [simp]: "acted_on (w\<lparr>cw_runtime := st\<rparr>) = acted_on w"
  by (simp add: acted_on_def)


text \<open>The ways a message can go through the intercept.\<close>

lemma intercept_cases:
  assumes "intercept_pending_confirmation p now msg w = (b, w')"
  obtains (ignored) "\<not> b" "w' = w"
    | (not_answered) ch :: chan and r st where "\<not> b" "rs_get (ch_name ch) (cw_runtime w) = (r, st)" "w' = w\<lparr>cw_runtime := st\<rparr>"
    | (expired) chans ch rs st pending where
        "cp_channels p = Some chans" "map_of chans (tm_channel msg) = Some ch"
        "rs_get (ch_name ch) (cw_runtime w) = (Inr rs, st)" "rs_pending rs = Some pending"
        "from_user (tm_source msg)" "pending_expired pending now"
        "\<not> b" "w' = clear_pending_action (ch_name ch) (w\<lparr>cw_runtime := st\<rparr>)"
    | (answered) chans ch rs st pending where
        "cp_channels p = Some chans" "map_of chans (tm_channel msg) = Some ch"
        "rs_get (ch_name ch) (cw_runtime w) = (Inr rs, st)" "rs_pending rs = Some pending"
        "from_user (tm_source msg)" "\<not> pending_expired pending now"
        "answer_pending p msg ch (ch_name ch) rs pending (w\<lparr>cw_runtime := st\<rparr>) = (b, w')"
proof (cases "cp_channels p")
  case None
  then show thesis using assms ignored by (simp add: intercept_pending_confirmation_def)
next
  case chans: (Some chans)
  show thesis
  proof (cases "map_of chans (tm_channel msg)")
    case None
    then show thesis using chans assms ignored by (simp add: intercept_pending_confirmation_def)
  next
    case ch: (Some ch)
    obtain r st where r: "rs_get (ch_name ch) (cw_runtime w) = (r, st)" by fastforce
    note run = assms [unfolded intercept_pending_confirmation_def chans ch option.case r prod.case Let_def]
    show thesis
    proof (cases r)
      case (Inl e)
      with run r not_answered show thesis by simp
    next
      case rs: (Inr rs)
      show thesis
      proof (cases "rs_pending rs")
        case None
        with run r rs not_answered show thesis by simp
      next
        case (Some pending)
        with run chans ch r rs not_answered expired answered show thesis
          by (simp split: if_splits)
      qed
    qed
  qed
qed

subsection \<open>Concrete states\<close>

definition dev_chans :: channel_map where
  "dev_chans = [(''c1'', \<lparr>ch_id = ''c1'', ch_name = ''dev'', ch_type = ''telegram'', ch_prompter = True\<rparr>)]"

definition dev_params :: confirm_params where
  "dev_params =
     \<lparr>cp_channels = Some dev_chans, cp_codec = sample_codec, cp_env = ''prod'', cp_user = ''u'',
      cp_provisioners = (\<lambda>_. None), cp_repo_store = True, cp_remote_mcps = True, cp_agent_prompts = [],
      cp_on_change = True, cp_memory_dir = ''/mem''\<rparr>"

definition dev_request :: grant_request where
  "dev_request = \<lparr>gr_repo = ''app'', gr_access = AccessFullWrite, gr_credential = ''work'', gr_drop_at = 900,
                  gr_reason = ''release''\<rparr>"

definition dev_pending :: "payload pending_action" where
  "dev_pending = new_pending_action PendingRepoGrant
     (GrantPayload \<lparr>gp_repo = ''app'', gp_access = AccessFullWrite, gp_credential = ''work'', gp_drop_at = 900\<rparr>) 5 ''P1''"

definition armed_state :: "payload runtime_state" where
  "armed_state = zero_runtime_state\<lparr>rs_pending := Some dev_pending\<rparr>"

definition dev_world :: "payload runtime_state store \<Rightarrow> confirm_world" where
  "dev_world rt =
     \<lparr>cw_runtime = rt, cw_config = \<lparr>cf_content = ConfigMissing, cf_io = []\<rparr>, cw_mcps = mcp_holding [],
      cw_repos = doc_holding repos_key [(''app'', sample_repo)], cw_files = (\<lambda>_. None), cw_fs_io = [],
      cw_notes = [], cw_platform = [], cw_changes = 0, cw_asked = [], cw_registry = [(''dev'', ''telegram'')]\<rparr>"

definition armed_world :: confirm_world where
  "armed_world = dev_world (doc_holding (runtime_key ''dev'') armed_state)"

definition calm_world :: confirm_world where
  "calm_world = dev_world fresh_store"

definition dev_message :: "message_source \<Rightarrow> string \<Rightarrow> tagged_message" where
  "dev_message src text = \<lparr>tm_channel = ''c1'', tm_text = text, tm_source = Some (no_source src)\<rparr>"

lemma dev_path: "safe_path ''/data'' (runtime_key ''dev'') = Some ''/data/channel_runtime/dev''"
  by code_simp

lemma repos_path: "safe_path ''/data'' repos_key = Some ''/data/tracked_repos''"
  by code_simp

lemma dev_laws [simp]:
  "writable (cw_runtime armed_world) (runtime_key ''dev'')"
  "rs_view (cw_runtime armed_world) ''dev'' = Inr armed_state"
  "writable (cw_runtime calm_world) (runtime_key ''dev'')"
  "rs_view (cw_runtime calm_world) ''dev'' = Inr zero_runtime_state"
  "rs_pending (zero_runtime_state :: payload runtime_state) = None"
  "rs_pending armed_state = Some dev_pending" "pa_prompt_id dev_pending = ''P1''"
  "\<not> pending_expired dev_pending 9" "cp_channels dev_params = Some dev_chans"
  "map_of dev_chans ''c1'' = Some \<lparr>ch_id = ''c1'', ch_name = ''dev'', ch_type = ''telegram'', ch_prompter = True\<rparr>"
  "tm_channel (dev_message src t) = ''c1''" "tm_text (dev_message src t) = t"
  "from_user (tm_source (dev_message src t)) = (src = SourceUser)"
  "chan_by_name dev_chans ''dev'' = Some (''c1'', \<lparr>ch_id = ''c1'', ch_name = ''dev'', ch_type = ''telegram'', ch_prompter = True\<rparr>)"
  "writable (cw_repos calm_world) repos_key" "writable (cw_repos armed_world) repos_key"
  "repo_view (cw_repos calm_world) = Inr [(''app'', sample_repo)]"
  "repo_view (cw_repos armed_world) = Inr [(''app'', sample_repo)]"
  "visible_to sample_repo ''dev''" "tr_name sample_repo = ''app''"
  "distinct (map fst dev_chans)" "cp_repo_store dev_params"
  by (simp_all add: armed_world_def calm_world_def dev_world_def doc_holding_writable [OF dev_path]
      fresh_writable [OF dev_path] rs_view_def doc_holding_view [OF dev_path] rs_decode_def
      zero_runtime_state_def armed_state_def dev_pending_def new_pending_action_def pending_expired_def
      pending_confirmation_ttl_def minute_def second_def dev_params_def dev_chans_def dev_message_def
      from_user_def no_source_def chan_by_name_def doc_holding_writable [OF repos_path] repo_view_def
      doc_holding_view [OF repos_path] repos_decode_def visible_to_def sample_repo_def)

definition press_text :: "string \<Rightarrow> string" where
  "press_text pid = button_press_text \<lparr>bp_prompt = pid, bp_reply = reply_yes\<rparr>"

lemma parse_press [simp]: "parse_button_press (press_text pid) = Some \<lparr>bp_prompt = pid, bp_reply = reply_yes\<rparr>"
  unfolding press_text_def by (rule parse_press_text) (simp add: reply_yes_def)




text \<open>
  Automated traffic never answers for the user: a message from a schedule, another
  channel, a notification or anything else that is not the user goes on to the agent, and
  every record (the pending action too) is exactly as it was.
\<close>

theorem automated_traffic_changes_nothing:
  assumes "\<not> from_user (tm_source msg)" and "intercept_pending_confirmation p now msg w = (b, w')"
  shows "\<not> b \<and> rs_view (cw_runtime w') = rs_view (cw_runtime w) \<and> cw_notes w' = cw_notes w \<and>
         acted_on w' = acted_on w"
  using assms(2)
proof (cases rule: intercept_cases)
  case (not_answered ch r st)
  with rs_get_frame [OF not_answered(2)] show ?thesis by simp
qed (use assms(1) in simp_all)

theorem automated_traffic_changes_nothing_witness:
  "rs_view (cw_runtime (snd (intercept_pending_confirmation dev_params 9 (dev_message SourceChannel ''yes'') armed_world))) ''dev'' =
     Inr armed_state"
proof -
  have "\<not> from_user (tm_source (dev_message SourceChannel ''yes''))" by simp
  from automated_traffic_changes_nothing [OF this surjective_pairing [of "intercept_pending_confirmation dev_params 9 (dev_message SourceChannel ''yes'') armed_world"]]
  show ?thesis by simp
qed

text \<open>
  Another prompt's button is no answer to this one: a press that names a different prompt
  is passed on, and the question stays open with everything else unchanged.
\<close>

theorem foreign_button_changes_nothing:
  assumes "parse_button_press (tm_text msg) = Some press"
    and "\<And>chans ch rs pending. cp_channels p = Some chans \<Longrightarrow> map_of chans (tm_channel msg) = Some ch \<Longrightarrow>
           rs_view (cw_runtime w) (ch_name ch) = Inr rs \<Longrightarrow> rs_pending rs = Some pending \<Longrightarrow>
           bp_prompt press \<noteq> pa_prompt_id pending \<and> \<not> pending_expired pending now"
    and "intercept_pending_confirmation p now msg w = (b, w')"
  shows "\<not> b \<and> rs_view (cw_runtime w') = rs_view (cw_runtime w) \<and> cw_notes w' = cw_notes w \<and>
         acted_on w' = acted_on w"
  using assms(3)
proof (cases rule: intercept_cases)
  case ignored
  then show ?thesis by simp
next
  case (not_answered ch r st)
  with rs_get_frame [OF not_answered(2)] show ?thesis by simp
next
  case (expired chans ch rs st pending)
  with assms(2) [OF expired(1,2) rs_get_view [OF expired(3)] expired(4)] show ?thesis by simp
next
  case (answered chans ch rs st pending)
  with assms(2) [OF answered(1,2) rs_get_view [OF answered(3)] answered(4)] assms(1)
  have "\<not> b" "w' = w\<lparr>cw_runtime := st\<rparr>" by (auto simp: answer_pending_def)
  with rs_get_frame [OF answered(3)] show ?thesis by simp
qed

theorem foreign_button_changes_nothing_witness:
  "rs_view (cw_runtime (snd (intercept_pending_confirmation dev_params 9 (dev_message SourceUser (press_text ''P0'')) armed_world))) ''dev'' =
     Inr armed_state"
proof -
  let ?msg = "dev_message SourceUser (press_text ''P0'')"
  have press: "parse_button_press (tm_text ?msg) = Some \<lparr>bp_prompt = ''P0'', bp_reply = reply_yes\<rparr>" by simp
  have "rs_view (cw_runtime (snd (intercept_pending_confirmation dev_params 9 ?msg armed_world))) = rs_view (cw_runtime armed_world)"
    by (rule foreign_button_changes_nothing [OF press _ surjective_pairing, THEN conjunct2, THEN conjunct1]) auto
  then show ?thesis by simp
qed

subsection \<open>A question is answered once\<close>

definition no_pending :: "confirm_world \<Rightarrow> string \<Rightarrow> bool" where
  "no_pending w n = (\<forall>rs. rs_view (cw_runtime w) n = Inr rs \<longrightarrow> rs_pending rs = None)"

lemma no_pending_cong: "cw_runtime w' = cw_runtime w \<Longrightarrow> no_pending w' n = no_pending w n"
  by (simp add: no_pending_def)

lemma no_pending_notify [simp]: "no_pending (notify c x w) n = no_pending w n"
  by (simp add: no_pending_def notify_def)

lemma clear_pending_clears:
  assumes "writable (cw_runtime w) (runtime_key n)" and "rs_view (cw_runtime w) n = Inr rs"
  shows "no_pending (clear_pending_action n w) n \<and> writable (cw_runtime (clear_pending_action n w)) (runtime_key n)"
proof -
  obtain st where "rs_update n (\<lambda>s. ((), s\<lparr>rs_pending := None\<rparr>)) (cw_runtime w) = (Inr (), st)"
    "rs_view st n = Inr (rs\<lparr>rs_pending := None\<rparr>)" "writable st (runtime_key n)"
    using rs_update_writable [OF assms, of "\<lambda>s. ((), s\<lparr>rs_pending := None\<rparr>)"] by auto
  then show ?thesis by (simp add: no_pending_def clear_pending_action_def)
qed



lemma remove_all_runtime [simp]: "cw_runtime (remove_all d w) = cw_runtime w"
  by (simp add: remove_all_def fs_next_io_def split: list.splits)



lemma send_closing_runtime [simp]: "cw_runtime (send_closing p ch n rs w) = cw_runtime w"
  by (simp add: send_closing_def Let_def split: option.splits prod.splits sum.splits)





subsection \<open>What each action does\<close>

lemma repo_save_fail:
  assumes "repo_save m st = (Some e, st')"
  shows "repo_view st' = repo_view st \<or> repo_view st' = Inl RepoParse"
proof -
  from assms obtain e' where "store_set repos_key m st = (Some e', st')"
    by (auto simp: repo_save_def split: prod.splits option.splits)
  from store_set_fail [OF this] show ?thesis
    by (auto simp: repo_view_def repos_decode_def)
qed

lemma repo_put_fail:
  assumes "repo_put r st = (Some e, st')"
  shows "repo_view st' = repo_view st \<or> repo_view st' = Inl RepoParse"
proof -
  obtain x st1 where l: "repo_list st = (x, st1)" by fastforce
  have v: "repo_view st1 = repo_view st" using repo_list_frame [OF l] by (simp add: repo_view_def)
  show ?thesis
  proof (cases x)
    case (Inl a)
    with assms l v show ?thesis by (auto simp: repo_put_def)
  next
    case (Inr m)
    with assms l have "repo_save (AList.update (tr_name r) r m) st1 = (Some e, st')"
      by (simp add: repo_put_def)
    from repo_save_fail [OF this] v show ?thesis by simp
  qed
qed

definition granted_repo :: "grant_payload \<Rightarrow> tracked_repo \<Rightarrow> tracked_repo" where
  "granted_repo g r =
     r\<lparr>tr_access := gp_access g, tr_credential := gp_credential g, tr_drop_to_read_only_at := gp_drop_at g\<rparr>"

text \<open>
  A confirmed grant gives exactly what was asked, to the repository that was asked about
  and only while this channel may see it: when the user is told it was granted, the stored
  repositories are the old ones with that repo's tier, credential and end date replaced by the
  payload's; otherwise no stored repository has changed (or the record became unreadable,
  which grants nothing).
\<close>

theorem grant_is_exact:
  assumes "confirm_repo_grant p cid name pending w = (b, w')"
  shows "b \<and> cw_runtime w' = cw_runtime w \<and> cw_config w' = cw_config w \<and> cw_files w' = cw_files w \<and>
    ((\<exists>g r m. decode_grant (pa_payload pending) = Some g \<and> repo_view (cw_repos w) = Inr m \<and>
        map_of m (gp_repo g) = Some r \<and> visible_to r name \<and>
        repo_view (cw_repos w') = Inr (AList.update (tr_name r) (granted_repo g r) m) \<and>
        cw_notes w' = cw_notes w @ [(cid, Granted (gp_repo g) (gp_access g) (gp_drop_at g))]) \<or>
     (repo_view (cw_repos w') \<in> {repo_view (cw_repos w), Inl RepoParse} \<and>
      (\<exists>n. cw_notes w' = cw_notes w @ [(cid, n)] \<and> (\<forall>a t d. n \<noteq> Granted a t d))))"
proof (cases "decode_grant (pa_payload pending)")
  case None
  with assms show ?thesis by (auto simp: confirm_repo_grant_def notify_def)
next
  case g: (Some g)
  show ?thesis
  proof (cases "cp_repo_store p")
    case False
    with g assms show ?thesis by (auto simp: confirm_repo_grant_def notify_def)
  next
    case True
    obtain x st where get: "repo_get (gp_repo g) (cw_repos w) = (x, st)" by fastforce
    have same: "repo_view st = repo_view (cw_repos w)"
      using repo_get_frame [OF get] by (simp add: repo_view_def)
    show ?thesis
    proof (cases "\<exists>r. x = Inr (Some r) \<and> visible_to r name")
      case False
      with g True get same assms show ?thesis
        by (auto simp: confirm_repo_grant_def notify_def split: sum.splits option.splits)
    next
      case visible: True
      then obtain r where r: "x = Inr (Some r)" "visible_to r name" by blast
      with get repo_get_view obtain m where m: "repo_view (cw_repos w) = Inr m" "map_of m (gp_repo g) = Some r"
        by metis
      obtain u st' where put: "repo_put (granted_repo g r) st = (u, st')" by fastforce
      have name: "tr_name (granted_repo g r) = tr_name r" by (simp add: granted_repo_def)
      show ?thesis
      proof (cases u)
        case None
        with put repo_put_ok same m(1) name
        have "repo_view st' = Inr (AList.update (tr_name r) (granted_repo g r) m)" by fastforce
        with g True get r m put None assms show ?thesis
          by (auto simp: confirm_repo_grant_def notify_def granted_repo_def)
      next
        case (Some e)
        with put repo_put_fail same have "repo_view st' \<in> {repo_view (cw_repos w), Inl RepoParse}" by fastforce
        with g True get r put Some assms show ?thesis
          by (auto simp: confirm_repo_grant_def notify_def granted_repo_def)
      qed
    qed
  qed
qed

theorem grant_is_exact_witness:
  "fst (confirm_repo_grant dev_params ''c1'' ''dev'' dev_pending armed_world) \<and>
   cw_files (snd (confirm_repo_grant dev_params ''c1'' ''dev'' dev_pending armed_world)) = cw_files armed_world"
  using grant_is_exact [OF surjective_pairing [of "confirm_repo_grant dev_params ''c1'' ''dev'' dev_pending armed_world"]]
  by simp

lemma write_file_cases:
  "write_file p t w = (ok, w') \<Longrightarrow>
     (\<forall>q. q \<noteq> p \<longrightarrow> cw_files w' q = cw_files w q) \<and> (ok \<longrightarrow> cw_files w' p = Some t) \<and>
     cw_notes w' = cw_notes w \<and> cw_runtime w' = cw_runtime w \<and> cw_config w' = cw_config w \<and>
     cw_repos w' = cw_repos w"
  by (auto simp: write_file_def fs_next_io_def split: io.splits list.splits)

lemma fs_next_io_frame:
  "fs_next_io w = (x, w') \<Longrightarrow> cw_files w' = cw_files w \<and> cw_notes w' = cw_notes w \<and>
     cw_runtime w' = cw_runtime w \<and> cw_config w' = cw_config w \<and> cw_repos w' = cw_repos w"
  by (auto simp: fs_next_io_def split: list.splits)

lemma path_ext_slash: "path_ext [slash] = []"
  by code_simp

text \<open>
  A confirmed rulebook change stays in the rulebook directory: the only file it can touch
  is the payload's, its name a single \<open>.md\<close> path element under the rules directory whatever
  was stored, and when the user is told it was saved the file holds the payload's text.
\<close>

theorem rule_write_is_confined:
  assumes "confirm_rule_write p cid name pending w = (b, w')"
  shows "b \<and> cw_runtime w' = cw_runtime w \<and> cw_config w' = cw_config w \<and> cw_repos w' = cw_repos w \<and>
    (\<forall>path. cw_files w' path \<noteq> cw_files w path \<longrightarrow>
       (\<exists>r. decode_rule (pa_payload pending) = Some r \<and>
            path = join_path (rules_dir (cp_memory_dir p)) (rp_file r) \<and>
            slash \<notin> set (rp_file r) \<and> path_ext (rp_file r) = ''.md'')) \<and>
    (\<forall>f u. (cid, RuleSaved f u) \<in> set (drop (length (cw_notes w)) (cw_notes w')) \<longrightarrow>
       (\<exists>r. decode_rule (pa_payload pending) = Some r \<and> f = rp_file r \<and>
            cw_files w' (join_path (rules_dir (cp_memory_dir p)) (rp_file r)) = Some (rp_content r)))"
proof (cases "decode_rule (pa_payload pending)")
  case None
  with assms show ?thesis by (auto simp: confirm_rule_write_def notify_def)
next
  case r: (Some r)
  obtain x w1 where io: "fs_next_io w = (x, w1)" by fastforce
  note frame = fs_next_io_frame [OF io]
  show ?thesis
  proof (cases "cp_memory_dir p = [] \<or> x \<noteq> Good \<or> rp_file r \<noteq> base_path (rp_file r) \<or> path_ext (rp_file r) \<noteq> ''.md''")
    case True
    with assms r io frame show ?thesis
      by (auto simp: confirm_rule_write_def notify_def Let_def split: if_splits)
  next
    case False
    let ?p = "join_path (rules_dir (cp_memory_dir p)) (rp_file r)"
    obtain ok w2 where wf: "write_file ?p (rp_content r) w1 = (ok, w2)" by fastforce
    note wrote = write_file_cases [OF wf]
    from False assms r io wf obtain n where "b" and w': "w' = notify cid n w2"
      and n: "n = (if ok then RuleSaved (rp_file r) (cw_files w1 ?p \<noteq> None) else RuleWriteFailed (rp_file r))"
      by (auto simp: confirm_rule_write_def Let_def split: bool.splits)
    have "slash \<notin> set (rp_file r)"
      using False by (intro base_path_no_slash) (auto simp: path_ext_slash)
    with \<open>b\<close> w' n False r frame wrote show ?thesis
      by (auto simp: notify_def split: if_splits)
  qed
qed

theorem rule_write_is_confined_witness:
  "cw_files (snd (confirm_rule_write dev_params ''c1'' ''dev''
      (dev_pending\<lparr>pa_payload := RulePayload \<lparr>rp_file = ''../x.md'', rp_content = ''a'', rp_reason = ''b''\<rparr>\<rparr>) armed_world)) =
   (\<lambda>path. None)"
proof (intro ext, rule ccontr)
  fix path
  let ?p = "dev_pending\<lparr>pa_payload := RulePayload \<lparr>rp_file = ''../x.md'', rp_content = ''a'', rp_reason = ''b''\<rparr>\<rparr>"
  assume "cw_files (snd (confirm_rule_write dev_params ''c1'' ''dev'' ?p armed_world)) path \<noteq> None"
  then have "cw_files (snd (confirm_rule_write dev_params ''c1'' ''dev'' ?p armed_world)) path \<noteq> cw_files armed_world path"
    by (simp add: armed_world_def dev_world_def)
  with rule_write_is_confined [OF surjective_pairing [of "confirm_rule_write dev_params ''c1'' ''dev'' ?p armed_world"]]
  have "\<exists>r. decode_rule (pa_payload ?p) = Some r \<and> slash \<notin> set (rp_file r)" by blast
  then show False by (simp add: decode_rule_def)
qed

lemma send_closing_frame:
  "cw_config (send_closing p ch n rs w) = cw_config w \<and> cw_repos (send_closing p ch n rs w) = cw_repos w \<and>
   cw_files (send_closing p ch n rs w) = cw_files w \<and> cw_changes (send_closing p ch n rs w) = cw_changes w \<and>
   mw_store (cw_mcps (send_closing p ch n rs w)) = mw_store (cw_mcps w) \<and>
   store_view (mw_secrets (cw_mcps (send_closing p ch n rs w))) = store_view (mw_secrets (cw_mcps w))"
  by (auto simp: send_closing_def Let_def split: option.splits prod.splits sum.splits dest: secret_get_frame)

lemma platform_teardown_frame:
  "platform_teardown p t rs w = (ok, w') \<Longrightarrow>
     cw_config w' = cw_config w \<and> cw_repos w' = cw_repos w \<and> cw_files w' = cw_files w \<and>
     cw_changes w' = cw_changes w \<and> cw_mcps w' = cw_mcps w \<and> cw_runtime w' = cw_runtime w"
  by (auto simp: platform_teardown_def split: option.splits if_splits)

text \<open>
  Closing a channel never orphans it: when the platform's teardown fails, or the config
  cannot be rewritten, the config keeps the channel and its runtime state and the server
  registrations stay as they were, so the close can be tried again.
\<close>

theorem failed_close_keeps_channel:
  assumes "confirm_channel_done p ch n rs w = (b, w')"
    and "(case cp_provisioners p (ch_type ch) of
            None \<Rightarrow> False | Some pv \<Rightarrow> has_teardown_state (rs_teardown rs) \<and> \<not> pv_teardown_ok pv (rs_teardown rs)) \<or>
         fst (cfg_remove_channel (cp_codec p) (cp_env p) (cp_user p) n (cw_config w)) \<noteq> None"
  shows "b \<and> cf_content (cw_config w') = cf_content (cw_config w) \<and> cw_runtime w' = cw_runtime w \<and>
         mcp_view (cw_mcps w') = mcp_view (cw_mcps w) \<and> cw_files w' = cw_files w \<and>
         store_view (mw_secrets (cw_mcps w')) = store_view (mw_secrets (cw_mcps w)) \<and>
         cw_repos w' = cw_repos w \<and> cw_changes w' = cw_changes w"
proof -
  let ?w0 = "send_closing p ch n rs w"
  note closing = send_closing_frame [of p ch n rs w]
  obtain ok w1 where t: "platform_teardown p (ch_type ch) rs ?w0 = (ok, w1)" by fastforce
  note tf = platform_teardown_frame [OF t]
  have mv: "mcp_view (cw_mcps w1) = mcp_view (cw_mcps w)" using tf closing by (simp add: mcp_view_def)
  show ?thesis
  proof (cases ok)
    case False
    with assms(1) t tf closing mv show ?thesis by (simp add: confirm_channel_done_def)
  next
    case True
    with t have "\<not> (case cp_provisioners p (ch_type ch) of
        None \<Rightarrow> False | Some pv \<Rightarrow> has_teardown_state (rs_teardown rs) \<and> \<not> pv_teardown_ok pv (rs_teardown rs))"
      by (auto simp: platform_teardown_def split: option.splits if_splits)
    with assms(2) obtain e cfg where c:
      "cfg_remove_channel (cp_codec p) (cp_env p) (cp_user p) n (cw_config w) = (Some e, cfg)"
      by (metis option.exhaust prod.collapse)
    then have "cf_content cfg = cf_content (cw_config w)"
      by (auto simp: cfg_remove_channel_def dest: cfg_mutate_fail)
    with assms(1) t True c tf closing mv show ?thesis by (auto simp: confirm_channel_done_def)
  qed
qed

theorem failed_close_keeps_channel_witness:
  "cw_runtime (snd (confirm_channel_done dev_params (snd (hd dev_chans)) ''dev'' armed_state armed_world)) = cw_runtime armed_world"
proof -
  have "fst (cfg_remove_channel (cp_codec dev_params) (cp_env dev_params) (cp_user dev_params) ''dev'' (cw_config armed_world)) \<noteq> None"
    by (simp add: armed_world_def dev_world_def cfg_remove_channel_def cfg_mutate_def read_channel_nodes_def cfg_next_io_def)
  with failed_close_keeps_channel [OF surjective_pairing
      [of "confirm_channel_done dev_params (snd (hd dev_chans)) ''dev'' armed_state armed_world"]]
  show ?thesis by blast
qed

subsection \<open>Asking\<close>

lemma rs_update_arm:
  assumes "rs_update n (\<lambda>s. arm_pending_action s new now) st = (Inr u, st')"
  shows "\<exists>rs. rs_view st n = Inr rs \<and>
           (if \<exists>q. rs_pending rs = Some q \<and> \<not> pending_expired q now
            then u = Some ErrPromptWaiting \<and> rs_view st' n = Inr rs
            else u = None \<and> rs_view st' n = Inr (rs\<lparr>rs_pending := Some new\<rparr>))"
  using rs_update_ok [OF assms] by (auto simp: arm_pending_action_def split: option.splits if_splits)

text \<open>
  Asking for a grant never replaces a question that is still open: it fails, the open
  question stays as it was and no prompt is sent. When it succeeds, the channel holds exactly
  the request under the prompt's ID, and exactly one prompt with that ID has been sent, to
  that channel.
\<close>

theorem asking_keeps_open_question:
  assumes "arm_repo_grant active chans now pid send_ok req w = (r, w')"
    and "rs_view (cw_runtime w) active = Inr rs"
  shows "((\<exists>q. rs_pending rs = Some q \<and> \<not> pending_expired q now) \<longrightarrow>
            r \<noteq> None \<and> cw_asked w' = cw_asked w \<and>
            (r = Some ArmPromptWaiting \<longrightarrow> rs_view (cw_runtime w') active = Inr rs)) \<and>
         (r = None \<longrightarrow>
            (\<exists>cid ch. chan_by_name chans active = Some (cid, ch) \<and>
               rs_view (cw_runtime w') active = Inr (rs\<lparr>rs_pending := Some
                 (new_pending_action PendingRepoGrant
                    (GrantPayload \<lparr>gp_repo = gr_repo req, gp_access = gr_access req,
                       gp_credential = gr_credential req, gp_drop_at = gr_drop_at req\<rparr>) now pid)\<rparr>) \<and>
               cw_asked w' = cw_asked w @
                 [\<lparr>as_channel = cid, as_question = AskGrant req, as_prompt = pid, as_buttons = ch_prompter ch\<rparr>]))"
proof (cases "active = [] \<or> chan_by_name chans active = None \<or> fst (the (chan_by_name chans active)) = []")
  case True
  with assms show ?thesis by (auto simp: arm_repo_grant_def split: option.splits if_splits)
next
  case False
  then obtain cid ch where ch: "chan_by_name chans active = Some (cid, ch)" "cid \<noteq> []" "active \<noteq> []" by auto
  let ?pending = "new_pending_action PendingRepoGrant
     (GrantPayload \<lparr>gp_repo = gr_repo req, gp_access = gr_access req,
        gp_credential = gr_credential req, gp_drop_at = gr_drop_at req\<rparr>) now pid"
  obtain x st where u: "rs_update active (\<lambda>s. arm_pending_action s ?pending now) (cw_runtime w) = (x, st)" by fastforce
  note run = assms(1) [unfolded arm_repo_grant_def Let_def]
  show ?thesis
  proof (cases x)
    case (Inl e)
    with run ch u show ?thesis by (auto simp: clear_pending_action_def)
  next
    case (Inr v)
    with rs_update_arm u assms(2) have
      v: "if \<exists>q. rs_pending rs = Some q \<and> \<not> pending_expired q now
          then v = Some ErrPromptWaiting \<and> rs_view st active = Inr rs
          else v = None \<and> rs_view st active = Inr (rs\<lparr>rs_pending := Some ?pending\<rparr>)" by fastforce
    with run ch u Inr show ?thesis
      by (auto simp: ask_user_def clear_pending_action_def split: if_splits)
  qed
qed

theorem asking_keeps_open_question_witness:
  "fst (arm_repo_grant ''dev'' dev_chans 9 ''P2'' True dev_request armed_world) \<noteq> None \<and>
   cw_asked (snd (arm_repo_grant ''dev'' dev_chans 9 ''P2'' True dev_request armed_world)) = []"
proof -
  have "rs_view (cw_runtime armed_world) ''dev'' = Inr armed_state" by simp
  from asking_keeps_open_question [OF surjective_pairing [of "arm_repo_grant ''dev'' dev_chans 9 ''P2'' True dev_request armed_world"] this]
  show ?thesis by (simp add: armed_world_def dev_world_def)
qed

text \<open>
  A prompt that could not be sent leaves nothing armed: on a store that answers, asking
  for a rulebook change whose prompt fails reports the failure and the channel has no pending
  action, so no later yes can approve something the user never saw.
\<close>

theorem unsent_prompt_is_disarmed:
  assumes "arm_rule_write active chans now pid False req w = (r, w')"
    and "writable (cw_runtime w) (runtime_key active)"
    and "rs_view (cw_runtime w) active = Inr rs" and "rs_pending rs = None"
  shows "r \<noteq> None \<and> no_pending w' active \<and> cw_asked w' = cw_asked w"
proof (cases "active = [] \<or> chan_by_name chans active = None \<or> fst (the (chan_by_name chans active)) = []")
  case True
  with assms have "r \<noteq> None \<and> w' = w" by (auto simp: arm_rule_write_def split: option.splits if_splits)
  with assms(3,4) show ?thesis by (simp add: no_pending_def)
next
  case False
  then obtain cid ch where ch: "chan_by_name chans active = Some (cid, ch)" "cid \<noteq> []" "active \<noteq> []" by auto
  let ?pending = "new_pending_action PendingRuleWrite
     (RulePayload \<lparr>rp_file = rr_file req, rp_content = rr_content req, rp_reason = rr_reason req\<rparr>) now pid"
  have "arm_pending_action rs ?pending now = (None, rs\<lparr>rs_pending := Some ?pending\<rparr>)"
    using assms(4) by (simp add: arm_pending_action_def)
  from rs_update_writable [OF assms(2,3), of "\<lambda>s. arm_pending_action s ?pending now", OF this] obtain st where
    u: "rs_update active (\<lambda>s. arm_pending_action s ?pending now) (cw_runtime w) = (Inr None, st)"
    "rs_view st active = Inr (rs\<lparr>rs_pending := Some ?pending\<rparr>)" "writable st (runtime_key active)" by blast
  have "r = Some PromptNotSent \<and> w' = clear_pending_action active (w\<lparr>cw_runtime := st\<rparr>)"
    using assms(1) ch u by (simp add: arm_rule_write_def Let_def ask_user_def)
  with clear_pending_clears [of "w\<lparr>cw_runtime := st\<rparr>"] u show ?thesis
    by (simp add: clear_pending_action_def)
qed

theorem unsent_prompt_is_disarmed_witness:
  "let r = arm_rule_write ''dev'' dev_chans 9 ''P2'' False \<lparr>rr_file = ''a.md'', rr_content = ''x'', rr_reason = ''y''\<rparr> calm_world
   in fst r \<noteq> None \<and> no_pending (snd r) ''dev''"
  using unsent_prompt_is_disarmed [OF surjective_pairing
      [of "arm_rule_write ''dev'' dev_chans 9 ''P2'' False \<lparr>rr_file = ''a.md'', rr_content = ''x'', rr_reason = ''y''\<rparr> calm_world"]]
  by (simp add: Let_def)

text \<open>
  C29. From the question to the effect: when a grant has been asked for and the user presses
  that prompt's yes button before it expires, the router consumes the press and the repository
  gets exactly the tier, credential and end date of the request, if it is still tracked and
  visible on that channel.
\<close>

theorem pressed_yes_applies_the_request:
  assumes "arm_repo_grant active chans now pid True req w = (None, w1)"
    and "rs_view (cw_runtime w) active = Inr rs" and "rs_pending rs = None"
    and "cp_channels p = Some chans" and "distinct (map fst chans)"
    and "chan_by_name chans active = Some (cid, ch)"
    and "writable (cw_runtime w1) (runtime_key active)"
    and "0 < now" and "now2 \<le> now + pending_confirmation_ttl"
    and "tm_channel msg = cid" and "from_user (tm_source msg)"
    and "tm_text msg = button_press_text \<lparr>bp_prompt = pid, bp_reply = reply_yes\<rparr>"
    and "cp_repo_store p" and "writable (cw_repos w) repos_key"
    and "repo_view (cw_repos w) = Inr m" and "map_of m (gr_repo req) = Some r" and "visible_to r active"
    and "intercept_pending_confirmation p now2 msg w1 = (b, w2)"
  shows "b \<and> repo_view (cw_repos w2) = Inr (AList.update (tr_name r)
            (r\<lparr>tr_access := gr_access req, tr_credential := gr_credential req,
               tr_drop_to_read_only_at := gr_drop_at req\<rparr>) m) \<and>
         no_pending w2 active"
proof -
  let ?g = "\<lparr>gp_repo = gr_repo req, gp_access = gr_access req, gp_credential = gr_credential req,
            gp_drop_at = gr_drop_at req\<rparr>"
  let ?pending = "new_pending_action PendingRepoGrant (GrantPayload ?g) now pid"
  from asking_keeps_open_question [OF assms(1,2)]
  have view: "rs_view (cw_runtime w1) active = Inr (rs\<lparr>rs_pending := Some ?pending\<rparr>)" by auto
  have repos: "cw_repos w1 = cw_repos w"
    using assms(1) by (auto simp: arm_repo_grant_def ask_user_def clear_pending_action_def Let_def
        split: if_splits option.splits prod.splits sum.splits arm_error.splits)
  have ch: "map_of chans cid = Some ch" "ch_name ch = active"
    using chan_by_name_Some [OF assms(6)] assms(5) by auto
  have live: "\<not> pending_expired ?pending now2"
    using assms(9) by (simp add: new_pending_expiry [OF assms(8)])
  have press: "parse_button_press (tm_text msg) = Some \<lparr>bp_prompt = pid, bp_reply = reply_yes\<rparr>"
    unfolding assms(12) by (rule parse_press_text) (simp add: reply_yes_def)
  have get: "rs_get active (cw_runtime w1) = (Inr (rs\<lparr>rs_pending := Some ?pending\<rparr>), cw_runtime w1)"
    using rs_get_writable [OF assms(7)] view by simp
  let ?w = "clear_pending_action active w1"
  have kind: "pa_kind ?pending = PendingRepoGrant" "pa_prompt_id ?pending = pid"
    by (simp_all add: new_pending_action_def)
  have ran: "confirm_repo_grant p cid active ?pending ?w = (b, w2)"
    using assms(18) ch live press get assms(4,10,11)
    by (simp add: intercept_pending_confirmation_def answer_pending_def perform_pending_def Let_def kind)
  have cleared: "no_pending ?w active" using clear_pending_clears [OF assms(7) view] by simp
  have wr: "cw_repos ?w = cw_repos w" using repos by (simp add: clear_pending_action_def)
  have read: "repo_list (cw_repos w) = (Inr m, cw_repos w)"
    using assms(14,15) get_writable [OF assms(14)] by (simp add: repo_list_def repo_view_def)
  obtain st where "store_set repos_key (AList.update (tr_name r) (granted_repo ?g r) m) (cw_repos w) = (None, st)"
    using set_writable [OF assms(14)] by blast
  then have "repo_put (granted_repo ?g r) (cw_repos w) = (None, st)" 
    using read by (simp add: repo_put_def repo_save_def granted_repo_def)
  with repo_put_ok assms(15) have put: "repo_put (granted_repo ?g r) (cw_repos w) = (None, st)"
    "repo_view st = Inr (AList.update (tr_name r) (granted_repo ?g r) m)" by (fastforce simp: granted_repo_def)+
  have "b \<and> cw_repos w2 = st"
    using ran wr read put(1) assms(13,16,17)
    by (auto simp: confirm_repo_grant_def decode_grant_def new_pending_action_def repo_get_def
        granted_repo_def notify_def)
  moreover have "no_pending w2 active"
    using grant_is_exact [OF ran] cleared by (simp add: no_pending_def)
  ultimately show ?thesis using put(2) by (simp add: granted_repo_def)
qed

theorem pressed_yes_applies_the_request_witness:
  "\<exists>w1 w2. arm_repo_grant ''dev'' dev_chans 5 ''P1'' True dev_request calm_world = (None, w1) \<and>
     intercept_pending_confirmation dev_params 9 (dev_message SourceUser (press_text ''P1'')) w1 = (True, w2) \<and>
     repo_view (cw_repos w2) = Inr [(''app'', sample_repo\<lparr>tr_access := AccessFullWrite, tr_credential := ''work'',
                                        tr_drop_to_read_only_at := 900\<rparr>)]"
proof -
  let ?msg = "dev_message SourceUser (press_text ''P1'')"
  have "arm_pending_action zero_runtime_state dev_pending 5 = (None, armed_state)"
    by (simp add: arm_pending_action_def armed_state_def)
  from rs_update_writable [OF dev_laws(3,4), of "\<lambda>s. arm_pending_action s dev_pending 5", OF this]
  obtain st where st: "rs_update ''dev'' (\<lambda>s. arm_pending_action s dev_pending 5) (cw_runtime calm_world) = (Inr None, st)"
    "writable st (runtime_key ''dev'')" by blast
  then obtain w1 where w1: "arm_repo_grant ''dev'' dev_chans 5 ''P1'' True dev_request calm_world = (None, w1)"
      "writable (cw_runtime w1) (runtime_key ''dev'')"
    by (simp add: arm_repo_grant_def dev_request_def ask_user_def dev_pending_def [symmetric])
  obtain b w2 where w2: "intercept_pending_confirmation dev_params 9 ?msg w1 = (b, w2)" by fastforce
  have req: "map_of [(''app'', sample_repo)] (gr_repo dev_request) = Some sample_repo"
    by (simp add: dev_request_def)
  have "b \<and> repo_view (cw_repos w2) = Inr (AList.update (tr_name sample_repo)
            (sample_repo\<lparr>tr_access := gr_access dev_request, tr_credential := gr_credential dev_request,
               tr_drop_to_read_only_at := gr_drop_at dev_request\<rparr>) [(''app'', sample_repo)]) \<and> no_pending w2 ''dev''"
    by (rule pressed_yes_applies_the_request [OF w1(1) dev_laws(4) _ _ _ _ w1(2) _ _ _ _ _ _ _ _ req _ w2])
       (simp_all add: pending_confirmation_ttl_def minute_def second_def press_text_def)
  with w1(1) w2 show ?thesis by (simp add: dev_request_def)
qed

end
