(* ===== verification/Activity.thy ===== *)
theory Activity
  imports RuntimeState "HOL-Library.AList"
begin

text \<open>
  The activity tracker (\<open>internal/channel/activity.go\<close>): which channels are busy, and who is
  woken when a channel becomes idle. A waiter is a Go channel that is closed to wake its
  reader; here it is a number, and \<open>tk_closed\<close> holds the numbers that have been closed. A timer
  that has run stays in its field, as the Go pointer does. Every operation takes the clock
  reading it works with.
\<close>

definition default_idle_timeout :: duration where "default_idle_timeout = 3 * minute"

datatype idle_timer = TimerPending time | TimerFired

record channel_activity =
  av_processing :: bool
  av_last_at :: time
  av_last_source :: message_source
  av_waiters :: "nat list"
  av_timer :: "idle_timer option"

record 'p tracker =
  tk_entries :: "(string \<times> channel_activity) list"
  tk_closed :: "nat list"
  tk_next :: nat
  tk_store :: "'p runtime_state store option"

definition new_activity :: channel_activity where
  "new_activity = \<lparr>av_processing = False, av_last_at = 0, av_last_source = SourceOther [],
                   av_waiters = [], av_timer = None\<rparr>"

definition new_tracker :: "'p tracker" where
  "new_tracker = \<lparr>tk_entries = [], tk_closed = [], tk_next = 0, tk_store = None\<rparr>"

definition tk_entry :: "'p tracker \<Rightarrow> string \<Rightarrow> channel_activity" where
  "tk_entry t name = (case map_of (tk_entries t) name of Some e \<Rightarrow> e | None \<Rightarrow> new_activity)"

definition put_entry :: "string \<Rightarrow> channel_activity \<Rightarrow> 'p tracker \<Rightarrow> 'p tracker" where
  "put_entry name e t = t\<lparr>tk_entries := AList.update name e (tk_entries t)\<rparr>"

definition activity_busy :: "time \<Rightarrow> channel_activity \<Rightarrow> bool" where
  "activity_busy now e = (av_processing e \<or> time_sub now (av_last_at e) < default_idle_timeout)"

definition signal_waiters :: "string \<Rightarrow> channel_activity \<Rightarrow> 'p tracker \<Rightarrow> 'p tracker" where
  "signal_waiters name e t =
     put_entry name (e\<lparr>av_waiters := []\<rparr>) (t\<lparr>tk_closed := tk_closed t @ av_waiters e\<rparr>)"

definition schedule_idle_check :: "string \<Rightarrow> time \<Rightarrow> channel_activity \<Rightarrow> 'p tracker \<Rightarrow> 'p tracker" where
  "schedule_idle_check name now e t =
     (let e1 = e\<lparr>av_timer := None\<rparr>
      in if av_waiters e1 = [] then put_entry name e1 t
         else (let remaining = default_idle_timeout - time_sub now (av_last_at e1)
               in if remaining \<le> 0 then signal_waiters name e1 t
                  else put_entry name (e1\<lparr>av_timer := Some (TimerPending (now + remaining))\<rparr>) t))"

definition persist_activity ::
  "string \<Rightarrow> time \<Rightarrow> message_source \<Rightarrow> 'p tracker \<Rightarrow> 'p tracker" where
  "persist_activity name at src t =
     (case tk_store t of
        None \<Rightarrow> t
      | Some st \<Rightarrow>
          t\<lparr>tk_store := Some (snd (rs_update name
               (\<lambda>s. ((), s\<lparr>rs_last_message_at := at, rs_last_message_source := src\<rparr>)) st))\<rparr>)"

definition message_received_from ::
  "string \<Rightarrow> message_source \<Rightarrow> time \<Rightarrow> 'p tracker \<Rightarrow> 'p tracker" where
  "message_received_from name src now t =
     persist_activity name now src
       (put_entry name ((tk_entry t name)\<lparr>av_last_at := now, av_last_source := src, av_timer := None\<rparr>) t)"

definition message_received :: "string \<Rightarrow> time \<Rightarrow> 'p tracker \<Rightarrow> 'p tracker" where
  "message_received name now t = message_received_from name (SourceOther []) now t"

definition turn_started :: "string \<Rightarrow> 'p tracker \<Rightarrow> 'p tracker" where
  "turn_started name t =
     put_entry name ((tk_entry t name)\<lparr>av_processing := True, av_timer := None\<rparr>) t"

definition turn_ended :: "string \<Rightarrow> time \<Rightarrow> 'p tracker \<Rightarrow> 'p tracker" where
  "turn_ended name now t = schedule_idle_check name now ((tk_entry t name)\<lparr>av_processing := False\<rparr>) t"

text \<open>The results are whether the channel is busy and whether it is known at all.\<close>

definition is_busy_with_timeout :: "string \<Rightarrow> duration \<Rightarrow> time \<Rightarrow> 'p tracker \<Rightarrow> bool \<times> bool" where
  "is_busy_with_timeout name timeout now t =
     (case map_of (tk_entries t) name of
        None \<Rightarrow> (False, False)
      | Some e \<Rightarrow> (av_processing e \<or> time_sub now (av_last_at e) < timeout, True))"

definition is_busy :: "string \<Rightarrow> time \<Rightarrow> 'p tracker \<Rightarrow> bool \<times> bool" where
  "is_busy name now t = is_busy_with_timeout name default_idle_timeout now t"

definition notify_idle :: "string \<Rightarrow> time \<Rightarrow> 'p tracker \<Rightarrow> nat \<times> 'p tracker" where
  "notify_idle name now t =
     (let ch = tk_next t; t1 = t\<lparr>tk_next := Suc ch\<rparr>
      in case map_of (tk_entries t1) name of
           None \<Rightarrow> (ch, t1\<lparr>tk_closed := tk_closed t1 @ [ch]\<rparr>)
         | Some e \<Rightarrow>
             if \<not> activity_busy now e then (ch, t1\<lparr>tk_closed := tk_closed t1 @ [ch]\<rparr>)
             else
               (let e1 = e\<lparr>av_waiters := av_waiters e @ [ch]\<rparr>
                in if \<not> av_processing e1 \<and> av_timer e1 = None
                   then (ch, schedule_idle_check name now e1 t1)
                   else (ch, put_entry name e1 t1)))"

text \<open>The timer's callback, run when its time has come; \<open>None\<close> where no timer is due.\<close>

definition idle_timer_fires :: "string \<Rightarrow> time \<Rightarrow> 'p tracker \<Rightarrow> 'p tracker option" where
  "idle_timer_fires name now t =
     (case map_of (tk_entries t) name of
        None \<Rightarrow> None
      | Some e \<Rightarrow>
          (case av_timer e of
             Some (TimerPending d) \<Rightarrow>
               if d \<le> now then
                 (let e1 = e\<lparr>av_timer := Some TimerFired\<rparr>
                  in Some (if \<not> activity_busy now e1 then signal_waiters name e1 t else put_entry name e1 t))
               else None
           | _ \<Rightarrow> None))"

definition load_entry :: "string \<Rightarrow> 'p tracker \<Rightarrow> 'p tracker" where
  "load_entry name t =
     (case tk_store t of
        None \<Rightarrow> t
      | Some st \<Rightarrow>
          (case rs_get name st of
             (Inl e, st') \<Rightarrow> t\<lparr>tk_store := Some st'\<rparr>
           | (Inr rs, st') \<Rightarrow>
               if rs_last_message_at rs = 0 then t\<lparr>tk_store := Some st'\<rparr>
               else put_entry name
                      (new_activity\<lparr>av_last_at := rs_last_message_at rs, av_last_source := rs_last_message_source rs\<rparr>)
                      (t\<lparr>tk_store := Some st'\<rparr>)))"

definition new_persisted_tracker :: "'p runtime_state store \<Rightarrow> string list \<Rightarrow> 'p tracker" where
  "new_persisted_tracker st names = fold load_entry names (new_tracker\<lparr>tk_store := Some st\<rparr>)"

subsection \<open>The interface\<close>

text \<open>
  What a client that waits for idle channels relies on: a channel handed out by \<open>notify\<close> is
  closed at once exactly when the channel is not busy, asking wakes nobody else and changes
  nobody's busyness, and every channel handed out is new.
\<close>

locale idle_notifier =
  fixes busy :: "string \<Rightarrow> time \<Rightarrow> 's \<Rightarrow> bool"
    and notify :: "string \<Rightarrow> time \<Rightarrow> 's \<Rightarrow> nat \<times> 's"
    and closed :: "'s \<Rightarrow> nat set"
    and handed_out :: "'s \<Rightarrow> nat"
  assumes notify_new: "notify n now s = (w, s') \<Longrightarrow> w = handed_out s \<and> handed_out s' = Suc (handed_out s)"
    and notify_closed: "notify n now s = (w, s') \<Longrightarrow> \<forall>v \<in> closed s. v < handed_out s \<Longrightarrow>
           closed s' = closed s \<union> (if busy n now s then {} else {w})"
    and notify_busy: "notify n now s = (w, s') \<Longrightarrow> busy m at' s' = busy m at' s"
begin

lemma closed_at_once_iff:
  assumes "notify n now s = (w, s')" and "\<forall>v \<in> closed s. v < handed_out s"
  shows "w \<in> closed s' \<longleftrightarrow> \<not> busy n now s"
  using notify_new [OF assms(1)] notify_closed [OF assms] assms(2) by auto

lemma closed_bound:
  assumes "notify n now s = (w, s')" and "\<forall>v \<in> closed s. v < handed_out s"
  shows "\<forall>v \<in> closed s'. v < handed_out s'"
  using notify_new [OF assms(1)] notify_closed [OF assms] assms(2) by (auto split: if_splits)

lemma asked_twice_same_answer:
  assumes "notify n now s = (w, s')" and "notify n now s' = (w', s'')"
    and "\<forall>v \<in> closed s. v < handed_out s"
  shows "w' \<noteq> w \<and> (w' \<in> closed s'' \<longleftrightarrow> w \<in> closed s')"
  using closed_at_once_iff [OF assms(1,3)] closed_at_once_iff [OF assms(2) closed_bound [OF assms(1,3)]]
    notify_new [OF assms(1)] notify_new [OF assms(2)] notify_busy [OF assms(1)] by auto

end

lemma put_entry_simps [simp]:
  "map_of (tk_entries (put_entry n e t)) m = (if m = n then Some e else map_of (tk_entries t) m)"
  "tk_closed (put_entry n e t) = tk_closed t" "tk_next (put_entry n e t) = tk_next t"
  "tk_store (put_entry n e t) = tk_store t"
  by (simp_all add: put_entry_def update_conv')

lemma busy_def: "fst (is_busy n now t) = (case map_of (tk_entries t) n of None \<Rightarrow> False | Some e \<Rightarrow> activity_busy now e)"
  by (simp add: is_busy_def is_busy_with_timeout_def activity_busy_def split: option.split)

lemma busy_remaining:
  "activity_busy now e \<Longrightarrow> \<not> av_processing e \<Longrightarrow> 0 < default_idle_timeout - time_sub now (av_last_at e)"
  by (simp add: activity_busy_def)

interpretation idle: idle_notifier "\<lambda>n now t. fst (is_busy n now t)" notify_idle "\<lambda>t. set (tk_closed t)" tk_next
proof unfold_locales
  fix n m :: string and now at' :: time and s s' :: "'p tracker" and w
  assume a: "notify_idle n now s = (w, s')"
  show "w = tk_next s \<and> tk_next s' = Suc (tk_next s)"
    using a by (auto simp: notify_idle_def Let_def schedule_idle_check_def signal_waiters_def
        split: option.splits if_splits)
  show "fst (is_busy m at' s') = fst (is_busy m at' s)"
    using a by (auto simp: notify_idle_def Let_def schedule_idle_check_def signal_waiters_def busy_def
        activity_busy_def split: option.splits if_splits)
  show "set (tk_closed s') = set (tk_closed s) \<union> (if fst (is_busy n now s) then {} else {w})"
    if "\<forall>v \<in> set (tk_closed s). v < tk_next s"
    using a by (auto simp: notify_idle_def Let_def schedule_idle_check_def signal_waiters_def busy_def
        split: option.splits if_splits dest!: busy_remaining)
qed

subsection \<open>Runs of the tracker\<close>

datatype activity_event =
    MessageArrives message_source | TurnStarts | TurnEnds | IdleAsked | TimerDue

definition tracker_step :: "string \<Rightarrow> activity_event \<Rightarrow> time \<Rightarrow> 'p tracker \<Rightarrow> 'p tracker" where
  "tracker_step n ev now t =
     (case ev of
        MessageArrives src \<Rightarrow> message_received_from n src now t
      | TurnStarts \<Rightarrow> turn_started n t
      | TurnEnds \<Rightarrow> turn_ended n now t
      | IdleAsked \<Rightarrow> snd (notify_idle n now t)
      | TimerDue \<Rightarrow> (case idle_timer_fires n now t of None \<Rightarrow> t | Some t' \<Rightarrow> t'))"

text \<open>
  The trackers a run of events at rising times can reach from a fresh one, or from one loaded from
  the store with no time of a message in the future.
\<close>

inductive tracker_reached :: "time \<Rightarrow> 'p tracker \<Rightarrow> bool" where
  fresh: "0 \<le> now \<Longrightarrow> tracker_reached now (new_tracker\<lparr>tk_store := st\<rparr>)"
| loaded: "0 \<le> now \<Longrightarrow> \<forall>(n, e) \<in> set (tk_entries (new_persisted_tracker st names)). 0 \<le> av_last_at e \<and> av_last_at e \<le> now \<Longrightarrow>
    tracker_reached now (new_persisted_tracker st names)"
| step: "tracker_reached now t \<Longrightarrow> now \<le> now' \<Longrightarrow> tracker_reached now' (tracker_step n ev now' t)"

definition timer_ok :: "time \<Rightarrow> channel_activity \<Rightarrow> bool" where
  "timer_ok now e =
     (0 \<le> av_last_at e \<and> av_last_at e \<le> now \<and>
      (case av_timer e of
         None \<Rightarrow> True
       | Some (TimerPending d) \<Rightarrow> \<not> av_processing e \<and> d = av_last_at e + default_idle_timeout
       | Some TimerFired \<Rightarrow> \<not> av_processing e \<and> av_last_at e + default_idle_timeout \<le> now))"

definition timers_ok :: "time \<Rightarrow> 'p tracker \<Rightarrow> bool" where
  "timers_ok now t =
     (0 \<le> now \<and> (\<forall>n e. map_of (tk_entries t) n = Some e \<longrightarrow> timer_ok now e) \<and>
      (\<forall>v \<in> set (tk_closed t). v < tk_next t))"

lemma timer_ok_later: "timer_ok now e \<Longrightarrow> now \<le> now' \<Longrightarrow> timer_ok now' e"
  by (auto simp: timer_ok_def split: option.splits idle_timer.splits)

lemma timers_ok_later: "timers_ok now t \<Longrightarrow> now \<le> now' \<Longrightarrow> timers_ok now' t"
  by (auto simp: timers_ok_def intro: timer_ok_later)

lemma timeout_bounds [simp]: "0 < default_idle_timeout" "default_idle_timeout < max_duration" "min_duration < 0"
  by (simp_all add: default_idle_timeout_def minute_def second_def max_duration_def min_duration_def)

lemma recent_sub:
  "last_at \<le> now \<Longrightarrow> time_sub now last_at < default_idle_timeout \<longleftrightarrow> now - last_at < default_idle_timeout"
  "last_at \<le> now \<Longrightarrow> time_sub now last_at < default_idle_timeout \<Longrightarrow> time_sub now last_at = now - last_at"
  by (auto simp: time_sub_def max_duration_def min_duration_def default_idle_timeout_def minute_def second_def)

lemma timer_ok_simps [simp]:
  "timer_ok now (e\<lparr>av_waiters := ws\<rparr>) = timer_ok now e"
  "timer_ok now (e\<lparr>av_timer := None\<rparr>) = (0 \<le> av_last_at e \<and> av_last_at e \<le> now)"
  "timer_ok now (e\<lparr>av_timer := Some (TimerPending d)\<rparr>) =
     (0 \<le> av_last_at e \<and> av_last_at e \<le> now \<and> \<not> av_processing e \<and> d = av_last_at e + default_idle_timeout)"
  "timer_ok now (e\<lparr>av_timer := Some TimerFired\<rparr>) =
     (0 \<le> av_last_at e \<and> av_last_at e \<le> now \<and> \<not> av_processing e \<and>
      av_last_at e + default_idle_timeout \<le> now)"
  by (simp_all add: timer_ok_def split: option.split idle_timer.split)

lemma timer_ok_last: "timer_ok now e \<Longrightarrow> 0 \<le> av_last_at e \<and> av_last_at e \<le> now"
  by (simp add: timer_ok_def)

lemma timer_ok_new: "timer_ok now new_activity \<longleftrightarrow> 0 \<le> now"
  by (simp add: timer_ok_def new_activity_def)

lemma timer_ok_entry: "timers_ok now t \<Longrightarrow> timer_ok now (tk_entry t n)"
  by (cases "map_of (tk_entries t) n") (simp_all add: timers_ok_def tk_entry_def timer_ok_new)

lemma timers_ok_put: "timers_ok now t \<Longrightarrow> timer_ok now e \<Longrightarrow> timers_ok now (put_entry n e t)"
  by (auto simp: timers_ok_def)

lemma timers_ok_cong:
  "timers_ok now t \<Longrightarrow> tk_entries t' = tk_entries t \<Longrightarrow> (\<forall>v \<in> set (tk_closed t'). v < tk_next t') \<Longrightarrow> timers_ok now t'"
  by (simp add: timers_ok_def)

text \<open>A waiter in an entry has been handed out.\<close>

definition waiters_known :: "'p tracker \<Rightarrow> bool" where
  "waiters_known t = (\<forall>n e. map_of (tk_entries t) n = Some e \<longrightarrow> (\<forall>v \<in> set (av_waiters e). v < tk_next t))"

lemma waiters_known_entry: "waiters_known t \<Longrightarrow> v \<in> set (av_waiters (tk_entry t n)) \<Longrightarrow> v < tk_next t"
  by (auto simp: waiters_known_def tk_entry_def new_activity_def split: option.splits)

lemma waiters_known_put:
  "waiters_known t \<Longrightarrow> (\<And>v. v \<in> set (av_waiters e) \<Longrightarrow> v < tk_next t) \<Longrightarrow> waiters_known (put_entry n e t)"
  by (auto simp: waiters_known_def)

lemma persist_simps [simp]:
  "tk_entries (persist_activity n at' src t) = tk_entries t"
  "tk_closed (persist_activity n at' src t) = tk_closed t" "tk_next (persist_activity n at' src t) = tk_next t"
  by (simp_all add: persist_activity_def split: option.split)

lemma signal_ok:
  assumes "timers_ok now t" and "waiters_known t" and "timer_ok now e"
    and "\<And>v. v \<in> set (av_waiters e) \<Longrightarrow> v < tk_next t"
  shows "timers_ok now (signal_waiters n e t) \<and> waiters_known (signal_waiters n e t)"
proof -
  let ?t = "t\<lparr>tk_closed := tk_closed t @ av_waiters e\<rparr>"
  have "timers_ok now ?t" "waiters_known ?t"
    using assms by (auto simp: timers_ok_def waiters_known_def)
  moreover have "timer_ok now (e\<lparr>av_waiters := []\<rparr>)" using assms(3) by simp
  ultimately show ?thesis
    by (auto simp: signal_waiters_def intro!: timers_ok_put waiters_known_put)
qed

lemma schedule_ok:
  assumes "timers_ok now t" and "waiters_known t" and "timer_ok now e" and "\<not> av_processing e"
    and "\<And>v. v \<in> set (av_waiters e) \<Longrightarrow> v < tk_next t"
  shows "timers_ok now (schedule_idle_check n now e t) \<and> waiters_known (schedule_idle_check n now e t)"
proof -
  let ?r = "default_idle_timeout - time_sub now (av_last_at e)"
  have last: "av_last_at e \<le> now" "0 \<le> av_last_at e" using assms(3) by (simp_all add: timer_ok_def)
  have off: "timer_ok now (e\<lparr>av_timer := None\<rparr>)" using last by (simp add: timer_ok_def)
  show ?thesis
  proof (cases "av_waiters e = []")
    case True
    with assms off show ?thesis
      by (auto simp: schedule_idle_check_def Let_def intro!: timers_ok_put waiters_known_put)
  next
    case waiting: False
    show ?thesis
    proof (cases "?r \<le> 0")
      case True
      with waiting off assms show ?thesis
        using signal_ok [of now t "e\<lparr>av_timer := None\<rparr>" n] by (simp add: schedule_idle_check_def Let_def)
    next
      case False
      then have "now + ?r = av_last_at e + default_idle_timeout"
        using recent_sub(2) [OF last(1)] by simp
      then have "timer_ok now (e\<lparr>av_timer := Some (TimerPending (now + ?r))\<rparr>)"
        using last assms(4) by (simp add: timer_ok_def)
      with False waiting assms show ?thesis
        by (auto simp: schedule_idle_check_def Let_def intro!: timers_ok_put waiters_known_put)
    qed
  qed
qed

lemma step_ok:
  assumes "timers_ok now t" and "waiters_known t"
  shows "timers_ok now (tracker_step n ev now t) \<and> waiters_known (tracker_step n ev now t)"
proof (cases ev)
  case (MessageArrives src)
  let ?e = "(tk_entry t n)\<lparr>av_last_at := now, av_last_source := src, av_timer := None\<rparr>"
  have "timer_ok now ?e" using assms(1) by (simp add: timer_ok_def timers_ok_def)
  with assms have "timers_ok now (put_entry n ?e t)" "waiters_known (put_entry n ?e t)"
    by (auto intro!: timers_ok_put waiters_known_put dest: waiters_known_entry)
  then show ?thesis
    by (simp add: MessageArrives tracker_step_def message_received_from_def timers_ok_def waiters_known_def)
next
  case TurnStarts
  have "timer_ok now ((tk_entry t n)\<lparr>av_processing := True, av_timer := None\<rparr>)"
    using timer_ok_entry [OF assms(1), of n] by (simp add: timer_ok_def)
  with assms TurnStarts show ?thesis
    by (auto simp: tracker_step_def turn_started_def intro!: timers_ok_put waiters_known_put dest: waiters_known_entry)
next
  case TurnEnds
  have "timer_ok now ((tk_entry t n)\<lparr>av_processing := False\<rparr>)"
    using timer_ok_entry [OF assms(1), of n] by (auto simp: timer_ok_def split: option.splits idle_timer.splits)
  moreover have "v < tk_next t" if "v \<in> set (av_waiters ((tk_entry t n)\<lparr>av_processing := False\<rparr>))" for v
    using that waiters_known_entry [OF assms(2)] by simp
  ultimately show ?thesis
    using TurnEnds schedule_ok [OF assms, of "(tk_entry t n)\<lparr>av_processing := False\<rparr>" n]
    by (simp add: tracker_step_def turn_ended_def)
next
  case IdleAsked
  let ?ch = "tk_next t" and ?t1 = "t\<lparr>tk_next := Suc (tk_next t)\<rparr>"
  have t1: "timers_ok now ?t1" "waiters_known ?t1" "timers_ok now (?t1\<lparr>tk_closed := tk_closed t @ [?ch]\<rparr>)"
      "waiters_known (?t1\<lparr>tk_closed := tk_closed t @ [?ch]\<rparr>)"
    using assms by (auto simp: timers_ok_def waiters_known_def less_Suc_eq)
  show ?thesis
  proof (cases "map_of (tk_entries t) n")
    case None
    with IdleAsked t1 show ?thesis by (simp add: tracker_step_def notify_idle_def Let_def)
  next
    case (Some e)
    let ?e = "e\<lparr>av_waiters := av_waiters e @ [?ch]\<rparr>"
    have "timer_ok now ?e" using assms(1) Some by (simp add: timers_ok_def)
    moreover have "v < tk_next ?t1" if "v \<in> set (av_waiters ?e)" for v
      using that assms(2) Some by (auto simp: waiters_known_def less_Suc_eq)
    ultimately show ?thesis
      using IdleAsked Some t1 schedule_ok [OF t1(1,2), of ?e n] timers_ok_put [OF t1(1), of ?e n]
        waiters_known_put [OF t1(2), of ?e n]
      by (simp add: tracker_step_def notify_idle_def Let_def)
  qed
next
  case TimerDue
  show ?thesis
  proof (cases "idle_timer_fires n now t")
    case None
    with TimerDue assms show ?thesis by (simp add: tracker_step_def)
  next
    case (Some t')
    then obtain e d where e: "map_of (tk_entries t) n = Some e" "av_timer e = Some (TimerPending d)" "d \<le> now"
      and t': "t' = (if \<not> activity_busy now (e\<lparr>av_timer := Some TimerFired\<rparr>)
                     then signal_waiters n (e\<lparr>av_timer := Some TimerFired\<rparr>) t
                     else put_entry n (e\<lparr>av_timer := Some TimerFired\<rparr>) t)"
      by (auto simp: idle_timer_fires_def Let_def split: option.splits idle_timer.splits if_splits)
    have ok: "timer_ok now e" using assms(1) e(1) by (simp add: timers_ok_def)
    have "timer_ok now (e\<lparr>av_timer := Some TimerFired\<rparr>)"
      using ok e by (simp add: timer_ok_def)
    moreover have "v < tk_next t" if "v \<in> set (av_waiters (e\<lparr>av_timer := Some TimerFired\<rparr>))" for v
      using that assms(2) e by (auto simp: waiters_known_def)
    ultimately show ?thesis
      using TimerDue Some t' assms signal_ok [OF assms, of "e\<lparr>av_timer := Some TimerFired\<rparr>" n]
        timers_ok_put [OF assms(1), of "e\<lparr>av_timer := Some TimerFired\<rparr>" n]
        waiters_known_put [OF assms(2), of "e\<lparr>av_timer := Some TimerFired\<rparr>" n]
      by (simp add: tracker_step_def)
  qed
qed

text \<open>What is loaded has no timer and nobody waiting.\<close>

definition freshly_loaded :: "'p tracker \<Rightarrow> bool" where
  "freshly_loaded t =
     (tk_closed t = [] \<and>
      (\<forall>n e. map_of (tk_entries t) n = Some e \<longrightarrow> \<not> av_processing e \<and> av_timer e = None \<and> av_waiters e = []))"

lemma load_entry_fresh: "freshly_loaded t \<Longrightarrow> freshly_loaded (load_entry n t)"
  by (auto simp: freshly_loaded_def load_entry_def new_activity_def split: option.split sum.split prod.split)

lemma loaded_fresh: "freshly_loaded (new_persisted_tracker st names)"
proof -
  have "freshly_loaded (fold load_entry names t)" if "freshly_loaded t" for t
    using that by (induction names arbitrary: t) (simp_all add: load_entry_fresh)
  moreover have "freshly_loaded (new_tracker\<lparr>tk_store := Some st\<rparr>)"
    by (simp add: freshly_loaded_def new_tracker_def)
  ultimately show ?thesis by (simp add: new_persisted_tracker_def)
qed

lemma reached_ok: "tracker_reached now t \<Longrightarrow> timers_ok now t \<and> waiters_known t"
proof (induction rule: tracker_reached.induct)
  case (fresh now st)
  then show ?case by (simp add: timers_ok_def waiters_known_def new_tracker_def)
next
  case (loaded now st names)
  have "timer_ok now e \<and> av_waiters e = []" if "map_of (tk_entries (new_persisted_tracker st names)) n = Some e" for n e
    using loaded(2) loaded_fresh [of st names] that map_of_SomeD [OF that] by (auto simp: timer_ok_def freshly_loaded_def)
  with loaded(1) loaded_fresh [of st names] show ?case
    by (auto simp: timers_ok_def waiters_known_def freshly_loaded_def)
next
  case (step now t now' n ev)
  then show ?case using step_ok [OF timers_ok_later] by blast
qed

subsection \<open>Nobody waits for ever\<close>

text \<open>
  A waiter is woken when its channel is closed now, or will be by the pending timer at the
  moment the channel's cooldown ends.
\<close>

definition woken_in_time :: "string \<Rightarrow> nat \<Rightarrow> 'p tracker \<Rightarrow> bool" where
  "woken_in_time name w t =
     (w \<in> set (tk_closed t) \<or>
      (case idle_timer_fires name (av_last_at (tk_entry t name) + default_idle_timeout) t of
         None \<Rightarrow> False
       | Some t' \<Rightarrow> w \<in> set (tk_closed t')))"

lemma tk_entry_put [simp]: "tk_entry (put_entry n e t) m = (if m = n then e else tk_entry t m)"
  by (simp add: tk_entry_def)

lemma pending_timer_wakes:
  assumes "map_of (tk_entries t) n = Some e" and "w \<in> set (av_waiters e)"
    and "av_timer e = Some (TimerPending (av_last_at e + default_idle_timeout))" and "\<not> av_processing e"
  shows "woken_in_time n w t"
  using assms recent_sub(1) [of "av_last_at e" "av_last_at e + default_idle_timeout"]
    order_less_imp_le [OF timeout_bounds(1)]
  by (simp add: woken_in_time_def tk_entry_def idle_timer_fires_def Let_def activity_busy_def signal_waiters_def)

lemma schedule_wakes:
  assumes "timer_ok now e" and "\<not> av_processing e" and "w \<in> set (av_waiters e)"
  shows "woken_in_time n w (schedule_idle_check n now e t)"
proof (cases "default_idle_timeout - time_sub now (av_last_at e) \<le> 0")
  case True
  with assms(3) show ?thesis
    by (auto simp: schedule_idle_check_def Let_def signal_waiters_def woken_in_time_def)
next
  case False
  let ?e = "e\<lparr>av_timer := Some (TimerPending (av_last_at e + default_idle_timeout))\<rparr>"
  let ?d = "now + (default_idle_timeout - time_sub now (av_last_at e))"
  have d: "?d = av_last_at e + default_idle_timeout"
    using False recent_sub(2) [of "av_last_at e" now] timer_ok_last [OF assms(1)] by simp
  have "schedule_idle_check n now e t = put_entry n (e\<lparr>av_timer := Some (TimerPending ?d)\<rparr>) t"
    using False assms(3) by (auto simp: schedule_idle_check_def Let_def)
  also have "\<dots> = put_entry n ?e t" by (simp only: d)
  finally have "schedule_idle_check n now e t = put_entry n ?e t" .
  with assms pending_timer_wakes [of "put_entry n ?e t" n ?e w] show ?thesis by simp
qed

lemma fired_not_busy:
  "timer_ok now e \<Longrightarrow> av_timer e = Some TimerFired \<Longrightarrow> \<not> activity_busy now e"
  using recent_sub(1) [of "av_last_at e" now] by (auto simp: timer_ok_def activity_busy_def)

text \<open>
  Events on any channels after the asking. \<open>message_last\<close>: of the messages and of the starts and ends
  of turns on the channel, the latest is a message.
\<close>

definition tracker_after :: "(string \<times> activity_event \<times> time) list \<Rightarrow> 'p tracker \<Rightarrow> 'p tracker" where
  "tracker_after evs t = fold (\<lambda>(n, ev, now). tracker_step n ev now) evs t"

fun is_message :: "activity_event \<Rightarrow> bool" where
  "is_message (MessageArrives src) = True"
| "is_message _ = False"

definition message_last :: "string \<Rightarrow> (string \<times> activity_event \<times> time) list \<Rightarrow> bool" where
  "message_last name evs =
     (case filter (\<lambda>(n, ev, now). n = name \<and> (is_message ev \<or> ev \<in> {TurnStarts, TurnEnds})) (rev evs) of
        [] \<Rightarrow> False
      | (n, ev, now) # _ \<Rightarrow> is_message ev)"

lemma message_last_snoc:
  "message_last name (evs @ [(n, ev, now)]) =
     (if n = name \<and> (is_message ev \<or> ev \<in> {TurnStarts, TurnEnds}) then is_message ev else message_last name evs)"
  by (cases ev) (simp_all add: message_last_def)

text \<open>Why a waiter that has not been told is still waiting.\<close>

definition waits_with_cause :: "string \<Rightarrow> nat \<Rightarrow> bool \<Rightarrow> 'p tracker \<Rightarrow> bool" where
  "waits_with_cause name w stranded t =
     (w \<in> set (tk_closed t) \<or>
      (\<exists>e. map_of (tk_entries t) name = Some e \<and> w \<in> set (av_waiters e) \<and>
         (av_processing e \<or> av_timer e = Some (TimerPending (av_last_at e + default_idle_timeout)) \<or> stranded)))"

lemma closed_grows: "set (tk_closed t) \<subseteq> set (tk_closed (tracker_step n ev now t))"
  by (cases ev)
    (auto simp: tracker_step_def message_received_from_def turn_started_def turn_ended_def schedule_idle_check_def
      signal_waiters_def notify_idle_def idle_timer_fires_def Let_def split: option.splits idle_timer.splits if_splits)

lemma step_elsewhere:
  "n \<noteq> name \<Longrightarrow> map_of (tk_entries (tracker_step n ev now t)) name = map_of (tk_entries t) name"
  by (cases ev)
    (auto simp: tracker_step_def message_received_from_def turn_started_def turn_ended_def schedule_idle_check_def
      signal_waiters_def notify_idle_def idle_timer_fires_def Let_def split: option.splits idle_timer.splits if_splits)

lemma schedule_with_cause:
  assumes "timer_ok now (e\<lparr>av_timer := None\<rparr>)" and "w \<in> set (av_waiters e)"
  shows "waits_with_cause n w b (schedule_idle_check n now e t)"
proof (cases "default_idle_timeout - time_sub now (av_last_at e) \<le> 0")
  case True
  with assms(2) show ?thesis
    by (auto simp: schedule_idle_check_def Let_def signal_waiters_def waits_with_cause_def)
next
  case False
  moreover have "now + (default_idle_timeout - time_sub now (av_last_at e)) = av_last_at e + default_idle_timeout"
    using False recent_sub(2) [of "av_last_at e" now] timer_ok_last [OF assms(1)] by simp
  ultimately show ?thesis
    using assms(2) by (auto simp: schedule_idle_check_def Let_def waits_with_cause_def)
qed

lemma step_with_cause:
  assumes "timers_ok now t" and "waits_with_cause name w b t"
  shows "waits_with_cause name w
    (if n = name \<and> (is_message ev \<or> ev \<in> {TurnStarts, TurnEnds}) then is_message ev else b) (tracker_step n ev now t)"
proof (cases "w \<in> set (tk_closed t)")
  case True
  with closed_grows [of t n ev now] have "w \<in> set (tk_closed (tracker_step n ev now t))" by blast
  then show ?thesis by (simp add: waits_with_cause_def)
next
  case False
  with assms(2) obtain e where e: "map_of (tk_entries t) name = Some e" "w \<in> set (av_waiters e)"
    and cause: "av_processing e \<or> av_timer e = Some (TimerPending (av_last_at e + default_idle_timeout)) \<or> b"
    by (auto simp: waits_with_cause_def)
  have ok: "timer_ok now e" using assms(1) e(1) by (simp add: timers_ok_def)
  have here: "tk_entry t name = e" by (simp add: tk_entry_def e)
  show ?thesis
  proof (cases "n = name")
    case other: False
    then show ?thesis using step_elsewhere [of n name ev now t] e cause by (auto simp: waits_with_cause_def)
  next
    case n: True
    show ?thesis
    proof (cases ev)
      case (MessageArrives src)
      then show ?thesis using e(2) by (simp add: n waits_with_cause_def tracker_step_def message_received_from_def here)
    next
      case TurnStarts
      then show ?thesis using e(2) by (simp add: n waits_with_cause_def tracker_step_def turn_started_def here)
    next
      case TurnEnds
      have "timer_ok now (e\<lparr>av_processing := False, av_timer := None\<rparr>)" using timer_ok_last [OF ok] by simp
      then show ?thesis
        using TurnEnds schedule_with_cause [of now "e\<lparr>av_processing := False\<rparr>" w name False t] e(2)
        by (simp add: n tracker_step_def turn_ended_def here)
    next
      case IdleAsked
      let ?e = "e\<lparr>av_waiters := av_waiters e @ [tk_next t]\<rparr>"
      have "timer_ok now (?e\<lparr>av_timer := None\<rparr>)" using timer_ok_last [OF ok] by simp
      from schedule_with_cause [OF this, of w] e(2)
      have "waits_with_cause name w b (schedule_idle_check name now ?e (t\<lparr>tk_next := Suc (tk_next t)\<rparr>))" by simp
      then show ?thesis
        using IdleAsked e cause by (auto simp: n tracker_step_def notify_idle_def Let_def waits_with_cause_def)
    next
      case TimerDue
      have "\<not> activity_busy now (e\<lparr>av_timer := Some TimerFired\<rparr>)"
        if "av_timer e = Some (TimerPending d)" "d \<le> now" for d
        using that ok recent_sub(1) [of "av_last_at e" now] by (auto simp: timer_ok_def activity_busy_def)
      with TimerDue e cause show ?thesis
        by (auto simp: n tracker_step_def idle_timer_fires_def Let_def signal_waiters_def waits_with_cause_def
            split: option.splits idle_timer.splits if_splits)
    qed
  qed
qed

lemma after_with_cause:
  assumes "timers_ok now t \<and> waiters_known t" and "sorted (now # map (\<lambda>(n, ev, at'). at') evs)"
    and "waits_with_cause name w False t"
  shows "waits_with_cause name w (message_last name evs) (tracker_after evs t) \<and>
    (\<exists>later. timers_ok later (tracker_after evs t) \<and> waiters_known (tracker_after evs t) \<and>
       (\<forall>(n, ev, at') \<in> set evs. at' \<le> later) \<and> (later = now \<or> later \<in> (\<lambda>(n, ev, at'). at') ` set evs))"
  using assms(2)
proof (induction evs rule: rev_induct)
  case Nil
  with assms(1,3) show ?case by (auto simp: tracker_after_def message_last_def)
next
  case (snoc x evs)
  obtain n ev at' where x: "x = (n, ev, at')" by (cases x)
  from snoc.prems have sorted: "sorted (now # map (\<lambda>(n, ev, at'). at') evs)"
    and last: "now \<le> at'" "\<forall>(n, ev, at'') \<in> set evs. at'' \<le> at'"
    by (auto simp: x sorted_append)
  let ?t = "tracker_after evs t"
  from snoc.IH [OF sorted] obtain later where ok: "timers_ok later ?t" "waiters_known ?t"
    and "later = now \<or> later \<in> (\<lambda>(n, ev, at'). at') ` set evs"
    and cause: "waits_with_cause name w (message_last name evs) ?t" by blast
  with last have "later \<le> at'" by auto
  then have ok': "timers_ok at' ?t" using ok(1) timers_ok_later by blast
  have after: "tracker_after (evs @ [x]) t = tracker_step n ev at' ?t" by (simp add: tracker_after_def x)
  have "waits_with_cause name w (message_last name (evs @ [x])) (tracker_after (evs @ [x]) t)"
    using step_with_cause [OF ok' cause, of n ev] by (simp only: after, simp only: x message_last_snoc)
  moreover have "timers_ok at' (tracker_after (evs @ [x]) t) \<and> waiters_known (tracker_after (evs @ [x]) t)"
    unfolding after by (rule step_ok [OF ok' ok(2)])
  ultimately show ?case using last by (auto simp: x)
qed

lemma notify_with_cause:
  assumes "timers_ok now t" and "notify_idle name now t = (w, t')"
  shows "waits_with_cause name w False t'"
proof (cases "map_of (tk_entries t) name")
  case None
  with assms(2) show ?thesis by (auto simp: notify_idle_def Let_def waits_with_cause_def)
next
  case (Some e)
  have ok: "timer_ok now e" using assms(1) Some by (simp add: timers_ok_def)
  let ?w = "tk_next t" and ?t1 = "t\<lparr>tk_next := Suc (tk_next t)\<rparr>"
  let ?e = "e\<lparr>av_waiters := av_waiters e @ [?w]\<rparr>"
  show ?thesis
  proof (cases "activity_busy now e")
    case False
    with assms(2) Some show ?thesis by (auto simp: notify_idle_def Let_def waits_with_cause_def)
  next
    case busy: True
    consider "av_processing e" | "\<not> av_processing e" "av_timer e = None"
      | d where "\<not> av_processing e" "av_timer e = Some (TimerPending d)"
      using fired_not_busy [OF ok] busy by (metis idle_timer.exhaust option.exhaust)
    then show ?thesis
    proof cases
      case 1
      with assms(2) Some busy show ?thesis by (auto simp: notify_idle_def Let_def waits_with_cause_def)
    next
      case 2
      have "timer_ok now (?e\<lparr>av_timer := None\<rparr>)" using timer_ok_last [OF ok] by simp
      from schedule_with_cause [OF this, of ?w name False ?t1] assms(2) Some busy 2 show ?thesis
        by (auto simp: notify_idle_def Let_def)
    next
      case 3
      then have "d = av_last_at e + default_idle_timeout" using ok by (simp add: timer_ok_def)
      with assms(2) Some busy 3 show ?thesis by (auto simp: notify_idle_def Let_def waits_with_cause_def)
    qed
  qed
qed

text \<open>
  C35. Whoever waits for an idle channel waits for a reason. Take a tracker that a run has reached, from
  a fresh one or from one loaded from the store, somebody who asks to be told when a channel is
  idle, and any events after that, on this channel and others, at rising times. Then at the end the
  waiter has been told, or a turn is running on the channel, or the timer is pending that tells it
  at the end of the channel's cooldown - or the latest of the messages and turns on this channel
  since the asking is a message. The last case is real: a message stops the timer, and if no turn
  follows it the waiter is left behind (\<open>message_strands_waiters\<close>).
\<close>

theorem idle_waiter_is_woken:
  assumes "tracker_reached now t" and "notify_idle name now t = (w, t1)"
    and "sorted (now # map (\<lambda>(n, ev, at'). at') evs)"
  shows "w \<in> set (tk_closed (tracker_after evs t1)) \<or> av_processing (tk_entry (tracker_after evs t1) name) \<or>
         woken_in_time name w (tracker_after evs t1) \<or> message_last name evs"
proof -
  have ok: "timers_ok now t" "waiters_known t" using reached_ok [OF assms(1)] by simp_all
  have "timers_ok now t1 \<and> waiters_known t1"
    using step_ok [OF ok, of name IdleAsked] assms(2) by (simp add: tracker_step_def)
  from after_with_cause [OF this assms(3) notify_with_cause [OF ok(1) assms(2)]]
  have "waits_with_cause name w (message_last name evs) (tracker_after evs t1)" by blast
  then show ?thesis using pending_timer_wakes [of "tracker_after evs t1" name _ w]
    by (auto simp: waits_with_cause_def tk_entry_def)
qed

definition asked_tracker :: "unit tracker" where
  "asked_tracker = tracker_step ''admin'' (MessageArrives SourceUser) 5 (new_tracker\<lparr>tk_store := None\<rparr>)"

theorem idle_waiter_is_woken_witness:
  "\<exists>w t1. notify_idle ''admin'' 5 asked_tracker = (w, t1) \<and> tk_closed t1 = [] \<and>
     (let t2 = tracker_after [(''admin'', TurnStarts, 6), (''dev'', MessageArrives SourceUser, 7), (''admin'', TurnEnds, 8)] t1
      in tk_closed t2 = [] \<and> woken_in_time ''admin'' w t2)"
proof -
  let ?evs = "[(''admin'', TurnStarts, 6), (''dev'', MessageArrives SourceUser, 7), (''admin'', TurnEnds, 8 :: time)]"
  obtain w t1 where ask: "notify_idle ''admin'' 5 asked_tracker = (w, t1)" by (rule prod.exhaust)
  have r: "tracker_reached 5 asked_tracker"
    unfolding asked_tracker_def by (rule tracker_reached.step [OF tracker_reached.fresh, of 0]) simp_all
  have t1: "t1 = snd (notify_idle ''admin'' 5 asked_tracker)" by (simp add: ask)
  have "tk_closed t1 = [] \<and> tk_closed (tracker_after ?evs t1) = [] \<and>
      \<not> av_processing (tk_entry (tracker_after ?evs t1) ''admin'') \<and> \<not> message_last ''admin'' ?evs"
    unfolding t1 by code_simp
  moreover have "sorted (5 # map (\<lambda>(n, ev, at'). at') ?evs)" by simp
  ultimately show ?thesis
    using idle_waiter_is_woken [OF r ask, of ?evs] ask by (auto simp: Let_def)
qed

text \<open>
  When a turn ends, everybody who waited for the channel during the turn is woken, at once
  or by the timer that \<open>TurnEnded\<close> arms for the end of the cooldown.
\<close>

lemma turn_end_wakes_waiters:
  assumes "tracker_reached now t" and "w \<in> set (av_waiters (tk_entry t name))"
  shows "woken_in_time name w (turn_ended name now t)"
proof -
  let ?e = "(tk_entry t name)\<lparr>av_processing := False\<rparr>"
  have "timer_ok now (tk_entry t name)" using reached_ok [OF assms(1)] timer_ok_entry by blast
  then have last: "timer_ok now (?e\<lparr>av_timer := None\<rparr>)" using timer_ok_last by simp
  have "turn_ended name now t = schedule_idle_check name now (?e\<lparr>av_timer := None\<rparr>) t"
    by (simp add: turn_ended_def schedule_idle_check_def)
  with schedule_wakes [OF last, of w name t] assms(2) show ?thesis by simp
qed

subsection \<open>What a restart remembers\<close>

lemma rs_get_quiet: "st_io st = [] \<Longrightarrow> rs_get n st = (fst (rs_get n st), st)"
  by (auto simp: rs_get_def store_get_def next_io_def split: option.splits sum.splits)

lemma load_entry_quiet:
  assumes "tk_store t = Some st" and "st_io st = []"
  shows "tk_store (load_entry n t) = Some st"
  using assms(1) rs_get_quiet [OF assms(2), of n]
  by (auto simp: load_entry_def split: sum.splits prod.splits)

lemma load_entry_other:
  "m \<noteq> n \<Longrightarrow> map_of (tk_entries (load_entry n t)) m = map_of (tk_entries t) m"
  by (simp add: load_entry_def split: option.split sum.split prod.split)

lemma load_entry_here:
  assumes "tk_store t = Some st" and "rs_get n st = (Inr rs, st)" and "rs_last_message_at rs \<noteq> 0"
  shows "map_of (tk_entries (load_entry n t)) n =
    Some (new_activity\<lparr>av_last_at := rs_last_message_at rs, av_last_source := rs_last_message_source rs\<rparr>)"
  using assms by (simp add: load_entry_def)

lemma fold_load_entry:
  assumes "st_io st = []" and "rs_get n st = (Inr rs, st)" and "rs_last_message_at rs \<noteq> 0"
  shows "tk_store t = Some st \<Longrightarrow> n \<in> set names \<or> map_of (tk_entries t) n = Some e \<Longrightarrow>
    e = new_activity\<lparr>av_last_at := rs_last_message_at rs, av_last_source := rs_last_message_source rs\<rparr> \<Longrightarrow>
    map_of (tk_entries (fold load_entry names t)) n = Some e"
proof (induction names arbitrary: t)
  case Nil
  then show ?case by simp
next
  case (Cons a names)
  have st: "tk_store (load_entry a t) = Some st"
    using load_entry_quiet [OF Cons.prems(1) assms(1)] .
  have "n \<in> set names \<or> map_of (tk_entries (load_entry a t)) n = Some e"
    using Cons.prems load_entry_here [OF Cons.prems(1) assms(2,3)] load_entry_other [of n a t]
    by (cases "a = n") auto
  with Cons.IH [OF st] Cons.prems(3) show ?case by simp
qed

text \<open>
  The cooldown survives a restart: when the runtime state can be written, a tracker built
  from the store after a message answers every question about the channel's busyness, for any
  timeout and at any later time, as the tracker that took the message does.
\<close>

theorem restart_remembers_activity:
  assumes "writable st (runtime_key name)" and "rs_view st name = Inr rs" and "tk_store t = Some st"
    and "now \<noteq> 0" and "name \<in> set names" and "\<not> av_processing (tk_entry t name)"
  shows "\<exists>st'. tk_store (message_received_from name src now t) = Some st' \<and>
    is_busy_with_timeout name limit later (new_persisted_tracker st' names) =
    is_busy_with_timeout name limit later (message_received_from name src now t)"
proof -
  let ?f = "\<lambda>s. ((), s\<lparr>rs_last_message_at := now, rs_last_message_source := src\<rparr>)"
  obtain st' where st': "rs_update name ?f st = (Inr (), st')" "writable st' (runtime_key name)"
      "rs_view st' name = Inr (rs\<lparr>rs_last_message_at := now, rs_last_message_source := src\<rparr>)"
    using rs_update_writable [OF assms(1,2), of ?f "()"] by auto
  have store: "tk_store (message_received_from name src now t) = Some st'"
    using assms(3) st'(1) by (simp add: message_received_from_def persist_activity_def)
  have io: "st_io st' = []" using st'(2) by (simp add: writable_def)
  have "map_of (tk_entries (new_persisted_tracker st' names)) name =
      Some (new_activity\<lparr>av_last_at := now, av_last_source := src\<rparr>)"
    using fold_load_entry [OF io, of name, OF trans [OF rs_get_writable [OF st'(2)]]] st'(3) assms(4,5)
    by (simp add: new_persisted_tracker_def)
  then show ?thesis
    using store assms(6)
    by (simp add: is_busy_with_timeout_def message_received_from_def new_activity_def)
qed

lemma admin_runtime_key: "safe_path ''/data'' (runtime_key ''admin'') = Some ''/data/channel_runtime/admin''"
  by code_simp

theorem restart_remembers_activity_witness:
  "\<exists>st'. tk_store (message_received_from ''admin'' SourceUser 7
           (new_tracker\<lparr>tk_store := Some (fresh_store :: unit runtime_state store)\<rparr>)) = Some st' \<and>
     is_busy_with_timeout ''admin'' minute 9 (new_persisted_tracker st' [''admin'']) = (True, True)"
proof -
  let ?st = "fresh_store :: unit runtime_state store"
  have w: "writable ?st (runtime_key ''admin'')"
    using fresh_writable [OF admin_runtime_key] by simp
  have v: "rs_view ?st ''admin'' = Inr zero_runtime_state" by (simp add: rs_view_def rs_decode_def)
  have s: "tk_store (new_tracker\<lparr>tk_store := Some ?st\<rparr>) = Some ?st" by simp
  have p: "\<not> av_processing (tk_entry (new_tracker\<lparr>tk_store := Some ?st\<rparr>) ''admin'')"
    by (simp add: tk_entry_def new_tracker_def new_activity_def)
  have "is_busy_with_timeout ''admin'' minute 9 (message_received_from ''admin'' SourceUser 7
      (new_tracker\<lparr>tk_store := Some ?st\<rparr>)) = (True, True)"
    by (simp add: is_busy_with_timeout_def message_received_from_def time_sub_def max_duration_def
        min_duration_def minute_def second_def)
  with restart_remembers_activity [OF w v s _ _ p, of 7 "[''admin'']" SourceUser minute 9]
  show ?thesis by simp
qed

subsection \<open>A message strands the waiters\<close>

text \<open>
  \<open>MessageReceivedFrom\<close> stops the pending timer and arms no other. Whoever waits then is
  woken only if a turn runs on the channel, so a message that starts none (one the confirmation
  prompts consume, say) leaves them waiting past the cooldown.
\<close>

lemma message_strands_waiters:
  assumes "w \<in> set (av_waiters (tk_entry t name))" and "w \<notin> set (tk_closed t)"
  shows "\<not> woken_in_time name w (message_received_from name src now t)"
  using assms by (simp add: woken_in_time_def message_received_from_def idle_timer_fires_def)

end
