(* ===== verification/Queue.thy ===== *)
theory Queue
  imports Activity
begin

text \<open>
  The message queue (\<open>internal/queue/queue.go\<close>) and what the router decides from it at startup
  (\<open>internal/router/resume.go\<close>, \<open>startup.go\<close>). \<open>Next\<close> is a machine: a phase per place where the
  Go code blocks and one step per branch of its selects, so that the events of a run may come
  in every order. A buffered Go channel of one signal is a flag.

  Every step takes one clock reading, and a range over the map of busy channels visits them in
  the order of the queue: the order only decides which waiter gets which number.
\<close>

definition max_batch_window :: duration where "max_batch_window = 5 * second"

definition queue_key :: string where "queue_key = ''message_queue''"

record queued_message =
  qm_channel :: channel_id
  qm_text :: string
  qm_source :: "source_info option"
  qm_at :: time

record persisted_queue =
  pq_messages :: "queued_message list"
  pq_interrupted :: channel_id

text \<open>\<open>debounceWindow\<close>, where 0 turns the debounce off, and \<open>isControlMessage\<close>, which may be nil.\<close>

record queue_params =
  qp_debounce :: duration
  qp_control :: "(tagged_message \<Rightarrow> bool) option"

record 'p queue_world =
  qw_messages :: "queued_message list"
  qw_interrupted :: channel_id
  qw_notify :: bool
  qw_store :: "persisted_queue store"
  qw_tracker :: "'p tracker"

datatype queue_error =
    QueueRead store_error | QueueParse | QueueWrite store_error
  | InputClosed | ContextDone | NoBatchable channel_id

definition to_tagged :: "queued_message \<Rightarrow> tagged_message" where
  "to_tagged m = \<lparr>tm_channel = qm_channel m, tm_text = qm_text m, tm_source = qm_source m\<rparr>"

definition new_queue :: "persisted_queue store \<Rightarrow> 'p tracker \<Rightarrow> 'p queue_world" where
  "new_queue st t = \<lparr>qw_messages = [], qw_interrupted = [], qw_notify = False, qw_store = st, qw_tracker = t\<rparr>"

subsection \<open>Persistence\<close>

text \<open>\<open>persist\<close> copies the state under the lock and writes the copy outside it.\<close>

definition queue_snapshot :: "'p queue_world \<Rightarrow> persisted_queue" where
  "queue_snapshot w = \<lparr>pq_messages = qw_messages w, pq_interrupted = qw_interrupted w\<rparr>"

definition queue_write :: "persisted_queue \<Rightarrow> 'p queue_world \<Rightarrow> queue_error option \<times> 'p queue_world" where
  "queue_write snap w =
     (case store_set queue_key snap (qw_store w) of
        (Some e, st) \<Rightarrow> (Some (QueueWrite e), w\<lparr>qw_store := st\<rparr>)
      | (None, st) \<Rightarrow> (None, w\<lparr>qw_store := st\<rparr>))"

definition queue_persist :: "'p queue_world \<Rightarrow> queue_error option \<times> 'p queue_world" where
  "queue_persist w = queue_write (queue_snapshot w) w"

definition load_persisted :: "'p queue_world \<Rightarrow> queue_error option \<times> 'p queue_world" where
  "load_persisted w =
     (case store_get queue_key (qw_store w) of
        (Inl e, st) \<Rightarrow> (Some (QueueRead e), w\<lparr>qw_store := st\<rparr>)
      | (Inr None, st) \<Rightarrow> (None, w\<lparr>qw_store := st\<rparr>)
      | (Inr (Some EmptyFile), st) \<Rightarrow> (None, w\<lparr>qw_store := st\<rparr>)
      | (Inr (Some Malformed), st) \<Rightarrow> (Some QueueParse, w\<lparr>qw_store := st\<rparr>)
      | (Inr (Some (Doc d)), st) \<Rightarrow>
          (None, w\<lparr>qw_messages := pq_messages d, qw_interrupted := pq_interrupted d, qw_store := st\<rparr>))"

definition append_message :: "time \<Rightarrow> tagged_message \<Rightarrow> 'p queue_world \<Rightarrow> 'p queue_world" where
  "append_message now m w =
     w\<lparr>qw_messages := qw_messages w @
         [\<lparr>qm_channel = tm_channel m, qm_text = tm_text m, qm_source = tm_source m, qm_at = now\<rparr>]\<rparr>"

text \<open>The consumer is woken only once the message is on disk.\<close>

definition queue_push ::
  "time \<Rightarrow> tagged_message \<Rightarrow> 'p queue_world \<Rightarrow> queue_error option \<times> 'p queue_world" where
  "queue_push now m w =
     (case queue_persist (append_message now m w) of
        (Some e, w') \<Rightarrow> (Some e, w')
      | (None, w') \<Rightarrow> (None, w'\<lparr>qw_notify := True\<rparr>))"

definition set_interrupted ::
  "channel_id \<Rightarrow> 'p queue_world \<Rightarrow> queue_error option \<times> 'p queue_world" where
  "set_interrupted c w = queue_persist (w\<lparr>qw_interrupted := c\<rparr>)"

definition clear_interrupted :: "'p queue_world \<Rightarrow> queue_error option \<times> 'p queue_world" where
  "clear_interrupted w = queue_persist (w\<lparr>qw_interrupted := []\<rparr>)"

subsection \<open>Choosing a message\<close>

definition is_user_message :: "queued_message \<Rightarrow> bool" where
  "is_user_message m = from_user (qm_source m)"

definition is_resume_message :: "queued_message \<Rightarrow> bool" where
  "is_resume_message m = (case qm_source m of None \<Rightarrow> False | Some i \<Rightarrow> si_source i = SourceResume)"

definition resolve_channel_name :: "channel_map \<Rightarrow> channel_id \<Rightarrow> string" where
  "resolve_channel_name chans i = (case map_of chans i of None \<Rightarrow> [] | Some c \<Rightarrow> ch_name c)"

definition can_run_now :: "channel_map \<Rightarrow> time \<Rightarrow> 'p tracker \<Rightarrow> queued_message \<Rightarrow> bool" where
  "can_run_now chans now t m =
     (let name = resolve_channel_name chans (qm_channel m)
      in name = [] \<or> \<not> fst (is_busy name now t))"

definition dequeue_index ::
  "channel_map \<Rightarrow> time \<Rightarrow> 'p tracker \<Rightarrow> queued_message list \<Rightarrow> nat option" where
  "dequeue_index chans now t ms =
     (case first_index is_user_message ms of
        Some i \<Rightarrow> Some i
      | None \<Rightarrow>
          (case first_index is_resume_message ms of
             Some i \<Rightarrow> Some i
           | None \<Rightarrow> first_index (can_run_now chans now t) ms))"

definition try_dequeue ::
  "channel_map \<Rightarrow> time \<Rightarrow> 'p queue_world \<Rightarrow> tagged_message option \<times> 'p queue_world" where
  "try_dequeue chans now w =
     (case dequeue_index chans now (qw_tracker w) (qw_messages w) of
        None \<Rightarrow> (None, w)
      | Some i \<Rightarrow>
          (Some (to_tagged (qw_messages w ! i)),
           snd (queue_persist (w\<lparr>qw_messages := remove_at i (qw_messages w)\<rparr>))))"

definition is_batchable :: "queue_params \<Rightarrow> queued_message \<Rightarrow> bool" where
  "is_batchable p m =
     (if \<not> is_user_message m then False
      else (case qp_control p of None \<Rightarrow> True | Some control \<Rightarrow> \<not> control (to_tagged m)))"

definition peek_batchable_channel ::
  "queue_params \<Rightarrow> channel_map \<Rightarrow> time \<Rightarrow> 'p queue_world \<Rightarrow> channel_id option" where
  "peek_batchable_channel p chans now w =
     (case dequeue_index chans now (qw_tracker w) (qw_messages w) of
        None \<Rightarrow> None
      | Some i \<Rightarrow>
          (let m = qw_messages w ! i
           in if \<not> is_batchable p m then None else Some (qm_channel m)))"

definition in_batch :: "queue_params \<Rightarrow> channel_id \<Rightarrow> queued_message \<Rightarrow> bool" where
  "in_batch p c m = (qm_channel m = c \<and> is_batchable p m)"

definition blank_line :: string where "blank_line = [CHR 0x0A, CHR 0x0A]"

definition coalesce_batch ::
  "queue_params \<Rightarrow> channel_id \<Rightarrow> 'p queue_world \<Rightarrow> (queue_error + tagged_message) \<times> 'p queue_world" where
  "coalesce_batch p c w =
     (case filter (in_batch p c) (qw_messages w) of
        [] \<Rightarrow> (Inl (NoBatchable c), w)
      | m # ms \<Rightarrow>
          (Inr \<lparr>tm_channel = c, tm_text = str_join blank_line (map qm_text (m # ms)), tm_source = qm_source m\<rparr>,
           snd (queue_persist (w\<lparr>qw_messages := filter (\<lambda>q. \<not> in_batch p c q) (qw_messages w)\<rparr>))))"

subsection \<open>Waiting for an idle channel\<close>

text \<open>The channel \<open>idleNotifyForQueued\<close> returns: closed already, or fed by the waiters named.\<close>

datatype idle_wait = ClosedAtOnce | AnyOf "nat list"

definition busy_names :: "channel_map \<Rightarrow> time \<Rightarrow> 'p queue_world \<Rightarrow> string list" where
  "busy_names chans now w =
     remdups (filter (\<lambda>n. n \<noteq> [] \<and> fst (is_busy n now (qw_tracker w)))
       (map (\<lambda>m. resolve_channel_name chans (qm_channel m))
         (filter (\<lambda>m. \<not> is_user_message m) (qw_messages w))))"

fun notify_all :: "string list \<Rightarrow> time \<Rightarrow> 'p tracker \<Rightarrow> nat list \<times> 'p tracker" where
  "notify_all [] now t = ([], t)"
| "notify_all (n # ns) now t =
     (case notify_idle n now t of
        (v, t1) \<Rightarrow> (case notify_all ns now t1 of (vs, t2) \<Rightarrow> (v # vs, t2)))"

definition idle_notify_for_queued ::
  "channel_map \<Rightarrow> time \<Rightarrow> 'p queue_world \<Rightarrow> idle_wait \<times> 'p queue_world" where
  "idle_notify_for_queued chans now w =
     (if busy_names chans now w = [] then (ClosedAtOnce, w)
      else (case notify_all (busy_names chans now w) now (qw_tracker w) of
              (vs, t) \<Rightarrow> (AnyOf vs, w\<lparr>qw_tracker := t\<rparr>)))"

definition idle_ready :: "idle_wait \<Rightarrow> 'p queue_world \<Rightarrow> bool" where
  "idle_ready iw w =
     (case iw of ClosedAtOnce \<Rightarrow> True | AnyOf vs \<Rightarrow> (\<exists>v \<in> set vs. v \<in> set (tk_closed (qw_tracker w))))"

subsection \<open>Next\<close>

datatype next_phase =
    Deciding
  | Waiting idle_wait
  | Debouncing channel_id time time
  | Returned tagged_message
  | Failed queue_error

datatype next_event =
    Decide | Cancelled | Arrives tagged_message | InputCloses | IdleSignal | Notified | TimerFires | CapFires

definition dequeue_or_wait ::
  "channel_map \<Rightarrow> time \<Rightarrow> 'p queue_world \<Rightarrow> next_phase \<times> 'p queue_world" where
  "dequeue_or_wait chans now w =
     (case try_dequeue chans now w of
        (Some m, w') \<Rightarrow> (Returned m, w')
      | (None, w') \<Rightarrow>
          (case idle_notify_for_queued chans now w' of (iw, w'') \<Rightarrow> (Waiting iw, w'')))"

definition decide_next ::
  "queue_params \<Rightarrow> channel_map \<Rightarrow> time \<Rightarrow> 'p queue_world \<Rightarrow> next_phase \<times> 'p queue_world" where
  "decide_next p chans now w =
     (if 0 < qp_debounce p then
        (case peek_batchable_channel p chans now w of
           Some c \<Rightarrow> (Debouncing c (now + qp_debounce p) (now + max_batch_window), w)
         | None \<Rightarrow> dequeue_or_wait chans now w)
      else dequeue_or_wait chans now w)"

definition finish_batch ::
  "queue_params \<Rightarrow> channel_id \<Rightarrow> 'p queue_world \<Rightarrow> next_phase \<times> 'p queue_world" where
  "finish_batch p c w =
     (case coalesce_batch p c w of
        (Inl e, w') \<Rightarrow> (Failed e, w')
      | (Inr m, w') \<Rightarrow> (Returned m, w'))"

text \<open>One branch of a select; \<open>None\<close> where the branch is not ready.\<close>

definition debounce_step ::
  "queue_params \<Rightarrow> channel_id \<Rightarrow> time \<Rightarrow> time \<Rightarrow> time \<Rightarrow> next_event \<Rightarrow> 'p queue_world \<Rightarrow>
     (next_phase \<times> 'p queue_world) option" where [simp]:
  "debounce_step p c due cap now ev w =
     (case ev of
        Cancelled \<Rightarrow> Some (Failed ContextDone, w)
      | Arrives m \<Rightarrow> Some (Debouncing c (now + qp_debounce p) cap, snd (queue_push now m w))
      | InputCloses \<Rightarrow> Some (Failed InputClosed, w)
      | Notified \<Rightarrow>
          if qw_notify w then Some (Debouncing c (now + qp_debounce p) cap, w\<lparr>qw_notify := False\<rparr>) else None
      | TimerFires \<Rightarrow> if due \<le> now then Some (finish_batch p c w) else None
      | CapFires \<Rightarrow> if cap \<le> now then Some (finish_batch p c w) else None
      | _ \<Rightarrow> None)"

fun next_step ::
  "queue_params \<Rightarrow> channel_map \<Rightarrow> time \<Rightarrow> next_event \<Rightarrow> next_phase \<times> 'p queue_world \<Rightarrow>
     (next_phase \<times> 'p queue_world) option" where
  "next_step p chans now ev (Deciding, w) = (if ev = Decide then Some (decide_next p chans now w) else None)"
| "next_step p chans now ev (Waiting iw, w) =
     (case ev of
        Cancelled \<Rightarrow> Some (Failed ContextDone, w)
      | Arrives m \<Rightarrow> Some (Deciding, snd (queue_push now m w))
      | InputCloses \<Rightarrow> Some (Failed InputClosed, w)
      | IdleSignal \<Rightarrow> if idle_ready iw w then Some (Deciding, w) else None
      | Notified \<Rightarrow> if qw_notify w then Some (Deciding, w\<lparr>qw_notify := False\<rparr>) else None
      | _ \<Rightarrow> None)"
| "next_step p chans now ev (Debouncing c due cap, w) = debounce_step p c due cap now ev w"
| "next_step p chans now ev (Returned m, w) = None"
| "next_step p chans now ev (Failed e, w) = None"

subsection \<open>Starting up\<close>

definition resume_text :: string where
  "resume_text = ''[SYSTEM: You were interrupted mid-turn by a restart. Review your conversation history and continue what you were doing. If you were waiting for user input, let the user know you're back.]''"

definition check_auto_resume ::
  "channel_map \<Rightarrow> 'p queue_world \<Rightarrow> tagged_message option \<times> 'p queue_world" where
  "check_auto_resume chans w =
     (let c = qw_interrupted w
      in if c = [] then (None, w)
         else if map_of chans c = None then (None, snd (clear_interrupted w))
         else (Some \<lparr>tm_channel = c, tm_text = resume_text, tm_source = Some (no_source SourceResume)\<rparr>,
               snd (clear_interrupted w)))"

record startup_decision =
  sd_start_now :: bool
  sd_first :: "tagged_message option"

definition determine_startup_signal ::
  "channel_map \<Rightarrow> 'p queue_world \<Rightarrow> startup_decision \<times> 'p queue_world" where
  "determine_startup_signal chans w =
     (case check_auto_resume chans w of
        (Some m, w') \<Rightarrow> (\<lparr>sd_start_now = True, sd_first = Some m\<rparr>, w')
      | (None, w') \<Rightarrow> (\<lparr>sd_start_now = (0 < length (qw_messages w')), sd_first = None\<rparr>, w'))"

subsection \<open>What a queue promises\<close>

text \<open>
  The contract of a queue of messages that its user pushes to and takes from: a push adds the
  message at the end, a take removes one message and disturbs no other, an empty-handed take
  changes nothing.
\<close>

locale message_queue =
  fixes items :: "'s \<Rightarrow> 'm list" and push :: "'m \<Rightarrow> 's \<Rightarrow> 's" and take_one :: "'s \<Rightarrow> 'm option \<times> 's"
  assumes push_items: "items (push m s) = items s @ [m]"
    and take_some: "take_one s = (Some m, s') \<Longrightarrow> \<exists>xs ys. items s = xs @ m # ys \<and> items s' = xs @ ys"
    and take_none: "take_one s = (None, s') \<Longrightarrow> items s' = items s"
begin

fun drain :: "nat \<Rightarrow> 's \<Rightarrow> 'm list \<times> 's" where
  "drain 0 s = ([], s)"
| "drain (Suc k) s =
     (case take_one s of
        (None, s') \<Rightarrow> ([], s')
      | (Some m, s') \<Rightarrow> (case drain k s' of (ms, s'') \<Rightarrow> (m # ms, s'')))"

lemma take_mset: "take_one s = (Some m, s') \<Longrightarrow> mset (items s) = add_mset m (mset (items s'))"
  by (auto dest: take_some)

lemma drain_conserves: "drain k s = (ms, s') \<Longrightarrow> mset (items s) = mset ms + mset (items s')"
proof (induction k arbitrary: s ms)
  case 0
  then show ?case by simp
next
  case (Suc k)
  then show ?case
    by (auto split: prod.splits option.splits simp: take_none take_mset)
qed

lemma push_all: "items (fold push ms s) = items s @ ms"
  by (induction ms arbitrary: s) (simp_all add: push_items)

end

lemma queue_persist_simps [simp]:
  "qw_messages (snd (queue_persist w)) = qw_messages w"
  "qw_interrupted (snd (queue_persist w)) = qw_interrupted w"
  "qw_notify (snd (queue_persist w)) = qw_notify w"
  "qw_tracker (snd (queue_persist w)) = qw_tracker w"
  by (simp_all add: queue_persist_def queue_write_def split: prod.split option.split)

lemma push_simps [simp]:
  "qw_messages (snd (queue_push now m w)) =
     qw_messages w @ [\<lparr>qm_channel = tm_channel m, qm_text = tm_text m, qm_source = tm_source m, qm_at = now\<rparr>]"
  "qw_interrupted (snd (queue_push now m w)) = qw_interrupted w"
  "qw_tracker (snd (queue_push now m w)) = qw_tracker w"
proof -
  obtain e w' where p: "queue_persist (append_message now m w) = (e, w')" by fastforce
  then have w': "w' = snd (queue_persist (append_message now m w))" by simp
  show "qw_messages (snd (queue_push now m w)) =
     qw_messages w @ [\<lparr>qm_channel = tm_channel m, qm_text = tm_text m, qm_source = tm_source m, qm_at = now\<rparr>]"
    "qw_interrupted (snd (queue_push now m w)) = qw_interrupted w"
    "qw_tracker (snd (queue_push now m w)) = qw_tracker w"
    by (simp_all add: queue_push_def p split: option.split) (simp_all add: w' append_message_def)
qed

lemma to_tagged_inverse [simp]:
  "to_tagged \<lparr>qm_channel = tm_channel m, qm_text = tm_text m, qm_source = tm_source m, qm_at = now\<rparr> = m"
  by (simp add: to_tagged_def)

lemma remove_at_split: "i < length xs \<Longrightarrow> xs = take i xs @ xs ! i # drop (Suc i) xs"
  by (rule id_take_nth_drop)

lemma dequeue_index_less: "dequeue_index chans now t ms = Some i \<Longrightarrow> i < length ms"
  by (auto simp: dequeue_index_def split: option.splits dest: first_index_less)

lemma try_dequeue_cases:
  assumes "try_dequeue chans now w = (r, w')"
  shows "(r = None \<and> w' = w \<and> dequeue_index chans now (qw_tracker w) (qw_messages w) = None) \<or>
    (\<exists>i. dequeue_index chans now (qw_tracker w) (qw_messages w) = Some i \<and>
         r = Some (to_tagged (qw_messages w ! i)) \<and>
         w' = snd (queue_persist (w\<lparr>qw_messages := remove_at i (qw_messages w)\<rparr>)))"
  using assms by (auto simp: try_dequeue_def split: option.splits)

interpretation q: message_queue "\<lambda>w. map to_tagged (qw_messages w)" "\<lambda>m w. snd (queue_push now m w)" "try_dequeue chans now"
  for now chans
proof unfold_locales
  fix m :: tagged_message and s s' :: "'b queue_world"
  show "map to_tagged (qw_messages (snd (queue_push now m s))) = map to_tagged (qw_messages s) @ [m]"
    by simp
  show "\<exists>xs ys. map to_tagged (qw_messages s) = xs @ m # ys \<and> map to_tagged (qw_messages s') = xs @ ys"
    if a: "try_dequeue chans now s = (Some m, s')"
  proof -
    from try_dequeue_cases [OF a] obtain i where
      i: "dequeue_index chans now (qw_tracker s) (qw_messages s) = Some i"
      and m: "m = to_tagged (qw_messages s ! i)"
      and s': "s' = snd (queue_persist (s\<lparr>qw_messages := remove_at i (qw_messages s)\<rparr>))" by auto
    have "map to_tagged (qw_messages s) =
        map to_tagged (take i (qw_messages s)) @ m # map to_tagged (drop (Suc i) (qw_messages s))"
      using arg_cong [OF remove_at_split [OF dequeue_index_less [OF i]], of "map to_tagged"] m by simp
    moreover have "map to_tagged (qw_messages s') =
        map to_tagged (take i (qw_messages s)) @ map to_tagged (drop (Suc i) (qw_messages s))"
      by (simp add: s' remove_at_def)
    ultimately show ?thesis by blast
  qed
  show "try_dequeue chans now s = (None, s') \<Longrightarrow> map to_tagged (qw_messages s') = map to_tagged (qw_messages s)"
    by (auto dest: try_dequeue_cases)
qed

subsection \<open>Who goes first\<close>

text \<open>
  C31. The next message is the oldest of the most urgent kind: a user's message before a resume
  message, a resume message before anything else, and anything else only when its channel is
  unknown or not busy. The others keep their order.
\<close>

theorem dequeue_priority:
  assumes "try_dequeue chans now w = (Some m, w')"
  shows "\<exists>before q after. qw_messages w = before @ q # after \<and> m = to_tagged q \<and>
    qw_messages w' = before @ after \<and>
    (if (\<exists>x \<in> set (qw_messages w). is_user_message x)
     then is_user_message q \<and> (\<forall>x \<in> set before. \<not> is_user_message x)
     else if (\<exists>x \<in> set (qw_messages w). is_resume_message x)
     then is_resume_message q \<and> (\<forall>x \<in> set before. \<not> is_resume_message x)
     else can_run_now chans now (qw_tracker w) q \<and>
          (\<forall>x \<in> set before. \<not> can_run_now chans now (qw_tracker w) x))"
proof -
  let ?ms = "qw_messages w" and ?ok = "can_run_now chans now (qw_tracker w)"
  from try_dequeue_cases [OF assms] obtain i where
    i: "dequeue_index chans now (qw_tracker w) ?ms = Some i" and m: "m = to_tagged (?ms ! i)"
    and w': "w' = snd (queue_persist (w\<lparr>qw_messages := remove_at i ?ms\<rparr>))" by auto
  have first: "P (?ms ! i) \<and> (\<forall>x \<in> set (take i ?ms). \<not> P x)" if "first_index P ?ms = Some i" for P
    using first_index_Some [OF that] by (auto simp: in_set_conv_nth)
  have "if (\<exists>x \<in> set ?ms. is_user_message x)
     then is_user_message (?ms ! i) \<and> (\<forall>x \<in> set (take i ?ms). \<not> is_user_message x)
     else if (\<exists>x \<in> set ?ms. is_resume_message x)
     then is_resume_message (?ms ! i) \<and> (\<forall>x \<in> set (take i ?ms). \<not> is_resume_message x)
     else ?ok (?ms ! i) \<and> (\<forall>x \<in> set (take i ?ms). \<not> ?ok x)"
    using i first [of is_user_message] first [of is_resume_message] first [of ?ok]
      first_index_None [of is_user_message ?ms] first_index_None [of is_resume_message ?ms]
    by (auto simp: dequeue_index_def simp del: first_index_None split: option.splits)
  then show ?thesis
    using remove_at_split [OF dequeue_index_less [OF i]] m w'
    by (intro exI [of _ "take i ?ms"] exI [of _ "?ms ! i"] exI [of _ "drop (Suc i) ?ms"])
      (simp add: remove_at_def)
qed

text \<open>A queue of three messages on two channels, for concrete runs.\<close>

definition sample_message :: "channel_id \<Rightarrow> message_source \<Rightarrow> string \<Rightarrow> queued_message" where
  "sample_message c src text = \<lparr>qm_channel = c, qm_text = text, qm_source = Some (no_source src), qm_at = 1\<rparr>"

definition sample_queue :: "unit queue_world" where
  "sample_queue = (new_queue fresh_store new_tracker)
     \<lparr>qw_messages := [sample_message ''a'' SourceSchedule ''tick'', sample_message ''a'' SourceUser ''one'',
                      sample_message ''a'' SourceUser ''two'']\<rparr>"

theorem dequeue_priority_witness:
  "\<exists>m w'. try_dequeue [] 5 sample_queue = (Some m, w') \<and> tm_text m = ''one'' \<and>
     map qm_text (qw_messages w') = [''tick'', ''two'']"
proof -
  obtain m w' where d: "try_dequeue [] 5 sample_queue = (Some m, w')" and m: "tm_text m = ''one''"
    by (auto simp: try_dequeue_def dequeue_index_def sample_queue_def sample_message_def is_user_message_def
        from_user_def no_source_def to_tagged_def)
  show ?thesis
    using dequeue_priority [OF d] d m
    by (auto simp: sample_queue_def sample_message_def is_user_message_def from_user_def no_source_def
        to_tagged_def Cons_eq_append_conv)
qed

subsection \<open>Runs of Next\<close>

text \<open>
  What can happen while one call of \<open>Next\<close> runs: its own steps, messages pushed by others, the
  interrupted mark set or cleared, and any change of the activity tracker. The list holds the
  messages that came in, through the input or a push.
\<close>

definition arrivals :: "next_event \<Rightarrow> tagged_message list" where
  "arrivals ev = (case ev of Arrives m \<Rightarrow> [m] | _ \<Rightarrow> [])"

inductive next_run ::
  "queue_params \<Rightarrow> next_phase \<times> 'p queue_world \<Rightarrow> tagged_message list \<Rightarrow> next_phase \<times> 'p queue_world \<Rightarrow> bool"
  for p where
  start: "next_run p s [] s"
| own: "next_run p s ms s' \<Longrightarrow> next_step p chans now ev s' = Some s'' \<Longrightarrow> next_run p s (ms @ arrivals ev) s''"
| pushed: "next_run p s ms (ph, w) \<Longrightarrow> next_run p s (ms @ [m]) (ph, snd (queue_push now m w))"
| marked: "next_run p s ms (ph, w) \<Longrightarrow> next_run p s ms (ph, snd (set_interrupted c w))"
| tracked: "next_run p s ms (ph, w) \<Longrightarrow> next_run p s ms (ph, w\<lparr>qw_tracker := t\<rparr>)"

inductive_cases next_run_cases: "next_run p s ms s'"

text \<open>A returned message stands for the queued messages taken for it.\<close>

definition merged_from :: "tagged_message \<Rightarrow> queued_message list \<Rightarrow> bool" where
  "merged_from m taken =
     (taken \<noteq> [] \<and> list_all (\<lambda>q. qm_channel q = tm_channel m) taken \<and>
      tm_text m = str_join blank_line (map qm_text taken) \<and> tm_source m = qm_source (hd taken))"

definition accounted :: "next_phase \<Rightarrow> queued_message list \<Rightarrow> bool" where
  "accounted ph taken = (case ph of Returned m \<Rightarrow> merged_from m taken | _ \<Rightarrow> taken = [])"

lemma merged_single: "merged_from (to_tagged q) [q]"
  by (simp add: merged_from_def to_tagged_def)

lemma idle_notify_messages:
  "idle_notify_for_queued chans now w = (iw, w') \<Longrightarrow>
     qw_messages w' = qw_messages w \<and> qw_store w' = qw_store w \<and> qw_interrupted w' = qw_interrupted w"
  by (auto simp: idle_notify_for_queued_def split: if_splits prod.splits)

text \<open>What one step of \<open>Next\<close> does to the queue \<open>old\<close>, leaving \<open>new\<close> and the phase \<open>ph\<close>.\<close>

definition takes :: "next_phase \<Rightarrow> queued_message list \<Rightarrow> queued_message list \<Rightarrow> queued_message list \<Rightarrow> bool" where
  "takes ph old new taken =
     (accounted ph taken \<and> subseq taken old \<and> mset old = mset new + mset taken \<and>
      (taken = [] \<longrightarrow> new = old))"

lemma takes_nothing: "\<not> (\<exists>m. ph = Returned m) \<Longrightarrow> takes ph old old []"
  by (simp add: takes_def accounted_def split: next_phase.splits)

lemma takes_nothing_ex: "\<not> (\<exists>m. ph = Returned m) \<Longrightarrow> \<exists>taken. takes ph old old taken"
  using takes_nothing by blast

lemma dequeue_or_wait_takes:
  assumes "dequeue_or_wait chans now w = (ph, w')"
  shows "\<exists>taken. takes ph (qw_messages w) (qw_messages w') taken"
proof -
  obtain r w1 where d: "try_dequeue chans now w = (r, w1)" by fastforce
  show ?thesis
  proof (cases r)
    case None
    then have "w1 = w" using try_dequeue_cases [OF d] by auto
    with None assms d have "qw_messages w' = qw_messages w" "\<not> (\<exists>m. ph = Returned m)"
      by (auto simp: dequeue_or_wait_def split: prod.splits dest!: idle_notify_messages)
    then show ?thesis using takes_nothing by metis
  next
    case (Some m)
    then obtain i where i: "dequeue_index chans now (qw_tracker w) (qw_messages w) = Some i"
      and m: "m = to_tagged (qw_messages w ! i)" and w1: "qw_messages w1 = remove_at i (qw_messages w)"
      using try_dequeue_cases [OF d] by auto
    note less = dequeue_index_less [OF i]
    have "ph = Returned m" "w' = w1" using Some assms d by (simp_all add: dequeue_or_wait_def)
    moreover have "subseq [qw_messages w ! i] (qw_messages w)"
      using less by (simp add: subseq_singleton_left)
    ultimately have "takes ph (qw_messages w) (qw_messages w') [qw_messages w ! i]"
      using mset_remove_at [OF less] w1 m merged_single by (simp add: takes_def accounted_def)
    then show ?thesis by blast
  qed
qed

lemma batch_channel: "list_all (\<lambda>q. qm_channel q = c) (filter (in_batch p c) ms)"
  by (simp add: list_all_iff in_batch_def)

lemma finish_batch_takes:
  assumes "finish_batch p c w = (ph, w')"
  shows "\<exists>taken. takes ph (qw_messages w) (qw_messages w') taken"
proof (cases "filter (in_batch p c) (qw_messages w)")
  case Nil
  then have "ph = Failed (NoBatchable c)" "w' = w" using assms by (simp_all add: finish_batch_def coalesce_batch_def)
  then show ?thesis using takes_nothing by blast
next
  case (Cons q qs)
  have "mset (qw_messages w) = mset (filter (\<lambda>q. \<not> in_batch p c q) (qw_messages w)) + mset (q # qs)"
    using mset_filter_partition [of "in_batch p c" "qw_messages w"] by (simp add: Cons union_commute)
  moreover have "accounted ph (q # qs)" "qw_messages w' = filter (\<lambda>q. \<not> in_batch p c q) (qw_messages w)"
    using assms Cons batch_channel [of c p "qw_messages w"]
    by (auto simp: finish_batch_def coalesce_batch_def accounted_def merged_from_def)
  moreover have "subseq (q # qs) (qw_messages w)" using subseq_filter_left [of "in_batch p c"] Cons by metis
  ultimately have "takes ph (qw_messages w) (qw_messages w') (q # qs)" by (simp add: takes_def)
  then show ?thesis by blast
qed

lemma decide_next_takes:
  assumes "decide_next p chans now w = (ph, w')"
  shows "\<exists>taken. takes ph (qw_messages w) (qw_messages w') taken"
proof (cases "\<exists>c due cap. ph = Debouncing c due cap")
  case True
  then obtain c due cap where ph: "ph = Debouncing c due cap" by blast
  have "dequeue_or_wait chans now w \<noteq> (ph, w')"
    by (auto simp: ph dequeue_or_wait_def split: prod.splits option.splits)
  with assms have "w' = w" by (auto simp: decide_next_def split: if_splits option.splits)
  with ph show ?thesis using takes_nothing by blast
next
  case False
  with assms have "dequeue_or_wait chans now w = (ph, w')"
    by (auto simp: decide_next_def split: if_splits option.splits)
  then show ?thesis by (rule dequeue_or_wait_takes)
qed

text \<open>Every step but a push works on the queue as it is.\<close>

lemma next_step_cases:
  assumes "next_step p chans now ev (ph, w) = Some (ph', w')"
  shows "(\<not> (\<exists>m. ph = Returned m) \<and> arrivals ev = [] \<and>
          (\<exists>taken. takes ph' (qw_messages w) (qw_messages w') taken)) \<or>
    (\<exists>m. ev = Arrives m \<and> \<not> (\<exists>m. ph = Returned m) \<and> \<not> (\<exists>m. ph' = Returned m) \<and>
         w' = snd (queue_push now m w))"
proof (cases ph)
  case Deciding
  with assms have "decide_next p chans now w = (ph', w')" and "arrivals ev = []"
    by (auto simp: arrivals_def split: if_splits)
  with decide_next_takes Deciding show ?thesis by fastforce
next
  case (Waiting iw)
  with assms show ?thesis
    by (cases ev) (auto simp: arrivals_def split: if_splits intro: takes_nothing_ex)
next
  case (Debouncing c due cap)
  with assms finish_batch_takes [of p c w ph' w'] show ?thesis
    by (cases ev) (auto simp: arrivals_def split: if_splits intro: takes_nothing_ex)
qed (use assms in simp_all)

definition tagged :: "'p queue_world \<Rightarrow> tagged_message list" where
  "tagged w = map to_tagged (qw_messages w)"

lemma run_accounted:
  "next_run p s ms s' \<Longrightarrow> fst s = Deciding \<Longrightarrow>
     \<exists>taken. accounted (fst s') taken \<and> subseq (map to_tagged taken) (tagged (snd s) @ ms) \<and>
       mset (tagged (snd s)) + mset ms = mset (tagged (snd s')) + mset (map to_tagged taken) \<and>
       (taken = [] \<longrightarrow> tagged (snd s') = tagged (snd s) @ ms)"
proof (induction rule: next_run.induct)
  case (start s)
  then show ?case by (intro exI [of _ "[]"]) (simp add: accounted_def)
next
  case (own s ms s' chans now ev s'')
  obtain ph w ph' w' where s: "s' = (ph, w)" "s'' = (ph', w')" by fastforce
  from own.hyps(2) s have step: "next_step p chans now ev (ph, w) = Some (ph', w')" by simp
  have "taken = []" if "accounted ph taken" for taken
    using next_step_cases [OF step] that by (cases ph) (auto simp: accounted_def)
  with own.IH [OF own.prems] s have same: "tagged w = tagged (snd s) @ ms" by auto
  from next_step_cases [OF step] show ?case
  proof (elim disjE conjE exE)
    fix taken assume ev: "arrivals ev = []" and t: "takes ph' (qw_messages w) (qw_messages w') taken"
    then have "mset (tagged w) = mset (tagged w') + mset (map to_tagged taken)"
        "subseq (map to_tagged taken) (tagged w)" "accounted ph' taken" "taken = [] \<longrightarrow> tagged w' = tagged w"
      by (auto simp: takes_def tagged_def subseq_map)
    with ev same s show ?thesis by (intro exI [of _ taken]) simp
  next
    fix m assume "ev = Arrives m" "\<not> (\<exists>m. ph' = Returned m)" "w' = snd (queue_push now m w)"
    with same s show ?thesis
      by (intro exI [of _ "[]"]) (simp add: accounted_def arrivals_def tagged_def split: next_phase.splits)
  qed
next
  case (pushed s ms ph w m now)
  then obtain taken where t: "accounted ph taken" "subseq (map to_tagged taken) (tagged (snd s) @ ms)"
      "mset (tagged (snd s)) + mset ms = mset (tagged w) + mset (map to_tagged taken)"
      "taken = [] \<longrightarrow> tagged w = tagged (snd s) @ ms" by auto
  have "tagged (snd (queue_push now m w)) = tagged w @ [m]" by (simp add: tagged_def)
  moreover have "subseq (map to_tagged taken) (tagged (snd s) @ (ms @ [m]))"
    by (rule subseq_order.order_trans [OF t(2) prefix_imp_subseq]) simp
  ultimately show ?case using t by (intro exI [of _ taken]) simp
next
  case (marked s ms ph w c)
  then show ?case by (simp add: set_interrupted_def tagged_def)
next
  case (tracked s ms ph w t)
  then show ?case by (simp add: tagged_def)
qed

text \<open>
  C32. A call of \<open>Next\<close> loses and invents nothing, whatever happens while it runs: what was
  queued and what came in is what is queued now and, when it has returned, what was taken for
  the message it returned. That message is of one channel, its text is the taken texts in the
  order they came with a blank line between, its source the first one's.
\<close>

theorem next_loses_nothing:
  assumes "next_run p (Deciding, w) ms (ph, w')"
  shows "\<exists>taken. accounted ph taken \<and> subseq (map to_tagged taken) (tagged w @ ms) \<and>
    mset (tagged w) + mset ms = mset (tagged w') + mset (map to_tagged taken)"
  using run_accounted [OF assms] by auto

definition sample_params :: queue_params where
  "sample_params = \<lparr>qp_debounce = second, qp_control = None\<rparr>"

text \<open>A photo album of two messages on a channel, held for the debounce and merged.\<close>

lemma sample_album:
  "next_run sample_params (Deciding, sample_queue) [] 
     (Debouncing ''a'' (5 + second) (5 + max_batch_window), sample_queue)"
proof -
  have "decide_next sample_params [] 5 sample_queue =
      (Debouncing ''a'' (5 + second) (5 + max_batch_window), sample_queue)"
    by (simp add: decide_next_def sample_params_def second_def peek_batchable_channel_def dequeue_index_def
        sample_queue_def sample_message_def is_user_message_def from_user_def no_source_def is_batchable_def)
  then have "next_step sample_params [] 5 Decide (Deciding, sample_queue) =
      Some (Debouncing ''a'' (5 + second) (5 + max_batch_window), sample_queue)" by simp
  from next_run.own [OF next_run.start this] show ?thesis by (simp add: arrivals_def)
qed

lemma sample_album_returned:
  "\<exists>m w. next_run sample_params (Deciding, sample_queue) [] (Returned m, w) \<and>
     tm_text m = ''one'' @ blank_line @ ''two'' \<and> map qm_text (qw_messages w) = [''tick'']"
proof -
  obtain m w where f: "finish_batch sample_params ''a'' sample_queue = (Returned m, w)"
    and m: "tm_text m = ''one'' @ blank_line @ ''two''" "map qm_text (qw_messages w) = [''tick'']"
    by (auto simp: finish_batch_def coalesce_batch_def sample_params_def sample_queue_def sample_message_def
        in_batch_def is_batchable_def is_user_message_def from_user_def no_source_def)
  from f have "next_step sample_params [] (5 + second) TimerFires
      (Debouncing ''a'' (5 + second) (5 + max_batch_window), sample_queue) = Some (Returned m, w)" by simp
  from next_run.own [OF sample_album this]
  have "next_run sample_params (Deciding, sample_queue) [] (Returned m, w)" by (simp add: arrivals_def)
  with m show ?thesis by (intro exI conjI)
qed

theorem next_loses_nothing_witness:
  "\<exists>m (w :: unit queue_world) taken. tm_text m = ''one'' @ blank_line @ ''two'' \<and> merged_from m taken \<and>
     mset (tagged sample_queue) = mset (tagged w) + mset (map to_tagged taken)"
proof -
  obtain m w where r: "next_run sample_params (Deciding, sample_queue) [] (Returned m, w)"
    and m: "tm_text m = ''one'' @ blank_line @ ''two''" using sample_album_returned by blast
  from next_loses_nothing [OF r] obtain taken where "merged_from m taken"
      "mset (tagged sample_queue) = mset (tagged w) + mset (map to_tagged taken)"
    by (auto simp: accounted_def)
  with m show ?thesis by (intro exI conjI)
qed

subsection \<open>A debounce ends\<close>

lemma debounce_keeps_batch:
  "next_run p s ms s' \<Longrightarrow> fst s = Debouncing c due0 cap \<Longrightarrow>
     (\<exists>q \<in> set (qw_messages (snd s)). in_batch p c q) \<Longrightarrow>
     (case fst s' of
        Debouncing c' due cap' \<Rightarrow> c' = c \<and> cap' = cap \<and> (\<exists>q \<in> set (qw_messages (snd s')). in_batch p c q)
      | Returned m \<Rightarrow> True | Failed e \<Rightarrow> True | _ \<Rightarrow> False)"
proof (induction rule: next_run.induct)
  case (own s ms s' chans now ev s'')
  obtain ph w where s: "s' = (ph, w)" by fastforce
  have "(case fst s' of
        Debouncing c' due cap' \<Rightarrow> c' = c \<and> cap' = cap \<and> (\<exists>q \<in> set (qw_messages (snd s')). in_batch p c q)
      | Returned m \<Rightarrow> True | Failed e \<Rightarrow> True | _ \<Rightarrow> False)"
    by (rule own.IH [OF own.prems])
  with own.hyps(2) show ?case
    by (cases ph; cases ev)
      (auto simp: s finish_batch_def split: if_splits prod.splits sum.splits)
next
  case (pushed s ms ph w m now)
  then show ?case by (auto split: next_phase.splits)
next
  case (marked s ms ph w d)
  then show ?case by (auto simp: set_interrupted_def split: next_phase.splits)
next
  case (tracked s ms ph w t)
  then show ?case by (auto split: next_phase.splits)
qed simp_all

lemma decide_debounces:
  assumes "decide_next p chans now w = (Debouncing c due cap, w')"
  shows "w' = w \<and> cap = now + max_batch_window \<and> (\<exists>q \<in> set (qw_messages w). in_batch p c q)"
proof -
  have "dequeue_or_wait chans now w \<noteq> (Debouncing c due cap, w')"
    by (auto simp: dequeue_or_wait_def split: prod.splits option.splits)
  with assms have "peek_batchable_channel p chans now w = Some c" "w' = w" "cap = now + max_batch_window"
    by (auto simp: decide_next_def split: if_splits option.splits)
  then show ?thesis
    by (auto simp: peek_batchable_channel_def in_batch_def Let_def split: option.splits if_splits
        dest!: dequeue_index_less intro!: bexI [OF _ nth_mem])
qed

text \<open>
  A debounce ends with a turn: once \<open>Next\<close> has started to hold a user's message, then
  whatever arrives, at the latest \<open>maxBatchWindow\<close> after the start it can return a message of
  that channel, however often the window was reset; the batch is never found empty.
\<close>

theorem debounce_delivers:
  assumes "decide_next p chans start w = (Debouncing c due0 cap0, w0)"
    and "next_run p (Debouncing c due0 cap0, w0) ms (Debouncing c' due cap, w')"
    and "start + max_batch_window \<le> now"
  shows "\<exists>m w''. next_step p chans' now CapFires (Debouncing c' due cap, w') = Some (Returned m, w'') \<and>
    tm_channel m = c"
proof -
  note started = decide_debounces [OF assms(1)]
  have kept: "c' = c" "cap = cap0" "\<exists>q \<in> set (qw_messages w'). in_batch p c q"
    using debounce_keeps_batch [OF assms(2)] started by auto
  then have "filter (in_batch p c) (qw_messages w') \<noteq> []" by (auto simp: filter_empty_conv)
  then obtain q qs where "filter (in_batch p c) (qw_messages w') = q # qs" by (cases "filter (in_batch p c) (qw_messages w')") auto
  then show ?thesis
    using kept started assms(3) by (simp add: finish_batch_def coalesce_batch_def)
qed

theorem debounce_delivers_witness:
  "\<exists>m w. next_step sample_params [] (9 + max_batch_window) CapFires
     (Debouncing ''a'' (5 + second) (5 + max_batch_window), sample_queue) = Some (Returned m, w) \<and>
     tm_channel m = ''a''"
proof -
  have d: "decide_next sample_params [] 5 sample_queue =
      (Debouncing ''a'' (5 + second) (5 + max_batch_window), sample_queue)"
    by (simp add: decide_next_def sample_params_def second_def peek_batchable_channel_def dequeue_index_def
        sample_queue_def sample_message_def is_user_message_def from_user_def no_source_def is_batchable_def)
  show ?thesis by (rule debounce_delivers [OF d next_run.start]) simp
qed

subsection \<open>What a restart finds\<close>

text \<open>The file holds the queue.\<close>

definition queue_saved :: "'p queue_world \<Rightarrow> bool" where
  "queue_saved w =
     (writable (qw_store w) queue_key \<and> store_view (qw_store w) queue_key = Some (Doc (queue_snapshot w)))"

lemma persist_saves: "writable (qw_store w) queue_key \<Longrightarrow> queue_saved (snd (queue_persist w))"
  using set_writable [of "qw_store w" queue_key "queue_snapshot w"]
  by (auto simp: queue_saved_def queue_persist_def queue_write_def queue_snapshot_def)

lemma saved_writable: "queue_saved w \<Longrightarrow> writable (qw_store w) queue_key"
  by (simp add: queue_saved_def)

lemma saved_cong:
  "queue_saved w \<Longrightarrow> qw_store w' = qw_store w \<Longrightarrow> qw_messages w' = qw_messages w \<Longrightarrow>
     qw_interrupted w' = qw_interrupted w \<Longrightarrow> queue_saved w'"
  by (simp add: queue_saved_def queue_snapshot_def)

lemma push_saved: "queue_saved w \<Longrightarrow> queue_saved (snd (queue_push now m w))"
proof -
  assume "queue_saved w"
  then have "queue_saved (snd (queue_persist (append_message now m w)))"
    by (intro persist_saves) (simp add: append_message_def saved_writable)
  then show ?thesis by (auto simp: queue_push_def split: prod.splits option.splits elim: saved_cong)
qed

lemma try_dequeue_saved: "queue_saved w \<Longrightarrow> queue_saved (snd (try_dequeue chans now w))"
  by (auto simp: try_dequeue_def saved_writable split: option.split intro!: persist_saves)

lemma finish_batch_saved: "queue_saved w \<Longrightarrow> queue_saved (snd (finish_batch p c w))"
  by (auto simp: finish_batch_def coalesce_batch_def saved_writable split: list.split intro!: persist_saves)

lemma decide_next_saved: "queue_saved w \<Longrightarrow> queue_saved (snd (decide_next p chans now w))"
proof -
  assume w: "queue_saved w"
  obtain r w1 where d: "try_dequeue chans now w = (r, w1)" by fastforce
  have "queue_saved (snd (dequeue_or_wait chans now w))"
  proof (cases r)
    case (Some m)
    with d try_dequeue_saved [OF w, of chans now] show ?thesis by (simp add: dequeue_or_wait_def)
  next
    case None
    obtain iw w2 where i: "idle_notify_for_queued chans now w1 = (iw, w2)" by fastforce
    have "queue_saved w1" using try_dequeue_saved [OF w, of chans now] d by simp
    then have "queue_saved w2" using idle_notify_messages [OF i] saved_cong by blast
    with None d i show ?thesis by (simp add: dequeue_or_wait_def)
  qed
  with w show ?thesis by (simp add: decide_next_def split: option.split)
qed

lemma next_step_saved:
  assumes "next_step p chans now ev (ph, w) = Some (ph', w')" and "queue_saved w"
  shows "queue_saved w'"
proof (cases ph)
  case Deciding
  with assms decide_next_saved [OF assms(2), of p chans now] show ?thesis by (auto split: if_splits)
next
  case (Waiting iw)
  with assms show ?thesis
    by (cases ev) (auto split: if_splits intro: push_saved elim: saved_cong)
next
  case (Debouncing c due cap)
  with assms finish_batch_saved [OF assms(2), of p c] show ?thesis
    by (cases ev) (auto split: if_splits intro: push_saved elim: saved_cong)
qed (use assms in simp_all)

lemma run_saved: "next_run p s ms s' \<Longrightarrow> queue_saved (snd s) \<Longrightarrow> queue_saved (snd s')"
proof (induction rule: next_run.induct)
  case (own s ms s' chans now ev s'')
  then show ?case using next_step_saved by (metis prod.collapse)
next
  case (pushed s ms ph w m now)
  then show ?case by (simp add: push_saved)
next
  case (marked s ms ph w c)
  then show ?case by (simp add: set_interrupted_def persist_saves saved_writable)
next
  case (tracked s ms ph w t)
  then show ?case by (auto elim: saved_cong)
qed simp

text \<open>
  C33. The queue survives a crash between two of its operations. Start from a queue whose store can be
  written and holds what the memory holds. After any sequence of pushes, steps of \<open>Next\<close>, marks of the
  interrupted channel and changes of the busy channels, each with its write completed, a new process
  that loads the queue has every waiting message, in order and with the time it was queued at, and the
  mark of the interrupted channel. Here every operation is one step: a crash in the middle of a
  write is not covered, and neither are two writes that overlap, which do lose a message
  (\<open>stale_write_loses_push\<close>).
\<close>

theorem restart_restores_queue:
  assumes "queue_saved w" and "next_run p (Deciding, w) ms (ph, w')"
  shows "\<exists>w2. load_persisted (new_queue (qw_store w') t) = (None, w2) \<and>
    qw_messages w2 = qw_messages w' \<and> qw_interrupted w2 = qw_interrupted w'"
proof -
  have "queue_saved w'" using run_saved [OF assms(2)] assms(1) by simp
  then show ?thesis
    by (simp add: load_persisted_def new_queue_def get_writable queue_saved_def queue_snapshot_def)
qed

lemma queue_key_path: "safe_path ''/data'' queue_key = Some ''/data/message_queue''"
  by code_simp

theorem restart_restores_queue_witness:
  "\<exists>(w' :: unit queue_world) (w2 :: unit queue_world).
     load_persisted (new_queue (qw_store w') new_tracker) = (None, w2) \<and>
     map qm_text (qw_messages w2) = [''tick'', ''one'', ''two'', ''three'']"
proof -
  let ?w = "snd (queue_persist sample_queue)"
  let ?three = "\<lparr>tm_channel = ''a'', tm_text = ''three'', tm_source = None\<rparr>"
  have saved: "queue_saved ?w"
    using fresh_writable [OF queue_key_path] by (intro persist_saves) (simp add: sample_queue_def new_queue_def)
  have run: "next_run sample_params (Deciding, ?w) ([] @ [?three]) (Deciding, snd (queue_push 6 ?three ?w))"
    by (rule next_run.pushed [OF next_run.start])
  from restart_restores_queue [OF saved run, of new_tracker] obtain w2 :: "unit queue_world" where
    "load_persisted (new_queue (qw_store (snd (queue_push 6 ?three ?w))) new_tracker) = (None, w2)"
    "qw_messages w2 = qw_messages (snd (queue_push 6 ?three ?w))" by blast
  then show ?thesis
    by (intro exI [of _ "snd (queue_push 6 ?three ?w)"] exI [of _ w2])
      (simp add: sample_queue_def sample_message_def)
qed

subsection \<open>What a start decides\<close>

lemma clear_simps [simp]:
  "qw_messages (snd (clear_interrupted w)) = qw_messages w" "qw_interrupted (snd (clear_interrupted w)) = []"
  by (simp_all add: clear_interrupted_def)

text \<open>
  The agent starts by itself exactly when there is work: a turn that was cut short on a
  channel that still exists, which is then resumed by a message on that channel, or queued
  messages, which all stay queued. The mark is used up, so no second start resumes the turn.
\<close>

theorem startup_signal_iff_work:
  "\<exists>d w'. determine_startup_signal chans w = (d, w') \<and> qw_messages w' = qw_messages w \<and>
    qw_interrupted w' = [] \<and>
    sd_start_now d = ((qw_interrupted w \<noteq> [] \<and> map_of chans (qw_interrupted w) \<noteq> None) \<or> qw_messages w \<noteq> []) \<and>
    sd_first d =
      (if qw_interrupted w \<noteq> [] \<and> map_of chans (qw_interrupted w) \<noteq> None
       then Some \<lparr>tm_channel = qw_interrupted w, tm_text = resume_text, tm_source = Some (no_source SourceResume)\<rparr>
       else None) \<and>
    sd_first (fst (determine_startup_signal chans w')) = None"
  by (simp add: determine_startup_signal_def check_auto_resume_def Let_def)

theorem startup_signal_iff_work_witness:
  "\<exists>d w'. determine_startup_signal [] sample_queue = (d, w') \<and> sd_start_now d \<and> sd_first d = None \<and>
     map qm_text (qw_messages w') = [''tick'', ''one'', ''two'']"
  using startup_signal_iff_work [of "[]" sample_queue]
  by (auto simp: sample_queue_def sample_message_def new_queue_def)

subsection \<open>Where Next waits\<close>

text \<open>
  \<open>Next\<close> blocks only with an empty queue or with messages for busy channels alone; it waits for
  those channels, and with an empty queue it waits for a channel that is closed already.
\<close>

lemma waits_only_on_busy:
  assumes "dequeue_or_wait chans now w = (Waiting iw, w')"
  shows "list_all (\<lambda>m. \<not> is_user_message m \<and> \<not> can_run_now chans now (qw_tracker w) m) (qw_messages w) \<and>
    (iw = ClosedAtOnce \<longleftrightarrow> qw_messages w = [])"
proof -
  obtain r w1 where d: "try_dequeue chans now w = (r, w1)" by fastforce
  with assms have "r = None" and i: "idle_notify_for_queued chans now w1 = (iw, w')"
    by (auto simp: dequeue_or_wait_def split: prod.splits option.splits)
  with try_dequeue_cases [OF d] have w1: "w1 = w"
    and none: "dequeue_index chans now (qw_tracker w) (qw_messages w) = None" by auto
  from none have all: "\<not> is_user_message m \<and> \<not> can_run_now chans now (qw_tracker w) m"
    if "m \<in> set (qw_messages w)" for m
    using that by (auto simp: dequeue_index_def split: option.splits)
  have "busy_names chans now w = [] \<longleftrightarrow> qw_messages w = []"
    using all by (cases "qw_messages w")
      (auto simp: busy_names_def filter_empty_conv can_run_now_def Let_def)
  with i w1 all show ?thesis
    by (auto simp: idle_notify_for_queued_def list_all_iff split: if_splits prod.splits)
qed

text \<open>
  So with nothing queued the wait is over at once and \<open>Next\<close> is back where it was, with nothing
  changed: the loop spins until a message comes in.
\<close>

lemma empty_queue_spins:
  assumes "qw_messages w = []"
  shows "next_step p chans now Decide (Deciding, w) = Some (Waiting ClosedAtOnce, w) \<and>
    next_step p chans now IdleSignal (Waiting ClosedAtOnce, w) = Some (Deciding, w)"
  using assms
  by (simp add: decide_next_def peek_batchable_channel_def dequeue_or_wait_def try_dequeue_def dequeue_index_def
      idle_notify_for_queued_def busy_names_def idle_ready_def)

subsection \<open>Two writers of the file\<close>

text \<open>
  \<open>persist\<close> writes its copy after it has released the lock, and nothing orders two writes. When
  a push copies, another push copies and writes, and the first writes last, the file lacks the
  second message, though its push has succeeded; a restart then loses it.
\<close>

lemma append_store: "qw_store (append_message now m w) = qw_store w"
  by (simp add: append_message_def)

lemma stale_write_loses_push:
  assumes "writable (qw_store w) queue_key"
    and "w1 = append_message now m w" and "w2 = append_message now m' w1"
  shows "\<exists>wa wb w3. queue_write (queue_snapshot w2) w2 = (None, wa) \<and> queue_write (queue_snapshot w1) wa = (None, wb) \<and>
    qw_messages wb = qw_messages w2 \<and>
    load_persisted (new_queue (qw_store wb) t) = (None, w3) \<and> qw_messages w3 = qw_messages w1"
proof -
  have "writable (qw_store w2) queue_key"
    unfolding assms(2,3) append_store by (rule assms(1))
  then obtain sa where sa: "store_set queue_key (queue_snapshot w2) (qw_store w2) = (None, sa)" "writable sa queue_key"
    using set_writable [of "qw_store w2" queue_key "queue_snapshot w2"] by blast
  then obtain sb where sb: "store_set queue_key (queue_snapshot w1) sa = (None, sb)" "writable sb queue_key"
      "store_view sb queue_key = Some (Doc (queue_snapshot w1))"
    using set_writable [OF sa(2), of "queue_snapshot w1"] by blast
  have "queue_write (queue_snapshot w2) w2 = (None, w2\<lparr>qw_store := sa\<rparr>)"
    by (simp add: queue_write_def sa(1))
  moreover have "queue_write (queue_snapshot w1) (w2\<lparr>qw_store := sa\<rparr>) = (None, w2\<lparr>qw_store := sb\<rparr>)"
    by (simp add: queue_write_def sb(1))
  moreover have "load_persisted (new_queue sb t) =
      (None, (new_queue sb t)\<lparr>qw_messages := qw_messages w1, qw_interrupted := qw_interrupted w1\<rparr>)"
    by (simp add: load_persisted_def new_queue_def get_writable [OF sb(2)] sb(3))
      (simp add: queue_snapshot_def)
  ultimately show ?thesis
    by (intro exI conjI) (assumption | simp)+
qed

subsection \<open>A cancelled call may still have taken a message\<close>

text \<open>
  A call of \<open>Next\<close> that is no longer wanted still decides when its select picks another branch
  than the cancellation: it takes a message, from memory and from the file, and returns it.
\<close>

lemma cancelled_call_takes_message:
  assumes "qw_messages w = []" and "qp_debounce p = 0"
    and "tm_source m = None" and "writable (qw_store w) queue_key"
  shows "\<exists>w1 w2. next_step p chans now Cancelled (Waiting ClosedAtOnce, w) = Some (Failed ContextDone, w) \<and>
    next_step p chans now (Arrives m) (Waiting ClosedAtOnce, w) = Some (Deciding, w1) \<and>
    next_step p chans now Decide (Deciding, w1) = Some (Returned m, w2) \<and>
    qw_messages w2 = [] \<and> queue_saved w2"
proof -
  let ?w1 = "snd (queue_push now m w)"
  let ?q = "\<lparr>qm_channel = tm_channel m, qm_text = tm_text m, qm_source = tm_source m, qm_at = now\<rparr>"
  have saved: "queue_saved (snd (queue_persist (append_message now m w)))"
    using assms(4) by (intro persist_saves) (simp add: append_message_def)
  then have "queue_saved ?w1"
    by (auto simp: queue_push_def split: prod.splits option.splits elim: saved_cong)
  then have s: "queue_saved (snd (try_dequeue chans now ?w1))" by (rule try_dequeue_saved)
  have i: "dequeue_index chans now (qw_tracker ?w1) (qw_messages ?w1) = Some 0"
    using assms(1,3) by (simp add: dequeue_index_def is_user_message_def from_user_def)
  then obtain w2 where d: "try_dequeue chans now ?w1 = (Some m, w2)" and "qw_messages w2 = []"
    using assms(1) by (simp add: try_dequeue_def remove_at_def)
  moreover have "queue_saved w2" using s d by simp
  ultimately show ?thesis using assms(2) by (simp add: decide_next_def dequeue_or_wait_def)
qed

end
