(* ===== verification/Outbox.thy ===== *)
theory Outbox
  imports Channels "HOL-Library.Word"
begin

text \<open>
  The outbound queue (\<open>internal/channel/outbox/outbox.go\<close>): the operations waiting for each
  channel, and the goroutine that delivers them one by one as a machine, a phase per place
  where it blocks or calls the transport. The answers of the transport, the passing of time and
  the cancellation are the events of a run. A step also reports what became of the operations
  it disposed of.

  The proxy id of a sent message is drawn at random by \<open>id.Generate\<close>; here it is an argument.
\<close>

datatype op_kind = OpSend | OpEdit | OpDone

record outbox_op =
  oo_kind :: op_kind
  oo_channel :: channel_id
  oo_proxy :: message_id
  oo_target :: message_id
  oo_text :: string
  oo_notify :: bool
  oo_rich :: bool
  oo_seq :: "64 word"

record channel_queue =
  cq_ops :: "outbox_op list"
  cq_proxies :: "message_id \<Rightarrow> message_id option"
  cq_wake :: bool
  cq_drain :: "nat list"
  cq_delivering :: bool
  cq_dirty :: bool

record persisted_outbox =
  po_ops :: "outbox_op list"
  po_proxies :: "message_id \<Rightarrow> message_id option"
  po_seq :: "64 word"

text \<open>
  \<open>ob_down\<close> says whether the context is cancelled; \<open>ob_closed\<close> holds the drain waiters that
  have been closed.
\<close>

record outbox =
  ob_queues :: "channel_id \<Rightarrow> channel_queue option"
  ob_seq :: "64 word"
  ob_store :: "persisted_outbox store"
  ob_down :: bool
  ob_closed :: "nat list"
  ob_next :: nat

definition outbox_key :: "channel_id \<Rightarrow> string" where
  "outbox_key c = ''outbox/'' @ c"

definition new_outbox :: "persisted_outbox store \<Rightarrow> outbox" where
  "new_outbox st = \<lparr>ob_queues = (\<lambda>_. None), ob_seq = 0, ob_store = st, ob_down = False, ob_closed = [], ob_next = 0\<rparr>"

definition new_channel_queue :: channel_queue where
  "new_channel_queue = \<lparr>cq_ops = [], cq_proxies = (\<lambda>_. None), cq_wake = False, cq_drain = [],
                        cq_delivering = False, cq_dirty = False\<rparr>"

definition put_queue :: "channel_id \<Rightarrow> channel_queue \<Rightarrow> outbox \<Rightarrow> outbox" where
  "put_queue c cq ob = ob\<lparr>ob_queues := (ob_queues ob)(c \<mapsto> cq)\<rparr>"

subsection \<open>Persistence\<close>

definition write_queue :: "channel_id \<Rightarrow> channel_queue \<Rightarrow> outbox \<Rightarrow> store_error option \<times> outbox" where
  "write_queue c cq ob =
     (case store_set (outbox_key c)
             \<lparr>po_ops = cq_ops cq, po_proxies = cq_proxies cq, po_seq = ob_seq ob\<rparr> (ob_store ob) of
        (e, st) \<Rightarrow> (e, ob\<lparr>ob_store := st\<rparr>))"

definition persist_channel :: "channel_id \<Rightarrow> outbox \<Rightarrow> store_error option \<times> outbox" where
  "persist_channel c ob =
     (case ob_queues ob c of
        None \<Rightarrow> (None, ob)
      | Some cq \<Rightarrow> write_queue c cq (put_queue c (cq\<lparr>cq_dirty := False\<rparr>) ob))"

definition persist_channel_locked :: "channel_id \<Rightarrow> channel_queue \<Rightarrow> outbox \<Rightarrow> outbox" where
  "persist_channel_locked c cq ob = snd (write_queue c cq ob)"

definition maybe_persist :: "channel_id \<Rightarrow> outbox \<Rightarrow> outbox" where
  "maybe_persist c ob =
     (case ob_queues ob c of
        None \<Rightarrow> ob
      | Some cq \<Rightarrow> if \<not> cq_dirty cq then ob else snd (persist_channel c ob))"

text \<open>One channel of \<open>loadPersisted\<close>; every failure is logged and skips the channel.\<close>

definition load_channel :: "channel_id \<Rightarrow> outbox \<Rightarrow> outbox" where
  "load_channel c ob =
     (case store_get (outbox_key c) (ob_store ob) of
        (Inl e, st) \<Rightarrow> ob\<lparr>ob_store := st\<rparr>
      | (Inr (Some (Doc d)), st) \<Rightarrow>
          if po_ops d = [] then ob\<lparr>ob_store := st\<rparr>
          else (put_queue c (new_channel_queue\<lparr>cq_ops := po_ops d, cq_proxies := po_proxies d\<rparr>) ob)
                 \<lparr>ob_store := st, ob_seq := (if ob_seq ob < po_seq d then po_seq d else ob_seq ob)\<rparr>
      | (Inr _, st) \<Rightarrow> ob\<lparr>ob_store := st\<rparr>)"

text \<open>\<open>Start\<close>, once the goroutines of an earlier start have exited.\<close>

definition outbox_start :: "channel_id list \<Rightarrow> outbox \<Rightarrow> outbox" where
  "outbox_start chans ob = fold load_channel chans (ob\<lparr>ob_down := False\<rparr>)"

definition outbox_stop :: "outbox \<Rightarrow> outbox" where
  "outbox_stop ob = ob\<lparr>ob_down := True\<rparr>"

subsection \<open>Enqueueing\<close>

definition wake_queue :: "channel_id \<Rightarrow> outbox \<Rightarrow> outbox" where
  "wake_queue c ob =
     (case ob_queues ob c of None \<Rightarrow> ob | Some cq \<Rightarrow> put_queue c (cq\<lparr>cq_wake := True\<rparr>) ob)"

definition append_op :: "channel_id \<Rightarrow> outbox_op \<Rightarrow> outbox \<Rightarrow> outbox" where
  "append_op c op ob =
     (let n = ob_seq ob + 1;
          cq = (case ob_queues ob c of None \<Rightarrow> new_channel_queue | Some cq \<Rightarrow> cq)
      in put_queue c (cq\<lparr>cq_ops := cq_ops cq @ [op\<lparr>oo_seq := n\<rparr>], cq_dirty := True\<rparr>) (ob\<lparr>ob_seq := n\<rparr>))"

definition outbox_enqueue :: "channel_id \<Rightarrow> outbox_op \<Rightarrow> bool \<Rightarrow> outbox \<Rightarrow> store_error option \<times> outbox" where
  "outbox_enqueue c op persist ob =
     (let ob1 = append_op c op ob
      in if persist then
           (case persist_channel c ob1 of
              (Some e, ob2) \<Rightarrow> (Some e, ob2)
            | (None, ob2) \<Rightarrow> (None, wake_queue c ob2))
         else (None, wake_queue c ob1))"

definition blank_op :: "op_kind \<Rightarrow> channel_id \<Rightarrow> outbox_op" where
  "blank_op k c = \<lparr>oo_kind = k, oo_channel = c, oo_proxy = [], oo_target = [], oo_text = [], oo_notify = False,
                   oo_rich = False, oo_seq = 0\<rparr>"

definition outbox_send ::
  "channel_id \<Rightarrow> string \<Rightarrow> bool \<Rightarrow> bool \<Rightarrow> message_id \<Rightarrow> outbox \<Rightarrow> (store_error + message_id) \<times> outbox" where
  "outbox_send c text notify rich proxy ob =
     (case outbox_enqueue c ((blank_op OpSend c)\<lparr>oo_proxy := proxy, oo_text := text, oo_notify := notify,
                                              oo_rich := rich\<rparr>) True ob of
        (Some e, ob') \<Rightarrow> (Inl e, ob')
      | (None, ob') \<Rightarrow> (Inr proxy, ob'))"

definition outbox_edit ::
  "channel_id \<Rightarrow> message_id \<Rightarrow> string \<Rightarrow> outbox \<Rightarrow> store_error option \<times> outbox" where
  "outbox_edit c proxy text ob =
     outbox_enqueue c ((blank_op OpEdit c)\<lparr>oo_target := proxy, oo_text := text\<rparr>) False ob"

definition outbox_done :: "channel_id \<Rightarrow> outbox \<Rightarrow> store_error option \<times> outbox" where
  "outbox_done c ob = outbox_enqueue c (blank_op OpDone c) True ob"

subsection \<open>Flush\<close>

definition flush_channel :: "channel_id \<Rightarrow> outbox \<Rightarrow> nat list \<times> outbox" where
  "flush_channel c ob =
     (case ob_queues ob c of
        None \<Rightarrow> ([], ob)
      | Some cq \<Rightarrow>
          if cq_ops cq = [] \<and> \<not> cq_delivering cq then ([], ob)
          else ([ob_next ob],
                put_queue c (cq\<lparr>cq_drain := cq_drain cq @ [ob_next ob], cq_wake := True\<rparr>)
                  (ob\<lparr>ob_next := Suc (ob_next ob)\<rparr>)))"

definition signal_drain_if_empty :: "channel_id \<Rightarrow> outbox \<Rightarrow> outbox" where
  "signal_drain_if_empty c ob =
     (case ob_queues ob c of
        None \<Rightarrow> ob
      | Some cq \<Rightarrow>
          if cq_ops cq = [] \<and> \<not> cq_delivering cq \<and> cq_drain cq \<noteq> []
          then put_queue c (cq\<lparr>cq_drain := []\<rparr>) (ob\<lparr>ob_closed := ob_closed ob @ cq_drain cq\<rparr>)
          else ob)"

subsection \<open>Errors of the transport\<close>

definition permanent_marks :: "string list" where
  "permanent_marks = [''Forbidden'', ''chat not found'', ''bot was blocked'', ''can't parse entities'',
                      ''must be encoded in UTF-8'', ''message is too long'']"

definition is_permanent_error :: "string \<Rightarrow> bool" where
  "is_permanent_error msg = list_ex (str_contains msg) permanent_marks"

definition is_skippable_error :: "string \<Rightarrow> bool" where
  "is_skippable_error msg = str_contains msg ''message is not modified''"

subsection \<open>Delivery\<close>

definition superseded :: "outbox_op \<Rightarrow> outbox_op list \<Rightarrow> bool" where
  "superseded op rest =
     (oo_kind op = OpEdit \<and> list_ex (\<lambda>later. oo_kind later = OpEdit \<and> oo_target later = oo_target op) rest)"

text \<open>The edits skipped, and the operation taken with what stays behind it.\<close>

fun dequeue_ops :: "outbox_op list \<Rightarrow> outbox_op list \<times> (outbox_op \<times> outbox_op list) option" where
  "dequeue_ops [] = ([], None)"
| "dequeue_ops (op # ops) =
     (if superseded op ops then (case dequeue_ops ops of (skipped, r) \<Rightarrow> (op # skipped, r))
      else ([], Some (op, ops)))"

datatype transport_call = CallSend string bool bool | CallEdit message_id string | CallDone

datatype fate =
    Delivered transport_call | Superseded | NoChannel | UnresolvedTarget
  | PermanentFailure | NotModified | RetriesExceeded

datatype delivery =
    Polling | Taken outbox_op | Attempting outbox_op nat duration | Pausing outbox_op nat duration | Idling | Exited

datatype delivery_event =
    Proceed | Accepted message_id | Rejected string | PauseOver | Interrupt | Woken | Tick

definition max_delay :: duration where "max_delay = 30 * second"
definition max_retries :: nat where "max_retries = 50"

definition next_delay :: "duration \<Rightarrow> duration" where
  "next_delay d = (if d < max_delay then (if max_delay < d * 2 then max_delay else d * 2) else d)"

definition resolve_proxy :: "channel_queue \<Rightarrow> message_id \<Rightarrow> message_id" where
  "resolve_proxy cq proxy = (case cq_proxies cq proxy of None \<Rightarrow> [] | Some real \<Rightarrow> real)"

text \<open>The call an operation makes; none for an edit of a message that was never sent.\<close>

definition call_of :: "channel_queue \<Rightarrow> outbox_op \<Rightarrow> transport_call option" where
  "call_of cq op =
     (case oo_kind op of
        OpSend \<Rightarrow> Some (CallSend (oo_text op) (oo_notify op) (oo_rich op))
      | OpEdit \<Rightarrow>
          (let real = resolve_proxy cq (oo_target op) in if real = [] then None else Some (CallEdit real (oo_text op)))
      | OpDone \<Rightarrow> Some CallDone)"

definition accept_op :: "outbox_op \<Rightarrow> message_id \<Rightarrow> channel_queue \<Rightarrow> channel_queue" where
  "accept_op op real cq =
     (if oo_kind op = OpSend
      then cq\<lparr>cq_proxies := (cq_proxies cq)(oo_proxy op \<mapsto> real), cq_dirty := True\<rparr> else cq)"

type_synonym delivery_result = "delivery \<times> outbox \<times> (outbox_op \<times> fate) list"

definition end_delivery :: "channel_id \<Rightarrow> channel_queue \<Rightarrow> outbox \<Rightarrow> outbox" where
  "end_delivery c cq ob = signal_drain_if_empty c (put_queue c (cq\<lparr>cq_delivering := False\<rparr>) ob)"

definition requeue :: "channel_id \<Rightarrow> outbox_op \<Rightarrow> channel_queue \<Rightarrow> outbox \<Rightarrow> delivery_result" where
  "requeue c op cq ob =
     (Polling, end_delivery c (cq\<lparr>cq_ops := op # cq_ops cq, cq_dirty := True\<rparr>) ob, [])"

text \<open>
  The loop takes an operation from the queue and says that it is delivering in two critical
  sections; \<open>Taken\<close> is the moment between them.
\<close>

definition poll_queue :: "channel_id \<Rightarrow> channel_queue \<Rightarrow> outbox \<Rightarrow> delivery_result" where
  "poll_queue c cq ob =
     (if ob_down ob then (Exited, persist_channel_locked c cq ob, [])
      else (case dequeue_ops (cq_ops cq) of
              (skipped, None) \<Rightarrow> (Idling, signal_drain_if_empty c ob, [])
            | (skipped, Some (op, rest)) \<Rightarrow>
                (Taken op, put_queue c (cq\<lparr>cq_ops := rest, cq_dirty := True\<rparr>) ob,
                 map (\<lambda>o'. (o', Superseded)) skipped)))"

definition begin_delivery ::
  "channel_map \<Rightarrow> channel_id \<Rightarrow> outbox_op \<Rightarrow> channel_queue \<Rightarrow> outbox \<Rightarrow> delivery_result" where
  "begin_delivery chans c op cq ob =
     (if map_of chans c = None then (Polling, end_delivery c cq ob, [(op, NoChannel)])
      else (Attempting op 0 second, put_queue c (cq\<lparr>cq_delivering := True\<rparr>) ob, []))"

definition handle_rejection ::
  "channel_id \<Rightarrow> outbox_op \<Rightarrow> nat \<Rightarrow> duration \<Rightarrow> string \<Rightarrow> channel_queue \<Rightarrow> outbox \<Rightarrow> delivery_result" where
  "handle_rejection c op k delay msg cq ob =
     (if ob_down ob then requeue c op cq ob
      else if is_permanent_error msg then (Polling, end_delivery c cq ob, [(op, PermanentFailure)])
      else if is_skippable_error msg then (Polling, end_delivery c cq ob, [(op, NotModified)])
      else (Pausing op k delay, ob, []))"

text \<open>One pass of the retry loop: the call and its answer, then the pause.\<close>

definition attempt_step ::
  "channel_id \<Rightarrow> delivery_event \<Rightarrow> outbox_op \<Rightarrow> nat \<Rightarrow> duration \<Rightarrow> channel_queue \<Rightarrow> outbox \<Rightarrow>
     delivery_result option" where [simp]:
  "attempt_step c ev op k delay cq ob =
     (case call_of cq op of
        None \<Rightarrow>
          (if ev = Proceed then Some (Polling, end_delivery c cq ob, [(op, UnresolvedTarget)]) else None)
      | Some call \<Rightarrow>
          (case ev of
             Accepted real \<Rightarrow> Some (Polling, end_delivery c (accept_op op real cq) ob, [(op, Delivered call)])
           | Rejected msg \<Rightarrow> Some (handle_rejection c op k delay msg cq ob)
           | _ \<Rightarrow> None))"

definition pause_step ::
  "channel_id \<Rightarrow> delivery_event \<Rightarrow> outbox_op \<Rightarrow> nat \<Rightarrow> duration \<Rightarrow> channel_queue \<Rightarrow> outbox \<Rightarrow>
     delivery_result option" where [simp]:
  "pause_step c ev op k delay cq ob =
     (case ev of
        PauseOver \<Rightarrow>
          Some (if k < max_retries then (Attempting op (Suc k) (next_delay delay), ob, [])
                else (Polling, end_delivery c cq ob, [(op, RetriesExceeded)]))
      | Interrupt \<Rightarrow> if ob_down ob then Some (requeue c op cq ob) else None
      | _ \<Rightarrow> None)"

text \<open>One step of the goroutine of a channel; \<open>None\<close> where the event cannot happen.\<close>

fun delivery_step ::
  "channel_map \<Rightarrow> channel_id \<Rightarrow> delivery_event \<Rightarrow> delivery \<Rightarrow> channel_queue \<Rightarrow> outbox \<Rightarrow> delivery_result option" where
  "delivery_step chans c ev Polling cq ob = (if ev = Proceed then Some (poll_queue c cq ob) else None)"
| "delivery_step chans c ev (Taken op) cq ob =
     (if ev = Proceed then Some (begin_delivery chans c op cq ob) else None)"
| "delivery_step chans c ev (Attempting op k delay) cq ob = attempt_step c ev op k delay cq ob"
| "delivery_step chans c ev (Pausing op k delay) cq ob = pause_step c ev op k delay cq ob"
| "delivery_step chans c ev Idling cq ob =
     (case ev of
        Interrupt \<Rightarrow> if ob_down ob then Some (Exited, persist_channel_locked c cq ob, []) else None
      | Woken \<Rightarrow> if cq_wake cq then Some (Polling, put_queue c (cq\<lparr>cq_wake := False\<rparr>) ob, []) else None
      | Tick \<Rightarrow> Some (Polling, maybe_persist c ob, [])
      | _ \<Rightarrow> None)"
| "delivery_step chans c ev Exited cq ob = None"

subsection \<open>Runs of a delivery goroutine\<close>

text \<open>
  What can happen to the queue of channel \<open>c\<close>: the steps of its goroutine, operations enqueued
  for it, and whatever the outbox does elsewhere (other channels, the file, the cancellation,
  waiters, the wake signal), which leaves its operations alone. The lists hold the operations
  enqueued and what became of those disposed of.
\<close>

definition queue_ops :: "channel_id \<Rightarrow> outbox \<Rightarrow> outbox_op list" where
  "queue_ops c ob = (case ob_queues ob c of None \<Rightarrow> [] | Some cq \<Rightarrow> cq_ops cq)"

inductive delivery_run ::
  "channel_id \<Rightarrow> delivery \<times> outbox \<Rightarrow> outbox_op list \<Rightarrow> (outbox_op \<times> fate) list \<Rightarrow> delivery \<times> outbox \<Rightarrow> bool"
  for c where
  begun: "delivery_run c s [] [] s"
| own: "delivery_run c s ops fs (ph, ob) \<Longrightarrow> ob_queues ob c = Some cq \<Longrightarrow>
    delivery_step chans c ev ph cq ob = Some (ph', ob', fs') \<Longrightarrow> delivery_run c s ops (fs @ fs') (ph', ob')"
| enqueued: "delivery_run c s ops fs (ph, ob) \<Longrightarrow> outbox_enqueue c op persist ob = (r, ob') \<Longrightarrow>
    delivery_run c s (ops @ [op\<lparr>oo_seq := ob_seq ob'\<rparr>]) fs (ph, ob')"
| elsewhere: "delivery_run c s ops fs (ph, ob) \<Longrightarrow> queue_ops c ob' = queue_ops c ob \<Longrightarrow>
    delivery_run c s ops fs (ph, ob')"

inductive_cases delivery_run_cases: "delivery_run c s ops fs s'"

fun in_hand :: "delivery \<Rightarrow> outbox_op list" where
  "in_hand (Taken op) = [op]"
| "in_hand (Attempting op k d) = [op]"
| "in_hand (Pausing op k d) = [op]"
| "in_hand Polling = []"
| "in_hand Idling = []"
| "in_hand Exited = []"

lemma put_queue_simps [simp]:
  "ob_queues (put_queue c cq ob) d = (if d = c then Some cq else ob_queues ob d)"
  "ob_seq (put_queue c cq ob) = ob_seq ob" "ob_down (put_queue c cq ob) = ob_down ob"
  "ob_store (put_queue c cq ob) = ob_store ob" "ob_closed (put_queue c cq ob) = ob_closed ob"
  "queue_ops c (put_queue c cq ob) = cq_ops cq"
  by (simp_all add: put_queue_def queue_ops_def)

lemma write_queue_simps [simp]:
  "ob_queues (snd (write_queue c cq ob)) = ob_queues ob" "ob_seq (snd (write_queue c cq ob)) = ob_seq ob"
  by (simp_all add: write_queue_def split: prod.split)

lemma drain_ops [simp]: "queue_ops c (signal_drain_if_empty d ob) = queue_ops c ob"
  by (simp add: signal_drain_if_empty_def queue_ops_def put_queue_def split: option.split)

lemma end_delivery_ops [simp]: "queue_ops c (end_delivery c cq ob) = cq_ops cq"
  by (simp add: end_delivery_def)

lemma wake_ops [simp]: "queue_ops c (wake_queue d ob) = queue_ops c ob" "ob_seq (wake_queue d ob) = ob_seq ob"
  by (simp_all add: wake_queue_def queue_ops_def put_queue_def split: option.split)

lemma persist_ops [simp]:
  "queue_ops c (snd (persist_channel d ob)) = queue_ops c ob" "ob_seq (snd (persist_channel d ob)) = ob_seq ob"
  "queue_ops c (persist_channel_locked d cq ob) = queue_ops c ob" "queue_ops c (maybe_persist d ob) = queue_ops c ob"
  by (simp_all add: persist_channel_def persist_channel_locked_def maybe_persist_def queue_ops_def put_queue_def
      split: option.split)

lemma accept_ops [simp]: "cq_ops (accept_op op real cq) = cq_ops cq"
  by (simp add: accept_op_def)

lemma enqueue_ops:
  assumes "outbox_enqueue c op persist ob = (r, ob')"
  shows "queue_ops c ob' = queue_ops c ob @ [op\<lparr>oo_seq := ob_seq ob'\<rparr>]"
proof -
  have a: "queue_ops c (append_op c op ob) = queue_ops c ob @ [op\<lparr>oo_seq := ob_seq ob + 1\<rparr>]"
    "ob_seq (append_op c op ob) = ob_seq ob + 1"
    by (simp_all add: append_op_def Let_def) (simp add: queue_ops_def new_channel_queue_def split: option.split)
  obtain e ob2 where p: "persist_channel c (append_op c op ob) = (e, ob2)" by fastforce
  then have "queue_ops c ob2 = queue_ops c (append_op c op ob)" "ob_seq ob2 = ob_seq (append_op c op ob)"
    using persist_ops(1) [of c c "append_op c op ob"] persist_ops(2) [of c "append_op c op ob"] by simp_all
  with assms p a show ?thesis
    by (auto simp: outbox_enqueue_def Let_def split: if_splits option.splits)
qed

text \<open>
  What every step keeps: the operations stay in line, and a skipped edit has a later edit of the
  same message behind it.
\<close>

fun skips_justified :: "(outbox_op \<times> fate) list \<Rightarrow> outbox_op list \<Rightarrow> bool" where
  "skips_justified [] after = True"
| "skips_justified ((op, f) # fs) after =
     ((f = Superseded \<longrightarrow> superseded op (map fst fs @ after)) \<and> skips_justified fs after)"

definition in_line :: "outbox_op list \<Rightarrow> (outbox_op \<times> fate) list \<Rightarrow> outbox_op list \<Rightarrow> bool" where
  "in_line before fs after = (before = map fst fs @ after \<and> skips_justified fs after)"

lemma superseded_more: "superseded op rest \<Longrightarrow> superseded op (rest @ extra)"
  by (auto simp: superseded_def)

lemma in_line_none: "in_line before [] before"
  by (simp add: in_line_def)

lemma in_line_one: "f \<noteq> Superseded \<Longrightarrow> in_line (op # rest) [(op, f)] rest"
  by (simp add: in_line_def)

lemma skips_more: "skips_justified fs after \<Longrightarrow> skips_justified fs (after @ extra)"
  by (induction fs after rule: skips_justified.induct)
    (auto dest: superseded_more [of _ _ extra])

lemma in_line_more: "in_line before fs after \<Longrightarrow> in_line (before @ extra) fs (after @ extra)"
  by (auto simp: in_line_def skips_more)

lemma skips_append:
  "skips_justified fs (map fst fs' @ after) \<Longrightarrow> skips_justified fs' after \<Longrightarrow> skips_justified (fs @ fs') after"
  by (induction fs "map fst fs' @ after" rule: skips_justified.induct) auto

lemma in_line_trans: "in_line before fs mid \<Longrightarrow> in_line mid fs' after \<Longrightarrow> in_line before (fs @ fs') after"
  by (auto simp: in_line_def skips_append)

lemma dequeue_ops_split:
  "dequeue_ops ops = (skipped, r) \<Longrightarrow>
     in_line ops (map (\<lambda>o'. (o', Superseded)) skipped) (case r of None \<Rightarrow> [] | Some (op, rest) \<Rightarrow> op # rest) \<and>
     (r = None \<longrightarrow> ops = [])"
proof (induction ops arbitrary: skipped r)
  case Nil
  then show ?case by (auto simp: in_line_def)
next
  case (Cons op ops)
  show ?case
  proof (cases "superseded op ops")
    case False
    with Cons.prems show ?thesis by (auto simp: in_line_def)
  next
    case True
    obtain sk r' where d: "dequeue_ops ops = (sk, r')" by fastforce
    with Cons.prems True have s: "skipped = op # sk" "r = r'" by auto
    from True have "ops \<noteq> []" by (auto simp: superseded_def)
    with Cons.IH [OF d] s True show ?thesis by (auto simp: in_line_def comp_def)
  qed
qed

lemma poll_in_line:
  assumes "poll_queue c cq ob = (ph', ob', fs)" and "ob_queues ob c = Some cq"
  shows "in_line (queue_ops c ob) fs (in_hand ph' @ queue_ops c ob')"
proof -
  have ops: "queue_ops c ob = cq_ops cq" using assms(2) by (simp add: queue_ops_def)
  obtain sk r where d: "dequeue_ops (cq_ops cq) = (sk, r)" by fastforce
  show ?thesis
  proof (cases "ob_down ob \<or> r = None")
    case True
    with assms(1) d in_line_none show ?thesis
      by (auto simp: poll_queue_def split: if_splits)
  next
    case False
    then obtain op rest where r: "r = Some (op, rest)" by auto
    with False assms(1) d have "fs = map (\<lambda>o'. (o', Superseded)) sk" "ph' = Taken op" "queue_ops c ob' = rest"
      by (auto simp: poll_queue_def)
    with dequeue_ops_split [OF d] r ops show ?thesis by simp
  qed
qed

lemma delivery_step_in_line:
  assumes "delivery_step chans c ev ph cq ob = Some (ph', ob', fs)" and "ob_queues ob c = Some cq"
  shows "in_line (in_hand ph @ queue_ops c ob) fs (in_hand ph' @ queue_ops c ob')"
proof -
  have ops: "queue_ops c ob = cq_ops cq" using assms(2) by (simp add: queue_ops_def)
  show ?thesis
  proof (cases ph)
    case Polling
    with assms poll_in_line show ?thesis by (auto split: if_splits)
  next
    case (Taken op)
    with assms ops show ?thesis
      by (auto simp: begin_delivery_def split: if_splits intro: in_line_none in_line_one)
  next
    case (Attempting op k d)
    with assms ops show ?thesis
      by (cases "call_of cq op"; cases ev)
        (auto simp: handle_rejection_def requeue_def split: if_splits intro: in_line_none in_line_one)
  next
    case (Pausing op k d)
    with assms ops show ?thesis
      by (cases ev) (auto simp: requeue_def split: if_splits intro: in_line_none in_line_one)
  next
    case Idling
    with assms ops show ?thesis
      by (cases ev) (auto split: if_splits intro: in_line_none)
  next
    case Exited
    with assms show ?thesis by simp
  qed
qed

lemma run_in_line:
  "delivery_run c s ops fs s' \<Longrightarrow>
     in_line (in_hand (fst s) @ queue_ops c (snd s) @ ops) fs (in_hand (fst s') @ queue_ops c (snd s'))"
proof (induction rule: delivery_run.induct)
  case (begun s)
  then show ?case by (simp add: in_line_none)
next
  case (own s ops fs ph ob cq chans ev ph' ob' fs')
  then show ?case using in_line_trans delivery_step_in_line by fastforce
next
  case (enqueued s ops fs ph ob op persist r ob')
  then show ?case
    using in_line_more [of _ fs _ "[op\<lparr>oo_seq := ob_seq ob'\<rparr>]"] enqueue_ops by fastforce
next
  case (elsewhere s ops fs ph ob ob')
  then show ?case by simp
qed

text \<open>
  C34. From one start of the outbox to the next, a channel's operations are disposed of in the order
  they were enqueued, each once, and none is lost from memory: what was queued and enqueued is what
  has been disposed of, then the operation in hand, then the queue. Disposed of is: accepted by the
  transport, given up after a permanent rejection or fifty retries, not modified, without a channel
  or without a message to edit, or superseded; and an edit is skipped as superseded only if a later
  edit of the same message stands after it in that order. Loading the queues anew at the next
  start, which puts the stored operations in the place of those in memory, is not a step of the run.
\<close>

theorem outbox_delivers_in_order:
  assumes "delivery_run c (Polling, ob) ops fs (ph, ob')"
  shows "queue_ops c ob @ ops = map fst fs @ in_hand ph @ queue_ops c ob' \<and>
    skips_justified fs (in_hand ph @ queue_ops c ob')"
  using run_in_line [OF assms] by (simp add: in_line_def)

definition sample_edit :: "string \<Rightarrow> outbox_op" where
  "sample_edit text = (blank_op OpEdit ''c'')\<lparr>oo_target := ''m1'', oo_text := text\<rparr>"

definition sample_outbox :: outbox where
  "sample_outbox = put_queue ''c''
     (new_channel_queue\<lparr>cq_ops := [sample_edit ''draft'', sample_edit ''final''], cq_proxies := [''m1'' \<mapsto> ''17'']\<rparr>)
     (new_outbox fresh_store)"

lemma sample_outbox_run:
  "\<exists>ob'. delivery_run ''c'' (Polling, sample_outbox) [] [(sample_edit ''draft'', Superseded)]
     (Taken (sample_edit ''final''), ob') \<and> queue_ops ''c'' ob' = []"
proof -
  let ?cq = "new_channel_queue\<lparr>cq_ops := [sample_edit ''draft'', sample_edit ''final''], cq_proxies := [''m1'' \<mapsto> ''17'']\<rparr>"
  have q: "ob_queues sample_outbox ''c'' = Some ?cq" by (simp add: sample_outbox_def)
  obtain ob' where "delivery_step [] ''c'' Proceed Polling ?cq sample_outbox =
      Some (Taken (sample_edit ''final''), ob', [(sample_edit ''draft'', Superseded)])"
    and ops: "queue_ops ''c'' ob' = []"
    by (simp add: poll_queue_def sample_outbox_def new_outbox_def superseded_def sample_edit_def blank_op_def)
  from delivery_run.own [OF delivery_run.begun q this(1)] ops show ?thesis by auto
qed

theorem outbox_delivers_in_order_witness:
  "\<exists>ob'. queue_ops ''c'' sample_outbox = [sample_edit ''draft'', sample_edit ''final''] @ queue_ops ''c'' ob' \<and>
     superseded (sample_edit ''draft'') [sample_edit ''final'']"
proof -
  obtain ob' where r: "delivery_run ''c'' (Polling, sample_outbox) [] [(sample_edit ''draft'', Superseded)]
     (Taken (sample_edit ''final''), ob')" and e: "queue_ops ''c'' ob' = []" using sample_outbox_run by blast
  from outbox_delivers_in_order [OF r] e show ?thesis by (intro exI [of _ ob']) simp
qed

subsection \<open>Retries end\<close>

definition backoff_ok :: "delivery \<Rightarrow> bool" where
  "backoff_ok ph =
     (case ph of
        Attempting op k d \<Rightarrow> k \<le> max_retries \<and> d = min (2 ^ k * second) max_delay
      | Pausing op k d \<Rightarrow> k \<le> max_retries \<and> d = min (2 ^ k * second) max_delay
      | _ \<Rightarrow> True)"

lemma second_pos [simp]: "0 < second" "second \<le> max_delay"
  by (simp_all add: second_def max_delay_def)

lemma next_delay_min: "0 < x \<Longrightarrow> next_delay (min x max_delay) = min (2 * x) max_delay"
  by (auto simp: next_delay_def min_def)

lemma next_delay_doubles: "next_delay (min (2 ^ k * second) max_delay) = min (2 ^ Suc k * second) max_delay"
  using next_delay_min [of "2 ^ k * second"] by (simp add: mult.assoc)

lemma delivery_step_backoff:
  assumes "delivery_step chans c ev ph cq ob = Some (ph', ob', fs)" and "backoff_ok ph"
  shows "backoff_ok ph'"
proof (cases ph)
  case Polling
  with assms show ?thesis
    by (auto simp: poll_queue_def backoff_ok_def split: if_splits prod.splits option.splits)
next
  case (Taken op)
  with assms show ?thesis
    by (auto simp: begin_delivery_def backoff_ok_def max_retries_def min_def split: if_splits)
next
  case (Attempting op k d)
  with assms show ?thesis
    by (cases "call_of cq op"; cases ev)
      (auto simp: handle_rejection_def requeue_def backoff_ok_def split: if_splits)
next
  case (Pausing op k d)
  with assms show ?thesis
    by (cases ev) (auto simp: requeue_def backoff_ok_def next_delay_doubles split: if_splits)
next
  case Idling
  with assms show ?thesis by (cases ev) (auto simp: backoff_ok_def split: if_splits)
qed (use assms in simp)

text \<open>
  No operation is retried without end: at every moment of a run the operation in hand has
  been retried at most 50 times and the pause before the next attempt is the power of two of
  seconds for its retries, up to half a minute; after the last pause the operation is dropped.
\<close>

theorem retries_bounded:
  assumes "delivery_run c (Polling, ob0) ops fs (Pausing op k d, ob)"
  shows "k \<le> max_retries \<and> d = min (2 ^ k * second) max_delay \<and>
    (case delivery_step chans c PauseOver (Pausing op k d) cq ob of
       None \<Rightarrow> False
     | Some (ph, ob', fs') \<Rightarrow>
         if k = max_retries then ph = Polling \<and> fs' = [(op, RetriesExceeded)]
         else ph = Attempting op (Suc k) (min (2 ^ Suc k * second) max_delay))"
proof -
  have "delivery_run c s ops fs s' \<Longrightarrow> backoff_ok (fst s) \<Longrightarrow> backoff_ok (fst s')" for s s'
    by (induction rule: delivery_run.induct) (auto dest: delivery_step_backoff)
  from this [OF assms] have "k \<le> max_retries" "d = min (2 ^ k * second) max_delay"
    by (simp_all add: backoff_ok_def)
  then show ?thesis using next_delay_doubles [of k] by auto
qed

theorem retries_bounded_witness:
  "\<exists>ob. ob_down ob = False \<and>
     (case delivery_step [] ''c'' PauseOver (Pausing (blank_op OpDone ''c'') 0 second) new_channel_queue ob of
        None \<Rightarrow> False
      | Some (ph, ob', fs') \<Rightarrow> ph = Attempting (blank_op OpDone ''c'') 1 (2 * second))"
proof -
  let ?op = "blank_op OpDone ''c''"
  let ?chans = "[(''c'', \<lparr>ch_id = ''c'', ch_name = ''dev'', ch_type = ''socket'', ch_prompter = False\<rparr>)]"
  let ?cq = "new_channel_queue\<lparr>cq_ops := [?op]\<rparr>"
  let ?ob = "put_queue ''c'' ?cq (new_outbox fresh_store)"
  let ?cq1 = "?cq\<lparr>cq_ops := [], cq_dirty := True\<rparr>"
  let ?ob1 = "put_queue ''c'' ?cq1 ?ob"
  let ?ob2 = "put_queue ''c'' (?cq1\<lparr>cq_delivering := True\<rparr>) ?ob1"
  have "delivery_run ''c'' (Polling, ?ob) [] ([] @ []) (Taken ?op, ?ob1)"
    by (rule delivery_run.own [OF delivery_run.begun, of _ _ ?cq ?chans Proceed])
      (simp_all add: poll_queue_def superseded_def blank_op_def new_outbox_def)
  then have "delivery_run ''c'' (Polling, ?ob) [] (([] @ []) @ []) (Attempting ?op 0 second, ?ob2)"
    by (rule delivery_run.own [of _ _ _ _ _ _ ?cq1 ?chans Proceed]) (simp_all add: begin_delivery_def)
  then have r: "delivery_run ''c'' (Polling, ?ob) [] ((([] @ []) @ []) @ []) (Pausing ?op 0 second, ?ob2)"
    by (rule delivery_run.own [of _ _ _ _ _ _ "?cq1\<lparr>cq_delivering := True\<rparr>" ?chans "Rejected ''timeout''"])
      (simp_all add: call_of_def blank_op_def handle_rejection_def new_outbox_def is_permanent_error_def
        permanent_marks_def is_skippable_error_def str_contains_def)
  have down: "ob_down ?ob2 = False" by (simp add: new_outbox_def)
  from retries_bounded [OF r, of "[]" new_channel_queue] down show ?thesis
    by (intro exI [of _ ?ob2]) (auto simp: max_retries_def max_delay_def second_def)
qed

subsection \<open>What a restart finds\<close>

lemma write_queue_saves:
  assumes "writable (ob_store ob) (outbox_key c)"
  shows "writable (ob_store (snd (write_queue c cq ob))) (outbox_key c) \<and>
    store_view (ob_store (snd (write_queue c cq ob))) (outbox_key c) =
      Some (Doc \<lparr>po_ops = cq_ops cq, po_proxies = cq_proxies cq, po_seq = ob_seq ob\<rparr>)"
  using set_writable [OF assms, of "\<lparr>po_ops = cq_ops cq, po_proxies = cq_proxies cq, po_seq = ob_seq ob\<rparr>"]
  by (auto simp: write_queue_def)

lemma exit_persists:
  "delivery_step chans c ev ph cq ob = Some (Exited, ob', fs) \<Longrightarrow>
     ob' = snd (write_queue c cq ob) \<and> (ph = Polling \<or> ph = Idling) \<and> fs = []"
  by (cases ph; cases ev)
    (auto simp: poll_queue_def begin_delivery_def handle_rejection_def requeue_def persist_channel_locked_def
      split: if_splits option.splits prod.splits)

text \<open>
  A graceful stop keeps what is undelivered: when the goroutine of a channel exits, nothing is
  in its hand and, if the file can be written, an outbox started from the store by a new process
  has the same operations waiting for the channel, and where there are any also the ids of the
  messages already sent.
\<close>

theorem stop_keeps_undelivered:
  assumes "delivery_step chans c ev ph cq ob = Some (Exited, ob', fs)" and "ob_queues ob c = Some cq"
    and "writable (ob_store ob) (outbox_key c)"
  shows "in_hand ph = [] \<and> queue_ops c (outbox_start [c] (new_outbox (ob_store ob'))) = queue_ops c ob \<and>
    (queue_ops c ob \<noteq> [] \<longrightarrow>
       map_option cq_proxies (ob_queues (outbox_start [c] (new_outbox (ob_store ob'))) c) = Some (cq_proxies cq))"
proof -
  note exited = exit_persists [OF assms(1)]
  note saved = write_queue_saves [OF assms(3), of cq]
  have st: "ob_store ((new_outbox (ob_store ob'))\<lparr>ob_down := False\<rparr>) = ob_store ob'" by (simp add: new_outbox_def)
  have get: "store_get (outbox_key c) (ob_store ob') =
      (Inr (Some (Doc \<lparr>po_ops = cq_ops cq, po_proxies = cq_proxies cq, po_seq = ob_seq ob\<rparr>)), ob_store ob')"
    using saved exited by (simp add: get_writable)
  have ops: "queue_ops c ob = cq_ops cq" using assms(2) by (simp add: queue_ops_def)
  have "in_hand ph = []" using exited by auto
  moreover have "queue_ops c (outbox_start [c] (new_outbox (ob_store ob'))) = cq_ops cq"
    using get by (simp add: outbox_start_def load_channel_def st queue_ops_def)
      (simp add: new_outbox_def new_channel_queue_def)
  moreover have "map_option cq_proxies (ob_queues (outbox_start [c] (new_outbox (ob_store ob'))) c) =
      Some (cq_proxies cq)" if "cq_ops cq \<noteq> []"
    using get that by (simp add: outbox_start_def load_channel_def st)
  ultimately show ?thesis using ops by simp
qed

lemma outbox_key_path: "safe_path ''/data'' (outbox_key ''c'') = Some ''/data/outbox/c''"
  by code_simp

theorem stop_keeps_undelivered_witness:
  "\<exists>ob' :: outbox. queue_ops ''c'' (outbox_start [''c''] (new_outbox (ob_store ob'))) =
     [sample_edit ''draft'', sample_edit ''final'']"
proof -
  let ?cq = "new_channel_queue\<lparr>cq_ops := [sample_edit ''draft'', sample_edit ''final''], cq_proxies := [''m1'' \<mapsto> ''17'']\<rparr>"
  let ?ob = "sample_outbox\<lparr>ob_down := True\<rparr>"
  have st: "delivery_step [] ''c'' Proceed Polling ?cq ?ob = Some (Exited, snd (write_queue ''c'' ?cq ?ob), [])"
    by (simp add: poll_queue_def persist_channel_locked_def)
  have q: "ob_queues ?ob ''c'' = Some ?cq" by (simp add: sample_outbox_def)
  have w: "writable (ob_store ?ob) (outbox_key ''c'')"
    using fresh_writable [OF outbox_key_path] by (simp add: sample_outbox_def new_outbox_def)
  have ops: "queue_ops ''c'' ?ob = [sample_edit ''draft'', sample_edit ''final'']" by (simp add: queue_ops_def sample_outbox_def)
  show ?thesis
    by (rule exI, rule trans [OF stop_keeps_undelivered [OF st q w, THEN conjunct2, THEN conjunct1] ops])
qed

subsection \<open>A crash loses the operation in hand\<close>

text \<open>
  While an operation is being delivered, and retried, it is in no list; when another is then
  enqueued and persisted, the file no longer has the first, so that a process that dies before
  the delivery ends has lost it.
\<close>

lemma crash_loses_op_in_hand:
  assumes "ob_queues ob c = Some cq" and "cq_ops cq = [op]" and "oo_kind op = OpSend" and "\<not> ob_down ob"
    and "writable (ob_store ob) (outbox_key c)"
  shows "\<exists>ob1 ob2. delivery_step chans c Proceed Polling cq ob = Some (Taken op, ob1, []) \<and>
    outbox_enqueue c later True ob1 = (None, ob2) \<and>
    queue_ops c (outbox_start [c] (new_outbox (ob_store ob2))) = [later\<lparr>oo_seq := ob_seq ob + 1\<rparr>]"
proof -
  let ?cq1 = "cq\<lparr>cq_ops := [], cq_dirty := True\<rparr>" and ?op = "later\<lparr>oo_seq := ob_seq ob + 1\<rparr>"
  let ?ob1 = "put_queue c ?cq1 ob"
  let ?cq2 = "?cq1\<lparr>cq_ops := [?op], cq_dirty := True\<rparr>"
  let ?ob2 = "put_queue c (?cq2\<lparr>cq_dirty := False\<rparr>) (put_queue c ?cq2 (?ob1\<lparr>ob_seq := ob_seq ob + 1\<rparr>))"
  have step: "delivery_step chans c Proceed Polling cq ob = Some (Taken op, ?ob1, [])"
    using assms by (simp add: poll_queue_def superseded_def)
  have app: "append_op c later ?ob1 = put_queue c ?cq2 (?ob1\<lparr>ob_seq := ob_seq ob + 1\<rparr>)"
    by (simp add: append_op_def Let_def)
  have w: "writable (ob_store ?ob2) (outbox_key c)" using assms(5) by (simp add: put_queue_def)
  have p: "persist_channel c (append_op c later ?ob1) = write_queue c ?cq2 ?ob2"
    by (simp add: app persist_channel_def)
  obtain e ob3 where wr: "write_queue c ?cq2 ?ob2 = (e, ob3)" by fastforce
  have "e = None" using wr set_writable [OF w] by (auto simp: write_queue_def split: prod.splits) (metis fst_conv)
  then have enq: "outbox_enqueue c later True ?ob1 = (None, wake_queue c ob3)"
    using p wr by (simp add: outbox_enqueue_def Let_def)
  have store: "ob_store (wake_queue c ob3) = ob_store ob3" by (simp add: wake_queue_def split: option.split)
  have "store_get (outbox_key c) (ob_store ob3) =
      (Inr (Some (Doc \<lparr>po_ops = [?op], po_proxies = cq_proxies cq, po_seq = ob_seq ?ob2\<rparr>)), ob_store ob3)"
    using write_queue_saves [OF w, of ?cq2] wr by (simp add: get_writable)
  then have "queue_ops c (outbox_start [c] (new_outbox (ob_store ob3))) = [?op]"
    by (simp add: outbox_start_def load_channel_def new_outbox_def queue_ops_def)
  with step enq store show ?thesis by auto
qed

subsection \<open>Flush between taking and delivering\<close>

text \<open>
  Between the two critical sections of the loop the last operation is neither queued nor being
  delivered, and \<open>Flush\<close> then waits for nothing.
\<close>

lemma flush_misses_taken_op:
  assumes "ob_queues ob c = Some cq" and "cq_ops cq = [op]" and "oo_kind op = OpSend" and "\<not> ob_down ob"
    and "\<not> cq_delivering cq"
  shows "\<exists>ob1. delivery_step chans c Proceed Polling cq ob = Some (Taken op, ob1, []) \<and>
    flush_channel c ob1 = ([], ob1)"
  using assms by (simp add: poll_queue_def superseded_def flush_channel_def)

end
