(* ===== verification/Sandbox.thy ===== *)
theory Sandbox
  imports CliArgs MemoryLayout
begin

text \<open>
  The bubblewrap sandbox a turn's CLI runs in (\<open>agent/sandbox.go\<close> and the paths \<open>handle\<close> gives
  it). The code produces an argument list; what a list makes visible is bubblewrap's own work,
  the parameter \<open>bwrap\<close>. What the code relies on is stated as \<open>bwrap_documented\<close>: mounts are
  made in the order of the arguments and a later one covers an earlier one, \<open>--ro-bind-try\<close>
  skips a path that does not exist, \<open>--tmpfs\<close> is empty and writable and \<open>--remount-ro\<close> takes
  the writing away again.
\<close>

datatype mount_op = RoBindTry string | Bind string | Tmpfs string | RemountRo string | ProcFs | DevFs

record sandbox_paths =
  sp_read_write :: "string list"
  sp_read_only :: "string list"
  sp_read_only_overlay :: "string list"
  sp_masked :: "string list"
  sp_sealed :: "string list"

definition sandbox_ops :: "sandbox_paths \<Rightarrow> mount_op list" where
  "sandbox_ops sp =
     map RoBindTry (sp_read_only sp) @ map Bind (sp_read_write sp) @
     map RoBindTry (sp_read_only_overlay sp) @ map Tmpfs (sp_masked sp) @
     concat (map (\<lambda>p. [Tmpfs p, RemountRo p]) (sp_sealed sp)) @
     [ProcFs, DevFs, Tmpfs ''/tmp'']"

fun render_op :: "mount_op \<Rightarrow> string list" where
  "render_op (RoBindTry p) = [''--ro-bind-try'', p, p]"
| "render_op (Bind p) = [''--bind'', p, p]"
| "render_op (Tmpfs p) = [''--tmpfs'', p]"
| "render_op (RemountRo p) = [''--remount-ro'', p]"
| "render_op ProcFs = [''--proc'', ''/proc'']"
| "render_op DevFs = [''--dev'', ''/dev'']"

text \<open>The arguments \<open>wrapWithSandbox\<close> builds around the original command.\<close>

definition wrap_with_sandbox :: "string \<Rightarrow> string list \<Rightarrow> sandbox_paths \<Rightarrow> string list" where
  "wrap_with_sandbox dir command sp =
     concat (map render_op (sandbox_ops sp)) @
     [''--unshare-pid'', ''--unshare-uts'', ''--share-net'', ''--die-with-parent''] @
     (if dir \<noteq> [] then [''--chdir'', dir] else []) @
     [''--''] @ command"

definition system_read_only_paths :: "string list" where
  "system_read_only_paths =
     [''/usr'', ''/bin'', ''/lib'', ''/lib64'', ''/etc/ssl'', ''/etc/resolv.conf'', ''/etc/hosts'',
      ''/etc/nsswitch.conf'', ''/etc/localtime'', ''/etc/passwd'', ''/etc/group'', ''/usr/share/zoneinfo'',
      ''/usr/local/bin'', ''/usr/local/lib'', ''/usr/local/go'']"

definition dir_path :: "string \<Rightarrow> string" where
  "dir_path p = clean_path (rev (dropWhile (\<lambda>c. c \<noteq> slash) (rev p)))"

definition settings_path :: "agent_options \<Rightarrow> string" where
  "settings_path o1 = join_path (join_path (ao_home_dir o1) ''.claude'') ''settings.json''"

definition below :: "string \<Rightarrow> string \<Rightarrow> bool" where
  "below d p = (p = d \<or> has_prefix p (d @ [slash]))"

text \<open>
  \<open>os.MkdirAll\<close> on the directories in turn, up to the first that fails. The host is the set of paths
  that exist, \<open>ok\<close> the outcome of each call; a success makes the directory and those above it. What
  a failed call leaves half made does not matter: the turn is refused.
\<close>

datatype sandbox_error = NoMemoryDir | CannotCreate string

fun make_dirs ::
  "(string \<Rightarrow> bool) \<Rightarrow> string list \<Rightarrow> (string \<Rightarrow> bool) \<Rightarrow> sandbox_error option \<times> (string \<Rightarrow> bool)" where
  "make_dirs ok [] ex = (None, ex)"
| "make_dirs ok (d # ds) ex =
     (if ok d then make_dirs ok ds (\<lambda>p. ex p \<or> below p d) else (Some (CannotCreate d), ex))"

text \<open>
  The paths of a turn. Without a memory directory the turn is refused, and so it is when the
  rulebook directory or the memory directory's \<open>.claude\<close> cannot be created. \<open>sandbox\<close>, \<open>read_only\<close>
  and \<open>masked\<close> are what the three directory functions return for the message's channel.
\<close>

definition turn_sandbox ::
  "(string \<Rightarrow> bool) \<Rightarrow> agent_options \<Rightarrow> string \<Rightarrow> string list \<Rightarrow> string list \<Rightarrow> string list \<Rightarrow> (string \<Rightarrow> bool)
     \<Rightarrow> (sandbox_error + sandbox_paths) \<times> (string \<Rightarrow> bool)" where
  "turn_sandbox ok o1 mcp_config sandbox read_only masked ex =
     (if ao_memory_dir o1 = [] then (Inl NoMemoryDir, ex)
      else (let rules = rules_dir (ao_memory_dir o1); project = join_path (ao_memory_dir o1) ''.claude''
            in case make_dirs ok [rules, project] ex of
                 (Some e, ex1) \<Rightarrow> (Inl e, ex1)
               | (None, ex1) \<Rightarrow>
                   (Inr
                      \<lparr>sp_read_write = [ao_memory_dir o1, ao_home_dir o1] @ ao_add_dirs o1 @ sandbox,
                       sp_read_only = system_read_only_paths @ (if mcp_config \<noteq> [] then [dir_path mcp_config] else []),
                       sp_read_only_overlay = [settings_path o1, rules] @ read_only,
                       sp_masked = masked,
                       sp_sealed = [project]\<rparr>, ex1)))"

subsection \<open>What bubblewrap documents\<close>

datatype fs_view = Absent | HostRead | HostWrite | Scratch | EmptyRead

fun mount_step :: "(string \<Rightarrow> bool) \<Rightarrow> (string \<Rightarrow> fs_view) \<Rightarrow> mount_op \<Rightarrow> (string \<Rightarrow> fs_view)" where
  "mount_step ex m (RoBindTry d) = (if ex d then (\<lambda>p. if below d p then HostRead else m p) else m)"
| "mount_step ex m (Bind d) = (\<lambda>p. if below d p then HostWrite else m p)"
| "mount_step ex m (Tmpfs d) = (\<lambda>p. if below d p then Scratch else m p)"
| "mount_step ex m (RemountRo d) = (\<lambda>p. if below d p \<and> m p = Scratch then EmptyRead else m p)"
| "mount_step ex m ProcFs = (\<lambda>p. if below ''/proc'' p then Scratch else m p)"
| "mount_step ex m DevFs = (\<lambda>p. if below ''/dev'' p then Scratch else m p)"

definition mounted :: "(string \<Rightarrow> bool) \<Rightarrow> mount_op list \<Rightarrow> string \<Rightarrow> fs_view" where
  "mounted ex ops = foldl (mount_step ex) (\<lambda>_. Absent) ops"

definition bwrap_documented :: "((string \<Rightarrow> bool) \<Rightarrow> string list \<Rightarrow> string \<Rightarrow> fs_view) \<Rightarrow> bool" where
  "bwrap_documented bwrap =
     (\<forall>ex ops rest. bwrap ex (concat (map render_op ops) @ ''--unshare-pid'' # rest) = mounted ex ops)"

lemma mounted_snoc: "mounted ex (ops @ [op]) = mount_step ex (mounted ex ops) op"
  by (simp add: mounted_def)

lemma mounted_append: "mounted ex (xs @ ys) = foldl (mount_step ex) (mounted ex xs) ys"
  by (simp add: mounted_def)

text \<open>
  One lemma for each kind of mount: what a run of mounts of that kind does to the view below it.
\<close>

lemma foldl_ro:
  "foldl (mount_step ex) m (map RoBindTry ds) p =
     (if \<exists>d \<in> set ds. ex d \<and> below d p then HostRead else m p)"
  by (induction ds arbitrary: m) auto

lemma foldl_bind:
  "foldl (mount_step ex) m (map Bind ds) p = (if \<exists>d \<in> set ds. below d p then HostWrite else m p)"
  by (induction ds arbitrary: m) auto

lemma foldl_tmpfs:
  "foldl (mount_step ex) m (map Tmpfs ds) p = (if \<exists>d \<in> set ds. below d p then Scratch else m p)"
  by (induction ds arbitrary: m) auto

lemma foldl_sealed:
  "foldl (mount_step ex) m (concat (map (\<lambda>p. [Tmpfs p, RemountRo p]) ds)) p =
     (if \<exists>d \<in> set ds. below d p then EmptyRead else m p)"
  by (induction ds arbitrary: m) auto

definition kernel_path :: "string \<Rightarrow> bool" where
  "kernel_path p = (below ''/proc'' p \<or> below ''/dev'' p \<or> below ''/tmp'' p)"

lemma sandbox_view:
  "mounted ex (sandbox_ops sp) p =
     (if kernel_path p then Scratch
      else if \<exists>d \<in> set (sp_sealed sp). below d p then EmptyRead
      else if \<exists>d \<in> set (sp_masked sp). below d p then Scratch
      else if \<exists>d \<in> set (sp_read_only_overlay sp). ex d \<and> below d p then HostRead
      else if \<exists>d \<in> set (sp_read_write sp). below d p then HostWrite
      else if \<exists>d \<in> set (sp_read_only sp). ex d \<and> below d p then HostRead
      else Absent)"
  unfolding mounted_def sandbox_ops_def foldl_append
  by (auto simp: foldl_ro foldl_bind foldl_tmpfs foldl_sealed kernel_path_def)

subsection \<open>Properties\<close>

lemma make_dirs_made:
  "make_dirs ok ds ex = (None, ex') \<Longrightarrow> (\<forall>p. ex p \<longrightarrow> ex' p) \<and> (\<forall>d \<in> set ds. ok d \<and> ex' d)"
  by (induction ds arbitrary: ex) (fastforce simp: below_def split: if_splits)+

lemma turn_sandbox_paths:
  assumes "turn_sandbox ok o1 mcp_config sandbox read_only masked ex = (Inr sp, ex')"
  shows "sp_read_write sp = [ao_memory_dir o1, ao_home_dir o1] @ ao_add_dirs o1 @ sandbox"
    and "sp_read_only_overlay sp = [settings_path o1, rules_dir (ao_memory_dir o1)] @ read_only"
    and "sp_masked sp = masked" and "sp_sealed sp = [join_path (ao_memory_dir o1) ''.claude'']"
    and "ex' (rules_dir (ao_memory_dir o1))"
  using assms
  by (auto simp: turn_sandbox_def Let_def simp del: make_dirs.simps dest: make_dirs_made
      split: if_splits prod.splits option.splits)

text \<open>
  C37. What a sandboxed turn can touch of the host. With bubblewrap as documented, a turn whose sandbox
  could be set up can write to the host only below its memory directory, its home or a directory bound
  for its channel; never below the rulebook directory, which the turn has just made, nor below a
  masked directory or the memory directory's own \<open>.claude\<close>, whatever these contain; and never to the
  CLI's settings file nor below a read-only directory that exists when the turn starts. A masked or
  sealed directory cannot be read either. (bubblewrap skips the read-only mount of a path that is
  missing, so for the settings file and the read-only directories nothing is claimed if they are:
  \<open>missing_settings_can_be_written\<close>.)
\<close>

theorem sandbox_confines_the_turn:
  assumes "bwrap_documented bwrap"
    and "turn_sandbox ok o1 mcp_config sandbox read_only masked ex = (Inr sp, ex')"
    and "view = bwrap ex' (wrap_with_sandbox dir command sp)"
  shows "(view p = HostWrite \<longrightarrow>
            (\<exists>d \<in> set ([ao_memory_dir o1, ao_home_dir o1] @ ao_add_dirs o1 @ sandbox). below d p) \<and>
            \<not> below (rules_dir (ao_memory_dir o1)) p \<and>
            (\<forall>d \<in> set (masked @ [join_path (ao_memory_dir o1) ''.claude'']). \<not> below d p) \<and>
            (\<forall>d \<in> set (settings_path o1 # read_only). ex' d \<longrightarrow> \<not> below d p)) \<and>
         ((\<exists>d \<in> set (masked @ [join_path (ao_memory_dir o1) ''.claude'']). below d p) \<longrightarrow>
            view p \<in> {Scratch, EmptyRead})"
proof -
  from assms(1,3) have v: "view p = mounted ex' (sandbox_ops sp) p"
    by (simp add: bwrap_documented_def wrap_with_sandbox_def)
  note sp = turn_sandbox_paths [OF assms(2)]
  show ?thesis unfolding v sandbox_view sp(1-4) using sp(5) by (auto split: if_splits)
qed

text \<open>A turn whose directories cannot be made does not run.\<close>

lemma unmade_dirs_refuse_the_turn:
  assumes "ao_memory_dir o1 \<noteq> []" and "\<not> ok (rules_dir (ao_memory_dir o1)) \<or> \<not> ok (join_path (ao_memory_dir o1) ''.claude'')"
  shows "\<exists>d. fst (turn_sandbox ok o1 mcp_config sandbox read_only masked ex) = Inl (CannotCreate d)"
  using assms by (auto simp: turn_sandbox_def Let_def)

text \<open>A bubblewrap that does what is documented: it reads its mounts back from its arguments.\<close>

fun parse_ops :: "string list \<Rightarrow> mount_op list" where
  "parse_ops (f # p # q # r) =
     (if f = ''--ro-bind-try'' then RoBindTry p # parse_ops r
      else if f = ''--bind'' then Bind p # parse_ops r
      else if f = ''--tmpfs'' then Tmpfs p # parse_ops (q # r)
      else if f = ''--remount-ro'' then RemountRo p # parse_ops (q # r)
      else if f = ''--proc'' then ProcFs # parse_ops (q # r)
      else if f = ''--dev'' then DevFs # parse_ops (q # r)
      else [])"
| "parse_ops _ = []"

definition plain_bwrap :: "(string \<Rightarrow> bool) \<Rightarrow> string list \<Rightarrow> string \<Rightarrow> fs_view" where
  "plain_bwrap ex args = mounted ex (parse_ops args)"

lemma parse_stop: "parse_ops (''--unshare-pid'' # rest) = []"
  by (cases rest; cases "tl rest") auto

lemma parse_render: "parse_ops (concat (map render_op ops) @ ''--unshare-pid'' # rest) = ops"
proof (induction ops)
  case Nil
  then show ?case by (simp add: parse_stop)
next
  case (Cons op ops)
  obtain q r where q: "concat (map render_op ops) @ ''--unshare-pid'' # rest = q # r"
    by (cases "concat (map render_op ops) @ ''--unshare-pid'' # rest") auto
  with Cons show ?case by (cases op) simp_all
qed

lemma plain_bwrap_documented: "bwrap_documented plain_bwrap"
  by (simp add: bwrap_documented_def plain_bwrap_def parse_render)

definition sandboxed :: "(string \<Rightarrow> bool) \<Rightarrow> sandbox_paths \<times> (string \<Rightarrow> bool)" where
  "sandboxed ex =
     (case turn_sandbox (\<lambda>_. True) sample_options [] [] [] [''/mem/repos/other''] ex of
        (Inr sp, ex') \<Rightarrow> (sp, ex')
      | (Inl e, ex') \<Rightarrow> (\<lparr>sp_read_write = [], sp_read_only = [], sp_read_only_overlay = [], sp_masked = [], sp_sealed = []\<rparr>, ex'))"

lemma sandboxed_run:
  "turn_sandbox (\<lambda>_. True) sample_options [] [] [] [''/mem/repos/other''] ex = (Inr (fst (sandboxed ex)), snd (sandboxed ex))"
  by (simp add: sandboxed_def turn_sandbox_def sample_options_def Let_def)

theorem sandbox_confines_the_turn_witness:
  "plain_bwrap (snd (sandboxed (\<lambda>_. True))) (wrap_with_sandbox [] [''claude''] (fst (sandboxed (\<lambda>_. True)))) ''/mem/repos/other/x''
     \<in> {Scratch, EmptyRead} \<and>
   plain_bwrap (snd (sandboxed (\<lambda>_. True))) (wrap_with_sandbox [] [''claude''] (fst (sandboxed (\<lambda>_. True)))) ''/mem/rules/r.md''
     \<noteq> HostWrite"
proof -
  have r: "rules_dir (ao_memory_dir sample_options) = ''/mem/rules''"
    unfolding rules_dir_def sample_options_def by code_simp
  note all = sandbox_confines_the_turn [OF plain_bwrap_documented sandboxed_run refl, of "\<lambda>_. True" "[]" "[''claude'']"]
  have "below ''/mem/repos/other'' ''/mem/repos/other/x''" "below ''/mem/rules'' ''/mem/rules/r.md''"
    by (simp_all add: below_def)
  with all [of "''/mem/repos/other/x''"] all [of "''/mem/rules/r.md''"] show ?thesis
    by (auto simp: r)
qed

text \<open>A settings file that is not there yet can be made by the turn.\<close>

lemma missing_settings_can_be_written:
  "(let (sp, ex') = sandboxed (\<lambda>_. False)
    in plain_bwrap ex' (wrap_with_sandbox [] [''claude''] sp) (settings_path sample_options)) = HostWrite"
  by code_simp

end
