(* ===== verification/PermissionPrompt.thy ===== *)
theory PermissionPrompt
  imports Glob Channels
begin

text \<open>
  Approvals asked in the middle of a turn (\<open>router/permission_prompt.go\<close>). A call of the prompt
  tool registers a prompt, shows it with two buttons and waits for a press, which the router's
  message bridge hands over; the wait ends with the answer, the end of the turn or a timeout.
  Calls, presses and timeouts interleave, so the component is a machine over events: an event
  that cannot happen in a state leads to \<open>None\<close>.

  The reply channel of a call holds one answer; \<open>ak_buffer\<close> is what is in it. Sending to a full
  channel would block the bridge, which \<open>resolve_press\<close> reports as \<open>None\<close>.
\<close>

datatype deny_reason =
    NoLiveChannel | NoButtons | UserAway | InputTooLong nat | PromptUnsent
  | UserDeclined | TurnEnded | NoAnswer

datatype decision = Allow string | Deny deny_reason

record permission_request =
  pq_tool :: string
  pq_input :: string

datatype ask_phase = SendingPrompt | AwaitingReply | Answered decision

record ask =
  ak_id :: string
  ak_request :: permission_request
  ak_buffer :: "prompt_reply option"
  ak_phase :: ask_phase

record permission_prompts =
  pp_waiting :: "string \<Rightarrow> nat option"
  pp_unanswered :: bool
  pp_asks :: "ask list"

definition no_prompts :: permission_prompts where
  "no_prompts = \<lparr>pp_waiting = (\<lambda>_. None), pp_unanswered = False, pp_asks = []\<rparr>"

definition prompts_new_turn :: "permission_prompts \<Rightarrow> permission_prompts" where
  "prompts_new_turn p = p\<lparr>pp_unanswered := False\<rparr>"

definition await_prompt :: "string \<Rightarrow> nat \<Rightarrow> permission_prompts \<Rightarrow> permission_prompts" where
  "await_prompt pid k p = p\<lparr>pp_waiting := (pp_waiting p)(pid := Some k)\<rparr>"

definition mark_unanswered :: "permission_prompts \<Rightarrow> permission_prompts" where
  "mark_unanswered p = p\<lparr>pp_unanswered := True\<rparr>"

definition forget_prompt :: "string \<Rightarrow> permission_prompts \<Rightarrow> permission_prompts" where
  "forget_prompt pid p = p\<lparr>pp_waiting := (pp_waiting p)(pid := None)\<rparr>"

definition set_ask :: "nat \<Rightarrow> ask \<Rightarrow> permission_prompts \<Rightarrow> permission_prompts" where
  "set_ask k a p = p\<lparr>pp_asks := (pp_asks p)[k := a]\<rparr>"

text \<open>\<open>resolve\<close>: whether the message was a press for a waiting approval.\<close>

definition resolve_press :: "tagged_message \<Rightarrow> permission_prompts \<Rightarrow> (bool \<times> permission_prompts) option" where
  "resolve_press msg p =
     (if \<not> from_user (tm_source msg) then Some (False, p)
      else (case parse_button_press (tm_text msg) of
              None \<Rightarrow> Some (False, p)
            | Some b \<Rightarrow>
                (let p' = forget_prompt (bp_prompt b) p
                 in case pp_waiting p (bp_prompt b) of
                      None \<Rightarrow> Some (False, p')
                    | Some k \<Rightarrow>
                        (case ak_buffer (pp_asks p ! k) of
                           Some r \<Rightarrow> None
                         | None \<Rightarrow>
                             Some (True, set_ask k ((pp_asks p ! k)\<lparr>ak_buffer := Some (bp_reply b)\<rparr>) p')))))"

text \<open>\<open>len([]rune(s))\<close>.\<close>

function rune_count :: "string \<Rightarrow> nat" where
  "rune_count s = (if s = [] then 0 else Suc (rune_count (drop (snd (decode_rune s)) s)))"
  by pat_completeness auto

termination
  by (relation "measure length") (auto simp: decode_rune_width)

declare rune_count.simps [simp del]

definition permission_prompt_input_max :: nat where "permission_prompt_input_max = 3000"

definition permission_prompt_timeout :: duration where "permission_prompt_timeout = 4 * minute"

text \<open>\<open>channelIDByName\<close> and the lookup of what it returns.\<close>

definition active_chan :: "channel_map \<Rightarrow> string \<Rightarrow> chan option" where
  "active_chan chans name =
     (case chan_by_name chans name of None \<Rightarrow> map_of chans [] | Some (i, c) \<Rightarrow> map_of chans i)"

text \<open>The checks \<open>askPermission\<close> makes before it asks.\<close>

definition refused_unasked :: "channel_map \<Rightarrow> string \<Rightarrow> permission_request \<Rightarrow> permission_prompts \<Rightarrow> deny_reason option" where
  "refused_unasked chans active q p =
     (case active_chan chans active of
        None \<Rightarrow> Some NoLiveChannel
      | Some c \<Rightarrow>
          if \<not> ch_prompter c then Some NoButtons
          else if pp_unanswered p then Some UserAway
          else (let n = rune_count (trim_space (pq_input q))
                in if permission_prompt_input_max < n then Some (InputTooLong n) else None))"

datatype prompt_event =
    AskStarts channel_map string permission_request string
  | PromptSent nat bool
  | PressArrives tagged_message
  | ReplyTaken nat
  | TurnCancelled nat
  | TimedOut nat
  | NewTurn

text \<open>The call returns: its decision stands and its prompt is forgotten.\<close>

definition finish_ask :: "nat \<Rightarrow> decision \<Rightarrow> permission_prompts \<Rightarrow> permission_prompts" where
  "finish_ask k d p =
     forget_prompt (ak_id (pp_asks p ! k)) (set_ask k ((pp_asks p ! k)\<lparr>ak_phase := Answered d\<rparr>) p)"

fun prompt_step :: "prompt_event \<Rightarrow> permission_prompts \<Rightarrow> permission_prompts option" where
  "prompt_step (AskStarts chans active q pid) p =
     (let a = \<lparr>ak_id = pid, ak_request = q, ak_buffer = None, ak_phase = SendingPrompt\<rparr>
      in case refused_unasked chans active q p of
           Some r \<Rightarrow> Some (p\<lparr>pp_asks := pp_asks p @ [a\<lparr>ak_phase := Answered (Deny r)\<rparr>]\<rparr>)
         | None \<Rightarrow> Some (await_prompt pid (length (pp_asks p)) (p\<lparr>pp_asks := pp_asks p @ [a]\<rparr>)))"
| "prompt_step (PromptSent k ok) p =
     (if k < length (pp_asks p) \<and> ak_phase (pp_asks p ! k) = SendingPrompt
      then Some (if ok then set_ask k ((pp_asks p ! k)\<lparr>ak_phase := AwaitingReply\<rparr>) p
                 else finish_ask k (Deny PromptUnsent) p)
      else None)"
| "prompt_step (PressArrives msg) p = map_option snd (resolve_press msg p)"
| "prompt_step (ReplyTaken k) p =
     (if k < length (pp_asks p) \<and> ak_phase (pp_asks p ! k) = AwaitingReply
      then (case ak_buffer (pp_asks p ! k) of
              None \<Rightarrow> None
            | Some r \<Rightarrow>
                Some (finish_ask k
                        (if r \<noteq> reply_yes then Deny UserDeclined
                         else Allow (pq_input (ak_request (pp_asks p ! k)))) p))
      else None)"
| "prompt_step (TurnCancelled k) p =
     (if k < length (pp_asks p) \<and> ak_phase (pp_asks p ! k) = AwaitingReply
      then Some (finish_ask k (Deny TurnEnded) p) else None)"
| "prompt_step (TimedOut k) p =
     (if k < length (pp_asks p) \<and> ak_phase (pp_asks p ! k) = AwaitingReply
      then Some (finish_ask k (Deny NoAnswer) (mark_unanswered p)) else None)"
| "prompt_step NewTurn p = Some (prompts_new_turn p)"

fun prompt_run :: "prompt_event list \<Rightarrow> permission_prompts \<Rightarrow> permission_prompts option" where
  "prompt_run [] p = Some p"
| "prompt_run (e # es) p = Option.bind (prompt_step e p) (prompt_run es)"

lemma prompt_run_append:
  "prompt_run (xs @ ys) p = Option.bind (prompt_run xs p) (prompt_run ys)"
  by (induction xs arbitrary: p) (auto split: Option.bind_splits)


subsection \<open>Only a press approves\<close>

fun started_id :: "prompt_event \<Rightarrow> string list" where
  "started_id (AskStarts chans active q pid) = [pid]"
| "started_id _ = []"

definition prompt_ids :: "prompt_event list \<Rightarrow> string list" where
  "prompt_ids es = concat (map started_id es)"

definition is_press :: "string \<Rightarrow> prompt_reply \<Rightarrow> prompt_event \<Rightarrow> bool" where
  "is_press pid r e =
     (case e of
        PressArrives m \<Rightarrow>
          from_user (tm_source m) \<and> parse_button_press (tm_text m) = Some \<lparr>bp_prompt = pid, bp_reply = r\<rparr>
      | _ \<Rightarrow> False)"

text \<open>The user pressed the button after the call with that prompt began.\<close>

definition pressed_after_start :: "prompt_event list \<Rightarrow> string \<Rightarrow> prompt_reply \<Rightarrow> bool" where
  "pressed_after_start es pid r =
     (\<exists>xs s ys. es = xs @ s # ys \<and> started_id s = [pid] \<and> (\<exists>e \<in> set ys. is_press pid r e))"

lemma prompt_ids_snoc [simp]: "prompt_ids (es @ [e]) = prompt_ids es @ started_id e"
  by (simp add: prompt_ids_def)

lemma pressed_later: "pressed_after_start es pid r \<Longrightarrow> pressed_after_start (es @ [e]) pid r"
  unfolding pressed_after_start_def by (metis append.assoc append_Cons Un_iff set_append)

lemma pressed_now:
  assumes "pid \<in> set (prompt_ids es)" "is_press pid r e"
  shows "pressed_after_start (es @ [e]) pid r"
proof -
  from assms(1) obtain s where "s \<in> set es" "pid \<in> set (started_id s)"
    by (auto simp: prompt_ids_def)
  from this(2) have "started_id s = [pid]" by (cases s) simp_all
  moreover from \<open>s \<in> set es\<close> obtain xs ys where "es = xs @ s # ys" by (meson split_list)
  ultimately show ?thesis
    using assms(2) unfolding pressed_after_start_def
    by (intro exI [of _ xs] exI [of _ s] exI [of _ "ys @ [e]"]) simp
qed

definition waiting_ok :: "permission_prompts \<Rightarrow> bool" where
  "waiting_ok p =
     (\<forall>pid k. pp_waiting p pid = Some k \<longrightarrow>
        k < length (pp_asks p) \<and> ak_id (pp_asks p ! k) = pid \<and> ak_buffer (pp_asks p ! k) = None \<and>
        (\<forall>d. ak_phase (pp_asks p ! k) \<noteq> Answered d))"

definition ask_ok :: "prompt_event list \<Rightarrow> ask \<Rightarrow> bool" where
  "ask_ok es a =
     ((\<forall>r. ak_buffer a = Some r \<longrightarrow> pressed_after_start es (ak_id a) r) \<and>
      (\<forall>i. ak_phase a = Answered (Allow i) \<longrightarrow>
          i = pq_input (ak_request a) \<and> pressed_after_start es (ak_id a) reply_yes))"

definition prompts_ok :: "prompt_event list \<Rightarrow> permission_prompts \<Rightarrow> bool" where
  "prompts_ok es p =
     (map ak_id (pp_asks p) = prompt_ids es \<and> distinct (prompt_ids es) \<and> waiting_ok p \<and>
      (\<forall>a \<in> set (pp_asks p). ask_ok es a))"

lemma waiting_okD:
  assumes "prompts_ok es p" "pp_waiting p pid = Some k"
  shows "k < length (pp_asks p)" "ak_id (pp_asks p ! k) = pid" "ak_buffer (pp_asks p ! k) = None"
    "\<forall>d. ak_phase (pp_asks p ! k) \<noteq> Answered d"
  using assms by (simp_all add: prompts_ok_def waiting_ok_def)

lemma ask_ok_later: "ask_ok es a \<Longrightarrow> ask_ok (es @ [e]) a"
  by (auto simp: ask_ok_def pressed_later)

lemma asks_set_ask: "pp_asks (set_ask k a p) = (pp_asks p)[k := a]"
  "pp_waiting (set_ask k a p) = pp_waiting p" "pp_unanswered (set_ask k a p) = pp_unanswered p"
  by (simp_all add: set_ask_def)

lemma forget_prompt_simps [simp]:
  "pp_asks (forget_prompt pid p) = pp_asks p"
  "pp_waiting (forget_prompt pid p) = (pp_waiting p)(pid := None)"
  "pp_unanswered (forget_prompt pid p) = pp_unanswered p"
  by (simp_all add: forget_prompt_def)

lemma mark_unanswered_simps [simp]:
  "pp_asks (mark_unanswered p) = pp_asks p" "pp_waiting (mark_unanswered p) = pp_waiting p"
  by (simp_all add: mark_unanswered_def)

lemma set_list_update: "a \<in> set (xs[k := b]) \<Longrightarrow> a \<in> set xs \<or> a = b"
  using set_update_subset_insert [of xs k b] by auto

lemma map_id_update: "f b = f (xs ! k) \<Longrightarrow> k < length xs \<Longrightarrow> map f (xs[k := b]) = map f xs"
  by (simp add: map_update list_update_same_conv)

text \<open>Any change of one call that keeps its identifier and is itself right keeps the invariant.\<close>

lemma prompts_ok_update:
  assumes ok: "prompts_ok es p" and k: "k < length (pp_asks p)"
    and p': "pp_asks p' = (pp_asks p)[k := a]" "\<And>pid j. pp_waiting p' pid = Some j \<Longrightarrow> pp_waiting p pid = Some j"
    and a: "ak_id a = ak_id (pp_asks p ! k)" "ask_ok (es @ [e]) a"
    and live: "\<And>pid. pp_waiting p' pid = Some k \<Longrightarrow> ak_buffer a = None \<and> (\<forall>d. ak_phase a \<noteq> Answered d)"
    and e: "started_id e = []"
  shows "prompts_ok (es @ [e]) p'"
proof -
  have "map ak_id (pp_asks p') = prompt_ids es"
    using ok k p'(1) a(1) by (simp add: prompts_ok_def map_id_update)
  moreover have "\<forall>b \<in> set (pp_asks p'). ask_ok (es @ [e]) b"
    using ok a(2) p'(1) by (auto simp: prompts_ok_def dest!: set_list_update intro: ask_ok_later)
  moreover have "waiting_ok p'"
    unfolding waiting_ok_def
  proof (intro allI impI)
    fix pid j assume j: "pp_waiting p' pid = Some j"
    note w = waiting_okD [OF ok p'(2) [OF j]]
    show "j < length (pp_asks p') \<and> ak_id (pp_asks p' ! j) = pid \<and> ak_buffer (pp_asks p' ! j) = None \<and>
        (\<forall>d. ak_phase (pp_asks p' ! j) \<noteq> Answered d)"
    proof (cases "j = k")
      case True
      with live j have "ak_buffer a = None \<and> (\<forall>d. ak_phase a \<noteq> Answered d)" by blast
      with True w k p'(1) a(1) show ?thesis by simp
    next
      case False
      with w p'(1) show ?thesis by simp
    qed
  qed
  ultimately show ?thesis
    using ok e by (simp add: prompts_ok_def)
qed

lemma prompts_ok_finish:
  assumes ok: "prompts_ok es p" and k: "k < length (pp_asks p)"
    and d: "\<And>i. d = Allow i \<Longrightarrow> i = pq_input (ak_request (pp_asks p ! k)) \<and> ak_buffer (pp_asks p ! k) = Some reply_yes"
    and e: "started_id e = []" and q: "pp_asks q = pp_asks p" "pp_waiting q = pp_waiting p"
  shows "prompts_ok (es @ [e]) (finish_ask k d q)"
proof (rule prompts_ok_update [OF ok k])
  let ?a = "(pp_asks p ! k)\<lparr>ak_phase := Answered d\<rparr>"
  show "pp_asks (finish_ask k d q) = (pp_asks p)[k := ?a]"
    by (simp add: finish_ask_def asks_set_ask q)
  show "pp_waiting (finish_ask k d q) pid = Some j \<Longrightarrow> pp_waiting p pid = Some j" for pid j
    by (auto simp: finish_ask_def asks_set_ask q split: if_splits)
  have "ask_ok es (pp_asks p ! k)" using ok k by (simp add: prompts_ok_def)
  with d show "ask_ok (es @ [e]) ?a"
    by (auto simp: ask_ok_def pressed_later)
  have "pp_waiting p pid = Some k \<Longrightarrow> pid = ak_id (pp_asks p ! k)" for pid
    using waiting_okD(2) [OF ok] by simp
  then show "ak_buffer ?a = None \<and> (\<forall>d. ak_phase ?a \<noteq> Answered d)"
    if "pp_waiting (finish_ask k d q) pid = Some k" for pid
    using that by (auto simp: finish_ask_def asks_set_ask q split: if_splits)
qed (simp_all add: e)

lemma prompts_ok_press:
  assumes ok: "prompts_ok es p" and r: "resolve_press m p = Some (b, p')"
  shows "prompts_ok (es @ [PressArrives m]) p'"
proof -
  have same: "prompts_ok (es @ [PressArrives m]) q"
    if "pp_asks q = pp_asks p" "\<And>pid j. pp_waiting q pid = Some j \<Longrightarrow> pp_waiting p pid = Some j" for q
  proof -
    have "waiting_ok q"
      using waiting_okD [OF ok that(2)] by (simp add: waiting_ok_def that(1))
    with ok that(1) show ?thesis by (simp add: prompts_ok_def ask_ok_later)
  qed
  show ?thesis
  proof (cases "from_user (tm_source m) \<and> parse_button_press (tm_text m) \<noteq> None")
    case False
    with r have "p' = p" by (auto simp: resolve_press_def split: if_splits)
    then show ?thesis using same [of p] by simp
  next
    case True
    then obtain pr where pr: "parse_button_press (tm_text m) = Some pr" by blast
    show ?thesis
    proof (cases "pp_waiting p (bp_prompt pr)")
      case None
      with r True pr have "p' = forget_prompt (bp_prompt pr) p" by (simp add: resolve_press_def Let_def)
      moreover have "prompts_ok (es @ [PressArrives m]) (forget_prompt (bp_prompt pr) p)"
        by (rule same) (simp_all split: if_splits)
      ultimately show ?thesis by simp
    next
      case (Some k)
      note k = waiting_okD [OF ok Some]
      let ?a = "(pp_asks p ! k)\<lparr>ak_buffer := Some (bp_reply pr)\<rparr>"
      from r True pr Some k have p': "p' = set_ask k ?a (forget_prompt (bp_prompt pr) p)"
        by (simp add: resolve_press_def Let_def)
      have "bp_prompt pr \<in> set (prompt_ids es)"
        using ok k(1,2) by (metis (no_types) length_map nth_map nth_mem prompts_ok_def)
      moreover have "is_press (bp_prompt pr) (bp_reply pr) (PressArrives m)"
        using True pr by (simp add: is_press_def)
      ultimately have pressed: "pressed_after_start (es @ [PressArrives m]) (bp_prompt pr) (bp_reply pr)"
        by (rule pressed_now)
      show ?thesis
      proof (rule prompts_ok_update [OF ok k(1)])
        show "pp_asks p' = (pp_asks p)[k := ?a]" by (simp add: p' asks_set_ask)
        show "pp_waiting p' pid = Some j \<Longrightarrow> pp_waiting p pid = Some j" for pid j
          by (auto simp: p' asks_set_ask split: if_splits)
        show "ask_ok (es @ [PressArrives m]) ?a"
          using pressed k by (simp add: ask_ok_def)
        show "ak_buffer ?a = None \<and> (\<forall>d. ak_phase ?a \<noteq> Answered d)" if "pp_waiting p' pid = Some k" for pid
        proof -
          from that have "pp_waiting p pid = Some k" "pid \<noteq> bp_prompt pr"
            by (auto simp: p' asks_set_ask split: if_splits)
          with waiting_okD(2) [OF ok this(1)] k(2) show ?thesis by simp
        qed
      qed simp_all
    qed
  qed
qed


lemma prompts_ok_start:
  assumes ok: "prompts_ok es p" and fresh: "pid \<notin> set (prompt_ids es)"
    and s: "prompt_step (AskStarts chans active q pid) p = Some p'"
  shows "prompts_ok (es @ [AskStarts chans active q pid]) p'"
proof -
  let ?e = "AskStarts chans active q pid"
  from s obtain a where a: "pp_asks p' = pp_asks p @ [a]" "ak_id a = pid" "ak_buffer a = None"
      "\<forall>i. ak_phase a \<noteq> Answered (Allow i)"
    and w: "pp_waiting p' = pp_waiting p \<or>
      (pp_waiting p' = (pp_waiting p)(pid := Some (length (pp_asks p))) \<and> (\<forall>d. ak_phase a \<noteq> Answered d))"
    by (cases "refused_unasked chans active q p") (auto simp: Let_def await_prompt_def)
  have "waiting_ok p'"
    unfolding waiting_ok_def
  proof (intro allI impI)
    fix i k assume k: "pp_waiting p' i = Some k"
    show "k < length (pp_asks p') \<and> ak_id (pp_asks p' ! k) = i \<and> ak_buffer (pp_asks p' ! k) = None \<and>
        (\<forall>d. ak_phase (pp_asks p' ! k) \<noteq> Answered d)"
    proof (cases "pp_waiting p i = Some k")
      case True
      from waiting_okD [OF ok this] show ?thesis by (simp add: a(1) nth_append)
    next
      case False
      with k w have "i = pid" "k = length (pp_asks p)" "\<forall>d. ak_phase a \<noteq> Answered d"
        by (auto split: if_splits)
      with a show ?thesis by simp
    qed
  qed
  moreover have "ask_ok (es @ [?e]) a" using a by (simp add: ask_ok_def)
  ultimately show ?thesis
    using ok fresh a by (auto simp: prompts_ok_def intro: ask_ok_later)
qed

lemma prompts_ok_step:
  assumes ok: "prompts_ok es p" and s: "prompt_step e p = Some p'"
    and fresh: "distinct (prompt_ids (es @ [e]))"
  shows "prompts_ok (es @ [e]) p'"
proof (cases e)
  case (AskStarts chans active q pid)
  with assms prompts_ok_start show ?thesis by auto
next
  case (PromptSent k ok')
  with s have k: "k < length (pp_asks p)" "ak_phase (pp_asks p ! k) = SendingPrompt"
    by (simp_all split: if_splits)
  show ?thesis
  proof (cases ok')
    case True
    with PromptSent s k have p': "p' = set_ask k ((pp_asks p ! k)\<lparr>ak_phase := AwaitingReply\<rparr>) p" by simp
    show ?thesis
    proof (rule prompts_ok_update [OF ok k(1)])
      show "ask_ok (es @ [e]) ((pp_asks p ! k)\<lparr>ak_phase := AwaitingReply\<rparr>)"
        using ok k by (auto simp: prompts_ok_def ask_ok_def pressed_later)
      show "pp_waiting p' pid = Some k \<Longrightarrow> ak_buffer ((pp_asks p ! k)\<lparr>ak_phase := AwaitingReply\<rparr>) = None \<and>
          (\<forall>d. ak_phase ((pp_asks p ! k)\<lparr>ak_phase := AwaitingReply\<rparr>) \<noteq> Answered d)" for pid
        using waiting_okD [OF ok, of pid k] by (simp add: p' asks_set_ask)
    qed (simp_all add: p' asks_set_ask PromptSent)
  next
    case False
    with PromptSent s k have "p' = finish_ask k (Deny PromptUnsent) p" by simp
    with prompts_ok_finish [OF ok k(1), of "Deny PromptUnsent" e p] PromptSent show ?thesis by simp
  qed
next
  case (PressArrives m)
  with s obtain b where "resolve_press m p = Some (b, p')" by auto
  with PressArrives prompts_ok_press [OF ok] show ?thesis by blast
next
  case (ReplyTaken k)
  with s obtain r where k: "k < length (pp_asks p)" "ak_buffer (pp_asks p ! k) = Some r"
    and p': "p' = finish_ask k (if r \<noteq> reply_yes then Deny UserDeclined
                         else Allow (pq_input (ak_request (pp_asks p ! k)))) p"
    by (auto split: if_splits option.splits)
  show ?thesis
    unfolding p' by (rule prompts_ok_finish [OF ok k(1)]) (auto simp: k ReplyTaken split: if_splits)
next
  case (TurnCancelled k)
  with s have "k < length (pp_asks p)" "p' = finish_ask k (Deny TurnEnded) p" by (auto split: if_splits)
  with prompts_ok_finish [OF ok this(1), of "Deny TurnEnded" e p] TurnCancelled show ?thesis by simp
next
  case (TimedOut k)
  with s have "k < length (pp_asks p)" "p' = finish_ask k (Deny NoAnswer) (mark_unanswered p)"
    by (auto split: if_splits)
  with prompts_ok_finish [OF ok this(1), of "Deny NoAnswer" e "mark_unanswered p"] TimedOut show ?thesis by simp
next
  case NewTurn
  with s ok show ?thesis
    by (auto simp: prompts_new_turn_def prompts_ok_def waiting_ok_def intro: ask_ok_later)
qed

lemma prompts_ok_run:
  "prompt_run es no_prompts = Some p \<Longrightarrow> distinct (prompt_ids es) \<Longrightarrow> prompts_ok es p"
proof (induction es arbitrary: p rule: rev_induct)
  case Nil
  then have "p = no_prompts" by simp
  then show ?case by (simp add: no_prompts_def prompts_ok_def waiting_ok_def prompt_ids_def)
next
  case (snoc e es)
  from snoc.prems(1) obtain p0 where p0: "prompt_run es no_prompts = Some p0" "prompt_step e p0 = Some p"
    by (auto simp: prompt_run_append split: Option.bind_splits)
  from snoc.prems(2) have "distinct (prompt_ids es)" by simp
  from prompts_ok_step [OF snoc.IH [OF p0(1) this] p0(2) snoc.prems(2)] show ?case .
qed

text \<open>
  C36. No tool call is approved without the user. In every interleaving of calls, presses,
  timeouts and turns, when a call of the prompt tool comes back with an approval, the approval
  is for exactly the input it was asked with, and after the call began the user pressed the yes
  button of that very prompt; prompt identifiers being random, no two calls share one.
\<close>

theorem approval_needs_a_press:
  assumes "prompt_run es no_prompts = Some p" and "distinct (prompt_ids es)"
    and "a \<in> set (pp_asks p)" and "ak_phase a = Answered (Allow input)"
  shows "input = pq_input (ak_request a) \<and>
         (\<exists>xs s ys. es = xs @ s # ys \<and> started_id s = [ak_id a] \<and>
            (\<exists>e \<in> set ys. is_press (ak_id a) reply_yes e))"
  using prompts_ok_run [OF assms(1,2)] assms(3,4)
  by (auto simp: prompts_ok_def ask_ok_def pressed_after_start_def)

definition sample_chans :: channel_map where
  "sample_chans = [(''c1'', \<lparr>ch_id = ''c1'', ch_name = ''dev'', ch_type = ''telegram'', ch_prompter = True\<rparr>)]"

definition sample_request :: permission_request where
  "sample_request = \<lparr>pq_tool = ''Bash'', pq_input = ''ls''\<rparr>"

definition press_yes :: "string \<Rightarrow> tagged_message" where
  "press_yes pid = \<lparr>tm_channel = ''c1'', tm_text = button_press_text \<lparr>bp_prompt = pid, bp_reply = reply_yes\<rparr>,
                    tm_source = None\<rparr>"

definition sample_events :: "prompt_event list" where
  "sample_events = [NewTurn, AskStarts sample_chans ''dev'' sample_request ''P1'',
                    PromptSent 0 True, PressArrives (press_yes ''P1''), ReplyTaken 0]"

lemma press_yes_parsed [simp]:
  "parse_button_press (tm_text (press_yes pid)) = Some \<lparr>bp_prompt = pid, bp_reply = reply_yes\<rparr>"
  unfolding press_yes_def tagged_message.simps
  by (rule parse_press_text) (simp add: reply_yes_def)

lemma press_yes_user [simp]: "from_user (tm_source (press_yes pid))"
  by (simp add: press_yes_def from_user_def)

lemma sample_not_refused: "refused_unasked sample_chans ''dev'' sample_request no_prompts = None"
  by (simp add: refused_unasked_def active_chan_def chan_by_name_def sample_chans_def sample_request_def
      no_prompts_def Let_def permission_prompt_input_max_def trim_space_def space_len_def ascii_spaces_def
      rune_count.simps decode_rune_def byte_of_def)

lemma sample_run:
  "prompt_run sample_events no_prompts =
     Some \<lparr>pp_waiting = (\<lambda>_. None), pp_unanswered = False,
           pp_asks = [\<lparr>ak_id = ''P1'', ak_request = sample_request, ak_buffer = Some reply_yes,
                       ak_phase = Answered (Allow ''ls'')\<rparr>]\<rparr>"
proof -
  have new: "prompts_new_turn no_prompts = no_prompts" by (simp add: prompts_new_turn_def no_prompts_def)
  show ?thesis
    unfolding sample_events_def
    by (simp add: new sample_not_refused)
       (simp add: no_prompts_def await_prompt_def set_ask_def finish_ask_def resolve_press_def forget_prompt_def
          sample_request_def fun_eq_iff)
qed

theorem approval_needs_a_press_witness:
  "\<exists>e \<in> set sample_events. is_press ''P1'' reply_yes e"
proof -
  have d: "distinct (prompt_ids sample_events)" by (simp add: sample_events_def prompt_ids_def)
  have "\<exists>xs s ys. sample_events = xs @ s # ys \<and> started_id s = [''P1''] \<and>
      (\<exists>e \<in> set ys. is_press ''P1'' reply_yes e)"
    using approval_needs_a_press [OF sample_run d, of _ "''ls''"] by simp
  then show ?thesis by (metis Un_iff list.set_intros(2) set_append)
qed

text \<open>
  The router's message bridge is never stuck on an approval: in every reachable state any
  message is handled at once, because the reply channel of a prompt that still waits is empty.
  A press is consumed exactly when its prompt still waits for an answer, so a second press of
  the same button, or one that comes after the wait gave up, is passed on.
\<close>

theorem press_never_blocks:
  assumes "prompt_run es no_prompts = Some p" and "distinct (prompt_ids es)"
  shows "\<exists>b p'. resolve_press m p = Some (b, p') \<and>
           (b \<longleftrightarrow> from_user (tm_source m) \<and>
              (\<exists>pr. parse_button_press (tm_text m) = Some pr \<and> pp_waiting p (bp_prompt pr) \<noteq> None)) \<and>
           (from_user (tm_source m) \<longrightarrow>
              (\<forall>pr. parse_button_press (tm_text m) = Some pr \<longrightarrow> pp_waiting p' (bp_prompt pr) = None))"
proof -
  note ok = prompts_ok_run [OF assms]
  show ?thesis
  proof (cases "from_user (tm_source m) \<and> parse_button_press (tm_text m) \<noteq> None")
    case False
    then show ?thesis by (auto simp: resolve_press_def split: option.split)
  next
    case True
    then obtain pr where pr: "parse_button_press (tm_text m) = Some pr" by blast
    show ?thesis
    proof (cases "pp_waiting p (bp_prompt pr)")
      case None
      with True pr have "resolve_press m p = Some (False, forget_prompt (bp_prompt pr) p)"
        by (simp add: resolve_press_def Let_def)
      with None True pr show ?thesis
        by (intro exI [of _ False] exI [of _ "forget_prompt (bp_prompt pr) p"]) simp
    next
      case (Some k)
      with True pr waiting_okD(3) [OF ok Some] have
        "resolve_press m p = Some (True, set_ask k ((pp_asks p ! k)\<lparr>ak_buffer := Some (bp_reply pr)\<rparr>)
            (forget_prompt (bp_prompt pr) p))"
        by (simp add: resolve_press_def Let_def)
      with Some True pr show ?thesis
        by (intro exI [of _ True] exI [of _ "set_ask k ((pp_asks p ! k)\<lparr>ak_buffer := Some (bp_reply pr)\<rparr>)
            (forget_prompt (bp_prompt pr) p)"]) (simp add: asks_set_ask)
    qed
  qed
qed

theorem press_never_blocks_witness:
  "\<exists>p'. resolve_press (press_yes ''P1'') \<lparr>pp_waiting = (\<lambda>_. None), pp_unanswered = False,
           pp_asks = [\<lparr>ak_id = ''P1'', ak_request = sample_request, ak_buffer = Some reply_yes,
                       ak_phase = Answered (Allow ''ls'')\<rparr>]\<rparr> = Some (False, p')"
proof -
  have d: "distinct (prompt_ids sample_events)" by (simp add: sample_events_def prompt_ids_def)
  from press_never_blocks [OF sample_run d, of "press_yes ''P1''"] show ?thesis by auto
qed

text \<open>After a timeout every further call of the turn is refused at once, without a prompt.\<close>

lemma unanswered_refuses_at_once:
  assumes "pp_unanswered p"
  shows "\<exists>r. refused_unasked chans active q p = Some r"
  using assms by (auto simp: refused_unasked_def split: option.splits)

end
