(* ===== verification/NetGuard.thy ===== *)
theory NetGuard
  imports GoText "HOL-Library.Word"
begin

unbundle bit_operations_syntax

text \<open>
  Where outbound requests may go: the private-address guard of MCP discovery
  (\<open>mcp/discovery/safeclient.go\<close>), the retries over a sleeping upstream (\<open>coldstart.go\<close>), the
  certificate pin (\<open>pin.go\<close>) and the egress proxy (\<open>egressproxy/egressproxy.go\<close>).

  An address is a \<open>net.IP\<close>, its 4 or 16 bytes. Name resolution, the parsing of an address text
  and dialling belong to the network library: \<open>lookup\<close>, \<open>parse_ip\<close> and \<open>dial\<close> are parameters.
\<close>

type_synonym byte = "8 word"
type_synonym ip = "byte list"

subsection \<open>Addresses\<close>

definition to4 :: "ip \<Rightarrow> ip option" where
  "to4 i =
     (if length i = 4 then Some i
      else if length i = 16 \<and> list_all (\<lambda>b. b = 0) (take 10 i) \<and> i ! 10 = 0xFF \<and> i ! 11 = 0xFF
      then Some (drop 12 i) else None)"

definition v6_loopback :: ip where "v6_loopback = replicate 15 0 @ [1]"

text \<open>\<open>IP.Equal\<close> against a 16-byte address that is not a mapped IPv4 one is plain equality.\<close>

definition is_loopback :: "ip \<Rightarrow> bool" where
  "is_loopback i = (case to4 i of Some a \<Rightarrow> a ! 0 = 127 | None \<Rightarrow> i = v6_loopback)"

definition is_link_local_unicast :: "ip \<Rightarrow> bool" where
  "is_link_local_unicast i =
     (case to4 i of
        Some a \<Rightarrow> a ! 0 = 169 \<and> a ! 1 = 254
      | None \<Rightarrow> length i = 16 \<and> i ! 0 = 0xFE \<and> i ! 1 AND 0xC0 = 0x80)"

definition is_link_local_multicast :: "ip \<Rightarrow> bool" where
  "is_link_local_multicast i =
     (case to4 i of
        Some a \<Rightarrow> a ! 0 = 224 \<and> a ! 1 = 0 \<and> a ! 2 = 0
      | None \<Rightarrow> length i = 16 \<and> i ! 0 = 0xFF \<and> i ! 1 AND 0x0F = 0x02)"

definition is_unspecified :: "ip \<Rightarrow> bool" where
  "is_unspecified i = (case to4 i of Some a \<Rightarrow> a = [0, 0, 0, 0] | None \<Rightarrow> i = replicate 16 0)"

text \<open>\<open>IPNet.Contains\<close>: byte by byte under the mask, for addresses of the network's length.\<close>

definition cidr_contains :: "ip \<Rightarrow> ip \<Rightarrow> ip \<Rightarrow> bool" where
  "cidr_contains net m i =
     (let a = (case to4 i of Some x \<Rightarrow> x | None \<Rightarrow> i)
      in length a = length net \<and>
         list_all (\<lambda>(n, k, b). n AND k = b AND k) (zip net (zip m a)))"

definition private_ranges :: "(ip \<times> ip) list" where
  "private_ranges =
     [([10, 0, 0, 0], [0xFF, 0, 0, 0]),
      ([172, 16, 0, 0], [0xFF, 0xF0, 0, 0]),
      ([192, 168, 0, 0], [0xFF, 0xFF, 0, 0]),
      (0xFC # replicate 15 0, 0xFE # replicate 15 0),
      ([100, 64, 0, 0], [0xFF, 0xC0, 0, 0])]"

definition is_private_ip :: "ip \<Rightarrow> bool" where
  "is_private_ip i =
     (is_loopback i \<or> is_link_local_unicast i \<or> is_link_local_multicast i \<or> is_unspecified i \<or>
      list_ex (\<lambda>(net, m). cidr_contains net m i) private_ranges)"

subsection \<open>Dialling\<close>

definition is_fly_private_host :: "string \<Rightarrow> bool" where
  "is_fly_private_host host =
     (let h = to_lower (trim_suffix host ''.'')
      in has_suffix h ''.flycast'' \<or> has_suffix h ''.internal'')"

datatype dial_error = BadAddress | LookupFailed | PrivateAddress string | DialFailed string | NoAddress

text \<open>The loop of \<open>safeDialContext\<close>; the addresses dialled are returned with the result.\<close>

fun safe_dial_loop ::
  "(string \<Rightarrow> ip option) \<Rightarrow> (string \<Rightarrow> 'c option) \<Rightarrow> bool \<Rightarrow> dial_error option \<Rightarrow> string list
     \<Rightarrow> (dial_error + 'c) \<times> string list" where
  "safe_dial_loop parse_ip dial fly lastErr [] =
     (Inl (case lastErr of None \<Rightarrow> NoAddress | Some e \<Rightarrow> e), [])"
| "safe_dial_loop parse_ip dial fly lastErr (s # ss) =
     (case parse_ip s of
        None \<Rightarrow> safe_dial_loop parse_ip dial fly lastErr ss
      | Some i \<Rightarrow>
          if \<not> fly \<and> is_private_ip i then safe_dial_loop parse_ip dial fly (Some (PrivateAddress s)) ss
          else (case dial s of
                  None \<Rightarrow>
                    (case safe_dial_loop parse_ip dial fly (Some (DialFailed s)) ss of
                       (r, ds) \<Rightarrow> (r, s # ds))
                | Some c \<Rightarrow> (Inr c, [s])))"

definition last_colon :: "string \<Rightarrow> nat option" where
  "last_colon s = map_option (\<lambda>i. length s - 1 - i) (first_index (\<lambda>c. c = CHR '':'') (rev s))"

text \<open>\<open>net.SplitHostPort\<close>.\<close>

definition split_host_port :: "string \<Rightarrow> (string \<times> string) option" where
  "split_host_port s =
     (case last_colon s of
        None \<Rightarrow> None
      | Some i \<Rightarrow>
          if s \<noteq> [] \<and> hd s = CHR ''['' then
            (case first_index (\<lambda>c. c = CHR '']'') s of
               None \<Rightarrow> None
             | Some e \<Rightarrow>
                 if Suc e = i \<and> CHR ''['' \<notin> set (drop 1 s) \<and> CHR '']'' \<notin> set (drop (Suc e) s)
                 then Some (take (e - 1) (drop 1 s), drop (Suc i) s) else None)
          else if CHR '':'' \<in> set (take i s) \<or> CHR ''['' \<in> set s \<or> CHR '']'' \<in> set s then None
          else Some (take i s, drop (Suc i) s))"

definition safe_dial ::
  "(string \<Rightarrow> string list option) \<Rightarrow> (string \<Rightarrow> ip option) \<Rightarrow> (string \<Rightarrow> string \<Rightarrow> 'c option) \<Rightarrow> string
     \<Rightarrow> (dial_error + 'c) \<times> string list" where
  "safe_dial lookup parse_ip dial addr =
     (case split_host_port addr of
        None \<Rightarrow> (Inl BadAddress, [])
      | Some (host, port) \<Rightarrow>
          (case lookup host of
             None \<Rightarrow> (Inl LookupFailed, [])
           | Some ips \<Rightarrow>
               safe_dial_loop parse_ip (\<lambda>s. dial s port) (is_fly_private_host host) None ips))"

datatype url_error = UrlUnparsable | UrlNoHost | UrlNotHttps | UrlLookupFailed | UrlPrivate string

record parsed_url =
  pu_scheme :: string
  pu_hostname :: string

definition validate_external_url ::
  "(string \<Rightarrow> string list option) \<Rightarrow> (string \<Rightarrow> ip option) \<Rightarrow> parsed_url option \<Rightarrow> url_error option" where
  "validate_external_url lookup parse_ip parsed =
     (case parsed of
        None \<Rightarrow> Some UrlUnparsable
      | Some u \<Rightarrow>
          if pu_hostname u = [] then Some UrlNoHost
          else if is_fly_private_host (pu_hostname u) then None
          else if pu_scheme u \<noteq> ''https'' then Some UrlNotHttps
          else (case lookup (pu_hostname u) of
                  None \<Rightarrow> Some UrlLookupFailed
                | Some ips \<Rightarrow>
                    map_option UrlPrivate
                      (find (\<lambda>s. case parse_ip s of None \<Rightarrow> False | Some i \<Rightarrow> is_private_ip i) ips)))"

subsection \<open>The certificate pin\<close>

definition sha256_size :: nat where "sha256_size = 32"

definition parse_pin :: "string \<Rightarrow> nat list option" where
  "parse_pin pin =
     (case hex_decode (to_lower (filter (\<lambda>c. c \<noteq> CHR '':'') pin)) of
        None \<Rightarrow> None
      | Some raw \<Rightarrow> if length raw \<noteq> sha256_size then None else Some raw)"

text \<open>\<open>VerifyConnection\<close>: the first certificate's digest (the library's \<open>sha256\<close>) is the pin.\<close>

definition verify_pin :: "('cert \<Rightarrow> nat list) \<Rightarrow> nat list \<Rightarrow> 'cert list \<Rightarrow> bool" where
  "verify_pin sha256 want certs = (case certs of [] \<Rightarrow> False | c # _ \<Rightarrow> sha256 c = want)"

subsection \<open>Retries over a cold start\<close>

text \<open>
  What one attempt meets: a response, or an error that \<open>isColdStartError\<close> accepts or not,
  whether the caller has given up by then, and whether it gives up during the wait that follows.
\<close>

datatype 'r attempt = Response 'r | Failure (at_cold: bool) (at_gone: bool) (at_gone_waiting: bool)

datatype 'r outcome = Got 'r | CallerGone | Failed

function retry_loop ::
  "(nat \<Rightarrow> 'r attempt) \<Rightarrow> nat \<Rightarrow> duration \<Rightarrow> nat \<Rightarrow> duration \<Rightarrow> 'r outcome \<times> duration list" where
  "retry_loop upstream max_attempts cap n backoff =
     (if max_attempts < n then (Failed, [])
      else (case upstream n of
              Response r \<Rightarrow> (Got r, [])
            | Failure cold gone gone_waiting \<Rightarrow>
                if gone then (CallerGone, [])
                else if \<not> cold \<or> n = max_attempts then (Failed, [])
                else if gone_waiting then (CallerGone, [backoff])
                else (case retry_loop upstream max_attempts cap (Suc n)
                             (if backoff < cap then backoff * 2 else backoff) of
                        (r, ds) \<Rightarrow> (r, backoff # ds))))"
  by pat_completeness auto

termination
  by (relation "measure (\<lambda>(_, m, _, n, _). Suc m - n)") auto

declare retry_loop.simps [simp del]

definition cold_start_max_attempts :: nat where "cold_start_max_attempts = 9"
definition cold_start_backoff_cap :: duration where "cold_start_backoff_cap = 10 * second"

definition round_trip :: "(nat \<Rightarrow> 'r attempt) \<Rightarrow> 'r outcome \<times> duration list" where
  "round_trip upstream = retry_loop upstream cold_start_max_attempts cold_start_backoff_cap 1 250000000"

subsection \<open>The egress proxy\<close>

record egress_config =
  ec_url :: string
  ec_token :: string
  ec_hosts :: "string list"

record egress_proxy =
  ep_url :: string
  ep_token :: string
  ep_hosts :: "string list"

datatype egress_error = EgressNoUrl | EgressBadUrl | EgressScheme | EgressNoHost | EgressNoToken
  | EgressNoHosts | EgressEmptyHost

text \<open>\<open>parse\<close> is \<open>url.Parse\<close>: the scheme and the host of a URL.\<close>

definition new_egress_proxy ::
  "(string \<Rightarrow> (string \<times> string) option) \<Rightarrow> egress_config \<Rightarrow> egress_error + egress_proxy" where
  "new_egress_proxy parse cfg =
     (if ec_url cfg = [] then Inl EgressNoUrl
      else (case parse (ec_url cfg) of
              None \<Rightarrow> Inl EgressBadUrl
            | Some (scheme, host) \<Rightarrow>
                if scheme \<noteq> ''http'' \<and> scheme \<noteq> ''https'' then Inl EgressScheme
                else if host = [] then Inl EgressNoHost
                else if ec_token cfg = [] then Inl EgressNoToken
                else if ec_hosts cfg = [] then Inl EgressNoHosts
                else (let hs = map (\<lambda>h. to_lower (trim_space h)) (ec_hosts cfg)
                      in if [] \<in> set hs then Inl EgressEmptyHost
                         else Inr \<lparr>ep_url = ec_url cfg, ep_token = ec_token cfg, ep_hosts = hs\<rparr>)))"

definition egress_routes :: "egress_proxy option \<Rightarrow> string \<Rightarrow> bool" where
  "egress_routes p host =
     (case p of
        None \<Rightarrow> False
      | Some e \<Rightarrow>
          (let h = (case split_host_port host of None \<Rightarrow> host | Some (h, _) \<Rightarrow> h)
           in to_lower h \<in> set (ep_hosts e)))"

definition egress_proxy_func :: "egress_proxy option \<Rightarrow> string option \<Rightarrow> string option" where
  "egress_proxy_func p hostname =
     (case (p, hostname) of
        (Some e, Some h) \<Rightarrow> if egress_routes p h then Some (ep_url e) else None
      | _ \<Rightarrow> None)"

definition egress_connect_header :: "egress_proxy option \<Rightarrow> (string \<times> string) list" where
  "egress_connect_header p =
     (case p of None \<Rightarrow> [] | Some e \<Rightarrow> [(''Proxy-Authorization'', ''Bearer '' @ ep_token e)])"


subsection \<open>The private ranges as intervals\<close>

text \<open>An address as a number, the first byte the most significant.\<close>

definition ip_number :: "ip \<Rightarrow> nat" where
  "ip_number i = foldl (\<lambda>n b. n * 256 + unat b) 0 i"

definition v4_intervals :: "(nat \<times> nat) list" where
  "v4_intervals =
     [(0x7F000000, 0x7FFFFFFF), (0xA9FE0000, 0xA9FEFFFF), (0xE0000000, 0xE00000FF), (0, 0),
      (0x0A000000, 0x0AFFFFFF), (0xAC100000, 0xAC1FFFFF), (0xC0A80000, 0xC0A8FFFF),
      (0x64400000, 0x647FFFFF)]"

lemma mask_table:
  "list_all (\<lambda>n. (unat (word_of_nat n AND 240 :: byte) = 16) = (n div 16 = Suc 0) \<and>
                 (unat (word_of_nat n AND 192 :: byte) = 64) = (n div 64 = Suc 0) \<and>
                 (word_of_nat n AND 255 :: byte) = word_of_nat n) [0..<256]"
  by code_simp

lemma byte_masks:
  fixes b :: byte
  shows "(unat (b AND 240) = 16) = (unat b div 16 = Suc 0)"
    and "(unat (b AND 192) = 64) = (unat b div 64 = Suc 0)"
    and "b AND 255 = b"
proof -
  have b: "unat b \<in> set [0..<256]" "word_of_nat (unat b) = b"
    using unsigned_less [of b] by simp_all
  from mask_table [unfolded list_all_iff, rule_format, OF b(1)] b(2)
  show "(unat (b AND 240) = 16) = (unat b div 16 = Suc 0)"
    "(unat (b AND 192) = 64) = (unat b div 64 = Suc 0)" "b AND 255 = b" by simp_all
qed

lemma byte_eq: "(b :: byte) = c \<longleftrightarrow> unat b = unat c"
  by (simp add: word_unat_eq_iff)

lemma interval_div:
  assumes "0 < (k :: nat)"
  shows "m * k \<le> x \<and> x \<le> m * k + (k - 1) \<longleftrightarrow> x div k = m"
proof
  assume r: "m * k \<le> x \<and> x \<le> m * k + (k - 1)"
  with assms have "k * m \<le> x" "x < k * Suc m" by (auto simp: mult.commute)
  then show "x div k = m" by (rule div_nat_eqI)
next
  assume "x div k = m"
  with div_mult_mod_eq [of x k] mod_less_divisor [OF assms, of x]
  show "m * k \<le> x \<and> x \<le> m * k + (k - 1)" by auto
qed

lemma digit_eq:
  assumes "q < k" "r < (k :: nat)"
  shows "a * k + q = m * k + r \<longleftrightarrow> a = m \<and> q = r"
proof
  assume e: "a * k + q = m * k + r"
  have "(a * k + q) div k = a" "(m * k + r) div k = m" using assms by simp_all
  with e show "a = m \<and> q = r" by simp
qed simp

lemma interval_bytes:
  fixes a b c d :: nat
  defines "x \<equiv> a * 16777216 + b * 65536 + c * 256 + d"
  assumes "a < 256" "b < 256" "c < 256" "d < 256"
  shows "0x7F000000 \<le> x \<and> x \<le> 0x7FFFFFFF \<longleftrightarrow> a = 127"
    and "0xA9FE0000 \<le> x \<and> x \<le> 0xA9FEFFFF \<longleftrightarrow> a = 169 \<and> b = 254"
    and "0xE0000000 \<le> x \<and> x \<le> 0xE00000FF \<longleftrightarrow> a = 224 \<and> b = 0 \<and> c = 0"
    and "x = 0 \<longleftrightarrow> a = 0 \<and> b = 0 \<and> c = 0 \<and> d = 0"
    and "0x0A000000 \<le> x \<and> x \<le> 0x0AFFFFFF \<longleftrightarrow> a = 10"
    and "0xAC100000 \<le> x \<and> x \<le> 0xAC1FFFFF \<longleftrightarrow> a = 172 \<and> b div 16 = 1"
    and "0xC0A80000 \<le> x \<and> x \<le> 0xC0A8FFFF \<longleftrightarrow> a = 192 \<and> b = 168"
    and "0x64400000 \<le> x \<and> x \<le> 0x647FFFFF \<longleftrightarrow> a = 100 \<and> b div 64 = 1"
proof -
  have q: "16 * (b div 16) \<le> b" "b < 16 * (b div 16) + 16" "b div 16 < 16"
    "64 * (b div 64) \<le> b" "b < 64 * (b div 64) + 64" "b div 64 < 4" using assms(3) by auto
  have d24: "x div 16777216 = a" by (rule div_nat_eqI) (use assms in \<open>simp_all add: x_def\<close>)
  have d16: "x div 65536 = a * 256 + b" by (rule div_nat_eqI) (use assms in \<open>simp_all add: x_def\<close>)
  have d8: "x div 256 = (a * 256 + b) * 256 + c" by (rule div_nat_eqI) (use assms in \<open>simp_all add: x_def\<close>)
  have d20: "x div 1048576 = a * 16 + b div 16"
  proof -
    obtain q where q: "b div 16 = q" by blast
    then have "16 * q \<le> b" "b < 16 * q + 16" by auto
    then have "1048576 * (a * 16 + q) \<le> x" "x < 1048576 * Suc (a * 16 + q)"
      using assms(4,5) by (simp_all add: x_def)
    then show ?thesis unfolding q by (rule div_nat_eqI)
  qed
  have d22: "x div 4194304 = a * 4 + b div 64"
  proof -
    obtain q where q: "b div 64 = q" by blast
    then have "64 * q \<le> b" "b < 64 * q + 64" by auto
    then have "4194304 * (a * 4 + q) \<le> x" "x < 4194304 * Suc (a * 4 + q)"
      using assms(4,5) by (simp_all add: x_def)
    then show ?thesis unfolding q by (rule div_nat_eqI)
  qed
  show "0x7F000000 \<le> x \<and> x \<le> 0x7FFFFFFF \<longleftrightarrow> a = 127"
    using interval_div [of 16777216 127 x] d24 by simp
  show "0xA9FE0000 \<le> x \<and> x \<le> 0xA9FEFFFF \<longleftrightarrow> a = 169 \<and> b = 254"
    using interval_div [of 65536 43518 x] d16 digit_eq [of b 256 254 a 169] assms(3) by simp
  show "0xE0000000 \<le> x \<and> x \<le> 0xE00000FF \<longleftrightarrow> a = 224 \<and> b = 0 \<and> c = 0"
    using interval_div [of 256 14680064 x] d8 digit_eq [of c 256 0 "a * 256 + b" 57344]
      digit_eq [of b 256 0 a 224] assms(3,4) by simp
  show "x = 0 \<longleftrightarrow> a = 0 \<and> b = 0 \<and> c = 0 \<and> d = 0" by (simp add: x_def)
  show "0x0A000000 \<le> x \<and> x \<le> 0x0AFFFFFF \<longleftrightarrow> a = 10"
    using interval_div [of 16777216 10 x] d24 by simp
  show "0xAC100000 \<le> x \<and> x \<le> 0xAC1FFFFF \<longleftrightarrow> a = 172 \<and> b div 16 = 1"
    using interval_div [of 1048576 2753 x] d20 digit_eq [of "b div 16" 16 1 a 172] q(3) by simp
  show "0xC0A80000 \<le> x \<and> x \<le> 0xC0A8FFFF \<longleftrightarrow> a = 192 \<and> b = 168"
    using interval_div [of 65536 49320 x] d16 digit_eq [of b 256 168 a 192] assms(3) by simp
  show "0x64400000 \<le> x \<and> x \<le> 0x647FFFFF \<longleftrightarrow> a = 100 \<and> b div 64 = 1"
    using interval_div [of 4194304 401 x] d22 digit_eq [of "b div 64" 4 1 a 100] q(6) by simp
qed

text \<open>
  The guard's bit tests are the documented ranges. A 4-byte address is refused exactly when
  it lies in one of the eight intervals of loopback, link-local, private-use, shared and
  unspecified addresses, and an address mapped into IPv6 is judged as the IPv4 address it holds.
\<close>

theorem private_v4_ranges:
  "is_private_ip [a, b, c, d] =
     list_ex (\<lambda>(lo, hi). lo \<le> ip_number [a, b, c, d] \<and> ip_number [a, b, c, d] \<le> hi) v4_intervals \<and>
   is_private_ip (replicate 10 0 @ [0xFF, 0xFF, a, b, c, d]) = is_private_ip [a, b, c, d]"
proof
  have t4: "to4 [a, b, c, d] = Some [a, b, c, d]" by (simp add: to4_def)
  have num: "ip_number [a, b, c, d] = unat a * 16777216 + unat b * 65536 + unat c * 256 + unat d"
    by (simp add: ip_number_def)
  have lt: "unat a < 256" "unat b < 256" "unat c < 256" "unat d < 256"
    using unsigned_less [of a] unsigned_less [of b] unsigned_less [of c] unsigned_less [of d] by simp_all
  have priv: "is_private_ip [a, b, c, d] \<longleftrightarrow>
      unat a = 127 \<or> (unat a = 169 \<and> unat b = 254) \<or> (unat a = 224 \<and> unat b = 0 \<and> unat c = 0) \<or>
      (unat a = 0 \<and> unat b = 0 \<and> unat c = 0 \<and> unat d = 0) \<or>
      unat a = 10 \<or> (unat a = 172 \<and> unat b div 16 = 1) \<or> (unat a = 192 \<and> unat b = 168) \<or>
      (unat a = 100 \<and> unat b div 64 = 1)"
    unfolding is_private_ip_def is_loopback_def is_link_local_unicast_def is_link_local_multicast_def
      is_unspecified_def private_ranges_def cidr_contains_def t4 Let_def
    by (simp add: byte_masks byte_eq)
  show "is_private_ip [a, b, c, d] =
     list_ex (\<lambda>(lo, hi). lo \<le> ip_number [a, b, c, d] \<and> ip_number [a, b, c, d] \<le> hi) v4_intervals"
  proof -
    show ?thesis
      unfolding priv num v4_intervals_def list_ex_Nil_iff list_ex_Cons_iff prod.case interval_bytes [OF lt] One_nat_def
        le_zero_eq interval_bytes(4) [OF lt]
      by auto
  qed
  have "to4 (replicate 10 0 @ [0xFF, 0xFF, a, b, c, d]) = Some [a, b, c, d]"
    by (simp add: to4_def numeral_eq_Suc)
  then show "is_private_ip (replicate 10 0 @ [0xFF, 0xFF, a, b, c, d]) = is_private_ip [a, b, c, d]"
    unfolding is_private_ip_def is_loopback_def is_link_local_unicast_def is_link_local_multicast_def
      is_unspecified_def cidr_contains_def t4 by simp
qed


text \<open>
  The ranges that are not globally routable but pass: 0.0.0.0/8 beyond its first address,
  benchmarking, reserved and broadcast addresses, and private addresses embedded in the NAT64
  prefix 64:ff9b::/96.
\<close>

lemma unguarded_ranges:
  "\<not> is_private_ip [0, 0, 0, 1]" "\<not> is_private_ip [198, 18, 0, 1]" "\<not> is_private_ip [240, 0, 0, 1]"
  "\<not> is_private_ip [255, 255, 255, 255]"
  "\<not> is_private_ip ([0x00, 0x64, 0xFF, 0x9B] @ replicate 8 0 @ [10, 0, 0, 1])"
  by code_simp+

lemma safe_dial_loop_trace:
  "safe_dial_loop parse_ip dial fly e ss = (r, ds) \<Longrightarrow> s \<in> set ds \<Longrightarrow>
     s \<in> set ss \<and> (\<exists>i. parse_ip s = Some i \<and> (fly \<or> \<not> is_private_ip i))"
proof (induction ss arbitrary: e r ds)
  case (Cons a ss)
  then show ?case
    by (fastforce split: option.splits if_splits prod.splits)
qed simp

lemma safe_dial_loop_result:
  "safe_dial_loop parse_ip dial fly e ss = (Inr c, ds) \<Longrightarrow> ds \<noteq> [] \<and> dial (last ds) = Some c"
proof (induction ss arbitrary: e ds)
  case (Cons a ss)
  then show ?case
    by (fastforce split: option.splits if_splits prod.splits)
qed simp

text \<open>
  The ranges the claim is about, in decimal for IPv4: loopback, the three private-use ranges,
  link-local, shared (carrier-grade NAT), link-local multicast and the unspecified address; for IPv6
  loopback, unspecified, unique local (fc00::/7), link-local (fe80::/10) and link-local multicast. An
  IPv4 address counts in its four bytes and mapped into IPv6.
\<close>

definition internal_v4 :: "nat \<Rightarrow> nat \<Rightarrow> nat \<Rightarrow> nat \<Rightarrow> bool" where
  "internal_v4 a b c d =
     (a = 127 \<or> a = 10 \<or> a = 172 \<and> 16 \<le> b \<and> b \<le> 31 \<or> a = 192 \<and> b = 168 \<or> a = 169 \<and> b = 254 \<or>
      a = 100 \<and> 64 \<le> b \<and> b \<le> 127 \<or> a = 224 \<and> b = 0 \<and> c = 0 \<or> a = 0 \<and> b = 0 \<and> c = 0 \<and> d = 0)"

definition internal_v6 :: "ip \<Rightarrow> bool" where
  "internal_v6 i =
     (length i = 16 \<and>
      (i = replicate 16 0 \<or> i = replicate 15 0 @ [1] \<or> unat (i ! 0) = 0xFC \<or> unat (i ! 0) = 0xFD \<or>
       unat (i ! 0) = 0xFE \<and> 0x80 \<le> unat (i ! 1) \<and> unat (i ! 1) \<le> 0xBF \<or>
       unat (i ! 0) = 0xFF \<and> unat (i ! 1) mod 16 = 2))"

definition internal_address :: "ip \<Rightarrow> bool" where
  "internal_address i =
     (internal_v6 i \<or>
      (\<exists>a b c d. (i = [a, b, c, d] \<or> i = replicate 10 0 @ [0xFF, 0xFF, a, b, c, d]) \<and>
         internal_v4 (unat a) (unat b) (unat c) (unat d)))"

lemma v6_mask_table:
  "list_all (\<lambda>n. (n div 2 = 126 \<longrightarrow> (word_of_nat n AND 254 :: byte) = 252) \<and>
                 (128 \<le> n \<and> n \<le> 191 \<longrightarrow> (word_of_nat n AND 192 :: byte) = 128) \<and>
                 (n mod 16 = 2 \<longrightarrow> (word_of_nat n AND 15 :: byte) = 2)) [0..<256]"
  by code_simp

lemma v6_masks:
  fixes b :: byte
  shows "unat b = 252 \<or> unat b = 253 \<Longrightarrow> b AND 254 = 252"
    and "128 \<le> unat b \<and> unat b \<le> 191 \<Longrightarrow> b AND 192 = 128"
    and "unat b mod 16 = 2 \<Longrightarrow> b AND 15 = 2"
proof -
  have b: "unat b \<in> set [0..<256]" "word_of_nat (unat b) = b" using unsigned_less [of b] by simp_all
  note t = v6_mask_table [unfolded list_all_iff, rule_format, OF b(1), unfolded b(2)]
  show "b AND 254 = 252" if "unat b = 252 \<or> unat b = 253"
    using t [THEN conjunct1] that by auto
  show "b AND 192 = 128" if "128 \<le> unat b \<and> unat b \<le> 191" using t [THEN conjunct2, THEN conjunct1] that by blast
  show "b AND 15 = 2" if "unat b mod 16 = 2" using t [THEN conjunct2, THEN conjunct2] that by blast
qed

lemma unmasked_bytes: "list_all (\<lambda>(n, k, b). n AND k = b AND k) (zip (replicate m 0) (zip (replicate m 0) (xs :: ip)))"
proof (induction m arbitrary: xs)
  case (Suc m)
  then show ?case by (cases xs) simp_all
qed simp

lemma internal_v6_private:
  assumes "internal_v6 i"
  shows "is_private_ip i"
proof -
  from assms have len: "length i = 16" by (simp add: internal_v6_def)
  then obtain x y r where i: "i = x # y # r" "length r = 14" by (auto simp: numeral_eq_Suc length_Suc_conv)
  have not4: "to4 i = None" if "x \<noteq> 0" using that i by (simp add: to4_def)
  consider "i = replicate 16 0" | "i = replicate 15 0 @ [1]" | "unat x = 252 \<or> unat x = 253"
    | "unat x = 254" "128 \<le> unat y" "unat y \<le> 191" | "unat x = 255" "unat y mod 16 = 2"
    using assms by (auto simp: internal_v6_def i)
  then show ?thesis
  proof cases
    case 1
    have "is_unspecified (replicate 16 0)" by code_simp
    with 1 show ?thesis by (simp only: is_private_ip_def) simp
  next
    case 2
    have "is_loopback (replicate 15 0 @ [1])" by code_simp
    with 2 show ?thesis by (simp only: is_private_ip_def) simp
  next
    case 3
    then have "x \<noteq> 0" by auto
    from unmasked_bytes [of 15 "y # r"] i(2) not4 [OF this] v6_masks(1) [OF 3]
    have "cidr_contains (0xFC # replicate 15 0) (0xFE # replicate 15 0) i"
      by (simp add: cidr_contains_def i(1))
    then show ?thesis by (simp add: is_private_ip_def private_ranges_def)
  next
    case 4
    then have "x = 0xFE" by (simp add: byte_eq)
    with not4 v6_masks(2) [of y] 4 len have "is_link_local_unicast i"
      by (simp add: is_link_local_unicast_def i(1))
    then show ?thesis by (simp add: is_private_ip_def)
  next
    case 5
    then have "x = 0xFF" by (simp add: byte_eq)
    with not4 v6_masks(3) [of y] 5 len have "is_link_local_multicast i"
      by (simp add: is_link_local_multicast_def i(1))
    then show ?thesis by (simp add: is_private_ip_def)
  qed
qed

lemma internal_v4_private:
  assumes "internal_v4 (unat a) (unat b) (unat c) (unat d)"
  shows "is_private_ip [a, b, c, d]"
proof -
  have t4: "to4 [a, b, c, d] = Some [a, b, c, d]" by (simp add: to4_def)
  have "unat b div 16 = 1" if "16 \<le> unat b" "unat b \<le> 31" using that by (intro div_nat_eqI) simp_all
  moreover have "unat b div 64 = 1" if "64 \<le> unat b" "unat b \<le> 127" using that by (intro div_nat_eqI) simp_all
  ultimately show ?thesis
    using assms
    unfolding internal_v4_def is_private_ip_def is_loopback_def is_link_local_unicast_def is_link_local_multicast_def
      is_unspecified_def private_ranges_def cidr_contains_def t4 Let_def
    by (auto simp: byte_masks byte_eq)
qed

lemma internal_is_private: "internal_address i \<Longrightarrow> is_private_ip i"
  using internal_v6_private internal_v4_private private_v4_ranges [THEN conjunct2]
  unfolding internal_address_def by metis

text \<open>
  C39. Discovery does not connect into the internal ranges. Every address the guarded dialler connects
  to, whether the connection succeeds or not, is one the host name resolved to at that moment; unless
  the host is one of Fly's private names, it is no loopback, private-use, unique-local, link-local,
  shared or unspecified address, also not one mapped into IPv6; and the connection returned is to
  the last address tried. The check is made on the address itself, so a name that resolves
  differently after it was validated gains nothing. Ranges beyond these are not claimed, and some that
  are not globally routable pass: the rest of 0.0.0.0/8, benchmarking, reserved and broadcast
  addresses, and private addresses inside the NAT64 prefix (\<open>unguarded_ranges\<close>).
\<close>

theorem dial_is_never_private:
  assumes "safe_dial lookup parse_ip dial addr = (r, tried)" and "s \<in> set tried"
  shows "\<exists>host port ips i. split_host_port addr = Some (host, port) \<and> lookup host = Some ips \<and>
           s \<in> set ips \<and> parse_ip s = Some i \<and>
           (is_fly_private_host host \<or> \<not> internal_address i) \<and>
           (\<forall>c. r = Inr c \<longrightarrow> dial (last tried) port = Some c)"
proof -
  from assms obtain host port ips where h: "split_host_port addr = Some (host, port)" "lookup host = Some ips"
    "safe_dial_loop parse_ip (\<lambda>s. dial s port) (is_fly_private_host host) None ips = (r, tried)"
    by (auto simp: safe_dial_def split: option.splits prod.splits)
  from safe_dial_loop_trace [OF h(3) assms(2)] obtain i where i: "s \<in> set ips" "parse_ip s = Some i"
    "is_fly_private_host host \<or> \<not> is_private_ip i" by blast
  have "dial (last tried) port = Some c" if "r = Inr c" for c
    using safe_dial_loop_result [OF h(3) [unfolded that]] by simp
  with h(1,2) i internal_is_private show ?thesis by blast
qed

theorem dial_is_never_private_witness:
  "internal_address [10, 0, 0, 1] \<and>
   (\<exists>i. (\<lambda>s. if s = ''10.0.0.1'' then Some [10, 0, 0, 1] else if s = ''1.1.1.1'' then Some [1, 1, 1, 1] else None) ''1.1.1.1''
          = Some i \<and> \<not> internal_address i)"
proof -
  let ?parse = "\<lambda>s. if s = ''10.0.0.1'' then Some [10, 0, 0, 1] else if s = ''1.1.1.1'' then Some [1, 1, 1, 1 :: byte] else None"
  let ?lookup = "\<lambda>h :: string. Some [''10.0.0.1'', ''1.1.1.1'']"
  have h: "split_host_port ''mcp.example:443'' = Some (''mcp.example'', ''443'')"
    by (simp add: split_host_port_def last_colon_def)
  have fly: "\<not> is_fly_private_host ''mcp.example''"
    by (simp add: is_fly_private_host_def Let_def trim_suffix_def has_suffix_def lower_char_def)
  have p: "is_private_ip [10, 0, 0, 1]" "\<not> is_private_ip [1, 1, 1, 1]" by code_simp+
  have d: "safe_dial ?lookup ?parse (\<lambda>s port. Some s) ''mcp.example:443'' = (Inr ''1.1.1.1'', [''1.1.1.1''])"
    by (simp add: safe_dial_def h fly p)
  have "internal_address [10, 0, 0, 1]"
    unfolding internal_address_def
    by (rule disjI2, rule exI [of _ 10], rule exI [of _ 0], rule exI [of _ 0], rule exI [of _ 1])
      (simp add: internal_v4_def)
  with dial_is_never_private [OF d, of "''1.1.1.1''"] h fly show ?thesis by auto
qed

subsection \<open>The retries end in time\<close>

text \<open>The waits of a run that meets nothing but cold starts: doubled until they reach the cap.\<close>

fun waits :: "duration \<Rightarrow> duration \<Rightarrow> nat \<Rightarrow> duration list" where
  "waits cap b 0 = []"
| "waits cap b (Suc k) = b # waits cap (if b < cap then b * 2 else b) k"

lemma waits_length [simp]: "length (waits cap b k) = k"
  by (induction k arbitrary: b) simp_all

lemma retry_waits:
  "snd (retry_loop upstream m cap n b) = take (length (snd (retry_loop upstream m cap n b))) (waits cap b (m - n))"
proof (induction upstream m cap n b rule: retry_loop.induct)
  case (1 upstream m cap n b)
  show ?case
  proof (cases "m < n \<or> (\<exists>r. upstream n = Response r)")
    case True
    then show ?thesis by (auto simp: retry_loop.simps [of upstream m cap n b])
  next
    case False
    then obtain cold gone wait where t: "upstream n = Failure cold gone wait" and le: "\<not> m < n"
      by (cases "upstream n") auto
    show ?thesis
    proof (cases "gone \<or> \<not> cold \<or> n = m")
      case True
      with t le show ?thesis by (auto simp: retry_loop.simps [of upstream m cap n b])
    next
      case False
      with le have "n < m" by simp
      then have s: "m - n = Suc (m - Suc n)" by simp
      let ?nxt = "retry_loop upstream m cap (Suc n) (if b < cap then b * 2 else b)"
      obtain r ds where nxt: "?nxt = (r, ds)" by fastforce
      with "1.IH" [OF le t] False have "wait \<or> ds = take (length ds) (waits cap (if b < cap then b * 2 else b) (m - Suc n))"
        by (cases wait) (cases "b < cap", simp_all)
      with False t le nxt show ?thesis
        by (auto simp: retry_loop.simps [of upstream m cap n b] s)
    qed
  qed
qed

lemma retry_got:
  "fst (retry_loop upstream m cap n b) = Got r \<Longrightarrow>
     \<exists>k. n \<le> k \<and> k \<le> m \<and> upstream k = Response r \<and>
         (\<forall>j. n \<le> j \<and> j < k \<longrightarrow> upstream j = Failure True False False)"
proof (induction upstream m cap n b rule: retry_loop.induct)
  case (1 upstream m cap n b)
  then have le: "\<not> m < n" by (auto simp: retry_loop.simps [of upstream m cap n b])
  show ?case
  proof (cases "upstream n")
    case (Response q)
    with "1.prems" le have "q = r" by (simp add: retry_loop.simps [of upstream m cap n b])
    with Response le show ?thesis by (intro exI [of _ n]) auto
  next
    case (Failure cold gone wait)
    with "1.prems" le have c: "\<not> gone" "cold" "n \<noteq> m" "\<not> wait"
      and rest: "fst (retry_loop upstream m cap (Suc n) (if b < cap then b * 2 else b)) = Got r"
      by (auto simp: retry_loop.simps [of upstream m cap n b] split: if_splits prod.splits)
    from "1.IH" [OF le Failure] c rest obtain k where k: "Suc n \<le> k" "k \<le> m" "upstream k = Response r"
      "\<forall>j. Suc n \<le> j \<and> j < k \<longrightarrow> upstream j = Failure True False False" by auto
    have "upstream j = Failure True False False" if "n \<le> j" "j < k" for j
      using k(4) that Failure c by (cases "j = n") auto
    with k show ?thesis by (intro exI [of _ k]) simp
  qed
qed

lemma sum_list_take_le: "(\<And>x. x \<in> set xs \<Longrightarrow> (0 :: int) \<le> x) \<Longrightarrow> sum_list (take k xs) \<le> sum_list xs"
  using sum_list_append [of "take k xs" "drop k xs"] sum_list_nonneg [of "drop k xs"]
  by (simp add: in_set_dropD)

text \<open>
  A request to a server that does not wake up comes back. Whatever the upstream does, the
  retry loop makes at most nine attempts and waits at most 47.75 seconds between them, which is
  within the 90 seconds of the client's own limit; and what it returns is the first response,
  reached through cold-start failures only.
\<close>

theorem retries_end_in_time:
  "length (snd (round_trip upstream)) < cold_start_max_attempts \<and>
   sum_list (snd (round_trip upstream)) \<le> 47750000000 \<and>
   sum_list (snd (round_trip upstream)) < 90 * second \<and>
   (\<forall>r. fst (round_trip upstream) = Got r \<longrightarrow>
      (\<exists>k \<le> cold_start_max_attempts. upstream k = Response r \<and>
         (\<forall>j. 1 \<le> j \<and> j < k \<longrightarrow> upstream j = Failure True False False)))"
proof -
  let ?ds = "snd (round_trip upstream)"
  let ?w = "waits cold_start_backoff_cap 250000000 8"
  have w: "?w = [250000000, 500000000, 1000000000, 2000000000, 4000000000, 8000000000, 16000000000, 16000000000]"
    by (simp add: numeral_eq_Suc cold_start_backoff_cap_def second_def)
  have t: "?ds = take (length ?ds) ?w"
    using retry_waits [of upstream cold_start_max_attempts cold_start_backoff_cap 1 250000000]
    by (simp add: round_trip_def cold_start_max_attempts_def)
  have "sum_list (take (length ?ds) ?w) \<le> sum_list ?w"
    by (rule sum_list_take_le) (auto simp: w)
  then have s: "sum_list ?ds \<le> 47750000000"
    by (subst t) (simp add: w)
  have "length ?ds \<le> 8" using arg_cong [OF t, of length] by (simp add: w)
  moreover have "\<forall>r. fst (round_trip upstream) = Got r \<longrightarrow>
      (\<exists>k \<le> cold_start_max_attempts. upstream k = Response r \<and>
         (\<forall>j. 1 \<le> j \<and> j < k \<longrightarrow> upstream j = Failure True False False))"
    using retry_got [of upstream cold_start_max_attempts cold_start_backoff_cap 1 250000000]
    unfolding round_trip_def by blast
  ultimately show ?thesis using s by (auto simp: cold_start_max_attempts_def second_def)
qed

theorem retries_end_in_time_witness:
  "round_trip (\<lambda>n. if n < 3 then Failure True False False else Response ()) =
     (Got (), [250000000, 500000000]) \<and>
   sum_list (snd (round_trip (\<lambda>n. if n < 3 then Failure True False False else Response ()))) \<le> 47750000000"
proof -
  let ?u = "\<lambda>n. if n < (3 :: nat) then Failure True False False else Response ()"
  have "round_trip ?u = (Got (), [250000000, 500000000])"
    by (simp add: round_trip_def retry_loop.simps cold_start_max_attempts_def cold_start_backoff_cap_def
        second_def)
  with retries_end_in_time [of ?u] show ?thesis by blast
qed

text \<open>The cap is no ceiling: the doubling that reaches past it is kept, so 16 seconds are waited under a cap of 10.\<close>

lemma wait_exceeds_the_cap:
  "\<exists>d \<in> set (snd (round_trip (\<lambda>n. Failure True False False))). cold_start_backoff_cap < d"
  by (simp add: round_trip_def retry_loop.simps cold_start_max_attempts_def cold_start_backoff_cap_def
      second_def)

lemma egress_routes_iff:
  assumes "new_egress_proxy parse cfg = Inr e" and "CHR '':'' \<notin> set host"
  shows "egress_routes (Some e) host \<longleftrightarrow> (\<exists>h \<in> set (ec_hosts cfg). to_lower (trim_space h) = to_lower host)"
proof -
  have none: "first_index (\<lambda>c. c = CHR '':'') (rev host) = None"
    using assms(2) by auto
  have "split_host_port host = None" unfolding split_host_port_def last_colon_def none by simp
  moreover from assms(1) have "ep_hosts e = map (\<lambda>h. to_lower (trim_space h)) (ec_hosts cfg)"
    by (auto simp: new_egress_proxy_def Let_def split: if_splits option.splits)
  ultimately show ?thesis by (simp add: egress_routes_def image_iff eq_commute)
qed

end
