(* ===== verification/LogBuffer.thy ===== *)
theory LogBuffer
  imports GoText
begin

text \<open>
  The ring buffer of recent log lines (\<open>libraries/logbuffer\<close>), its queries, and the tail of the
  persisted log it is filled from. A buffer of capacity 0 has no line to overwrite: appending
  to it panics, which is \<open>None\<close>.

  The abstract view of a buffer is the text written to it so far: the refinement
  \<open>writes_keep_last_lines\<close> says its lines are the last ones of that text, however the text was
  cut into writes.
\<close>

record log_buffer =
  lb_lines :: "(time \<times> string) list"
  lb_max :: nat
  lb_partial :: string

definition new_log_buffer :: "nat \<Rightarrow> log_buffer" where
  "new_log_buffer n = \<lparr>lb_lines = [], lb_max = n, lb_partial = []\<rparr>"

definition append_locked :: "time \<times> string \<Rightarrow> log_buffer \<Rightarrow> log_buffer option" where
  "append_locked e b =
     (if lb_max b \<le> length (lb_lines b) then
        (if lb_lines b = [] then None else Some (b\<lparr>lb_lines := tl (lb_lines b) @ [e]\<rparr>))
      else Some (b\<lparr>lb_lines := lb_lines b @ [e]\<rparr>))"

fun append_all :: "(time \<times> string) list \<Rightarrow> log_buffer \<Rightarrow> log_buffer option" where
  "append_all [] b = Some b"
| "append_all (e # es) b = Option.bind (append_locked e b) (append_all es)"

definition load_lines :: "string list \<Rightarrow> log_buffer \<Rightarrow> log_buffer option" where
  "load_lines ls b = append_all (map (\<lambda>l. (0, l)) (filter (\<lambda>l. l \<noteq> []) ls)) b"

definition newline :: char where "newline = CHR 0x0A"

text \<open>The complete lines of a text, and what follows the last of them.\<close>

fun cut_lines :: "string \<Rightarrow> string list \<times> string" where
  "cut_lines [] = ([], [])"
| "cut_lines (c # s) =
     (case cut_lines s of
        (ls, r) \<Rightarrow>
          if c = newline then ([] # ls, r)
          else (case ls of [] \<Rightarrow> ([], c # r) | l # ls' \<Rightarrow> ((c # l) # ls', r)))"

definition log_write :: "time \<Rightarrow> string \<Rightarrow> log_buffer \<Rightarrow> log_buffer option" where
  "log_write now p b =
     (case cut_lines (lb_partial b @ p) of
        (ls, rest) \<Rightarrow>
          map_option (\<lambda>b'. b'\<lparr>lb_partial := rest\<rparr>)
            (append_all (map (\<lambda>l. (now, l)) (filter (\<lambda>l. l \<noteq> []) ls)) b))"

fun log_writes :: "(time \<times> string) list \<Rightarrow> log_buffer \<Rightarrow> log_buffer option" where
  "log_writes [] b = Some b"
| "log_writes ((now, p) # ps) b = Option.bind (log_write now p b) (log_writes ps)"

subsection \<open>Queries\<close>

record query_params =
  qp_user_id :: string
  qp_include_system :: bool
  qp_level :: string
  qp_contains :: string
  qp_since :: time
  qp_max_lines :: int

definition matches_user :: "string \<Rightarrow> string \<Rightarrow> bool" where
  "matches_user line user =
     (let target = ''user='' @ user
      in case index_of line target of
           None \<Rightarrow> False
         | Some i \<Rightarrow>
             (let e = i + length target
              in if length line \<le> e then True
                 else line ! e = CHR '' '' \<or> line ! e = CHR 0x09 \<or> line ! e = newline))"

text \<open>\<open>extractTime\<close>; \<open>parse\<close> is \<open>time.Parse\<close> for RFC 3339.\<close>

definition field_value :: "string \<Rightarrow> string \<Rightarrow> string option" where
  "field_value key line =
     (case index_of line key of
        None \<Rightarrow> None
      | Some i \<Rightarrow> Some (takeWhile (\<lambda>c. c \<noteq> CHR '' '') (drop (i + length key) line)))"

definition extract_time :: "(string \<Rightarrow> time option) \<Rightarrow> string \<Rightarrow> time option" where
  "extract_time parse line = Option.bind (field_value ''time='' line) parse"

definition extract_level :: "string \<Rightarrow> string" where
  "extract_level line = (case field_value ''level='' line of None \<Rightarrow> [] | Some v \<Rightarrow> v)"

text \<open>\<open>levelOrd\<close>; \<open>upper\<close> is \<open>strings.ToUpper\<close>.\<close>

definition level_ord :: "(string \<Rightarrow> string) \<Rightarrow> string \<Rightarrow> int" where
  "level_ord upper level =
     (let l = upper level
      in if l = ''DEBUG'' then 0 else if l = ''INFO'' then 1
         else if l = ''WARN'' \<or> l = ''WARNING'' then 2 else if l = ''ERROR'' then 3 else - 1)"

definition matches_level :: "(string \<Rightarrow> string) \<Rightarrow> string \<Rightarrow> string \<Rightarrow> bool" where
  "matches_level upper line minimum = (level_ord upper minimum \<le> level_ord upper (extract_level line))"

record text_library =
  tx_lower :: "string \<Rightarrow> string"
  tx_upper :: "string \<Rightarrow> string"
  tx_parse_time :: "string \<Rightarrow> time option"

definition matches_entry :: "text_library \<Rightarrow> string \<Rightarrow> query_params \<Rightarrow> bool" where
  "matches_entry tx line p =
     ((qp_user_id p \<noteq> [] \<longrightarrow>
         (if str_contains line ''user='' then matches_user line (qp_user_id p)
          else qp_include_system p)) \<and>
      (qp_level p \<noteq> [] \<longrightarrow> matches_level (tx_upper tx) line (qp_level p)) \<and>
      (tx_lower tx (qp_contains p) \<noteq> [] \<longrightarrow> str_contains (tx_lower tx line) (tx_lower tx (qp_contains p))) \<and>
      (qp_since p \<noteq> 0 \<longrightarrow>
         (case extract_time (tx_parse_time tx) line of None \<Rightarrow> False | Some t \<Rightarrow> qp_since p \<le> t)))"

definition last_n :: "nat \<Rightarrow> 'a list \<Rightarrow> 'a list" where
  "last_n n xs = drop (length xs - n) xs"

definition log_query :: "text_library \<Rightarrow> query_params \<Rightarrow> log_buffer \<Rightarrow> string list" where
  "log_query tx p b =
     (let result = filter (\<lambda>l. matches_entry tx l p) (map snd (lb_lines b))
      in if 0 < qp_max_lines p \<and> qp_max_lines p < int (length result)
         then last_n (nat (qp_max_lines p)) result else result)"

subsection \<open>The persisted log\<close>

definition scan_limit :: nat where "scan_limit = 1048576"

definition drop_cr :: "string \<Rightarrow> string" where
  "drop_cr l = (if l \<noteq> [] \<and> last l = CHR 0x0D then butlast l else l)"

text \<open>
  \<open>readAllLines\<close> of a file's content, \<open>None\<close> for a missing file; a line that does not fit the
  scanner's buffer is an error, \<open>Inl\<close>.
\<close>

definition read_all_lines :: "string option \<Rightarrow> unit + string list" where
  "read_all_lines content =
     (case content of
        None \<Rightarrow> Inr []
      | Some s \<Rightarrow>
          (case cut_lines s of
             (ls, r) \<Rightarrow>
               (let all = ls @ (if r = [] then [] else [r])
                in if list_ex (\<lambda>l. scan_limit \<le> length l) all then Inl ()
                   else Inr (filter (\<lambda>l. l \<noteq> []) (map drop_cr all)))))"

definition read_tail_lines :: "string option \<Rightarrow> string option \<Rightarrow> nat \<Rightarrow> unit + string list" where
  "read_tail_lines file old n =
     (case read_all_lines file of
        Inl e \<Rightarrow> Inl e
      | Inr cur \<Rightarrow>
          if length cur < n then
            (case read_all_lines old of
               Inl e \<Rightarrow> Inl e
             | Inr o1 \<Rightarrow> Inr (last_n n (o1 @ cur)))
          else Inr (last_n n cur))"

subsection \<open>The buffer holds the last lines written\<close>

lemma last_n_snoc_full: "n \<le> length xs \<Longrightarrow> 0 < n \<Longrightarrow> last_n n (xs @ [x]) = tl (last_n n xs) @ [x]"
  by (simp add: last_n_def Suc_diff_le drop_Suc tl_drop)

lemma last_n_short [simp]: "length xs \<le> n \<Longrightarrow> last_n n xs = xs"
  by (simp add: last_n_def)

lemma length_last_n [simp]: "length (last_n n xs) = min n (length xs)"
  by (simp add: last_n_def)

lemma append_locked_last_n:
  assumes "lb_lines b = last_n (lb_max b) xs" "0 < lb_max b"
  shows "append_locked e b = Some (b\<lparr>lb_lines := last_n (lb_max b) (xs @ [e])\<rparr>)"
proof (cases "lb_max b \<le> length xs")
  case True
  then have "length (lb_lines b) = lb_max b" "lb_lines b \<noteq> []"
    using assms by (auto simp flip: length_0_conv)
  with True assms show ?thesis by (simp add: append_locked_def last_n_snoc_full)
next
  case False
  with assms show ?thesis by (simp add: append_locked_def)
qed

lemma append_all_last_n:
  "lb_lines b = last_n (lb_max b) xs \<Longrightarrow> 0 < lb_max b \<Longrightarrow>
     append_all es b = Some (b\<lparr>lb_lines := last_n (lb_max b) (xs @ es)\<rparr>)"
proof (induction es arbitrary: b xs)
  case Nil
  then show ?case by (metis append_Nil2 append_all.simps(1) log_buffer.surjective log_buffer.update_convs(1))
next
  case (Cons e es)
  from append_locked_last_n [OF Cons.prems] Cons.IH [of "b\<lparr>lb_lines := last_n (lb_max b) (xs @ [e])\<rparr>" "xs @ [e]"] Cons.prems
  show ?case by simp
qed

lemma cut_lines_append:
  "cut_lines (s @ t) =
     (case cut_lines s of (ls, r) \<Rightarrow> (case cut_lines (r @ t) of (ls', r') \<Rightarrow> (ls @ ls', r')))"
proof (induction s)
  case Nil
  then show ?case by (simp split: prod.split)
next
  case (Cons c s)
  obtain ls r where s: "cut_lines s = (ls, r)" by fastforce
  obtain ls' r' where t: "cut_lines (r @ t) = (ls', r')" by fastforce
  have IH: "cut_lines (s @ t) = (ls @ ls', r')" using Cons s t by simp
  show ?case
  proof (cases "c = newline")
    case True
    then show ?thesis by (simp add: s t IH)
  next
    case False
    then show ?thesis by (cases ls) (simp_all add: s t IH split: list.split)
  qed
qed

definition total_text :: "(time \<times> string) list \<Rightarrow> string" where
  "total_text ps = concat (map snd ps)"

lemma log_writes_refines:
  assumes "map snd (lb_lines b) = last_n (lb_max b) (filter (\<lambda>l. l \<noteq> []) (fst (cut_lines s)))"
    and "lb_partial b = snd (cut_lines s)" "0 < lb_max b"
  shows "\<exists>b'. log_writes ps b = Some b' \<and> lb_max b' = lb_max b \<and>
     map snd (lb_lines b') = last_n (lb_max b) (filter (\<lambda>l. l \<noteq> []) (fst (cut_lines (s @ total_text ps)))) \<and>
     lb_partial b' = snd (cut_lines (s @ total_text ps))"
  using assms
proof (induction ps arbitrary: b s)
  case Nil
  then show ?case by (simp add: total_text_def)
next
  case (Cons p ps)
  obtain now q where p: "p = (now, q)" by fastforce
  obtain ls r where cl: "cut_lines (lb_partial b @ q) = (ls, r)" by fastforce
  have whole: "cut_lines (s @ q) = (fst (cut_lines s) @ ls, r)"
    using cut_lines_append [of s q] cl Cons.prems(2) by (simp add: case_prod_unfold)
  let ?es = "map (\<lambda>l. (now, l)) (filter (\<lambda>l. l \<noteq> []) ls)"
  let ?xs = "filter (\<lambda>l. l \<noteq> []) (fst (cut_lines s))"
  obtain es where es: "lb_lines b = last_n (lb_max b) es" "map snd es = ?xs"
  proof
    let ?m = "length ?xs - lb_max b"
    let ?es = "map (Pair 0) (take ?m ?xs) @ lb_lines b"
    have snds: "map snd ?es = take ?m ?xs @ drop ?m ?xs"
      using Cons.prems(1) by (simp add: last_n_def o_def)
    then show "map snd ?es = ?xs" by simp
    have "length (lb_lines b) = min (lb_max b) (length ?xs)"
      using arg_cong [OF Cons.prems(1), of length] by simp
    then show "lb_lines b = last_n (lb_max b) ?es"
      by (cases "length ?xs \<le> lb_max b") (simp_all add: last_n_def)
  qed
  let ?b = "b\<lparr>lb_lines := last_n (lb_max b) (es @ ?es), lb_partial := r\<rparr>"
  have len: "length es = length ?xs" using arg_cong [OF es(2), of length] by (simp only: length_map)
  have w: "log_write now q b = Some ?b"
    using append_all_last_n [OF es(1) Cons.prems(3)] cl by (simp add: log_write_def)
  have "map snd (lb_lines ?b) = last_n (lb_max ?b) (filter (\<lambda>l. l \<noteq> []) (fst (cut_lines (s @ q))))"
    using es(2) len by (simp add: whole last_n_def drop_map [symmetric] o_def)
  with Cons.IH [of ?b "s @ q"] Cons.prems(3) whole obtain b' where
    "log_writes ps ?b = Some b'" "lb_max b' = lb_max b"
    "map snd (lb_lines b') = last_n (lb_max b) (filter (\<lambda>l. l \<noteq> []) (fst (cut_lines ((s @ q) @ total_text ps))))"
    "lb_partial b' = snd (cut_lines ((s @ q) @ total_text ps))"
    by auto
  with w show ?case by (simp add: p total_text_def)
qed

text \<open>
  C40. The log buffer is the tail of the log. However a text is cut into writes, in the middle of
  lines or with many lines at once, a buffer of positive capacity accepts every write and holds
  exactly the last complete non-empty lines of the whole text, as many as its capacity allows;
  what follows the last line break waits for the next write.
\<close>

theorem writes_keep_last_lines:
  assumes "0 < n"
  shows "\<exists>b. log_writes ps (new_log_buffer n) = Some b \<and>
     map snd (lb_lines b) = last_n n (filter (\<lambda>l. l \<noteq> []) (fst (cut_lines (concat (map snd ps))))) \<and>
     lb_partial b = snd (cut_lines (concat (map snd ps)))"
  using log_writes_refines [of "new_log_buffer n" "[]" ps] assms
  by (auto simp: new_log_buffer_def total_text_def)

theorem writes_keep_last_lines_witness:
  "\<exists>b. log_writes [(1, ''ab''), (2, [newline] @ ''cd'' @ [newline] @ ''e'')] (new_log_buffer 1) = Some b \<and>
     map snd (lb_lines b) = [''cd''] \<and> lb_partial b = ''e''"
  using writes_keep_last_lines [of 1 "[(1, ''ab''), (2, [newline] @ ''cd'' @ [newline] @ ''e'')]"]
  by (simp add: newline_def last_n_def)

subsection \<open>Whose lines a query returns\<close>

text \<open>
  Isolation holds only as far as a log line's text can be trusted: a line of another user whose
  message quotes \<open>user=alice\<close> is shown to alice, and a user's own line is withheld when its
  message quotes a longer name first.
\<close>

lemma quoted_user_leaks:
  "matches_user ''msg=hello user=alice user=bob'' ''alice''"
  "\<not> matches_user ''msg=ask user=alice user=al'' ''al''"
  by (simp_all add: matches_user_def newline_def)

lemma query_lines:
  "l \<in> set (log_query tx p b) \<Longrightarrow> l \<in> snd ` set (lb_lines b) \<and> matches_entry tx l p"
  by (auto simp: log_query_def Let_def last_n_def split: if_splits dest!: in_set_dropD)

end
