(* ===== verification/Sessions.thy ===== *)
theory Sessions
  imports Store Channels
begin

text \<open>
  The CLI sessions of a channel (\<open>channel/session_store.go\<close>) and their cleanup
  (\<open>router/session_cleanup.go\<close>). A store value is the JSON list of session records, or, in files
  of an older version, a bare session identifier; a cut-off JSON list no longer parses. An empty
  list may be stored as \<open>null\<close>, which reads back as no session.
\<close>

record session_record =
  sr_id :: string
  sr_started_at :: time
  sr_last_used_at :: time
  sr_cleared :: bool

datatype session_data = Records "session_record list" | LegacyText string

type_synonym session_store = "session_data store"

datatype session_error = SessionLoad store_error | SessionParse | SessionSave store_error

definition last_activity :: "session_record \<Rightarrow> time" where
  "last_activity r = (if sr_last_used_at r \<noteq> 0 then sr_last_used_at r else sr_started_at r)"

definition session_key :: "channel_id \<Rightarrow> string" where
  "session_key c = map (\<lambda>x. if x = slash \<or> x = CHR 0x5C then CHR ''_'' else x) c"

text \<open>\<open>validSessionID\<close>: every byte of a multi-byte rune is above the control characters.\<close>

definition valid_session_id :: "string \<Rightarrow> bool" where
  "valid_session_id sid =
     (if sid = [] \<or> 256 < length sid then False
      else if to_lower sid \<in> set [''null'', ''undefined'', ''<nil>'', ''nil''] then False
      else list_all (\<lambda>c. 32 \<le> (of_char c :: nat) \<and> (of_char c :: nat) \<noteq> 127) sid)"

definition save_sessions :: "string \<Rightarrow> session_record list \<Rightarrow> session_store \<Rightarrow> session_error option \<times> session_store" where
  "save_sessions key rs st =
     (case store_set key (Records rs) st of (e, st') \<Rightarrow> (map_option SessionSave e, st'))"

definition fresh_record :: "string \<Rightarrow> time \<Rightarrow> session_record" where
  "fresh_record sid now = \<lparr>sr_id = sid, sr_started_at = now, sr_last_used_at = now, sr_cleared = False\<rparr>"

definition load_sessions :: "string \<Rightarrow> time \<Rightarrow> session_store \<Rightarrow> (session_error + session_record list) \<times> session_store" where
  "load_sessions key now st =
     (case store_get key st of
        (Inl e, st1) \<Rightarrow> (Inl (SessionLoad e), st1)
      | (Inr d, st1) \<Rightarrow>
          (case d of
             None \<Rightarrow> (Inr [], st1)
           | Some EmptyFile \<Rightarrow> (Inr [], st1)
           | Some Malformed \<Rightarrow> (Inl SessionParse, st1)
           | Some (Doc (Records rs)) \<Rightarrow> (Inr rs, st1)
           | Some (Doc (LegacyText sid)) \<Rightarrow>
               if \<not> valid_session_id sid then (Inr [], st1)
               else (Inr [fresh_record sid now], snd (save_sessions key [fresh_record sid now] st1))))"

text \<open>What \<open>Current\<close> and \<open>CurrentWithinDetailed\<close> read off the records; a zero age disables the check.\<close>

definition current_of :: "session_record list \<Rightarrow> string" where
  "current_of rs =
     (if rs = [] then [] else if sr_cleared (last rs) then []
      else if \<not> valid_session_id (sr_id (last rs)) then [] else sr_id (last rs))"

definition session_current :: "string \<Rightarrow> time \<Rightarrow> session_store \<Rightarrow> (session_error + string) \<times> session_store" where
  "session_current key now st =
     (case load_sessions key now st of
        (Inl e, st') \<Rightarrow> (Inl e, st')
      | (Inr rs, st') \<Rightarrow> (Inr (current_of rs), st'))"

definition current_within_detailed ::
  "string \<Rightarrow> duration \<Rightarrow> time \<Rightarrow> session_store \<Rightarrow> (session_error + string \<times> bool) \<times> session_store" where
  "current_within_detailed key max_age now st =
     (case load_sessions key now st of
        (Inl e, st') \<Rightarrow> (Inl e, st')
      | (Inr rs, st') \<Rightarrow>
          (Inr (if rs = [] then ([], False)
                else if sr_cleared (last rs) then ([], False)
                else if \<not> valid_session_id (sr_id (last rs)) then ([], False)
                else if 0 < max_age \<and> max_age < time_sub now (last_activity (last rs)) then ([], True)
                else (sr_id (last rs), False)), st'))"

text \<open>The reset marks the latest record that is not cleared yet.\<close>

fun clear_latest_rev :: "session_record list \<Rightarrow> session_record list" where
  "clear_latest_rev [] = []"
| "clear_latest_rev (r # rs) = (if sr_cleared r then r # clear_latest_rev rs else r\<lparr>sr_cleared := True\<rparr> # rs)"

definition clear_latest :: "session_record list \<Rightarrow> session_record list" where
  "clear_latest rs = rev (clear_latest_rev (rev rs))"

definition note_session :: "string \<Rightarrow> time \<Rightarrow> session_record list \<Rightarrow> session_record list" where
  "note_session sid now rs =
     (if rs \<noteq> [] \<and> sr_id (last rs) = sid \<and> \<not> sr_cleared (last rs)
      then butlast rs @ [(last rs)\<lparr>sr_last_used_at := now\<rparr>]
      else rs @ [fresh_record sid now])"

definition set_current :: "string \<Rightarrow> string \<Rightarrow> time \<Rightarrow> session_store \<Rightarrow> session_error option \<times> session_store" where
  "set_current key sid now st =
     (if sid \<noteq> [] \<and> \<not> valid_session_id sid then (None, st)
      else (case load_sessions key now st of
              (Inl e, st1) \<Rightarrow> (Some e, st1)
            | (Inr rs, st1) \<Rightarrow>
                if sid = [] then save_sessions key (clear_latest rs) st1
                else save_sessions key (note_session sid now rs) st1))"

subsection \<open>Cleanup\<close>

definition session_retention :: duration where "session_retention = 7 * 24 * hour"

text \<open>
  A session file of the CLI: its project directory, the session it holds and when it was last
  written; \<open>None\<close> when it cannot be examined.
\<close>

record session_file =
  sf_project :: string
  sf_session :: string
  sf_mod_time :: "time option"

text \<open>
  \<open>collectActiveSessionIDs\<close>: \<open>keys\<close> is the listing of the sessions directory, \<open>None\<close> if it
  cannot be read. A session that cannot be loaded is logged and left out.
\<close>

fun active_of_keys :: "string list \<Rightarrow> time \<Rightarrow> session_store \<Rightarrow> string list \<times> session_store" where
  "active_of_keys [] now st = ([], st)"
| "active_of_keys (k # ks) now st =
     (case session_current k now st of
        (r, st1) \<Rightarrow>
          (case active_of_keys ks now st1 of
             (ids, st2) \<Rightarrow>
               ((case r of Inl e \<Rightarrow> [] | Inr sid \<Rightarrow> if sid = [] then [] else [sid]) @ ids, st2)))"

definition collect_active :: "string list option \<Rightarrow> time \<Rightarrow> session_store \<Rightarrow> string list \<times> session_store" where
  "collect_active keys now st = (case keys of None \<Rightarrow> ([], st) | Some ks \<Rightarrow> active_of_keys ks now st)"

text \<open>\<open>After\<close> is strict: a file written exactly at the cutoff goes.\<close>

definition stale_file :: "string list \<Rightarrow> time \<Rightarrow> session_file \<Rightarrow> bool" where
  "stale_file active cutoff f =
     (sf_session f \<notin> set active \<and>
      (case sf_mod_time f of None \<Rightarrow> False | Some t \<Rightarrow> t \<le> cutoff))"

definition kept_records :: "string list \<Rightarrow> time \<Rightarrow> session_record list \<Rightarrow> session_record list" where
  "kept_records active cutoff rs = filter (\<lambda>r. sr_id r \<in> set active \<or> cutoff < sr_started_at r) rs"

fun prune_records :: "string list \<Rightarrow> string list \<Rightarrow> time \<Rightarrow> time \<Rightarrow> session_store \<Rightarrow> nat \<times> session_store" where
  "prune_records [] active cutoff now st = (0, st)"
| "prune_records (k # ks) active cutoff now st =
     (case load_sessions k now st of
        (Inl e, st1) \<Rightarrow> prune_records ks active cutoff now st1
      | (Inr rs, st1) \<Rightarrow>
          (let kept = kept_records active cutoff rs; pruned = length rs - length kept
           in if pruned = 0 then prune_records ks active cutoff now st1
              else (case save_sessions k kept st1 of
                      (Some e, st2) \<Rightarrow> prune_records ks active cutoff now st2
                    | (None, st2) \<Rightarrow>
                        (case prune_records ks active cutoff now st2 of (n, st3) \<Rightarrow> (n + pruned, st3)))))"

text \<open>
  The cleanup: the session files that are deleted (deleting one may itself fail and is not
  retried), and the store afterwards. The sessions directory is listed once for the active
  sessions and once for pruning.
\<close>

definition cleanup_stale_sessions ::
  "session_file list option \<Rightarrow> string list option \<Rightarrow> string list option \<Rightarrow> time \<Rightarrow> session_store
     \<Rightarrow> session_file list \<times> session_store" where
  "cleanup_stale_sessions files keys keys' now st =
     (case files of
        None \<Rightarrow> ([], st)
      | Some fs \<Rightarrow>
          (case collect_active keys now st of
             (active, st1) \<Rightarrow>
               (filter (stale_file active (now - session_retention)) fs,
                (case keys' of
                   None \<Rightarrow> st1
                 | Some ks \<Rightarrow> snd (prune_records ks active (now - session_retention) now st1)))))"

subsection \<open>Properties\<close>

lemma current_of_valid: "current_of rs \<noteq> [] \<Longrightarrow> valid_session_id (current_of rs)"
  by (auto simp: current_of_def split: if_splits)

lemma clear_latest_rev_length [simp]: "length (clear_latest_rev rs) = length rs"
  by (induction rs) auto

lemma clear_latest_current: "current_of (clear_latest rs) = []"
proof (cases rs rule: rev_cases)
  case Nil
  then show ?thesis by (simp add: clear_latest_def current_of_def)
next
  case (snoc ys r)
  then show ?thesis by (simp add: clear_latest_def current_of_def)
qed

lemma note_session_current: "valid_session_id sid \<Longrightarrow> current_of (note_session sid now rs) = sid"
  by (auto simp: note_session_def current_of_def fresh_record_def)

definition session_view :: "session_store \<Rightarrow> string \<Rightarrow> session_data doc option" where
  "session_view st key = store_view st key"

lemma save_sessions_ok:
  "save_sessions key rs st = (None, st') \<Longrightarrow> session_view st' key = Some (Doc (Records rs))"
  by (auto simp: save_sessions_def session_view_def split: prod.splits dest: fs.set_ok)

lemma load_after_records:
  assumes "session_view st key = Some (Doc (Records rs))" "load_sessions key now st = (Inr rs', st')"
  shows "rs' = rs"
  using assms fs.get_ok [of key st]
  by (auto simp: load_sessions_def session_view_def split: prod.splits sum.splits option.splits doc.splits
      session_data.splits)

text \<open>
  The session store remembers the last session it was told. After \<open>SetCurrent\<close> succeeds with
  a valid identifier the current session is that one; after a reset there is none; an identifier
  that is not valid changes nothing; and whatever the files hold, the store never names a session
  the CLI would refuse to resume.
\<close>

theorem current_is_last_set:
  assumes "set_current key sid now st = (None, st1)" and "session_current key now' st1 = (Inr cur, st2)"
  shows "(valid_session_id sid \<longrightarrow> cur = sid) \<and> (sid = [] \<longrightarrow> cur = []) \<and>
         (sid \<noteq> [] \<and> \<not> valid_session_id sid \<longrightarrow> st1 = st) \<and>
         (cur = [] \<or> valid_session_id cur)"
proof -
  from assms(2) obtain rs where l: "load_sessions key now' st1 = (Inr rs, st2)" "cur = current_of rs"
    by (auto simp: session_current_def split: prod.splits sum.splits)
  have ok: "cur = [] \<or> valid_session_id cur" using l(2) current_of_valid by blast
  show ?thesis
  proof (cases "sid \<noteq> [] \<and> \<not> valid_session_id sid")
    case True
    with assms(1) ok show ?thesis by (auto simp: set_current_def)
  next
    case False
    with assms(1) obtain rs0 s0 where
      s: "save_sessions key (if sid = [] then clear_latest rs0 else note_session sid now rs0) s0 = (None, st1)"
      by (auto simp: set_current_def split: prod.splits sum.splits if_splits)
    from load_after_records [OF save_sessions_ok [OF s] l(1)] l(2)
    have c: "cur = current_of (if sid = [] then clear_latest rs0 else note_session sid now rs0)" by simp
    show ?thesis
    proof (cases "sid = []")
      case True
      with c have "cur = []" by (simp add: clear_latest_current)
      with True show ?thesis by (simp add: valid_session_id_def)
    next
      case notempty: False
      with False have "valid_session_id sid" by simp
      with c notempty ok show ?thesis by (simp add: note_session_current)
    qed
  qed
qed

lemma s_path: "safe_path ''/data'' ''c1'' = Some ''/data/c1''"
  by code_simp

theorem current_is_last_set_witness:
  "\<exists>st1 st2. set_current ''c1'' ''abc'' 5 fresh_store = (None, st1) \<and>
             session_current ''c1'' 6 st1 = (Inr ''abc'', st2)"
proof -
  have w: "writable (fresh_store :: session_store) ''c1''"
    by (rule fresh_writable [OF s_path]) simp
  have v: "valid_session_id ''abc''" by (simp add: valid_session_id_def lower_char_def)
  have l: "load_sessions ''c1'' 5 fresh_store = (Inr [], fresh_store)"
    using get_writable [OF w] by (simp add: load_sessions_def)
  obtain st1 where s: "store_set ''c1'' (Records (note_session ''abc'' 5 [])) fresh_store = (None, st1)"
    and w1: "writable st1 ''c1''" and view: "store_view st1 ''c1'' = Some (Doc (Records (note_session ''abc'' 5 [])))"
    using set_writable [OF w, of "Records (note_session ''abc'' 5 [])"] by blast
  have set1: "set_current ''c1'' ''abc'' 5 fresh_store = (None, st1)"
    by (simp add: set_current_def v l save_sessions_def s)
  obtain cur st2 where c: "session_current ''c1'' 6 st1 = (Inr cur, st2)"
    using get_writable [OF w1] view by (simp add: session_current_def load_sessions_def)
  with current_is_last_set [OF set1 c] v set1 show ?thesis by blast
qed

lemma store_set_io: "store_set k v st = (e, st') \<Longrightarrow> st_io st = [] \<Longrightarrow> st_io st' = []"
  unfolding store_set_def next_io_def
  by (cases "safe_path (st_dir st) k") (auto split: if_splits)

lemma load_keeps_records:
  assumes v: "session_view st k = Some (Doc (Records rs))" and w: "writable st k"
    and l: "load_sessions j now st = (r, st')"
  shows "session_view st' k = Some (Doc (Records rs)) \<and> writable st' k"
proof -
  obtain g st1 where g: "store_get j st = (g, st1)" by fastforce
  from w have io: "st_io st = []" by (simp add: writable_def)
  have st1: "st1 = st"
    using g io by (auto simp: store_get_def next_io_def split: option.splits if_splits)
  show ?thesis
  proof (cases "\<exists>sid. g = Inr (Some (Doc (LegacyText sid))) \<and> valid_session_id sid")
    case False
    then have "st' = st"
      using l g st1 by (auto simp: load_sessions_def split: sum.splits option.splits doc.splits session_data.splits)
    with v w show ?thesis by simp
  next
    case True
    then obtain sid where sid: "g = Inr (Some (Doc (LegacyText sid)))" "valid_session_id sid" by blast
    with g fs.get_ok have vj: "store_view st j = Some (Doc (LegacyText sid))" by metis
    have other: "\<not> same_loc st j k"
    proof
      assume "same_loc st j k"
      then have "store_view st j = store_view st k" by (simp add: store_view_def same_loc_def)
      with vj v show False by (simp add: session_view_def)
    qed
    obtain e st2 where s2: "store_set j (Records [fresh_record sid now]) st = (e, st2)" by fastforce
    with l g st1 sid have st': "st' = st2"
      by (simp add: load_sessions_def save_sessions_def)
    from fs.set_frame [OF s2 other] v have "session_view st2 k = Some (Doc (Records rs))"
      by (simp add: session_view_def)
    moreover have "writable st2 k"
      using w unfolding writable_def store_set_dir [OF s2] store_set_io [OF s2 io] io by simp
    ultimately show ?thesis by (simp add: st')
  qed
qed

lemma session_current_records:
  assumes "session_view st k = Some (Doc (Records rs))" "writable st k"
  shows "session_current k now st = (Inr (current_of rs), st)"
  using assms get_writable [of st k]
  by (simp add: session_current_def load_sessions_def session_view_def)

lemma session_current_keeps:
  assumes "session_view st k = Some (Doc (Records rs))" "writable st k" "session_current j now st = (r, st')"
  shows "session_view st' k = Some (Doc (Records rs)) \<and> writable st' k"
  using assms(3) load_keeps_records [OF assms(1,2)]
  by (auto simp: session_current_def split: prod.splits sum.splits)

lemma active_of_keys_current:
  assumes "active_of_keys ks now st = (ids, st')" "k \<in> set ks"
    and "session_view st k = Some (Doc (Records rs))" "writable st k" "current_of rs \<noteq> []"
  shows "current_of rs \<in> set ids"
  using assms
proof (induction ks arbitrary: st ids)
  case (Cons a ks)
  obtain r s1 where r: "session_current a now st = (r, s1)" by fastforce
  obtain ids' s2 where i: "active_of_keys ks now s1 = (ids', s2)" by fastforce
  with Cons.prems(1) r have ids: "set ids' \<subseteq> set ids" "\<forall>sid. r = Inr sid \<and> sid \<noteq> [] \<longrightarrow> sid \<in> set ids"
    "st' = s2" by (auto split: sum.splits)
  show ?case
  proof (cases "k = a")
    case True
    with r session_current_records [OF Cons.prems(3,4)] Cons.prems(5) ids(2) show ?thesis by auto
  next
    case False
    with Cons.prems(2) have "k \<in> set ks" by simp
    with session_current_keeps [OF Cons.prems(3,4) r] Cons.IH [of s1 ids'] i ids Cons.prems(5)
    show ?thesis by blast
  qed
qed simp

text \<open>
  Cleaning up spares what is in use. When the sessions directory is listed and its files can
  be read, no session file that is deleted belongs to the current session of a listed channel,
  and every one was last written at least seven days ago.
\<close>

theorem cleanup_spares_current_sessions:
  assumes "cleanup_stale_sessions files (Some ks) keys' now st = (deleted, st')"
    and "f \<in> set deleted" and "k \<in> set ks"
    and "session_view st k = Some (Doc (Records rs))" and "writable st k" and "current_of rs \<noteq> []"
  shows "sf_session f \<noteq> current_of rs \<and> (\<exists>t. sf_mod_time f = Some t \<and> t \<le> now - session_retention)"
proof -
  obtain active st1 where a: "active_of_keys ks now st = (active, st1)" by fastforce
  with assms(1,2) have "stale_file active (now - session_retention) f"
    by (auto simp: cleanup_stale_sessions_def collect_active_def split: option.splits)
  with active_of_keys_current [OF a assms(3-6)] show ?thesis
    by (auto simp: stale_file_def split: option.splits)
qed

theorem cleanup_spares_current_sessions_witness:
  "\<exists>st :: session_store.
     \<lparr>sf_project = ''p'', sf_session = ''abc'', sf_mod_time = Some 0\<rparr> \<notin>
        set (fst (cleanup_stale_sessions (Some [\<lparr>sf_project = ''p'', sf_session = ''abc'', sf_mod_time = Some 0\<rparr>])
               (Some [''c1'']) None (8 * 24 * hour) st)) \<and>
     session_view st ''c1'' = Some (Doc (Records [fresh_record ''abc'' 5]))"
proof -
  let ?st = "doc_holding ''c1'' (Records [fresh_record ''abc'' 5]) :: session_store"
  let ?f = "\<lparr>sf_project = ''p'', sf_session = ''abc'', sf_mod_time = Some 0\<rparr>"
  have view: "session_view ?st ''c1'' = Some (Doc (Records [fresh_record ''abc'' 5]))"
    by (simp add: session_view_def doc_holding_view [OF s_path])
  have w: "writable ?st ''c1''" by (rule doc_holding_writable [OF s_path]) simp
  have cur: "current_of [fresh_record ''abc'' 5] = ''abc''"
    by (simp add: current_of_def fresh_record_def valid_session_id_def lower_char_def)
  obtain d st' where d: "cleanup_stale_sessions (Some [?f]) (Some [''c1'']) None (8 * 24 * hour) ?st = (d, st')"
    by fastforce
  have "?f \<notin> set d"
    using cleanup_spares_current_sessions [OF d, of ?f "''c1''"] view w cur by force
  with d view show ?thesis by (intro exI [of _ ?st]) simp
qed

text \<open>
  Deleting an active session: nothing protects the sessions of channels whose record cannot be
  read when the active ones are collected. Here the listing of the sessions directory fails and
  a session in use, last written a week ago, is deleted.
\<close>

lemma unreadable_listing_deletes_active:
  "fst (cleanup_stale_sessions (Some [\<lparr>sf_project = ''p'', sf_session = ''abc'', sf_mod_time = Some 0\<rparr>])
          None None (8 * 24 * hour) st)
     = [\<lparr>sf_project = ''p'', sf_session = ''abc'', sf_mod_time = Some 0\<rparr>]"
  by (simp add: cleanup_stale_sessions_def collect_active_def stale_file_def session_retention_def
      hour_def minute_def second_def)

text \<open>A record in use within the retention is pruned all the same when it began before it.\<close>

lemma recently_used_record_is_pruned:
  "kept_records [] cutoff [\<lparr>sr_id = ''abc'', sr_started_at = cutoff, sr_last_used_at = cutoff + hour, sr_cleared = True\<rparr>] = []"
  by (simp add: kept_records_def)

end
