(* ===== verification/Flows.thy ===== *)
theory Flows
  imports CliArgs
begin

text \<open>
  The interactive flows of the agent loop (\<open>agent/flows.go\<close>, \<open>flow_auth.go\<close>,
  \<open>flow_approval.go\<close>, \<open>auth.go\<close>): signing in and approving denied tools, at most one flow for
  each channel. The state is everything the handlers may change. What they do to the outside
  is the trace \<open>ls_out\<close>: a message to the chat is its meaning, not its wording. The calls whose
  failure changes what happens next (sending a sign-in prompt, saving a key) take their
  outcomes from \<open>ls_io\<close>, one each, and succeed when the list has run out.

  The \<open>Options\<close> are passed by value: what a handler assigns to one of their fields is lost when
  it returns, while the override map is shared by all copies, unless it is nil.
\<close>

subsection \<open>Keys and tokens as text\<close>

definition char_between :: "char \<Rightarrow> char \<Rightarrow> char \<Rightarrow> bool" where
  "char_between lo hi c = (byte_of lo \<le> byte_of c \<and> byte_of c \<le> byte_of hi)"

definition word_char :: "char \<Rightarrow> bool" where
  "word_char c =
     ((char_between (CHR ''a'') (CHR ''z'') c) \<or> (char_between (CHR ''A'') (CHR ''Z'') c) \<or>
      (char_between (CHR ''0'') (CHR ''9'') c) \<or> c = CHR ''_'' \<or> c = CHR ''-'')"

definition api_key_prefix :: string where "api_key_prefix = ''sk-ant-''"
definition setup_token_prefix :: string where "setup_token_prefix = ''sk-ant-oat01-''"

definition valid_setup_token :: "string \<Rightarrow> bool" where
  "valid_setup_token t = (50 \<le> length t \<and> list_all word_char t)"

definition valid_api_key :: "string \<Rightarrow> bool" where
  "valid_api_key k = (has_prefix k api_key_prefix \<and> 50 \<le> length k \<and> list_all word_char k)"

text \<open>The length of the escape sequence a text starts with, 0 if it starts with none.\<close>

definition esc :: char where "esc = CHR 0x1B"

definition csi_len :: "string \<Rightarrow> nat" where
  "csi_len s =
     (let k = length (takeWhile (\<lambda>c. (char_between (CHR ''0'') (CHR ''9'') c) \<or> c = CHR '';'') s)
      in case drop k s of
           [] \<Rightarrow> 0
         | c # _ \<Rightarrow> if (char_between (CHR ''a'') (CHR ''z'') c) \<or> (char_between (CHR ''A'') (CHR ''Z'') c) then k + 3 else 0)"

definition osc_len :: "string \<Rightarrow> nat" where
  "osc_len s =
     (let k = length (takeWhile (\<lambda>c. c \<noteq> esc) s)
      in if take 2 (drop k s) = [esc, CHR 0x5C] then k + 4 else 0)"

definition escape_len :: "string \<Rightarrow> nat" where
  "escape_len s =
     (case s of
        e # c # r \<Rightarrow>
          if e \<noteq> esc then 0
          else if c = CHR ''['' then csi_len r
          else if c = CHR '']'' then osc_len r
          else Suc (snd (decode_rune (c # r)))
      | _ \<Rightarrow> 0)"

fun strip_ansi_go :: "nat \<Rightarrow> string \<Rightarrow> string" where
  "strip_ansi_go k [] = []"
| "strip_ansi_go (Suc k) (c # s) = strip_ansi_go k s"
| "strip_ansi_go 0 (c # s) =
     (case escape_len (c # s) of 0 \<Rightarrow> c # strip_ansi_go 0 s | Suc k \<Rightarrow> strip_ansi_go k s)"

definition strip_ansi :: "string \<Rightarrow> string" where
  "strip_ansi s = strip_ansi_go 0 s"

fun split_lines :: "string \<Rightarrow> string list" where
  "split_lines [] = [[]]"
| "split_lines (c # s) =
     (if c = CHR 0x0A then [] # split_lines s
      else (case split_lines s of l # ls \<Rightarrow> (c # l) # ls | [] \<Rightarrow> [[c]]))"

definition token_of_line :: "string \<Rightarrow> string option" where
  "token_of_line line =
     (let l = trim_space line
      in map_option (\<lambda>i. takeWhile (\<lambda>c. c \<noteq> CHR '' '') (drop i l)) (index_of l setup_token_prefix))"

definition extract_setup_token :: "string \<Rightarrow> string" where
  "extract_setup_token output =
     (case List.map_filter token_of_line (split_lines (strip_ansi output)) of
        [] \<Rightarrow> []
      | t # _ \<Rightarrow> if valid_setup_token t then t else [])"

text \<open>\<open>sanitizeEnvSuffix\<close> works on runes: a character outside ASCII is one underscore.\<close>

definition alnum_char :: "char \<Rightarrow> bool" where
  "alnum_char c = (word_char c \<and> c \<noteq> CHR ''_'' \<and> c \<noteq> CHR ''-'')"

definition upper_char :: "char \<Rightarrow> char" where
  "upper_char c = (if char_between (CHR ''a'') (CHR ''z'') c then char_of (byte_of c - 32) else c)"

fun sanitize_go :: "nat \<Rightarrow> string \<Rightarrow> string" where
  "sanitize_go k [] = []"
| "sanitize_go (Suc k) (c # s) = sanitize_go k s"
| "sanitize_go 0 (c # s) =
     (if alnum_char c then upper_char c # sanitize_go 0 s
      else CHR ''_'' # sanitize_go (snd (decode_rune (c # s)) - 1) s)"

definition sanitize_env_suffix :: "string \<Rightarrow> string" where
  "sanitize_env_suffix uid = sanitize_go 0 uid"

definition setup_token_env_var_name :: "string \<Rightarrow> string" where
  "setup_token_env_var_name uid = ''CLAUDE_SETUP_TOKEN_'' @ sanitize_env_suffix uid"

definition github_token_env_var_name :: "string \<Rightarrow> string" where
  "github_token_env_var_name uid = ''GITHUB_TOKEN_'' @ sanitize_env_suffix uid"

text \<open>Two users whose names differ only in a replaced character share their variables.\<close>

lemma env_suffix_collides:
  "setup_token_env_var_name ''a.b'' = setup_token_env_var_name ''a-b''"
  "setup_token_env_var_name ''Ann'' = setup_token_env_var_name ''ann''"
  by code_simp+

subsection \<open>The flow manager\<close>

datatype auth_state = AuthChoosing | AuthAPIKeyEntry | AuthOAuthActive | AuthDeployConfirm

record pending_auth =
  pau_state :: auth_state
  pau_original :: tagged_message
  pau_cancel :: bool
  pau_result :: "string option"
  pau_setup_token :: string

record pending_approval =
  pta_original :: tagged_message
  pta_denied :: "tool list"
  pta_session :: string
  pta_prompt :: string

datatype channel_flow = FlowAuth pending_auth | FlowApproval pending_approval

record flow_manager =
  fm_flows :: "channel_id \<Rightarrow> channel_flow option"
  fm_open :: "open_prompts option"

text \<open>What reaches the outside, in order.\<close>

datatype notice =
    NFromChannel string | NFromChild string | NBrief string
  | NDenied | NCompacting | NNewSession | NAuthPrompt | NHelp | NAuthStatus | NStaleButton
  | NOAuthNotLocal | NOAuthStarting | NApiKeyPrompt | NAuthReprompt | NOAuthDone | NOAuthDoneAskDeploy
  | NOAuthFailed | NOAuthWait | NDeploying | NDeployFailed | NDeployed | NDeploySkipped | NDeployReprompt
  | NInvalidKey | NKeyNotSaved | NKeySaved | NApprovalCancelled | NFreshSession | NSkippedPrompt
  | NAskApproval "tool list" string | NTurnFailed | NQueued | NRestarting

datatype loop_effect =
    Sends channel_id notice
  | Closes channel_id
  | Pushes tagged_message
  | UpdatesSession channel_id string
  | StartsOAuth channel_id
  | CancelsOAuth channel_id
  | SavesApiKey string
  | SavesSetupToken string
  | Deploys string
  | MarksInterrupted channel_id
  | ClearsInterrupted
  | TurnBegins string
  | TurnEnds string
  | CancelsTurn
  | Runs agent_options string tagged_message

record loop_state =
  ls_fm :: flow_manager
  ls_opts :: agent_options
  ls_overrides_nil :: bool
  ls_sessions :: "channel_id \<Rightarrow> string option"
  ls_stopped :: "channel_id \<Rightarrow> bool"
  ls_restore :: "(channel_id \<times> channel_tools option) option"
  ls_io :: "bool list"
  ls_out :: "loop_effect list"

definition log_out :: "loop_effect list \<Rightarrow> loop_state \<Rightarrow> loop_state" where
  "log_out es st = st\<lparr>ls_out := ls_out st @ es\<rparr>"

definition next_ok :: "loop_state \<Rightarrow> bool \<times> loop_state" where
  "next_ok st = (case ls_io st of [] \<Rightarrow> (True, st) | b # bs \<Rightarrow> (b, st\<lparr>ls_io := bs\<rparr>))"

definition flow_active :: "channel_id \<Rightarrow> loop_state \<Rightarrow> channel_flow option" where
  "flow_active c st = fm_flows (ls_fm st) c"

text \<open>A change of a channel's flow, with \<open>mirror\<close> in the shared set when there is one.\<close>

definition set_flow :: "channel_id \<Rightarrow> channel_flow option \<Rightarrow> flow_manager \<Rightarrow> flow_manager" where
  "set_flow c f fm =
     fm\<lparr>fm_flows := (fm_flows fm)(c := f),
        fm_open := map_option (open_prompts_set c (f \<noteq> None)) (fm_open fm)\<rparr>"

definition put_flow :: "channel_id \<Rightarrow> channel_flow option \<Rightarrow> loop_state \<Rightarrow> loop_state" where
  "put_flow c f st = st\<lparr>ls_fm := set_flow c f (ls_fm st)\<rparr>"

text \<open>A step within a flow changes the record the manager points to and mirrors nothing.\<close>

definition update_auth :: "channel_id \<Rightarrow> pending_auth \<Rightarrow> loop_state \<Rightarrow> loop_state" where
  "update_auth c a st =
     st\<lparr>ls_fm := (ls_fm st)\<lparr>fm_flows := (fm_flows (ls_fm st))(c := Some (FlowAuth a))\<rparr>\<rparr>"

definition flow_complete :: "channel_id \<Rightarrow> loop_state \<Rightarrow> loop_state" where
  "flow_complete c st = put_flow c None st"

definition flow_cancel :: "channel_id \<Rightarrow> loop_state \<Rightarrow> loop_state" where
  "flow_cancel c st =
     (case flow_active c st of
        None \<Rightarrow> st
      | Some f \<Rightarrow>
          put_flow c None
            (case f of FlowAuth a \<Rightarrow> if pau_cancel a then log_out [CancelsOAuth c] st else st
                     | FlowApproval a \<Rightarrow> st))"

definition start_auth :: "channel_id \<Rightarrow> tagged_message \<Rightarrow> loop_state \<Rightarrow> loop_state" where
  "start_auth c msg st =
     put_flow c
       (Some (FlowAuth \<lparr>pau_state = AuthChoosing, pau_original = msg, pau_cancel = False,
                        pau_result = None, pau_setup_token = []\<rparr>))
       (flow_cancel c st)"

definition start_tool_approval ::
  "channel_id \<Rightarrow> tagged_message \<Rightarrow> tool list \<Rightarrow> string \<Rightarrow> string \<Rightarrow> loop_state \<Rightarrow> loop_state" where
  "start_tool_approval c msg denied session pid st =
     put_flow c
       (Some (FlowApproval \<lparr>pta_original = msg, pta_denied = denied, pta_session = session, pta_prompt = pid\<rparr>))
       (flow_cancel c st)"

subsection \<open>Signing in\<close>

record loop_config =
  lc_local :: bool
  lc_has_prod :: bool
  lc_secret_store :: bool

record flow_result =
  fr_handled :: bool
  fr_retry :: "tagged_message list"
  fr_restore :: "(channel_id \<times> channel_tools option) option"
  fr_fall_through :: "tagged_message option"

definition handled :: flow_result where
  "handled = \<lparr>fr_handled = True, fr_retry = [], fr_restore = None, fr_fall_through = None\<rparr>"

definition retry_result :: "tagged_message \<Rightarrow> flow_result" where
  "retry_result msg = handled\<lparr>fr_retry := (if tm_text msg \<noteq> [] then [msg] else [])\<rparr>"

definition persist :: "loop_config \<Rightarrow> loop_effect \<Rightarrow> loop_state \<Rightarrow> bool \<times> loop_state" where
  "persist cfg e st =
     (if \<not> lc_secret_store cfg then (False, st)
      else (case next_ok st of (ok, st1) \<Rightarrow> (ok, if ok then log_out [e] st1 else st1)))"

definition handle_api_key_entry :: "loop_config \<Rightarrow> channel_id \<Rightarrow> string \<Rightarrow> loop_state \<Rightarrow> bool \<times> loop_state" where
  "handle_api_key_entry cfg c text st =
     (let key = trim_space text
      in if \<not> valid_api_key key then (False, log_out [Sends c NInvalidKey] st)
         else (case persist cfg (SavesApiKey key) st of
                 (False, st1) \<Rightarrow> (False, log_out [Sends c NKeyNotSaved] st1)
               | (True, st1) \<Rightarrow> (True, log_out [Sends c NKeySaved] st1)))"

text \<open>
  \<open>handleAuthChoosing\<close>. \<open>startSetupToken\<close> starts the login process and marks the flow active;
  the process reports its result to the flow later.
\<close>

definition handle_auth_choosing ::
  "loop_config \<Rightarrow> pending_auth \<Rightarrow> tagged_message \<Rightarrow> loop_state \<Rightarrow> flow_result \<times> loop_state" where
  "handle_auth_choosing cfg a msg st =
     (let c = tm_channel msg; choice = trim_space (to_lower (tm_text msg))
      in (handled,
          if choice \<in> set [''1'', ''oauth''] then
            (if \<not> lc_local cfg then log_out [Sends c NOAuthNotLocal] st
             else log_out [Sends c NOAuthStarting, StartsOAuth c]
                    (update_auth c (a\<lparr>pau_state := AuthOAuthActive, pau_cancel := True, pau_result := None\<rparr>) st))
          else if choice \<in> set [''2'', ''api'', ''key'', ''api key'', ''apikey''] then
            log_out [Sends c NApiKeyPrompt] (update_auth c (a\<lparr>pau_state := AuthAPIKeyEntry\<rparr>) st)
          else if choice \<in> set [''3'', ''cancel''] then flow_complete c st
          else log_out [Sends c NAuthReprompt] st))"

text \<open>
  \<open>handleAuthOAuthActive\<close>: the result is taken if the process has reported one, the empty
  token for a failure. The token is assigned to the handler's own copy of the options only.
\<close>

definition handle_auth_oauth_active ::
  "loop_config \<Rightarrow> pending_auth \<Rightarrow> tagged_message \<Rightarrow> loop_state \<Rightarrow> flow_result \<times> loop_state" where
  "handle_auth_oauth_active cfg a msg st =
     (let c = tm_channel msg
      in case pau_result a of
           None \<Rightarrow> (handled, log_out [Sends c NOAuthWait] st)
         | Some token \<Rightarrow>
             (if token = [] then (handled, flow_complete c (log_out [Sends c NOAuthFailed] st))
              else
                (let st1 = snd (persist cfg (SavesSetupToken token) st)
                 in if lc_has_prod cfg then
                      (handled,
                       log_out [Sends c NOAuthDoneAskDeploy]
                         (update_auth c
                            (a\<lparr>pau_result := None, pau_setup_token := token, pau_state := AuthDeployConfirm\<rparr>) st1))
                    else (retry_result (pau_original a),
                          flow_complete c (log_out [Sends c NOAuthDone] st1)))))"

definition handle_auth_deploy_confirm ::
  "pending_auth \<Rightarrow> tagged_message \<Rightarrow> loop_state \<Rightarrow> flow_result \<times> loop_state" where
  "handle_auth_deploy_confirm a msg st =
     (let c = tm_channel msg; answer = trim_space (to_lower (tm_text msg))
      in if answer \<in> set [''yes'', ''y''] then
           (case next_ok (log_out [Sends c NDeploying] st) of
              (ok, st1) \<Rightarrow>
                (retry_result (pau_original a),
                 flow_complete c
                   (log_out (if ok then [Deploys (pau_setup_token a), Sends c NDeployed]
                          else [Sends c NDeployFailed]) st1)))
         else if answer \<in> set [''no'', ''n'', ''skip''] then
           (retry_result (pau_original a), flow_complete c (log_out [Sends c NDeploySkipped] st))
         else (handled, log_out [Sends c NDeployReprompt] st))"

definition handle_auth_api_key_entry ::
  "loop_config \<Rightarrow> pending_auth \<Rightarrow> tagged_message \<Rightarrow> loop_state \<Rightarrow> flow_result \<times> loop_state" where
  "handle_auth_api_key_entry cfg a msg st =
     (case handle_api_key_entry cfg (tm_channel msg) (tm_text msg) st of
        (True, st1) \<Rightarrow> (retry_result (pau_original a), flow_complete (tm_channel msg) st1)
      | (False, st1) \<Rightarrow> (handled, st1))"

definition handle_auth_flow ::
  "loop_config \<Rightarrow> pending_auth \<Rightarrow> tagged_message \<Rightarrow> loop_state \<Rightarrow> flow_result \<times> loop_state" where
  "handle_auth_flow cfg a msg st =
     (case pau_state a of
        AuthChoosing \<Rightarrow> handle_auth_choosing cfg a msg st
      | AuthOAuthActive \<Rightarrow> handle_auth_oauth_active cfg a msg st
      | AuthDeployConfirm \<Rightarrow> handle_auth_deploy_confirm a msg st
      | AuthAPIKeyEntry \<Rightarrow> handle_auth_api_key_entry cfg a msg st)"

subsection \<open>Approving denied tools\<close>

definition build_approval_override ::
  "agent_options \<Rightarrow> pending_approval \<Rightarrow> channel_id
     \<Rightarrow> tagged_message \<times> channel_tools \<times> channel_id \<times> channel_tools option" where
  "build_approval_override o1 a c =
     (let base = (case ao_overrides o1 c of None \<Rightarrow> ct_allowed (ao_tools o1) | Some ov \<Rightarrow> ct_allowed ov);
          denied = (case ao_overrides o1 c of None \<Rightarrow> [] | Some ov \<Rightarrow> ct_disallowed ov)
      in (pta_original a, \<lparr>ct_allowed = base @ pta_denied a, ct_disallowed = denied\<rparr>, c, ao_overrides o1 c))"

text \<open>
  Writing an override: into the shared map, or, when the map is nil, into a new map that only
  the handler's copy of the options holds.
\<close>

definition set_override :: "channel_id \<Rightarrow> channel_tools option \<Rightarrow> loop_state \<Rightarrow> loop_state" where
  "set_override c ov st =
     (if ls_overrides_nil st then st
      else st\<lparr>ls_opts := (ls_opts st)\<lparr>ao_overrides := (ao_overrides (ls_opts st))(c := ov)\<rparr>\<rparr>)"

definition approval_answer :: "pending_approval \<Rightarrow> string \<Rightarrow> string option" where
  "approval_answer a text =
     (case parse_button_press text of
        None \<Rightarrow> Some (trim_space (to_lower text))
      | Some b \<Rightarrow> if bp_prompt b \<noteq> pta_prompt a then None else Some (bp_reply b))"

definition stale_button_notice :: "channel_id \<Rightarrow> loop_state \<Rightarrow> loop_state" where
  "stale_button_notice c st = log_out [Sends c NStaleButton, Closes c] st"

definition handle_tool_approval_flow ::
  "pending_approval \<Rightarrow> tagged_message \<Rightarrow> loop_state \<Rightarrow> flow_result \<times> loop_state" where
  "handle_tool_approval_flow a msg st =
     (let c = tm_channel msg
      in case approval_answer a (tm_text msg) of
           None \<Rightarrow> (handled, stale_button_notice c st)
         | Some answer \<Rightarrow>
             if answer \<in> set [''approve'', ''yes'', ''y''] then
               (let st1 = st\<lparr>ls_sessions := (ls_sessions st)(c := Some (pta_session a))\<rparr>
                in case build_approval_override (ls_opts st1) a c of
                     (retry, override, c', original) \<Rightarrow>
                       (\<lparr>fr_handled = False, fr_retry = [], fr_restore = Some (c', original),
                         fr_fall_through = Some retry\<rparr>,
                        set_override c (Some override) (flow_complete c st1)))
             else if answer \<in> set [''no'', ''n'', ''cancel''] then
               (handled, log_out [Sends c NApprovalCancelled, Closes c] (flow_complete c st))
             else
               (\<lparr>fr_handled = False, fr_retry = [], fr_restore = None, fr_fall_through = Some msg\<rparr>,
                flow_complete c st))"

text \<open>Which of the buttons pressed during a turn are kept for the approval that waits.\<close>

definition answers_open_approval :: "channel_id \<Rightarrow> button_press \<Rightarrow> loop_state \<Rightarrow> bool" where
  "answers_open_approval c b st =
     (case flow_active c st of
        Some (FlowApproval a) \<Rightarrow> pta_prompt a = bp_prompt b
      | _ \<Rightarrow> False)"

datatype turn_error =
    AuthRequired
  | ToolsDenied "tool list" string
  | TurnFailed string
  | OtherError

definition would_replace_open_prompt :: "tagged_message \<Rightarrow> turn_error option \<Rightarrow> loop_state \<Rightarrow> bool" where
  "would_replace_open_prompt msg err st =
     ((case err of Some AuthRequired \<Rightarrow> True | Some (ToolsDenied ts s) \<Rightarrow> True | _ \<Rightarrow> False) \<and>
      \<not> from_user (tm_source msg) \<and> flow_active (tm_channel msg) st \<noteq> None)"

end
