(* ===== verification/AgentLoop.thy ===== *)
theory AgentLoop
  imports Flows
begin

text \<open>
  The agent's main loop (\<open>RunWithMessages\<close> in \<open>agent/agent.go\<close>) as a machine. While it waits, an
  event hands it the next message or the end of a sign-in process; the message passes the
  stages the code has in a row, each of which may end the round, and what passes them all
  starts a turn. While the turn runs, messages from the input and the turn's result arrive in
  any order. The turn itself (\<open>handle\<close>, repeated while it is rate limited) is the event that
  ends it; \<open>Runs\<close> in the trace holds the options it was started with.

  The live channel map is read once an event. The queue is present, as the router always gives
  one; what it takes and gives is the part of \<open>Queue\<close>.
\<close>

subsection \<open>Commands\<close>

text \<open>
  \<open>strings.EqualFold\<close> with a lower-case ASCII word: besides the capitals only the long s and the
  Kelvin sign fold to an ASCII letter.
\<close>

fun fold_text :: "string \<Rightarrow> string" where
  "fold_text (a # b # c # s) =
     (if a = CHR 0xE2 \<and> b = CHR 0x84 \<and> c = CHR 0xAA then CHR ''k'' # fold_text s
      else if a = CHR 0xC5 \<and> b = CHR 0xBF then CHR ''s'' # fold_text (c # s)
      else lower_char a # fold_text (b # c # s))"
| "fold_text [a, b] =
     (if a = CHR 0xC5 \<and> b = CHR 0xBF then ''s'' else [lower_char a, lower_char b])"
| "fold_text [a] = [lower_char a]"
| "fold_text [] = []"

definition equal_fold :: "string \<Rightarrow> string \<Rightarrow> bool" where
  "equal_fold s cmd = (fold_text s = cmd)"

definition is_fresh_session_command :: "string \<Rightarrow> bool" where
  "is_fresh_session_command s = (to_lower (trim_space s) \<in> set [''new'', ''reset'', ''clear'', ''delete''])"

definition is_control_command :: "string \<Rightarrow> bool" where
  "is_control_command s =
     (let t = trim_space s
      in list_ex (equal_fold t) [''stop'', ''login'', ''auth'', ''compact'', ''help''] \<or>
         parse_button_press t \<noteq> None \<or> is_fresh_session_command t)"

definition compact_prompt :: string where "compact_prompt = ''/compact''"

subsection \<open>The stages a message passes\<close>

datatype round = Ends loop_state | Passes tagged_message loop_state

type_synonym stage = "tagged_message \<Rightarrow> loop_state \<Rightarrow> round"

definition builtin_allowed :: "loop_state \<Rightarrow> channel_id \<Rightarrow> tool \<Rightarrow> bool" where
  "builtin_allowed st c cmd = is_builtin_allowed (ao_overrides (ls_opts st)) (ao_tools (ls_opts st)) c cmd"

definition send_denied :: "channel_id \<Rightarrow> loop_state \<Rightarrow> loop_state" where
  "send_denied c st = log_out [Sends c NDenied, Closes c] st"

definition source_notice :: stage where
  "source_notice msg st =
     (let c = tm_channel msg
      in Passes msg
           (case tm_source msg of
              None \<Rightarrow> st
            | Some i \<Rightarrow>
                (case si_source i of
                   SourceChannel \<Rightarrow> log_out [Sends c (NFromChannel (si_from_channel i))] st
                 | SourceChild \<Rightarrow> log_out [Sends c (NFromChild (si_child_channel i))] st
                 | SourceInitialMessage \<Rightarrow>
                     if si_from_channel i \<noteq> [] then log_out [Sends c (NBrief (si_from_channel i))] st else st
                 | _ \<Rightarrow> st)))"

definition stage_stop :: stage where
  "stage_stop msg st =
     (let c = tm_channel msg
      in if \<not> equal_fold (tm_text msg) ''stop'' then Passes msg st
         else if \<not> builtin_allowed st c builtin_stop then Ends (send_denied c st)
         else Ends (flow_cancel c st))"

definition stage_compact :: stage where
  "stage_compact msg st =
     (let c = tm_channel msg
      in if \<not> equal_fold (tm_text msg) ''compact'' then Passes msg st
         else if \<not> builtin_allowed st c builtin_compact then Ends (send_denied c st)
         else Passes (msg\<lparr>tm_text := compact_prompt\<rparr>) (log_out [Sends c NCompacting, Closes c] st))"

definition clear_channel_session :: "channel_id \<Rightarrow> loop_state \<Rightarrow> loop_state" where
  "clear_channel_session c st =
     log_out [UpdatesSession c []] (st\<lparr>ls_sessions := (ls_sessions st)(c := None)\<rparr>)"

definition stage_fresh :: stage where
  "stage_fresh msg st =
     (let c = tm_channel msg
      in if \<not> is_fresh_session_command (tm_text msg) then Passes msg st
         else if \<not> builtin_allowed st c builtin_reset_session then Ends (send_denied c st)
         else Ends (log_out [Sends c NNewSession, Closes c] (clear_channel_session c (flow_cancel c st))))"

definition no_message :: tagged_message where
  "no_message = \<lparr>tm_channel = [], tm_text = [], tm_source = None\<rparr>"

definition stage_login :: "channel_map \<Rightarrow> stage" where
  "stage_login chans msg st =
     (let c = tm_channel msg
      in if \<not> equal_fold (tm_text msg) ''login'' then Passes msg st
         else if \<not> builtin_allowed st c builtin_login then Ends (send_denied c st)
         else Ends (log_out [Closes c]
                (if map_of chans c = None then st
                 else (case next_ok st of
                         (False, st1) \<Rightarrow> st1
                       | (True, st1) \<Rightarrow> start_auth c no_message (log_out [Sends c NAuthPrompt] st1)))))"

definition stage_help :: stage where
  "stage_help msg st =
     (let c = tm_channel msg
      in if \<not> equal_fold (trim_space (tm_text msg)) ''help'' then Passes msg st
         else Ends (log_out [Sends c NHelp, Closes c] st))"

definition stage_auth_status :: "channel_map \<Rightarrow> stage" where
  "stage_auth_status chans msg st =
     (let c = tm_channel msg
      in if \<not> equal_fold (tm_text msg) ''auth'' then Passes msg st
         else if \<not> builtin_allowed st c builtin_auth then Ends (send_denied c st)
         else Ends (log_out (if map_of chans c = None then [Closes c] else [Sends c NAuthStatus, Closes c]) st))"

definition stage_press_in_auth :: stage where
  "stage_press_in_auth msg st =
     (case flow_active (tm_channel msg) st of
        Some (FlowAuth a) \<Rightarrow>
          if parse_button_press (tm_text msg) \<noteq> None then Ends (stale_button_notice (tm_channel msg) st)
          else Passes msg st
      | _ \<Rightarrow> Passes msg st)"

text \<open>
  The turn is left open while the login process runs: the state is read after the step, from
  the flow's record, which a completed flow still holds.
\<close>

definition auth_running_after :: "loop_config \<Rightarrow> pending_auth \<Rightarrow> tagged_message \<Rightarrow> bool" where
  "auth_running_after cfg a msg =
     (case pau_state a of
        AuthChoosing \<Rightarrow> trim_space (to_lower (tm_text msg)) \<in> set [''1'', ''oauth''] \<and> lc_local cfg
      | AuthOAuthActive \<Rightarrow>
          (case pau_result a of None \<Rightarrow> True | Some token \<Rightarrow> token = [] \<or> \<not> lc_has_prod cfg)
      | _ \<Rightarrow> False)"

definition stage_auth :: "loop_config \<Rightarrow> channel_map \<Rightarrow> stage" where
  "stage_auth cfg chans msg st =
     (let c = tm_channel msg
      in case flow_active c st of
           Some (FlowAuth a) \<Rightarrow>
             if \<not> from_user (tm_source msg) then Passes msg st
             else if map_of chans c = None then Ends (flow_complete c st)
             else (case handle_auth_flow cfg a msg st of
                     (r, st1) \<Rightarrow>
                       Ends (log_out (map Pushes (fr_retry r) @
                                   (if auth_running_after cfg a msg then [] else [Closes c])) st1))
         | _ \<Rightarrow> Passes msg st)"

definition stage_approval :: "channel_map \<Rightarrow> stage" where
  "stage_approval chans msg st =
     (let c = tm_channel msg
      in case flow_active c st of
           Some (FlowApproval a) \<Rightarrow>
             if \<not> from_user (tm_source msg) then Passes msg st
             else if map_of chans c = None then Ends (flow_complete c st)
             else (case handle_tool_approval_flow a msg st of
                     (r, st1) \<Rightarrow>
                       (let st2 = (if fr_restore r = None then st1 else st1\<lparr>ls_restore := fr_restore r\<rparr>)
                        in case fr_fall_through r of
                             Some m \<Rightarrow> Passes m st2
                           | None \<Rightarrow> if fr_handled r then Ends st2 else Passes msg st2))
         | _ \<Rightarrow> Passes msg st)"

definition stage_stale_press :: stage where
  "stage_stale_press msg st =
     (if parse_button_press (tm_text msg) \<noteq> None then Ends (stale_button_notice (tm_channel msg) st)
      else Passes msg st)"

fun run_stages :: "stage list \<Rightarrow> stage" where
  "run_stages [] msg st = Passes msg st"
| "run_stages (f # fs) msg st =
     (case f msg st of Ends st1 \<Rightarrow> Ends st1 | Passes m st1 \<Rightarrow> run_stages fs m st1)"

definition loop_stages :: "loop_config \<Rightarrow> channel_map \<Rightarrow> stage list" where
  "loop_stages cfg chans =
     [source_notice, stage_stop, stage_compact, stage_fresh, stage_login chans, stage_help,
      stage_auth_status chans, stage_press_in_auth, stage_auth cfg chans, stage_approval chans,
      stage_stale_press]"

subsection \<open>The attempts of a turn\<close>

definition rate_limit_max_retries :: nat where "rate_limit_max_retries = 3"
definition rate_limit_initial_delay :: duration where "rate_limit_initial_delay = 30 * second"
definition rate_limit_backoff_factor :: int where "rate_limit_backoff_factor = 2"

text \<open>
  What an attempt meets: a rate limit, or any other outcome. \<open>handle\<close> runs one attempt in the
  world \<open>w\<close> and leaves it changed; \<open>cancelled n\<close> is whether the turn is cancelled during the wait
  after attempt \<open>n\<close>. \<open>None\<close> is the outcome of a cancelled turn, and the list holds the waits.
\<close>

datatype 'e attempt_outcome = RateLimited | Outcome 'e

type_synonym ('w, 'e) handler_attempt = "string \<Rightarrow> 'w \<Rightarrow> string \<times> 'e attempt_outcome \<times> 'w"

function turn_attempts ::
  "('w, 'e) handler_attempt \<Rightarrow> (nat \<Rightarrow> bool) \<Rightarrow> nat \<Rightarrow> duration \<Rightarrow> string \<Rightarrow> 'w
     \<Rightarrow> string \<times> 'e attempt_outcome option \<times> duration list \<times> 'w" where
  "turn_attempts handle cancelled n delay session w =
     (case handle session w of
        (new, r, w1) \<Rightarrow>
          (let session1 = (if new \<noteq> [] then new else session)
           in if r \<noteq> RateLimited \<or> rate_limit_max_retries \<le> n then (session1, Some r, [], w1)
              else if cancelled n then (session1, None, [delay], w1)
              else (case turn_attempts handle cancelled (Suc n) (delay * rate_limit_backoff_factor) session1 w1 of
                      (s, r', ds, w2) \<Rightarrow> (s, r', delay # ds, w2))))"
  by pat_completeness auto

termination
  by (relation "measure (\<lambda>(_, _, n, _, _, _). Suc rate_limit_max_retries - n)") auto

declare turn_attempts.simps [simp del]

definition run_turn ::
  "('w, 'e) handler_attempt \<Rightarrow> (nat \<Rightarrow> bool) \<Rightarrow> string \<Rightarrow> 'w
     \<Rightarrow> string \<times> 'e attempt_outcome option \<times> duration list \<times> 'w" where
  "run_turn handle cancelled session w = turn_attempts handle cancelled 0 rate_limit_initial_delay session w"

subsection \<open>A turn begins and ends\<close>

record running =
  ru_msg :: tagged_message
  ru_session :: string
  ru_stopped :: bool

datatype loop_exit = ChannelChanged | IdleTimeout | QueueEnded

datatype phase = Waiting | InTurn running | Exited loop_exit

definition lookup_session :: "(string \<times> bool) option \<Rightarrow> channel_id \<Rightarrow> loop_state \<Rightarrow> string \<times> bool" where
  "lookup_session resolved c st =
     (case resolved of Some r \<Rightarrow> r | None \<Rightarrow> (map_or [] (ls_sessions st c), False))"

definition notify_fresh_session :: "channel_id \<Rightarrow> string \<Rightarrow> bool \<Rightarrow> loop_state \<Rightarrow> loop_state" where
  "notify_fresh_session c session timed_out st =
     (if session \<noteq> [] then st
      else if \<not> timed_out \<and> map_or [] (ls_sessions st c) = [] then st
      else log_out [Sends c NFreshSession] (st\<lparr>ls_sessions := (ls_sessions st)(c := None)\<rparr>))"

definition stopped_notice :: string where
  "stopped_notice =
     ''[SYSTEM: The previous task on this channel was stopped by the user. Do NOT continue, summarize, or reference it. Focus only on the new message below.]'' @ [CHR 0x0A]"

definition live_name :: "channel_map \<Rightarrow> channel_id \<Rightarrow> (string \<Rightarrow> loop_effect) \<Rightarrow> loop_effect list" where
  "live_name chans c e = (case map_of chans c of None \<Rightarrow> [] | Some ch \<Rightarrow> [e (ch_name ch)])"

definition begin_turn ::
  "channel_map \<Rightarrow> (string \<times> bool) option \<Rightarrow> tagged_message \<Rightarrow> loop_state \<Rightarrow> phase \<times> loop_state" where
  "begin_turn chans resolved msg st =
     (let c = tm_channel msg;
          found = lookup_session resolved c st;
          st1 = log_out (live_name chans c TurnBegins @ [MarksInterrupted c])
                  (notify_fresh_session c (fst found) (snd found) st);
          o1 = (if ls_stopped st1 c then (ls_opts st1)\<lparr>ao_resume_notice := stopped_notice\<rparr> else ls_opts st1)
      in (InTurn \<lparr>ru_msg = msg, ru_session = fst found, ru_stopped = False\<rparr>,
          log_out [Runs o1 (fst found) msg]
            (st1\<lparr>ls_opts := (ls_opts st1)\<lparr>ao_resume_notice := []\<rparr>,
                 ls_stopped := (ls_stopped st1)(c := False)\<rparr>)))"

text \<open>
  The surroundings in which a turn ends: the live channels, a fresh prompt id, whether the whole
  agent is being shut down, and whether the router has signalled a change of the channels.
\<close>

record turn_env =
  te_chans :: channel_map
  te_prompt :: string
  te_shutdown :: bool
  te_changed :: bool

definition restore_override :: "loop_state \<Rightarrow> loop_state" where
  "restore_override st = (case ls_restore st of None \<Rightarrow> st | Some (c, ov) \<Rightarrow> set_override c ov st)"

definition close_turn :: "turn_env \<Rightarrow> running \<Rightarrow> loop_state \<Rightarrow> phase \<times> loop_state" where
  "close_turn env ru st =
     (let c = tm_channel (ru_msg ru);
          st1 = log_out ((if te_shutdown env then [] else [ClearsInterrupted]) @
                      live_name (te_chans env) c TurnEnds @ [Closes c])
                  (restore_override st)
      in if te_changed env
         then (Exited ChannelChanged,
               log_out (if map_of (te_chans env) c = None then [] else [Sends c NRestarting, Closes c]) st1)
         else (Waiting, st1))"

definition record_turn :: "turn_env \<Rightarrow> running \<Rightarrow> string \<Rightarrow> turn_error option \<Rightarrow> loop_state \<Rightarrow> loop_state" where
  "record_turn env ru session err st =
     (let c = tm_channel (ru_msg ru);
          st1 = (if err \<noteq> None \<and> \<not> ru_stopped ru \<and> \<not> te_shutdown env
                 then log_out [Sends c NTurnFailed] st else st);
          sid = (case err of Some (TurnFailed s) \<Rightarrow> if s \<noteq> [] then s else session | _ \<Rightarrow> session)
      in if sid = [] then st1
         else log_out [UpdatesSession c sid] (st1\<lparr>ls_sessions := (ls_sessions st1)(c := Some sid)\<rparr>))"

definition turn_result ::
  "turn_env \<Rightarrow> running \<Rightarrow> string \<Rightarrow> turn_error option \<Rightarrow> loop_state \<Rightarrow> loop_state" where
  "turn_result env ru session err st =
     (let msg = ru_msg ru; c = tm_channel msg; live = (map_of (te_chans env) c \<noteq> None)
      in if would_replace_open_prompt msg err st then log_out [Sends c NSkippedPrompt] st
         else (case err of
                 Some AuthRequired \<Rightarrow>
                   (let st1 = start_auth c msg st
                    in if \<not> live then st1
                       else (case next_ok st1 of
                               (True, st2) \<Rightarrow> log_out [Sends c NAuthPrompt] st2
                             | (False, st2) \<Rightarrow> flow_cancel c st2))
               | Some (ToolsDenied ts s) \<Rightarrow>
                   (let st1 = start_tool_approval c msg ts s (te_prompt env) st
                    in if live then log_out [Sends c (NAskApproval ts (te_prompt env))] st1 else st1)
               | _ \<Rightarrow> record_turn env ru session err st))"

text \<open>A message that arrives while a turn runs: a stop, a stale button, or one for the queue.\<close>

definition mid_turn :: "tagged_message \<Rightarrow> running \<Rightarrow> loop_state \<Rightarrow> phase \<times> loop_state" where
  "mid_turn new ru st =
     (let c = tm_channel (ru_msg ru); d = tm_channel new;
          queued = (InTurn ru,
                    log_out ([Pushes new, Sends d NQueued] @ (if d \<noteq> c then [Closes d] else [])) st)
      in if equal_fold (tm_text new) ''stop'' then
           (if ru_stopped ru then (InTurn ru, st)
            else (InTurn (ru\<lparr>ru_stopped := True\<rparr>),
                  log_out [CancelsTurn] (st\<lparr>ls_stopped := (ls_stopped st)(c := True)\<rparr>)))
         else (case parse_button_press (tm_text new) of
                 None \<Rightarrow> queued
               | Some b \<Rightarrow>
                   if answers_open_approval d b st then queued
                   else (InTurn ru, log_out [Sends d NStaleButton] st)))"

subsection \<open>The loop\<close>

datatype loop_event =
    Arrives channel_map "(string \<times> bool) option" tagged_message
  | OAuthReports channel_id string
  | OAuthNotified channel_map "(string \<times> bool) option" channel_id
  | MidTurn tagged_message
  | TurnReturns turn_env string "turn_error option"
  | InputEnds turn_env
  | Leaves loop_exit

definition handle_message ::
  "loop_config \<Rightarrow> channel_map \<Rightarrow> (string \<times> bool) option \<Rightarrow> tagged_message \<Rightarrow> loop_state \<Rightarrow> phase \<times> loop_state" where
  "handle_message cfg chans resolved msg st =
     (case run_stages (loop_stages cfg chans) msg (st\<lparr>ls_restore := None\<rparr>) of
        Ends st1 \<Rightarrow> (Waiting, st1)
      | Passes m st1 \<Rightarrow> begin_turn chans resolved m st1)"

definition oauth_reports :: "channel_id \<Rightarrow> string \<Rightarrow> loop_state \<Rightarrow> loop_state" where
  "oauth_reports c token st =
     (case flow_active c st of
        Some (FlowAuth a) \<Rightarrow>
          if pau_state a = AuthOAuthActive \<and> pau_result a = None
          then update_auth c (a\<lparr>pau_result := Some token\<rparr>) st else st
      | _ \<Rightarrow> st)"

definition has_auth_flow :: "channel_id \<Rightarrow> loop_state \<Rightarrow> bool" where
  "has_auth_flow c st = (case flow_active c st of Some (FlowAuth a) \<Rightarrow> True | _ \<Rightarrow> False)"

fun loop_step :: "loop_config \<Rightarrow> loop_event \<Rightarrow> phase \<times> loop_state \<Rightarrow> (phase \<times> loop_state) option" where
  "loop_step cfg (OAuthReports c token) (ph, st) = Some (ph, oauth_reports c token st)"
| "loop_step cfg (Arrives chans resolved msg) (Waiting, st) = Some (handle_message cfg chans resolved msg st)"
| "loop_step cfg (OAuthNotified chans resolved c) (Waiting, st) =
     Some (if has_auth_flow c st
           then handle_message cfg chans resolved \<lparr>tm_channel = c, tm_text = [], tm_source = None\<rparr> st
           else (Waiting, st))"
| "loop_step cfg (Leaves e) (Waiting, st) = Some (Exited e, st)"
| "loop_step cfg (MidTurn new) (InTurn ru, st) = Some (mid_turn new ru st)"
| "loop_step cfg (TurnReturns env session err) (InTurn ru, st) =
     Some (close_turn env ru (turn_result env ru session err st))"
| "loop_step cfg (InputEnds env) (InTurn ru, st) = Some (close_turn env ru st)"
| "loop_step cfg _ _ = None"

fun loop_run :: "loop_config \<Rightarrow> loop_event list \<Rightarrow> phase \<times> loop_state \<Rightarrow> (phase \<times> loop_state) option" where
  "loop_run cfg [] p = Some p"
| "loop_run cfg (e # es) p = Option.bind (loop_step cfg e p) (loop_run cfg es)"

text \<open>The loop begins with no flows, whatever the shared set of open prompts holds by then.\<close>

definition loop_start ::
  "agent_options \<Rightarrow> bool \<Rightarrow> (channel_id \<Rightarrow> string option) \<Rightarrow> bool list \<Rightarrow> open_prompts option \<Rightarrow> phase \<times> loop_state" where
  "loop_start o1 nil sessions io op =
     (Waiting,
      \<lparr>ls_fm = \<lparr>fm_flows = (\<lambda>_. None), fm_open = op\<rparr>, ls_opts = o1, ls_overrides_nil = nil,
       ls_sessions = sessions, ls_stopped = (\<lambda>_. False), ls_restore = None, ls_io = io, ls_out = []\<rparr>)"

subsection \<open>What the stages leave alone\<close>

definition mirror_ok :: "loop_state \<Rightarrow> bool" where
  "mirror_ok st =
     (case fm_open (ls_fm st) of
        None \<Rightarrow> False
      | Some op \<Rightarrow> \<forall>c. open_prompts_is_open op c = (flow_active c st \<noteq> None))"

fun is_run :: "loop_effect \<Rightarrow> bool" where
  "is_run (Runs o1 s m) = True"
| "is_run _ = False"

definition runs_of :: "loop_state \<Rightarrow> loop_effect list" where
  "runs_of st = filter is_run (ls_out st)"

text \<open>
  \<open>keeps st st1\<close>: the options, the pending restore and the turns run are the same, no approval
  is new, and the mirror still agrees.
\<close>

definition keeps :: "loop_state \<Rightarrow> loop_state \<Rightarrow> bool" where
  "keeps st st1 =
     (ls_opts st1 = ls_opts st \<and> ls_overrides_nil st1 = ls_overrides_nil st \<and>
      ls_restore st1 = ls_restore st \<and> runs_of st1 = runs_of st \<and>
      (\<forall>c a. flow_active c st1 = Some (FlowApproval a) \<longrightarrow> flow_active c st = Some (FlowApproval a)) \<and>
      (mirror_ok st \<longrightarrow> mirror_ok st1))"

lemma keeps_refl [intro, simp]: "keeps st st"
  by (simp add: keeps_def)

lemma keeps_trans: "keeps st st1 \<Longrightarrow> keeps st1 st2 \<Longrightarrow> keeps st st2"
  by (simp add: keeps_def)

lemma flow_active_emit [simp]: "flow_active c (log_out es st) = flow_active c st"
  by (simp add: flow_active_def log_out_def)

lemma keeps_emit [intro]: "\<forall>e \<in> set es. \<not> is_run e \<Longrightarrow> keeps st (log_out es st)"
  by (auto simp: keeps_def log_out_def runs_of_def mirror_ok_def flow_active_def filter_empty_conv split: option.splits)

lemma keeps_emit_after: "keeps st st1 \<Longrightarrow> \<forall>e \<in> set es. \<not> is_run e \<Longrightarrow> keeps st (log_out es st1)"
  by (blast intro: keeps_trans)

lemma keeps_put: "(\<forall>a. f \<noteq> Some (FlowApproval a)) \<Longrightarrow> keeps st (put_flow c f st)"
  by (auto simp: keeps_def put_flow_def set_flow_def runs_of_def mirror_ok_def flow_active_def
      split: option.splits if_splits)

lemma keeps_update: "flow_active c st \<noteq> None \<Longrightarrow> keeps st (update_auth c a st)"
  by (auto simp: keeps_def update_auth_def runs_of_def mirror_ok_def flow_active_def split: option.splits)

lemma keeps_sessions: "keeps st (st\<lparr>ls_sessions := s\<rparr>)"
  by (simp add: keeps_def runs_of_def mirror_ok_def flow_active_def split: option.splits)

lemma keeps_io: "keeps st (st\<lparr>ls_io := s\<rparr>)"
  by (simp add: keeps_def runs_of_def mirror_ok_def flow_active_def split: option.splits)

lemma next_ok_keeps: "next_ok st = (b, st1) \<Longrightarrow> keeps st st1"
  by (auto simp: next_ok_def keeps_io split: list.splits)

lemma next_ok_flows: "next_ok st = (b, st1) \<Longrightarrow> flow_active c st1 = flow_active c st"
  by (auto simp: next_ok_def flow_active_def split: list.splits)

lemma persist_keeps: "persist cfg e st = (b, st1) \<Longrightarrow> \<not> is_run e \<Longrightarrow> keeps st st1"
  by (auto simp: persist_def intro: next_ok_keeps keeps_emit_after split: if_splits prod.splits)

lemma persist_flows: "persist cfg e st = (b, st1) \<Longrightarrow> flow_active c st1 = flow_active c st"
  by (auto simp: persist_def dest: next_ok_flows [of _ _ _ c] split: if_splits prod.splits)

lemma flow_complete_keeps: "keeps st (flow_complete c st)"
  unfolding flow_complete_def by (rule keeps_put) simp

lemma flow_cancel_keeps: "keeps st (flow_cancel c st)"
  by (auto simp: flow_cancel_def intro!: keeps_put keeps_trans [OF keeps_emit keeps_put]
      split: option.splits channel_flow.splits)

lemma start_auth_keeps: "keeps st (start_auth c m st)"
  unfolding start_auth_def by (rule keeps_trans [OF flow_cancel_keeps keeps_put]) simp

lemma clear_session_keeps: "keeps st (clear_channel_session c st)"
  unfolding clear_channel_session_def by (rule keeps_emit_after [OF keeps_sessions]) simp

lemma pushes_no_run [simp]: "\<forall>e \<in> set (map Pushes ms). \<not> is_run e"
  by auto

lemmas keeps_steps = keeps_emit_after keeps_update flow_complete_keeps

definition round_keeps :: "stage \<Rightarrow> bool" where
  "round_keeps f =
     (\<forall>msg st. case f msg st of
        Ends st1 \<Rightarrow> keeps st st1
      | Passes m st1 \<Rightarrow>
          keeps st st1 \<and> tm_channel m = tm_channel msg \<and> tm_source m = tm_source msg \<and>
          (tm_text m = tm_text msg \<or> tm_text m = compact_prompt))"

lemma handle_auth_flow_keeps:
  assumes "flow_active (tm_channel msg) st = Some (FlowAuth a)" "handle_auth_flow cfg a msg st = (r, st1)"
  shows "keeps st st1"
proof (cases "pau_state a")
  case AuthChoosing
  with assms show ?thesis
    by (auto simp: handle_auth_flow_def handle_auth_choosing_def Let_def intro!: keeps_steps split: if_splits)
next
  case AuthAPIKeyEntry
  obtain b s2 where k: "handle_api_key_entry cfg (tm_channel msg) (tm_text msg) st = (b, s2)" by fastforce
  obtain b' s3 where p: "persist cfg (SavesApiKey (trim_space (tm_text msg))) st = (b', s3)" by fastforce
  from persist_keeps [OF p] have "keeps st s3" by simp
  with k p have "keeps st s2"
    by (auto simp: handle_api_key_entry_def Let_def intro!: keeps_emit_after split: if_splits bool.splits)
  with assms AuthAPIKeyEntry k show ?thesis
    by (auto simp: handle_auth_flow_def handle_auth_api_key_entry_def
        intro: keeps_trans [OF _ flow_complete_keeps] split: bool.splits)
next
  case AuthOAuthActive
  show ?thesis
  proof (cases "pau_result a")
    case None
    with assms AuthOAuthActive show ?thesis
      by (auto simp: handle_auth_flow_def handle_auth_oauth_active_def Let_def)
  next
    case (Some token)
    obtain b s2 where p: "persist cfg (SavesSetupToken token) st = (b, s2)" by fastforce
    from persist_keeps [OF p] have "keeps st s2" by simp
    moreover from persist_flows [OF p] assms(1) have "flow_active (tm_channel msg) s2 \<noteq> None" by simp
    ultimately show ?thesis
      using assms(2) AuthOAuthActive Some p
      by (auto simp: handle_auth_flow_def handle_auth_oauth_active_def Let_def
          intro!: keeps_emit_after keeps_trans [OF _ flow_complete_keeps] keeps_emit
          intro: keeps_trans [OF _ keeps_update] split: if_splits)
  qed
next
  case AuthDeployConfirm
  obtain b s2 where n: "next_ok (log_out [Sends (tm_channel msg) NDeploying] st) = (b, s2)" by fastforce
  have "keeps st s2" by (rule keeps_trans [OF keeps_emit next_ok_keeps [OF n]]) simp
  with assms AuthDeployConfirm n show ?thesis
    by (auto simp: handle_auth_flow_def handle_auth_deploy_confirm_def Let_def
        intro!: keeps_trans [OF _ flow_complete_keeps] keeps_emit_after keeps_emit split: if_splits)
qed

lemma denied_keeps: "keeps st (send_denied c st)"
  unfolding send_denied_def by (rule keeps_emit) simp

lemma stale_keeps: "keeps st (stale_button_notice c st)"
  unfolding stale_button_notice_def by (rule keeps_emit) simp

lemma login_keeps:
  "keeps st (case next_ok st of (False, st1) \<Rightarrow> st1 | (True, st1) \<Rightarrow> start_auth c no_message (log_out [Sends c NAuthPrompt] st1))"
proof -
  obtain b st1 where n: "next_ok st = (b, st1)" by fastforce
  have "keeps st (start_auth c no_message (log_out [Sends c NAuthPrompt] st1))"
    by (rule keeps_trans [OF keeps_emit_after [OF next_ok_keeps [OF n]] start_auth_keeps]) simp
  with n next_ok_keeps [OF n] show ?thesis by (cases b) simp_all
qed

lemma stages_keep:
  "round_keeps source_notice" "round_keeps stage_stop" "round_keeps stage_compact" "round_keeps stage_fresh"
  "round_keeps (stage_login chans)" "round_keeps stage_help" "round_keeps (stage_auth_status chans)"
  "round_keeps stage_press_in_auth" "round_keeps stage_stale_press"
  unfolding round_keeps_def
  by (auto simp: source_notice_def stage_stop_def stage_compact_def stage_fresh_def stage_login_def stage_help_def
      stage_auth_status_def stage_press_in_auth_def stage_stale_press_def Let_def
      intro!: denied_keeps stale_keeps flow_cancel_keeps keeps_emit login_keeps
        keeps_emit_after [OF keeps_trans [OF flow_cancel_keeps clear_session_keeps]] keeps_emit_after [OF login_keeps]
      split: option.splits message_source.splits channel_flow.splits)

lemma stage_auth_keeps: "round_keeps (stage_auth cfg chans)"
  unfolding round_keeps_def
proof (intro allI)
  fix msg st
  show "case stage_auth cfg chans msg st of Ends st1 \<Rightarrow> keeps st st1
        | Passes m st1 \<Rightarrow> keeps st st1 \<and> tm_channel m = tm_channel msg \<and> tm_source m = tm_source msg \<and>
            (tm_text m = tm_text msg \<or> tm_text m = compact_prompt)"
  proof (cases "\<exists>a. flow_active (tm_channel msg) st = Some (FlowAuth a) \<and> from_user (tm_source msg) \<and>
                    map_of chans (tm_channel msg) \<noteq> None")
    case True
    then obtain a where a: "flow_active (tm_channel msg) st = Some (FlowAuth a)" by blast
    obtain r st1 where h: "handle_auth_flow cfg a msg st = (r, st1)" by fastforce
    show ?thesis
      using True a h
      by (auto simp: stage_auth_def Let_def intro!: keeps_emit_after [OF handle_auth_flow_keeps [OF a h]])
  next
    case False
    then show ?thesis
      by (auto simp: stage_auth_def Let_def flow_complete_keeps split: option.splits channel_flow.splits)
  qed
qed

lemma run_stages_keep:
  assumes "list_all round_keeps fs"
  shows "round_keeps (run_stages fs)"
  using assms
proof (induction fs)
  case Nil
  then show ?case by (simp add: round_keeps_def)
next
  case (Cons f fs)
  have f: "round_keeps f" and fs: "round_keeps (run_stages fs)" using Cons by auto
  show ?case
    unfolding round_keeps_def
  proof (intro allI)
    fix msg st
    show "case run_stages (f # fs) msg st of Ends st1 \<Rightarrow> keeps st st1
          | Passes m st1 \<Rightarrow> keeps st st1 \<and> tm_channel m = tm_channel msg \<and> tm_source m = tm_source msg \<and>
              (tm_text m = tm_text msg \<or> tm_text m = compact_prompt)"
    proof (cases "f msg st")
      case (Ends s1)
      with f show ?thesis unfolding round_keeps_def by (auto dest!: spec [of _ msg] spec [of _ st])
    next
      case (Passes m s1)
      with f have 1: "keeps st s1" "tm_channel m = tm_channel msg" "tm_source m = tm_source msg"
        "tm_text m = tm_text msg \<or> tm_text m = compact_prompt"
        unfolding round_keeps_def by (auto dest!: spec [of _ msg] spec [of _ st])
      from fs have "case run_stages fs m s1 of Ends st1 \<Rightarrow> keeps s1 st1
          | Passes m' st1 \<Rightarrow> keeps s1 st1 \<and> tm_channel m' = tm_channel m \<and> tm_source m' = tm_source m \<and>
              (tm_text m' = tm_text m \<or> tm_text m' = compact_prompt)"
        unfolding round_keeps_def by blast
      with 1 Passes show ?thesis by (auto intro: keeps_trans split: round.splits)
    qed
  qed
qed

subsection \<open>The approval stage\<close>

definition affirms :: "string \<Rightarrow> string \<Rightarrow> bool" where
  "affirms pid s =
     (case parse_button_press s of
        None \<Rightarrow> trim_space (to_lower s) \<in> {''approve'', ''yes'', ''y''}
      | Some b \<Rightarrow> bp_prompt b = pid \<and> bp_reply b \<in> {''approve'', ''yes'', ''y''})"

text \<open>The override an approved retry runs with.\<close>

definition granted :: "agent_options \<Rightarrow> channel_id \<Rightarrow> tool list \<Rightarrow> channel_tools" where
  "granted o1 c denied =
     (let eff = effective_tools (ao_overrides o1) (ao_tools o1) c
      in \<lparr>ct_allowed = ct_allowed eff @ denied,
          ct_disallowed = (case ao_overrides o1 c of None \<Rightarrow> [] | Some ov \<Rightarrow> ct_disallowed ov)\<rparr>)"

lemma set_override_frame [simp]:
  "ls_restore (set_override c ov st) = ls_restore st" "ls_overrides_nil (set_override c ov st) = ls_overrides_nil st"
  "runs_of (set_override c ov st) = runs_of st" "flow_active d (set_override c ov st) = flow_active d st"
  "mirror_ok (set_override c ov st) = mirror_ok st" "ls_out (set_override c ov st) = ls_out st"
  by (simp_all add: set_override_def runs_of_def flow_active_def mirror_ok_def split: option.splits)

text \<open>
  After the stage the state either keeps all of it, or the user has approved: the options are
  those of the granted override and the restore puts the old entry back.
\<close>

lemma stage_approval_cases:
  assumes "stage_approval chans msg st = r"
  shows "(\<exists>st1. r = Ends st1 \<and> keeps st st1) \<or> (\<exists>st1. r = Passes msg st1 \<and> keeps st st1) \<or>
    (\<exists>a st0 st1. flow_active (tm_channel msg) st = Some (FlowApproval a) \<and> from_user (tm_source msg) \<and>
       affirms (pta_prompt a) (tm_text msg) \<and> keeps st st0 \<and> r = Passes (pta_original a) st1 \<and>
       st1 = (set_override (tm_channel msg) (Some (granted (ls_opts st) (tm_channel msg) (pta_denied a))) st0)
               \<lparr>ls_restore := Some (tm_channel msg, ao_overrides (ls_opts st) (tm_channel msg))\<rparr>)"
proof (cases "\<exists>a. flow_active (tm_channel msg) st = Some (FlowApproval a) \<and> from_user (tm_source msg) \<and>
                  map_of chans (tm_channel msg) \<noteq> None")
  case False
  then have "r = Passes msg st \<or> r = Ends (flow_complete (tm_channel msg) st)"
    using assms by (cases "flow_active (tm_channel msg) st") (auto simp: stage_approval_def Let_def split: channel_flow.splits)
  then show ?thesis using flow_complete_keeps by blast
next
  case True
  then obtain a where a: "flow_active (tm_channel msg) st = Some (FlowApproval a)"
    and u: "from_user (tm_source msg)" and live: "map_of chans (tm_channel msg) \<noteq> None" by blast
  let ?c = "tm_channel msg"
  show ?thesis
  proof (cases "approval_answer a (tm_text msg)")
    case None
    with assms a u live have "r = Ends (stale_button_notice ?c st)"
      by (auto simp: stage_approval_def Let_def handle_tool_approval_flow_def handled_def)
    then show ?thesis using stale_keeps by blast
  next
    case (Some ans)
    show ?thesis
    proof (cases "ans \<in> set [''approve'', ''yes'', ''y'']")
      case True
      let ?s = "st\<lparr>ls_sessions := (ls_sessions st)(?c := Some (pta_session a))\<rparr>"
      have k: "keeps st (flow_complete ?c ?s)" by (rule keeps_trans [OF keeps_sessions flow_complete_keeps])
      have aff: "affirms (pta_prompt a) (tm_text msg)"
        using Some True by (auto simp: approval_answer_def affirms_def split: option.splits if_splits)
      have "r = Passes (pta_original a)
              ((set_override ?c (Some (granted (ls_opts st) ?c (pta_denied a))) (flow_complete ?c ?s))
                 \<lparr>ls_restore := Some (?c, ao_overrides (ls_opts st) ?c)\<rparr>)"
        using assms a u live Some True
        by (simp add: stage_approval_def Let_def handle_tool_approval_flow_def build_approval_override_def
            granted_def effective_tools_def del: list.set split: option.splits)
      with a u aff k show ?thesis by blast
    next
      case False
      have "keeps st (log_out [Sends ?c NApprovalCancelled, Closes ?c] (flow_complete ?c st))"
        by (rule keeps_emit_after [OF flow_complete_keeps]) simp
      moreover have "r = Ends (log_out [Sends ?c NApprovalCancelled, Closes ?c] (flow_complete ?c st)) \<or>
          r = Passes msg (flow_complete ?c st)"
        using assms a u live Some False
        by (cases "ans \<in> set [''no'', ''n'', ''cancel'']")
          (simp_all add: stage_approval_def Let_def handle_tool_approval_flow_def handled_def del: list.set)
      ultimately show ?thesis using flow_complete_keeps by blast
    qed
  qed
qed

subsection \<open>Invariants of the loop\<close>

definition denied_before :: "loop_event list \<Rightarrow> tool list \<Rightarrow> string \<Rightarrow> bool" where
  "denied_before es ts pid =
     (\<exists>env s sid. TurnReturns env s (Some (ToolsDenied ts sid)) \<in> set es \<and> te_prompt env = pid)"

text \<open>
  A turn with tools beyond its channel's own: an earlier turn was denied them, and after that the
  user affirmed the prompt that asked for them, on the channel of the turn.
\<close>

definition user_approved :: "loop_event list \<Rightarrow> channel_id \<Rightarrow> tool list \<Rightarrow> bool" where
  "user_approved es c ts =
     (\<exists>pre chans resolved msg post pid.
        es = pre @ Arrives chans resolved msg # post \<and> from_user (tm_source msg) \<and> tm_channel msg = c \<and>
        affirms pid (tm_text msg) \<and> denied_before pre ts pid)"

definition run_granted :: "agent_options \<Rightarrow> loop_event list \<Rightarrow> loop_effect \<Rightarrow> bool" where
  "run_granted o1 es e =
     (case e of
        Runs o2 s m \<Rightarrow>
          ao_tools o2 = ao_tools o1 \<and>
          (ao_overrides o2 = ao_overrides o1 \<or>
           (\<exists>ts. user_approved es (tm_channel m) ts \<and>
                 ao_overrides o2 = (ao_overrides o1)(tm_channel m := Some (granted o1 (tm_channel m) ts))))
      | _ \<Rightarrow> True)"

definition approvals_ok :: "loop_event list \<Rightarrow> loop_state \<Rightarrow> bool" where
  "approvals_ok es st =
     (\<forall>c a. flow_active c st = Some (FlowApproval a) \<longrightarrow>
        tm_channel (pta_original a) = c \<and> parse_button_press (tm_text (pta_original a)) = None \<and>
        denied_before es (pta_denied a) (pta_prompt a))"

definition loop_ok :: "agent_options \<Rightarrow> loop_event list \<Rightarrow> phase \<times> loop_state \<Rightarrow> bool" where
  "loop_ok o1 es p =
     (case p of
        (ph, st) \<Rightarrow>
          ao_tools (ls_opts st) = ao_tools o1 \<and> approvals_ok es st \<and> (\<forall>e \<in> set (runs_of st). run_granted o1 es e) \<and>
          (case ph of
             InTurn ru \<Rightarrow>
               parse_button_press (tm_text (ru_msg ru)) = None \<and>
               ao_overrides (ls_opts (restore_override st)) = ao_overrides o1
           | _ \<Rightarrow> ao_overrides (ls_opts st) = ao_overrides o1))"

lemma denied_before_snoc: "denied_before es ts pid \<Longrightarrow> denied_before (es @ xs) ts pid"
  by (auto simp: denied_before_def)

lemma user_approved_snoc:
  assumes "user_approved es c ts"
  shows "user_approved (es @ xs) c ts"
proof -
  from assms obtain pre chans resolved msg post pid where
    e: "es = pre @ Arrives chans resolved msg # post" and
    m: "from_user (tm_source msg)" "tm_channel msg = c" "affirms pid (tm_text msg)" "denied_before pre ts pid"
    unfolding user_approved_def by blast
  from e have "es @ xs = pre @ Arrives chans resolved msg # (post @ xs)" by simp
  with m show ?thesis unfolding user_approved_def by blast
qed

lemma run_granted_snoc: "run_granted o1 es e \<Longrightarrow> run_granted o1 (es @ xs) e"
  by (cases e) (simp_all add: run_granted_def, blast intro: user_approved_snoc)

lemma approvals_ok_snoc: "approvals_ok es st \<Longrightarrow> approvals_ok (es @ xs) st"
  by (auto simp: approvals_ok_def denied_before_snoc)

lemma approvals_ok_keeps: "approvals_ok es st \<Longrightarrow> keeps st st1 \<Longrightarrow> approvals_ok es st1"
  by (auto simp: approvals_ok_def keeps_def)

lemma restore_keeps_none [simp]: "ls_restore st = None \<Longrightarrow> restore_override st = st"
  by (simp add: restore_override_def)

lemma affirms_compact [simp]: "\<not> affirms pid compact_prompt"
proof -
  have "parse_button_press compact_prompt = None" "trim_space (to_lower compact_prompt) = compact_prompt"
    by code_simp+
  then show ?thesis by (simp add: affirms_def) (simp add: compact_prompt_def)
qed

text \<open>All stages before the approval leave the tools alone.\<close>

lemma early_stages_keep:
  "round_keeps (run_stages
     [source_notice, stage_stop, stage_compact, stage_fresh, stage_login chans, stage_help,
      stage_auth_status chans, stage_press_in_auth, stage_auth cfg chans])"
  by (rule run_stages_keep) (simp add: stages_keep stage_auth_keeps)

lemma run_stages_append:
  "run_stages (fs @ gs) msg st =
     (case run_stages fs msg st of Ends st1 \<Rightarrow> Ends st1 | Passes m st1 \<Rightarrow> run_stages gs m st1)"
  by (induction fs arbitrary: msg st) (auto split: round.splits)

lemma loop_stages_split:
  "loop_stages cfg chans =
     [source_notice, stage_stop, stage_compact, stage_fresh, stage_login chans, stage_help,
      stage_auth_status chans, stage_press_in_auth, stage_auth cfg chans] @ [stage_approval chans, stage_stale_press]"
  by (simp add: loop_stages_def)

text \<open>What a message can have done when its round ends or its turn begins.\<close>

definition approved_state :: "tagged_message \<Rightarrow> loop_state \<Rightarrow> tagged_message \<Rightarrow> loop_state \<Rightarrow> bool" where
  "approved_state msg st m st1 =
     (\<exists>a. flow_active (tm_channel msg) st = Some (FlowApproval a) \<and> from_user (tm_source msg) \<and>
        affirms (pta_prompt a) (tm_text msg) \<and> m = pta_original a \<and>
        runs_of st1 = runs_of st \<and> ls_overrides_nil st1 = ls_overrides_nil st \<and>
        (\<forall>d b. flow_active d st1 = Some (FlowApproval b) \<longrightarrow> flow_active d st = Some (FlowApproval b)) \<and>
        (mirror_ok st \<longrightarrow> mirror_ok st1) \<and>
        ls_restore st1 = Some (tm_channel msg, ao_overrides (ls_opts st) (tm_channel msg)) \<and>
        ls_opts st1 = ls_opts (set_override (tm_channel msg)
                                 (Some (granted (ls_opts st) (tm_channel msg) (pta_denied a))) st))"

lemma loop_stages_cases:
  assumes ok: "approvals_ok es st"
  shows "case run_stages (loop_stages cfg chans) msg st of
           Ends st1 \<Rightarrow> keeps st st1
         | Passes m st1 \<Rightarrow>
             parse_button_press (tm_text m) = None \<and> tm_channel m = tm_channel msg \<and>
             (keeps st st1 \<or> approved_state msg st m st1)"
proof -
  let ?early = "[source_notice, stage_stop, stage_compact, stage_fresh, stage_login chans, stage_help,
      stage_auth_status chans, stage_press_in_auth, stage_auth cfg chans]"
  have e: "case run_stages ?early msg st of Ends st1 \<Rightarrow> keeps st st1
      | Passes m st1 \<Rightarrow> keeps st st1 \<and> tm_channel m = tm_channel msg \<and> tm_source m = tm_source msg \<and>
          (tm_text m = tm_text msg \<or> tm_text m = compact_prompt)"
    using early_stages_keep [of chans cfg] unfolding round_keeps_def by blast
  show ?thesis
  proof (cases "run_stages ?early msg st")
    case (Ends s1)
    with e show ?thesis by (simp only: loop_stages_split run_stages_append round.case)
  next
    case (Passes m s1)
    with e have k: "keeps st s1" and c: "tm_channel m = tm_channel msg" and src: "tm_source m = tm_source msg"
      and t: "tm_text m = tm_text msg \<or> tm_text m = compact_prompt" by auto
    have all: "run_stages (loop_stages cfg chans) msg st =
        (case stage_approval chans m s1 of Ends s \<Rightarrow> Ends s | Passes m' s \<Rightarrow> stage_stale_press m' s)"
      by (simp only: loop_stages_split run_stages_append Passes round.case)
        (simp split: round.splits)
    from stage_approval_cases [OF refl, of chans m s1] show ?thesis
    proof (elim disjE exE conjE)
      fix s2 assume "stage_approval chans m s1 = Ends s2" "keeps s1 s2"
      with all k show ?thesis by (auto intro: keeps_trans)
    next
      fix s2 assume "stage_approval chans m s1 = Passes m s2" "keeps s1 s2"
      with all k c show ?thesis
        by (auto simp: stage_stale_press_def intro: keeps_trans keeps_trans [OF _ stale_keeps])
    next
      fix a s0 s2
      assume a: "flow_active (tm_channel m) s1 = Some (FlowApproval a)" "from_user (tm_source m)"
        and aff: "affirms (pta_prompt a) (tm_text m)" and k0: "keeps s1 s0"
        and p: "stage_approval chans m s1 = Passes (pta_original a) s2"
        and s2: "s2 = (set_override (tm_channel m) (Some (granted (ls_opts s1) (tm_channel m) (pta_denied a))) s0)
                        \<lparr>ls_restore := Some (tm_channel m, ao_overrides (ls_opts s1) (tm_channel m))\<rparr>"
      from a(1) k c have a0: "flow_active (tm_channel msg) st = Some (FlowApproval a)" by (simp add: keeps_def)
      with ok have orig: "tm_channel (pta_original a) = tm_channel msg"
        "parse_button_press (tm_text (pta_original a)) = None" by (auto simp: approvals_ok_def)
      from aff t have aff': "affirms (pta_prompt a) (tm_text msg)" by auto
      have opts: "ls_opts s0 = ls_opts st" "ls_opts s1 = ls_opts st" "ls_overrides_nil s0 = ls_overrides_nil st"
        using k k0 by (auto simp: keeps_def)
      have "approved_state msg st (pta_original a) s2"
        unfolding approved_state_def
        using a0 a(2) src aff' opts c s2 k k0
        by (intro exI [of _ a]) (auto simp: keeps_def set_override_def runs_of_def flow_active_def mirror_ok_def
            split: option.splits)
      with all p orig show ?thesis by (simp add: stage_stale_press_def)
    qed
  qed
qed

lemma live_name_no_run [simp]:
  "(\<And>n. \<not> is_run (e n)) \<Longrightarrow> filter is_run (live_name chans c e) = []"
  by (auto simp: live_name_def split: option.splits)

lemma begin_turn_effect:
  assumes "begin_turn chans resolved m st = (ph, st2)"
  shows "\<exists>ru o2 s. ph = InTurn ru \<and> ru_msg ru = m \<and>
    runs_of st2 = runs_of st @ [Runs o2 s m] \<and> ao_overrides o2 = ao_overrides (ls_opts st) \<and>
    ao_tools o2 = ao_tools (ls_opts st) \<and> ao_overrides (ls_opts st2) = ao_overrides (ls_opts st) \<and>
    ao_tools (ls_opts st2) = ao_tools (ls_opts st) \<and> ls_restore st2 = ls_restore st \<and>
    ls_overrides_nil st2 = ls_overrides_nil st \<and> ls_fm st2 = ls_fm st"
proof -
  have n: "ls_opts (notify_fresh_session c s b st) = ls_opts st"
    "ls_restore (notify_fresh_session c s b st) = ls_restore st"
    "ls_overrides_nil (notify_fresh_session c s b st) = ls_overrides_nil st"
    "ls_fm (notify_fresh_session c s b st) = ls_fm st"
    "filter is_run (ls_out (notify_fresh_session c s b st)) = filter is_run (ls_out st)" for c s b
    by (auto simp: notify_fresh_session_def log_out_def)
  show ?thesis
    using assms by (auto simp: begin_turn_def Let_def log_out_def runs_of_def n)
qed

lemma granted_cong:
  "ao_overrides a = ao_overrides b \<Longrightarrow> ao_tools a = ao_tools b \<Longrightarrow> granted a c ts = granted b c ts"
  by (simp add: granted_def)

lemma restore_undoes_grant:
  assumes "ls_restore st = Some (c, ov0 c)" "ao_tools (ls_opts st) = ao_tools o1"
    and "ls_overrides_nil st \<Longrightarrow> ao_overrides (ls_opts st) = ov0"
    and "\<not> ls_overrides_nil st \<Longrightarrow> ao_overrides (ls_opts st) = ov0(c := Some g)"
  shows "ao_overrides (ls_opts (restore_override st)) = ov0"
  using assms by (auto simp: restore_override_def set_override_def fun_eq_iff)

lemma handle_message_ok:
  assumes ok: "loop_ok o1 es (Waiting, st)"
    and ev: "\<And>a. flow_active (tm_channel msg) st = Some (FlowApproval a) \<Longrightarrow> e = Arrives chans resolved msg"
  shows "loop_ok o1 (es @ [e]) (handle_message cfg chans resolved msg st)"
proof -
  let ?s = "st\<lparr>ls_restore := None\<rparr>"
  have s: "approvals_ok es ?s" "runs_of ?s = runs_of st" "flow_active c ?s = flow_active c st" for c
    using ok by (auto simp: loop_ok_def approvals_ok_def flow_active_def runs_of_def)
  have init: "ao_overrides (ls_opts st) = ao_overrides o1" "ao_tools (ls_opts st) = ao_tools o1"
    and runs: "\<forall>x \<in> set (runs_of st). run_granted o1 es x"
    using ok by (auto simp: loop_ok_def)
  have ap: "approvals_ok es st1" if "keeps ?s st1" for st1
    using approvals_ok_keeps [OF s(1) that] .
  show ?thesis
  proof (cases "run_stages (loop_stages cfg chans) msg ?s")
    case (Ends st1)
    with loop_stages_cases [OF s(1), where cfg = cfg and chans = chans and msg = msg] have k: "keeps ?s st1" by simp
    with Ends ap [OF k] init runs s(2) show ?thesis
      by (auto simp: handle_message_def loop_ok_def approvals_ok_snoc run_granted_snoc keeps_def)
  next
    case (Passes m st1)
    with loop_stages_cases [OF s(1), where cfg = cfg and chans = chans and msg = msg] have m: "parse_button_press (tm_text m) = None"
      "tm_channel m = tm_channel msg" and d: "keeps ?s st1 \<or> approved_state msg ?s m st1" by simp_all
    obtain ph st2 where b: "begin_turn chans resolved m st1 = (ph, st2)" by fastforce
    from begin_turn_effect [OF b] obtain ru o2 sid where
      B: "ph = InTurn ru" "ru_msg ru = m" "runs_of st2 = runs_of st1 @ [Runs o2 sid m]"
      "ao_overrides o2 = ao_overrides (ls_opts st1)" "ao_tools o2 = ao_tools (ls_opts st1)"
      "ao_overrides (ls_opts st2) = ao_overrides (ls_opts st1)" "ao_tools (ls_opts st2) = ao_tools (ls_opts st1)"
      "ls_restore st2 = ls_restore st1" "ls_overrides_nil st2 = ls_overrides_nil st1" "ls_fm st2 = ls_fm st1" by blast
    have flows: "flow_active c st2 = flow_active c st1" for c using B(10) by (simp add: flow_active_def)
    from d have kept: "\<forall>c a. flow_active c st1 = Some (FlowApproval a) \<longrightarrow> flow_active c st = Some (FlowApproval a)"
      and r1: "runs_of st1 = runs_of st"
      by (auto simp: keeps_def approved_state_def s)
    have ap2: "approvals_ok (es @ [e]) st2"
    proof (rule approvals_ok_snoc)
      show "approvals_ok es st2"
        using s(1) kept unfolding approvals_ok_def flows s(3) by blast
    qed
    have "ao_tools (ls_opts st1) = ao_tools o1 \<and>
        ao_overrides (ls_opts (restore_override st2)) = ao_overrides o1 \<and> run_granted o1 (es @ [e]) (Runs o2 sid m)"
      using d
    proof
      assume k: "keeps ?s st1"
      with init B show ?thesis by (auto simp: keeps_def run_granted_def)
    next
      assume "approved_state msg ?s m st1"
      then obtain a where a: "flow_active (tm_channel msg) st = Some (FlowApproval a)" "from_user (tm_source msg)"
        "affirms (pta_prompt a) (tm_text msg)" and nil: "ls_overrides_nil st1 = ls_overrides_nil st"
        and r: "ls_restore st1 = Some (tm_channel msg, ao_overrides (ls_opts st) (tm_channel msg))"
        and o': "ls_opts st1 = ls_opts (set_override (tm_channel msg)
                   (Some (granted (ls_opts st) (tm_channel msg) (pta_denied a))) ?s)"
        by (auto simp: approved_state_def s(3))
      let ?g = "granted o1 (tm_channel msg) (pta_denied a)"
      have g: "granted (ls_opts st) (tm_channel msg) (pta_denied a) = ?g"
        by (rule granted_cong [OF init])
      have tools: "ao_tools (ls_opts st1) = ao_tools o1"
        using o' init by (auto simp: set_override_def)
      have ov: "ls_overrides_nil st2 \<Longrightarrow> ao_overrides (ls_opts st2) = ao_overrides o1"
        "\<not> ls_overrides_nil st2 \<Longrightarrow> ao_overrides (ls_opts st2) = (ao_overrides o1)(tm_channel msg := Some ?g)"
        using o' init nil g B(6,9) by (auto simp: set_override_def)
      have restored: "ao_overrides (ls_opts (restore_override st2)) = ao_overrides o1"
        using restore_undoes_grant [of st2 "tm_channel msg" "ao_overrides o1" o1 ?g] r B(7,8) tools ov init by simp
      from a(1) s(1) have "denied_before es (pta_denied a) (pta_prompt a)" by (auto simp: approvals_ok_def s(3))
      with a ev [OF a(1)] have "user_approved (es @ [e]) (tm_channel m) (pta_denied a)"
        unfolding user_approved_def m(2) by blast
      with ov B(4,5,6) tools m(2) have "run_granted o1 (es @ [e]) (Runs o2 sid m)"
        by (cases "ls_overrides_nil st2") (auto simp: run_granted_def)
      with tools restored show ?thesis by blast
    qed
    with Passes b B m r1 runs ap2 show ?thesis
      by (auto simp: handle_message_def loop_ok_def run_granted_snoc)
  qed
qed

lemma set_flow_approval:
  "flow_active d (put_flow c f st) = (if d = c then f else flow_active d st)"
  by (simp add: put_flow_def set_flow_def flow_active_def)

lemma put_approval_frame [simp]:
  "ls_opts (put_flow c f st) = ls_opts st" "ls_restore (put_flow c f st) = ls_restore st"
  "ls_overrides_nil (put_flow c f st) = ls_overrides_nil st" "runs_of (put_flow c f st) = runs_of st"
  by (simp_all add: put_flow_def runs_of_def)

text \<open>What a turn's result changes: it may open the approval of what was denied, nothing else.\<close>

lemma start_tool_approval_effect:
  "ls_opts (start_tool_approval c m ts s pid st) = ls_opts st \<and>
   ls_restore (start_tool_approval c m ts s pid st) = ls_restore st \<and>
   ls_overrides_nil (start_tool_approval c m ts s pid st) = ls_overrides_nil st \<and>
   runs_of (start_tool_approval c m ts s pid st) = runs_of st \<and>
   (\<forall>d a. flow_active d (start_tool_approval c m ts s pid st) = Some (FlowApproval a) \<longrightarrow>
      (d = c \<and> a = \<lparr>pta_original = m, pta_denied = ts, pta_session = s, pta_prompt = pid\<rparr>) \<or>
      flow_active d st = Some (FlowApproval a))"
  using flow_cancel_keeps [of st c]
  by (auto simp: start_tool_approval_def set_flow_approval keeps_def split: if_splits)

lemma record_turn_keeps: "keeps st (record_turn env ru session err st)"
proof -
  have 1: "keeps st (if b then log_out [Sends c NTurnFailed] st else st)" for b c by (auto intro!: keeps_emit)
  have 2: "keeps st (log_out [UpdatesSession c d]
      ((if b then log_out [Sends c NTurnFailed] st else st)\<lparr>ls_sessions := f\<rparr>))" for b c d f
    by (rule keeps_emit_after [OF keeps_trans [OF 1 keeps_sessions]]) simp
  show ?thesis
    unfolding record_turn_def Let_def by (simp add: 1 2)
qed

lemma auth_required_keeps:
  "keeps st (let st1 = start_auth c msg st
             in if \<not> live then st1
                else (case next_ok st1 of (True, st2) \<Rightarrow> log_out [Sends c NAuthPrompt] st2 | (False, st2) \<Rightarrow> flow_cancel c st2))"
proof -
  obtain b st2 where n: "next_ok (start_auth c msg st) = (b, st2)" by fastforce
  have k: "keeps st st2" by (rule keeps_trans [OF start_auth_keeps next_ok_keeps [OF n]])
  from n keeps_emit_after [OF k, of "[Sends c NAuthPrompt]"] keeps_trans [OF k flow_cancel_keeps] start_auth_keeps
  show ?thesis by (cases b) (auto simp: Let_def)
qed

lemma turn_result_cases:
  "keeps st (turn_result env ru session err st) \<or>
   (\<exists>ts s. err = Some (ToolsDenied ts s) \<and>
      (\<exists>es. turn_result env ru session err st =
         log_out es (start_tool_approval (tm_channel (ru_msg ru)) (ru_msg ru) ts s (te_prompt env) st) \<and>
         (\<forall>e \<in> set es. \<not> is_run e)))"
proof (cases "would_replace_open_prompt (ru_msg ru) err st")
  case True
  then show ?thesis by (auto simp: turn_result_def Let_def intro!: keeps_emit)
next
  case False
  then have t: "turn_result env ru session err st =
     (case err of
        Some AuthRequired \<Rightarrow>
          (let st1 = start_auth (tm_channel (ru_msg ru)) (ru_msg ru) st
           in if \<not> (map_of (te_chans env) (tm_channel (ru_msg ru)) \<noteq> None) then st1
              else (case next_ok st1 of
                      (True, st2) \<Rightarrow> log_out [Sends (tm_channel (ru_msg ru)) NAuthPrompt] st2
                    | (False, st2) \<Rightarrow> flow_cancel (tm_channel (ru_msg ru)) st2))
      | Some (ToolsDenied ts s) \<Rightarrow>
          (let st1 = start_tool_approval (tm_channel (ru_msg ru)) (ru_msg ru) ts s (te_prompt env) st
           in if map_of (te_chans env) (tm_channel (ru_msg ru)) \<noteq> None
              then log_out [Sends (tm_channel (ru_msg ru)) (NAskApproval ts (te_prompt env))] st1 else st1)
      | _ \<Rightarrow> record_turn env ru session err st)"
    by (simp only: turn_result_def Let_def if_False)
  show ?thesis
  proof (cases "\<exists>ts s. err = Some (ToolsDenied ts s)")
    case True
    then obtain ts s where e: "err = Some (ToolsDenied ts s)" by blast
    let ?st1 = "start_tool_approval (tm_channel (ru_msg ru)) (ru_msg ru) ts s (te_prompt env) st"
    have "?st1 = log_out [] ?st1" by (simp add: log_out_def)
    then have "\<exists>es. turn_result env ru session err st = log_out es ?st1 \<and> (\<forall>e \<in> set es. \<not> is_run e)"
      using t e by (cases "map_of (te_chans env) (tm_channel (ru_msg ru)) = None")
        (auto simp: Let_def intro: exI [of _ "[]"] exI [of _ "[Sends (tm_channel (ru_msg ru)) (NAskApproval ts (te_prompt env))]"])
    with e show ?thesis by blast
  next
    case False
    then have "keeps st (turn_result env ru session err st)"
      unfolding t
      using record_turn_keeps auth_required_keeps [of st "tm_channel (ru_msg ru)" "ru_msg ru"
          "map_of (te_chans env) (tm_channel (ru_msg ru)) \<noteq> None"]
      by (cases err) (auto simp del: not_None_eq split: turn_error.splits)
    then show ?thesis ..
  qed
qed

lemma restore_frame [simp]:
  "runs_of (restore_override st) = runs_of st" "flow_active c (restore_override st) = flow_active c st"
  "mirror_ok (restore_override st) = mirror_ok st" "ao_tools (ls_opts (restore_override st)) = ao_tools (ls_opts st)"
  by (auto simp: restore_override_def split: option.splits) (auto simp: set_override_def)

lemma close_turn_effect:
  assumes "close_turn env ru st = (ph, st1)"
  shows "(ph = Waiting \<or> ph = Exited ChannelChanged) \<and> keeps (restore_override st) st1"
proof -
  have e: "keeps (restore_override st)
      (log_out ((if te_shutdown env then [] else [ClearsInterrupted]) @
             live_name (te_chans env) (tm_channel (ru_msg ru)) TurnEnds @ [Closes (tm_channel (ru_msg ru))]) (restore_override st))"
    by (rule keeps_emit) (auto simp: live_name_def split: option.splits)
  from assms e keeps_emit_after [OF e] show ?thesis
    by (auto simp: close_turn_def Let_def split: if_splits)
qed

lemma close_turn_ok:
  assumes "approvals_ok es st" "ao_tools (ls_opts st) = ao_tools o1" "\<forall>e \<in> set (runs_of st). run_granted o1 es e"
    and "ao_overrides (ls_opts (restore_override st)) = ao_overrides o1"
  shows "loop_ok o1 es (close_turn env ru st)"
proof -
  obtain ph st1 where c: "close_turn env ru st = (ph, st1)" by fastforce
  from close_turn_effect [OF c] have ph: "ph = Waiting \<or> ph = Exited ChannelChanged"
    and k: "keeps (restore_override st) st1" by auto
  have "approvals_ok es (restore_override st)" using assms(1) by (simp add: approvals_ok_def)
  with k have "approvals_ok es st1" using approvals_ok_keeps by blast
  with c ph k assms show ?thesis by (auto simp: loop_ok_def keeps_def)
qed

lemma turn_returns_ok:
  assumes ok: "loop_ok o1 es (InTurn ru, st)"
  shows "loop_ok o1 (es @ [TurnReturns env session err]) (close_turn env ru (turn_result env ru session err st))"
proof -
  let ?st1 = "turn_result env ru session err st" and ?es = "es @ [TurnReturns env session err]"
  from ok have a: "approvals_ok es st" and t: "ao_tools (ls_opts st) = ao_tools o1"
    and r: "\<forall>e \<in> set (runs_of st). run_granted o1 es e"
    and ov: "ao_overrides (ls_opts (restore_override st)) = ao_overrides o1"
    and press: "parse_button_press (tm_text (ru_msg ru)) = None" by (auto simp: loop_ok_def)
  have "approvals_ok ?es ?st1 \<and> ls_opts ?st1 = ls_opts st \<and> ls_restore ?st1 = ls_restore st \<and>
      ls_overrides_nil ?st1 = ls_overrides_nil st \<and> runs_of ?st1 = runs_of st"
    using turn_result_cases [of st env ru session err]
  proof (elim disjE exE conjE)
    assume k: "keeps st ?st1"
    then show ?thesis using approvals_ok_snoc [OF approvals_ok_keeps [OF a k]] by (simp add: keeps_def)
  next
    fix ts s xs
    assume e: "err = Some (ToolsDenied ts s)" and xs: "\<forall>e \<in> set xs. \<not> is_run e"
      and st1: "?st1 = log_out xs (start_tool_approval (tm_channel (ru_msg ru)) (ru_msg ru) ts s (te_prompt env) st)"
    have d: "denied_before ?es ts (te_prompt env)"
      using e unfolding denied_before_def by auto
    let ?s2 = "start_tool_approval (tm_channel (ru_msg ru)) (ru_msg ru) ts s (te_prompt env) st"
    note eff = start_tool_approval_effect [of "tm_channel (ru_msg ru)" "ru_msg ru" ts s "te_prompt env" st]
    have a': "approvals_ok ?es st" using a by (rule approvals_ok_snoc)
    have "approvals_ok ?es ?s2"
      unfolding approvals_ok_def
    proof (intro allI impI)
      fix c b
      assume f: "flow_active c ?s2 = Some (FlowApproval b)"
      show "tm_channel (pta_original b) = c \<and> parse_button_press (tm_text (pta_original b)) = None \<and>
            denied_before ?es (pta_denied b) (pta_prompt b)"
      proof (cases "flow_active c st = Some (FlowApproval b)")
        case True
        with a' show ?thesis by (simp add: approvals_ok_def)
      next
        case False
        with eff f have "c = tm_channel (ru_msg ru) \<and>
            b = \<lparr>pta_original = ru_msg ru, pta_denied = ts, pta_session = s, pta_prompt = te_prompt env\<rparr>" by blast
        with press d show ?thesis by simp
      qed
    qed
    moreover have "approvals_ok ?es (log_out xs ?s2) = approvals_ok ?es ?s2" by (simp add: approvals_ok_def)
    ultimately show ?thesis
      using eff xs unfolding st1 by (auto simp: log_out_def runs_of_def filter_empty_conv)
  qed
  moreover from this have "ao_overrides (ls_opts (restore_override ?st1)) = ao_overrides o1"
    using ov by (auto simp: restore_override_def set_override_def split: option.splits)
  ultimately show ?thesis
    using t r run_granted_snoc by (intro close_turn_ok) auto
qed

lemma loop_ok_snoc: "loop_ok o1 es p \<Longrightarrow> loop_ok o1 (es @ xs) p"
  by (cases p) (auto simp: loop_ok_def approvals_ok_snoc run_granted_snoc)

lemma loop_ok_keeps:
  assumes "loop_ok o1 es (ph, st)" "keeps st st1"
  shows "loop_ok o1 es (ph, st1)"
proof -
  have "restore_override st1 = restore_override st1" ..
  have "ao_overrides (ls_opts (restore_override st1)) = ao_overrides (ls_opts (restore_override st))"
    using assms(2) by (auto simp: keeps_def restore_override_def set_override_def split: option.splits)
  with assms approvals_ok_keeps show ?thesis
    by (auto simp: loop_ok_def keeps_def split: phase.splits)
qed

lemma oauth_reports_keeps: "keeps st (oauth_reports c token st)"
  by (auto simp: oauth_reports_def intro!: keeps_update split: option.splits channel_flow.splits)

lemma mid_turn_effect:
  assumes "mid_turn new ru st = (ph, st1)"
  shows "(\<exists>ru1. ph = InTurn ru1 \<and> ru_msg ru1 = ru_msg ru) \<and> keeps st st1"
proof -
  have stop: "keeps st (log_out [CancelsTurn] (st\<lparr>ls_stopped := f\<rparr>))" for f
    by (rule keeps_emit_after) (simp_all add: keeps_def runs_of_def mirror_ok_def flow_active_def split: option.splits)
  from assms show ?thesis
    by (auto simp: mid_turn_def Let_def intro!: stop keeps_emit split: if_splits option.splits)
qed

lemma loop_step_ok:
  assumes "loop_ok o1 es p" "loop_step cfg e p = Some p1"
  shows "loop_ok o1 (es @ [e]) p1"
proof -
  obtain ph st where p: "p = (ph, st)" by fastforce
  have ok: "loop_ok o1 (es @ [e]) (ph, st)" using assms(1) p loop_ok_snoc by blast
  show ?thesis
  proof (cases e)
    case (Arrives chans resolved msg)
    with assms p show ?thesis by (cases ph) (auto intro!: handle_message_ok)
  next
    case (OAuthReports c token)
    with assms p ok show ?thesis by (auto intro: loop_ok_keeps oauth_reports_keeps)
  next
    case (OAuthNotified chans resolved c)
    show ?thesis
    proof (cases "has_auth_flow c st")
      case True
      then have "\<And>a. flow_active c st \<noteq> Some (FlowApproval a)" by (auto simp: has_auth_flow_def)
      with assms p OAuthNotified True show ?thesis
        by (cases ph) (auto intro!: handle_message_ok)
    next
      case False
      with assms p OAuthNotified ok show ?thesis by (cases ph) auto
    qed
  next
    case (MidTurn new)
    then obtain ru where ru: "ph = InTurn ru" "p1 = mid_turn new ru st" using assms(2) p by (cases ph) auto
    obtain ph1 st1 where m: "mid_turn new ru st = (ph1, st1)" by fastforce
    from mid_turn_effect [OF m] obtain ru1 where b: "ph1 = InTurn ru1" "keeps st st1" "ru_msg ru1 = ru_msg ru" by blast
    from loop_ok_keeps [OF ok b(2)] ru m b(1,3) show ?thesis by (simp add: loop_ok_def)
  next
    case (TurnReturns env session err)
    with assms p show ?thesis by (cases ph) (auto intro!: turn_returns_ok)
  next
    case (InputEnds env)
    with assms(2) p obtain ru where ru: "ph = InTurn ru" "p1 = close_turn env ru st" by (cases ph) auto
    have "loop_ok o1 (es @ [e]) (close_turn env ru st)"
      by (rule close_turn_ok) (use ok ru in \<open>auto simp: loop_ok_def\<close>)
    with ru show ?thesis by simp
  next
    case (Leaves x)
    with assms(2) p have "ph = Waiting" "p1 = (Exited x, st)" by (cases ph; auto)+
    with ok show ?thesis by (simp add: loop_ok_def)
  qed
qed

lemma loop_run_ok:
  "loop_ok o1 es p \<Longrightarrow> loop_run cfg fs p = Some p1 \<Longrightarrow> loop_ok o1 (es @ fs) p1"
proof (induction fs arbitrary: es p)
  case (Cons f fs)
  then obtain p2 where "loop_step cfg f p = Some p2" "loop_run cfg fs p2 = Some p1"
    by (auto simp: bind_eq_Some_conv)
  with Cons.IH [OF loop_step_ok [OF Cons.prems(1)]] show ?case by simp
qed simp

lemma loop_start_ok: "loop_ok o1 [] (loop_start o1 nil sessions io op)"
  by (simp add: loop_start_def loop_ok_def approvals_ok_def flow_active_def runs_of_def)


text \<open>
  C24. An approval lasts one turn. Whenever the loop waits for the next message or has ended, the
  override map is the configured one again, whatever was approved, stopped or failed before.
\<close>

theorem approval_lasts_one_turn:
  assumes "loop_run cfg es (loop_start o1 nil sessions io op) = Some (ph, st)"
    and "\<forall>ru. ph \<noteq> InTurn ru"
  shows "ao_overrides (ls_opts st) = ao_overrides o1"
  using loop_run_ok [OF loop_start_ok assms(1)] assms(2)
  by (auto simp: loop_ok_def split: phase.splits)

subsection \<open>The shared set of open prompts\<close>

lemma mirror_put: "mirror_ok st \<Longrightarrow> mirror_ok (put_flow c f st)"
  by (auto simp: mirror_ok_def put_flow_def set_flow_def flow_active_def split: option.splits)

lemma mirror_keeps: "keeps st st1 \<Longrightarrow> mirror_ok st \<Longrightarrow> mirror_ok st1"
  by (simp add: keeps_def)

lemma mirror_restore_field: "mirror_ok (st\<lparr>ls_restore := r\<rparr>) = mirror_ok st"
  by (simp add: mirror_ok_def flow_active_def split: option.splits)

lemma handle_message_mirror:
  assumes "approvals_ok es st" "mirror_ok st"
  shows "mirror_ok (snd (handle_message cfg chans resolved msg st))"
proof -
  let ?s = "st\<lparr>ls_restore := None\<rparr>"
  have s: "approvals_ok es ?s" "mirror_ok ?s"
    using assms by (simp_all add: approvals_ok_def flow_active_def mirror_restore_field)
  show ?thesis
  proof (cases "run_stages (loop_stages cfg chans) msg ?s")
    case (Ends st1)
    with loop_stages_cases [OF s(1), where cfg = cfg and chans = chans and msg = msg] s(2) show ?thesis
      by (auto simp: handle_message_def keeps_def)
  next
    case (Passes m st1)
    with loop_stages_cases [OF s(1), where cfg = cfg and chans = chans and msg = msg] s(2) have "mirror_ok st1"
      by (auto simp: keeps_def approved_state_def)
    moreover obtain ph st2 where b: "begin_turn chans resolved m st1 = (ph, st2)" by fastforce
    moreover from begin_turn_effect [OF b] have "ls_fm st2 = ls_fm st1" by blast
    ultimately show ?thesis using Passes
      by (simp add: handle_message_def mirror_ok_def flow_active_def split: option.splits)
  qed
qed

lemma turn_result_mirror:
  assumes "mirror_ok st"
  shows "mirror_ok (turn_result env ru session err st)"
  using turn_result_cases [of st env ru session err]
proof (elim disjE exE conjE)
  fix ts s es
  assume st1: "turn_result env ru session err st =
      log_out es (start_tool_approval (tm_channel (ru_msg ru)) (ru_msg ru) ts s (te_prompt env) st)"
  have "mirror_ok (start_tool_approval (tm_channel (ru_msg ru)) (ru_msg ru) ts s (te_prompt env) st)"
    unfolding start_tool_approval_def by (rule mirror_put [OF mirror_keeps [OF flow_cancel_keeps assms]])
  then show ?thesis unfolding st1 by (simp add: mirror_ok_def log_out_def flow_active_def split: option.splits)
qed (simp add: keeps_def assms)

lemma loop_step_mirror:
  assumes ok: "loop_ok o1 es (ph, st)" and m: "mirror_ok st" and s: "loop_step cfg e (ph, st) = Some p1"
  shows "mirror_ok (snd p1)"
proof -
  have a: "approvals_ok es st" using ok by (simp add: loop_ok_def)
  have close: "mirror_ok (snd (close_turn env ru st2))" if "mirror_ok st2" for env ru st2
  proof -
    obtain ph2 st3 where "close_turn env ru st2 = (ph2, st3)" by fastforce
    with close_turn_effect [OF this] that show ?thesis by (auto dest: mirror_keeps)
  qed
  show ?thesis
  proof (cases e)
    case (MidTurn new)
    with s obtain ru where "p1 = mid_turn new ru st" by (cases ph) auto
    moreover obtain ph1 st1 where "mid_turn new ru st = (ph1, st1)" by fastforce
    ultimately show ?thesis using mid_turn_effect [of new ru st ph1 st1] m by (auto simp: keeps_def)
  next
    case (OAuthReports c t)
    with s mirror_keeps [OF oauth_reports_keeps m, of c t] show ?thesis by auto
  qed (use s m in \<open>cases ph; auto intro!: handle_message_mirror [OF a m] close turn_result_mirror\<close>)+
qed

text \<open>
  The router sees the prompts the agent has open. Starting from an empty shared set, after
  every step the set holds exactly the channels with a flow, so a typed yes is refused as
  ambiguous only where one of the agent's own prompts really waits.
\<close>

theorem open_prompts_agree:
  assumes "loop_run cfg es (loop_start o1 nil sessions io (Some [])) = Some (ph, st)"
  shows "\<exists>op. fm_open (ls_fm st) = Some op \<and>
    (\<forall>c. open_prompts_is_open op c = (flow_active c st \<noteq> None))"
proof -
  have run: "mirror_ok (snd p1)"
    if "loop_run cfg fs p = Some p1" "loop_ok o1 gs p" "mirror_ok (snd p)" for fs gs p p1
    using that
  proof (induction fs arbitrary: gs p)
    case (Cons f fs)
    then obtain p2 where p2: "loop_step cfg f p = Some p2" "loop_run cfg fs p2 = Some p1"
      by (auto simp: bind_eq_Some_conv)
    obtain ph st where p: "p = (ph, st)" by fastforce
    from loop_step_mirror [of o1 gs ph st cfg f p2] Cons.prems p2(1) p have "mirror_ok (snd p2)" by simp
    with Cons.IH [OF p2(2) loop_step_ok [OF Cons.prems(2) p2(1)]] show ?case .
  qed simp
  have "mirror_ok (snd (loop_start o1 nil sessions io (Some [])))"
    by (simp add: loop_start_def mirror_ok_def flow_active_def open_prompts_is_open_def)
  from run [OF assms loop_start_ok this] show ?thesis
    by (auto simp: mirror_ok_def split: option.splits)
qed

subsection \<open>Rate limits\<close>

lemma run_turn_unfold:
  "run_turn handle cancelled session w =
     turn_attempts handle cancelled 0 (30 * second) session w"
  by (simp add: run_turn_def rate_limit_initial_delay_def)

lemma attempts_waits:
  assumes "turn_attempts handle cancelled n delay session w = (s, r, ds, w')" "n \<le> rate_limit_max_retries"
    and "\<And>t v. calls (snd (snd (handle t v))) = Suc (calls v)"
  shows "length ds \<le> rate_limit_max_retries - n \<and> (\<forall>i < length ds. ds ! i = delay * 2 ^ i) \<and>
    (r = Some RateLimited \<longrightarrow> length ds = rate_limit_max_retries - n) \<and>
    (\<forall>i < length ds. cancelled (n + i) \<longleftrightarrow> r = None \<and> Suc i = length ds) \<and> (r = None \<longrightarrow> ds \<noteq> []) \<and>
    calls w' = calls w + length ds + (if r = None then 0 else 1)"
  using assms
proof (induction handle cancelled n delay session w arbitrary: s r ds w' rule: turn_attempts.induct)
  case (1 handle cancelled n delay session w)
  obtain new o1 w1 where h: "handle session w = (new, o1, w1)" by (metis prod_cases3)
  have c1: "calls w1 = Suc (calls w)" using 1(4) [of session w] h by simp
  let ?s1 = "if new \<noteq> [] then new else session"
  show ?case
  proof (cases "o1 \<noteq> RateLimited \<or> rate_limit_max_retries \<le> n \<or> cancelled n")
    case True
    with 1(2,3) h c1 show ?thesis
      by (subst (asm) turn_attempts.simps) (auto simp: Let_def split: if_splits)
  next
    case False
    then have n: "Suc n \<le> rate_limit_max_retries" by auto
    obtain s' r' ds' w2 where t:
        "turn_attempts handle cancelled (Suc n) (delay * rate_limit_backoff_factor) ?s1 w1 = (s', r', ds', w2)"
      by (metis prod_cases4)
    from 1(2) h t False have e: "r = r'" "ds = delay # ds'" "w' = w2"
      by (subst (asm) turn_attempts.simps, simp)+
    from 1(1) [OF h [symmetric] refl refl _ _ t n 1(4)] False
    have IH: "length ds' \<le> rate_limit_max_retries - Suc n"
      "\<forall>i < length ds'. ds' ! i = delay * rate_limit_backoff_factor * 2 ^ i"
      "r' = Some RateLimited \<longrightarrow> length ds' = rate_limit_max_retries - Suc n"
      "\<forall>i < length ds'. cancelled (Suc n + i) \<longleftrightarrow> r' = None \<and> Suc i = length ds'" "r' = None \<longrightarrow> ds' \<noteq> []"
      "calls w2 = calls w1 + length ds' + (if r' = None then 0 else 1)"
      by auto
    have "\<forall>i < length ds. ds ! i = delay * 2 ^ i"
      using IH(2) by (auto simp: e nth_Cons rate_limit_backoff_factor_def split: nat.splits)
    moreover have "\<forall>i < length ds. cancelled (n + i) \<longleftrightarrow> r = None \<and> Suc i = length ds"
    proof (intro allI impI)
      fix i assume "i < length ds"
      with IH(4,5) False show "cancelled (n + i) \<longleftrightarrow> r = None \<and> Suc i = length ds"
        by (cases i) (auto simp: e)
    qed
    ultimately show ?thesis using IH(1,3,6) n c1 by (auto simp: e)
  qed
qed

text \<open>
  C25. A rate-limited turn ends. The handler is called at most four times, whatever it answers: once,
  and once more after every wait that was not cut short by a cancellation. The waits are 30, 60 and
  120 seconds, as far as they are needed; the rate limit is reported only after all of them; and a
  turn without a result is one that was cancelled during its last wait and in no earlier one.
  (\<open>calls\<close> is any count of the handler's calls kept in the world the handler works on.)
\<close>

theorem rate_limited_turn_ends:
  assumes "run_turn handle cancelled session w = (s, r, ds, w')"
    and "\<And>t v. calls (snd (snd (handle t v))) = Suc (calls v)"
  shows "calls w' \<le> calls w + 4 \<and> calls w' = calls w + length ds + (if r = None then 0 else 1) \<and>
    ds = take (length ds) [30 * second, 60 * second, 120 * second] \<and>
    (r = Some RateLimited \<longrightarrow> length ds = 3) \<and>
    (\<forall>i < length ds. cancelled i \<longleftrightarrow> r = None \<and> Suc i = length ds) \<and> (r = None \<longrightarrow> ds \<noteq> [])"
proof -
  from attempts_waits [where calls = calls, OF assms(1) [unfolded run_turn_unfold] _ assms(2)]
  have w: "length ds \<le> 3" "\<forall>i < length ds. ds ! i = 30 * second * 2 ^ i"
    "r = Some RateLimited \<longrightarrow> length ds = 3" "\<forall>i < length ds. cancelled i \<longleftrightarrow> r = None \<and> Suc i = length ds"
    "r = None \<longrightarrow> ds \<noteq> []" "calls w' = calls w + length ds + (if r = None then 0 else 1)"
    by (auto simp: rate_limit_max_retries_def)
  have "ds ! i = take (length ds) [30 * second, 60 * second, 120 * second] ! i" if "i < length ds" for i
  proof -
    from that w(1) have "i = 0 \<or> i = 1 \<or> i = 2" by auto
    with that w(2) show ?thesis by (auto simp: numeral_2_eq_2)
  qed
  with w(1) have "ds = take (length ds) [30 * second, 60 * second, 120 * second]"
    by (auto intro!: nth_equalityI)
  with w show ?thesis by simp
qed

definition limited_twice :: "(nat, nat) handler_attempt" where
  "limited_twice s n = (''s'', if n < 2 then RateLimited else Outcome n, Suc n)"

theorem rate_limited_turn_ends_witness:
  "\<exists>s r ds w'. run_turn limited_twice (\<lambda>_. False) [] 0 = (s, r, ds, w') \<and>
     length ds = 2 \<and> w' = 3 \<and> ds = take (length ds) [30 * second, 60 * second, 120 * second]"
proof -
  have e: "run_turn limited_twice (\<lambda>_. False) [] 0 = (''s'', Some (Outcome 2), [30 * second, 60 * second], 3)"
    by (simp add: run_turn_unfold turn_attempts.simps [of _ _ 0] turn_attempts.simps [of _ _ 1]
        turn_attempts.simps [of _ _ "Suc 0"] turn_attempts.simps [of _ _ "Suc (Suc 0)"] limited_twice_def
        rate_limit_max_retries_def rate_limit_backoff_factor_def Let_def)
  from rate_limited_turn_ends [OF e, where calls = id] e show ?thesis by (simp add: limited_twice_def)
qed

subsection \<open>Examples and limits\<close>

definition loop_chans :: channel_map where
  "loop_chans = [(''c1'', \<lparr>ch_id = ''c1'', ch_name = ''dev'', ch_type = ''telegram'', ch_prompter = True\<rparr>)]"

definition loop_cfg :: loop_config where
  "loop_cfg = \<lparr>lc_local = True, lc_has_prod = True, lc_secret_store = True\<rparr>"

definition user_says :: "string \<Rightarrow> tagged_message" where
  "user_says t = \<lparr>tm_channel = ''c1'', tm_text = t, tm_source = None\<rparr>"

definition schedule_says :: "string \<Rightarrow> tagged_message" where
  "schedule_says t = \<lparr>tm_channel = ''c1'', tm_text = t, tm_source = Some (no_source SourceSchedule)\<rparr>"

definition calm :: turn_env where
  "calm = \<lparr>te_chans = loop_chans, te_prompt = ''P1'', te_shutdown = False, te_changed = False\<rparr>"

definition denied_then_yes :: "loop_event list" where
  "denied_then_yes =
     [Arrives loop_chans None (user_says ''do it''),
      TurnReturns calm ''s1'' (Some (ToolsDenied [''Bash''] ''s1'')),
      Arrives loop_chans None (user_says ''yes'')]"

definition outcome :: "loop_event list \<Rightarrow> (phase \<times> loop_state) option" where
  "outcome es = loop_run loop_cfg es (loop_start sample_options False (\<lambda>_. None) [] (Some []))"




theorem approval_lasts_one_turn_witness:
  "\<exists>st. outcome (denied_then_yes @ [TurnReturns calm ''s1'' None]) = Some (Waiting, st) \<and>
     ao_overrides (ls_opts st) = ao_overrides sample_options"
proof -
  let ?es = "denied_then_yes @ [TurnReturns calm ''s1'' None]"
  have "(case outcome ?es of None \<Rightarrow> False | Some (ph, st) \<Rightarrow> (case ph of Waiting \<Rightarrow> True | _ \<Rightarrow> False))"
    by code_simp
  then obtain st where o1: "outcome ?es = Some (Waiting, st)"
    by (auto split: option.splits phase.splits)
  from approval_lasts_one_turn [OF o1 [unfolded outcome_def]] o1 show ?thesis by simp
qed

definition denied_then_idle :: "loop_event list" where
  "denied_then_idle =
     [Arrives loop_chans None (user_says ''do it''),
      TurnReturns calm ''s1'' (Some (ToolsDenied [''Bash''] ''s1'')), Leaves IdleTimeout]"

theorem open_prompts_agree_witness:
  "\<exists>ph st op. outcome denied_then_idle = Some (ph, st) \<and> fm_open (ls_fm st) = Some op \<and>
     open_prompts_is_open op ''c1'' = (flow_active ''c1'' st \<noteq> None)"
proof -
  have "outcome denied_then_idle \<noteq> None" by code_simp
  then obtain ph st where o1: "outcome denied_then_idle = Some (ph, st)" by auto
  from open_prompts_agree [OF o1 [unfolded outcome_def]] o1 show ?thesis by blast
qed

text \<open>
  The shared set outlives the loop. When the loop leaves with a prompt open, after ten idle
  minutes or a change of the channels, its successor has no flow but the set still marks the
  channel, and a typed yes there is refused as ambiguous for a prompt that is gone.
\<close>

lemma restart_leaves_prompt_marked:
  "\<exists>st. outcome denied_then_idle = Some (Exited IdleTimeout, st) \<and>
     (case loop_start sample_options False (\<lambda>_. None) [] (fm_open (ls_fm st)) of
        (ph, st1) \<Rightarrow> fm_open (ls_fm st1) = Some [''c1''] \<and> flow_active ''c1'' st1 = None)"
proof -
  have run: "(case outcome denied_then_idle of
           Some (Exited IdleTimeout, st) \<Rightarrow> fm_open (ls_fm st) = Some [''c1''] | _ \<Rightarrow> False)"
    by code_simp
  then obtain ph st where o1: "outcome denied_then_idle = Some (ph, st)"
    by (cases "outcome denied_then_idle") auto
  with run have "ph = Exited IdleTimeout" "fm_open (ls_fm st) = Some [''c1'']"
    by (cases ph; auto split: loop_exit.splits)+
  with o1 have "outcome denied_then_idle = Some (Exited IdleTimeout, st)" "fm_open (ls_fm st) = Some [''c1'']" by simp_all
  then show ?thesis by (simp add: loop_start_def flow_active_def)
qed

text \<open>
  A key the user enters is saved and the message that failed is retried, but with the options
  the loop had before: the new key reaches only the handler's copy.
\<close>

definition sample_key :: string where
  "sample_key = ''sk-ant-'' @ replicate 50 (CHR ''a'')"

definition key_entered :: "loop_event list" where
  "key_entered =
     [Arrives loop_chans None (user_says ''do it''), TurnReturns calm [] (Some AuthRequired),
      Arrives loop_chans None (user_says ''2''), Arrives loop_chans None (user_says sample_key),
      Arrives loop_chans None (user_says ''do it'')]"

lemma entered_key_unused:
  "(case outcome key_entered of
      None \<Rightarrow> False
    | Some (ph, st) \<Rightarrow>
        list_ex (\<lambda>e. case e of SavesApiKey k \<Rightarrow> k = sample_key | _ \<Rightarrow> False) (ls_out st) \<and>
        map (\<lambda>e. case e of Runs o2 s m \<Rightarrow> ao_api_key o2 | _ \<Rightarrow> []) (runs_of st) = [''sk'', ''sk''])"
  by code_simp

text \<open>
  A failed sign-in completes its flow, whose record still says that the process is running, so
  the turn the user's message opened is not closed.
\<close>

lemma failed_sign_in_leaves_turn_open:
  "(case outcome [Arrives loop_chans None (user_says ''do it''), TurnReturns calm [] (Some AuthRequired),
        Arrives loop_chans None (user_says ''1''), OAuthReports ''c1'' [], OAuthNotified loop_chans None ''c1''] of
      None \<Rightarrow> False
    | Some (ph, st) \<Rightarrow> flow_active ''c1'' st = None \<and>
        (case rev (ls_out st) of Sends c n # _ \<Rightarrow> c = ''c1'' | _ \<Rightarrow> False))"
  by code_simp

text \<open>
  A stop that arrives during a turn cancels it whoever sent it, on whatever channel, and although
  the channel is not allowed the command; between turns the same message is refused.
\<close>

lemma stop_during_turn_unchecked:
  "(case outcome [Arrives loop_chans None (user_says ''do it''),
                  MidTurn \<lparr>tm_channel = ''c9'', tm_text = ''stop'', tm_source = Some (no_source SourceSchedule)\<rparr>] of
      None \<Rightarrow> False
    | Some (ph, st) \<Rightarrow>
        (case ls_out st of xs \<Rightarrow> (case rev xs of CancelsTurn # _ \<Rightarrow> True | _ \<Rightarrow> False)) \<and>
        \<not> builtin_allowed st ''c9'' builtin_stop)"
  by code_simp

end
