(* ===== verification/RateLimit.thy ===== *)
theory RateLimit
  imports Prelude
begin

text \<open>
  The limiter in front of the HTTP server, \<open>oauth/ratelimit.go\<close>: a fixed window of one minute
  per client address, and the sweep that drops the windows that are over.

  The clock readings are part of the events. A window's counter is a natural number; the code's
  64-bit counter does not wrap within a minute.
\<close>

definition rate_limit_requests :: nat where "rate_limit_requests = 20"
definition rate_limit_window :: duration where "rate_limit_window = 1 * minute"
definition max_request_body_bytes :: nat where "max_request_body_bytes = 2 ^ 20"

record rate_entry =
  re_count :: nat
  re_window_start :: time

type_synonym limiter = "string \<rightharpoonup> rate_entry"

definition new_rate_limiter :: limiter where "new_rate_limiter = Map.empty"

definition window_over :: "time \<Rightarrow> rate_entry \<Rightarrow> bool" where
  "window_over now e = (time_sub now (re_window_start e) > rate_limit_window)"

definition rate_allow :: "string \<Rightarrow> time \<Rightarrow> limiter \<Rightarrow> bool \<times> limiter" where
  "rate_allow ip now rl =
     (case (case rl ip of Some e \<Rightarrow> if window_over now e then None else Some e | None \<Rightarrow> None) of
        None \<Rightarrow> (True, rl(ip \<mapsto> \<lparr>re_count = 1, re_window_start = now\<rparr>))
      | Some e \<Rightarrow>
          (let e' = e\<lparr>re_count := re_count e + 1\<rparr>
           in (re_count e' \<le> rate_limit_requests, rl(ip \<mapsto> e'))))"

definition rate_gc :: "time \<Rightarrow> limiter \<Rightarrow> limiter" where
  "rate_gc now rl =
     (\<lambda>ip. case rl ip of Some e \<Rightarrow> if window_over now e then None else Some e | None \<Rightarrow> None)"

text \<open>
  The middleware: \<open>remote\<close> is the connection's address and port, \<open>fly\<close> the value of the
  header \<open>Fly-Client-IP\<close>, empty when the request has none. \<open>Some n\<close> hands the request on with
  its body limited to \<open>n\<close> bytes; \<open>None\<close> answers 429.
\<close>

definition client_key :: "string \<Rightarrow> string \<Rightarrow> string" where
  "client_key remote fly = (let ip = remote in if fly \<noteq> [] then fly else ip)"

definition rate_middleware :: "string \<Rightarrow> string \<Rightarrow> time \<Rightarrow> limiter \<Rightarrow> nat option \<times> limiter" where
  "rate_middleware remote fly now rl =
     (case rate_allow (client_key remote fly) now rl of
        (False, rl') \<Rightarrow> (None, rl')
      | (True, rl') \<Rightarrow> (Some max_request_body_bytes, rl'))"

subsection \<open>Histories\<close>

datatype rate_event = Arrives string time | Sweeps time

fun rate_time :: "rate_event \<Rightarrow> time" where
  "rate_time (Arrives ip t) = t"
| "rate_time (Sweeps t) = t"

text \<open>The requests that were let through, in order.\<close>

fun rate_run :: "rate_event list \<Rightarrow> limiter \<Rightarrow> (string \<times> time) list" where
  "rate_run [] rl = []"
| "rate_run (Arrives ip t # es) rl =
     (case rate_allow ip t rl of
        (True, rl') \<Rightarrow> (ip, t) # rate_run es rl'
      | (False, rl') \<Rightarrow> rate_run es rl')"
| "rate_run (Sweeps t # es) rl = rate_run es (rate_gc t rl)"

fun clock_from :: "time \<Rightarrow> rate_event list \<Rightarrow> bool" where
  "clock_from t [] = True"
| "clock_from t (e # es) = (t \<le> rate_time e \<and> clock_from (rate_time e) es)"

fun is_arrival :: "rate_event \<Rightarrow> bool" where
  "is_arrival (Arrives ip t) = True"
| "is_arrival (Sweeps t) = False"

lemma clock_from_later: "clock_from t es \<Longrightarrow> s \<le> t \<Longrightarrow> clock_from s es"
  by (cases es) auto

lemma clock_from_arrivals: "clock_from t es \<Longrightarrow> clock_from t (filter is_arrival es)"
  by (induction es arbitrary: t) (auto intro: clock_from_later)

lemma window_over_iff: "window_over now e \<longleftrightarrow> now - re_window_start e > minute"
  by (auto simp: window_over_def rate_limit_window_def time_sub_def min_duration_def
      max_duration_def minute_def second_def)

lemma window_stays_over: "window_over s e \<Longrightarrow> s \<le> t \<Longrightarrow> window_over t e"
  by (simp add: window_over_iff)

subsection \<open>The sweep cannot be observed\<close>

text \<open>
  \<open>swept t rl\<close> is what matters of the limiter from time \<open>t\<close> on; \<open>rate_allow\<close> looks at nothing
  else.
\<close>

abbreviation swept :: "time \<Rightarrow> limiter \<Rightarrow> limiter" where
  "swept t rl \<equiv> rate_gc t rl"

lemma swept_swept: "s \<le> t \<Longrightarrow> swept t (rate_gc s rl) = swept t rl"
  by (auto simp: rate_gc_def fun_eq_iff split: option.splits dest: window_stays_over)

lemma swept_later: "swept s rl = swept s rl' \<Longrightarrow> s \<le> t \<Longrightarrow> swept t rl = swept t rl'"
  by (metis swept_swept)

lemma rate_allow_swept:
  assumes "swept t rl = swept t rl'"
  shows "fst (rate_allow ip t rl) = fst (rate_allow ip t rl') \<and>
         swept t (snd (rate_allow ip t rl)) = swept t (snd (rate_allow ip t rl'))"
proof -
  have live: "(case rl ip of Some e \<Rightarrow> if window_over t e then None else Some e | None \<Rightarrow> None) =
      (case rl' ip of Some e \<Rightarrow> if window_over t e then None else Some e | None \<Rightarrow> None)"
    using fun_cong [OF assms, of ip] by (simp add: rate_gc_def)
  have upd: "swept t (rl(ip \<mapsto> e)) = swept t (rl'(ip \<mapsto> e))" for e
    using assms by (auto simp: rate_gc_def fun_eq_iff)
  show ?thesis
    unfolding rate_allow_def live using upd by (auto simp: Let_def split: option.splits)
qed

lemma rate_run_swept:
  "clock_from t es \<Longrightarrow> swept t rl = swept t rl' \<Longrightarrow>
     rate_run es rl = rate_run (filter is_arrival es) rl'"
proof (induction es arbitrary: t rl rl')
  case Nil
  then show ?case by simp
next
  case (Cons e es)
  note eq = swept_later [OF Cons.prems(2)]
  show ?case
  proof (cases e)
    case (Arrives ip s)
    with Cons.prems have "clock_from s es" "swept s rl = swept s rl'" by (auto intro: eq)
    note same = rate_allow_swept [OF this(2), of ip]
    have "rate_run es (snd (rate_allow ip s rl)) =
          rate_run (filter is_arrival es) (snd (rate_allow ip s rl'))"
      using same \<open>clock_from s es\<close> by (intro Cons.IH [of s]) auto
    with same show ?thesis
      by (cases "rate_allow ip s rl"; cases "rate_allow ip s rl'") (simp add: Arrives split: bool.splits)
  next
    case (Sweeps s)
    with Cons.prems have "clock_from s es" "swept s (rate_gc s rl) = swept s rl'"
      by (auto simp: swept_swept intro: eq)
    with Cons.IH [of s] show ?thesis by (simp add: Sweeps)
  qed
qed

text \<open>
  C21. Purging the limiter is invisible. Whatever the order of requests and sweeps under a clock
  that does not run backwards, exactly the same requests are let through as if the limiter had
  never been swept.
\<close>

theorem sweep_lets_nothing_more_through:
  assumes "clock_from t es"
  shows "rate_run es rl = rate_run (filter is_arrival es) rl"
  using rate_run_swept [OF assms refl] .

theorem sweep_lets_nothing_more_through_witness:
  "rate_run [Arrives ''a'' 0, Sweeps (2 * minute), Arrives ''a'' (2 * minute)] new_rate_limiter =
   rate_run [Arrives ''a'' 0, Arrives ''a'' (2 * minute)] new_rate_limiter"
  using sweep_lets_nothing_more_through
    [of 0 "[Arrives ''a'' 0, Sweeps (2 * minute), Arrives ''a'' (2 * minute)]" new_rate_limiter]
  by (simp add: minute_def second_def)

subsection \<open>How much one client gets\<close>

definition let_in :: "string \<Rightarrow> time \<Rightarrow> rate_event list \<Rightarrow> limiter \<Rightarrow> nat" where
  "let_in ip t es rl = length (filter (\<lambda>(a, s). a = ip \<and> t \<le> s \<and> s \<le> t + minute) (rate_run es rl))"

definition counting :: "limiter \<Rightarrow> bool" where
  "counting rl \<longleftrightarrow> (\<forall>ip e. rl ip = Some e \<longrightarrow> 1 \<le> re_count e)"

text \<open>
  What the client can still get between \<open>t\<close> and a minute later when the clock shows \<open>c\<close>: before
  \<open>t\<close>, the rest of one window and a full one.
\<close>

definition allowance :: "time \<Rightarrow> time \<Rightarrow> rate_entry option \<Rightarrow> nat" where
  "allowance t c me =
     (if c < t then 39
      else if t + minute < c then 0
      else case me of
             None \<Rightarrow> 20
           | Some e \<Rightarrow> if re_window_start e < t then (20 - re_count e) + 20 else 20 - re_count e)"

lemma counting_gc: "counting rl \<Longrightarrow> counting (rate_gc t rl)"
  by (auto simp: counting_def rate_gc_def split: option.splits if_splits)

lemma counting_allow: "counting rl \<Longrightarrow> counting (snd (rate_allow ip t rl))"
  by (auto simp: counting_def rate_allow_def Let_def split: option.splits if_splits)

lemma allow_other: "ip \<noteq> a \<Longrightarrow> snd (rate_allow a t rl) ip = rl ip"
  by (auto simp: rate_allow_def Let_def split: option.splits)

lemma allowance_later:
  assumes "counting rl" and "c \<le> d"
  shows "allowance t d (rl ip) \<le> allowance t c (rl ip)"
proof -
  have "1 \<le> re_count e" if "rl ip = Some e" for e
    using assms that by (auto simp: counting_def)
  with assms(2) show ?thesis by (fastforce simp: allowance_def split: option.splits)
qed

lemma allowance_spent:
  assumes "counting rl" and "c \<le> s"
  shows "allowance t s (snd (rate_allow ip s rl) ip) +
           (if fst (rate_allow ip s rl) \<and> t \<le> s \<and> s \<le> t + minute then 1 else 0)
         \<le> allowance t c (rl ip)"
proof (cases "rl ip")
  case None
  with assms(2) show ?thesis by (auto simp: rate_allow_def allowance_def)
next
  case (Some e)
  with assms have pos: "1 \<le> re_count e" by (auto simp: counting_def)
  show ?thesis
  proof (cases "window_over s e")
    case True
    with Some pos assms(2) show ?thesis
      by (auto simp: rate_allow_def allowance_def window_over_iff)
  next
    case False
    with Some pos assms(2) show ?thesis
      by (auto simp: rate_allow_def allowance_def Let_def rate_limit_requests_def)
  qed
qed

lemma let_in_Arrives:
  "let_in ip t (Arrives a s # es) rl =
     let_in ip t es (snd (rate_allow a s rl)) +
     (if fst (rate_allow a s rl) \<and> a = ip \<and> t \<le> s \<and> s \<le> t + minute then 1 else 0)"
  by (simp add: let_in_def split: prod.splits bool.splits)

lemma let_in_Sweeps: "let_in ip t (Sweeps s # es) rl = let_in ip t es (rate_gc s rl)"
  by (simp add: let_in_def)

lemma let_in_arrivals: "clock_from c es \<Longrightarrow> let_in ip t es rl = let_in ip t (filter is_arrival es) rl"
  unfolding let_in_def using rate_run_swept [of c es rl rl] by simp

lemma let_in_allowance:
  "clock_from c es \<Longrightarrow> \<forall>e \<in> set es. is_arrival e \<Longrightarrow> counting rl \<Longrightarrow>
     let_in ip t es rl \<le> allowance t c (rl ip)"
proof (induction es arbitrary: c rl)
  case Nil
  then show ?case by (simp add: let_in_def)
next
  case (Cons e es)
  then obtain a s where e: "e = Arrives a s" by (cases e) auto
  let ?rl = "snd (rate_allow a s rl)"
  have c: "c \<le> s" "clock_from s es" using Cons.prems by (auto simp: e)
  have rest: "let_in ip t es ?rl \<le> allowance t s (?rl ip)"
    using Cons.IH [OF c(2)] Cons.prems counting_allow by auto
  show ?case
  proof (cases "a = ip")
    case True
    with rest allowance_spent [OF Cons.prems(3) c(1), of t ip] show ?thesis
      by (simp add: e let_in_Arrives)
  next
    case False
    with rest allow_other [of ip a s rl] allowance_later [OF Cons.prems(3) c(1), of t ip] show ?thesis
      by (simp add: e let_in_Arrives)
  qed
qed

text \<open>
  C20. No minute lets more than 39 requests of a client through. Whatever the order of requests and
  sweeps since the limiter was created, under a clock that does not run backwards, at most 39
  requests of one client address pass within any period of a minute: one window's last 19 and
  the next one's 20.
\<close>

theorem minute_lets_through_at_most_39:
  assumes "clock_from c es"
  shows "let_in ip t es new_rate_limiter \<le> 39"
proof -
  let ?es = "filter is_arrival es"
  have "let_in ip t ?es new_rate_limiter \<le> allowance t c (new_rate_limiter ip)"
    using clock_from_arrivals [OF assms] by (intro let_in_allowance) (auto simp: counting_def new_rate_limiter_def)
  also have "\<dots> \<le> 39" by (simp add: allowance_def new_rate_limiter_def)
  finally show ?thesis using let_in_arrivals [OF assms] by simp
qed

text \<open>The bound is reached: the window of a first request, its last 19 at its end, and 20 more.\<close>

definition burst :: "rate_event list" where
  "burst = Arrives ''a'' 0 # replicate 25 (Arrives ''a'' minute) @ replicate 25 (Arrives ''a'' (minute + 1))"

theorem minute_lets_through_at_most_39_witness:
  "let_in ''a'' 1 burst new_rate_limiter \<le> 39 \<and> let_in ''a'' 1 burst new_rate_limiter = 39"
proof
  have "clock_from 0 burst" by code_simp
  then show "let_in ''a'' 1 burst new_rate_limiter \<le> 39" by (rule minute_lets_through_at_most_39)
  show "let_in ''a'' 1 burst new_rate_limiter = 39" by code_simp
qed

text \<open>
  Without the proxy's header the key is the connection's address with its port, so that a host
  that opens a new connection for every request has a window for each.
\<close>

lemma other_port_is_other_client:
  "client_key ''203.0.113.7:40001'' [] \<noteq> client_key ''203.0.113.7:40002'' []"
  by (simp add: client_key_def)

lemma fresh_ports_are_never_limited:
  assumes "\<And>r. r \<in> set remotes \<Longrightarrow> rl r = None" and "distinct remotes"
  shows "map fst (rate_run (map (\<lambda>r. Arrives (client_key r []) now) remotes) rl) = remotes"
  using assms
proof (induction remotes arbitrary: rl)
  case Nil
  then show ?case by simp
next
  case (Cons r rs)
  have "snd (rate_allow r now rl) x = None" if "x \<in> set rs" for x
    using Cons.prems that allow_other [of x r now rl] by auto
  with Cons.IH Cons.prems show ?case
    by (auto simp: client_key_def rate_allow_def)
qed

end
