(* ===== verification/SecretForm.thy ===== *)
theory SecretForm
  imports Credentials
begin

text \<open>
  The forms on which a user enters secrets, \<open>tool/secretform\<close>: the tool that creates a form
  (\<open>request.go\<close>, \<open>secretform.go\<close>), the page that serves and accepts it (\<open>http.go\<close>), the tool
  that waits for it (\<open>wait.go\<close>), and the resolution of a credential slot (\<open>tool/all/all.go\<close>).

  Decoding of the tool's arguments, rendering, and random bytes are the library's: an argument
  record, no page text, and the drawn values as arguments. A typed value is kept as
  \<open>PlainText\<close>, whatever it would parse as.
\<close>

subsection \<open>Fields and their destinations\<close>

definition request_ttl :: duration where "request_ttl = 10 * minute"
definition max_fields :: nat where "max_fields = 20"
definition max_key_len :: nat where "max_key_len = 128"
definition max_label_len :: nat where "max_label_len = 256"
definition max_desc_len :: nat where "max_desc_len = 1024"
definition max_title_len :: nat where "max_title_len = 256"
definition max_wait_per_call :: duration where "max_wait_per_call = 45 * second"

record credential_target =
  ct_type :: string
  ct_label :: string
  ct_field :: string

record form_field =
  ff_key :: string
  ff_credential :: "credential_target option"
  ff_label :: string
  ff_description :: string
  ff_secret :: "bool option"
  ff_required :: "bool option"
  ff_store_key :: string
  ff_input_name :: string
  ff_already_set :: bool

definition is_secret :: "form_field \<Rightarrow> bool" where
  "is_secret f = (case ff_secret f of None \<Rightarrow> True | Some b \<Rightarrow> b)"

definition is_required :: "form_field \<Rightarrow> bool" where
  "is_required f = (case ff_required f of None \<Rightarrow> True | Some b \<Rightarrow> b)"

datatype form_error =
    KeyRequired nat | KeyTooLong nat | KeyInvalid nat string | KeyReserved nat string
  | KeyAndCredential nat | NoCredentialSystem nat | TargetIncomplete nat
  | SlotUnavailable nat cred_error | SlotUndeclared nat credential_set_id | CheckExisting nat secret_error
  | TitleRequired | TitleTooLong | DescriptionTooLong | NoFields | TooManyFields
  | LabelRequired nat | LabelTooLong nat | FieldDescriptionTooLong nat
  | NoServer | NoRandom

definition key_char :: "char \<Rightarrow> bool" where
  "key_char c = (c \<in> set ''abcdefghijklmnopqrstuvwxyz0123456789_'')"

definition key_pattern :: "string \<Rightarrow> bool" where
  "key_pattern k = (k \<noteq> [] \<and> list_all key_char k)"

definition reserved_keys :: "string list" where
  "reserved_keys = [''anthropic_api_key'', ''claude_setup_token'']"

definition validate_key :: "string \<Rightarrow> nat \<Rightarrow> form_error option" where
  "validate_key key idx =
     (if key = [] then Some (KeyRequired idx)
      else if length key > max_key_len then Some (KeyTooLong idx)
      else if \<not> key_pattern key then Some (KeyInvalid idx key)
      else if key \<in> set reserved_keys then Some (KeyReserved idx key)
      else None)"

text \<open>The resolver the tool registry hands to the forms.\<close>

definition resolve_slot_field ::
  "nat \<Rightarrow> credential_target \<Rightarrow> cred_world \<Rightarrow> (form_error + string) \<times> cred_world" where
  "resolve_slot_field idx target w =
     (let i = new_credential_set_id (ct_type target) (ct_label target)
      in case cred_get i w of
           (Inl e, w1) \<Rightarrow> (Inl (SlotUnavailable idx e), w1)
         | (Inr None, w1) \<Rightarrow> (Inl (SlotUndeclared idx i), w1)
         | (Inr (Some _), w1) \<Rightarrow> (Inr (field_key i (ct_field target)), w1))"

definition credential_input_name :: "credential_target \<Rightarrow> string" where
  "credential_input_name t = ''cred_'' @ ct_type t @ ''_'' @ ct_label t @ ''_'' @ ct_field t"

text \<open>The last step of \<open>resolveTarget\<close>: is something stored there already?\<close>

definition note_existing :: "nat \<Rightarrow> form_field \<Rightarrow> cred_world \<Rightarrow> (form_error + form_field) \<times> cred_world" where
  "note_existing idx f w =
     (case secret_get (ff_store_key f) (cd_secrets w) of
        (Inl e, s) \<Rightarrow> (Inl (CheckExisting idx e), w\<lparr>cd_secrets := s\<rparr>)
      | (Inr v, s) \<Rightarrow> (Inr (f\<lparr>ff_already_set := (v \<noteq> PlainText [])\<rparr>), w\<lparr>cd_secrets := s\<rparr>))"

definition resolve_target ::
  "bool \<Rightarrow> form_field \<Rightarrow> nat \<Rightarrow> cred_world \<Rightarrow> (form_error + form_field) \<times> cred_world" where
  "resolve_target wired f idx w =
     (case ff_credential f of
        Some target \<Rightarrow>
          if ff_key f \<noteq> [] then (Inl (KeyAndCredential idx), w)
          else if \<not> wired then (Inl (NoCredentialSystem idx), w)
          else if ct_type target = [] \<or> ct_label target = [] \<or> ct_field target = []
          then (Inl (TargetIncomplete idx), w)
          else (case resolve_slot_field idx target w of
                  (Inl e, w1) \<Rightarrow> (Inl e, w1)
                | (Inr key, w1) \<Rightarrow>
                    note_existing idx
                      (f\<lparr>ff_store_key := key, ff_input_name := credential_input_name target\<rparr>) w1)
      | None \<Rightarrow>
          (case validate_key (ff_key f) idx of
             Some e \<Rightarrow> (Inl e, w)
           | None \<Rightarrow> note_existing idx (f\<lparr>ff_store_key := ff_key f, ff_input_name := ff_key f\<rparr>) w))"

fun resolve_fields ::
  "bool \<Rightarrow> nat \<Rightarrow> form_field list \<Rightarrow> cred_world \<Rightarrow> (form_error + form_field list) \<times> cred_world" where
  "resolve_fields wired i [] w = (Inr [], w)"
| "resolve_fields wired i (f # fs) w =
     (if ff_label f = [] then (Inl (LabelRequired i), w)
      else if length (ff_label f) > max_label_len then (Inl (LabelTooLong i), w)
      else if length (ff_description f) > max_desc_len then (Inl (FieldDescriptionTooLong i), w)
      else case resolve_target wired f i w of
             (Inl e, w1) \<Rightarrow> (Inl e, w1)
           | (Inr r, w1) \<Rightarrow>
               (case resolve_fields wired (Suc i) fs w1 of
                  (Inl e, w2) \<Rightarrow> (Inl e, w2)
                | (Inr rs, w2) \<Rightarrow> (Inr (r # rs), w2)))"

subsection \<open>Requesting a form\<close>

record pending_form =
  pf_id :: string
  pf_title :: string
  pf_description :: string
  pf_fields :: "form_field list"
  pf_created :: time
  pf_code :: string
  pf_done :: bool

record form_world =
  fw_pending :: "string \<rightharpoonup> pending_form"
  fw_cred :: cred_world
  fw_panicked :: bool

record form_request_args =
  fa_title :: string
  fa_description :: string
  fa_fields :: "form_field list"

record form_ticket =
  tk_request_id :: string
  tk_url :: string
  tk_code :: string

text \<open>\<open>wired\<close>: the credential system is there; \<open>rid\<close>, \<open>code\<close>: the random id and code, if drawn.\<close>

definition form_request ::
  "bool \<Rightarrow> string \<Rightarrow> string option \<Rightarrow> string option \<Rightarrow> time \<Rightarrow> form_request_args \<Rightarrow> form_world
     \<Rightarrow> (form_error + form_ticket) \<times> form_world" where
  "form_request wired base rid code now a w =
     (if fa_title a = [] then (Inl TitleRequired, w)
      else if length (fa_title a) > max_title_len then (Inl TitleTooLong, w)
      else if length (fa_description a) > max_desc_len then (Inl DescriptionTooLong, w)
      else if length (fa_fields a) = 0 then (Inl NoFields, w)
      else if length (fa_fields a) > max_fields then (Inl TooManyFields, w)
      else case resolve_fields wired 0 (fa_fields a) (fw_cred w) of
             (Inl e, c) \<Rightarrow> (Inl e, w\<lparr>fw_cred := c\<rparr>)
           | (Inr resolved, c) \<Rightarrow>
               if base = [] then (Inl NoServer, w\<lparr>fw_cred := c\<rparr>)
               else (case (rid, code) of
                       (Some i, Some k) \<Rightarrow>
                         (Inr \<lparr>tk_request_id = i, tk_url = base @ ''/secret-form/'' @ i, tk_code = k\<rparr>,
                          w\<lparr>fw_cred := c, fw_pending := (fw_pending w)(i \<mapsto>
                            \<lparr>pf_id = i, pf_title = fa_title a, pf_description = fa_description a,
                             pf_fields = resolved, pf_created = now, pf_code = k, pf_done = False\<rparr>)\<rparr>)
                     | _ \<Rightarrow> (Inl NoRandom, w\<lparr>fw_cred := c\<rparr>)))"

subsection \<open>Serving it\<close>

datatype form_method = GetForm | PostForm "(string \<Rightarrow> string) option" | OtherMethod

datatype form_reply =
    NotFoundPage | FormPage pending_form | BadFormData | WrongCode | FieldMissing string
  | StoreFailed | FormAccepted | MethodNotAllowed

fun missing_field :: "(string \<Rightarrow> string) \<Rightarrow> form_field list \<Rightarrow> form_field option" where
  "missing_field vals [] = None"
| "missing_field vals (f # fs) =
     (if is_required f \<and> trim_space (vals (ff_input_name f)) = [] then Some f
      else missing_field vals fs)"

fun store_fields :: "(string \<Rightarrow> string) \<Rightarrow> form_field list \<Rightarrow> secrets \<Rightarrow> secret_error option \<times> secrets" where
  "store_fields vals [] s = (None, s)"
| "store_fields vals (f # fs) s =
     (if vals (ff_input_name f) = [] then store_fields vals fs s
      else case secret_set (ff_store_key f) (PlainText (vals (ff_input_name f))) s of
             (Some e, s1) \<Rightarrow> (Some e, s1)
           | (None, s1) \<Rightarrow> store_fields vals fs s1)"

definition form_secrets :: "form_world \<Rightarrow> secrets" where
  "form_secrets w = cd_secrets (fw_cred w)"

definition with_secrets :: "secrets \<Rightarrow> form_world \<Rightarrow> form_world" where
  "with_secrets s w = w\<lparr>fw_cred := (fw_cred w)\<lparr>cd_secrets := s\<rparr>\<rparr>"

text \<open>
  \<open>close(req.Done)\<close>. The request is shared through its pointer, so the map's entry is what is
  marked; closing twice panics.
\<close>

definition close_form :: "string \<Rightarrow> pending_form \<Rightarrow> form_world \<Rightarrow> form_world" where
  "close_form state f w =
     (case fw_pending w state of
        Some g \<Rightarrow>
          if pf_done g then w\<lparr>fw_panicked := True\<rparr>
          else w\<lparr>fw_pending := (fw_pending w)(state \<mapsto> g\<lparr>pf_done := True\<rparr>)\<rparr>
      | None \<Rightarrow> w)"

definition handle_form_post ::
  "string \<Rightarrow> pending_form \<Rightarrow> (string \<Rightarrow> string) option \<Rightarrow> form_world \<Rightarrow> form_reply \<times> form_world" where
  "handle_form_post state f post w =
     (case post of
        None \<Rightarrow> (BadFormData, w)
      | Some vals \<Rightarrow>
          if trim_space (vals ''_verify_code'') \<noteq> pf_code f then (WrongCode, w)
          else (case missing_field vals (pf_fields f) of
                  Some g \<Rightarrow> (FieldMissing (ff_label g), w)
                | None \<Rightarrow>
                    (case store_fields vals (pf_fields f) (form_secrets w) of
                       (Some e, s) \<Rightarrow> (StoreFailed, with_secrets s w)
                     | (None, s) \<Rightarrow> (FormAccepted, close_form state f (with_secrets s w)))))"

definition form_http :: "time \<Rightarrow> string \<Rightarrow> form_method \<Rightarrow> form_world \<Rightarrow> form_reply \<times> form_world" where
  "form_http now path m w =
     (let state = trim_prefix path ''/secret-form/''
      in if state = [] \<or> state = path then (NotFoundPage, w)
         else case fw_pending w state of
                None \<Rightarrow> (NotFoundPage, w)
              | Some f \<Rightarrow>
                  if time_sub now (pf_created f) > request_ttl
                  then (NotFoundPage, w\<lparr>fw_pending := (fw_pending w)(state := None)\<rparr>)
                  else if pf_done f then (NotFoundPage, w)
                  else (case m of
                          GetForm \<Rightarrow> (FormPage f, w)
                        | PostForm post \<Rightarrow> handle_form_post state f post w
                        | OtherMethod \<Rightarrow> (MethodNotAllowed, w)))"

subsection \<open>Waiting for it\<close>

datatype wait_error = RequestIdRequired | UnknownRequest string | WaitCancelled
datatype wait_result = Submitted "string list" | StillWaiting string | TimedOut

definition submitted_keys :: "pending_form \<Rightarrow> string list" where
  "submitted_keys f = map ff_key (pf_fields f)"

text \<open>
  What ends the wait: the call is cancelled, the form is submitted, or the window elapses, with
  \<open>True\<close> when the form was submitted as the timer fired.
\<close>

datatype wait_end = CallCancelled | DoneClosed | WindowElapsed bool

definition form_wait ::
  "string \<Rightarrow> time \<Rightarrow> wait_end \<Rightarrow> form_world \<Rightarrow> wait_error + wait_result" where
  "form_wait rid now ending w =
     (if rid = [] then Inl RequestIdRequired
      else case fw_pending w rid of
             None \<Rightarrow> Inl (UnknownRequest rid)
           | Some f \<Rightarrow>
               if pf_done f then Inr (Submitted (submitted_keys f))
               else (let remaining = request_ttl - time_sub now (pf_created f)
                     in if remaining \<le> 0 then Inr TimedOut
                        else (let wait_for = (if max_wait_per_call > remaining then remaining else max_wait_per_call)
                              in case ending of
                                   CallCancelled \<Rightarrow> Inl WaitCancelled
                                 | DoneClosed \<Rightarrow> Inr (Submitted (submitted_keys f))
                                 | WindowElapsed submitted \<Rightarrow>
                                     if submitted then Inr (Submitted (submitted_keys f))
                                     else if wait_for < max_wait_per_call then Inr TimedOut
                                     else Inr (StillWaiting rid))))"

subsection \<open>What a form may store\<close>

lemma form_secrets_simps [simp]:
  "form_secrets (with_secrets s w) = s"
  "form_secrets (close_form state f w) = form_secrets w"
  "form_secrets (w\<lparr>fw_pending := p\<rparr>) = form_secrets w"
  by (auto simp: form_secrets_def with_secrets_def close_form_def split: option.splits)

lemma missing_field_None:
  "missing_field vals fs = None \<Longrightarrow> g \<in> set fs \<Longrightarrow> is_required g \<Longrightarrow> trim_space (vals (ff_input_name g)) \<noteq> []"
  by (induction fs) (auto split: if_splits)

lemma trim_prefix_changed: "trim_prefix s p \<noteq> s \<Longrightarrow> s = p @ trim_prefix s p"
  by (auto simp: trim_prefix_def has_prefix_iff split: if_splits)

text \<open>
  C6. Nothing is stored without the code. If a request to the form page changes any secret, it is
  a submission of a form that was requested, is at most ten minutes old and has not been
  accepted; it carries the form's verification code; every required field is filled with more
  than spaces; and all that changed is that the submitted non-empty values were written, in the
  order of the fields, to the places resolved when the form was requested.
\<close>

theorem form_stores_only_verified_submissions:
  assumes "form_http now path m w = (reply, w')" and "form_secrets w' \<noteq> form_secrets w"
  shows "\<exists>state f vals.
           path = ''/secret-form/'' @ state \<and> fw_pending w state = Some f \<and>
           now - pf_created f \<le> request_ttl \<and> \<not> pf_done f \<and> m = PostForm (Some vals) \<and>
           trim_space (vals ''_verify_code'') = pf_code f \<and>
           (\<forall>g. g \<in> set (pf_fields f) \<longrightarrow> is_required g \<longrightarrow> trim_space (vals (ff_input_name g)) \<noteq> []) \<and>
           form_secrets w' = snd (store_fields vals (pf_fields f) (form_secrets w))"
proof -
  let ?state = "trim_prefix path ''/secret-form/''"
  from assms obtain f vals where f: "fw_pending w ?state = Some f" "\<not> pf_done f" "m = PostForm (Some vals)"
    and t: "\<not> time_sub now (pf_created f) > request_ttl" and path: "?state \<noteq> path"
    and p: "handle_form_post ?state f (Some vals) w = (reply, w')"
    by (auto simp: form_http_def handle_form_post_def Let_def split: if_splits option.splits form_method.splits)
  from p assms(2) have "trim_space (vals ''_verify_code'') = pf_code f" "missing_field vals (pf_fields f) = None"
    and "form_secrets w' = snd (store_fields vals (pf_fields f) (form_secrets w))"
    by (auto simp: handle_form_post_def split: if_splits option.splits prod.splits)
  moreover from t have "now - pf_created f \<le> request_ttl"
    by (auto simp: time_sub_def request_ttl_def minute_def second_def min_duration_def max_duration_def)
  ultimately show ?thesis
    using f trim_prefix_changed [OF path] missing_field_None by blast
qed

subsection \<open>A form is accepted once\<close>

text \<open>A submitted form answers every request as if it were not there, until it is forgotten.\<close>

definition closed_for :: "string \<Rightarrow> form_world \<Rightarrow> bool" where
  "closed_for state w \<longleftrightarrow> (\<forall>f. fw_pending w state = Some f \<longrightarrow> pf_done f)"

lemma accepted_closes:
  assumes "form_http now (''/secret-form/'' @ state) m w = (FormAccepted, w')"
  shows "closed_for state w'"
  using assms
  by (auto simp: form_http_def handle_form_post_def closed_for_def close_form_def with_secrets_def Let_def
      trim_prefix_def has_prefix_iff split: if_splits option.splits form_method.splits prod.splits)

lemma closed_answers:
  assumes "closed_for state w"
  shows "fst (form_http now (''/secret-form/'' @ state) m w) = NotFoundPage \<and>
         form_secrets (snd (form_http now (''/secret-form/'' @ state) m w)) = form_secrets w \<and>
         closed_for state (snd (form_http now (''/secret-form/'' @ state) m w))"
  using assms
  by (auto simp: form_http_def closed_for_def Let_def trim_prefix_def has_prefix_iff split: option.splits)

fun form_visits :: "string \<Rightarrow> (time \<times> form_method) list \<Rightarrow> form_world \<Rightarrow> form_reply list \<times> form_world" where
  "form_visits state [] w = ([], w)"
| "form_visits state ((now, m) # vs) w =
     (case form_http now (''/secret-form/'' @ state) m w of
        (r, w1) \<Rightarrow> (case form_visits state vs w1 of (rs, w2) \<Rightarrow> (r # rs, w2)))"

lemma closed_visits:
  "closed_for state w \<Longrightarrow>
     set (fst (form_visits state vs w)) \<subseteq> {NotFoundPage} \<and>
     form_secrets (snd (form_visits state vs w)) = form_secrets w"
proof (induction vs arbitrary: w)
  case Nil
  then show ?case by simp
next
  case (Cons v vs)
  obtain now m where v: "v = (now, m)" by (cases v)
  let ?h = "form_http now (''/secret-form/'' @ state) m w"
  from Cons.IH [of "snd ?h"] closed_answers [OF Cons.prems, of now m]
  show ?case by (auto simp: v split: prod.splits)
qed

text \<open>
  A form is accepted once. After a submission has been accepted, whoever visits the form,
  however often and at whatever time, is told that it is not there, and no secret changes: the
  link and the code cannot be replayed.
\<close>

theorem accepted_form_cannot_be_replayed:
  assumes "form_http now (''/secret-form/'' @ state) m w = (FormAccepted, w')"
  shows "set (fst (form_visits state vs w')) \<subseteq> {NotFoundPage} \<and>
         form_secrets (snd (form_visits state vs w')) = form_secrets w'"
  by (rule closed_visits [OF accepted_closes [OF assms]])

subsection \<open>Where bare keys lead\<close>

lemma key_char_not: "\<not> key_char slash" "\<not> key_char CHR ''.''"
  by (code_simp, code_simp)

lemma key_char_normal:
  assumes "key_pattern k"
  shows "normal_seg k"
proof -
  from assms have "k \<noteq> []" "list_all key_char k" by (simp_all add: key_pattern_def)
  with key_char_not have "slash \<notin> set k" "CHR ''.'' \<notin> set k" by (auto simp: list_all_iff)
  with \<open>k \<noteq> []\<close> show ?thesis by (auto simp: normal_seg_def)
qed

definition plain_path :: "string list \<Rightarrow> bool" where
  "plain_path ks \<longleftrightarrow> ks \<noteq> [] \<and> list_all normal_seg ks"

definition proper_dir :: "string \<Rightarrow> bool" where
  "proper_dir d \<longleftrightarrow> is_rooted d \<and> path_segs d \<noteq> []"

lemma clean_path_plain:
  assumes "plain_path ks"
  shows "clean_path (slash # str_join [slash] ks) = slash # str_join [slash] ks"
proof -
  from assms have ks: "ks \<noteq> []" "list_all normal_seg ks" by (auto simp: plain_path_def)
  then have "split_on slash (str_join [slash] ks) = ks"
    by (intro split_on_join) (auto simp: list_all_iff normal_seg_def)
  with ks have "path_segs (slash # str_join [slash] ks) = ks"
    by (simp add: path_segs_def is_rooted_def clean_segs_normal_rest)
  then show ?thesis by (simp add: clean_rooted is_rooted_def)
qed

lemma str_join_plain: "plain_path ks \<Longrightarrow> str_join [slash] ks \<noteq> []"
  by (cases ks; cases "tl ks") (auto simp: plain_path_def normal_seg_def)

lemma safe_path_plain:
  assumes "proper_dir d" and "plain_path ks"
  shows "safe_path d (str_join [slash] ks) = Some (slash # str_join [slash] (path_segs d @ ks))"
proof -
  from assms have d: "is_rooted d" "path_segs d \<noteq> []" and ks: "ks \<noteq> []" "list_all normal_seg ks"
    by (auto simp: proper_dir_def plain_path_def)
  have all: "plain_path (path_segs d @ ks)"
    using d ks path_segs_normal by (simp add: plain_path_def)
  have "clean_path (d @ slash # str_join [slash] ks) = slash # str_join [slash] (path_segs d @ ks)"
    by (simp add: clean_rooted is_rooted_append d path_segs_under ks)
  with clean_path_plain [OF all] str_join_plain [OF assms(2)] d(1)
  have "clean_path (join_path d (str_join [slash] ks)) = slash # str_join [slash] (path_segs d @ ks)"
    by (auto simp: join_path_def is_rooted_def)
  moreover have "has_prefix (slash # str_join [slash] (path_segs d @ ks)) (clean_path d @ [slash])"
    by (simp add: clean_rooted d str_join_append ks has_prefix_iff)
  ultimately show ?thesis by (simp add: safe_path_def)
qed

lemma safe_path_plain_inj:
  assumes "proper_dir d" and "plain_path ks" and "plain_path js"
    and "safe_path d (str_join [slash] ks) = safe_path d (str_join [slash] js)"
  shows "ks = js"
proof -
  have split: "split_on slash (str_join [slash] xs) = xs" if "plain_path xs" for xs
    using that by (intro split_on_join) (auto simp: plain_path_def list_all_iff normal_seg_def)
  have plain: "plain_path (path_segs d @ xs)" if "plain_path xs" for xs
    using that assms(1) path_segs_normal by (simp add: plain_path_def proper_dir_def)
  from assms(4) have "str_join [slash] (path_segs d @ ks) = str_join [slash] (path_segs d @ js)"
    by (simp add: safe_path_plain assms(1-3))
  then have "path_segs d @ ks = path_segs d @ js"
    by (metis split plain assms(2,3))
  then show ?thesis by simp
qed

text \<open>What the resolution of a bare key amounts to.\<close>

definition bare_field :: "form_field \<Rightarrow> bool" where
  "bare_field f \<longleftrightarrow> ff_credential f = None"

definition bare_resolved :: "form_field \<Rightarrow> bool" where
  "bare_resolved f \<longleftrightarrow> key_pattern (ff_store_key f) \<and> ff_store_key f \<notin> set reserved_keys"

lemma validate_key_None: "validate_key k i = None \<Longrightarrow> key_pattern k \<and> k \<notin> set reserved_keys"
  by (simp add: validate_key_def split: if_splits)

lemma resolve_target_bare:
  assumes "resolve_target wired f i w = (Inr r, w')" and "bare_field f"
  shows "bare_resolved r"
  using assms validate_key_None [of "ff_key f" i]
  by (auto simp: resolve_target_def note_existing_def bare_field_def bare_resolved_def
      split: option.splits sum.splits prod.splits)

lemma resolve_fields_bare:
  "resolve_fields wired i fs w = (Inr rs, w') \<Longrightarrow> list_all bare_field fs \<Longrightarrow> list_all bare_resolved rs"
proof (induction fs arbitrary: i w rs)
  case Nil
  then show ?case by simp
next
  case (Cons f fs)
  then show ?case
    by (auto split: if_splits sum.splits prod.splits dest: resolve_target_bare)
qed

lemma store_fields_spares:
  assumes "list_all bare_resolved fs" and "proper_dir (st_dir s)"
    and "plain_path js" and "js \<notin> (\<lambda>k. [k]) ` (Collect key_pattern - set reserved_keys)"
  shows "store_view (snd (store_fields vals fs s)) (str_join [slash] js) = store_view s (str_join [slash] js)"
  using assms
proof (induction fs arbitrary: s)
  case Nil
  then show ?case by simp
next
  case (Cons f fs)
  show ?case
  proof (cases "vals (ff_input_name f) = []")
    case True
    with Cons show ?thesis by simp
  next
    case False
    obtain e s1 where e: "secret_set (ff_store_key f) (PlainText (vals (ff_input_name f))) s = (e, s1)"
      by (rule prod.exhaust)
    from Cons.prems(1) have f: "key_pattern (ff_store_key f)" "ff_store_key f \<notin> set reserved_keys"
      by (auto simp: bare_resolved_def)
    have "\<not> same_loc s (str_join [slash] [ff_store_key f]) (str_join [slash] js)"
    proof
      assume "same_loc s (str_join [slash] [ff_store_key f]) (str_join [slash] js)"
      with f(1) have "[ff_store_key f] = js"
        by (intro safe_path_plain_inj [OF Cons.prems(2) _ Cons.prems(3)])
           (auto simp: same_loc_def plain_path_def key_char_normal)
      with f Cons.prems(4) show False by blast
    qed
    with sec.set_frame [OF e] have "store_view s1 (str_join [slash] js) = store_view s (str_join [slash] js)"
      by simp
    moreover have "st_dir s1 = st_dir s"
      using secret_set_None [OF e] by (auto dest: store_set_dir)
    ultimately show ?thesis using Cons False e by (auto split: option.splits)
  qed
qed

text \<open>
  Bare keys cannot reach credentials. A form whose fields all name bare keys, once it has been
  issued, can be filled in any way: it never changes the two reserved keys, nor any secret whose
  key has more than one segment, the credentials of \<open>cred/\<close> and the remote MCP authorizations
  among them.
\<close>

theorem bare_keys_cannot_reach_credentials:
  assumes "form_request wired base rid code now a w = (Inr ticket, w')"
    and "list_all bare_field (fa_fields a)"
    and "fw_pending w' (tk_request_id ticket) = Some f"
    and "proper_dir (st_dir s)"
    and "plain_path js" and "length js > 1 \<or> js \<in> (\<lambda>k. [k]) ` set reserved_keys"
  shows "store_view (snd (store_fields vals (pf_fields f) s)) (str_join [slash] js) =
         store_view s (str_join [slash] js)"
proof (rule store_fields_spares)
  show "proper_dir (st_dir s)" "plain_path js" by fact+
  show "js \<notin> (\<lambda>k. [k]) ` (Collect key_pattern - set reserved_keys)" using assms(6) by auto
  from assms(1,3) obtain c where "resolve_fields wired 0 (fa_fields a) (fw_cred w) = (Inr (pf_fields f), c)"
    by (auto simp: form_request_def split: if_splits sum.splits prod.splits option.splits)
  with assms(2) show "list_all bare_resolved (pf_fields f)" by (blast intro: resolve_fields_bare)
qed

subsection \<open>Concrete forms\<close>

definition key_field :: "string \<Rightarrow> form_field" where
  "key_field k =
     \<lparr>ff_key = k, ff_credential = None, ff_label = ''Key'', ff_description = [], ff_secret = None,
      ff_required = None, ff_store_key = [], ff_input_name = [], ff_already_set = False\<rparr>"

definition slot_field :: "string \<Rightarrow> string \<Rightarrow> string \<Rightarrow> form_field" where
  "slot_field t l x =
     (key_field [])\<lparr>ff_credential := Some \<lparr>ct_type = t, ct_label = l, ct_field = x\<rparr>\<rparr>"

definition git_slot :: credential_set where
  "git_slot =
     \<lparr>cs_id = ''git/default'', cs_package = ''git'', cs_label = ''default'', cs_channel = [],
      cs_description = [], cs_created_at = 1\<rparr>"

definition form_holding :: "string \<Rightarrow> secret_value \<Rightarrow> form_world" where
  "form_holding key v =
     \<lparr>fw_pending = Map.empty, fw_cred = cred_holding [git_slot] key v, fw_panicked = False\<rparr>"

definition ask_fields :: "form_field list \<Rightarrow> form_request_args" where
  "ask_fields fs = \<lparr>fa_title = ''Setup'', fa_description = [], fa_fields = fs\<rparr>"

definition ask_form :: "form_field list \<Rightarrow> form_world \<Rightarrow> (form_error + form_ticket) \<times> form_world" where
  "ask_form fs w = form_request True ''http://h'' (Some ''id'') (Some ''012345'') 0 (ask_fields fs) w"

definition fill_form :: "string \<Rightarrow> (string \<times> string) list \<Rightarrow> form_method" where
  "fill_form code vs =
     PostForm (Some (\<lambda>n. if n = ''_verify_code'' then code
                         else case map_of vs n of None \<Rightarrow> [] | Some v \<Rightarrow> v))"

definition asked :: form_world where
  "asked = snd (ask_form [key_field ''resy_api_key''] (form_holding ''anthropic_api_key'' (PlainText ''sk'')))"

definition filled :: form_method where
  "filled = fill_form '' 012345 '' [(''resy_api_key'', ''abc'')]"

theorem form_stores_only_verified_submissions_witness:
  "\<exists>state f vals. ''/secret-form/id'' = ''/secret-form/'' @ state \<and> fw_pending asked state = Some f \<and>
     minute - pf_created f \<le> request_ttl \<and> \<not> pf_done f \<and> filled = PostForm (Some vals) \<and>
     form_secrets (snd (form_http minute ''/secret-form/id'' filled asked)) =
       snd (store_fields vals (pf_fields f) (form_secrets asked))"
proof -
  let ?h = "form_http minute ''/secret-form/id'' filled asked"
  have "store_view (form_secrets (snd ?h)) ''resy_api_key'' = Some (Doc (PlainText ''abc''))"
    and "store_view (form_secrets asked) ''resy_api_key'' = None"
    by code_simp+
  then have "form_secrets (snd ?h) \<noteq> form_secrets asked" by auto
  from form_stores_only_verified_submissions [OF _ this, of minute "''/secret-form/id''" filled "fst ?h"]
  show ?thesis by auto
qed

theorem accepted_form_cannot_be_replayed_witness:
  "let w = snd (form_http minute (''/secret-form/'' @ ''id'') filled asked)
   in set (fst (form_visits ''id'' [(minute, GetForm), (hour, filled)] w)) \<subseteq> {NotFoundPage} \<and>
      store_view (form_secrets w) ''resy_api_key'' = Some (Doc (PlainText ''abc''))"
proof -
  let ?h = "form_http minute (''/secret-form/'' @ ''id'') filled asked"
  have "fst ?h = FormAccepted" and v: "store_view (form_secrets (snd ?h)) ''resy_api_key'' = Some (Doc (PlainText ''abc''))"
    by code_simp+
  then have "form_http minute (''/secret-form/'' @ ''id'') filled asked = (FormAccepted, snd ?h)"
    by (metis prod.collapse)
  from accepted_form_cannot_be_replayed [OF this, of "[(minute, GetForm), (hour, filled)]"] v
  show ?thesis unfolding Let_def by blast
qed

theorem bare_keys_cannot_reach_credentials_witness:
  "\<exists>f. fw_pending asked ''id'' = Some f \<and>
       store_view (snd (store_fields (\<lambda>n. ''x'') (pf_fields f) (form_secrets asked))) ''anthropic_api_key'' =
       store_view (form_secrets asked) ''anthropic_api_key''"
proof -
  let ?w = "form_holding ''anthropic_api_key'' (PlainText ''sk'')"
  let ?r = "ask_form [key_field ''resy_api_key''] ?w"
  let ?t = "\<lparr>tk_request_id = ''id'', tk_url = ''http://h/secret-form/id'', tk_code = ''012345''\<rparr>"
  have "fst ?r = Inr ?t" by code_simp
  then have r: "form_request True ''http://h'' (Some ''id'') (Some ''012345'') 0
      (ask_fields [key_field ''resy_api_key'']) ?w = (Inr ?t, asked)"
    by (simp add: asked_def ask_form_def prod_eq_iff)
  obtain f where f: "fw_pending asked ''id'' = Some f"
  proof -
    have "fw_pending asked ''id'' \<noteq> None" by code_simp
    then show thesis using that by auto
  qed
  have d: "proper_dir (st_dir (form_secrets asked))" by code_simp
  have js: "plain_path [''anthropic_api_key'']" by code_simp
  from bare_keys_cannot_reach_credentials [OF r _ _ d js, of f "\<lambda>n. ''x''"] f show ?thesis
    by (simp add: ask_fields_def bare_field_def key_field_def reserved_keys_def)
qed

text \<open>
  A credential target's field is not checked. The slot must be declared, but the field may climb
  out of it: the key is cleaned as a path, and \<open>../\<close> three times leads from a declared slot to
  a reserved key.
\<close>

definition climbing_form :: form_world where
  "climbing_form =
     snd (ask_form [slot_field ''git'' ''default'' ''../../../anthropic_api_key'']
           (form_holding ''anthropic_api_key'' (PlainText ''sk'')))"

lemma slot_field_reaches_reserved_key:
  "store_view (form_secrets climbing_form) ''anthropic_api_key'' = Some (Doc (PlainText ''sk'')) \<and>
   store_view (form_secrets (snd (form_http minute ''/secret-form/id''
       (fill_form ''012345'' [(''cred_git_default_../../../anthropic_api_key'', ''mine'')]) climbing_form)))
     ''anthropic_api_key'' = Some (Doc (PlainText ''mine''))"
  by (intro conjI; code_simp)

text \<open>
  Two fields of one form may have one input name, so that one value is written to both places.
\<close>

lemma input_names_collide:
  "resolve_target True (key_field ''cred_git_default_token'') 0 (cred_holding [git_slot] ''k'' (PlainText [])) =
     (Inr r, w) \<Longrightarrow>
   resolve_target True (slot_field ''git'' ''default'' ''token'') 1 w = (Inr q, w') \<Longrightarrow>
   ff_input_name r = ff_input_name q \<and> ff_store_key r \<noteq> ff_store_key q"
  by (auto simp: resolve_target_def key_field_def slot_field_def note_existing_def credential_input_name_def
      resolve_slot_field_def field_key_def new_credential_set_id_def Let_def
      split: sum.splits prod.splits option.splits if_splits)

text \<open>The keys reported for a submitted form name no credential field.\<close>

lemma submitted_keys_miss_credentials: "g \<in> set (pf_fields f) \<Longrightarrow> ff_key g = [] \<Longrightarrow> [] \<in> set (submitted_keys f)"
  by (force simp: submitted_keys_def)

text \<open>
  Two submissions that both pass the check before either closes the channel close it twice: the
  second one panics, after its values have overwritten the first one's.
\<close>

lemma concurrent_submissions_panic:
  assumes "fw_pending w state = Some f" and "\<not> pf_done f"
    and "handle_form_post state f (Some vals) w = (FormAccepted, w1)"
    and "handle_form_post state f (Some vals') w1 = (FormAccepted, w2)"
  shows "fw_panicked w2"
  using assms
  by (auto simp: handle_form_post_def close_form_def with_secrets_def form_secrets_def
      split: if_splits option.splits prod.splits)

subsection \<open>The wait\<close>

text \<open>
  A wait never outlasts the call's window, and it reports \<open>still_waiting\<close> only while the form can
  still be submitted when the window ends.
\<close>

lemma still_waiting_means_live:
  assumes "form_wait rid now ending w = Inr (StillWaiting r)"
  shows "\<exists>f. fw_pending w rid = Some f \<and> \<not> pf_done f \<and> r = rid \<and>
             time_sub now (pf_created f) + max_wait_per_call \<le> request_ttl"
  using assms by (auto simp: form_wait_def Let_def split: if_splits option.splits wait_end.splits)

end
