(* ===== verification/OAuthCallback.thy ===== *)
theory OAuthCallback
  imports Credentials RemoteMcp
begin

text \<open>
  The OAuth redirects, \<open>oauth/callback.go\<close>, with the flows that wait for them: \<open>PendingFlow\<close>,
  the credential tools' flow (\<open>tool/credentialtools/oauth_flow.go\<close>) and the remote MCP flow
  (\<open>tool/remotemcp/flow.go\<close>).

  A flow is a number. Its \<open>Done\<close> channel is open while \<open>ow_ended\<close> has no entry for it, and
  closing it a second time, a panic in Go, is recorded in \<open>ow_panicked\<close>. The exchange of a code
  with the provider and the regeneration of the MCP configuration are parameters; random state
  tokens and clock readings are arguments.
\<close>

definition pending_flow_ttl :: duration where "pending_flow_ttl = 10 * minute"

datatype flow_kind =
    ProviderFlow credential_set_id string
  | CredentialFlow credential_set_id string
  | RemoteMcpFlow string

datatype flow_error =
    FlowExpired | FlowReaped | OAuthRefused string string | FlowNoCode | ExchangeFailed
  | StoreTokensFailed cred_error | LoadAuthFailed mcp_error | NoStoredAuth string
  | StoreAuthFailed mcp_error | ConfigNotUpdated string

record mcp_token_reply =
  tr_access :: string
  tr_refresh :: string
  tr_expires_in :: int

record pending_entry =
  pn_flow :: nat
  pn_created :: time

record oauth_world =
  ow_pending :: "string \<rightharpoonup> pending_entry"
  ow_ended :: "nat \<rightharpoonup> flow_error option"
  ow_panicked :: bool
  ow_cred :: cred_world
  ow_mcp :: mcp_world
  ow_notified :: "flow_kind list"

record oauth_env =
  oe_kind :: "nat \<Rightarrow> flow_kind"
  oe_listens :: "flow_kind \<Rightarrow> bool"
  oe_exchange :: "credential_set_id \<Rightarrow> string \<Rightarrow> string \<Rightarrow> oauth_tokens option"
  oe_exchange_pkce :: "string \<Rightarrow> string \<Rightarrow> string \<Rightarrow> mcp_token_reply option"
  oe_update_config :: "string \<Rightarrow> bool"

definition close_done :: "nat \<Rightarrow> flow_error option \<Rightarrow> oauth_world \<Rightarrow> oauth_world" where
  "close_done f r w =
     (case ow_ended w f of
        None \<Rightarrow> w\<lparr>ow_ended := (ow_ended w)(f \<mapsto> r)\<rparr>
      | Some _ \<Rightarrow> w\<lparr>ow_panicked := True\<rparr>)"

definition flow_fail :: "nat \<Rightarrow> flow_error \<Rightarrow> oauth_world \<Rightarrow> oauth_world" where
  "flow_fail f e w = close_done f (Some e) w"

text \<open>The flow's \<open>OnComplete\<close> or \<open>onChange\<close>, which may be \<open>nil\<close>.\<close>

definition notify_flow :: "oauth_env \<Rightarrow> flow_kind \<Rightarrow> oauth_world \<Rightarrow> oauth_world" where
  "notify_flow env k w = (if oe_listens env k then w\<lparr>ow_notified := ow_notified w @ [k]\<rparr> else w)"

subsection \<open>Completing a flow\<close>

definition complete_tokens ::
  "oauth_env \<Rightarrow> nat \<Rightarrow> credential_set_id \<Rightarrow> oauth_tokens option \<Rightarrow> oauth_world \<Rightarrow> flow_error option \<times> oauth_world" where
  "complete_tokens env f i reply w =
     (case reply of
        None \<Rightarrow> (Some ExchangeFailed, w)
      | Some tokens \<Rightarrow>
          (case set_oauth_tokens i tokens (ow_cred w) of
             (Some e, c) \<Rightarrow> (Some (StoreTokensFailed e), w\<lparr>ow_cred := c\<rparr>)
           | (None, c) \<Rightarrow> (None, close_done f None (notify_flow env (oe_kind env f) (w\<lparr>ow_cred := c\<rparr>)))))"

definition with_token_reply :: "mcp_token_reply \<Rightarrow> time \<Rightarrow> remote_mcp_auth \<Rightarrow> remote_mcp_auth" where
  "with_token_reply creds now auth =
     (let a = auth\<lparr>ra_access_token := tr_access creds, ra_refresh_token := tr_refresh creds\<rparr>
      in if tr_expires_in creds > 0 then a\<lparr>ra_token_expiry := now + wrap64 (tr_expires_in creds * second)\<rparr> else a)"

definition complete_remote_mcp ::
  "oauth_env \<Rightarrow> time \<Rightarrow> nat \<Rightarrow> string \<Rightarrow> mcp_token_reply option \<Rightarrow> oauth_world \<Rightarrow> flow_error option \<times> oauth_world" where
  "complete_remote_mcp env now f name reply w =
     (case reply of
        None \<Rightarrow> (Some ExchangeFailed, w)
      | Some creds \<Rightarrow>
          (case get_remote_mcp_auth name (ow_mcp w) of
             (Inl e, m) \<Rightarrow> (Some (LoadAuthFailed e), w\<lparr>ow_mcp := m\<rparr>)
           | (Inr None, m) \<Rightarrow> (Some (NoStoredAuth name), w\<lparr>ow_mcp := m\<rparr>)
           | (Inr (Some auth), m) \<Rightarrow>
               (case set_remote_mcp_auth name (with_token_reply creds now auth) m of
                  (Some e, m') \<Rightarrow> (Some (StoreAuthFailed e), w\<lparr>ow_mcp := m'\<rparr>)
                | (None, m') \<Rightarrow>
                    if \<not> oe_update_config env name then (Some (ConfigNotUpdated name), w\<lparr>ow_mcp := m'\<rparr>)
                    else (None, close_done f None (w\<lparr>ow_mcp := m'\<rparr>)))))"

definition oauth_flow_complete ::
  "oauth_env \<Rightarrow> time \<Rightarrow> nat \<Rightarrow> string \<Rightarrow> string \<Rightarrow> oauth_world \<Rightarrow> flow_error option \<times> oauth_world" where
  "oauth_flow_complete env now f code callback_url w =
     (case oe_kind env f of
        ProviderFlow i url \<Rightarrow> complete_tokens env f i (oe_exchange env i code url) w
      | CredentialFlow i package \<Rightarrow>
          complete_tokens env f i (oe_exchange env i code callback_url) w
      | RemoteMcpFlow name \<Rightarrow>
          complete_remote_mcp env now f name (oe_exchange_pkce env name code callback_url) w)"

subsection \<open>The server\<close>

definition random_state :: "nat list option \<Rightarrow> string option" where
  "random_state r =
     map_option (\<lambda>bs. concat (map (\<lambda>b. [hex_digit (b div 16), hex_digit (b mod 16)]) bs)) r"

text \<open>
  \<open>StartFlow\<close> also gives the flow its \<open>Done\<close> channel and its callback address, which
  \<open>ProviderFlow\<close> carries.
\<close>

definition register_flow ::
  "nat \<Rightarrow> time \<Rightarrow> nat list option \<Rightarrow> oauth_world \<Rightarrow> string option \<times> oauth_world" where
  "register_flow f now r w =
     (case random_state r of
        None \<Rightarrow> (None, w)
      | Some state \<Rightarrow>
          (Some state, w\<lparr>ow_pending := (ow_pending w)(state \<mapsto> \<lparr>pn_flow = f, pn_created = now\<rparr>)\<rparr>))"

record callback_request =
  cb_state :: string
  cb_code :: string
  cb_error :: string
  cb_error_description :: string

datatype callback_reply =
    MissingState | UnknownState | ExpiredFlow | AuthorizationDenied string | MissingCode
  | AuthorizationFailed flow_error | FlowAuthorized

definition flow_too_old :: "time \<Rightarrow> pending_entry \<Rightarrow> bool" where
  "flow_too_old now p = (time_sub now (pn_created p) > pending_flow_ttl)"

definition handle_callback ::
  "oauth_env \<Rightarrow> string \<Rightarrow> time \<Rightarrow> callback_request \<Rightarrow> oauth_world \<Rightarrow> callback_reply \<times> oauth_world" where
  "handle_callback env callback_url now r w =
     (if cb_state r = [] then (MissingState, w)
      else case ow_pending w (cb_state r) of
        None \<Rightarrow> (UnknownState, w)
      | Some p \<Rightarrow>
          (let w1 = w\<lparr>ow_pending := (ow_pending w)(cb_state r := None)\<rparr>; f = pn_flow p
           in if flow_too_old now p then (ExpiredFlow, flow_fail f FlowExpired w1)
              else if cb_error r \<noteq> []
              then (AuthorizationDenied (cb_error_description r),
                    flow_fail f (OAuthRefused (cb_error r) (cb_error_description r)) w1)
              else if cb_code r = [] then (MissingCode, flow_fail f FlowNoCode w1)
              else case oauth_flow_complete env now f (cb_code r) callback_url w1 of
                     (Some e, w2) \<Rightarrow> (AuthorizationFailed e, flow_fail f e w2)
                   | (None, w2) \<Rightarrow> (FlowAuthorized, w2)))"

text \<open>
  The reaper walks the map; what \<open>Range\<close> hands it and what it then does with the entry are two
  steps, between which a callback may run.
\<close>

definition reap_drop :: "string \<Rightarrow> pending_entry \<Rightarrow> oauth_world \<Rightarrow> oauth_world" where
  "reap_drop state p w =
     flow_fail (pn_flow p) FlowReaped (w\<lparr>ow_pending := (ow_pending w)(state := None)\<rparr>)"



subsection \<open>Each flow ends once\<close>


definition flows_open :: "oauth_world \<Rightarrow> bool" where
  "flows_open w \<longleftrightarrow>
     \<not> ow_panicked w \<and>
     (\<forall>s p. ow_pending w s = Some p \<longrightarrow> ow_ended w (pn_flow p) = None) \<and>
     (\<forall>s p s' p'. ow_pending w s = Some p \<longrightarrow> ow_pending w s' = Some p' \<longrightarrow>
        pn_flow p = pn_flow p' \<longrightarrow> s = s')"

lemma flows_open_panic: "flows_open w \<Longrightarrow> \<not> ow_panicked w"
  by (simp add: flows_open_def)

text \<open>
  A flow that has been taken off the map and is still open: what both its completion and its
  failure find.
\<close>

definition taken_open :: "nat \<Rightarrow> oauth_world \<Rightarrow> bool" where
  "taken_open f w \<longleftrightarrow> flows_open w \<and> ow_ended w f = None \<and> (\<forall>s p. ow_pending w s = Some p \<longrightarrow> pn_flow p \<noteq> f)"



lemma taken_open_frame [simp]:
  "taken_open f (w\<lparr>ow_cred := c\<rparr>) = taken_open f w"
  "taken_open f (w\<lparr>ow_mcp := m\<rparr>) = taken_open f w"
  "taken_open f (notify_flow env k w) = taken_open f w"
  by (auto simp: taken_open_def flows_open_def notify_flow_def)









lemma notify_ended [simp]:
  "ow_ended (notify_flow env k w) = ow_ended w" "ow_pending (notify_flow env k w) = ow_pending w"
  by (simp_all add: notify_flow_def)

lemma close_pending [simp]: "ow_pending (close_done g q w) = ow_pending w"
  by (simp add: close_done_def split: option.splits)







definition idle_oauth :: oauth_world where
  "idle_oauth =
     \<lparr>ow_pending = Map.empty, ow_ended = Map.empty, ow_panicked = False,
      ow_cred = cred_holding [] ''none'' (PlainText []), ow_mcp = mcp_holding [],
      ow_notified = []\<rparr>"

definition work_env :: oauth_env where
  "work_env =
     \<lparr>oe_kind = (\<lambda>f. CredentialFlow ''google/work'' ''google''), oe_listens = (\<lambda>k. True),
      oe_exchange = (\<lambda>i code url. if code = ''c0de'' then Some sample_tokens else None),
      oe_exchange_pkce = (\<lambda>n code url. None), oe_update_config = (\<lambda>n. True)\<rparr>"

definition waiting_oauth :: oauth_world where
  "waiting_oauth = snd (register_flow 7 0 (Some [26, 255]) idle_oauth)"

definition code_request :: "string \<Rightarrow> string \<Rightarrow> callback_request" where
  "code_request state code =
     \<lparr>cb_state = state, cb_code = code, cb_error = [], cb_error_description = []\<rparr>"



subsection \<open>What a redirect may store\<close>

lemma close_frame [simp]:
  "ow_cred (close_done f r w) = ow_cred w" "ow_mcp (close_done f r w) = ow_mcp w"
  "ow_cred (flow_fail f e w) = ow_cred w" "ow_mcp (flow_fail f e w) = ow_mcp w"
  "ow_cred (notify_flow env k w) = ow_cred w" "ow_mcp (notify_flow env k w) = ow_mcp w"
  by (auto simp: close_done_def flow_fail_def notify_flow_def split: option.splits)

text \<open>The credential worlds a flow of kind \<open>k\<close> may leave behind when it is given \<open>code\<close>.\<close>

definition flow_may_store :: "oauth_env \<Rightarrow> string \<Rightarrow> flow_kind \<Rightarrow> string \<Rightarrow> oauth_world \<Rightarrow> oauth_world \<Rightarrow> bool" where
  "flow_may_store env url k code w w' \<longleftrightarrow>
     (case k of
        ProviderFlow i u \<Rightarrow>
          ow_mcp w' = ow_mcp w \<and>
          (\<exists>t. oe_exchange env i code u = Some t \<and> ow_cred w' = snd (set_oauth_tokens i t (ow_cred w)))
      | CredentialFlow i package \<Rightarrow>
          ow_mcp w' = ow_mcp w \<and>
          (\<exists>t. oe_exchange env i code url = Some t \<and> ow_cred w' = snd (set_oauth_tokens i t (ow_cred w)))
      | RemoteMcpFlow name \<Rightarrow>
          ow_cred w' = ow_cred w \<and>
          (\<exists>c m. oe_exchange_pkce env name code url = Some c \<and>
             (ow_mcp w' = snd (get_remote_mcp_auth name (ow_mcp w)) \<or>
              (\<exists>auth now. get_remote_mcp_auth name (ow_mcp w) = (Inr (Some auth), m) \<and>
                 ow_mcp w' = snd (set_remote_mcp_auth name (with_token_reply c now auth) m)))))"

lemma oauth_flow_complete_stores:
  assumes "oauth_flow_complete env now f code url w = (r, w')"
  shows "ow_cred w' = ow_cred w \<and> ow_mcp w' = ow_mcp w \<or> flow_may_store env url (oe_kind env f) code w w'"
  using assms
  by (cases "oe_kind env f")
     (auto simp: oauth_flow_complete_def complete_tokens_def complete_remote_mcp_def flow_may_store_def
       split: option.splits prod.splits sum.splits if_splits; metis snd_conv)+

text \<open>
  C4. Only the redirect a flow waits for stores tokens. If a redirect changes any credential or
  any remote MCP authorization, then its state names a pending flow no older than ten minutes,
  the provider reported no error, the code was not empty and the provider exchanged it, and all
  that changed is what that flow stores: the tokens of its own credential set or of its own
  server.
\<close>

theorem redirect_stores_only_its_flow:
  assumes "handle_callback env url now r w = (reply, w')"
    and "ow_cred w' \<noteq> ow_cred w \<or> ow_mcp w' \<noteq> ow_mcp w"
  shows "\<exists>p. ow_pending w (cb_state r) = Some p \<and> cb_state r \<noteq> [] \<and>
             now - pn_created p \<le> pending_flow_ttl \<and> cb_error r = [] \<and> cb_code r \<noteq> [] \<and>
             flow_may_store env url (oe_kind env (pn_flow p)) (cb_code r) w w'"
proof -
  from assms obtain p where p: "ow_pending w (cb_state r) = Some p" "cb_state r \<noteq> []"
    by (auto simp: handle_callback_def split: if_splits option.splits)
  let ?w1 = "w\<lparr>ow_pending := (ow_pending w)(cb_state r := None)\<rparr>"
  from assms p have c: "\<not> flow_too_old now p" "cb_error r = []" "cb_code r \<noteq> []"
    by (auto simp: handle_callback_def Let_def split: if_splits)
  obtain q w2 where q: "oauth_flow_complete env now (pn_flow p) (cb_code r) url ?w1 = (q, w2)"
    by (rule prod.exhaust)
  with assms p c have same: "ow_cred w' = ow_cred w2" "ow_mcp w' = ow_mcp w2"
    by (auto simp: handle_callback_def Let_def split: option.splits)
  with oauth_flow_complete_stores [OF q] assms(2)
  have "flow_may_store env url (oe_kind env (pn_flow p)) (cb_code r) w w'"
    by (auto simp: flow_may_store_def split: flow_kind.splits)
  moreover from c(1) have "now - pn_created p \<le> pending_flow_ttl"
    by (auto simp: flow_too_old_def time_sub_def pending_flow_ttl_def minute_def second_def
        min_duration_def max_duration_def)
  ultimately show ?thesis using p c by auto
qed

theorem redirect_stores_only_its_flow_witness:
  "\<exists>p. ow_pending waiting_oauth ''1aff'' = Some p \<and> ''1aff'' \<noteq> [] \<and>
       minute - pn_created p \<le> pending_flow_ttl \<and> ''c0de'' \<noteq> [] \<and>
       flow_may_store work_env ''u'' (oe_kind work_env (pn_flow p)) ''c0de'' waiting_oauth
         (snd (handle_callback work_env ''u'' minute (code_request ''1aff'' ''c0de'') waiting_oauth))"
proof -
  let ?q = "code_request ''1aff'' ''c0de''"
  let ?h = "handle_callback work_env ''u'' minute ?q waiting_oauth"
  have "stored_tokens ''google/work'' (ow_cred (snd ?h)) \<noteq> stored_tokens ''google/work'' (ow_cred waiting_oauth)"
    by code_simp
  then have "ow_cred (snd ?h) \<noteq> ow_cred waiting_oauth \<or> ow_mcp (snd ?h) \<noteq> ow_mcp waiting_oauth" by auto
  from redirect_stores_only_its_flow [of work_env "''u''" minute ?q waiting_oauth "fst ?h" "snd ?h", OF _ this]
  show ?thesis by (simp add: code_request_def)
qed

subsection \<open>Interleavings with the reaper\<close>

text \<open>
  Between the reaper's look at an entry and its \<open>Fail\<close>, a redirect for the same flow may take
  it off the map and fail it as expired. The reaper then closes the channel a second time, and a
  panic outside an HTTP handler ends the process.
\<close>

lemma reaper_races_redirect:
  assumes "ow_pending w (cb_state q) = Some p" and "flow_too_old now p" and "cb_state q \<noteq> []"
  shows "ow_panicked (reap_drop (cb_state q) p (snd (handle_callback env url now q w)))"
  using assms
  by (simp add: handle_callback_def reap_drop_def flow_fail_def close_done_def Let_def split: option.splits)

text \<open>
  The interface asks of \<open>Complete\<close> to close the channel even on an error. A flow that did so
  would be closed twice, for the server calls \<open>Fail\<close> after an error.
\<close>

lemma close_on_error_then_fail_panics: "ow_panicked (flow_fail f e (close_done f (Some e) w))"
  by (simp add: flow_fail_def close_done_def split: option.splits)

subsection \<open>Routes and addresses\<close>

text \<open>
  \<open>Handle\<close>: the mux is the list of patterns registered with it, in order; registering one twice
  panics, which \<open>None\<close> stands for.
\<close>

record 'h routes =
  rt_handlers :: "string \<rightharpoonup> 'h"
  rt_mux :: "string list"

definition mux_handle :: "string \<Rightarrow> 'h routes \<Rightarrow> 'h routes option" where
  "mux_handle pattern s =
     (if pattern \<in> set (rt_mux s) then None else Some (s\<lparr>rt_mux := rt_mux s @ [pattern]\<rparr>))"

definition handle_route :: "string \<Rightarrow> 'h \<Rightarrow> 'h routes \<Rightarrow> 'h routes option" where
  "handle_route pattern h s =
     (case rt_handlers s pattern of
        Some _ \<Rightarrow> Some (s\<lparr>rt_handlers := (rt_handlers s)(pattern \<mapsto> h)\<rparr>)
      | None \<Rightarrow> mux_handle pattern (s\<lparr>rt_handlers := (rt_handlers s)(pattern \<mapsto> h)\<rparr>))"

definition own_routes :: "string list" where "own_routes = [''/healthz'', ''/oauth/callback'']"

lemma handle_route_again:
  "handle_route p h s = Some s' \<Longrightarrow>
     \<exists>s''. handle_route p h' s' = Some s'' \<and> rt_handlers s'' p = Some h' \<and> rt_mux s'' = rt_mux s'"
  by (auto simp: handle_route_def mux_handle_def split: option.splits if_splits)

text \<open>\<open>net.SplitHostPort\<close> and \<open>net.JoinHostPort\<close>.\<close>

fun last_index :: "char \<Rightarrow> string \<Rightarrow> nat option" where
  "last_index c [] = None"
| "last_index c (x # xs) =
     (case last_index c xs of Some i \<Rightarrow> Some (Suc i) | None \<Rightarrow> if x = c then Some 0 else None)"

definition split_host_port :: "string \<Rightarrow> (string \<times> string) option" where
  "split_host_port addr =
     (case last_index CHR '':'' addr of
        None \<Rightarrow> None
      | Some i \<Rightarrow>
          if addr \<noteq> [] \<and> hd addr = CHR ''[''
          then (case index_of addr '']'' of
                  None \<Rightarrow> None
                | Some e \<Rightarrow>
                    if e + 1 \<noteq> i then None
                    else if CHR ''['' \<in> set (drop 1 addr) \<or> CHR '']'' \<in> set (drop (e + 1) addr) then None
                    else Some (drop 1 (take e addr), drop (i + 1) addr))
          else if CHR '':'' \<in> set (take i addr) then None
          else if CHR ''['' \<in> set addr \<or> CHR '']'' \<in> set addr then None
          else Some (take i addr, drop (i + 1) addr))"

definition join_host_port :: "string \<Rightarrow> string \<Rightarrow> string" where
  "join_host_port host port =
     (if CHR '':'' \<in> set host then ''['' @ host @ '']:'' @ port else host @ '':'' @ port)"

definition base_url :: "string \<Rightarrow> string \<Rightarrow> string" where
  "base_url public_url addr =
     (if public_url \<noteq> [] then public_url
      else case split_host_port addr of
             None \<Rightarrow> ''http://'' @ addr
           | Some (host, port) \<Rightarrow>
               (let h = (if host = [] \<or> host = ''::'' \<or> host = ''0.0.0.0'' then ''127.0.0.1'' else host)
                in ''http://'' @ join_host_port h port))"

definition callback_url :: "string \<Rightarrow> string \<Rightarrow> string" where
  "callback_url public_url addr = base_url public_url addr @ ''/oauth/callback''"

lemma callback_url_examples:
  "callback_url [] ''[::]:9876'' = ''http://127.0.0.1:9876/oauth/callback''"
  "callback_url [] '':9876'' = ''http://127.0.0.1:9876/oauth/callback''"
  "callback_url [] ''[fd00::1]:80'' = ''http://[fd00::1]:80/oauth/callback''"
  "callback_url ''https://app.fly.dev'' ''x'' = ''https://app.fly.dev/oauth/callback''"
  by code_simp+

end
