(* ===== verification/RemoteProxy.thy ===== *)
theory RemoteProxy
  imports OAuthCallback
begin

text \<open>
  The localhost proxy in front of the remote MCP servers, \<open>remotemcpproxy/remotemcpproxy.go\<close>: a
  request of the sandboxed agent names a registered server, and the proxy adds the server's
  credentials on the way out.

  Parsing a URL belongs to the library and is the parameter \<open>parse\<close>; the exchange of a refresh
  token is \<open>refresher\<close>. HTTP headers are a map from canonical names to values, as
  \<open>http.Header\<close> keeps them. The three clock readings of a refresh are arguments.
\<close>

subsection \<open>Headers\<close>

definition token_char :: "char \<Rightarrow> bool" where
  "token_char c =
     (let n = of_char c :: nat
      in 48 \<le> n \<and> n \<le> 57 \<or> 65 \<le> n \<and> n \<le> 90 \<or> 97 \<le> n \<and> n \<le> 122 \<or> c \<in> set ''!#$%&*+-.^_|~'' \<or> n = 39 \<or> n = 96)"

definition upper_letter :: "char \<Rightarrow> char" where
  "upper_letter c = (let n = of_char c :: nat in if 97 \<le> n \<and> n \<le> 122 then char_of (n - 32) else c)"

fun canonical_go :: "bool \<Rightarrow> string \<Rightarrow> string" where
  "canonical_go up [] = []"
| "canonical_go up (c # s) = (if up then upper_letter c else lower_char c) # canonical_go (c = CHR ''-'') s"

text \<open>\<open>CanonicalHeaderKey\<close>: a name with a byte that no header name has is left as it is.\<close>

definition canonical_key :: "string \<Rightarrow> string" where
  "canonical_key k = (if list_all token_char k then canonical_go True k else k)"

type_synonym headers = "string \<rightharpoonup> string list"

definition header_get :: "headers \<Rightarrow> string \<Rightarrow> string" where
  "header_get h k = (case h (canonical_key k) of Some (v # vs) \<Rightarrow> v | _ \<Rightarrow> [])"

definition header_set :: "string \<Rightarrow> string \<Rightarrow> headers \<Rightarrow> headers" where
  "header_set k v h = h(canonical_key k \<mapsto> [v])"

definition header_del :: "string \<Rightarrow> headers \<Rightarrow> headers" where
  "header_del k h = h(canonical_key k := None)"

definition proxy_token_header :: string where "proxy_token_header = ''X-Tclaw-Proxy-Token''"

subsection \<open>The pieces of a request\<close>

record url_parts =
  up_scheme :: string
  up_host :: string
  up_path :: string
  up_raw_query :: string

record mcp_route =
  mr_name :: string
  mr_upstream :: url_parts
  mr_subpath :: string
  mr_headers :: "(string \<times> string) list"
  mr_tls_pin :: string

record agent_request =
  aq_path :: string
  aq_raw_query :: string
  aq_headers :: headers

record upstream_request =
  uq_scheme :: string
  uq_host :: string
  uq_path :: string
  uq_raw_query :: string
  uq_headers :: headers
  uq_tls_pin :: string

definition split_server_name :: "string \<Rightarrow> string \<times> string" where
  "split_server_name p0 =
     (let p = trim_prefix p0 ''/''
      in if p = [] then ([], [])
         else case index_of p ''/'' of
                Some i \<Rightarrow> (take i p, drop (i + 1) p)
              | None \<Rightarrow> (p, []))"

definition single_joining_slash :: "string \<Rightarrow> string \<Rightarrow> string" where
  "single_joining_slash base sub =
     (if sub = [] then base
      else (let base_slash = has_suffix base ''/''; sub_slash = has_prefix sub ''/''
            in if base_slash \<and> sub_slash then base @ drop 1 sub
               else if \<not> base_slash \<and> \<not> sub_slash then base @ ''/'' @ sub
               else base @ sub))"

definition merge_raw_query :: "string \<Rightarrow> string \<Rightarrow> string" where
  "merge_raw_query upstream incoming =
     (if upstream = [] then incoming
      else if incoming = [] then upstream
      else upstream @ ''&'' @ incoming)"

text \<open>The \<open>Director\<close>, with the injected headers in the order the map is walked.\<close>

definition mcp_director :: "mcp_route \<Rightarrow> agent_request \<Rightarrow> upstream_request" where
  "mcp_director rt q =
     \<lparr>uq_scheme = up_scheme (mr_upstream rt), uq_host = up_host (mr_upstream rt),
      uq_path = single_joining_slash (up_path (mr_upstream rt)) (mr_subpath rt),
      uq_raw_query = merge_raw_query (up_raw_query (mr_upstream rt)) (aq_raw_query q),
      uq_headers = fold (\<lambda>(k, v). header_set k v) (mr_headers rt)
                     (header_del proxy_token_header (aq_headers q)),
      uq_tls_pin = mr_tls_pin rt\<rparr>"

subsection \<open>Credentials\<close>

datatype proxy_auth_error =
    ProxyLoadAuth mcp_error | ProxyNoAuth string | ProxyRefresh | ProxyPersist mcp_error

definition with_refreshed :: "mcp_token_reply \<Rightarrow> time \<Rightarrow> remote_mcp_auth \<Rightarrow> remote_mcp_auth" where
  "with_refreshed creds now a0 =
     (let a1 = a0\<lparr>ra_access_token := tr_access creds\<rparr>;
          a2 = (if tr_refresh creds \<noteq> [] then a1\<lparr>ra_refresh_token := tr_refresh creds\<rparr> else a1)
      in if tr_expires_in creds > 0
         then a2\<lparr>ra_token_expiry := now + wrap64 (tr_expires_in creds * second)\<rparr> else a2)"

type_synonym refresher = "remote_mcp_auth \<Rightarrow> string \<Rightarrow> mcp_token_reply option"

definition refresh_remote_token ::
  "refresher \<Rightarrow> time \<Rightarrow> time \<Rightarrow> string \<Rightarrow> string \<Rightarrow> mcp_world \<Rightarrow> (proxy_auth_error + remote_mcp_auth) \<times> mcp_world" where
  "refresh_remote_token refresher t1 t2 name url w =
     (case get_remote_mcp_auth name w of
        (Inl e, w1) \<Rightarrow> (Inl (ProxyLoadAuth e), w1)
      | (Inr None, w1) \<Rightarrow> (Inl (ProxyNoAuth name), w1)
      | (Inr (Some auth), w1) \<Rightarrow>
          if \<not> auth_token_expired auth t1 \<or> ra_refresh_token auth = [] then (Inr auth, w1)
          else (case refresher auth url of
                  None \<Rightarrow> (Inl ProxyRefresh, w1)
                | Some creds \<Rightarrow>
                    (case set_remote_mcp_auth name (with_refreshed creds t2 auth) w1 of
                       (Some e, w2) \<Rightarrow> (Inl (ProxyPersist e), w2)
                     | (None, w2) \<Rightarrow> (Inr (with_refreshed creds t2 auth), w2))))"

text \<open>
  The headers are a Go map: an access token replaces a static header of the very name
  \<open>Authorization\<close>. \<open>nil\<close> and an empty map are the same to the caller.
\<close>

definition auth_headers :: "remote_mcp_auth \<Rightarrow> (string \<times> string) list" where
  "auth_headers a =
     (if ra_access_token a \<noteq> []
      then filter (\<lambda>p. fst p \<noteq> ''Authorization'') (ra_static_headers a) @
           [(''Authorization'', ''Bearer '' @ trim_space (ra_access_token a))]
      else ra_static_headers a)"

definition resolve_auth_headers ::
  "refresher \<Rightarrow> time \<Rightarrow> time \<Rightarrow> time \<Rightarrow> string \<Rightarrow> string \<Rightarrow> mcp_world
     \<Rightarrow> (proxy_auth_error + (string \<times> string) list) \<times> mcp_world" where
  "resolve_auth_headers refresher t0 t1 t2 name url w =
     (case get_remote_mcp_auth name w of
        (Inl e, w1) \<Rightarrow> (Inl (ProxyLoadAuth e), w1)
      | (Inr None, w1) \<Rightarrow> (Inr [], w1)
      | (Inr (Some auth), w1) \<Rightarrow>
          if auth_token_expired auth t0 \<and> ra_refresh_token auth \<noteq> []
          then (case refresh_remote_token refresher t1 t2 name url w1 of
                  (Inl e, w2) \<Rightarrow> (Inr (auth_headers auth), w2)
                | (Inr refreshed, w2) \<Rightarrow> (Inr (auth_headers refreshed), w2))
          else (Inr (auth_headers auth), w1))"

subsection \<open>The handler\<close>

datatype proxy_answer =
    ProxyForbidden | NoServerName | LookupFailed | UnknownServer | InvalidUpstream | AuthUnavailable
  | Forwarded upstream_request

definition proxy_handle ::
  "(string \<Rightarrow> url_parts option) \<Rightarrow> refresher \<Rightarrow> time \<Rightarrow> time \<Rightarrow> time \<Rightarrow> string \<Rightarrow> agent_request \<Rightarrow> mcp_world
     \<Rightarrow> proxy_answer \<times> mcp_world" where
  "proxy_handle parse refresher t0 t1 t2 token q w =
     (if header_get (aq_headers q) proxy_token_header \<noteq> token then (ProxyForbidden, w)
      else (case split_server_name (aq_path q) of (name, subpath) \<Rightarrow>
        if name = [] then (NoServerName, w)
        else (case get_remote_mcp name w of
                (Inl e, w1) \<Rightarrow> (LookupFailed, w1)
              | (Inr None, w1) \<Rightarrow> (UnknownServer, w1)
              | (Inr (Some remote), w1) \<Rightarrow>
                  (case parse (rm_url remote) of
                     None \<Rightarrow> (InvalidUpstream, w1)
                   | Some upstream \<Rightarrow>
                       (case resolve_auth_headers refresher t0 t1 t2 name (rm_url remote) w1 of
                          (Inl e, w2) \<Rightarrow> (AuthUnavailable, w2)
                        | (Inr hs, w2) \<Rightarrow>
                            (Forwarded (mcp_director
                               \<lparr>mr_name = name, mr_upstream = upstream, mr_subpath = subpath,
                                mr_headers = hs, mr_tls_pin = rm_tls_pin remote\<rparr> q), w2))))))"

definition proxy_remote_url :: "string \<Rightarrow> string \<Rightarrow> string" where
  "proxy_remote_url addr name = (if addr = [] then [] else ''http://'' @ addr @ ''/'' @ name)"

subsection \<open>Where a request may go\<close>






subsection \<open>What it carries\<close>

definition stored_auth :: "string \<Rightarrow> mcp_world \<Rightarrow> remote_mcp_auth option" where
  "stored_auth name w =
     (case store_view (mw_secrets w) (remote_mcp_auth_key name) of
        Some (Doc (AuthText a)) \<Rightarrow> Some a | _ \<Rightarrow> None)"

lemma get_remote_mcp_auth_Some:
  assumes "get_remote_mcp_auth name w = (Inr (Some a), w')"
  shows "stored_auth name w = Some a \<and> stored_auth name w' = Some a"
proof -
  from assms obtain s where g: "secret_get (remote_mcp_auth_key name) (mw_secrets w) = (Inr (AuthText a), s)"
    and w': "w' = w\<lparr>mw_secrets := s\<rparr>"
    by (auto simp: get_remote_mcp_auth_def split: prod.splits sum.splits secret_value.splits list.splits)
  from secret_get_value [OF g] secret_get_frame [OF g] show ?thesis
    by (auto simp: w' stored_auth_def)
qed


lemma set_remote_mcp_auth_ok:
  assumes "set_remote_mcp_auth name a w = (None, w')"
  shows "stored_auth name w' = Some a"
proof -
  from assms obtain s where s: "secret_set (remote_mcp_auth_key name) (AuthText a) (mw_secrets w) = (None, s)"
    and w': "w' = w\<lparr>mw_secrets := s\<rparr>"
    by (auto simp: set_remote_mcp_auth_def split: prod.splits option.splits)
  from sec.set_ok [OF s] show ?thesis by (simp add: w' stored_auth_def)
qed

lemma with_refreshed_static [simp]: "ra_static_headers (with_refreshed c t a) = ra_static_headers a"
  by (simp add: with_refreshed_def Let_def)

lemma with_refreshed_token [simp]: "ra_access_token (with_refreshed c t a) = tr_access c"
  by (simp add: with_refreshed_def Let_def)

lemma refresh_remote_token_ok:
  assumes "refresh_remote_token refresher t1 t2 name url w = (Inr a, w')"
  shows "stored_auth name w' = Some a \<and>
         (\<exists>old. stored_auth name w = Some old \<and> ra_static_headers a = ra_static_headers old \<and>
            (a = old \<and> (\<not> auth_token_expired old t1 \<or> ra_refresh_token old = []) \<or>
             (\<exists>c. refresher old url = Some c \<and> a = with_refreshed c t2 old)))"
proof -
  from assms obtain old w1 where g: "get_remote_mcp_auth name w = (Inr (Some old), w1)"
    by (auto simp: refresh_remote_token_def split: prod.splits sum.splits option.splits)
  note old = get_remote_mcp_auth_Some [OF g]
  show ?thesis
  proof (cases "\<not> auth_token_expired old t1 \<or> ra_refresh_token old = []")
    case True
    with assms g old show ?thesis by (auto simp: refresh_remote_token_def)
  next
    case False
    with assms g obtain c where "refresher old url = Some c" "a = with_refreshed c t2 old"
      and "set_remote_mcp_auth name a w1 = (None, w')"
      by (auto simp: refresh_remote_token_def split: option.splits prod.splits)
    with old set_remote_mcp_auth_ok show ?thesis by auto
  qed
qed



lemma fold_header_set_other:
  "(\<And>k v. (k, v) \<in> set hs \<Longrightarrow> canonical_key k \<noteq> j) \<Longrightarrow> fold (\<lambda>(k, v). header_set k v) hs h j = h j"
proof (induction hs arbitrary: h)
  case Nil
  then show ?case by simp
next
  case (Cons x hs)
  obtain k v where x: "x = (k, v)" by (cases x)
  have "canonical_key k \<noteq> j" using Cons.prems [of k v] by (simp add: x)
  then have "header_set k v h j = h j" by (simp add: header_set_def)
  moreover have "fold (\<lambda>(k, v). header_set k v) hs (header_set k v h) j = header_set k v h j"
    using Cons.prems by (intro Cons.IH) (auto simp: x)
  ultimately show ?case by (simp add: x)
qed






subsection \<open>Refreshing\<close>

text \<open>
  A refresh is remembered. What a successful refresh returns is what is stored; and as long as
  it has not run out, later requests use it without asking the provider again: whatever the
  provider would answer, the headers are those of the stored token, or the store cannot be read.
\<close>

theorem refresh_is_remembered:
  assumes "refresh_remote_token refresher t1 t2 name url w = (Inr a, w')"
    and "\<not> auth_token_expired a t"
  shows "stored_auth name w' = Some a \<and>
         (fst (resolve_auth_headers any t s1 s2 name url w') = Inr (auth_headers a) \<or>
          (\<exists>e. fst (resolve_auth_headers any t s1 s2 name url w') = Inl (ProxyLoadAuth e)))"
proof -
  from refresh_remote_token_ok [OF assms(1)] have st: "stored_auth name w' = Some a" by simp
  then have v: "store_view (mw_secrets w') (remote_mcp_auth_key name) = Some (Doc (AuthText a))"
    by (auto simp: stored_auth_def split: option.splits doc.splits secret_value.splits)
  obtain r s where g: "secret_get (remote_mcp_auth_key name) (mw_secrets w') = (r, s)"
    by (rule prod.exhaust)
  have "(\<exists>e. r = Inl e) \<or> r = Inr (AuthText a)"
    using v g secret_get_value [of "remote_mcp_auth_key name" "mw_secrets w'" _ s] by (cases r) auto
  with g st assms(2) show ?thesis
    by (auto simp: resolve_auth_headers_def get_remote_mcp_auth_def)
qed

text \<open>
  When the provider's answer carries no lifetime, the expiry that has passed stays: the new token
  counts as expired, and every request refreshes again.
\<close>

lemma no_lifetime_refreshes_again:
  assumes "auth_token_expired old t1" and "tr_expires_in c \<le> 0" and "t1 \<le> t"
  shows "auth_token_expired (with_refreshed c t2 old) t"
  using assms by (auto simp: auth_token_expired_def with_refreshed_def Let_def split: if_splits)

subsection \<open>Concrete requests\<close>

definition expired_auth :: remote_mcp_auth where
  "expired_auth =
     \<lparr>ra_issuer = [], ra_authorization_endpoint = [], ra_token_endpoint = ''https://idp/token'',
      ra_registration_endpoint = [], ra_client_id = ''c'', ra_client_secret = [],
      ra_access_token = ''old'', ra_refresh_token = ''again'', ra_token_expiry = 1, ra_pending = None,
      ra_static_headers = [(''X-Team'', ''blue'')]\<rparr>"

definition authed_world :: mcp_world where
  "authed_world =
     \<lparr>mw_store = store_holding remote_mcps_store_key [sample_mcp ''a'' []],
      mw_secrets = doc_holding (remote_mcp_auth_key ''a'') (AuthText expired_auth)\<rparr>"

definition parse_sample :: "string \<Rightarrow> url_parts option" where
  "parse_sample u =
     (if u = ''https://mcp.example''
      then Some \<lparr>up_scheme = ''https'', up_host = ''mcp.example'', up_path = [], up_raw_query = []\<rparr> else None)"

definition grants_new :: refresher where
  "grants_new a u = Some \<lparr>tr_access = ''new'', tr_refresh = [], tr_expires_in = 3600\<rparr>"

definition agent_call :: agent_request where
  "agent_call =
     \<lparr>aq_path = ''/a/mcp'', aq_raw_query = ''x=1'',
      aq_headers = [''X-Tclaw-Proxy-Token'' \<mapsto> [''tok''], ''Accept'' \<mapsto> [''*/*'']]\<rparr>"

definition sample_call :: "proxy_answer \<times> mcp_world" where
  "sample_call = proxy_handle parse_sample grants_new hour hour hour ''tok'' agent_call authed_world"

definition forwarded :: "proxy_answer \<Rightarrow> upstream_request option" where
  "forwarded a = (case a of Forwarded u \<Rightarrow> Some u | _ \<Rightarrow> None)"






text \<open>The expired token is refreshed, and the new one goes out.\<close>

lemma sample_call_sends_new_token:
  "map_option (\<lambda>u. (uq_headers u ''Authorization'', uq_headers u ''X-Team'', uq_path u)) (forwarded (fst sample_call)) =
     Some (Some [''Bearer new''], Some [''blue''], ''/mcp'')"
  by code_simp

theorem refresh_is_remembered_witness:
  "\<exists>a w'. refresh_remote_token grants_new hour hour ''a'' ''u'' authed_world = (Inr a, w') \<and>
      ra_access_token a = ''new'' \<and> stored_auth ''a'' w' = Some a"
proof -
  let ?r = "refresh_remote_token grants_new hour hour ''a'' ''u'' authed_world"
  have ok: "(case fst ?r of Inl e \<Rightarrow> False | Inr a \<Rightarrow> ra_access_token a = ''new'' \<and> \<not> auth_token_expired a (hour + minute))"
    by code_simp
  then obtain a where a: "fst ?r = Inr a" by (cases "fst ?r") auto
  then have r: "?r = (Inr a, snd ?r)" by (simp add: prod_eq_iff)
  from ok a have "ra_access_token a = ''new''" "\<not> auth_token_expired a (hour + minute)" by simp_all
  with refresh_is_remembered [OF r] r show ?thesis by blast
qed

end
