(* ===== verification/RepoSweep.thy ===== *)
theory RepoSweep
  imports Repo
begin

text \<open>
  The sweep over tracked repositories, \<open>router/repo_lifecycle.go\<close>: expired grants are withdrawn,
  unused clones dropped, stale mirrors fetched, and the channels told.

  A fetch is the git tools' (\<open>CloneOrFetch\<close>) and takes as long as the network does; it is the
  parameter \<open>fetch\<close>, which answers with success or not and may leave the store as other
  goroutines wrote it meanwhile. The directories on disk are a set, and \<open>rm_ok\<close> says which of
  them can be removed.
\<close>

definition config_repo_sync_depth :: int where "config_repo_sync_depth = 50"

record clone_params =
  cl_repo_dir :: string
  cl_url :: string
  cl_branch :: string
  cl_depth :: int
  cl_reset_to_remote :: bool

record sweep_world =
  sw_repos :: "repo_map store"
  sw_dirs :: "string set"
  sw_notes :: "(string list \<times> string) list"

record sweep_params =
  sp_notify :: bool
  sp_remote_url :: "string \<Rightarrow> string"
  sp_fetch :: "clone_params \<Rightarrow> sweep_world \<Rightarrow> bool \<times> sweep_world"
  sp_rm_ok :: "string \<Rightarrow> bool"

definition withdrawn :: "tracked_repo \<Rightarrow> tracked_repo" where
  "withdrawn r = r\<lparr>tr_access := AccessReadOnly, tr_drop_to_read_only_at := 0\<rparr>"

definition sweep_put :: "tracked_repo \<Rightarrow> sweep_world \<Rightarrow> bool \<times> sweep_world" where
  "sweep_put r w =
     (case repo_put r (sw_repos w) of (e, st) \<Rightarrow> (e = None, w\<lparr>sw_repos := st\<rparr>))"

definition expire_grant ::
  "sweep_params \<Rightarrow> time \<Rightarrow> tracked_repo \<Rightarrow> sweep_world \<Rightarrow> bool \<times> sweep_world" where
  "expire_grant p now r w =
     (if tr_drop_to_read_only_at r = 0 \<or> now < tr_drop_to_read_only_at r then (False, w)
      else if \<not> allows_push (tr_access r) then (False, w)
      else (case sweep_put (withdrawn r) w of
              (False, w1) \<Rightarrow> (False, w1)
            | (True, w1) \<Rightarrow>
                (True, if sp_notify p
                       then w1\<lparr>sw_notes := sw_notes w1 @ [(tr_channels r, tr_name r)]\<rparr> else w1)))"

definition drop_unused_clone ::
  "sweep_params \<Rightarrow> time \<Rightarrow> tracked_repo \<Rightarrow> sweep_world \<Rightarrow> sweep_world" where
  "drop_unused_clone p now r w =
     (if tr_drop_clone_if_unused_for r \<le> 0 then w
      else (let last_used = (if tr_last_used_at r = 0 then tr_added_at r else tr_last_used_at r)
            in if last_used = 0 \<or> time_sub now last_used < tr_drop_clone_if_unused_for r then w
               else if tr_repo_dir r \<notin> sw_dirs w then w
               else if \<not> sp_rm_ok p (tr_repo_dir r) then w
               else w\<lparr>sw_dirs := sw_dirs w - {tr_repo_dir r}\<rparr>))"

definition refresh_params :: "sweep_params \<Rightarrow> time \<Rightarrow> tracked_repo \<Rightarrow> clone_params" where
  "refresh_params p now r =
     \<lparr>cl_repo_dir = tr_repo_dir r, cl_url = sp_remote_url p (tr_name r), cl_branch = tr_branch r,
      cl_depth = config_repo_sync_depth,
      cl_reset_to_remote = (\<not> allows_push (effective_access r now))\<rparr>"

definition refresh_repo ::
  "sweep_params \<Rightarrow> time \<Rightarrow> tracked_repo \<Rightarrow> sweep_world \<Rightarrow> sweep_world" where
  "refresh_repo p now r w =
     (if tr_fetch_every r \<le> 0 then w
      else if tr_last_synced_at r \<noteq> 0 \<and> time_sub now (tr_last_synced_at r) < tr_fetch_every r then w
      else if tr_repo_dir r \<notin> sw_dirs w then w
      else (case sp_fetch p (refresh_params p now r) w of
              (False, w1) \<Rightarrow> w1
            | (True, w1) \<Rightarrow> snd (sweep_put (r\<lparr>tr_last_synced_at := now\<rparr>) w1)))"

definition sweep_one :: "sweep_params \<Rightarrow> time \<Rightarrow> tracked_repo \<Rightarrow> sweep_world \<Rightarrow> sweep_world" where
  "sweep_one p now r w =
     (case expire_grant p now r w of
        (True, w1) \<Rightarrow> w1
      | (False, w1) \<Rightarrow> refresh_repo p now r (drop_unused_clone p now r w1))"

text \<open>The range over the map of repos, in the order of its entries.\<close>

definition run_repo_sweep :: "sweep_params \<Rightarrow> time \<Rightarrow> sweep_world \<Rightarrow> sweep_world" where
  "run_repo_sweep p now w =
     (case repo_list (sw_repos w) of
        (Inl e, st) \<Rightarrow> w\<lparr>sw_repos := st\<rparr>
      | (Inr m, st) \<Rightarrow> fold (sweep_one p now) (map snd m) (w\<lparr>sw_repos := st\<rparr>))"

text \<open>The channels a lifecycle message goes to: all of them when the repo names none.\<close>

definition notified_channels :: "string list \<Rightarrow> string list \<Rightarrow> string list" where
  "notified_channels scope live = filter (\<lambda>n. scope = [] \<or> n \<in> set scope) live"

subsection \<open>The sweep never widens access\<close>

text \<open>
  \<open>no_wider r r'\<close>: whatever the time, \<open>r'\<close> gives no more access than \<open>r\<close>, to the same channels of
  the same repository with the same credential; only the tier, its drop date and the time of the
  last fetch may differ. \<open>narrower m m'\<close>: every repo of \<open>m'\<close> is one of \<open>m\<close>, and no wider.
\<close>

definition no_wider :: "tracked_repo \<Rightarrow> tracked_repo \<Rightarrow> bool" where
  "no_wider r r' \<longleftrightarrow>
     (\<forall>t. \<not> exceeds (effective_access r' t) (effective_access r t)) \<and>
     (\<exists>a d s. r' = r\<lparr>tr_access := a, tr_drop_to_read_only_at := d, tr_last_synced_at := s\<rparr>)"

lemma no_wider_synced: "no_wider r (r\<lparr>tr_last_synced_at := s\<rparr>)"
  unfolding no_wider_def
  by (intro conjI allI exI [of _ "tr_access r"] exI [of _ "tr_drop_to_read_only_at r"] exI [of _ s])
     (simp_all add: exceeds_def effective_access_def)

lemma no_wider_withdrawn: "no_wider r (withdrawn r)"
  unfolding no_wider_def
  by (intro conjI allI exI [of _ AccessReadOnly] exI [of _ 0] exI [of _ "tr_last_synced_at r"])
     (simp_all add: exceeds_def effective_access_def withdrawn_def access_rank_def)

lemma no_wider_refl: "no_wider r r"
  using no_wider_synced [of r "tr_last_synced_at r"] by simp

definition narrower :: "repo_map \<Rightarrow> repo_map \<Rightarrow> bool" where
  "narrower m m' \<longleftrightarrow>
     (\<forall>n r'. map_of m' n = Some r' \<longrightarrow> (\<exists>r. map_of m n = Some r \<and> no_wider r r'))"

text \<open>Each entry is kept under its own name, as \<open>Put\<close> keeps them.\<close>

definition well_keyed :: "repo_map \<Rightarrow> bool" where
  "well_keyed m \<longleftrightarrow> distinct (map fst m) \<and> (\<forall>n r. (n, r) \<in> set m \<longrightarrow> n = tr_name r)"

definition stays_narrow :: "repo_map \<Rightarrow> sweep_world \<Rightarrow> bool" where
  "stays_narrow m w \<longleftrightarrow> (\<forall>m'. repo_view (sw_repos w) = Inr m' \<longrightarrow> narrower m m')"

text \<open>A fetch that leaves the store of repos alone.\<close>

definition quiet_fetch :: "sweep_params \<Rightarrow> bool" where
  "quiet_fetch p \<longleftrightarrow> (\<forall>c w. sw_repos (snd (sp_fetch p c w)) = sw_repos w)"

lemma store_set_outcomes:
  "store_set k v st = (e, st') \<Longrightarrow>
     store_view st' = store_view st \<or> (store_view st' k = Some (Doc v) \<and> e = None) \<or>
     store_view st' k \<in> {Some EmptyFile, Some Malformed}"
  by (auto simp: store_set_def store_view_def fun_eq_iff next_io_def
      split: option.splits prod.splits io.splits if_splits list.splits)

lemma repo_put_outcomes:
  assumes "repo_put r st = (e, st')" and "repo_view st' = Inr m'"
  shows "repo_view st = Inr m' \<or> (\<exists>m. repo_view st = Inr m \<and> m' = AList.update (tr_name r) r m)"
proof -
  obtain l st1 where l: "repo_list st = (l, st1)" by (rule prod.exhaust)
  have same: "repo_view st1 = repo_view st" using repo_list_frame [OF l] by (simp add: repo_view_def)
  show ?thesis
  proof (cases l)
    case (Inl x)
    with assms l same show ?thesis by (simp add: repo_put_def)
  next
    case (Inr m)
    obtain x where x: "store_set repos_key (AList.update (tr_name r) r m) st1 = (x, st')"
      using assms(1) l Inr by (auto simp: repo_put_def repo_save_def split: prod.splits option.splits)
    from store_set_outcomes [OF x] assms(2) same repo_list_view l Inr show ?thesis
      by (auto simp: repo_view_def repos_decode_def)
  qed
qed

lemma stays_narrow_put:
  assumes "stays_narrow m w" and "map_of m (tr_name r) = Some r0" and "no_wider r0 r"
  shows "stays_narrow m (snd (sweep_put r w))"
proof -
  obtain e st where put: "repo_put r (sw_repos w) = (e, st)" by (rule prod.exhaust)
  show ?thesis
    unfolding stays_narrow_def sweep_put_def put
  proof (intro allI impI)
    fix m' assume "repo_view (sw_repos (snd (case (e, st) of (e, st) \<Rightarrow> (e = None, w\<lparr>sw_repos := st\<rparr>)))) = Inr m'"
    then have "repo_view st = Inr m'" by simp
    from repo_put_outcomes [OF put this] show "narrower m m'"
      using assms by (auto simp: stays_narrow_def narrower_def update_conv' split: if_splits)
  qed
qed

lemma sweep_put_eq: "sweep_put r w = (b, w') \<Longrightarrow> w' = snd (sweep_put r w)"
  by simp

lemma stays_narrow_repos: "sw_repos w = sw_repos w' \<Longrightarrow> stays_narrow m w = stays_narrow m w'"
  by (simp add: stays_narrow_def)

lemma expire_grant_narrow:
  assumes "stays_narrow m w" and "map_of m (tr_name r) = Some r"
  shows "stays_narrow m (snd (expire_grant p now r w))"
proof -
  have "stays_narrow m (snd (sweep_put (withdrawn r) w))"
    using assms by (intro stays_narrow_put [of m w _ r]) (simp_all add: no_wider_withdrawn, simp add: withdrawn_def)
  then show ?thesis
    using assms(1)
    by (auto simp: expire_grant_def stays_narrow_def split: prod.splits bool.splits)
qed

lemma drop_unused_repos [simp]: "sw_repos (drop_unused_clone p now r w) = sw_repos w"
  by (simp add: drop_unused_clone_def Let_def)

lemma refresh_repo_narrow:
  assumes "stays_narrow m w" and "map_of m (tr_name r) = Some r" and "quiet_fetch p"
  shows "stays_narrow m (refresh_repo p now r w)"
proof -
  obtain b w1 where f: "sp_fetch p (refresh_params p now r) w = (b, w1)" by (rule prod.exhaust)
  have "sw_repos w1 = sw_repos w"
    using assms(3) f by (metis quiet_fetch_def snd_conv)
  then have n: "stays_narrow m w1" using assms(1) stays_narrow_repos by blast
  then have "stays_narrow m (snd (sweep_put (r\<lparr>tr_last_synced_at := now\<rparr>) w1))"
    using assms(2) by (intro stays_narrow_put [of m w1 _ r]) (simp_all add: no_wider_synced)
  with n assms(1) f show ?thesis by (auto simp: refresh_repo_def split: bool.splits)
qed

lemma sweep_one_narrow:
  assumes "stays_narrow m w" and "map_of m (tr_name r) = Some r" and "quiet_fetch p"
  shows "stays_narrow m (sweep_one p now r w)"
proof -
  obtain b w1 where e: "expire_grant p now r w = (b, w1)" by (rule prod.exhaust)
  have w1: "stays_narrow m w1" using expire_grant_narrow [OF assms(1,2), of p now] e by simp
  then have "stays_narrow m (drop_unused_clone p now r w1)"
    using stays_narrow_repos [of "drop_unused_clone p now r w1" w1] by simp
  with w1 e refresh_repo_narrow [OF _ assms(2,3)] show ?thesis
    by (simp add: sweep_one_def split: bool.splits)
qed

text \<open>
  C22. The sweep never widens access. When nobody else writes the repos during its fetches, then after
  a round of the sweep, whichever writes failed, every repo that is tracked was tracked before, and
  at no time, now or later, is its access in force more than it was before the round: a temporary
  grant is never made to last longer, and a lapsed one never comes back. Its channels, credential,
  URL, branch and directories are the same, and so is everything else but the tier, its drop date
  and the time of the last fetch.
\<close>

theorem sweep_never_widens_access:
  assumes "quiet_fetch p" and "repo_view (sw_repos w) = Inr m" and "well_keyed m"
    and "repo_view (sw_repos (run_repo_sweep p now w)) = Inr m'"
  shows "narrower m m'"
proof -
  obtain l st where l: "repo_list (sw_repos w) = (l, st)" by (rule prod.exhaust)
  have same: "repo_view st = Inr m" using repo_list_frame [OF l] assms(2) by (simp add: repo_view_def)
  have start: "stays_narrow m (w\<lparr>sw_repos := st\<rparr>)"
    using same by (auto simp: stays_narrow_def narrower_def no_wider_refl)
  have "stays_narrow m (run_repo_sweep p now w)"
  proof (cases l)
    case (Inl e)
    with l start show ?thesis by (simp add: run_repo_sweep_def)
  next
    case (Inr m0)
    with repo_list_view l assms(2) have m0: "m0 = m" by fastforce
    have at: "map_of m (tr_name r) = Some r" if "r \<in> set (map snd m)" for r
      using that assms(3) by (auto simp: well_keyed_def)
    have "stays_narrow m (fold (sweep_one p now) rs v)"
      if "stays_narrow m v" "set rs \<subseteq> set (map snd m)" for rs v
      using that
      by (induction rs arbitrary: v) (simp_all add: sweep_one_narrow assms(1) at)
    with start l Inr m0 show ?thesis by (simp add: run_repo_sweep_def)
  qed
  with assms(4) show ?thesis by (simp add: stays_narrow_def)
qed

definition sweep_world_with :: "tracked_repo \<Rightarrow> sweep_world" where
  "sweep_world_with r =
     \<lparr>sw_repos = doc_holding repos_key [(tr_name r, r)], sw_dirs = {tr_repo_dir r}, sw_notes = []\<rparr>"

definition calm_params :: sweep_params where
  "calm_params =
     \<lparr>sp_notify = True, sp_remote_url = (\<lambda>n. ''http://p/'' @ n), sp_fetch = (\<lambda>c w. (True, w)), sp_rm_ok = (\<lambda>d. True)\<rparr>"

lemma sweep_repos_path: "safe_path ''/data'' repos_key = Some ''/data/tracked_repos''"
  by code_simp

lemma sweep_world_view: "repo_view (sw_repos (sweep_world_with r)) = Inr [(tr_name r, r)]"
  by (simp add: sweep_world_with_def repo_view_def repos_decode_def store_view_def doc_holding_def
      fresh_store_def sweep_repos_path)

theorem sweep_never_widens_access_witness:
  "narrower [(''app'', sample_repo)] [(''app'', withdrawn sample_repo)] \<and> effective_access sample_repo 100 = AccessPullRequestsOnly"
proof -
  have "repo_view (sw_repos (run_repo_sweep calm_params 100 (sweep_world_with sample_repo))) =
        Inr [(''app'', withdrawn sample_repo)]"
    by code_simp
  moreover have "repo_view (sw_repos (sweep_world_with sample_repo)) = Inr [(''app'', sample_repo)]"
    by (simp add: sweep_world_view) (simp add: sample_repo_def)
  moreover have "quiet_fetch calm_params" by (simp add: quiet_fetch_def calm_params_def)
  moreover have "well_keyed [(''app'', sample_repo)]" by (simp add: well_keyed_def sample_repo_def)
  moreover have "effective_access sample_repo 100 = AccessPullRequestsOnly" by code_simp
  ultimately show ?thesis using sweep_never_widens_access by blast
qed

text \<open>
  With a writer during the fetch the hypothesis fails, and so does the conclusion: the sweep
  saves the copy it read before the fetch. Here push access is taken away while the mirror is
  being fetched, and the sweep's own write brings it back.
\<close>

definition revoking_params :: sweep_params where
  "revoking_params =
     calm_params\<lparr>sp_fetch := (\<lambda>c w. (True, snd (sweep_put (sample_repo\<lparr>tr_fetch_every := 1, tr_access := AccessReadOnly\<rparr>) w)))\<rparr>"

lemma revoked_access_comes_back:
  "(let r = sample_repo\<lparr>tr_fetch_every := 1\<rparr>; w = sweep_world_with r;
        fetched = snd (sp_fetch revoking_params (refresh_params revoking_params 50 r) w)
    in (case repo_view (sw_repos fetched) of Inr m \<Rightarrow> map_option tr_access (map_of m ''app'') | _ \<Rightarrow> None) = Some AccessReadOnly \<and>
       (case repo_view (sw_repos (run_repo_sweep revoking_params 50 w)) of
          Inr m \<Rightarrow> map_option tr_access (map_of m ''app'') | _ \<Rightarrow> None) = Some AccessPullRequestsOnly)"
  by code_simp

end
