(* ===== verification/DevSessions.thy ===== *)
theory DevSessions
  imports Store "HOL-Library.AList"
begin

text \<open>
  Sessions of development work, \<open>dev/store.go\<close> and \<open>dev/session.go\<close>: which branches are being
  worked on, from which channel, and which of them a channel may act on. The map of sessions is
  its list of entries, in the order a range walks it.
\<close>

record dev_session =
  ds_branch :: string
  ds_worktree_dir :: string
  ds_repo_dir :: string
  ds_status :: string
  ds_created_at :: time
  ds_channel :: string

type_synonym session_map = "(string \<times> dev_session) list"

datatype dev_error =
    DevRead store_error | DevParse | DevSave store_error
  | NoActiveSessions | NoSessionForBranch string | SessionElsewhere string string
  | NoSessionsHere | AmbiguousSessions "string list"

definition sessions_key :: string where "sessions_key = ''dev_sessions''"

definition sessions_decode :: "session_map doc option \<Rightarrow> dev_error + session_map" where
  "sessions_decode d =
     (case d of None \<Rightarrow> Inr [] | Some (Doc m) \<Rightarrow> Inr m | Some _ \<Rightarrow> Inl DevParse)"

definition list_sessions :: "session_map store \<Rightarrow> (dev_error + session_map) \<times> session_map store" where
  "list_sessions st =
     (case store_get sessions_key st of
        (Inl e, st') \<Rightarrow> (Inl (DevRead e), st')
      | (Inr d, st') \<Rightarrow> (sessions_decode d, st'))"

definition dev_save_sessions :: "session_map \<Rightarrow> session_map store \<Rightarrow> dev_error option \<times> session_map store" where
  "dev_save_sessions m st =
     (case store_set sessions_key m st of
        (Some e, st') \<Rightarrow> (Some (DevSave e), st')
      | (None, st') \<Rightarrow> (None, st'))"

definition get_session ::
  "string \<Rightarrow> session_map store \<Rightarrow> (dev_error + dev_session option) \<times> session_map store" where
  "get_session branch st =
     (case list_sessions st of
        (Inl e, st') \<Rightarrow> (Inl e, st')
      | (Inr m, st') \<Rightarrow> (Inr (map_of m branch), st'))"

definition put_session :: "dev_session \<Rightarrow> session_map store \<Rightarrow> dev_error option \<times> session_map store" where
  "put_session s st =
     (case list_sessions st of
        (Inl e, st') \<Rightarrow> (Some e, st')
      | (Inr m, st') \<Rightarrow> dev_save_sessions (AList.update (ds_branch s) s m) st')"

definition delete_session :: "string \<Rightarrow> session_map store \<Rightarrow> dev_error option \<times> session_map store" where
  "delete_session branch st =
     (case list_sessions st of
        (Inl e, st') \<Rightarrow> (Some e, st')
      | (Inr m, st') \<Rightarrow> dev_save_sessions (AList.delete branch m) st')"

definition delete_sessions_by_channel ::
  "string \<Rightarrow> session_map store \<Rightarrow> (dev_error + dev_session list) \<times> session_map store" where
  "delete_sessions_by_channel name st =
     (if name = [] then (Inr [], st)
      else case list_sessions st of
             (Inl e, st') \<Rightarrow> (Inl e, st')
           | (Inr m, st') \<Rightarrow>
               (let removed = map snd (filter (\<lambda>(b, s). ds_channel s = name) m);
                    kept = filter (\<lambda>(b, s). ds_channel s \<noteq> name) m
                in if removed = [] then (Inr [], st')
                   else case dev_save_sessions kept st' of
                          (Some e, st'') \<Rightarrow> (Inl e, st'')
                        | (None, st'') \<Rightarrow> (Inr removed, st'')))"

definition session_in_scope :: "dev_session \<Rightarrow> string \<Rightarrow> bool" where
  "session_in_scope s channel =
     (if channel = [] \<or> ds_channel s = [] then True else ds_channel s = channel)"

record resolve_params =
  rp_session :: string
  rp_channel :: string

definition resolve_session ::
  "resolve_params \<Rightarrow> session_map store \<Rightarrow> (dev_error + dev_session) \<times> session_map store" where
  "resolve_session p st =
     (case list_sessions st of
        (Inl e, st') \<Rightarrow> (Inl e, st')
      | (Inr m, st') \<Rightarrow>
          (if m = [] then Inl NoActiveSessions
           else if rp_session p \<noteq> []
           then (case map_of m (rp_session p) of
                   None \<Rightarrow> Inl (NoSessionForBranch (rp_session p))
                 | Some s \<Rightarrow>
                     if \<not> session_in_scope s (rp_channel p)
                     then Inl (SessionElsewhere (rp_session p) (ds_channel s))
                     else Inr s)
           else (let scoped = filter (\<lambda>(b, s). session_in_scope s (rp_channel p)) m
                 in case scoped of
                      [] \<Rightarrow> Inl NoSessionsHere
                    | [(b, s)] \<Rightarrow> Inr s
                    | _ \<Rightarrow> Inl (AmbiguousSessions (map fst scoped))), st'))"

definition list_sessions_for_channel ::
  "string \<Rightarrow> session_map store \<Rightarrow> (dev_error + session_map) \<times> session_map store" where
  "list_sessions_for_channel channel st =
     (case list_sessions st of
        (Inl e, st') \<Rightarrow> (Inl e, st')
      | (Inr m, st') \<Rightarrow> (Inr (filter (\<lambda>(b, s). session_in_scope s channel) m), st'))"

subsection \<open>What is stored\<close>

definition sessions_view :: "session_map store \<Rightarrow> dev_error + session_map" where
  "sessions_view st = sessions_decode (store_view st sessions_key)"

lemma list_sessions_view: "list_sessions st = (Inr m, st') \<Longrightarrow> sessions_view st = Inr m"
  by (auto simp: list_sessions_def sessions_view_def split: prod.splits sum.splits dest: fs.get_ok)

lemma list_sessions_frame: "list_sessions st = (r, st') \<Longrightarrow> store_view st' = store_view st"
  by (auto simp: list_sessions_def split: prod.splits sum.splits dest: fs.get_frame)

lemma dev_save_sessions_ok: "dev_save_sessions m st = (None, st') \<Longrightarrow> sessions_view st' = Inr m"
  by (auto simp: dev_save_sessions_def sessions_view_def sessions_decode_def
      split: prod.splits option.splits dest: fs.set_ok)

lemma put_session_ok:
  "put_session s st = (None, st') \<Longrightarrow>
     \<exists>m. sessions_view st = Inr m \<and> sessions_view st' = Inr (AList.update (ds_branch s) s m)"
  by (auto simp: put_session_def split: prod.splits sum.splits dest!: list_sessions_view dev_save_sessions_ok)

lemma put_then_get_session:
  "put_session s st = (None, st') \<Longrightarrow> get_session (ds_branch s) st' = (Inr x, st'') \<Longrightarrow> x = Some s"
  by (auto simp: get_session_def update_conv' split: prod.splits sum.splits
      dest!: put_session_ok list_sessions_view)

lemma delete_session_ok:
  "delete_session b st = (None, st') \<Longrightarrow>
     \<exists>m. sessions_view st = Inr m \<and> sessions_view st' = Inr (AList.delete b m)"
  by (auto simp: delete_session_def split: prod.splits sum.splits dest!: list_sessions_view dev_save_sessions_ok)

text \<open>
  What a teardown removes are exactly the channel's sessions: a session of another channel, or of
  none, is never removed, and no session of the channel stays.
\<close>

lemma delete_by_channel_exact:
  assumes "delete_sessions_by_channel name st = (Inr removed, st')" and "name \<noteq> []"
  shows "\<exists>m. sessions_view st = Inr m \<and> set removed = {s. s \<in> snd ` set m \<and> ds_channel s = name} \<and>
             sessions_view st' = Inr (filter (\<lambda>(b, s). ds_channel s \<noteq> name) m)"
proof -
  obtain l st1 where l: "list_sessions st = (l, st1)" by (rule prod.exhaust)
  with assms obtain m where m: "l = Inr m"
    by (auto simp: delete_sessions_by_channel_def split: sum.splits)
  note v = list_sessions_view [OF l [unfolded m]]
  have removed: "removed = map snd (filter (\<lambda>(b, s). ds_channel s = name) m)"
    using assms l m
    by (auto simp: delete_sessions_by_channel_def Let_def split: if_splits prod.splits option.splits)
  have "sessions_view st' = Inr (filter (\<lambda>(b, s). ds_channel s \<noteq> name) m)"
  proof (cases "removed = []")
    case True
    then have "filter (\<lambda>(b, s). ds_channel s \<noteq> name) m = m"
      unfolding removed by (auto simp: filter_empty_conv intro!: filter_True)
    moreover have "st' = st1"
      using assms l m True removed by (auto simp: delete_sessions_by_channel_def Let_def split: if_splits)
    ultimately show ?thesis using v list_sessions_frame [OF l] by (simp add: sessions_view_def)
  next
    case False
    with assms l m removed show ?thesis
      by (auto simp: delete_sessions_by_channel_def Let_def split: if_splits prod.splits option.splits
          dest: dev_save_sessions_ok)
  qed
  with v show ?thesis by (force simp: removed)
qed

text \<open>
  A channel acts on its own work only. Whichever session a development tool resolves from a
  channel, by name or by default, is one of the stored sessions and belongs to that channel or to
  none; and the default is taken only when it is the channel's single one.
\<close>

theorem resolved_session_is_in_scope:
  assumes "resolve_session p st = (Inr s, st')" and "rp_channel p \<noteq> []"
  shows "ds_channel s \<in> {[], rp_channel p} \<and>
         (\<exists>m b. sessions_view st = Inr m \<and> (b, s) \<in> set m \<and>
            (rp_session p = [] \<longrightarrow>
               (\<forall>b' s'. (b', s') \<in> set m \<longrightarrow> ds_channel s' \<in> {[], rp_channel p} \<longrightarrow> (b', s') = (b, s))))"
proof -
  obtain m where l: "list_sessions st = (Inr m, st')"
    using assms(1) by (auto simp: resolve_session_def split: prod.splits sum.splits)
  note v = list_sessions_view [OF l]
  have scope: "session_in_scope x (rp_channel p) \<longleftrightarrow> ds_channel x \<in> {[], rp_channel p}" for x
    using assms(2) by (auto simp: session_in_scope_def)
  show ?thesis
  proof (cases "rp_session p = []")
    case False
    with assms(1) l have "map_of m (rp_session p) = Some s" "session_in_scope s (rp_channel p)"
      by (auto simp: resolve_session_def split: if_splits option.splits)
    with v scope False show ?thesis by (auto dest: map_of_SomeD)
  next
    case True
    with assms(1) l obtain b where only: "filter (\<lambda>(b, s). session_in_scope s (rp_channel p)) m = [(b, s)]"
      by (auto simp: resolve_session_def Let_def split: if_splits list.splits)
    then have iff: "(b', s') \<in> set m \<and> session_in_scope s' (rp_channel p) \<longleftrightarrow> (b', s') = (b, s)" for b' s'
    proof -
      have "(b', s') \<in> set (filter (\<lambda>(b, s). session_in_scope s (rp_channel p)) m) \<longleftrightarrow> (b', s') = (b, s)"
        unfolding only by simp
      then show ?thesis by simp
    qed
    from iff [of b s] have "(b, s) \<in> set m" "ds_channel s \<in> {[], rp_channel p}" by (simp_all add: scope)
    moreover have "(b', s') = (b, s)" if "(b', s') \<in> set m" "ds_channel s' \<in> {[], rp_channel p}" for b' s'
      using iff [of b' s'] that scope by blast
    ultimately show ?thesis using v by blast
  qed
qed

definition session_on :: "string \<Rightarrow> string \<Rightarrow> dev_session" where
  "session_on branch channel =
     \<lparr>ds_branch = branch, ds_worktree_dir = ''/w'', ds_repo_dir = ''/r'', ds_status = ''active'',
      ds_created_at = 1, ds_channel = channel\<rparr>"

definition sample_sessions :: "session_map store" where
  "sample_sessions = doc_holding sessions_key [(''a'', session_on ''a'' ''dev''), (''b'', session_on ''b'' ''ops'')]"

theorem resolved_session_is_in_scope_witness:
  "\<exists>s st'. resolve_session \<lparr>rp_session = [], rp_channel = ''dev''\<rparr> sample_sessions = (Inr s, st') \<and>
     ds_channel s \<in> {[], ''dev''} \<and> ds_branch s = ''a''"
proof -
  let ?r = "resolve_session \<lparr>rp_session = [], rp_channel = ''dev''\<rparr> sample_sessions"
  have "fst ?r = Inr (session_on ''a'' ''dev'')" by code_simp
  then have r: "?r = (Inr (session_on ''a'' ''dev''), snd ?r)" by (simp add: prod_eq_iff)
  have "ds_channel (session_on ''a'' ''dev'') \<in> {[], ''dev''}"
    using resolved_session_is_in_scope [OF r] by simp
  moreover have "ds_branch (session_on ''a'' ''dev'') = ''a''" by (simp add: session_on_def)
  ultimately show ?thesis using r by blast
qed

end
