(* ===== verification/Lifecycle.thy ===== *)
theory Lifecycle
  imports Confirm Queue DevSessions
begin

text \<open>
  How channels come to be and go: the reconciler (\<open>reconciler/reconciler.go\<close>), which provisions
  what the config asks for, the reaper of idle ephemeral channels (\<open>router/ephemeral.go\<close>), and
  the message to a channel's parent (\<open>router/parent_notify.go\<close>).

  A transport's provisioner talks to its platform; what it answers is a record of functions, and
  what it was asked to do is logged in order. Durations in the config are parsed by the library
  (\<open>parse\<close>), and \<open>clock n\<close> is the time read while the channel \<open>n\<close> is looked at.
\<close>

subsection \<open>Reconciliation\<close>

record channel_provisioner =
  pr_is_ready :: "string \<Rightarrow> bool"
  pr_can_auto :: bool
  pr_provision :: "string \<Rightarrow> (string + platform_state \<times> teardown_state)"
  pr_teardown :: "teardown_state \<Rightarrow> string option"
  pr_validate_create :: "string \<Rightarrow> string option"
  pr_notify :: "string \<Rightarrow> string \<Rightarrow> string option"
  pr_response_info :: "teardown_state \<Rightarrow> (string \<times> string) list"

datatype lifecycle_event = Provisioned string string | Teardown string teardown_state

datatype channel_status = ChannelReady | ChannelNeedsSetup

record 'p reconciled_channel =
  rn_config :: channel_config
  rn_state :: "'p runtime_state"
  rn_status :: channel_status
  rn_provision_err :: "string option"

datatype reconcile_error = ReadState string rs_error | StoreState string rs_error | RereadState string rs_error
  | ProvisionFailed string

record 'p reconcile_world =
  rw_runtime :: "'p runtime_state store"
  rw_events :: "lifecycle_event list"

record reconcile_params =
  rp_provisioners :: "string \<Rightarrow> channel_provisioner option"
  rp_skip_provision :: bool

definition reconciled ::
  "channel_config \<Rightarrow> 'p runtime_state \<Rightarrow> channel_status \<Rightarrow> string option \<Rightarrow> 'p reconciled_channel" where
  "reconciled ch rs status e =
     \<lparr>rn_config = ch, rn_state = rs, rn_status = status, rn_provision_err = e\<rparr>"

text \<open>The body of \<open>Reconcile\<close>'s loop.\<close>

definition reconcile_channel ::
  "reconcile_params \<Rightarrow> channel_config \<Rightarrow> 'p reconcile_world
     \<Rightarrow> (reconcile_error + 'p reconciled_channel) \<times> 'p reconcile_world" where
  "reconcile_channel p ch w =
     (case rs_get (cc_name ch) (rw_runtime w) of
        (Inl e, st) \<Rightarrow> (Inl (ReadState (cc_name ch) e), w\<lparr>rw_runtime := st\<rparr>)
      | (Inr rs, st) \<Rightarrow>
          (let w1 = w\<lparr>rw_runtime := st\<rparr>
           in case rp_provisioners p (cc_type ch) of
                None \<Rightarrow> (Inr (reconciled ch rs ChannelReady None), w1)
              | Some pv \<Rightarrow>
                  if pr_is_ready pv (cc_name ch) then (Inr (reconciled ch rs ChannelReady None), w1)
                  else if \<not> pr_can_auto pv then (Inr (reconciled ch rs ChannelNeedsSetup None), w1)
                  else if rp_skip_provision p then (Inr (reconciled ch rs ChannelNeedsSetup None), w1)
                  else
                    (let w2 = w1\<lparr>rw_events := rw_events w1 @ [Provisioned (cc_type ch) (cc_name ch)]\<rparr>
                     in case pr_provision pv (cc_name ch) of
                          Inl e \<Rightarrow> (Inr (reconciled ch rs ChannelNeedsSetup (Some e)), w2)
                        | Inr (plat, tear) \<Rightarrow>
                            (case rs_update (cc_name ch)
                                    (\<lambda>s. ((), s\<lparr>rs_platform := plat, rs_teardown := tear\<rparr>)) (rw_runtime w2) of
                               (Inl e, st2) \<Rightarrow> (Inl (StoreState (cc_name ch) e), w2\<lparr>rw_runtime := st2\<rparr>)
                             | (Inr _, st2) \<Rightarrow>
                                 (case rs_get (cc_name ch) st2 of
                                    (Inl e, st3) \<Rightarrow> (Inl (RereadState (cc_name ch) e), w2\<lparr>rw_runtime := st3\<rparr>)
                                  | (Inr rs', st3) \<Rightarrow>
                                      (Inr (reconciled ch rs' ChannelReady None), w2\<lparr>rw_runtime := st3\<rparr>))))))"

fun reconcile ::
  "reconcile_params \<Rightarrow> channel_config list \<Rightarrow> 'p reconcile_world
     \<Rightarrow> (reconcile_error + 'p reconciled_channel list) \<times> 'p reconcile_world" where
  "reconcile p [] w = (Inr [], w)"
| "reconcile p (ch # chs) w =
     (case reconcile_channel p ch w of
        (Inl e, w1) \<Rightarrow> (Inl e, w1)
      | (Inr r, w1) \<Rightarrow>
          (case reconcile p chs w1 of
             (Inl e, w2) \<Rightarrow> (Inl e, w2)
           | (Inr rs, w2) \<Rightarrow> (Inr (r # rs), w2)))"

text \<open>\<open>ReconcileOne\<close> hands on the stores and provisioners, and nothing else of its parameters.\<close>

definition reconcile_one ::
  "reconcile_params \<Rightarrow> channel_config \<Rightarrow> 'p reconcile_world
     \<Rightarrow> (reconcile_error + 'p reconciled_channel) \<times> 'p reconcile_world" where
  "reconcile_one p ch w =
     (case reconcile \<lparr>rp_provisioners = rp_provisioners p, rp_skip_provision = False\<rparr> [ch] w of
        (Inl e, w1) \<Rightarrow> (Inl e, w1)
      | (Inr rcs, w1) \<Rightarrow>
          (let rc = hd rcs
           in (case rn_provision_err rc of Some e \<Rightarrow> Inl (ProvisionFailed e) | None \<Rightarrow> Inr rc), w1))"

subsection \<open>Telling the parent\<close>

definition resolve_channel_id :: "channel_map \<Rightarrow> string \<Rightarrow> channel_id" where
  "resolve_channel_id m name = (case chan_by_name m name of Some (i, c) \<Rightarrow> i | None \<Rightarrow> [])"

definition child_message :: "channel_id \<Rightarrow> string \<Rightarrow> string \<Rightarrow> tagged_message" where
  "child_message parent text child =
     \<lparr>tm_channel = parent, tm_text = text,
      tm_source = Some ((no_source SourceChild)\<lparr>si_child_channel := child\<rparr>)\<rparr>"

definition notify_parent ::
  "channel_map \<Rightarrow> string \<Rightarrow> string \<Rightarrow> string \<Rightarrow> time \<Rightarrow> 'p queue_world \<Rightarrow> 'p queue_world" where
  "notify_parent live child parent text now q =
     (if parent = [] then q
      else (let i = resolve_channel_id live parent
            in if i = [] then q else snd (queue_push now (child_message i text child) q)))"

subsection \<open>The reaper\<close>

definition default_ephemeral_idle_timeout :: duration where
  "default_ephemeral_idle_timeout = 24 * hour"

record cleanup_params =
  ep_codec :: yaml_codec
  ep_env :: string
  ep_user :: string
  ep_provisioners :: "string \<Rightarrow> channel_provisioner option"
  ep_tracker :: bool
  ep_dev_store :: bool
  ep_on_change :: bool
  ep_live :: channel_map
  ep_parse_duration :: "string \<Rightarrow> duration option"

record 'p reap_world =
  ew_config :: config_file
  ew_runtime :: "'p runtime_state store"
  ew_mcps :: mcp_world
  ew_dev :: "session_map store"
  ew_queue :: "'p queue_world"
  ew_events :: "lifecycle_event list"
  ew_logged :: "string \<rightharpoonup> string"
  ew_removed_dirs :: "string list"
  ew_changes :: nat

definition idle_timeout :: "(string \<Rightarrow> duration option) \<Rightarrow> channel_config \<Rightarrow> duration" where
  "idle_timeout parse ch =
     (if cc_idle_timeout ch \<noteq> []
      then (case parse (cc_idle_timeout ch) of Some d \<Rightarrow> d | None \<Rightarrow> default_ephemeral_idle_timeout)
      else default_ephemeral_idle_timeout)"

text \<open>The guards before the teardown: the channel is ephemeral, known to the tracker and idle.\<close>

definition reapable :: "cleanup_params \<Rightarrow> time \<Rightarrow> channel_config \<Rightarrow> 'p tracker \<Rightarrow> bool" where
  "reapable p now ch t =
     (cc_ephemeral ch \<and>
      (ep_tracker p \<longrightarrow>
         is_busy_with_timeout (cc_name ch) (idle_timeout (ep_parse_duration p) ch) now t = (False, True)))"

text \<open>
  \<open>cleanupDevSessionsForChannel\<close>: the sessions go, and then their worktrees, best effort; the
  log keeps which directories were removed.
\<close>

definition cleanup_dev_sessions :: "cleanup_params \<Rightarrow> string \<Rightarrow> 'p reap_world \<Rightarrow> 'p reap_world" where
  "cleanup_dev_sessions p name w =
     (if \<not> ep_dev_store p \<or> name = [] then w
      else (case delete_sessions_by_channel name (ew_dev w) of
              (Inl e, st) \<Rightarrow> w\<lparr>ew_dev := st\<rparr>
            | (Inr removed, st) \<Rightarrow>
                w\<lparr>ew_dev := st, ew_removed_dirs := ew_removed_dirs w @
                    filter (\<lambda>d. d \<noteq> []) (map ds_worktree_dir removed)\<rparr>))"

text \<open>The platform's side: \<open>False\<close> when the channel has to stay for now.\<close>

definition reap_platform ::
  "cleanup_params \<Rightarrow> channel_config \<Rightarrow> 'p runtime_state \<Rightarrow> 'p reap_world \<Rightarrow> bool \<times> 'p reap_world" where
  "reap_platform p ch rs w =
     (if \<not> has_teardown_state (rs_teardown rs) then (True, w)
      else (case ep_provisioners p (cc_type ch) of
              None \<Rightarrow>
                (False, w\<lparr>ew_logged := (ew_logged w)(cc_name ch \<mapsto>
                           ''no provisioner for channel type '' @ cc_type ch)\<rparr>)
            | Some pv \<Rightarrow>
                (let w1 = w\<lparr>ew_events := ew_events w @ [Teardown (cc_type ch) (rs_teardown rs)]\<rparr>
                 in case pr_teardown pv (rs_teardown rs) of
                      Some e \<Rightarrow> (False, w1\<lparr>ew_logged := (ew_logged w1)(cc_name ch \<mapsto> e)\<rparr>)
                    | None \<Rightarrow> (True, w1))))"

definition reaped_text :: "string \<Rightarrow> string" where
  "reaped_text name = ''Ephemeral channel '' @ [CHR 0x22] @ name @ [CHR 0x22] @ '' cleaned up (idle timeout).''"

definition reap_forget :: "cleanup_params \<Rightarrow> time \<Rightarrow> channel_config \<Rightarrow> 'p reap_world \<Rightarrow> 'p reap_world" where
  "reap_forget p now ch w =
     (let name = cc_name ch;
          w1 = w\<lparr>ew_runtime := snd (rs_delete name (ew_runtime w))\<rparr>;
          w2 = w1\<lparr>ew_mcps := (ew_mcps w1)\<lparr>mw_secrets :=
                    snd (secret_delete (channel_secret_key name) (mw_secrets (ew_mcps w1)))\<rparr>\<rparr>;
          w3 = cleanup_dev_sessions p name w2;
          w4 = w3\<lparr>ew_mcps := snd (remove_channel_from_all name (ew_mcps w3))\<rparr>;
          w5 = w4\<lparr>ew_logged := (ew_logged w4)(name := None)\<rparr>
      in w5\<lparr>ew_queue := notify_parent (ep_live p) name (cc_parent ch) (reaped_text name) now (ew_queue w5)\<rparr>)"

text \<open>One round of \<open>cleanupOnce\<close>'s loop; the flag is whether the channel was torn down.\<close>

definition cleanup_channel ::
  "cleanup_params \<Rightarrow> time \<Rightarrow> channel_config \<Rightarrow> 'p reap_world \<Rightarrow> bool \<times> 'p reap_world" where
  "cleanup_channel p now ch w =
     (if \<not> reapable p now ch (qw_tracker (ew_queue w)) then (False, w)
      else (case rs_get (cc_name ch) (ew_runtime w) of
              (Inl e, st) \<Rightarrow> (False, w\<lparr>ew_runtime := st\<rparr>)
            | (Inr rs, st) \<Rightarrow>
                (case reap_platform p ch rs (w\<lparr>ew_runtime := st\<rparr>) of
                   (False, w1) \<Rightarrow> (False, w1)
                 | (True, w1) \<Rightarrow>
                     (case cfg_remove_channel (ep_codec p) (ep_env p) (ep_user p) (cc_name ch) (ew_config w1) of
                        (Some e, cfg) \<Rightarrow> (False, w1\<lparr>ew_config := cfg\<rparr>)
                      | (None, cfg) \<Rightarrow> (True, reap_forget p now ch (w1\<lparr>ew_config := cfg\<rparr>))))))"

fun cleanup_channels ::
  "cleanup_params \<Rightarrow> (string \<Rightarrow> time) \<Rightarrow> channel_config list \<Rightarrow> 'p reap_world \<Rightarrow> bool \<times> 'p reap_world" where
  "cleanup_channels p clock [] w = (False, w)"
| "cleanup_channels p clock (ch # chs) w =
     (case cleanup_channel p (clock (cc_name ch)) ch w of
        (c, w1) \<Rightarrow> (case cleanup_channels p clock chs w1 of (cs, w2) \<Rightarrow> (c \<or> cs, w2)))"

definition cleanup_once :: "cleanup_params \<Rightarrow> (string \<Rightarrow> time) \<Rightarrow> 'p reap_world \<Rightarrow> 'p reap_world" where
  "cleanup_once p clock w =
     (case cfg_read_channels (ep_codec p) (ep_env p) (ep_user p) (ew_config w) of
        (Inl e, cfg) \<Rightarrow> w\<lparr>ew_config := cfg\<rparr>
      | (Inr chs, cfg) \<Rightarrow>
          (case cleanup_channels p clock chs (w\<lparr>ew_config := cfg\<rparr>) of
             (cleaned, w1) \<Rightarrow>
               if cleaned \<and> ep_on_change p then w1\<lparr>ew_changes := Suc (ew_changes w1)\<rparr> else w1))"

subsection \<open>What reconciliation decides\<close>

lemma rs_update_view_other:
  "rs_get n st = (r, st') \<Longrightarrow> rs_view st' = rs_view st"
  by (simp add: rs_get_frame)

definition should_be_ready :: "reconcile_params \<Rightarrow> channel_config \<Rightarrow> bool" where
  "should_be_ready p ch =
     (case rp_provisioners p (cc_type ch) of
        None \<Rightarrow> True
      | Some pv \<Rightarrow>
          pr_is_ready pv (cc_name ch) \<or>
          (pr_can_auto pv \<and> \<not> rp_skip_provision p \<and> (\<exists>x. pr_provision pv (cc_name ch) = Inr x)))"

lemma reconcile_channel_status:
  "reconcile_channel p ch w = (Inr r, w') \<Longrightarrow>
     rn_config r = ch \<and> (rn_status r = ChannelReady \<longleftrightarrow> should_be_ready p ch)"
  by (auto simp: reconcile_channel_def reconciled_def should_be_ready_def Let_def
      split: prod.splits sum.splits option.splits if_splits)

lemma reconcile_channel_skip:
  assumes "reconcile_channel p ch w = (r, w')" and "rp_skip_provision p"
  shows "rw_events w' = rw_events w \<and> rs_view (rw_runtime w') = rs_view (rw_runtime w)"
proof -
  obtain g st where g: "rs_get (cc_name ch) (rw_runtime w) = (g, st)" by (rule prod.exhaust)
  from assms g have "w' = w\<lparr>rw_runtime := st\<rparr>"
    by (auto simp: reconcile_channel_def Let_def split: sum.splits option.splits if_splits)
  with rs_get_frame [OF g] show ?thesis by simp
qed

text \<open>
  The reconciler reports every channel of the config, in order, and calls ready exactly those
  that need no provisioning, are provisioned, or have just been; and a pass over an unverified
  config asks no platform for anything and changes no recorded state, also when it ends in an
  error.
\<close>

theorem reconcile_reports_each_channel:
  assumes "reconcile p chs w = (res, w')"
  shows "(\<forall>rs. res = Inr rs \<longrightarrow>
            map rn_config rs = chs \<and>
            map (\<lambda>r. rn_status r = ChannelReady) rs = map (should_be_ready p) chs) \<and>
         (rp_skip_provision p \<longrightarrow>
            rw_events w' = rw_events w \<and> rs_view (rw_runtime w') = rs_view (rw_runtime w))"
  using assms
proof (induction chs arbitrary: w res w')
  case Nil
  then show ?case by auto
next
  case (Cons ch chs)
  obtain r w1 where r: "reconcile_channel p ch w = (r, w1)" by (rule prod.exhaust)
  obtain q w2 where q: "reconcile p chs w1 = (q, w2)" by (rule prod.exhaust)
  note skip = reconcile_channel_skip [OF r] and ih = Cons.IH [OF q]
  show ?case
  proof (cases r)
    case (Inl e)
    with Cons.prems r skip show ?thesis by auto
  next
    case (Inr x)
    note status = reconcile_channel_status [OF r [unfolded Inr]]
    from Cons.prems r q Inr have res: "w' = w2" "res = (case q of Inl e \<Rightarrow> Inl e | Inr rs \<Rightarrow> Inr (x # rs))"
      by (auto split: sum.splits)
    show ?thesis using ih skip status by (auto simp: res split: sum.splits)
  qed
qed

definition auto_bot :: channel_provisioner where
  "auto_bot =
     \<lparr>pr_is_ready = (\<lambda>n. n = ''old''), pr_can_auto = True,
      pr_provision = (\<lambda>n. Inr (\<lparr>ps_type = ''telegram'', ps_data = []\<rparr>, \<lparr>ts_type = ''telegram'', ts_data = []\<rparr>)),
      pr_teardown = (\<lambda>t. None), pr_validate_create = (\<lambda>d. None), pr_notify = (\<lambda>tok msg. None),
      pr_response_info = (\<lambda>t. [(''bot'', ts_data t)])\<rparr>"

definition bot_params :: "bool \<Rightarrow> reconcile_params" where
  "bot_params skip =
     \<lparr>rp_provisioners = (\<lambda>t. if t = ''telegram'' then Some auto_bot else None), rp_skip_provision = skip\<rparr>"

definition fresh_reconcile :: "unit reconcile_world" where
  "fresh_reconcile = \<lparr>rw_runtime = fresh_store, rw_events = []\<rparr>"

theorem reconcile_reports_each_channel_witness:
  "\<exists>rs w'. reconcile (bot_params True) [sample_channel ''old'' [], sample_channel ''new'' []] fresh_reconcile = (Inr rs, w') \<and>
     map (\<lambda>r. rn_status r = ChannelReady) rs = [True, False] \<and> rw_events w' = []"
proof -
  let ?chs = "[sample_channel ''old'' [], sample_channel ''new'' []]"
  let ?r = "reconcile (bot_params True) ?chs fresh_reconcile"
  have "(case fst ?r of Inr _ \<Rightarrow> True | Inl _ \<Rightarrow> False)" by code_simp
  then obtain rs where "fst ?r = Inr rs" by (cases "fst ?r") auto
  then have r: "?r = (Inr rs, snd ?r)" by (simp add: prod_eq_iff)
  have "map (should_be_ready (bot_params True)) ?chs = [True, False]"
    by (simp add: should_be_ready_def bot_params_def auto_bot_def sample_channel_def)
  moreover have "rw_events fresh_reconcile = []" "rp_skip_provision (bot_params True)"
    by (simp_all add: fresh_reconcile_def bot_params_def)
  ultimately have "map (\<lambda>r. rn_status r = ChannelReady) rs = [True, False]" "rw_events (snd ?r) = []"
    using reconcile_reports_each_channel [OF r] by simp_all
  with r show ?thesis by (intro exI conjI)
qed

text \<open>
  \<open>ReconcileOne\<close> does not hand on that provisioning is withheld, and provisions all the same.
\<close>

lemma reconcile_one_provisions_regardless:
  "rw_events (snd (reconcile_one (bot_params True) (sample_channel ''new'' []) fresh_reconcile)) =
     [Provisioned ''telegram'' ''new'']"
  by code_simp

subsection \<open>Whom the reaper spares\<close>

lemma config_channels_content:
  "cf_content f' = cf_content f \<Longrightarrow> config_channels codec env uid f' = config_channels codec env uid f"
  by (simp add: config_channels_def channel_nodes_def)

lemma decode_all_names:
  "codec_ok codec \<Longrightarrow> decode_all codec ns = Some cs \<Longrightarrow> map cc_name cs = map (\<lambda>n. node_scalar_value n ''name'') ns"
  by (induction ns arbitrary: cs) (auto simp: codec_ok_def split: option.splits)

lemma cfg_remove_ok:
  assumes "codec_ok codec" and "cfg_remove_channel codec env uid name f = (None, f')"
    and "config_channels codec env uid f = Some cs"
  shows "\<exists>i. i < length cs \<and> cc_name (cs ! i) = name \<and>
             config_channels codec env uid f' = Some (map (unlink name) (remove_at i cs))"
proof -
  from assms(2) have "cfg_mutate env uid (remove_channel_nodes codec name) f = (None, f')"
    by (simp add: cfg_remove_channel_def)
  from cfg_mutate_ok [OF this] obtain ns ns' where m: "channel_nodes env uid f = Some ns"
      "remove_channel_nodes codec name ns = Inr ns'" "channel_nodes env uid f' = Some ns'" by blast
  from m(2) obtain i where i: "first_index (\<lambda>n. node_scalar_value n ''name'' = name) ns = Some i"
      "strip_links codec name (remove_at i ns) = Inr ns'"
    by (auto simp: remove_channel_nodes_def split: option.splits)
  note at = first_index_less [OF i(1)] first_index_sat [OF i(1)]
  from assms(3) m(1) have dec: "decode_all codec ns = Some cs" by (simp add: config_channels_def)
  have "config_channels codec env uid f' = Some (map (unlink name) (remove_at i cs))"
    using strip_links_decode [OF assms(1) i(2)] decode_all_remove_at [OF dec at(1)] m(3)
    by (auto simp: config_channels_def)
  moreover have "i < length cs" "cc_name (cs ! i) = name"
    using at decode_all_length [OF dec] arg_cong [OF decode_all_names [OF assms(1) dec], of "\<lambda>xs. xs ! i"]
    by simp_all
  ultimately show ?thesis by blast
qed

lemma in_remove_at: "x \<in> set xs \<Longrightarrow> i < length xs \<Longrightarrow> x \<noteq> xs ! i \<Longrightarrow> x \<in> set (remove_at i xs)"
  using arg_cong [OF mset_remove_at [of i xs], of set_mset] by (auto simp: set_eq_iff)

lemma cfg_read_channels_view:
  assumes "cfg_read_channels codec env uid f = (Inr cs, f')"
  shows "config_channels codec env uid f = Some cs"
proof -
  obtain r f1 where r: "read_channel_nodes env uid f = (r, f1)" by (rule prod.exhaust)
  with assms obtain nodes put where n: "r = Inr (nodes, put)" "decode_all codec nodes = Some cs"
    by (auto simp: cfg_read_channels_def split: sum.splits option.splits)
  from read_nodes_view [OF r [unfolded n(1)]] n(2) show ?thesis
    by (auto simp: config_channels_def channel_nodes_def)
qed

text \<open>A channel of the config that is still there, with at most its links.\<close>

definition kept_in :: "channel_config \<Rightarrow> channel_config list \<Rightarrow> bool" where
  "kept_in c cs \<longleftrightarrow>
     (\<exists>c' \<in> set cs. c' = c\<lparr>cc_links := cc_links c'\<rparr> \<and> set (cc_links c') \<subseteq> set (cc_links c))"

definition reap_config :: "cleanup_params \<Rightarrow> 'p reap_world \<Rightarrow> channel_config list option" where
  "reap_config p w = config_channels (ep_codec p) (ep_env p) (ep_user p) (ew_config w)"

lemma kept_unlink:
  assumes "kept_in c cs"
  shows "kept_in c (map (unlink name) cs)"
proof -
  from assms obtain c' where c': "c' \<in> set cs" "c' = c\<lparr>cc_links := cc_links c'\<rparr>"
      "set (cc_links c') \<subseteq> set (cc_links c)"
    by (auto simp: kept_in_def)
  have "unlink name c' = c\<lparr>cc_links := cc_links (unlink name c')\<rparr>"
    unfolding unlink_def by (subst (1) c'(2)) simp
  moreover have "set (cc_links (unlink name c')) \<subseteq> set (cc_links c)"
    using c'(3) by (auto simp: unlink_def)
  ultimately show ?thesis
    unfolding kept_in_def by (intro bexI [of _ "unlink name c'"]) (simp_all add: c'(1))
qed

lemma kept_remove_at:
  assumes "kept_in c cs" and "i < length cs" and "cc_name (cs ! i) \<noteq> cc_name c"
  shows "kept_in c (remove_at i cs)"
proof -
  from assms(1) obtain c' where c': "c' \<in> set cs" "c' = c\<lparr>cc_links := cc_links c'\<rparr>"
      "set (cc_links c') \<subseteq> set (cc_links c)"
    by (auto simp: kept_in_def)
  have "cc_name c' = cc_name c" by (subst c'(2)) simp
  with assms c' have "c' \<in> set (remove_at i cs)" by (metis in_remove_at)
  with c' show ?thesis by (auto simp: kept_in_def)
qed

lemma queue_push_tracker [simp]: "qw_tracker (snd (queue_push now m q)) = qw_tracker q"
  by (simp add: queue_push_def queue_persist_def queue_write_def append_message_def split: prod.splits option.splits)

lemma notify_parent_tracker [simp]: "qw_tracker (notify_parent live child parent text now q) = qw_tracker q"
  by (simp add: notify_parent_def Let_def)

lemma reap_forget_frame [simp]:
  "ew_config (reap_forget p now ch w) = ew_config w"
  "qw_tracker (ew_queue (reap_forget p now ch w)) = qw_tracker (ew_queue w)"
  by (simp_all add: reap_forget_def cleanup_dev_sessions_def Let_def split: prod.splits sum.splits)

lemma reap_platform_frame:
  "reap_platform p ch rs w = (b, w') \<Longrightarrow>
     ew_config w' = ew_config w \<and> ew_queue w' = ew_queue w \<and> ew_runtime w' = ew_runtime w"
  by (auto simp: reap_platform_def Let_def split: if_splits option.splits)

lemma cleanup_channel_cases:
  assumes "cleanup_channel p now ch w = (b, w')" and "codec_ok (ep_codec p)"
    and "reap_config p w = Some cs"
  shows "qw_tracker (ew_queue w') = qw_tracker (ew_queue w) \<and>
         (if b then reapable p now ch (qw_tracker (ew_queue w)) \<and>
                 (\<exists>i. i < length cs \<and> cc_name (cs ! i) = cc_name ch \<and>
                    reap_config p w' = Some (map (unlink (cc_name ch)) (remove_at i cs)))
          else reap_config p w' = Some cs)"
proof (cases "reapable p now ch (qw_tracker (ew_queue w))")
  case False
  with assms show ?thesis by (simp add: cleanup_channel_def)
next
  case True
  obtain g st where g: "rs_get (cc_name ch) (ew_runtime w) = (g, st)" by (rule prod.exhaust)
  show ?thesis
  proof (cases g)
    case (Inl e)
    with assms g True show ?thesis by (auto simp: cleanup_channel_def reap_config_def)
  next
    case (Inr rs)
    obtain ok w1 where ok: "reap_platform p ch rs (w\<lparr>ew_runtime := st\<rparr>) = (ok, w1)" by (rule prod.exhaust)
    note f = reap_platform_frame [OF ok]
    obtain e cfg where cfg: "cfg_remove_channel (ep_codec p) (ep_env p) (ep_user p) (cc_name ch) (ew_config w1) = (e, cfg)"
      by (rule prod.exhaust)
    have same: "ew_config w1 = ew_config w" using f by simp
    have err: "config_channels (ep_codec p) (ep_env p) (ep_user p) cfg = Some cs" if "e = Some x" for x
      using cfg assms(3) that same cfg_mutate_fail config_channels_content
      by (metis cfg_remove_channel_def reap_config_def)
    have good: "\<exists>i. i < length cs \<and> cc_name (cs ! i) = cc_name ch \<and>
        config_channels (ep_codec p) (ep_env p) (ep_user p) cfg = Some (map (unlink (cc_name ch)) (remove_at i cs))"
      if "e = None"
      using cfg_remove_ok [OF assms(2) cfg [unfolded that]] assms(3) same by (simp add: reap_config_def)
    from assms(1,3) g Inr ok cfg True f err good show ?thesis
      by (auto simp: cleanup_channel_def reap_config_def split: bool.splits option.splits)
  qed
qed

lemma cleanup_channel_spares:
  assumes "cleanup_channel p now ch w = (b, w')" and "codec_ok (ep_codec p)"
    and "reap_config p w = Some cs" and "kept_in c cs"
    and "cc_name ch = cc_name c \<longrightarrow> \<not> reapable p now ch (qw_tracker (ew_queue w))"
  shows "\<exists>cs'. reap_config p w' = Some cs' \<and> kept_in c cs'"
proof (cases b)
  case False
  with cleanup_channel_cases [OF assms(1-3)] assms(4) show ?thesis by simp
next
  case True
  with cleanup_channel_cases [OF assms(1-3)] assms(5) obtain i where
    i: "i < length cs" "cc_name (cs ! i) = cc_name ch" "cc_name ch \<noteq> cc_name c"
      "reap_config p w' = Some (map (unlink (cc_name ch)) (remove_at i cs))"
    by auto
  with kept_unlink [OF kept_remove_at [OF assms(4)]] show ?thesis by simp
qed

lemma cleanup_channels_spares:
  "cleanup_channels p clock chs w = (b, w') \<Longrightarrow> codec_ok (ep_codec p) \<Longrightarrow>
   reap_config p w = Some cs \<Longrightarrow> kept_in c cs \<Longrightarrow>
   \<forall>e \<in> set chs. cc_name e = cc_name c \<longrightarrow> \<not> reapable p (clock (cc_name e)) e (qw_tracker (ew_queue w)) \<Longrightarrow>
   \<exists>cs'. reap_config p w' = Some cs' \<and> kept_in c cs'"
proof (induction chs arbitrary: w w' b cs)
  case Nil
  then show ?case by auto
next
  case (Cons ch chs)
  obtain x w1 where x: "cleanup_channel p (clock (cc_name ch)) ch w = (x, w1)" by (rule prod.exhaust)
  obtain y w2 where y: "cleanup_channels p clock chs w1 = (y, w2)" by (rule prod.exhaust)
  from Cons.prems(1) x y have w2: "w' = w2" by simp
  from cleanup_channel_spares [OF x Cons.prems(2-4)] Cons.prems(5) obtain cs1 where
    cs1: "reap_config p w1 = Some cs1" "kept_in c cs1" by auto
  have "qw_tracker (ew_queue w1) = qw_tracker (ew_queue w)"
    using cleanup_channel_cases [OF x Cons.prems(2,3)] by simp
  with Cons.IH [OF y Cons.prems(2) cs1] Cons.prems(5) w2 show ?case by simp
qed

text \<open>
  C2. The reaper spares every channel in use. After a pass, a channel of the config is still
  there, with at most links to removed channels gone, unless an ephemeral channel of its name was
  known to the activity tracker and idle past its timeout: no channel that is not ephemeral, that
  is busy, or of which no activity is recorded is ever removed.
\<close>

theorem reaper_spares_channels_in_use:
  assumes "codec_ok (ep_codec p)" and "reap_config p w = Some cs" and "c \<in> set cs"
    and "\<forall>e \<in> set cs. cc_name e = cc_name c \<longrightarrow>
           \<not> cc_ephemeral e \<or>
           ep_tracker p \<and>
             is_busy_with_timeout (cc_name e) (idle_timeout (ep_parse_duration p) e) (clock (cc_name e))
               (qw_tracker (ew_queue w)) \<noteq> (False, True)"
  shows "\<exists>cs'. reap_config p (cleanup_once p clock w) = Some cs' \<and> kept_in c cs'"
proof -
  have spare: "\<forall>e \<in> set cs. cc_name e = cc_name c \<longrightarrow> \<not> reapable p (clock (cc_name e)) e (qw_tracker (ew_queue w))"
    using assms(4) by (auto simp: reapable_def)
  have kept: "kept_in c cs" using assms(3) by (auto simp: kept_in_def intro: bexI [of _ c])
  obtain r cfg where r: "cfg_read_channels (ep_codec p) (ep_env p) (ep_user p) (ew_config w) = (r, cfg)"
    by (rule prod.exhaust)
  have same: "cf_content cfg = cf_content (ew_config w)"
    using r by (auto simp: cfg_read_channels_def split: prod.splits sum.splits option.splits dest: read_nodes_content)
  have view: "reap_config p (w\<lparr>ew_config := cfg\<rparr>) = Some cs"
    using assms(2) by (simp add: reap_config_def config_channels_content [OF same])
  show ?thesis
  proof (cases r)
    case (Inl e)
    with r view kept show ?thesis by (simp add: cleanup_once_def)
  next
    case (Inr chs)
    with cfg_read_channels_view [of "ep_codec p" "ep_env p" "ep_user p"] r assms(2)
    have chs: "chs = cs" by (auto simp: reap_config_def)
    obtain b w1 where run: "cleanup_channels p clock chs (w\<lparr>ew_config := cfg\<rparr>) = (b, w1)" by (rule prod.exhaust)
    have "qw_tracker (ew_queue (w\<lparr>ew_config := cfg\<rparr>)) = qw_tracker (ew_queue w)" by simp
    with spare chs have "\<forall>e \<in> set chs. cc_name e = cc_name c \<longrightarrow>
        \<not> reapable p (clock (cc_name e)) e (qw_tracker (ew_queue (w\<lparr>ew_config := cfg\<rparr>)))"
      by (simp only:)
    from cleanup_channels_spares [OF run assms(1) view kept this]
    obtain cs' where "reap_config p w1 = Some cs'" "kept_in c cs'" by blast
    moreover have "ew_config (cleanup_once p clock w) = ew_config w1"
      using r Inr run by (simp add: cleanup_once_def)
    ultimately show ?thesis by (auto simp: reap_config_def)
  qed
qed

subsection \<open>What a teardown leaves on the platform\<close>

lemma reap_forget_events [simp]: "ew_events (reap_forget p now ch w) = ew_events w"
  by (simp add: reap_forget_def cleanup_dev_sessions_def Let_def split: prod.splits sum.splits)

text \<open>
  C9. No orphan on the platform. When a round of the reaper takes a channel out of the config, then
  only that channel, the links to it aside, and only after its recorded platform resources are
  gone: its state could be read and, if it records a teardown, the transport's provisioner carried
  that teardown out without an error. In every other case - the guards spare it, its state cannot
  be read, no provisioner is known, the teardown or the config write failed - the channels of the
  config, the channel's state, the secrets, the development sessions, the scopes of remote servers
  and the queue are as they were, for the next pass.
\<close>

theorem teardown_precedes_removal:
  assumes "cleanup_channel p now ch w = (removed, w')" and "codec_ok (ep_codec p)"
    and "reap_config p w = Some cs"
  shows "(reap_config p w' = Some cs \<and> \<not> removed \<and> rs_view (ew_runtime w') = rs_view (ew_runtime w) \<and>
            ew_mcps w' = ew_mcps w \<and> ew_dev w' = ew_dev w \<and> ew_queue w' = ew_queue w) \<or>
         ((\<exists>i. i < length cs \<and> cc_name (cs ! i) = cc_name ch \<and>
             reap_config p w' = Some (map (unlink (cc_name ch)) (remove_at i cs))) \<and> removed \<and>
          (\<exists>rs. rs_view (ew_runtime w) (cc_name ch) = Inr rs \<and>
             (has_teardown_state (rs_teardown rs) \<longrightarrow>
               (\<exists>pv. ep_provisioners p (cc_type ch) = Some pv \<and> pr_teardown pv (rs_teardown rs) = None \<and>
                  ew_events w' = ew_events w @ [Teardown (cc_type ch) (rs_teardown rs)]))))"
proof (cases "reapable p now ch (qw_tracker (ew_queue w))")
  case False
  with assms show ?thesis by (simp add: cleanup_channel_def)
next
  case True
  note config = cleanup_channel_cases [OF assms]
  obtain g st where g: "rs_get (cc_name ch) (ew_runtime w) = (g, st)" by (rule prod.exhaust)
  note frame = rs_get_frame [OF g]
  show ?thesis
  proof (cases g)
    case (Inl e)
    with assms(1) g True frame config show ?thesis by (auto simp: cleanup_channel_def)
  next
    case (Inr rs)
    note view = rs_get_view [OF g [unfolded Inr]]
    obtain ok w1 where ok: "reap_platform p ch rs (w\<lparr>ew_runtime := st\<rparr>) = (ok, w1)" by (rule prod.exhaust)
    have w1: "ew_runtime w1 = st \<and> ew_mcps w1 = ew_mcps w \<and> ew_dev w1 = ew_dev w \<and> ew_queue w1 = ew_queue w"
      using ok by (auto simp: reap_platform_def Let_def split: if_splits option.splits)
    have done_ok: "\<exists>pv. ep_provisioners p (cc_type ch) = Some pv \<and> pr_teardown pv (rs_teardown rs) = None \<and>
        ew_events w1 = ew_events w @ [Teardown (cc_type ch) (rs_teardown rs)]"
      if "ok" "has_teardown_state (rs_teardown rs)"
      using ok that by (auto simp: reap_platform_def Let_def split: if_splits option.splits)
    from assms(1) g Inr ok True frame view w1 done_ok config show ?thesis
      by (auto simp: cleanup_channel_def split: bool.splits option.splits prod.splits)
  qed
qed

subsection \<open>A concrete pass\<close>

definition idle_channel :: "string \<Rightarrow> channel_config" where
  "idle_channel name = (sample_channel name [])\<lparr>cc_parent := ''dev''\<rparr>"

definition reaper_params :: cleanup_params where
  "reaper_params =
     \<lparr>ep_codec = sample_codec, ep_env = ''prod'', ep_user = ''u'', ep_provisioners = (\<lambda>t. Some auto_bot),
      ep_tracker = True, ep_dev_store = True, ep_on_change = True,
      ep_live = [(''c-dev'', \<lparr>ch_id = ''c-dev'', ch_name = ''dev'', ch_type = ''socket'', ch_prompter = False\<rparr>)],
      ep_parse_duration = (\<lambda>s. None)\<rparr>"

definition torn_state :: "unit runtime_state" where
  "torn_state = zero_runtime_state\<lparr>rs_teardown := \<lparr>ts_type = ''telegram'', ts_data = ''b''\<rparr>\<rparr>"

definition reap_start :: "unit reap_world" where
  "reap_start =
     \<lparr>ew_config = sample_config [idle_channel ''tmp'', (idle_channel ''main'')\<lparr>cc_ephemeral := False\<rparr>],
      ew_runtime = doc_holding (runtime_key ''tmp'') torn_state,
      ew_mcps = mcp_holding [], ew_dev = doc_holding sessions_key [(''b'', session_on ''b'' ''tmp'')],
      ew_queue = new_queue fresh_store (new_tracker\<lparr>tk_entries := [(''tmp'', new_activity)]\<rparr>),
      ew_events = [], ew_logged = Map.empty, ew_removed_dirs = [], ew_changes = 0\<rparr>"

lemma reap_start_config:
  "reap_config reaper_params reap_start = Some [idle_channel ''tmp'', (idle_channel ''main'')\<lparr>cc_ephemeral := False\<rparr>]"
  by (simp add: reap_config_def reaper_params_def reap_start_def config_channels_def sample_codec_def
      sample_decode_encode)

theorem reaper_spares_channels_in_use_witness:
  "\<exists>cs'. reap_config reaper_params (cleanup_once reaper_params (\<lambda>n. 25 * hour) reap_start) = Some cs' \<and>
     kept_in ((idle_channel ''main'')\<lparr>cc_ephemeral := False\<rparr>) cs'"
proof (rule reaper_spares_channels_in_use [OF _ reap_start_config])
  show "codec_ok (ep_codec reaper_params)" by (simp add: reaper_params_def sample_codec_ok)
  show "(idle_channel ''main'')\<lparr>cc_ephemeral := False\<rparr> \<in> set [idle_channel ''tmp'', (idle_channel ''main'')\<lparr>cc_ephemeral := False\<rparr>]"
    by simp
qed (simp add: idle_channel_def sample_channel_def)

theorem teardown_precedes_removal_witness:
  "\<exists>w'. cleanup_channel reaper_params (25 * hour) (idle_channel ''tmp'') reap_start = (True, w') \<and>
     ew_events w' = [Teardown ''telegram'' \<lparr>ts_type = ''telegram'', ts_data = ''b''\<rparr>] \<and>
     map qm_channel (qw_messages (ew_queue w')) = [''c-dev''] \<and> ew_removed_dirs w' = [''/w'']"
proof -
  let ?r = "cleanup_channel reaper_params (25 * hour) (idle_channel ''tmp'') reap_start"
  have ok: "fst ?r = True" and q: "map qm_channel (qw_messages (ew_queue (snd ?r))) = [''c-dev'']"
    and d: "ew_removed_dirs (snd ?r) = [''/w'']"
    by code_simp+
  then have r: "?r = (True, snd ?r)" by (simp add: prod_eq_iff)
  have "safe_path ''/data'' (runtime_key ''tmp'') = Some ''/data/channel_runtime/tmp''" by code_simp
  then have "rs_view (ew_runtime reap_start) (cc_name (idle_channel ''tmp'')) = Inr torn_state"
    by (simp add: rs_view_def rs_decode_def reap_start_def idle_channel_def sample_channel_def store_view_def
        doc_holding_def fresh_store_def)
  with teardown_precedes_removal [OF r _ reap_start_config] have
    "ew_events (snd ?r) = ew_events reap_start @ [Teardown (cc_type (idle_channel ''tmp'')) (rs_teardown torn_state)]"
    by (auto simp: torn_state_def has_teardown_state_def reaper_params_def sample_codec_ok)
  then have "ew_events (snd ?r) = [Teardown ''telegram'' \<lparr>ts_type = ''telegram'', ts_data = ''b''\<rparr>]"
    by (simp add: reap_start_def idle_channel_def sample_channel_def torn_state_def)
  with r q d show ?thesis by metis
qed

end
