(* ===== verification/FanIn.thy ===== *)
theory FanIn
  imports Queue "HOL-Library.Sublist"
begin

text \<open>
  How messages reach the agent: the merge of the durable and the live stream
  (\<open>router/merge.go\<close>), and the bridge between the merged stream and the agent
  (\<open>router/router.go\<close>, in \<open>waitAndStart\<close>).

  Each goroutine is a small machine whose steps are the branches of its selects, so that the
  relations contain every interleaving with the reader and with the cancellation. What a source
  will still send is a list; an unbuffered send is the step in which the reader takes the
  message. Steps that push carry their clock reading.
\<close>

subsection \<open>The merge\<close>

record 'p merge_world =
  mg_static :: "tagged_message list"
  mg_dynamic :: "tagged_message list"
  mg_static_hand :: "tagged_message option"
  mg_dynamic_hand :: "tagged_message option"
  mg_static_done :: bool
  mg_dynamic_done :: bool
  mg_out :: "(bool \<times> tagged_message) list"
  mg_queue :: "'p queue_world"
  mg_cancelled :: bool

definition merge_start :: "tagged_message list \<Rightarrow> tagged_message list \<Rightarrow> 'p queue_world \<Rightarrow> 'p merge_world" where
  "merge_start static dynamic q =
     \<lparr>mg_static = static, mg_dynamic = dynamic, mg_static_hand = None, mg_dynamic_hand = None,
      mg_static_done = False, mg_dynamic_done = False, mg_out = [], mg_queue = q, mg_cancelled = False\<rparr>"

text \<open>
  A select whose cases are all ready picks any, so a goroutine may still take or hand over a
  message after the cancellation. \<open>True\<close> in \<open>mg_out\<close> marks a message of the durable stream.
\<close>

inductive merge_step :: "'p merge_world \<Rightarrow> 'p merge_world \<Rightarrow> bool" where
  take_static: "\<not> mg_static_done w \<Longrightarrow> mg_static_hand w = None \<Longrightarrow> mg_static w = m # ms \<Longrightarrow>
     merge_step w (w\<lparr>mg_static := ms, mg_static_hand := Some m\<rparr>)"
| static_drained: "\<not> mg_static_done w \<Longrightarrow> mg_static_hand w = None \<Longrightarrow> mg_static w = [] \<Longrightarrow>
     merge_step w (w\<lparr>mg_static_done := True\<rparr>)"
| give_static: "mg_static_hand w = Some m \<Longrightarrow>
     merge_step w (w\<lparr>mg_static_hand := None, mg_out := mg_out w @ [(True, m)]\<rparr>)"
| requeue_static: "mg_static_hand w = Some m \<Longrightarrow> mg_cancelled w \<Longrightarrow>
     merge_step w (w\<lparr>mg_static_hand := None, mg_static_done := True,
                     mg_queue := snd (queue_push now m (mg_queue w))\<rparr>)"
| stop_static: "\<not> mg_static_done w \<Longrightarrow> mg_static_hand w = None \<Longrightarrow> mg_cancelled w \<Longrightarrow>
     merge_step w (w\<lparr>mg_static_done := True\<rparr>)"
| take_dynamic: "\<not> mg_dynamic_done w \<Longrightarrow> mg_dynamic_hand w = None \<Longrightarrow> mg_dynamic w = m # ms \<Longrightarrow>
     merge_step w (w\<lparr>mg_dynamic := ms, mg_dynamic_hand := Some m\<rparr>)"
| dynamic_drained: "\<not> mg_dynamic_done w \<Longrightarrow> mg_dynamic_hand w = None \<Longrightarrow> mg_dynamic w = [] \<Longrightarrow>
     merge_step w (w\<lparr>mg_dynamic_done := True\<rparr>)"
| give_dynamic: "mg_dynamic_hand w = Some m \<Longrightarrow>
     merge_step w (w\<lparr>mg_dynamic_hand := None, mg_out := mg_out w @ [(False, m)]\<rparr>)"
| drop_dynamic: "mg_dynamic_hand w = Some m \<Longrightarrow> mg_cancelled w \<Longrightarrow>
     merge_step w (w\<lparr>mg_dynamic_hand := None, mg_dynamic_done := True\<rparr>)"
| stop_dynamic: "\<not> mg_dynamic_done w \<Longrightarrow> mg_dynamic_hand w = None \<Longrightarrow> mg_cancelled w \<Longrightarrow>
     merge_step w (w\<lparr>mg_dynamic_done := True\<rparr>)"
| cancels: "merge_step w (w\<lparr>mg_cancelled := True\<rparr>)"

text \<open>The output is closed once both forwarders have returned.\<close>

definition merge_closed :: "'p merge_world \<Rightarrow> bool" where
  "merge_closed w \<longleftrightarrow> mg_static_done w \<and> mg_dynamic_done w"

definition handed :: "'a option \<Rightarrow> 'a list" where
  "handed x = (case x of None \<Rightarrow> [] | Some m \<Rightarrow> [m])"

definition static_out :: "'p merge_world \<Rightarrow> tagged_message list" where
  "static_out w = map snd (filter fst (mg_out w))"

definition queued_texts :: "'p queue_world \<Rightarrow> tagged_message list" where
  "queued_texts q = map to_tagged (qw_messages q)"

lemma handed_simps [simp]: "handed None = []" "handed (Some m) = [m]"
  by (simp_all add: handed_def)

lemma queue_push_messages [simp]: "queued_texts (snd (queue_push now m q)) = queued_texts q @ [m]"
  by (simp add: queue_push_def queue_persist_def queue_write_def append_message_def queued_texts_def
      to_tagged_def split: prod.splits option.splits)

text \<open>
  What was sent on the durable stream is what came out, what is in hand, what was put back into
  the queue and what is still to be taken; nothing is taken after a message was put back.
\<close>

definition static_accounted :: "tagged_message list \<Rightarrow> tagged_message list \<Rightarrow> 'p merge_world \<Rightarrow> bool" where
  "static_accounted snt queued w \<longleftrightarrow>
     (\<exists>kept. queued_texts (mg_queue w) = queued @ kept \<and>
        snt = static_out w @ handed (mg_static_hand w) @ kept @ mg_static w \<and>
        (kept \<noteq> [] \<longrightarrow> mg_static_done w) \<and> (mg_static_done w \<longrightarrow> mg_static_hand w = None))"

lemma merge_step_accounted:
  "merge_step w w' \<Longrightarrow> static_accounted snt queued w \<Longrightarrow> static_accounted snt queued w'"
proof (induction rule: merge_step.induct)
  case (requeue_static w m now)
  then obtain kept where "queued_texts (mg_queue w) = queued @ kept" "kept = []"
    "snt = static_out w @ m # kept @ mg_static w"
    by (auto simp: static_accounted_def)
  then show ?case by (simp add: static_accounted_def static_out_def)
qed (auto simp: static_accounted_def static_out_def)

text \<open>
  C3. No durable message is lost at a restart. However the two forwarders, the reader and the
  cancellation interleave, at every moment the messages sent on the durable stream are, in order,
  those the reader got, the one in hand, the one put back into the queue, and those not yet taken;
  and when the merge has closed, every one that was taken has reached the reader or the queue.
\<close>

theorem merge_loses_no_durable_message:
  assumes "merge_step\<^sup>*\<^sup>* (merge_start static dynamic q) w"
  shows "\<exists>kept. queued_texts (mg_queue w) = queued_texts q @ kept \<and>
           static = static_out w @ handed (mg_static_hand w) @ kept @ mg_static w \<and>
           (merge_closed w \<longrightarrow> static = static_out w @ kept @ mg_static w)"
proof -
  have start: "static_accounted static (queued_texts q) (merge_start static dynamic q)"
    by (simp add: static_accounted_def static_out_def merge_start_def)
  from assms have "static_accounted static (queued_texts q) w"
    by (induction rule: rtranclp_induct) (auto intro: start merge_step_accounted)
  then show ?thesis by (auto simp: static_accounted_def merge_closed_def)
qed

definition scheduled :: "string \<Rightarrow> tagged_message" where
  "scheduled text = \<lparr>tm_channel = ''c'', tm_text = text, tm_source = Some (no_source SourceSchedule)\<rparr>"

definition empty_queue :: "unit queue_world" where
  "empty_queue = new_queue fresh_store new_tracker"

theorem merge_loses_no_durable_message_witness:
  "\<exists>w kept. merge_step\<^sup>*\<^sup>* (merge_start [scheduled ''a'', scheduled ''b''] [] empty_queue) w \<and> merge_closed w \<and>
     queued_texts (mg_queue w) = kept \<and> [scheduled ''a'', scheduled ''b''] = static_out w @ kept @ mg_static w \<and>
     kept = [scheduled ''b'']"
proof -
  let ?w0 = "merge_start [scheduled ''a'', scheduled ''b''] [] empty_queue"
  let ?w1 = "?w0\<lparr>mg_static := [scheduled ''b''], mg_static_hand := Some (scheduled ''a'')\<rparr>"
  let ?w2 = "?w1\<lparr>mg_static_hand := None, mg_out := mg_out ?w1 @ [(True, scheduled ''a'')]\<rparr>"
  let ?w3 = "?w2\<lparr>mg_static := [], mg_static_hand := Some (scheduled ''b'')\<rparr>"
  let ?w4 = "?w3\<lparr>mg_cancelled := True\<rparr>"
  let ?w5 = "?w4\<lparr>mg_static_hand := None, mg_static_done := True,
                 mg_queue := snd (queue_push 7 (scheduled ''b'') (mg_queue ?w4))\<rparr>"
  let ?w6 = "?w5\<lparr>mg_dynamic_done := True\<rparr>"
  have steps: "merge_step ?w0 ?w1" "merge_step ?w1 ?w2" "merge_step ?w2 ?w3" "merge_step ?w3 ?w4"
      "merge_step ?w4 ?w5" "merge_step ?w5 ?w6"
    by (rule take_static give_static cancels requeue_static stop_dynamic; simp add: merge_start_def)+
  then have run: "merge_step\<^sup>*\<^sup>* ?w0 ?w6"
    by (meson rtranclp.rtrancl_into_rtrancl rtranclp.rtrancl_refl)
  have "queued_texts empty_queue = []" by (simp add: empty_queue_def new_queue_def queued_texts_def)
  moreover have "static_out ?w6 = [scheduled ''a'']" "mg_static ?w6 = []" "merge_closed ?w6"
    by (simp_all add: static_out_def merge_start_def merge_closed_def)
  ultimately show ?thesis using merge_loses_no_durable_message [OF run] run
    by (intro exI [of _ ?w6] exI [of _ "[scheduled ''b'']"]) auto
qed

subsection \<open>The bridge\<close>

text \<open>
  The bridge offers each message to the open prompts first (\<open>answers\<close>: the permission prompts,
  then the pending confirmation, over their state \<open>br_prompts\<close>), and sends the others into a
  channel with room for one. \<open>br_agent\<close> is what the agent has received.
\<close>

record ('p, 's) bridge_world =
  br_in :: "tagged_message list"
  br_hand :: "tagged_message option"
  br_buffer :: "tagged_message list"
  br_agent :: "tagged_message list"
  br_answered :: "tagged_message list"
  br_dropped :: "tagged_message list"
  br_prompts :: 's
  br_queue :: "'p queue_world"
  br_agent_gone :: bool
  br_done :: bool

text \<open>The start of an iteration: the first message, if there is one, is put in at once.\<close>

definition bridge_start ::
  "tagged_message option \<Rightarrow> tagged_message list \<Rightarrow> 's \<Rightarrow> 'p queue_world \<Rightarrow> ('p, 's) bridge_world" where
  "bridge_start first merged prompts q =
     \<lparr>br_in = merged, br_hand = None, br_buffer = handed first, br_agent = [], br_answered = [],
      br_dropped = [], br_prompts = prompts, br_queue = q, br_agent_gone = False, br_done = False\<rparr>"

inductive bridge_step ::
  "(tagged_message \<Rightarrow> 's \<Rightarrow> bool \<times> 's) \<Rightarrow> ('p, 's) bridge_world \<Rightarrow> ('p, 's) bridge_world \<Rightarrow> bool"
  for answers where
  answered: "\<not> br_done w \<Longrightarrow> br_hand w = None \<Longrightarrow> br_in w = m # ms \<Longrightarrow> answers m (br_prompts w) = (True, s) \<Longrightarrow>
     bridge_step answers w (w\<lparr>br_in := ms, br_answered := br_answered w @ [m], br_prompts := s\<rparr>)"
| forwards: "\<not> br_done w \<Longrightarrow> br_hand w = None \<Longrightarrow> br_in w = m # ms \<Longrightarrow> answers m (br_prompts w) = (False, s) \<Longrightarrow>
     bridge_step answers w (w\<lparr>br_in := ms, br_hand := Some m, br_prompts := s\<rparr>)"
| drained: "\<not> br_done w \<Longrightarrow> br_hand w = None \<Longrightarrow> br_in w = [] \<Longrightarrow>
     bridge_step answers w (w\<lparr>br_done := True\<rparr>)"
| puts: "br_hand w = Some m \<Longrightarrow> br_buffer w = [] \<Longrightarrow>
     bridge_step answers w (w\<lparr>br_hand := None, br_buffer := [m]\<rparr>)"
| requeues: "br_hand w = Some m \<Longrightarrow> br_agent_gone w \<Longrightarrow> \<not> from_user (tm_source m) \<Longrightarrow>
     bridge_step answers w (w\<lparr>br_hand := None, br_done := True, br_queue := snd (queue_push now m (br_queue w))\<rparr>)"
| drops: "br_hand w = Some m \<Longrightarrow> br_agent_gone w \<Longrightarrow> from_user (tm_source m) \<Longrightarrow>
     bridge_step answers w (w\<lparr>br_hand := None, br_done := True, br_dropped := br_dropped w @ [m]\<rparr>)"
| stops: "\<not> br_done w \<Longrightarrow> br_hand w = None \<Longrightarrow> br_agent_gone w \<Longrightarrow>
     bridge_step answers w (w\<lparr>br_done := True\<rparr>)"
| agent_reads: "\<not> br_agent_gone w \<Longrightarrow> br_buffer w = [m] \<Longrightarrow>
     bridge_step answers w (w\<lparr>br_buffer := [], br_agent := br_agent w @ [m]\<rparr>)"
| agent_ends: "bridge_step answers w (w\<lparr>br_agent_gone := True\<rparr>)"

definition unprompted :: "tagged_message list \<Rightarrow> tagged_message multiset" where
  "unprompted ms = mset (filter (\<lambda>m. \<not> from_user (tm_source m)) ms)"

lemma unprompted_simps [simp]:
  "unprompted [] = {#}"
  "unprompted (xs @ ys) = unprompted xs + unprompted ys"
  "unprompted (m # xs) = (if from_user (tm_source m) then unprompted xs else add_mset m (unprompted xs))"
  by (simp_all add: unprompted_def)

definition bridge_total :: "('p, 's) bridge_world \<Rightarrow> tagged_message multiset" where
  "bridge_total w =
     unprompted (br_in w) + unprompted (handed (br_hand w)) + unprompted (br_buffer w) +
     unprompted (br_agent w) + unprompted (br_answered w) + unprompted (queued_texts (br_queue w))"

lemma bridge_step_total: "bridge_step answers w w' \<Longrightarrow> bridge_total w' = bridge_total w"
  by (induction rule: bridge_step.induct) (simp_all add: bridge_total_def)

lemma bridge_buffer_small: "bridge_step answers w w' \<Longrightarrow> length (br_buffer w) \<le> 1 \<Longrightarrow> length (br_buffer w') \<le> 1"
  by (induction rule: bridge_step.induct) auto

text \<open>The agent reads in the order of arrival, and a goroutine that is through holds nothing.\<close>

definition bridge_ordered :: "tagged_message option \<Rightarrow> tagged_message list \<Rightarrow> ('p, 's) bridge_world \<Rightarrow> bool" where
  "bridge_ordered first merged w \<longleftrightarrow>
     (\<exists>taken. merged = taken @ br_in w \<and>
        subseq (br_agent w @ br_buffer w @ handed (br_hand w)) (handed first @ taken)) \<and>
     (br_done w \<longrightarrow> br_hand w = None)"

lemma subseq_left_part: "subseq (xs @ ys @ zs) us \<Longrightarrow> subseq (xs @ ys) us"
  using subseq_order.trans [OF subseq_rev_drop_many [OF subseq_order.refl, of "xs @ ys" zs], of us] by simp

lemma bridge_step_ordered:
  "bridge_step answers w w' \<Longrightarrow> bridge_ordered first merged w \<Longrightarrow> bridge_ordered first merged w'"
proof (induction rule: bridge_step.induct)
  case (answered w m ms s)
  then obtain taken where t: "merged = taken @ m # ms"
      "subseq (br_agent w @ br_buffer w @ handed (br_hand w)) (handed first @ taken)"
    by (auto simp: bridge_ordered_def)
  from t(2) have "subseq (br_agent w @ br_buffer w @ handed (br_hand w)) ((handed first @ taken) @ [m])"
    by (rule subseq_rev_drop_many)
  with t(1) answered show ?case by (auto simp: bridge_ordered_def intro!: exI [of _ "taken @ [m]"])
next
  case (forwards w m ms s)
  then obtain taken where t: "merged = taken @ m # ms"
      "subseq (br_agent w @ br_buffer w) (handed first @ taken)"
    by (auto simp: bridge_ordered_def)
  from t(2) have "subseq ((br_agent w @ br_buffer w) @ [m]) ((handed first @ taken) @ [m])"
    by (simp only: subseq_append)
  with t(1) forwards show ?case by (auto simp: bridge_ordered_def intro!: exI [of _ "taken @ [m]"])
next
  case (requeues w m now)
  then show ?case
    by (auto simp: bridge_ordered_def dest: subseq_left_part)
next
  case (drops w m)
  then show ?case
    by (auto simp: bridge_ordered_def dest: subseq_left_part)
qed (auto simp: bridge_ordered_def)

text \<open>
  C19. The bridge loses at most one message that is not the user's. However the bridge, the agent and
  its end interleave, each message that is not the user's and came in - at the start of the
  iteration, on the merged stream, or queued before - is with the agent, was the answer to a
  prompt, is in the durable queue, or is still on its way: not yet taken, in the bridge's hand, or
  in the buffer, which holds one message at most. A bridge that has returned has nothing in hand,
  so the message in the buffer is the one that can be left behind when the agent has ended
  (\<open>buffered_message_is_lost\<close>). And the agent reads the messages it gets in the order they came.
\<close>

theorem bridge_accounts_for_automated_messages:
  assumes "(bridge_step answers)\<^sup>*\<^sup>* (bridge_start first merged s q) w"
  shows "unprompted (handed first) + unprompted merged + unprompted (queued_texts q) =
           unprompted (br_agent w) + unprompted (br_answered w) + unprompted (queued_texts (br_queue w)) +
           unprompted (br_in w) + unprompted (handed (br_hand w)) + unprompted (br_buffer w) \<and>
         length (br_buffer w) \<le> 1 \<and> (br_done w \<longrightarrow> br_hand w = None) \<and>
         (\<exists>taken. merged = taken @ br_in w \<and>
            subseq (br_agent w @ br_buffer w @ handed (br_hand w)) (handed first @ taken))"
proof -
  have "length (handed first) \<le> 1" by (cases first) simp_all
  moreover have "bridge_ordered first merged (bridge_start first merged s q)"
    by (simp add: bridge_ordered_def bridge_start_def)
  ultimately have start: "length (br_buffer (bridge_start first merged s q)) \<le> 1"
      "bridge_ordered first merged (bridge_start first merged s q)"
    by (simp_all add: bridge_start_def)
  from assms have "bridge_total w = bridge_total (bridge_start first merged s q) \<and> length (br_buffer w) \<le> 1 \<and>
      bridge_ordered first merged w"
    by (induction rule: rtranclp_induct)
       (use start in \<open>auto simp: bridge_step_total intro: bridge_buffer_small [simplified] bridge_step_ordered\<close>)
  then show ?thesis by (auto simp: bridge_total_def bridge_start_def bridge_ordered_def ac_simps)
qed

theorem bridge_accounts_for_automated_messages_witness:
  "\<exists>w. (bridge_step (\<lambda>m s. (False, s)))\<^sup>*\<^sup>* (bridge_start None [scheduled ''a''] () empty_queue) w \<and>
     br_done w \<and> br_agent w = [] \<and> bridge_total w = {#scheduled ''a''#}"
proof -
  let ?w0 = "bridge_start None [scheduled ''a''] () empty_queue"
  let ?w1 = "?w0\<lparr>br_in := [], br_hand := Some (scheduled ''a''), br_prompts := ()\<rparr>"
  let ?w2 = "?w1\<lparr>br_agent_gone := True\<rparr>"
  let ?w3 = "?w2\<lparr>br_hand := None, br_done := True, br_queue := snd (queue_push 7 (scheduled ''a'') (br_queue ?w2))\<rparr>"
  have "bridge_step (\<lambda>m s. (False, s)) ?w0 ?w1" "bridge_step (\<lambda>m s. (False, s)) ?w1 ?w2"
    "bridge_step (\<lambda>m s. (False, s)) ?w2 ?w3"
    by (rule forwards agent_ends requeues;
        simp add: bridge_start_def scheduled_def from_user_def no_source_def)+
  then have run: "(bridge_step (\<lambda>m s. (False, s)))\<^sup>*\<^sup>* ?w0 ?w3"
    by (meson rtranclp.rtrancl_into_rtrancl rtranclp.rtrancl_refl)
  have "unprompted (queued_texts empty_queue) = {#}"
    by (simp add: empty_queue_def new_queue_def queued_texts_def)
  with bridge_accounts_for_automated_messages [OF run] have "bridge_total ?w3 = {#scheduled ''a''#}"
    by (simp add: bridge_total_def scheduled_def from_user_def no_source_def)
  moreover have "br_done ?w3" "br_agent ?w3 = []" by (simp_all add: bridge_start_def)
  ultimately show ?thesis using run by blast
qed

text \<open>
  Two ways past those guards. A message may be left in the buffer: the agent ends, nobody
  reads the buffer again, and the message is neither with the agent nor in the queue.
\<close>

lemma buffered_message_is_lost:
  "\<exists>w. (bridge_step (\<lambda>m s. (False, s)))\<^sup>*\<^sup>* (bridge_start None [scheduled ''a''] () empty_queue) w \<and>
     br_done w \<and> br_agent_gone w \<and> br_agent w = [] \<and> br_in w = [] \<and> queued_texts (br_queue w) = []"
proof -
  let ?w0 = "bridge_start None [scheduled ''a''] () empty_queue"
  let ?w1 = "?w0\<lparr>br_in := [], br_hand := Some (scheduled ''a''), br_prompts := ()\<rparr>"
  let ?w2 = "?w1\<lparr>br_hand := None, br_buffer := [scheduled ''a'']\<rparr>"
  let ?w3 = "?w2\<lparr>br_agent_gone := True\<rparr>"
  let ?w4 = "?w3\<lparr>br_done := True\<rparr>"
  have "bridge_step (\<lambda>m s. (False, s)) ?w0 ?w1" "bridge_step (\<lambda>m s. (False, s)) ?w1 ?w2"
    "bridge_step (\<lambda>m s. (False, s)) ?w2 ?w3" "bridge_step (\<lambda>m s. (False, s)) ?w3 ?w4"
    by (rule forwards puts agent_ends stops; simp add: bridge_start_def)+
  then have "(bridge_step (\<lambda>m s. (False, s)))\<^sup>*\<^sup>* ?w0 ?w4"
    by (meson rtranclp.rtrancl_into_rtrancl rtranclp.rtrancl_refl)
  moreover have "queued_texts empty_queue = []"
    by (simp add: empty_queue_def new_queue_def queued_texts_def)
  ultimately show ?thesis by (intro exI [of _ ?w4]) (simp add: bridge_start_def)
qed

text \<open>
  And the first message of an iteration, the one that wakes an agent that had stopped, is handed
  over without being offered to the prompts: a yes to a confirmation asked before goes to the
  agent and the confirmation stays open.
\<close>

lemma first_message_is_not_offered:
  "\<exists>w. bridge_step answers (bridge_start (Some m) merged s q) w \<and>
       br_agent w = [m] \<and> br_answered w = [] \<and> br_prompts w = s"
  by (rule exI [of _ "(bridge_start (Some m) merged s q)\<lparr>br_buffer := [], br_agent := [m]\<rparr>"])
     (use agent_reads [of "bridge_start (Some m) merged s q" m answers] in
        \<open>simp add: bridge_start_def\<close>)

end
