(* ===== verification/ChannelTools.thy ===== *)
theory ChannelTools
  imports Lifecycle ToolAccess
begin

text \<open>
  The tools by which the agent manages its channels (\<open>internal/tool/channeltools\<close>): create, edit,
  delete, list, read, send, notify and is-busy. Each handler gets its decoded arguments,
  \<open>None\<close> where the JSON does not decode; a check list is the handler's early returns in order.

  The handlers share the reaper's world (\<open>Lifecycle\<close>): the config file, the runtime states, the
  secrets and registrations, the development sessions, the queue with its activity tracker and the
  log of what platforms were asked. To it come the registry and the
  notifications handed to a platform.
\<close>

datatype channel_error =
    BadArguments | NameLength | NameShape | DescriptionLength | UnknownModel model | NegativeTurns int
  | BadSettings "settings_error list" | SocketNotLocal | CreateInvalid string | TelegramUnavailable string
  | UnsupportedType string | BothToolLists | UnknownGroup string | NotAuthorized | NotDelegable string
  | UnknownCreatable string | ChannelTaken string | LinkIncomplete nat | LinkToSelf nat
  | LinkTwice nat string | ParentNotFound string | InitialMessageMissing | BadSessionTimeout string
  | ConfigRefused config_error | ProvisioningFailed reconcile_error | NothingToEdit | NoSuchChannel string
  | StateUnreadable rs_error | TeardownFailed string | NameMissing | MessageMissing | FromMissing | ToMissing
  | MessageTooLong nat | WrongSource string | NoOutboundLinks string | NoLinkTo string | NoChannels
  | TargetNotLive string | DeliveryFailed string | SendCancelled | NotifySelf string | NotifyUnsupported string
  | TokenUnreadable secret_error | TokenMissing string | NotifyFailed string | NoActivityTracking

record channel_deps =
  hd_base :: cleanup_params
  hd_reconcile :: reconcile_params
  hd_groups :: group_map
  hd_active :: "string option"
  hd_memory_dir :: string
  hd_remote_mcps :: bool
  hd_show_duration :: "duration \<Rightarrow> string"
  hd_now_text :: string

record 'p channel_world =
  hw_reap :: "'p reap_world"
  hw_registry :: registry
  hw_notified :: "(string \<times> string \<times> string) list"

definition hw_secrets :: "'p channel_world \<Rightarrow> secrets" where
  "hw_secrets w = mw_secrets (ew_mcps (hw_reap w))"

definition put_secrets :: "secrets \<Rightarrow> 'p channel_world \<Rightarrow> 'p channel_world" where
  "put_secrets sec w =
     w\<lparr>hw_reap := (hw_reap w)\<lparr>ew_mcps := (ew_mcps (hw_reap w))\<lparr>mw_secrets := sec\<rparr>\<rparr>\<rparr>"

definition put_config :: "config_file \<Rightarrow> 'p channel_world \<Rightarrow> 'p channel_world" where
  "put_config cfg w = w\<lparr>hw_reap := (hw_reap w)\<lparr>ew_config := cfg\<rparr>\<rparr>"

definition channel_changed :: "channel_deps \<Rightarrow> 'p channel_world \<Rightarrow> 'p channel_world" where
  "channel_changed d w =
     (if ep_on_change (hd_base d)
      then w\<lparr>hw_reap := (hw_reap w)\<lparr>ew_changes := Suc (ew_changes (hw_reap w))\<rparr>\<rparr> else w)"

subsection \<open>Checks that several tools make\<close>

definition name_first :: "char \<Rightarrow> bool" where
  "name_first c =
     (let n = of_char c :: nat
      in 97 \<le> n \<and> n \<le> 122 \<or> 65 \<le> n \<and> n \<le> 90 \<or> 48 \<le> n \<and> n \<le> 57)"

text \<open>\<open>channelNamePattern\<close>.\<close>

definition channel_name_ok :: "string \<Rightarrow> bool" where
  "channel_name_ok s =
     (case s of [] \<Rightarrow> False
      | c # cs \<Rightarrow> name_first c \<and> list_all (\<lambda>x. name_first x \<or> x = CHR ''_'' \<or> x = CHR ''-'') cs)"

fun link_check :: "string \<Rightarrow> nat \<Rightarrow> string list \<Rightarrow> channel_link list \<Rightarrow> channel_error option" where
  "link_check name i seen [] = None"
| "link_check name i seen (l # ls) =
     (if cl_target l = [] \<or> cl_description l = [] then Some (LinkIncomplete i)
      else if cl_target l = name then Some (LinkToSelf i)
      else if cl_target l \<in> set seen then Some (LinkTwice i (cl_target l))
      else link_check name (Suc i) (cl_target l # seen) ls)"

definition unknown_group :: "group_map \<Rightarrow> (string \<Rightarrow> channel_error) \<Rightarrow> string list \<Rightarrow> channel_error option" where
  "unknown_group gm e gs = map_option e (find (\<lambda>g. \<not> valid_group gm g) gs)"

text \<open>
  The guard of the creating channel: it speaks up only when tool groups are asked for and the
  active channel is known to the registry.
\<close>

definition delegation_check :: "channel_deps \<Rightarrow> registry \<Rightarrow> string list \<Rightarrow> channel_error option" where
  "delegation_check d reg gs =
     (case hd_active d of
        None \<Rightarrow> None
      | Some active \<Rightarrow>
          if gs = [] \<or> active = [] then None
          else (case registry_by_name reg active of
                  None \<Rightarrow> None
                | Some e \<Rightarrow>
                    if re_creatable_groups e = [] then Some NotAuthorized
                    else map_option NotDelegable (find (\<lambda>g. g \<notin> set (re_creatable_groups e)) gs)))"

lemma link_check_None:
  "link_check name i seen ls = None \<longleftrightarrow>
     (\<forall>l \<in> set ls. cl_target l \<noteq> [] \<and> cl_description l \<noteq> [] \<and> cl_target l \<noteq> name \<and> cl_target l \<notin> set seen) \<and>
     distinct (map cl_target ls)"
  by (induction ls arbitrary: i seen) (auto simp: image_iff)

lemma unknown_group_None: "unknown_group gm e gs = None \<longleftrightarrow> (\<forall>g \<in> set gs. valid_group gm g)"
  by (auto simp: unknown_group_def find_None_iff)

lemma delegation_check_None:
  "delegation_check d reg gs = None \<longleftrightarrow>
     (\<forall>active e. hd_active d = Some active \<longrightarrow> active \<noteq> [] \<longrightarrow> registry_by_name reg active = Some e \<longrightarrow> gs \<noteq> [] \<longrightarrow>
        set gs \<subseteq> set (re_creatable_groups e))"
proof -
  have "find (\<lambda>g. g \<notin> A) gs = None \<longleftrightarrow> set gs \<subseteq> A" for A by (auto simp: find_None_iff)
  then show ?thesis
    by (auto simp: delegation_check_def split: option.splits)
qed

subsection \<open>channel\_create\<close>

record channel_create_args =
  ca_name :: string
  ca_description :: string
  ca_purpose :: string
  ca_model :: model
  ca_max_turns :: int
  ca_settings :: turn_settings
  ca_type :: string
  ca_ephemeral :: bool
  ca_idle_hours :: int
  ca_session_timeout :: string
  ca_tool_groups :: "string list"
  ca_allowed :: "tool list"
  ca_disallowed :: "tool list"
  ca_creatable :: "string list"
  ca_links :: "channel_link list"
  ca_initial_message :: string
  ca_parent :: string

definition create_shape_checks :: "channel_create_args \<Rightarrow> channel_error option list" where
  "create_shape_checks a =
     [reject_if (ca_name a = [] \<or> 64 < length (ca_name a)) NameLength,
      reject_if (\<not> channel_name_ok (ca_name a)) NameShape,
      reject_if (ca_description a = [] \<or> 512 < length (ca_description a)) DescriptionLength,
      reject_if (ca_model a \<noteq> [] \<and> \<not> valid_model (ca_model a)) (UnknownModel (ca_model a)),
      reject_if (ca_max_turns a < 0) (NegativeTurns (ca_max_turns a)),
      reject_if (validate_settings (ca_settings a) \<noteq> []) (BadSettings (validate_settings (ca_settings a)))]"

text \<open>An unreadable token counts as none: the error of the read is dropped.\<close>

definition token_absent :: "(secret_error + secret_value) \<Rightarrow> bool" where
  "token_absent r = (case r of Inl e \<Rightarrow> True | Inr v \<Rightarrow> v = PlainText [])"

definition create_type_check ::
  "channel_deps \<Rightarrow> channel_create_args \<Rightarrow> secrets \<Rightarrow> channel_error option \<times> secrets" where
  "create_type_check d a sec =
     (if ca_type a = ''socket'' then (reject_if (ep_env (hd_base d) \<noteq> ''local'') SocketNotLocal, sec)
      else if ca_type a = ''telegram'' then
        (case ep_provisioners (hd_base d) (ca_type a) of
           Some pv \<Rightarrow> (map_option CreateInvalid (pr_validate_create pv (ca_description a)), sec)
         | None \<Rightarrow>
             (case secret_get (channel_secret_key (ca_name a)) sec of
                (r, sec') \<Rightarrow> (reject_if (token_absent r) (TelegramUnavailable (ca_name a)), sec')))
      else (Some (UnsupportedType (ca_type a)), sec))"

definition create_policy_checks :: "channel_deps \<Rightarrow> registry \<Rightarrow> channel_create_args \<Rightarrow> channel_error option list" where
  "create_policy_checks d reg a =
     [reject_if (ca_tool_groups a \<noteq> [] \<and> ca_allowed a \<noteq> []) BothToolLists,
      unknown_group (hd_groups d) UnknownGroup (ca_tool_groups a),
      delegation_check d reg (ca_tool_groups a),
      unknown_group (hd_groups d) UnknownCreatable (ca_creatable a),
      reject_if (name_exists reg (ca_name a)) (ChannelTaken (ca_name a)),
      link_check (ca_name a) 0 [] (ca_links a),
      reject_if (ca_parent a \<noteq> [] \<and> \<not> name_exists reg (ca_parent a)) (ParentNotFound (ca_parent a)),
      reject_if (ca_initial_message a = []) InitialMessageMissing,
      reject_if (ca_session_timeout a \<noteq> [] \<and> ep_parse_duration (hd_base d) (ca_session_timeout a) = None)
        (BadSessionTimeout (ca_session_timeout a))]"

definition create_idle_timeout :: "channel_deps \<Rightarrow> channel_create_args \<Rightarrow> string" where
  "create_idle_timeout d a =
     (if ca_ephemeral a
      then hd_show_duration d (if ca_idle_hours a > 0 then wrap64 (ca_idle_hours a * hour) else 24 * hour)
      else [])"

definition create_entry :: "channel_deps \<Rightarrow> channel_create_args \<Rightarrow> channel_config" where
  "create_entry d a =
     \<lparr>cc_type = ca_type a, cc_name = ca_name a, cc_description = ca_description a, cc_purpose = ca_purpose a,
      cc_model = ca_model a, cc_max_turns = ca_max_turns a, cc_turn_settings = ca_settings a,
      cc_tool_groups = ca_tool_groups a, cc_allowed = ca_allowed a, cc_disallowed = ca_disallowed a,
      cc_creatable = ca_creatable a, cc_links = ca_links a, cc_ephemeral = ca_ephemeral a,
      cc_idle_timeout = create_idle_timeout d a, cc_session_timeout = ca_session_timeout a,
      cc_initial_message = ca_initial_message a, cc_parent = ca_parent a, cc_created_at = hd_now_text d,
      cc_rest = []\<rparr>"

text \<open>What goes into the registry: the allowed tools and the creatable groups do not.\<close>

definition created_registry_entry :: "channel_config \<Rightarrow> registry_entry" where
  "created_registry_entry ch =
     \<lparr>re_id = [], re_type = cc_type ch, re_name = cc_name ch, re_description = cc_description ch,
      re_purpose = cc_purpose ch, re_model = cc_model ch, re_max_turns = cc_max_turns ch, re_output_style = [],
      re_turn_settings = cc_turn_settings ch, re_allowed = [], re_disallowed = cc_disallowed ch,
      re_creatable_groups = [], re_notify_lifecycle = False, re_links = cc_links ch, re_parent = cc_parent ch\<rparr>"

record create_reply =
  cr_name :: string
  cr_status :: channel_status
  cr_info :: "(string \<times> string) list"

definition create_reply_of :: "channel_deps \<Rightarrow> 'p reconciled_channel \<Rightarrow> create_reply" where
  "create_reply_of d rc =
     \<lparr>cr_name = cc_name (rn_config rc), cr_status = rn_status rc,
      cr_info =
        (if rn_status rc = ChannelReady
         then (case ep_provisioners (hd_base d) (cc_type (rn_config rc)) of
                 None \<Rightarrow> [] | Some pv \<Rightarrow> pr_response_info pv (rs_teardown (rn_state rc)))
         else [])\<rparr>"

definition create_commit ::
  "channel_deps \<Rightarrow> channel_config \<Rightarrow> 'p channel_world \<Rightarrow> (channel_error + create_reply) \<times> 'p channel_world" where
  "create_commit d ch w =
     (let p = hd_base d; rw = hw_reap w
      in case cfg_add_channel (ep_codec p) (ep_env p) (ep_user p) ch (ew_config rw) of
           (Some e, cfg) \<Rightarrow> (Inl (ConfigRefused e), put_config cfg w)
         | (None, cfg) \<Rightarrow>
             (let w1 = (put_config cfg w)\<lparr>hw_registry := registry_add (created_registry_entry ch) (hw_registry w)\<rparr>
              in case reconcile_one (hd_reconcile d) ch \<lparr>rw_runtime = ew_runtime rw, rw_events = ew_events rw\<rparr> of
                   (r, rw') \<Rightarrow>
                     (let w2 = w1\<lparr>hw_reap := (hw_reap w1)\<lparr>ew_runtime := rw_runtime rw', ew_events := rw_events rw'\<rparr>\<rparr>
                      in case r of
                           Inl e \<Rightarrow> (Inl (ProvisioningFailed e), w2)
                         | Inr rc \<Rightarrow> (Inr (create_reply_of d rc), channel_changed d w2))))"

definition channel_create ::
  "channel_deps \<Rightarrow> channel_create_args option \<Rightarrow> 'p channel_world \<Rightarrow> (channel_error + create_reply) \<times> 'p channel_world" where
  "channel_create d args w =
     (case args of
        None \<Rightarrow> (Inl BadArguments, w)
      | Some a \<Rightarrow>
          (case first_error (create_shape_checks a) of
             Some e \<Rightarrow> (Inl e, w)
           | None \<Rightarrow>
               (case create_type_check d a (hw_secrets w) of
                  (Some e, sec) \<Rightarrow> (Inl e, put_secrets sec w)
                | (None, sec) \<Rightarrow>
                    (case first_error (create_policy_checks d (hw_registry w) a) of
                       Some e \<Rightarrow> (Inl e, put_secrets sec w)
                     | None \<Rightarrow> create_commit d (create_entry d a) (put_secrets sec w)))))"

subsection \<open>channel\_edit\<close>

text \<open>Pointers are options; so are the slices, whose \<open>nil\<close> is told apart from an empty one.\<close>

record channel_edit_args =
  ea_name :: string
  ea_description :: string
  ea_purpose :: "string option"
  ea_model :: "model option"
  ea_max_turns :: "int option"
  ea_effort :: "string option"
  ea_max_budget :: "float64 option"
  ea_fallback :: "model option"
  ea_allowed_users :: "string list option"
  ea_tool_groups :: "string list option"
  ea_allowed :: "tool list option"
  ea_disallowed :: "tool list option"
  ea_creatable :: "string list option"
  ea_links :: "channel_link list option"
  ea_parent :: "string option"
  ea_session_timeout :: "string option"

definition edit_changes :: "channel_edit_args \<Rightarrow> bool" where
  "edit_changes a =
     (ea_description a \<noteq> [] \<or> ea_purpose a \<noteq> None \<or> ea_model a \<noteq> None \<or> ea_max_turns a \<noteq> None \<or>
      ea_allowed_users a \<noteq> None \<or> ea_effort a \<noteq> None \<or> ea_max_budget a \<noteq> None \<or> ea_fallback a \<noteq> None \<or>
      ea_tool_groups a \<noteq> None \<or> ea_allowed a \<noteq> None \<or> ea_disallowed a \<noteq> None \<or> ea_creatable a \<noteq> None \<or>
      ea_links a \<noteq> None \<or> ea_parent a \<noteq> None \<or> ea_session_timeout a \<noteq> None)"

definition or_default :: "'a \<Rightarrow> 'a option \<Rightarrow> 'a" where
  "or_default x o' = (case o' of None \<Rightarrow> x | Some y \<Rightarrow> y)"

definition edit_requested :: "channel_edit_args \<Rightarrow> turn_settings" where
  "edit_requested a =
     \<lparr>ts_effort = or_default [] (ea_effort a), ts_max_budget = or_default (Finite 0 0) (ea_max_budget a),
      ts_fallback_model = or_default [] (ea_fallback a)\<rparr>"

definition edit_checks :: "channel_deps \<Rightarrow> registry \<Rightarrow> channel_edit_args \<Rightarrow> channel_error option list" where
  "edit_checks d reg a =
     [reject_if (\<not> edit_changes a) NothingToEdit,
      (case ea_model a of None \<Rightarrow> None | Some m \<Rightarrow> reject_if (m \<noteq> [] \<and> \<not> valid_model m) (UnknownModel m)),
      (case ea_max_turns a of None \<Rightarrow> None | Some n \<Rightarrow> reject_if (n < 0) (NegativeTurns n)),
      reject_if (validate_settings (edit_requested a) \<noteq> []) (BadSettings (validate_settings (edit_requested a))),
      (case ea_session_timeout a of None \<Rightarrow> None
       | Some t \<Rightarrow> reject_if (t \<noteq> [] \<and> ep_parse_duration (hd_base d) t = None) (BadSessionTimeout t)),
      reject_if (\<not> name_exists reg (ea_name a)) (NoSuchChannel (ea_name a)),
      reject_if (or_default [] (ea_tool_groups a) \<noteq> [] \<and> or_default [] (ea_allowed a) \<noteq> []) BothToolLists,
      unknown_group (hd_groups d) UnknownGroup (or_default [] (ea_tool_groups a)),
      unknown_group (hd_groups d) UnknownCreatable (or_default [] (ea_creatable a)),
      (case ea_parent a of None \<Rightarrow> None | Some p \<Rightarrow> reject_if (p \<noteq> [] \<and> \<not> name_exists reg p) (ParentNotFound p)),
      link_check (ea_name a) 0 [] (or_default [] (ea_links a))]"

text \<open>The update callback, field by field in the code's order.\<close>

definition edit_tool_lists :: "channel_edit_args \<Rightarrow> channel_config \<Rightarrow> channel_config" where
  "edit_tool_lists a ch =
     (let ch1 = (if or_default [] (ea_tool_groups a) \<noteq> []
                 then ch\<lparr>cc_tool_groups := or_default [] (ea_tool_groups a), cc_allowed := []\<rparr> else ch)
      in case ea_allowed a of None \<Rightarrow> ch1 | Some ts \<Rightarrow> ch1\<lparr>cc_allowed := ts, cc_tool_groups := []\<rparr>)"

definition edit_settings :: "channel_edit_args \<Rightarrow> turn_settings \<Rightarrow> turn_settings" where
  "edit_settings a s =
     \<lparr>ts_effort = or_default (ts_effort s) (ea_effort a), ts_max_budget = or_default (ts_max_budget s) (ea_max_budget a),
      ts_fallback_model = or_default (ts_fallback_model s) (ea_fallback a)\<rparr>"

definition edit_channel :: "channel_edit_args \<Rightarrow> channel_config \<Rightarrow> channel_config" where
  "edit_channel a ch =
     (let ch1 = ch\<lparr>cc_description := (if ea_description a \<noteq> [] then ea_description a else cc_description ch),
                   cc_purpose := or_default (cc_purpose ch) (ea_purpose a),
                   cc_model := or_default (cc_model ch) (ea_model a),
                   cc_max_turns := or_default (cc_max_turns ch) (ea_max_turns a),
                   cc_turn_settings := edit_settings a (cc_turn_settings ch)\<rparr>;
          ch2 = edit_tool_lists a ch1
      in ch2\<lparr>cc_disallowed := or_default (cc_disallowed ch2) (ea_disallowed a),
             cc_creatable := or_default (cc_creatable ch2) (ea_creatable a),
             cc_links := or_default (cc_links ch2) (ea_links a),
             cc_parent := or_default (cc_parent ch2) (ea_parent a),
             cc_session_timeout := or_default (cc_session_timeout ch2) (ea_session_timeout a)\<rparr>)"

definition channel_edit ::
  "channel_deps \<Rightarrow> channel_edit_args option \<Rightarrow> 'p channel_world \<Rightarrow> channel_error option \<times> 'p channel_world" where
  "channel_edit d args w =
     (case args of
        None \<Rightarrow> (Some BadArguments, w)
      | Some a \<Rightarrow>
          (case first_error (edit_checks d (hw_registry w) a) of
             Some e \<Rightarrow> (Some e, w)
           | None \<Rightarrow>
               (let p = hd_base d
                in case cfg_update_channel (ep_codec p) (ep_env p) (ep_user p) (ea_name a) (edit_channel a)
                          (ew_config (hw_reap w)) of
                     (Some e, cfg) \<Rightarrow> (Some (ConfigRefused e), put_config cfg w)
                   | (None, cfg) \<Rightarrow> (None, channel_changed d (put_config cfg w)))))"

subsection \<open>channel\_delete\<close>

text \<open>The platform's side; \<open>Some\<close> error keeps the channel.\<close>

definition delete_platform ::
  "channel_deps \<Rightarrow> string \<Rightarrow> 'p runtime_state \<Rightarrow> 'p channel_world \<Rightarrow> channel_error option \<times> 'p channel_world" where
  "delete_platform d name rs w =
     (if \<not> has_teardown_state (rs_teardown rs) then (None, w)
      else (case registry_by_name (hw_registry w) name of
              None \<Rightarrow> (None, w)
            | Some e \<Rightarrow>
                (case ep_provisioners (hd_base d) (re_type e) of
                   None \<Rightarrow> (None, w)
                 | Some pv \<Rightarrow>
                     (map_option TeardownFailed (pr_teardown pv (rs_teardown rs)),
                      w\<lparr>hw_reap := (hw_reap w)\<lparr>ew_events := ew_events (hw_reap w) @
                           [Teardown (re_type e) (rs_teardown rs)]\<rparr>\<rparr>))))"

text \<open>This package's own \<open>cleanupDevSessionsForChannel\<close>, which also counts.\<close>

definition cleanup_channel_sessions :: "cleanup_params \<Rightarrow> string \<Rightarrow> 'p reap_world \<Rightarrow> nat \<times> 'p reap_world" where
  "cleanup_channel_sessions p name w =
     (if \<not> ep_dev_store p \<or> name = [] then (0, w)
      else (case delete_sessions_by_channel name (ew_dev w) of
              (Inl e, st) \<Rightarrow> (0, w\<lparr>ew_dev := st\<rparr>)
            | (Inr removed, st) \<Rightarrow>
                (length removed,
                 w\<lparr>ew_dev := st, ew_removed_dirs := ew_removed_dirs w @
                     filter (\<lambda>d. d \<noteq> []) (map ds_worktree_dir removed)\<rparr>)))"

record delete_reply =
  dr_sessions :: nat
  dr_scopes :: "(mcp_error + prune_result) option"

definition delete_cleanup ::
  "channel_deps \<Rightarrow> string \<Rightarrow> 'p reap_world \<Rightarrow> delete_reply \<times> 'p reap_world" where
  "delete_cleanup d name w =
     (let w1 = w\<lparr>ew_runtime := snd (rs_delete name (ew_runtime w))\<rparr>;
          w2 = w1\<lparr>ew_mcps := (ew_mcps w1)\<lparr>mw_secrets :=
                    snd (secret_delete (channel_secret_key name) (mw_secrets (ew_mcps w1)))\<rparr>\<rparr>;
          w3 = (if hd_memory_dir d = [] then w2
                else w2\<lparr>ew_removed_dirs := ew_removed_dirs w2 @
                       [join_path (join_path (hd_memory_dir d) ''channels'') name]\<rparr>)
      in case cleanup_channel_sessions (hd_base d) name w3 of
           (n, w4) \<Rightarrow>
             (if hd_remote_mcps d
              then (case remove_channel_from_all name (ew_mcps w4) of
                      (r, m) \<Rightarrow> (\<lparr>dr_sessions = n, dr_scopes = Some r\<rparr>, w4\<lparr>ew_mcps := m\<rparr>))
              else (\<lparr>dr_sessions = n, dr_scopes = None\<rparr>, w4)))"

text \<open>What the reply says of the remote servers' scopes, never calling a teardown clean that was not.\<close>

datatype cleanup_note = StillNaming "string list" | ScopesNotUpdated mcp_error

record cleanup_report =
  cn_updated :: "string list"
  cn_notes :: "cleanup_note list"

definition remote_mcp_cleanup_result :: "(mcp_error + prune_result) option \<Rightarrow> cleanup_report" where
  "remote_mcp_cleanup_result r =
     (case r of
        None \<Rightarrow> \<lparr>cn_updated = [], cn_notes = []\<rparr>
      | Some (Inl e) \<Rightarrow> \<lparr>cn_updated = [], cn_notes = [ScopesNotUpdated e]\<rparr>
      | Some (Inr p) \<Rightarrow>
          \<lparr>cn_updated = pr_pruned p,
           cn_notes = (if pr_left_alone p = [] then [] else [StillNaming (pr_left_alone p)])\<rparr>)"

definition channel_delete ::
  "channel_deps \<Rightarrow> string option \<Rightarrow> 'p channel_world \<Rightarrow>
     (channel_error + nat \<times> cleanup_report) \<times> 'p channel_world" where
  "channel_delete d args w =
     (case args of
        None \<Rightarrow> (Inl BadArguments, w)
      | Some name \<Rightarrow>
          if \<not> name_exists (hw_registry w) name then (Inl (NoSuchChannel name), w)
          else
            (case rs_get name (ew_runtime (hw_reap w)) of
               (Inl e, st) \<Rightarrow> (Inl (StateUnreadable e), w\<lparr>hw_reap := (hw_reap w)\<lparr>ew_runtime := st\<rparr>\<rparr>)
             | (Inr rs, st) \<Rightarrow>
                 (case delete_platform d name rs (w\<lparr>hw_reap := (hw_reap w)\<lparr>ew_runtime := st\<rparr>\<rparr>) of
                    (Some e, w1) \<Rightarrow> (Inl e, w1)
                  | (None, w1) \<Rightarrow>
                      (let p = hd_base d
                       in case cfg_remove_channel (ep_codec p) (ep_env p) (ep_user p) name (ew_config (hw_reap w1)) of
                            (Some e, cfg) \<Rightarrow> (Inl (ConfigRefused e), put_config cfg w1)
                          | (None, cfg) \<Rightarrow>
                              (let w2 = (put_config cfg w1)\<lparr>hw_registry := registry_remove name (hw_registry w1)\<rparr>
                               in case delete_cleanup d name (hw_reap w2) of
                                    (r, rw) \<Rightarrow>
                                      (Inr (dr_sessions r, remote_mcp_cleanup_result (dr_scopes r)),
                                       channel_changed d (w2\<lparr>hw_reap := rw\<rparr>)))))))"

subsection \<open>The tools that look and the ones that speak\<close>

record list_entry =
  le_name :: string
  le_type :: string
  le_description :: string
  le_purpose :: string
  le_parent :: string
  le_allowed :: "tool list"
  le_disallowed :: "tool list"

definition channel_list :: "registry \<Rightarrow> list_entry list" where
  "channel_list reg =
     map (\<lambda>e. \<lparr>le_name = re_name e, le_type = re_type e, le_description = re_description e,
              le_purpose = re_purpose e, le_parent = re_parent e, le_allowed = re_allowed e,
              le_disallowed = re_disallowed e\<rparr>) (registry_all reg)"

text \<open>
  \<open>channel_read\<close>: the channel's config and, once a turn has run, the size of its conversation. The
  fields the model does not name are \<open>cc_rest\<close>, of which the reply has all but the bot token.
\<close>

definition channel_read ::
  "channel_deps \<Rightarrow> string option \<Rightarrow> 'p channel_world \<Rightarrow>
     (channel_error + channel_config \<times> (int \<times> time) option) \<times> 'p channel_world" where
  "channel_read d args w =
     (case args of
        None \<Rightarrow> (Inl BadArguments, w)
      | Some name \<Rightarrow>
          if name = [] then (Inl NameMissing, w)
          else
            (let p = hd_base d
             in case cfg_read_channels (ep_codec p) (ep_env p) (ep_user p) (ew_config (hw_reap w)) of
                  (Inl e, cfg) \<Rightarrow> (Inl (ConfigRefused e), put_config cfg w)
                | (Inr chs, cfg) \<Rightarrow>
                    (let w1 = put_config cfg w
                     in case find (\<lambda>c. cc_name c = name) chs of
                          None \<Rightarrow> (Inl (NoSuchChannel name), w1)
                        | Some ch \<Rightarrow>
                            (case rs_get name (ew_runtime (hw_reap w1)) of
                               (r, st) \<Rightarrow>
                                 (case r of
                                    Inl e \<Rightarrow> Inl (StateUnreadable e)
                                  | Inr rs \<Rightarrow>
                                      Inr (ch, if rs_context_tokens rs > 0
                                               then Some (rs_context_tokens rs, rs_context_measured_at rs) else None),
                                  w1\<lparr>hw_reap := (hw_reap w1)\<lparr>ew_runtime := st\<rparr>\<rparr>)))))"

record notify_args =
  na_channel :: string
  na_message :: string

text \<open>\<open>render\<close> gives the text of a secret that holds one of the two JSON records.\<close>

definition channel_notify ::
  "channel_deps \<Rightarrow> (secret_value \<Rightarrow> string) \<Rightarrow> notify_args option \<Rightarrow> 'p channel_world \<Rightarrow>
     channel_error option \<times> 'p channel_world" where
  "channel_notify d render args w =
     (case args of
        None \<Rightarrow> (Some BadArguments, w)
      | Some a \<Rightarrow>
          if na_channel a = [] then (Some NameMissing, w)
          else if na_message a = [] then (Some MessageMissing, w)
          else if hd_active d = Some (na_channel a) then (Some (NotifySelf (na_channel a)), w)
          else
            (case registry_by_name (hw_registry w) (na_channel a) of
               None \<Rightarrow> (Some (NoSuchChannel (na_channel a)), w)
             | Some e \<Rightarrow>
                 (case ep_provisioners (hd_base d) (re_type e) of
                    None \<Rightarrow> (Some (NotifyUnsupported (na_channel a)), w)
                  | Some pv \<Rightarrow>
                      (case secret_get (channel_secret_key (na_channel a)) (hw_secrets w) of
                         (Inl er, sec) \<Rightarrow> (Some (TokenUnreadable er), put_secrets sec w)
                       | (Inr v, sec) \<Rightarrow>
                           if v = PlainText [] then (Some (TokenMissing (na_channel a)), put_secrets sec w)
                           else
                             (map_option NotifyFailed (pr_notify pv (render v) (na_message a)),
                              (put_secrets sec w)\<lparr>hw_notified := hw_notified w @
                                 [(re_type e, render v, na_message a)]\<rparr>)))))"

record busy_args =
  ba_channel :: string
  ba_idle_timeout :: int

definition channel_is_busy ::
  "channel_deps \<Rightarrow> time \<Rightarrow> busy_args option \<Rightarrow> 'p channel_world \<Rightarrow> channel_error + bool \<times> bool" where
  "channel_is_busy d now args w =
     (case args of
        None \<Rightarrow> Inl BadArguments
      | Some a \<Rightarrow>
          if ba_channel a = [] then Inl NameMissing
          else if \<not> ep_tracker (hd_base d) then Inl NoActivityTracking
          else Inr (is_busy_with_timeout (ba_channel a)
                 (if ba_idle_timeout a > 0 then wrap64 (ba_idle_timeout a * second) else default_idle_timeout)
                 now (qw_tracker (ew_queue (hw_reap w)))))"

subsection \<open>channel\_send\<close>

record send_args =
  sp_from :: string
  sp_to :: string
  sp_message :: string
  sp_no_reply :: bool

text \<open>
  \<open>sd_send\<close> is the outbox's answer to a direct delivery, and \<open>sd_taken\<close> whether the injection
  channel takes the message before the call is cancelled.
\<close>

record send_deps =
  sd_links :: "string \<Rightarrow> channel_link list option"
  sd_channels :: "channel_map option"
  sd_active :: string
  sd_send :: "channel_id \<Rightarrow> string \<Rightarrow> string option"
  sd_taken :: bool

record send_world =
  sw_output :: "tagged_message list"
  sw_delivered :: "(channel_id \<times> string) list"

definition max_send_message_length :: nat where "max_send_message_length = 8000"

definition no_reply_prefix :: "string \<Rightarrow> string" where
  "no_reply_prefix from_channel =
     [CHR 0xF0, CHR 0x9F, CHR 0x93, CHR 0xA9] @ '' from '' @ from_channel @ [CHR 0x0A]"

definition send_checks :: "send_deps \<Rightarrow> send_args \<Rightarrow> channel_error option list" where
  "send_checks d p =
     [reject_if (sp_from p = []) FromMissing, reject_if (sp_to p = []) ToMissing,
      reject_if (sp_message p = []) MessageMissing,
      reject_if (max_send_message_length < length (sp_message p)) (MessageTooLong (length (sp_message p))),
      reject_if (sd_active d \<noteq> sp_from p) (WrongSource (sd_active d)),
      (case sd_links d (sp_from p) of
         None \<Rightarrow> Some (NoOutboundLinks (sp_from p))
       | Some ls \<Rightarrow> reject_if (\<forall>l \<in> set ls. cl_target l \<noteq> sp_to p) (NoLinkTo (sp_to p))),
      reject_if (sd_channels d = None) NoChannels]"

definition channel_send ::
  "send_deps \<Rightarrow> send_args option \<Rightarrow> send_world \<Rightarrow> channel_error option \<times> send_world" where
  "channel_send d args w =
     (case args of
        None \<Rightarrow> (Some BadArguments, w)
      | Some p \<Rightarrow>
          (case first_error (send_checks d p) of
             Some e \<Rightarrow> (Some e, w)
           | None \<Rightarrow>
               (case chan_by_name (case sd_channels d of None \<Rightarrow> [] | Some m \<Rightarrow> m) (sp_to p) of
                  None \<Rightarrow> (Some (TargetNotLive (sp_to p)), w)
                | Some (_, c) \<Rightarrow>
                    if sp_no_reply p then
                      (let text' = no_reply_prefix (sp_from p) @ sp_message p
                       in (map_option DeliveryFailed (sd_send d (ch_id c) text'),
                           w\<lparr>sw_delivered := sw_delivered w @ [(ch_id c, text')]\<rparr>))
                    else if sd_taken d then
                      (None, w\<lparr>sw_output := sw_output w @
                         [\<lparr>tm_channel = ch_id c, tm_text = sp_message p,
                           tm_source = Some ((no_source SourceChannel)\<lparr>si_from_channel := sp_from p\<rparr>)\<rparr>]\<rparr>)
                    else (Some SendCancelled, w))))"

end
