(* ===== verification/ChannelToolsProps.thy ===== *)
theory ChannelToolsProps
  imports ChannelTools
begin

text \<open>
  What the channel tools promise: that a refused call changes nothing, that a channel is created as
  asked and only with tool groups its creator may hand on, that an edit keeps a channel's two tool
  lists exclusive, that a channel is deleted only after its platform resources, and that messages
  go from the active channel to its declared targets only.
\<close>

subsection \<open>The config as the tools leave it\<close>

lemma decode_all_append:
  "decode_all codec ns = Some cs \<Longrightarrow> yc_decode codec n = Some c \<Longrightarrow> decode_all codec (ns @ [n]) = Some (cs @ [c])"
  by (induction ns arbitrary: cs) (auto split: option.splits)

lemma decode_all_update:
  "decode_all codec ns = Some cs \<Longrightarrow> i < length ns \<Longrightarrow> yc_decode codec n = Some c \<Longrightarrow>
   decode_all codec (ns[i := n]) = Some (cs[i := c])"
proof (induction ns arbitrary: cs i)
  case (Cons m ns)
  then show ?case by (cases i) (auto split: option.splits)
qed simp

lemma decode_all_nth:
  "decode_all codec ns = Some cs \<Longrightarrow> i < length ns \<Longrightarrow> yc_decode codec (ns ! i) = Some (cs ! i)"
proof (induction ns arbitrary: cs i)
  case (Cons m ns)
  then show ?case by (cases i) (auto split: option.splits)
qed simp

lemma cfg_add_ok:
  assumes "codec_ok codec" and "cfg_add_channel codec env uid ch f = (None, f')"
    and "config_channels codec env uid f = Some cs"
  shows "cc_name ch \<notin> cc_name ` set cs \<and> config_channels codec env uid f' = Some (cs @ [ch])"
proof -
  from assms(2) have "cfg_mutate env uid (add_channel_nodes codec ch) f = (None, f')"
    by (simp add: cfg_add_channel_def)
  from cfg_mutate_ok [OF this] obtain ns ns' where m: "channel_nodes env uid f = Some ns"
      "add_channel_nodes codec ch ns = Inr ns'" "channel_nodes env uid f' = Some ns'" by blast
  from assms(3) m(1) have dec: "decode_all codec ns = Some cs" by (simp add: config_channels_def)
  have "cc_name ` set cs = (\<lambda>n. node_scalar_value n ''name'') ` set ns"
    using arg_cong [OF decode_all_names [OF assms(1) dec], of set] by simp
  with m(2,3) dec assms(1) show ?thesis
    by (auto simp: add_channel_nodes_def config_channels_def codec_ok_def decode_all_append split: if_splits)
qed

lemma cfg_update_ok:
  assumes "codec_ok codec" and "cfg_update_channel codec env uid name fn f = (None, f')"
    and "config_channels codec env uid f = Some cs"
  shows "\<exists>i. i < length cs \<and> cc_name (cs ! i) = name \<and>
             config_channels codec env uid f' = Some (cs[i := fn (cs ! i)])"
proof -
  from assms(2) have "cfg_mutate env uid (update_channel_nodes codec name fn) f = (None, f')"
    by (simp add: cfg_update_channel_def)
  from cfg_mutate_ok [OF this] obtain ns ns' where m: "channel_nodes env uid f = Some ns"
      "update_channel_nodes codec name fn ns = Inr ns'" "channel_nodes env uid f' = Some ns'" by blast
  from assms(3) m(1) have dec: "decode_all codec ns = Some cs" by (simp add: config_channels_def)
  from m(2) obtain i c where i: "first_index (\<lambda>n. node_scalar_value n ''name'' = name) ns = Some i"
      "yc_decode codec (ns ! i) = Some c" "ns' = ns[i := yc_encode codec (fn c)]"
    by (auto simp: update_channel_nodes_def split: option.splits)
  note at = first_index_less [OF i(1)] first_index_sat [OF i(1)]
  have c: "c = cs ! i" using decode_all_nth [OF dec at(1)] i(2) by simp
  have "config_channels codec env uid f' = Some (cs[i := fn (cs ! i)])"
    using decode_all_update [OF dec at(1), of "yc_encode codec (fn c)" "fn c"] assms(1) m(3) i(3) c
    by (simp add: config_channels_def codec_ok_def)
  moreover have "i < length cs" "cc_name (cs ! i) = name"
    using at decode_all_length [OF dec] arg_cong [OF decode_all_names [OF assms(1) dec], of "\<lambda>xs. xs ! i"]
    by simp_all
  ultimately show ?thesis by blast
qed

definition tools_config :: "channel_deps \<Rightarrow> 'p channel_world \<Rightarrow> channel_config list option" where
  "tools_config d w = reap_config (hd_base d) (hw_reap w)"

lemma put_secrets_simps [simp]:
  "ew_config (hw_reap (put_secrets sec w)) = ew_config (hw_reap w)"
  "ew_runtime (hw_reap (put_secrets sec w)) = ew_runtime (hw_reap w)"
  "ew_events (hw_reap (put_secrets sec w)) = ew_events (hw_reap w)"
  "ew_changes (hw_reap (put_secrets sec w)) = ew_changes (hw_reap w)"
  "hw_registry (put_secrets sec w) = hw_registry w"
  "tools_config d (put_secrets sec w) = tools_config d w"
  by (simp_all add: put_secrets_def tools_config_def reap_config_def)

lemma put_config_simps [simp]:
  "ew_config (hw_reap (put_config cfg w)) = cfg" "hw_registry (put_config cfg w) = hw_registry w"
  "ew_runtime (hw_reap (put_config cfg w)) = ew_runtime (hw_reap w)"
  "ew_events (hw_reap (put_config cfg w)) = ew_events (hw_reap w)"
  "ew_changes (hw_reap (put_config cfg w)) = ew_changes (hw_reap w)"
  "ew_mcps (hw_reap (put_config cfg w)) = ew_mcps (hw_reap w)"
  "ew_dev (hw_reap (put_config cfg w)) = ew_dev (hw_reap w)"
  "ew_queue (hw_reap (put_config cfg w)) = ew_queue (hw_reap w)"
  by (simp_all add: put_config_def)

lemma channel_changed_simps [simp]:
  "ew_config (hw_reap (channel_changed d w)) = ew_config (hw_reap w)"
  "ew_events (hw_reap (channel_changed d w)) = ew_events (hw_reap w)"
  "hw_registry (channel_changed d w) = hw_registry w"
  "tools_config d (channel_changed d w) = tools_config d w"
  by (simp_all add: channel_changed_def tools_config_def reap_config_def)

subsection \<open>Creation\<close>

lemma registry_add_names: "name_exists (registry_add e r) n \<longleftrightarrow> n = re_name e \<or> name_exists r n"
  by (auto simp: name_exists_def registry_add_def)

lemma created_entry_name [simp]: "re_name (created_registry_entry ch) = cc_name ch"
  by (simp add: created_registry_entry_def)

text \<open>The commit either leaves everything as it was or writes the channel.\<close>

definition written_as :: "channel_deps \<Rightarrow> channel_config \<Rightarrow> 'p channel_world \<Rightarrow> 'p channel_world \<Rightarrow> bool" where
  "written_as d ch w w' =
     (\<forall>cs. tools_config d w = Some cs \<longrightarrow>
        cc_name ch \<notin> cc_name ` set cs \<and> tools_config d w' = Some (cs @ [ch]) \<and>
        hw_registry w' = registry_add (created_registry_entry ch) (hw_registry w))"

definition tools_unchanged :: "'p channel_world \<Rightarrow> 'p channel_world \<Rightarrow> bool" where
  "tools_unchanged w w' =
     (cf_content (ew_config (hw_reap w')) = cf_content (ew_config (hw_reap w)) \<and>
      hw_registry w' = hw_registry w \<and> ew_events (hw_reap w') = ew_events (hw_reap w) \<and>
      ew_changes (hw_reap w') = ew_changes (hw_reap w))"

lemma create_commit_cases:
  assumes "create_commit d ch w = (r, w')" and "codec_ok (ep_codec (hd_base d))"
  shows "(\<exists>e. r = Inl (ConfigRefused e) \<and> tools_unchanged w w') \<or>
         ((\<exists>e. r = Inl (ProvisioningFailed e)) \<or> (\<exists>x. r = Inr x)) \<and> written_as d ch w w'"
proof -
  obtain res cfg where cfg: "cfg_add_channel (ep_codec (hd_base d)) (ep_env (hd_base d)) (ep_user (hd_base d)) ch
      (ew_config (hw_reap w)) = (res, cfg)" by (rule prod.exhaust)
  obtain q rw' where q: "reconcile_one (hd_reconcile d) ch
      \<lparr>rw_runtime = ew_runtime (hw_reap w), rw_events = ew_events (hw_reap w)\<rparr> = (q, rw')" by (rule prod.exhaust)
  show ?thesis
  proof (cases res)
    case (Some e)
    with cfg have "cf_content cfg = cf_content (ew_config (hw_reap w))"
      by (auto simp: cfg_add_channel_def dest: cfg_mutate_fail)
    with assms(1) cfg Some show ?thesis by (auto simp: create_commit_def tools_unchanged_def)
  next
    case None
    have "config_channels (ep_codec (hd_base d)) (ep_env (hd_base d)) (ep_user (hd_base d)) cfg = Some (cs @ [ch]) \<and>
        cc_name ch \<notin> cc_name ` set cs" if "tools_config d w = Some cs" for cs
      using cfg_add_ok [OF assms(2) cfg [unfolded None]] that by (simp add: tools_config_def reap_config_def)
    with assms(1) cfg None q show ?thesis
      by (auto simp: create_commit_def written_as_def Let_def tools_config_def reap_config_def split: sum.splits)
  qed
qed

lemma channel_create_cases:
  assumes "channel_create d args w = (r, w')"
  shows "(\<exists>e. r = Inl e) \<and> tools_unchanged w w' \<or>
         (\<exists>a sec. args = Some a \<and> first_error (create_shape_checks a) = None \<and>
            create_type_check d a (hw_secrets w) = (None, sec) \<and>
            first_error (create_policy_checks d (hw_registry w) a) = None \<and>
            create_commit d (create_entry d a) (put_secrets sec w) = (r, w'))"
proof (cases args)
  case None
  with assms show ?thesis by (auto simp: channel_create_def tools_unchanged_def)
next
  case (Some a)
  obtain t sec where t: "create_type_check d a (hw_secrets w) = (t, sec)" by (rule prod.exhaust)
  show ?thesis
  proof (cases "first_error (create_shape_checks a)")
    case (Some e)
    with assms \<open>args = Some a\<close> show ?thesis by (auto simp: channel_create_def tools_unchanged_def)
  next
    case None
    with assms \<open>args = Some a\<close> t show ?thesis
      by (cases t; cases "first_error (create_policy_checks d (hw_registry w) a)")
        (auto simp: channel_create_def tools_unchanged_def simp del: first_error_None)
  qed
qed

lemma create_checks_passed:
  assumes "first_error (create_shape_checks a) = None"
    and "first_error (create_policy_checks d reg a) = None"
  shows "channel_name_ok (ca_name a) \<and> length (ca_name a) \<le> 64 \<and> ca_initial_message a \<noteq> [] \<and>
         (ca_tool_groups a = [] \<or> ca_allowed a = []) \<and>
         (\<forall>g \<in> set (ca_tool_groups a) \<union> set (ca_creatable a). valid_group (hd_groups d) g) \<and>
         delegation_check d reg (ca_tool_groups a) = None \<and> \<not> name_exists reg (ca_name a) \<and>
         link_check (ca_name a) 0 [] (ca_links a) = None \<and>
         (ca_parent a \<noteq> [] \<longrightarrow> name_exists reg (ca_parent a))"
  using assms by (auto simp: create_shape_checks_def create_policy_checks_def unknown_group_None)

lemma create_entry_fields:
  "cc_name (create_entry d a) = ca_name a" "cc_type (create_entry d a) = ca_type a"
  "cc_description (create_entry d a) = ca_description a" "cc_purpose (create_entry d a) = ca_purpose a"
  "cc_model (create_entry d a) = ca_model a" "cc_max_turns (create_entry d a) = ca_max_turns a"
  "cc_turn_settings (create_entry d a) = ca_settings a" "cc_tool_groups (create_entry d a) = ca_tool_groups a"
  "cc_allowed (create_entry d a) = ca_allowed a" "cc_disallowed (create_entry d a) = ca_disallowed a"
  "cc_creatable (create_entry d a) = ca_creatable a" "cc_links (create_entry d a) = ca_links a"
  "cc_parent (create_entry d a) = ca_parent a" "cc_initial_message (create_entry d a) = ca_initial_message a"
  "cc_session_timeout (create_entry d a) = ca_session_timeout a" "cc_ephemeral (create_entry d a) = ca_ephemeral a"
  "cc_created_at (create_entry d a) = hd_now_text d"
  "cc_idle_timeout (create_entry d a) =
     (if \<not> ca_ephemeral a then []
      else hd_show_duration d (if 0 < ca_idle_hours a then wrap64 (ca_idle_hours a * hour) else 24 * hour))"
  by (simp_all add: create_entry_def create_idle_timeout_def)

lemma written_as_names:
  assumes "written_as d ch w w'" and "tools_config d w = Some cs"
  shows "cc_name ch \<notin> cc_name ` set cs" and "tools_config d w' = Some (cs @ [ch])"
    and "name_exists (hw_registry w') n \<longleftrightarrow> n = cc_name ch \<or> name_exists (hw_registry w) n"
  using assms by (simp_all add: written_as_def registry_add_names)

text \<open>
  C13. A channel is created as asked or not at all. A call of \<open>channel_create\<close> either is refused and
  leaves the config, the registry and every platform as they were, or adds one channel at the end of
  the user's channels, under a name none of them had, and enters it in the registry; the latter also
  when provisioning then fails, the one error that does not undo anything. Every setting the tool
  reads from its arguments is the new channel's, one by one; the idle timeout of an ephemeral one is
  the given hours, or a day. (The schema offers \<open>allowed_users\<close> too, which the tool never reads.)
\<close>

theorem channel_created_as_asked:
  assumes "channel_create d args w = (r, w')" and "codec_ok (ep_codec (hd_base d))"
  shows "(\<exists>e. r = Inl e) \<and> tools_unchanged w w' \<or>
         (\<exists>a. args = Some a \<and> ((\<exists>e. r = Inl (ProvisioningFailed e)) \<or> (\<exists>x. r = Inr x)) \<and>
            \<not> name_exists (hw_registry w) (ca_name a) \<and>
            (\<forall>cs. tools_config d w = Some cs \<longrightarrow>
               ca_name a \<notin> cc_name ` set cs \<and>
               (\<forall>n. name_exists (hw_registry w') n \<longleftrightarrow> n = ca_name a \<or> name_exists (hw_registry w) n) \<and>
               (\<exists>c. tools_config d w' = Some (cs @ [c]) \<and>
                  cc_name c = ca_name a \<and> cc_type c = ca_type a \<and> cc_description c = ca_description a \<and>
                  cc_purpose c = ca_purpose a \<and> cc_model c = ca_model a \<and> cc_max_turns c = ca_max_turns a \<and>
                  cc_turn_settings c = ca_settings a \<and> cc_tool_groups c = ca_tool_groups a \<and>
                  cc_allowed c = ca_allowed a \<and> cc_disallowed c = ca_disallowed a \<and>
                  cc_creatable c = ca_creatable a \<and> cc_links c = ca_links a \<and> cc_parent c = ca_parent a \<and>
                  cc_initial_message c = ca_initial_message a \<and> cc_session_timeout c = ca_session_timeout a \<and>
                  cc_ephemeral c = ca_ephemeral a \<and> cc_created_at c = hd_now_text d \<and>
                  cc_idle_timeout c =
                    (if \<not> ca_ephemeral a then []
                     else hd_show_duration d (if 0 < ca_idle_hours a then wrap64 (ca_idle_hours a * hour) else 24 * hour)))))"
  using channel_create_cases [OF assms(1)]
proof (elim disjE exE conjE)
  fix a sec
  assume a: "args = Some a" "first_error (create_shape_checks a) = None"
    "create_type_check d a (hw_secrets w) = (None, sec)" "first_error (create_policy_checks d (hw_registry w) a) = None"
    and c: "create_commit d (create_entry d a) (put_secrets sec w) = (r, w')"
  note fresh = create_checks_passed [OF a(2,4)]
  have unch: "tools_unchanged (put_secrets sec w) w' = tools_unchanged w w'" by (simp add: tools_unchanged_def)
  from create_commit_cases [OF c assms(2)] show ?thesis
  proof
    assume "\<exists>e. r = Inl (ConfigRefused e) \<and> tools_unchanged (put_secrets sec w) w'"
    then show ?thesis by (auto simp: unch)
  next
    assume w: "((\<exists>e. r = Inl (ProvisioningFailed e)) \<or> (\<exists>x. r = Inr x)) \<and>
      written_as d (create_entry d a) (put_secrets sec w) w'"
    note names = written_as_names [OF conjunct2 [OF w], unfolded put_secrets_simps create_entry_fields]
    show ?thesis
      by (rule disjI2, rule exI [of _ a]) (use a(1) fresh w names in \<open>simp add: create_entry_fields\<close>)
  qed
qed blast

lemma channel_create_adds:
  assumes "channel_create d args w = (r, w')" and "codec_ok (ep_codec (hd_base d))"
    and "tools_config d w = Some cs" and "tools_config d w' = Some cs'" and "c \<in> set cs'" and "c \<notin> set cs"
  obtains a where "c = create_entry d a" and "first_error (create_shape_checks a) = None"
    and "first_error (create_policy_checks d (hw_registry w) a) = None"
proof -
  have same: "tools_config d v' = tools_config d v" if "tools_unchanged v v'" for v v' :: "'a channel_world"
    unfolding tools_config_def reap_config_def
    by (rule config_channels_content) (use that in \<open>simp add: tools_unchanged_def\<close>)
  from channel_create_cases [OF assms(1)] show thesis
  proof (elim disjE exE conjE)
    assume "tools_unchanged w w'"
    from same [OF this] assms(3-6) show thesis by simp
  next
    fix a sec
    assume a: "first_error (create_shape_checks a) = None" "first_error (create_policy_checks d (hw_registry w) a) = None"
      and c: "create_commit d (create_entry d a) (put_secrets sec w) = (r, w')"
    from create_commit_cases [OF c assms(2)] assms(3-6) same [of "put_secrets sec w" w'] have "c = create_entry d a"
      by (auto simp: written_as_def)
    with a that show thesis by blast
  qed
qed

text \<open>
  C11. The tool groups a created channel has were its creator's to hand on. Whatever a call of
  \<open>channel_create\<close> adds to the user's config: each of its tool groups is known and, if the call comes
  from a registered channel, one of that channel's creatable groups; it never has both tool groups
  and allowed tools; its links are complete, name no channel twice and never itself; its name is
  alphanumeric with hyphens and underscores. Nothing is claimed of allowed tools and of the new
  channel's own creatable groups, which are handed on unchecked (\<open>creation_without_rights\<close>).
\<close>

theorem created_channel_is_delegated:
  assumes "channel_create d args w = (r, w')" and "codec_ok (ep_codec (hd_base d))"
    and "tools_config d w = Some cs" and "tools_config d w' = Some cs'" and "c \<in> set cs'" and "c \<notin> set cs"
  shows "(\<forall>g \<in> set (cc_tool_groups c). valid_group (hd_groups d) g \<and>
            (\<forall>active e. hd_active d = Some active \<longrightarrow> active \<noteq> [] \<longrightarrow>
               registry_by_name (hw_registry w) active = Some e \<longrightarrow> g \<in> set (re_creatable_groups e))) \<and>
         (cc_tool_groups c = [] \<or> cc_allowed c = []) \<and>
         (\<forall>l \<in> set (cc_links c). cl_target l \<noteq> [] \<and> cl_description l \<noteq> [] \<and> cl_target l \<noteq> cc_name c) \<and>
         distinct (map cl_target (cc_links c)) \<and> channel_name_ok (cc_name c)"
proof (rule channel_create_adds [OF assms])
  fix a
  assume c: "c = create_entry d a" and a: "first_error (create_shape_checks a) = None"
    "first_error (create_policy_checks d (hw_registry w) a) = None"
  from create_checks_passed [OF a] show ?thesis
    by (auto simp: c create_entry_def delegation_check_None link_check_None)
qed

subsection \<open>Edits and the invariant of the config\<close>

definition exclusive_lists :: "channel_config \<Rightarrow> bool" where
  "exclusive_lists c = (cc_tool_groups c = [] \<or> cc_allowed c = [])"

definition links_ok :: "channel_config \<Rightarrow> bool" where
  "links_ok c =
     ((\<forall>l \<in> set (cc_links c). cl_target l \<noteq> [] \<and> cl_target l \<noteq> cc_name c) \<and> distinct (map cl_target (cc_links c)))"

definition config_ok :: "channel_config list \<Rightarrow> bool" where
  "config_ok cs = (distinct (map cc_name cs) \<and> (\<forall>c \<in> set cs. exclusive_lists c \<and> links_ok c))"

lemma edit_channel_simps [simp]:
  "cc_name (edit_channel a c) = cc_name c" "cc_type (edit_channel a c) = cc_type c"
  "cc_ephemeral (edit_channel a c) = cc_ephemeral c" "cc_rest (edit_channel a c) = cc_rest c"
  "cc_links (edit_channel a c) = or_default (cc_links c) (ea_links a)"
  by (simp_all add: edit_channel_def edit_tool_lists_def Let_def or_default_def split: option.splits)

lemma edit_exclusive:
  assumes "or_default [] (ea_tool_groups a) = [] \<or> or_default [] (ea_allowed a) = []" and "exclusive_lists c"
  shows "exclusive_lists (edit_channel a c)"
  using assms by (auto simp: edit_channel_def edit_tool_lists_def Let_def exclusive_lists_def or_default_def
      split: option.splits)

lemma edit_links_ok:
  assumes "link_check (cc_name c) 0 [] (or_default [] (ea_links a)) = None" and "links_ok c"
  shows "links_ok (edit_channel a c)"
  using assms by (auto simp: links_ok_def link_check_None or_default_def split: option.splits)

lemma channel_edit_cases:
  assumes "channel_edit d args w = (r, w')" and "codec_ok (ep_codec (hd_base d))"
  shows "(\<exists>e. r = Some e) \<and> tools_unchanged w w' \<or>
         (\<exists>a. args = Some a \<and> r = None \<and> first_error (edit_checks d (hw_registry w) a) = None \<and>
            hw_registry w' = hw_registry w \<and> ew_events (hw_reap w') = ew_events (hw_reap w) \<and>
            (\<forall>cs. tools_config d w = Some cs \<longrightarrow>
               (\<exists>i. i < length cs \<and> cc_name (cs ! i) = ea_name a \<and>
                  tools_config d w' = Some (cs[i := edit_channel a (cs ! i)]))))"
proof (cases args)
  case None
  with assms show ?thesis by (auto simp: channel_edit_def tools_unchanged_def)
next
  case (Some a)
  obtain res cfg where cfg: "cfg_update_channel (ep_codec (hd_base d)) (ep_env (hd_base d)) (ep_user (hd_base d))
      (ea_name a) (edit_channel a) (ew_config (hw_reap w)) = (res, cfg)" by (rule prod.exhaust)
  have err: "cf_content cfg = cf_content (ew_config (hw_reap w))" if "res = Some e" for e
    using cfg that by (auto simp: cfg_update_channel_def dest: cfg_mutate_fail)
  have good: "\<exists>i. i < length cs \<and> cc_name (cs ! i) = ea_name a \<and>
      config_channels (ep_codec (hd_base d)) (ep_env (hd_base d)) (ep_user (hd_base d)) cfg = Some (cs[i := edit_channel a (cs ! i)])"
    if "res = None" "tools_config d w = Some cs" for cs
    using cfg_update_ok [OF assms(2) cfg [unfolded that(1)]] that(2) by (simp add: tools_config_def reap_config_def)
  show ?thesis
  proof (cases "first_error (edit_checks d (hw_registry w) a)")
    case (Some e)
    with assms(1) \<open>args = Some a\<close> have "r = Some e" "w' = w" by (simp_all add: channel_edit_def)
    then show ?thesis by (simp add: tools_unchanged_def)
  next
    case None
    with assms(1) \<open>args = Some a\<close> cfg have res: "r = map_option ConfigRefused res"
        "w' = (case res of Some e \<Rightarrow> put_config cfg w | None \<Rightarrow> channel_changed d (put_config cfg w))"
      by (auto simp: channel_edit_def split: option.splits simp del: first_error_None)
    show ?thesis
    proof (cases res)
      case (Some e)
      with err res show ?thesis by (simp add: tools_unchanged_def)
    next
      case n: None
      have "\<exists>i. i < length cs \<and> cc_name (cs ! i) = ea_name a \<and> tools_config d w' = Some (cs[i := edit_channel a (cs ! i)])"
        if "tools_config d w = Some cs" for cs
        using good [OF n that] res n by (simp add: tools_config_def reap_config_def)
      with n res None \<open>args = Some a\<close> show ?thesis by (auto simp del: first_error_None)
    qed
  qed
qed

lemma edit_checks_passed:
  assumes "first_error (edit_checks d reg a) = None"
  shows "(or_default [] (ea_tool_groups a) = [] \<or> or_default [] (ea_allowed a) = []) \<and>
         link_check (ea_name a) 0 [] (or_default [] (ea_links a)) = None"
  using assms by (auto simp: edit_checks_def)

lemma config_ok_update:
  assumes "config_ok cs" and "i < length cs" and "cc_name c = cc_name (cs ! i)" and "exclusive_lists c" and "links_ok c"
  shows "config_ok (cs[i := c])"
proof -
  have "map cc_name (cs[i := c]) = map cc_name cs"
    using assms(2,3) by (simp add: map_update list_update_same_conv)
  moreover have "set (cs[i := c]) \<subseteq> insert c (set cs)" by (rule set_update_subset_insert)
  ultimately show ?thesis using assms by (auto simp: config_ok_def)
qed

lemma unlink_ok: "exclusive_lists c \<Longrightarrow> links_ok c \<Longrightarrow> exclusive_lists (unlink n c) \<and> links_ok (unlink n c)"
  by (auto simp: unlink_def exclusive_lists_def links_ok_def distinct_map_filter)

lemma distinct_remove_at: "distinct xs \<Longrightarrow> distinct (remove_at i xs)"
proof (cases "i < length xs")
  case True
  assume "distinct xs"
  moreover have "mset (xs ! i # remove_at i xs) = mset xs" using mset_remove_at [OF True] by simp
  ultimately show ?thesis by (metis distinct.simps(2) mset_eq_imp_distinct_iff)
qed (simp add: remove_at_def)

lemma config_ok_removal:
  assumes "config_ok cs"
  shows "config_ok (map (unlink n) (remove_at i cs))"
proof -
  have names: "map cc_name (map (unlink n) xs) = map cc_name xs" for xs by (simp add: unlink_def)
  have "set (remove_at i cs) \<subseteq> set cs"
    by (auto simp: remove_at_def dest: in_set_takeD in_set_dropD)
  moreover have "distinct (map cc_name (remove_at i cs))"
    using assms distinct_remove_at [of "map cc_name cs" i]
    by (simp add: config_ok_def remove_at_def take_map drop_map)
  ultimately show ?thesis using assms unfolding config_ok_def names by (auto simp: unlink_ok subsetD)
qed

subsection \<open>Deletion\<close>

lemma delete_platform_frame:
  assumes "delete_platform d name rs w = (e, w')"
  shows "ew_config (hw_reap w') = ew_config (hw_reap w) \<and> hw_registry w' = hw_registry w \<and>
         ew_runtime (hw_reap w') = ew_runtime (hw_reap w) \<and> ew_mcps (hw_reap w') = ew_mcps (hw_reap w) \<and>
         ew_dev (hw_reap w') = ew_dev (hw_reap w) \<and> ew_changes (hw_reap w') = ew_changes (hw_reap w)"
  using assms by (auto simp: delete_platform_def split: if_splits option.splits)

lemma delete_platform_torn_down:
  assumes "delete_platform d name rs w = (None, w')" and "has_teardown_state (rs_teardown rs)"
    and "registry_by_name (hw_registry w) name = Some e" and "ep_provisioners (hd_base d) (re_type e) = Some pv"
  shows "pr_teardown pv (rs_teardown rs) = None \<and>
         ew_events (hw_reap w') = ew_events (hw_reap w) @ [Teardown (re_type e) (rs_teardown rs)]"
  using assms by (auto simp: delete_platform_def)

lemma cleanup_channel_sessions_frame:
  assumes "cleanup_channel_sessions p name w = (n, w')"
  shows "ew_config w' = ew_config w \<and> ew_events w' = ew_events w"
  using assms by (auto simp: cleanup_channel_sessions_def split: if_splits prod.splits sum.splits)

lemma delete_cleanup_frame:
  assumes "delete_cleanup d name w = (r, w')"
  shows "ew_config w' = ew_config w \<and> ew_events w' = ew_events w"
proof -
  obtain n w4 where c: "cleanup_channel_sessions (hd_base d) name
      (let w2 = w\<lparr>ew_runtime := snd (rs_delete name (ew_runtime w)),
                ew_mcps := (ew_mcps w)\<lparr>mw_secrets := snd (secret_delete (channel_secret_key name) (mw_secrets (ew_mcps w)))\<rparr>\<rparr>
       in if hd_memory_dir d = [] then w2
          else w2\<lparr>ew_removed_dirs := ew_removed_dirs w2 @ [join_path (join_path (hd_memory_dir d) ''channels'') name]\<rparr>) = (n, w4)"
    by (rule prod.exhaust)
  from cleanup_channel_sessions_frame [OF c] have "ew_config w4 = ew_config w" "ew_events w4 = ew_events w"
    by (simp_all add: Let_def)
  moreover have "ew_config w' = ew_config w4 \<and> ew_events w' = ew_events w4"
    using assms c by (auto simp: delete_cleanup_def Let_def split: if_splits prod.splits)
  ultimately show ?thesis by simp
qed

text \<open>Both copies of \<open>cleanupDevSessionsForChannel\<close>, the reaper's and this package's, do the same.\<close>

lemma session_cleanups_agree: "snd (cleanup_channel_sessions p name w) = cleanup_dev_sessions p name w"
  by (auto simp: cleanup_channel_sessions_def cleanup_dev_sessions_def split: prod.splits sum.splits)

definition delete_kept :: "'p channel_world \<Rightarrow> 'p channel_world \<Rightarrow> bool" where
  "delete_kept w w' =
     (cf_content (ew_config (hw_reap w')) = cf_content (ew_config (hw_reap w)) \<and> hw_registry w' = hw_registry w \<and>
      rs_view (ew_runtime (hw_reap w')) = rs_view (ew_runtime (hw_reap w)) \<and>
      ew_mcps (hw_reap w') = ew_mcps (hw_reap w) \<and> ew_dev (hw_reap w') = ew_dev (hw_reap w) \<and>
      ew_changes (hw_reap w') = ew_changes (hw_reap w))"

lemma registry_removed: "\<not> name_exists (registry_remove n r) n"
  by (simp add: registry_remove_def name_exists_def)

lemma delete_kept_config: "delete_kept w w' \<Longrightarrow> tools_config d w' = tools_config d w"
  by (simp add: delete_kept_def tools_config_def reap_config_def config_channels_def channel_nodes_def)

lemma channel_delete_cases:
  assumes "channel_delete d args w = (r, w')" and "codec_ok (ep_codec (hd_base d))"
  shows "(\<exists>e. r = Inl e) \<and> delete_kept w w' \<or>
         (\<exists>name x. args = Some name \<and> r = Inr x \<and> \<not> name_exists (hw_registry w') name \<and>
            (\<forall>cs. tools_config d w = Some cs \<longrightarrow>
               (\<exists>i. i < length cs \<and> cc_name (cs ! i) = name \<and>
                  tools_config d w' = Some (map (unlink name) (remove_at i cs)))) \<and>
            (\<forall>rs e pv. rs_view (ew_runtime (hw_reap w)) name = Inr rs \<longrightarrow> has_teardown_state (rs_teardown rs) \<longrightarrow>
               registry_by_name (hw_registry w) name = Some e \<longrightarrow> ep_provisioners (hd_base d) (re_type e) = Some pv \<longrightarrow>
               pr_teardown pv (rs_teardown rs) = None \<and>
               ew_events (hw_reap w') = ew_events (hw_reap w) @ [Teardown (re_type e) (rs_teardown rs)]))"
proof (cases args)
  case None
  with assms show ?thesis by (auto simp: channel_delete_def delete_kept_def)
next
  case (Some name)
  obtain g st where g: "rs_get name (ew_runtime (hw_reap w)) = (g, st)" by (rule prod.exhaust)
  note view = rs_get_frame [OF g]
  show ?thesis
  proof (cases "name_exists (hw_registry w) name")
    case False
    with assms Some show ?thesis by (auto simp: channel_delete_def delete_kept_def)
  next
    case exists: True
    show ?thesis
    proof (cases g)
      case (Inl e)
      with assms Some exists g view show ?thesis by (auto simp: channel_delete_def delete_kept_def)
    next
      case (Inr rs)
      define w0 where "w0 = w\<lparr>hw_reap := (hw_reap w)\<lparr>ew_runtime := st\<rparr>\<rparr>"
      obtain t w1 where t: "delete_platform d name rs w0 = (t, w1)" by (rule prod.exhaust)
      note frame = delete_platform_frame [OF t]
      show ?thesis
      proof (cases t)
        case te: (Some e)
        with assms Some exists g Inr t have "r = Inl e" "w' = w1"
          by (simp_all add: channel_delete_def w0_def)
        with frame view show ?thesis by (auto simp: delete_kept_def w0_def)
      next
        case tn: None
        obtain res cfg where cfg: "cfg_remove_channel (ep_codec (hd_base d)) (ep_env (hd_base d)) (ep_user (hd_base d))
            name (ew_config (hw_reap w1)) = (res, cfg)" by (rule prod.exhaust)
        show ?thesis
        proof (cases res)
          case re: (Some e)
          with assms Some exists g Inr t tn cfg have "r = Inl (ConfigRefused e)" "w' = put_config cfg w1"
            by (simp_all add: channel_delete_def w0_def)
          moreover have "cf_content cfg = cf_content (ew_config (hw_reap w1))"
            using cfg re by (auto simp: cfg_remove_channel_def dest: cfg_mutate_fail)
          ultimately show ?thesis using frame view by (auto simp: delete_kept_def w0_def)
        next
          case rn: None
          define w2 where "w2 = (put_config cfg w1)\<lparr>hw_registry := registry_remove name (hw_registry w1)\<rparr>"
          obtain q rw where q: "delete_cleanup d name (hw_reap w2) = (q, rw)" by (rule prod.exhaust)
          from assms Some exists g Inr t tn cfg rn q have res:
            "r = Inr (dr_sessions q, remote_mcp_cleanup_result (dr_scopes q))"
            "w' = channel_changed d (w2\<lparr>hw_reap := rw\<rparr>)"
            by (simp_all add: channel_delete_def w0_def w2_def)
          note fr = delete_cleanup_frame [OF q]
          have reg: "\<not> name_exists (hw_registry w') name" by (simp add: res w2_def registry_removed)
          have conf: "\<exists>i. i < length cs \<and> cc_name (cs ! i) = name \<and> tools_config d w' = Some (map (unlink name) (remove_at i cs))"
            if "tools_config d w = Some cs" for cs
            using cfg_remove_ok [OF assms(2) cfg [unfolded rn], of cs] that frame fr
            by (simp add: tools_config_def reap_config_def res w2_def w0_def)
          have ev: "ew_events (hw_reap w') = ew_events (hw_reap w1)" using fr by (simp add: res w2_def)
          have "pr_teardown pv (rs_teardown rs') = None \<and>
              ew_events (hw_reap w') = ew_events (hw_reap w) @ [Teardown (re_type e) (rs_teardown rs')]"
            if "rs_view (ew_runtime (hw_reap w)) name = Inr rs'" "has_teardown_state (rs_teardown rs')"
              "registry_by_name (hw_registry w) name = Some e" "ep_provisioners (hd_base d) (re_type e) = Some pv"
            for rs' e pv
          proof -
            have "rs' = rs" using rs_get_view [OF g [unfolded Inr]] that(1) by simp
            with delete_platform_torn_down [OF t [unfolded tn], of e pv] that ev show ?thesis by (simp add: w0_def)
          qed
          with res(1) reg conf Some show ?thesis by blast
        qed
      qed
    qed
  qed
qed

text \<open>
  C12. A channel is deleted only after its platform resources. When \<open>channel_delete\<close> succeeds, a
  recorded teardown was carried out first by the provisioner of the channel's type, if there is
  one; then the channel alone leaves the config, the links to it with it, and its name leaves the
  registry. When the call fails, at whichever step, the config, the registry, the recorded state,
  the secrets, the scopes of remote servers and the development sessions are all as they were.
\<close>

theorem channel_deleted_after_its_resources:
  assumes "channel_delete d args w = (r, w')" and "codec_ok (ep_codec (hd_base d))"
  shows "(\<exists>e. r = Inl e) \<and> delete_kept w w' \<or>
         (\<exists>name x. args = Some name \<and> r = Inr x \<and> \<not> name_exists (hw_registry w') name \<and>
            (\<forall>cs. tools_config d w = Some cs \<longrightarrow>
               (\<exists>i. i < length cs \<and> cc_name (cs ! i) = name \<and>
                  tools_config d w' = Some (map (unlink name) (remove_at i cs)))) \<and>
            (\<forall>rs e pv. rs_view (ew_runtime (hw_reap w)) name = Inr rs \<longrightarrow> has_teardown_state (rs_teardown rs) \<longrightarrow>
               registry_by_name (hw_registry w) name = Some e \<longrightarrow> ep_provisioners (hd_base d) (re_type e) = Some pv \<longrightarrow>
               pr_teardown pv (rs_teardown rs) = None \<and>
               ew_events (hw_reap w') = ew_events (hw_reap w) @ [Teardown (re_type e) (rs_teardown rs)]))"
  by (rule channel_delete_cases [OF assms])



subsection \<open>The config under any use of the tools\<close>

datatype tool_call =
    CallCreate "channel_create_args option" | CallEdit "channel_edit_args option" | CallDelete "string option"
  | CallRead "string option" | CallReap "string \<Rightarrow> time"

definition run_tool_call :: "channel_deps \<times> tool_call \<Rightarrow> 'p channel_world \<Rightarrow> 'p channel_world" where
  "run_tool_call dc w =
     (case dc of (d, c) \<Rightarrow>
        (case c of
           CallCreate a \<Rightarrow> snd (channel_create d a w)
         | CallEdit a \<Rightarrow> snd (channel_edit d a w)
         | CallDelete a \<Rightarrow> snd (channel_delete d a w)
         | CallRead a \<Rightarrow> snd (channel_read d a w)
         | CallReap clock \<Rightarrow> w\<lparr>hw_reap := cleanup_once (hd_base d) clock (hw_reap w)\<rparr>))"

lemma tools_config_content:
  "cf_content (ew_config (hw_reap w')) = cf_content (ew_config (hw_reap w)) \<Longrightarrow> tools_config d w' = tools_config d w"
  by (simp add: tools_config_def reap_config_def config_channels_def channel_nodes_def)

lemma tools_unchanged_config: "tools_unchanged w w' \<Longrightarrow> tools_config d w' = tools_config d w"
  by (simp add: tools_unchanged_def tools_config_def reap_config_def config_channels_def channel_nodes_def)

definition keeps_ok :: "channel_deps \<Rightarrow> 'p channel_world \<Rightarrow> 'p channel_world \<Rightarrow> bool" where
  "keeps_ok d w w' =
     (\<forall>cs. tools_config d w = Some cs \<longrightarrow> config_ok cs \<longrightarrow> (\<exists>cs'. tools_config d w' = Some cs' \<and> config_ok cs'))"

lemma create_entry_ok:
  assumes "first_error (create_shape_checks a) = None" and "first_error (create_policy_checks d reg a) = None"
  shows "exclusive_lists (create_entry d a) \<and> links_ok (create_entry d a)"
  using create_checks_passed [OF assms]
  by (auto simp: create_entry_def exclusive_lists_def links_ok_def link_check_None)

lemma create_keeps_ok:
  assumes "codec_ok (ep_codec (hd_base d))"
  shows "keeps_ok d w (snd (channel_create d args w))"
proof -
  obtain r w' where c: "channel_create d args w = (r, w')" by (rule prod.exhaust)
  from channel_create_cases [OF c] show ?thesis
  proof (elim disjE exE conjE)
    fix e assume "tools_unchanged w w'"
    with c show ?thesis by (simp add: keeps_ok_def tools_unchanged_config)
  next
    fix a sec
    assume ok: "first_error (create_shape_checks a) = None" "first_error (create_policy_checks d (hw_registry w) a) = None"
      and cm: "create_commit d (create_entry d a) (put_secrets sec w) = (r, w')"
    note entry = create_entry_ok [OF ok]
    from create_commit_cases [OF cm assms]
    have "(tools_config d w' = tools_config d w) \<or>
        (\<forall>cs. tools_config d w = Some cs \<longrightarrow> cc_name (create_entry d a) \<notin> cc_name ` set cs \<and>
           tools_config d w' = Some (cs @ [create_entry d a]))"
      using tools_unchanged_config [of "put_secrets sec w" w' d] by (auto simp: written_as_def)
    with entry c show ?thesis by (auto simp: keeps_ok_def config_ok_def)
  qed
qed

lemma edit_keeps_ok:
  assumes "codec_ok (ep_codec (hd_base d))"
  shows "keeps_ok d w (snd (channel_edit d args w))"
proof -
  obtain r w' where c: "channel_edit d args w = (r, w')" by (rule prod.exhaust)
  from channel_edit_cases [OF c assms] show ?thesis
  proof (elim disjE exE conjE)
    fix e assume "tools_unchanged w w'"
    with c show ?thesis by (simp add: keeps_ok_def tools_unchanged_config)
  next
    fix a
    assume ok: "first_error (edit_checks d (hw_registry w) a) = None"
      and upd: "\<forall>cs. tools_config d w = Some cs \<longrightarrow> (\<exists>i. i < length cs \<and> cc_name (cs ! i) = ea_name a \<and>
                  tools_config d w' = Some (cs[i := edit_channel a (cs ! i)]))"
    note chk = edit_checks_passed [OF ok]
    show ?thesis
      unfolding keeps_ok_def
    proof (intro allI impI)
      fix cs assume cs: "tools_config d w = Some cs" "config_ok cs"
      with upd obtain i where i: "i < length cs" "cc_name (cs ! i) = ea_name a"
        "tools_config d w' = Some (cs[i := edit_channel a (cs ! i)])" by blast
      from i(1) cs(2) have at: "exclusive_lists (cs ! i)" "links_ok (cs ! i)" by (auto simp: config_ok_def)
      have "config_ok (cs[i := edit_channel a (cs ! i)])"
        using chk i(2) by (intro config_ok_update [OF cs(2) i(1)] edit_exclusive edit_links_ok at) auto
      with i(3) c show "\<exists>cs'. tools_config d (snd (channel_edit d args w)) = Some cs' \<and> config_ok cs'" by simp
    qed
  qed
qed

lemma delete_keeps_ok:
  assumes "codec_ok (ep_codec (hd_base d))"
  shows "keeps_ok d w (snd (channel_delete d args w))"
proof -
  obtain r w' where c: "channel_delete d args w = (r, w')" by (rule prod.exhaust)
  from channel_delete_cases [OF c assms]
  have "(tools_config d w' = tools_config d w) \<or>
      (\<forall>cs. tools_config d w = Some cs \<longrightarrow> (\<exists>i n. tools_config d w' = Some (map (unlink n) (remove_at i cs))))"
  proof (elim disjE exE conjE)
    fix e assume "delete_kept w w'"
    then show ?thesis by (simp add: delete_kept_config)
  next
    fix name x
    assume "\<forall>cs. tools_config d w = Some cs \<longrightarrow> (\<exists>i. i < length cs \<and> cc_name (cs ! i) = name \<and>
        tools_config d w' = Some (map (unlink name) (remove_at i cs)))"
    then show ?thesis by blast
  qed
  with c show ?thesis unfolding keeps_ok_def by (metis config_ok_removal snd_conv)
qed

lemma cfg_read_content:
  assumes "cfg_read_channels codec env uid f = (r, f')"
  shows "cf_content f' = cf_content f"
proof -
  obtain q f1 where q: "read_channel_nodes env uid f = (q, f1)" by (rule prod.exhaust)
  with assms have "f' = f1" by (auto simp: cfg_read_channels_def split: sum.splits option.splits)
  with read_nodes_content [OF q] show ?thesis by simp
qed

lemma read_keeps_ok: "keeps_ok d w (snd (channel_read d args w))"
proof -
  have "tools_config d (snd (channel_read d args w)) = tools_config d w"
  proof (cases args)
    case (Some name)
    obtain r cfg where r: "cfg_read_channels (ep_codec (hd_base d)) (ep_env (hd_base d)) (ep_user (hd_base d))
        (ew_config (hw_reap w)) = (r, cfg)" by (rule prod.exhaust)
    have same: "cf_content cfg = cf_content (ew_config (hw_reap w))"
      using cfg_read_content [OF r] .
    from Some r have "cf_content (ew_config (hw_reap (snd (channel_read d args w)))) = cf_content (ew_config (hw_reap w))"
      by (cases r) (auto simp: channel_read_def Let_def same split: prod.splits option.splits)
    then show ?thesis by (rule tools_config_content)
  qed (simp add: channel_read_def)
  then show ?thesis by (simp add: keeps_ok_def)
qed

lemma cleanup_channels_ok:
  "cleanup_channels p clock chs w = (b, w') \<Longrightarrow> codec_ok (ep_codec p) \<Longrightarrow>
   reap_config p w = Some cs \<Longrightarrow> config_ok cs \<Longrightarrow> \<exists>cs'. reap_config p w' = Some cs' \<and> config_ok cs'"
proof (induction chs arbitrary: w w' b cs)
  case Nil
  then show ?case by auto
next
  case (Cons ch chs)
  obtain x w1 where x: "cleanup_channel p (clock (cc_name ch)) ch w = (x, w1)" by (rule prod.exhaust)
  obtain y w2 where y: "cleanup_channels p clock chs w1 = (y, w2)" by (rule prod.exhaust)
  from cleanup_channel_cases [OF x Cons.prems(2,3)] Cons.prems(4)
  obtain cs1 where "reap_config p w1 = Some cs1" "config_ok cs1"
    by (auto split: if_splits dest: config_ok_removal)
  with Cons.IH [OF y Cons.prems(2)] Cons.prems(1) x y show ?case by auto
qed

lemma reap_keeps_ok:
  assumes "codec_ok (ep_codec (hd_base d))"
  shows "keeps_ok d w (w\<lparr>hw_reap := cleanup_once (hd_base d) clock (hw_reap w)\<rparr>)"
  unfolding keeps_ok_def
proof (intro allI impI)
  fix cs assume cs: "tools_config d w = Some cs" "config_ok cs"
  let ?p = "hd_base d"
  obtain r cfg where r: "cfg_read_channels (ep_codec ?p) (ep_env ?p) (ep_user ?p) (ew_config (hw_reap w)) = (r, cfg)"
    by (rule prod.exhaust)
  have same: "cf_content cfg = cf_content (ew_config (hw_reap w))"
    using r by (auto simp: cfg_read_channels_def split: prod.splits sum.splits option.splits dest: read_nodes_content)
  have view: "reap_config ?p ((hw_reap w)\<lparr>ew_config := cfg\<rparr>) = Some cs"
    using cs(1) by (simp add: tools_config_def reap_config_def config_channels_content [OF same])
  show "\<exists>cs'. tools_config d (w\<lparr>hw_reap := cleanup_once ?p clock (hw_reap w)\<rparr>) = Some cs' \<and> config_ok cs'"
  proof (cases r)
    case (Inl e)
    with r view cs(2) show ?thesis by (simp add: cleanup_once_def tools_config_def)
  next
    case (Inr chs)
    obtain b w1 where run: "cleanup_channels ?p clock chs ((hw_reap w)\<lparr>ew_config := cfg\<rparr>) = (b, w1)" by (rule prod.exhaust)
    from cleanup_channels_ok [OF run assms view cs(2)] r Inr run show ?thesis
      by (auto simp: cleanup_once_def tools_config_def reap_config_def)
  qed
qed

lemma run_tool_call_ok: "codec_ok (ep_codec (hd_base d)) \<Longrightarrow> keeps_ok d w (run_tool_call (d, c) w)"
  by (cases c) (simp_all add: run_tool_call_def create_keeps_ok edit_keeps_ok delete_keeps_ok read_keeps_ok reap_keeps_ok)

text \<open>
  C10. The user's channels stay well formed under any use of the tools. Whatever sequence of
  creations, edits, deletions and reads the agents ask for, with whatever arguments and from
  whatever active channel, mixed with passes of the reaper, and whichever of them fail: no two
  channels of the config have one name, none has both tool groups and allowed tools, and no link is
  empty, doubled or to its own channel.
\<close>

theorem config_stays_ok:
  assumes "codec_ok (ep_codec p)" and "\<forall>(d, c) \<in> set calls. hd_base d = p"
    and "reap_config p (hw_reap w) = Some cs" and "config_ok cs"
  shows "\<exists>cs'. reap_config p (hw_reap (fold run_tool_call calls w)) = Some cs' \<and> config_ok cs'"
  using assms(2-4)
proof (induction calls arbitrary: w cs)
  case (Cons dc calls)
  obtain d c where dc: "dc = (d, c)" by (rule prod.exhaust)
  with Cons.prems(1) have d: "hd_base d = p" by simp
  from run_tool_call_ok [of d w c] assms(1) Cons.prems(2,3) d obtain cs1 where
    "reap_config p (hw_reap (run_tool_call dc w)) = Some cs1" "config_ok cs1"
    by (auto simp: keeps_ok_def tools_config_def dc)
  with Cons.IH [of "run_tool_call dc w"] Cons.prems(1) show ?case by simp
qed simp

subsection \<open>Whom a message reaches\<close>

text \<open>
  C14. A channel speaks only for itself and only to its declared targets. Whatever the agent passes
  to \<open>channel_send\<close>, either nothing is handed out, or exactly one message is, on exactly one of the
  two ways: to a live channel with the name asked for, which the active channel, given as the
  source, declares as a link, and with at most 8000 characters of text, as asked for; on the queued
  way the source recorded is the active channel.
\<close>

theorem send_reaches_declared_targets:
  assumes "channel_send d args w = (r, w')"
  shows "w' = w \<and> r \<noteq> None \<or>
         (\<exists>p m i c. args = Some p \<and> sp_from p = sd_active d \<and> sd_channels d = Some m \<and>
            (i, c) \<in> set m \<and> ch_name c = sp_to p \<and> length (sp_message p) \<le> max_send_message_length \<and>
            (\<exists>ls l. sd_links d (sd_active d) = Some ls \<and> l \<in> set ls \<and> cl_target l = sp_to p) \<and>
            (if sp_no_reply p
             then w' = w\<lparr>sw_delivered := sw_delivered w @ [(ch_id c, no_reply_prefix (sd_active d) @ sp_message p)]\<rparr>
             else r = None \<and>
               w' = w\<lparr>sw_output := sw_output w @
                 [\<lparr>tm_channel = ch_id c, tm_text = sp_message p,
                   tm_source = Some ((no_source SourceChannel)\<lparr>si_from_channel := sd_active d\<rparr>)\<rparr>]\<rparr>))"
proof (cases args)
  case None
  with assms show ?thesis by (auto simp: channel_send_def)
next
  case (Some p)
  show ?thesis
  proof (cases "first_error (send_checks d p)")
    case (Some e)
    with assms \<open>args = Some p\<close> show ?thesis by (auto simp: channel_send_def simp del: first_error_None)
  next
    case None
    then have ok: "sp_from p = sd_active d" "length (sp_message p) \<le> max_send_message_length"
        "\<exists>ls l. sd_links d (sd_active d) = Some ls \<and> l \<in> set ls \<and> cl_target l = sp_to p"
        "\<exists>m. sd_channels d = Some m"
      by (auto simp: send_checks_def split: option.splits)
    then obtain m where m: "sd_channels d = Some m" by blast
    show ?thesis
    proof (cases "chan_by_name m (sp_to p)")
      case n: None
      with assms Some None m show ?thesis by (auto simp: channel_send_def simp del: first_error_None)
    next
      case c: (Some ic)
      obtain i c where ic: "ic = (i, c)" by (rule prod.exhaust)
      note at = chan_by_name_Some [OF c [unfolded ic]]
      from assms Some None m c ic ok(1) have
        "if sp_no_reply p
         then w' = w\<lparr>sw_delivered := sw_delivered w @ [(ch_id c, no_reply_prefix (sd_active d) @ sp_message p)]\<rparr>
         else (if sd_taken d
               then r = None \<and>
                 w' = w\<lparr>sw_output := sw_output w @
                   [\<lparr>tm_channel = ch_id c, tm_text = sp_message p,
                     tm_source = Some ((no_source SourceChannel)\<lparr>si_from_channel := sd_active d\<rparr>)\<rparr>]\<rparr>
               else w' = w \<and> r \<noteq> None)"
        by (auto simp: channel_send_def Let_def simp del: first_error_None split: if_splits)
      with Some m ok at show ?thesis by (cases "sp_no_reply p"; cases "sd_taken d") fastforce+
    qed
  qed
qed

subsection \<open>A concrete house of channels\<close>

definition tools_entry :: "string \<Rightarrow> string list \<Rightarrow> registry_entry" where
  "tools_entry name gs = (created_registry_entry (sample_channel name []))\<lparr>re_creatable_groups := gs\<rparr>"

definition tools_deps :: "bool \<Rightarrow> channel_deps" where
  "tools_deps provisions =
     \<lparr>hd_base = reaper_params,
      hd_reconcile = \<lparr>rp_provisioners =
          (\<lambda>t. Some (if provisions then auto_bot else auto_bot\<lparr>pr_provision := (\<lambda>n. Inl ''flood'')\<rparr>)),
        rp_skip_provision = False\<rparr>,
      hd_groups = static_groups, hd_active = Some ''main'', hd_memory_dir = ''/m'', hd_remote_mcps = True,
      hd_show_duration = (\<lambda>d. ''24h''), hd_now_text = ''now''\<rparr>"

definition tools_world :: "string list \<Rightarrow> unit channel_world" where
  "tools_world creatable =
     \<lparr>hw_reap = reap_start, hw_registry = load_registry [tools_entry ''tmp'' [], tools_entry ''main'' creatable],
      hw_notified = []\<rparr>"

definition ask_channel :: "string list \<Rightarrow> tool list \<Rightarrow> channel_create_args" where
  "ask_channel groups tools =
     \<lparr>ca_name = ''new'', ca_description = ''a phone'', ca_purpose = [], ca_model = [], ca_max_turns = 0,
      ca_settings = no_turn_settings, ca_type = ''telegram'', ca_ephemeral = True, ca_idle_hours = 0,
      ca_session_timeout = [], ca_tool_groups = groups, ca_allowed = tools, ca_disallowed = [],
      ca_creatable = groups, ca_links = [\<lparr>cl_target = ''main'', cl_description = ''back''\<rparr>],
      ca_initial_message = ''go'', ca_parent = ''main''\<rparr>"

lemma tools_world_config:
  "tools_config (tools_deps b) (tools_world cs) = Some [idle_channel ''tmp'', (idle_channel ''main'')\<lparr>cc_ephemeral := False\<rparr>]"
  using reap_start_config by (simp add: tools_config_def tools_deps_def tools_world_def)

definition is_ok :: "'e + 'a \<Rightarrow> bool" where
  "is_ok r = (case r of Inl _ \<Rightarrow> False | Inr _ \<Rightarrow> True)"

lemma is_okD: "is_ok r \<Longrightarrow> \<exists>x. r = Inr x"
  by (cases r) (auto simp: is_ok_def)

definition created_new :: "(channel_error + create_reply) \<times> unit channel_world" where
  "created_new =
     channel_create (tools_deps True) (Some (ask_channel [''core_tools''] [])) (tools_world [''core_tools''])"

lemma created_new_run: "\<exists>x. created_new = (Inr x, snd created_new)"
proof -
  have "is_ok (fst created_new)" by code_simp
  then show ?thesis using is_okD [of "fst created_new"] by (metis prod.collapse)
qed

lemma tools_deps_codec: "codec_ok (ep_codec (hd_base (tools_deps True)))"
  by (simp add: tools_deps_def reaper_params_def sample_codec_ok)

theorem channel_created_as_asked_witness:
  "\<exists>c. tools_config (tools_deps True) (snd created_new) =
       Some [idle_channel ''tmp'', (idle_channel ''main'')\<lparr>cc_ephemeral := False\<rparr>, c] \<and>
     cc_name c = ''new'' \<and> cc_tool_groups c = [''core_tools''] \<and> name_exists (hw_registry (snd created_new)) ''new''"
proof -
  obtain x where x: "created_new = (Inr x, snd created_new)" using created_new_run ..
  from channel_created_as_asked [OF x [unfolded created_new_def] tools_deps_codec]
    tools_world_config [of True "[''core_tools'']"]
  show ?thesis by (auto simp: ask_channel_def created_new_def)
qed

theorem created_channel_is_delegated_witness:
  "valid_group static_groups ''core_tools'' \<and>
   cc_tool_groups (create_entry (tools_deps True) (ask_channel [''core_tools''] [])) = [''core_tools'']"
proof -
  let ?c = "create_entry (tools_deps True) (ask_channel [''core_tools''] [])"
  have run: "is_ok (fst created_new) \<and>
      tools_config (tools_deps True) (snd created_new) =
        Some [idle_channel ''tmp'', (idle_channel ''main'')\<lparr>cc_ephemeral := False\<rparr>, ?c]"
    by code_simp
  obtain x where x: "created_new = (Inr x, snd created_new)" using created_new_run ..
  have new: "?c \<notin> set [idle_channel ''tmp'', (idle_channel ''main'')\<lparr>cc_ephemeral := False\<rparr>]"
    by (simp add: create_entry_def ask_channel_def idle_channel_def sample_channel_def)
  have groups: "cc_tool_groups ?c = [''core_tools'']" by (simp add: create_entry_def ask_channel_def)
  from created_channel_is_delegated [OF x [unfolded created_new_def] tools_deps_codec
      tools_world_config [of True "[''core_tools'']"] run [THEN conjunct2, unfolded created_new_def] _ new]
    groups
  show ?thesis by (auto simp: tools_deps_def)
qed

text \<open>
  The guard looks at the tool groups only: a channel that may create no other hands a new one any
  allowed tools it likes, and with none the creator's own right to everything to delegate.
\<close>

lemma creation_without_rights:
  "fst (channel_create (tools_deps True) (Some (ask_channel [''core_tools''] [])) (tools_world [])) = Inl NotAuthorized"
  "is_ok (fst (channel_create (tools_deps True) (Some ((ask_channel [] [''Bash''])\<lparr>ca_creatable := [''all_tools'']\<rparr>))
     (tools_world [])))"
  by code_simp+

text \<open>After a failed provisioning the name is taken, and the retry is refused.\<close>

lemma retry_after_failed_provisioning:
  "(case channel_create (tools_deps False) (Some (ask_channel [''core_tools''] [])) (tools_world [''core_tools'']) of
      (r, w) \<Rightarrow> r = Inl (ProvisioningFailed (ProvisionFailed ''flood'')) \<and>
        fst (channel_create (tools_deps True) (Some (ask_channel [''core_tools''] [])) w) = Inl (ChannelTaken ''new''))"
  by code_simp

definition no_edit :: "string \<Rightarrow> channel_edit_args" where
  "no_edit name =
     \<lparr>ea_name = name, ea_description = [], ea_purpose = None, ea_model = None, ea_max_turns = None,
      ea_effort = None, ea_max_budget = None, ea_fallback = None, ea_allowed_users = None,
      ea_tool_groups = None, ea_allowed = None, ea_disallowed = None, ea_creatable = None, ea_links = None,
      ea_parent = None, ea_session_timeout = None\<rparr>"

text \<open>
  A list of allowed users is accepted as a change and changes nothing, and tool groups asked for
  together with an empty list of allowed tools are accepted and dropped.
\<close>

lemma allowed_users_change_nothing:
  "edit_channel ((no_edit name)\<lparr>ea_allowed_users := Some us\<rparr>) ch = ch"
  "fst (channel_edit (tools_deps True) (Some ((no_edit ''main'')\<lparr>ea_allowed_users := Some [''42'']\<rparr>)) (tools_world [])) = None"
  by (simp add: edit_channel_def edit_tool_lists_def edit_settings_def no_edit_def or_default_def) code_simp

lemma groups_with_no_tools_are_dropped:
  "cc_tool_groups (edit_channel ((no_edit name)\<lparr>ea_tool_groups := Some [''core_tools''], ea_allowed := Some []\<rparr>) ch) = []"
  "fst (channel_edit (tools_deps True)
     (Some ((no_edit ''main'')\<lparr>ea_tool_groups := Some [''core_tools''], ea_allowed := Some []\<rparr>)) (tools_world [])) = None"
  by (simp add: edit_channel_def edit_tool_lists_def edit_settings_def no_edit_def or_default_def) code_simp

text \<open>No right is asked for when a channel's own tools or delegable groups are edited.\<close>

lemma edit_needs_no_rights:
  "fst (channel_edit (tools_deps True) (Some ((no_edit ''main'')\<lparr>ea_creatable := Some [''all_tools'']\<rparr>)) (tools_world [])) = None"
  by code_simp

theorem channel_deleted_after_its_resources_witness:
  "\<exists>x w'. channel_delete (tools_deps True) (Some ''tmp'') (tools_world []) = (Inr x, w') \<and>
     \<not> name_exists (hw_registry w') ''tmp'' \<and>
     ew_events (hw_reap w') = [Teardown ''telegram'' (rs_teardown torn_state)]"
proof -
  let ?r = "channel_delete (tools_deps True) (Some ''tmp'') (tools_world [])"
  have "is_ok (fst ?r)" by code_simp
  then obtain x where x: "?r = (Inr x, snd ?r)" using is_okD [of "fst ?r"] by (metis prod.collapse)
  have codec: "codec_ok (ep_codec (hd_base (tools_deps True)))"
    by (simp add: tools_deps_def reaper_params_def sample_codec_ok)
  have "safe_path ''/data'' (runtime_key ''tmp'') = Some ''/data/channel_runtime/tmp''" by code_simp
  then have "rs_view (ew_runtime (hw_reap (tools_world []))) ''tmp'' = Inr torn_state"
    by (simp add: rs_view_def rs_decode_def tools_world_def reap_start_def store_view_def doc_holding_def fresh_store_def)
  moreover have "has_teardown_state (rs_teardown torn_state)" by code_simp
  moreover have "registry_by_name (hw_registry (tools_world [])) ''tmp'' = Some (tools_entry ''tmp'' [])" by code_simp
  moreover have "ep_provisioners (hd_base (tools_deps True)) t = Some auto_bot" for t
    by (simp add: tools_deps_def reaper_params_def)
  moreover have "re_type (tools_entry ''tmp'' []) = ''telegram''" "ew_events (hw_reap (tools_world [])) = []" by code_simp+
  ultimately show ?thesis using channel_deleted_after_its_resources [OF x codec] x by fastforce
qed


theorem config_stays_ok_witness:
  "\<exists>cs'. reap_config reaper_params (hw_reap (fold run_tool_call
       [(tools_deps True, CallCreate (Some (ask_channel [''core_tools''] []))),
        (tools_deps True, CallEdit (Some ((no_edit ''main'')\<lparr>ea_allowed := Some [''Bash'']\<rparr>))),
        (tools_deps True, CallDelete (Some ''tmp''))] (tools_world [''core_tools'']))) = Some cs' \<and> config_ok cs'"
proof (rule config_stays_ok)
  show "reap_config reaper_params (hw_reap (tools_world [''core_tools''])) =
      Some [idle_channel ''tmp'', (idle_channel ''main'')\<lparr>cc_ephemeral := False\<rparr>]"
    by (simp add: tools_world_def reap_start_config)
  show "config_ok [idle_channel ''tmp'', (idle_channel ''main'')\<lparr>cc_ephemeral := False\<rparr>]"
    by (simp add: config_ok_def exclusive_lists_def links_ok_def idle_channel_def sample_channel_def)
  show "codec_ok (ep_codec reaper_params)" by (simp add: reaper_params_def sample_codec_ok)
qed (simp add: tools_deps_def)

definition send_setup :: send_deps where
  "send_setup =
     \<lparr>sd_links = (\<lambda>n. if n = ''main'' then Some [\<lparr>cl_target = ''dev'', cl_description = ''x''\<rparr>] else None),
      sd_channels = Some [(''c1'', \<lparr>ch_id = ''c1'', ch_name = ''dev'', ch_type = ''socket'', ch_prompter = False\<rparr>)],
      sd_active = ''main'', sd_send = (\<lambda>i t. None), sd_taken = True\<rparr>"

theorem send_reaches_declared_targets_witness:
  "\<exists>t w'. channel_send send_setup (Some \<lparr>sp_from = ''main'', sp_to = ''dev'', sp_message = ''hi'', sp_no_reply = False\<rparr>)
       \<lparr>sw_output = [], sw_delivered = []\<rparr> = (None, w') \<and> sw_output w' = [t] \<and> tm_text t = ''hi''"
proof -
  let ?a = "\<lparr>sp_from = ''main'', sp_to = ''dev'', sp_message = ''hi'', sp_no_reply = False\<rparr>"
  let ?r = "channel_send send_setup (Some ?a) \<lparr>sw_output = [], sw_delivered = []\<rparr>"
  have ok: "fst ?r = None" by code_simp
  then have r: "?r = (None, snd ?r)" by (simp add: prod_eq_iff)
  from send_reaches_declared_targets [OF r] r show ?thesis by fastforce
qed

end
