(* ===== verification/Utf8.thy ===== *)
theory Utf8
  imports Main
begin

text \<open>
  Well-formed UTF-8 as the standard library's \<open>unicode/utf8\<close> has it: \<open>rune_start\<close> is
  \<open>utf8.RuneStart\<close> and \<open>valid_utf8\<close> is \<open>utf8.ValidString\<close>. A well-formed text stays well-formed
  when it is cut where a character starts, and a character starts in every four bytes of it.
\<close>

text \<open>\<open>utf8.RuneStart\<close>: every byte but a continuation byte.\<close>

definition rune_start :: "char \<Rightarrow> bool" where
  "rune_start c = (let n = of_char c :: nat in n < 128 \<or> 192 \<le> n)"

text \<open>How many continuation bytes a leading byte asks for, and what the first of them may be.\<close>

definition rune_more :: "nat \<Rightarrow> nat option" where
  "rune_more b =
     (if b < 0x80 then Some 0
      else if 0xC2 \<le> b \<and> b \<le> 0xDF then Some 1
      else if 0xE0 \<le> b \<and> b \<le> 0xEF then Some 2
      else if 0xF0 \<le> b \<and> b \<le> 0xF4 then Some 3
      else None)"

definition second_ok :: "nat \<Rightarrow> nat \<Rightarrow> bool" where
  "second_ok b x =
     ((if b = 0xE0 then 0xA0 else if b = 0xF0 then 0x90 else 0x80) \<le> x \<and>
      x \<le> (if b = 0xED then 0x9F else if b = 0xF4 then 0x8F else 0xBF))"

definition cont_char :: "char \<Rightarrow> bool" where
  "cont_char c = (let n = of_char c :: nat in 0x80 \<le> n \<and> n \<le> 0xBF)"

fun valid_utf8 :: "string \<Rightarrow> bool" where
  "valid_utf8 [] = True"
| "valid_utf8 (c # s) =
     (case rune_more (of_char c) of
        None \<Rightarrow> False
      | Some k \<Rightarrow>
          k \<le> length s \<and> list_all cont_char (take k s) \<and>
          (0 < k \<longrightarrow> second_ok (of_char c) (of_char (s ! 0))) \<and> valid_utf8 (drop k s))"

lemma cont_char_start: "cont_char c \<longleftrightarrow> \<not> rune_start c"
  by (auto simp: cont_char_def rune_start_def Let_def)

lemma rune_more_start: "rune_more (of_char c) = Some k \<Longrightarrow> rune_start c \<and> k \<le> 3"
  by (auto simp: rune_more_def rune_start_def Let_def split: if_splits)

lemma valid_utf8_Cons:
  assumes "valid_utf8 (c # s)"
  obtains k where "rune_more (of_char c) = Some k" and "k \<le> length s" and "\<forall>i < k. \<not> rune_start (s ! i)"
    and "0 < k \<longrightarrow> second_ok (of_char c) (of_char (s ! 0))" and "valid_utf8 (drop k s)"
  using assms by (auto simp: list_all_length cont_char_start split: option.splits)

lemma valid_utf8_start: "valid_utf8 s \<Longrightarrow> s \<noteq> [] \<Longrightarrow> rune_start (s ! 0)"
  by (cases s) (auto split: option.splits dest: rune_more_start)

lemma valid_utf8_take:
  "valid_utf8 s \<Longrightarrow> n < length s \<Longrightarrow> n = 0 \<or> rune_start (s ! n) \<Longrightarrow> valid_utf8 (take n s)"
proof (induction s arbitrary: n rule: length_induct)
  case (1 s)
  show ?case
  proof (cases n)
    case 0
    then show ?thesis by simp
  next
    case (Suc m)
    with "1.prems"(2) obtain c r where s: "s = c # r" by (cases s) auto
    from "1.prems"(1) obtain k where k: "rune_more (of_char c) = Some k" "k \<le> length r" "\<forall>i < k. \<not> rune_start (r ! i)"
        "0 < k \<longrightarrow> second_ok (of_char c) (of_char (r ! 0))" "valid_utf8 (drop k r)"
      unfolding s by (rule valid_utf8_Cons)
    have m: "rune_start (r ! m)" "m < length r" using "1.prems"(2,3) Suc by (auto simp: s)
    with k(3) have le: "k \<le> m" by (meson not_le)
    have "valid_utf8 (take (m - k) (drop k r))"
      using "1.IH" [rule_format, of "drop k r" "m - k"] k(2,5) m le by (auto simp: s)
    moreover have "drop k (take m r) = take (m - k) (drop k r)" by (simp add: drop_take)
    moreover have "list_all cont_char (take k (take m r))"
      using k(2,3) le by (simp add: list_all_length cont_char_start)
    ultimately show ?thesis using k(1,2,4) m(2) le by (simp add: s Suc)
  qed
qed

lemma valid_utf8_start_near:
  "valid_utf8 s \<Longrightarrow> i < length s \<Longrightarrow> \<exists>k \<le> i. i \<le> k + 3 \<and> rune_start (s ! k)"
proof (induction s arbitrary: i rule: length_induct)
  case (1 s)
  from "1.prems"(2) obtain c r where s: "s = c # r" by (cases s) auto
  from "1.prems"(1) obtain k where k: "rune_more (of_char c) = Some k" "k \<le> length r" "valid_utf8 (drop k r)"
    unfolding s by (rule valid_utf8_Cons)
  note c = rune_more_start [OF k(1)]
  show ?case
  proof (cases "i \<le> k")
    case True
    with c show ?thesis by (intro exI [of _ 0]) (auto simp: s)
  next
    case False
    have "\<exists>j \<le> i - Suc k. i - Suc k \<le> j + 3 \<and> rune_start (drop k r ! j)"
      using "1.IH" [rule_format, of "drop k r" "i - Suc k"] k(2,3) False "1.prems"(2) by (auto simp: s)
    then obtain j where "j \<le> i - Suc k" "i - Suc k \<le> j + 3" "rune_start (s ! (j + Suc k))"
      using k(2) by (auto simp: s add.commute)
    with False show ?thesis by (intro exI [of _ "j + Suc k"]) auto
  qed
qed

lemma valid_utf8_append: "valid_utf8 s \<Longrightarrow> valid_utf8 t \<Longrightarrow> valid_utf8 (s @ t)"
proof (induction s rule: length_induct)
  case (1 s)
  show ?case
  proof (cases s)
    case Nil
    with 1 show ?thesis by simp
  next
    case (Cons c r)
    from "1.prems"(1) obtain k where k: "rune_more (of_char c) = Some k" "k \<le> length r" "valid_utf8 (drop k r)"
      unfolding Cons by (rule valid_utf8_Cons)
    have "valid_utf8 (drop k r @ t)" using "1.IH" k "1.prems"(2) by (simp add: Cons)
    with k "1.prems"(1) show ?thesis by (auto simp: Cons nth_append)
  qed
qed

text \<open>Replacing one plain byte by another keeps a text well-formed.\<close>

lemma valid_utf8_map:
  assumes "\<And>c. (of_char c :: nat) < 128 \<Longrightarrow> (of_char (f c) :: nat) < 128" and "\<And>c. (of_char c :: nat) \<ge> 128 \<Longrightarrow> f c = c"
  shows "valid_utf8 s \<Longrightarrow> valid_utf8 (map f s)"
proof (induction s rule: length_induct)
  case (1 s)
  show ?case
  proof (cases s)
    case Nil
    then show ?thesis by simp
  next
    case (Cons c r)
    from "1.prems" obtain k where k: "rune_more (of_char c) = Some k" "k \<le> length r" "\<forall>i < k. \<not> rune_start (r ! i)"
        "0 < k \<longrightarrow> second_ok (of_char c) (of_char (r ! 0))" "valid_utf8 (drop k r)"
      unfolding Cons by (rule valid_utf8_Cons)
    have conts: "f (r ! i) = r ! i" if "i < k" for i
      using k(3) that assms(2) by (auto simp: rune_start_def Let_def)
    have more: "rune_more (of_char (f c)) = Some k \<and> (0 < k \<longrightarrow> f c = c)"
    proof (cases "(of_char c :: nat) < 128")
      case True
      with k(1) assms(1) show ?thesis by (simp add: rune_more_def)
    next
      case False
      with k(1) assms(2) show ?thesis by simp
    qed
    have "list_all cont_char (take k (map f r))"
      using k(2,3) conts by (simp add: list_all_length cont_char_start)
    moreover have "valid_utf8 (map f (drop k r))" using "1.IH" k(5) by (simp add: Cons)
    moreover have "0 < k \<Longrightarrow> map f r ! 0 = r ! 0" using conts [of 0] k(2) by (cases r) auto
    ultimately show ?thesis using k(2,4) more by (auto simp: Cons drop_map)
  qed
qed

end
