(* ===== verification/Hooks.thy ===== *)
theory Hooks
  imports Store MemoryLayout Utf8
begin

text \<open>
  The hooks that run on the agent's tool calls and prompts (\<open>internal/hooks\<close>): the gate in front
  of the rulebook pool, the remark on a rulebook nobody loads, the capture of corrections, and the
  queue of feedback rows with its nudge.

  A hook's environment variables are a record; its files a map from paths to bytes, every call
  able to fail. Regular expressions are the standard library's \<open>regexp\<close>: \<open>rx_find\<close> gives the
  place of the first match, \<open>rx_replace\<close> the text with every match replaced. The JSON form of a
  row and the wording of replies are parameters.
\<close>

record hook_env =
  he_memory_dir :: string
  he_channel :: string
  he_config_dir :: string

record feedback_event =
  fe_timestamp :: string
  fe_session :: string
  fe_channel :: string
  fe_kind :: string
  fe_trigger :: string
  fe_detail :: string

record hook_lib =
  hl_eval_links :: "string \<Rightarrow> string option"
  hl_abs :: "string \<Rightarrow> string option"
  hl_encode :: "feedback_event \<Rightarrow> string option"
  hl_decode :: "string \<Rightarrow> feedback_event option"
  hl_now_text :: string
  hl_gate_reason :: "string \<Rightarrow> string \<Rightarrow> string"
  hl_rx_find :: "string \<Rightarrow> string \<Rightarrow> (nat \<times> nat) option"
  hl_rx_replace :: "string \<Rightarrow> string \<Rightarrow> string \<Rightarrow> string"

record hook_world =
  hk_files :: "string \<Rightarrow> string option"
  hk_io :: "io list"

record hook_payload =
  hp_file_path :: string
  hp_notebook_path :: string
  hp_prompt :: string
  hp_session :: string

definition empty_payload :: hook_payload where
  "empty_payload = \<lparr>hp_file_path = [], hp_notebook_path = [], hp_prompt = [], hp_session = []\<rparr>"

definition target_path :: "hook_payload \<Rightarrow> string" where
  "target_path p = (if hp_file_path p \<noteq> [] then hp_file_path p else hp_notebook_path p)"

text \<open>\<open>readPayload\<close>: what does not decode is an empty payload.\<close>

definition read_payload :: "hook_payload option \<Rightarrow> hook_payload" where
  "read_payload p = (case p of None \<Rightarrow> empty_payload | Some x \<Rightarrow> x)"

datatype hook_note = OrphanRulebook string string | FiledForRetro | RetroWaiting nat string

datatype hook_outcome = Pass | Block string | Advise string "hook_note list" bool

subsection \<open>The feedback queue\<close>

definition hk_next_io :: "hook_world \<Rightarrow> io \<times> hook_world" where
  "hk_next_io w = (case hk_io w of [] \<Rightarrow> (Good, w) | x # xs \<Rightarrow> (x, w\<lparr>hk_io := xs\<rparr>))"

definition hk_content :: "hook_world \<Rightarrow> string \<Rightarrow> string" where
  "hk_content w p = (case hk_files w p of None \<Rightarrow> [] | Some s \<Rightarrow> s)"

text \<open>An append the disk cuts short leaves no bytes or some; half stands for some.\<close>

definition append_file :: "string \<Rightarrow> string \<Rightarrow> hook_world \<Rightarrow> hook_world" where
  "append_file p bytes w =
     (case hk_next_io w of
        (outcome, w') \<Rightarrow>
          (case outcome of
             Good \<Rightarrow> w'\<lparr>hk_files := (hk_files w')(p \<mapsto> hk_content w' p @ bytes)\<rparr>
           | Refused \<Rightarrow> w'
           | TornEmpty \<Rightarrow> w'\<lparr>hk_files := (hk_files w')(p \<mapsto> hk_content w' p)\<rparr>
           | TornPart \<Rightarrow> w'\<lparr>hk_files := (hk_files w')(p \<mapsto> hk_content w' p @ take (length bytes div 2) bytes)\<rparr>))"

definition newline :: char where "newline = CHR 0x0A"

definition flatten_text :: "string \<Rightarrow> string" where
  "flatten_text s = map (\<lambda>c. if c \<in> {newline, CHR 0x0D, CHR 0x09} then CHR '' '' else c) s"

definition detail_cap :: nat where "detail_cap = 2000"

fun back_off :: "string \<Rightarrow> nat \<Rightarrow> nat" where
  "back_off s 0 = 0"
| "back_off s (Suc n) = (if rune_start (s ! Suc n) then Suc n else back_off s n)"

definition truncated_mark :: string where
  "truncated_mark = [CHR '' '', CHR 0xE2, CHR 0x80, CHR 0xA6] @ '' (truncated)''"

definition cap_detail :: "string \<Rightarrow> string" where
  "cap_detail d =
     (if length d \<le> detail_cap then d else take (back_off d detail_cap) d @ truncated_mark)"

record feedback_entry =
  fn_session :: string
  fn_kind :: string
  fn_trigger :: string
  fn_detail :: string

definition feedback_row :: "hook_lib \<Rightarrow> hook_env \<Rightarrow> feedback_entry \<Rightarrow> feedback_event" where
  "feedback_row l env e =
     \<lparr>fe_timestamp = hl_now_text l,
      fe_session = (if fn_session e = [] then ''unknown'' else fn_session e),
      fe_channel = he_channel env, fe_kind = fn_kind e, fe_trigger = flatten_text (fn_trigger e),
      fe_detail = flatten_text (cap_detail (fn_detail e))\<rparr>"

definition queue_feedback :: "hook_lib \<Rightarrow> hook_env \<Rightarrow> feedback_entry \<Rightarrow> hook_world \<Rightarrow> hook_world" where
  "queue_feedback l env e w =
     (if he_config_dir env = [] then w
      else (case hl_encode l (feedback_row l env e) of
              None \<Rightarrow> w
            | Some row \<Rightarrow>
                (case hk_next_io w of
                   (made, w1) \<Rightarrow>
                     if made \<noteq> Good then w1
                     else (case hk_next_io w1 of
                             (opened, w2) \<Rightarrow>
                               if opened \<noteq> Good then w2
                               else append_file (inbox_path (he_config_dir env)) (row @ [newline]) w2))))"

definition kind_correction :: string where "kind_correction = ''user_correction''"
definition kind_guard_block :: string where "kind_guard_block = ''guard_block''"

definition actionable :: "hook_lib \<Rightarrow> string \<Rightarrow> bool" where
  "actionable l line =
     (case hl_decode l line of
        None \<Rightarrow> False
      | Some e \<Rightarrow> fe_timestamp e \<noteq> [] \<and> (fe_kind e = kind_correction \<or> fe_kind e = kind_guard_block))"

definition count_text :: "hook_lib \<Rightarrow> string \<Rightarrow> nat" where
  "count_text l text' = length (filter (actionable l) (split_on newline text'))"

definition count_corrections :: "hook_lib \<Rightarrow> string \<Rightarrow> hook_world \<Rightarrow> nat \<times> hook_world" where
  "count_corrections l p w =
     (case hk_next_io w of
        (outcome, w') \<Rightarrow>
          (if outcome \<noteq> Good then 0
           else (case hk_files w' p of None \<Rightarrow> 0 | Some text' \<Rightarrow> count_text l text'), w'))"

definition queued_corrections :: "hook_lib \<Rightarrow> string \<Rightarrow> hook_world \<Rightarrow> nat \<times> hook_world" where
  "queued_corrections l cdir w =
     (case count_corrections l (inbox_path cdir) w of
        (a, w1) \<Rightarrow> (case count_corrections l (processing_path cdir) w1 of (b, w2) \<Rightarrow> (a + b, w2)))"

subsection \<open>The nudge\<close>

definition digit_char :: "nat \<Rightarrow> char" where "digit_char n = char_of (48 + n)"

fun itoa :: "nat \<Rightarrow> string" where
  "itoa n = (if n < 10 then [digit_char n] else itoa (n div 10) @ [digit_char (n mod 10)])"

declare itoa.simps [simp del]

definition digit_val :: "char \<Rightarrow> nat option" where
  "digit_val c = (let n = of_char c :: nat in if 48 \<le> n \<and> n \<le> 57 then Some (n - 48) else None)"

fun digits_val :: "nat \<Rightarrow> string \<Rightarrow> nat option" where
  "digits_val acc [] = Some acc"
| "digits_val acc (c # s) = (case digit_val c of None \<Rightarrow> None | Some d \<Rightarrow> digits_val (10 * acc + d) s)"

text \<open>\<open>strconv.Atoi\<close> on 64-bit integers.\<close>

definition atoi :: "string \<Rightarrow> int option" where
  "atoi s =
     (let (neg, ds) = (case s of [] \<Rightarrow> (False, []) | c # r \<Rightarrow>
            if c = CHR ''-'' then (True, r) else if c = CHR ''+'' then (False, r) else (False, s))
      in if ds = [] then None
         else (case digits_val 0 ds of
                 None \<Rightarrow> None
               | Some n \<Rightarrow>
                   (let i = (if neg then - int n else int n)
                    in if min_duration \<le> i \<and> i \<le> max_duration then Some i else None)))"

definition last_nudged_at :: "string \<Rightarrow> hook_world \<Rightarrow> int \<times> hook_world" where
  "last_nudged_at marker w =
     (case hk_next_io w of
        (outcome, w') \<Rightarrow>
          (if outcome \<noteq> Good then 0
           else (case hk_files w' marker of
                   None \<Rightarrow> 0 | Some s \<Rightarrow> (case atoi (trim_space s) of None \<Rightarrow> 0 | Some n \<Rightarrow> n)), w'))"

text \<open>\<open>os.WriteFile\<close>, whose failure is logged; it truncates first.\<close>

definition write_marker :: "string \<Rightarrow> nat \<Rightarrow> hook_world \<Rightarrow> hook_world" where
  "write_marker marker n w =
     (case hk_next_io w of
        (outcome, w') \<Rightarrow>
          (case outcome of
             Good \<Rightarrow> w'\<lparr>hk_files := (hk_files w')(marker \<mapsto> itoa n)\<rparr>
           | Refused \<Rightarrow> w'
           | TornEmpty \<Rightarrow> w'\<lparr>hk_files := (hk_files w')(marker \<mapsto> [])\<rparr>
           | TornPart \<Rightarrow> w'\<lparr>hk_files := (hk_files w')(marker \<mapsto> take (length (itoa n) div 2) (itoa n))\<rparr>))"

definition nudge_marker :: "string \<Rightarrow> string" where
  "nudge_marker cdir = join_path (feedback_dir cdir) ''.retro-nudged-at''"

definition retro_threshold :: nat where "retro_threshold = 3"
definition retro_nudge_step :: nat where "retro_nudge_step = 3"

definition retro_nudge :: "hook_lib \<Rightarrow> string \<Rightarrow> hook_world \<Rightarrow> hook_note option \<times> hook_world" where
  "retro_nudge l cdir w =
     (case queued_corrections l cdir w of
        (waiting, w1) \<Rightarrow>
          (case last_nudged_at (nudge_marker cdir) w1 of
             (at, w2) \<Rightarrow>
               (let at' = (if int waiting < at then 0 else at);
                    w3 = (if int waiting < at then write_marker (nudge_marker cdir) 0 w2 else w2)
                in if waiting < retro_threshold \<or> int waiting < at' + int retro_nudge_step then (None, w3)
                   else (Some (RetroWaiting waiting (feedback_dir cdir)), write_marker (nudge_marker cdir) waiting w3))))"

subsection \<open>The gate and the remark\<close>

definition block_call ::
  "hook_lib \<Rightarrow> hook_env \<Rightarrow> string \<Rightarrow> string \<Rightarrow> string \<Rightarrow> hook_world \<Rightarrow> hook_outcome \<times> hook_world" where
  "block_call l env guard session reason w =
     (Block reason,
      queue_feedback l env \<lparr>fn_session = session, fn_kind = kind_guard_block, fn_trigger = guard, fn_detail = reason\<rparr> w)"

definition rules_gate ::
  "hook_lib \<Rightarrow> hook_env \<Rightarrow> hook_payload option \<Rightarrow> hook_world \<Rightarrow> hook_outcome \<times> hook_world" where
  "rules_gate l env stdin w =
     (if he_memory_dir env = [] then (Pass, w)
      else (let p = read_payload stdin; target = target_path p
            in if \<not> in_rules (hl_eval_links l) (hl_abs l) (he_memory_dir env) target then (Pass, w)
               else block_call l env ''rules-gate'' (hp_session p)
                      (hl_gate_reason l (base_path target) (rules_dir (he_memory_dir env))) w))"

text \<open>
  \<open>indexes\<close> is what \<open>Glob\<close> finds, each file's text or \<open>None\<close> if it cannot be read; \<open>None\<close> for a
  pattern that is refused.
\<close>

definition referenced_by_any_channel :: "string option list option \<Rightarrow> string \<Rightarrow> bool" where
  "referenced_by_any_channel indexes name =
     (case indexes of
        None \<Rightarrow> True
      | Some is \<Rightarrow> list_ex (\<lambda>i. case i of None \<Rightarrow> False | Some text' \<Rightarrow> str_contains text' name) is)"

definition rules_index ::
  "hook_lib \<Rightarrow> hook_env \<Rightarrow> string option list option \<Rightarrow> hook_payload option \<Rightarrow> hook_outcome" where
  "rules_index l env indexes stdin =
     (if he_memory_dir env = [] then Pass
      else (let target = target_path (read_payload stdin); name = base_path target
            in if \<not> in_rules (hl_eval_links l) (hl_abs l) (he_memory_dir env) target then Pass
               else if name = ''README.md'' then Pass
               else if referenced_by_any_channel indexes name then Pass
               else Advise ''PostToolUse''
                      [OrphanRulebook name (if he_channel env = [] then ''this channel'' else he_channel env)] True))"

subsection \<open>Capturing corrections\<close>

text \<open>The patterns, case folding and all, as the code writes them; \<open>bsl\<close> is a backslash.\<close>

definition bsl :: char where "bsl = CHR 0x5C"
definition tick :: char where "tick = CHR 0x60"
definition quot :: char where "quot = CHR 0x27"

definition hard_correction_patterns :: "string list" where
  "hard_correction_patterns =
     [''(?i)(^|[^a-z])ffs([^a-z]|$)'', ''(?i)(^|[^a-z])wtf([^a-z]|$)'', ''(?i)(^|[^a-z])fuck'',
      ''(?i)for (?:god'' @ [quot] @ ''?s|christ'' @ [quot] @ ''?s|pete'' @ [quot] @ ''?s) sake'',
      ''(?i)(?:utter|absolute|complete|total)(?:ly)? (?:shit|garbage|rubbish|crap|nonsense)'',
      ''(?i)(?:is|it'' @ [quot] @ ''?s|its|that'' @ [quot] @ ''?s|thats|this is) '' @
        ''(?:shit|garbage|rubbish|crap|awful|terrible|appalling|unacceptable)(?:[^a-z]|$)'',
      ''(?i)what (?:kind|sort) of .{0,40}(?:are|is) you(?:[^a-z]|$)'',
      ''(?i)you(?:'' @ [quot] @ ''?ve| have|'' @ [quot] @ ''?re| are)? ?violat(?:ed|es|ing)'']"

definition complaint_patterns :: "string list" where
  "complaint_patterns =
     [''(?i)you keep|how many times|i told you|i said|again[!?]'',
      ''(?i)stop (doing|adding|using|writing|making|putting)'',
      ''(?i)why (did|did ?n'' @ [quot] @ ''?t|would|would ?n'' @ [quot] @ ''?t|are|are ?n'' @ [quot] @
        ''?t|have ?n'' @ [quot] @ ''?t) you'',
      ''(?i)that'' @ [quot] @ ''?s not |thats not |that is not '',
      ''(?i)wrong|incorrect'',
      ''(?i)should ?n'' @ [quot] @ ''?t have|should not have'',
      ''(?i)jargon|claudy|verbose'',
      ''(?i)opaque|unreadable|makes? (?:no|any) sense|means nothing'',
      ''(?i)(?:comments?|code|wording|docs?|tickets?|explanations?|this|that|these|it)'' @
        ''(?: is| are|'' @ [quot] @ ''?s)(?: so| really| very)? (?:hard|difficult|impossible) to (?:read|follow|understand)'',
      ''(?i)(?:this|that|it)(?:'' @ [quot] @ ''?s| is| was) (?:so |really |very )?(?:frustrating|annoying|painful|confusing)'',
      ''(?i)(?:that'' @ [quot] @ ''?s|thats|this is|it'' @ [quot] @ ''?s|its) a violation|in violation of'',
      ''(?i)^(no|nope|nah)[,. !]'',
      ''(?i)you (missed|forgot|broke|ignored)'',
      ''(?i)not what i (asked|wanted|said)'',
      ''(?i)'' @ [bsl] @ ''b(?:i )?(?:never|did ?n'' @ [quot] @ ''?t) (?:ask|want|say|said)'',
      ''(?i)nobody asked|who asked (?:you|for)'']"

definition constraint_patterns :: "string list" where
  "constraint_patterns =
     [''(?i)do not |don'' @ [quot] @ ''?t (do|add|use|write|make|put|create|say|forget|stop)'',
      ''(?i)revert|undo that'',
      ''(?i)(?:have ?n'' @ [quot] @ ''?t|did ?n'' @ [quot] @ ''?t|before you) finish'']"

definition injected_prompt_patterns :: "string list" where
  "injected_prompt_patterns =
     [''(?i)^your (claude'' @ [bsl] @ ''.ai|claude code) usage limit has reset'',
      ''(?i)^[<'' @ [bsl] @ ''[(]?system.?reminder'',
      ''(?i)^this session is being continued from a previous'',
      ''(?i)^caveat: the messages below were generated'',
      ''(?i)^<task-notification>'']"

definition injected_preamble_patterns :: "string list" where
  "injected_preamble_patterns =
     (let tail = [bsl] @ ''..*?'' @ [bsl] @ '']'' @ [bsl] @ ''s*''
      in [''(?is)^'' @ [bsl] @ ''[SYSTEM: Session resumed after restart'' @ tail,
          ''(?is)^'' @ [bsl] @ ''[SYSTEM: You were interrupted mid-turn by a restart'' @ tail,
          ''(?is)^'' @ [bsl] @ ''[SYSTEM: The previous task on this channel was stopped by the user'' @ tail])"

fun strip_preamble_go :: "hook_lib \<Rightarrow> string list \<Rightarrow> string \<Rightarrow> string" where
  "strip_preamble_go l [] prompt = prompt"
| "strip_preamble_go l (p # ps) prompt =
     (case hl_rx_find l p prompt of
        Some (a, b) \<Rightarrow> if a = 0 then drop b prompt else strip_preamble_go l ps prompt
      | None \<Rightarrow> strip_preamble_go l ps prompt)"

definition strip_injected_preamble :: "hook_lib \<Rightarrow> string \<Rightarrow> string" where
  "strip_injected_preamble l prompt = strip_preamble_go l injected_preamble_patterns prompt"

definition brief_openers :: "string list" where
  "brief_openers =
     [''add '', ''build '', ''can you '', ''carry on'', ''continue '', ''could you '', ''do the following'', ''fix '',
      ''go ahead'', ''have a look'', ''here'' @ [quot] @ ''s the plan'', ''heres the plan'', ''implement '', ''look at '',
      ''make '', ''next:'', ''pick up '', ''please '', ''read '', ''review '', ''start '', ''take a look'', ''trace '',
      ''work through'', ''write '']"

definition soft_match_window :: nat where "soft_match_window = 300"
definition brief_length_cutoff :: nat where "brief_length_cutoff = 800"
definition prompt_length_cutoff :: nat where "prompt_length_cutoff = 2000"

definition explicit_log_pattern :: string where
  "explicit_log_pattern = ''(?i)(^|'' @ [bsl] @ ''s)!log'' @ [bsl] @ ''b''"

definition fenced_block_pattern :: string where
  "fenced_block_pattern = ''(?s)'' @ [tick, tick, tick] @ ''.*?'' @ [tick, tick, tick]"

definition backtick_span_pattern :: string where
  "backtick_span_pattern = [tick] @ ''[^'' @ [tick] @ '']*'' @ [tick]"

text \<open>The first pattern the prompt matches, and the first that matches near its start.\<close>

definition first_match :: "hook_lib \<Rightarrow> string list \<Rightarrow> string \<Rightarrow> string" where
  "first_match l ps prompt =
     (case find (\<lambda>p. hl_rx_find l p prompt \<noteq> None) ps of None \<Rightarrow> [] | Some p \<Rightarrow> p)"

definition first_match_near :: "hook_lib \<Rightarrow> string list \<Rightarrow> string \<Rightarrow> string" where
  "first_match_near l ps prompt =
     (case find (\<lambda>p. case hl_rx_find l p prompt of None \<Rightarrow> False | Some (a, b) \<Rightarrow> a < soft_match_window) ps of
        None \<Rightarrow> [] | Some p \<Rightarrow> p)"

definition looks_like_task_brief :: "string \<Rightarrow> bool" where
  "looks_like_task_brief prompt =
     (let trimmed = trim_space prompt
      in if brief_length_cutoff < length trimmed then True
         else list_ex (has_prefix (to_lower trimmed)) brief_openers)"

definition correction_trigger :: "hook_lib \<Rightarrow> string \<Rightarrow> string" where
  "correction_trigger l prompt =
     (if prompt_length_cutoff < length prompt then []
      else (let hard = first_match l hard_correction_patterns prompt
            in if hard \<noteq> [] then hard
               else (let complaint = first_match_near l complaint_patterns prompt
                     in if complaint \<noteq> [] then complaint
                        else if looks_like_task_brief prompt then []
                        else first_match_near l constraint_patterns prompt)))"

definition explicit_log_marker :: "hook_lib \<Rightarrow> string \<Rightarrow> bool" where
  "explicit_log_marker l prompt =
     (hl_rx_find l explicit_log_pattern
        (hl_rx_replace l backtick_span_pattern (hl_rx_replace l fenced_block_pattern prompt '' '') '' '') \<noteq> None)"

definition injected_prompt :: "hook_lib \<Rightarrow> string \<Rightarrow> bool" where
  "injected_prompt l prompt = list_ex (\<lambda>p. hl_rx_find l p (trim_space prompt) \<noteq> None) injected_prompt_patterns"

definition lesson_capture ::
  "hook_lib \<Rightarrow> hook_env \<Rightarrow> hook_payload option \<Rightarrow> hook_world \<Rightarrow> hook_outcome \<times> hook_world" where
  "lesson_capture l env stdin w =
     (let p = read_payload stdin; prompt = strip_injected_preamble l (hp_prompt p)
      in if prompt = [] \<or> injected_prompt l prompt then (Pass, w)
         else
           (let logged = explicit_log_marker l prompt;
                trigger = (if logged then ''!log'' else correction_trigger l prompt);
                w1 = (if trigger = [] then w
                      else queue_feedback l env
                             \<lparr>fn_session = hp_session p, fn_kind = kind_correction, fn_trigger = trigger,
                              fn_detail = prompt\<rparr> w);
                notes = (if logged then [FiledForRetro] else []);
                (nudge, w2) = (if he_config_dir env = [] then (None, w1) else retro_nudge l (he_config_dir env) w1);
                notes' = notes @ (case nudge of None \<Rightarrow> [] | Some n \<Rightarrow> [n])
            in (if notes' = [] then Pass else Advise ''UserPromptSubmit'' notes' False, w2)))"

subsection \<open>Dispatch and registration\<close>

definition run_hook ::
  "hook_lib \<Rightarrow> hook_env \<Rightarrow> string option list option \<Rightarrow> string list \<Rightarrow> hook_payload option \<Rightarrow> hook_world \<Rightarrow>
     hook_outcome \<times> hook_world" where
  "run_hook l env indexes args stdin w =
     (if length args < 2 then (Pass, w)
      else if args ! 1 = ''rules-gate'' then rules_gate l env stdin w
      else if args ! 1 = ''rules-index'' then (rules_index l env indexes stdin, w)
      else if args ! 1 = ''lesson-capture'' then lesson_capture l env stdin w
      else (Pass, w))"

record hook_spec =
  ks_name :: string
  ks_event :: string
  ks_matcher :: string

definition write_tools :: string where "write_tools = ''Write|Edit|MultiEdit|NotebookEdit''"

definition hook_manifest :: "hook_spec list" where
  "hook_manifest =
     [\<lparr>ks_name = ''rules-gate'', ks_event = ''PreToolUse'', ks_matcher = write_tools\<rparr>,
      \<lparr>ks_name = ''rules-index'', ks_event = ''PostToolUse'', ks_matcher = write_tools\<rparr>,
      \<lparr>ks_name = ''lesson-capture'', ks_event = ''UserPromptSubmit'', ks_matcher = []\<rparr>]"

text \<open>The groups of an event, each a matcher with its command; \<open>q\<close> quotes the path (\<open>%q\<close>).\<close>

definition settings_block :: "(string \<Rightarrow> string) \<Rightarrow> string \<Rightarrow> (string \<Rightarrow> (string \<times> string) list) option" where
  "settings_block q binary =
     (if binary = [] then None
      else Some (\<lambda>event. map (\<lambda>h. (ks_matcher h, q binary @ '' '' @ ks_name h))
                           (filter (\<lambda>h. ks_event h = event) hook_manifest)))"

subsection \<open>The digits of a count\<close>

lemma digit_val_char [simp]: "d < 10 \<Longrightarrow> digit_val (digit_char d) = Some d"
  by (simp add: digit_val_def digit_char_def of_char_of)

lemma digits_val_append:
  "digits_val acc (a @ b) = (case digits_val acc a of None \<Rightarrow> None | Some n \<Rightarrow> digits_val n b)"
  by (induction acc a rule: digits_val.induct) (auto split: option.splits)

lemma digits_val_itoa: "digits_val 0 (itoa n) = Some n"
proof (induction n rule: itoa.induct)
  case (1 n)
  show ?case
  proof (cases "n < 10")
    case True
    then show ?thesis by (simp add: itoa.simps [of n])
  next
    case False
    with 1 show ?thesis by (simp add: itoa.simps [of n] digits_val_append)
  qed
qed

definition digit_text :: "string \<Rightarrow> bool" where
  "digit_text s = (\<forall>c \<in> set s. \<exists>d < 10. c = digit_char d)"

lemma digit_text_itoa: "digit_text (itoa n) \<and> itoa n \<noteq> []"
proof (induction n rule: itoa.induct)
  case (1 n)
  have "n mod 10 < 10" by simp
  with 1 show ?case
    by (cases "n < 10") (auto simp: itoa.simps [of n] digit_text_def intro: exI [of _ "n mod 10"])
qed

lemma of_digit_char: "d < 10 \<Longrightarrow> (of_char (digit_char d) :: nat) = 48 + d"
  by (simp add: digit_char_def of_char_of)

lemma no_digit_chars:
  "c \<in> set (ascii_spaces @ [CHR 0xC2, CHR 0xE1, CHR 0xE2, CHR 0xE3, CHR ''-'', CHR ''+'']) \<Longrightarrow>
     (of_char c :: nat) \<notin> {48..57}"
  by (auto simp: ascii_spaces_def)

lemma digit_char_plain:
  assumes "d < 10"
  shows "space_len (digit_char d # s) = 0 \<and> digit_char d \<noteq> CHR ''-'' \<and> digit_char d \<noteq> CHR ''+''"
proof -
  have "(of_char (digit_char d) :: nat) \<in> {48..57}" using of_digit_char [OF assms] assms by simp
  then have n: "digit_char d \<notin> set (ascii_spaces @ [CHR 0xC2, CHR 0xE1, CHR 0xE2, CHR 0xE3, CHR ''-'', CHR ''+''])"
    using no_digit_chars by blast
  then have "digit_char d \<notin> set ascii_spaces" "digit_char d \<noteq> CHR 0xC2" "digit_char d \<noteq> CHR 0xE1"
      "digit_char d \<noteq> CHR 0xE2" "digit_char d \<noteq> CHR 0xE3" "digit_char d \<noteq> CHR ''-''" "digit_char d \<noteq> CHR ''+''"
    unfolding set_append by simp_all
  then show ?thesis by (simp only: space_len_def list.case if_False simp_thms)
qed

lemma trim_digits: "digit_text s \<Longrightarrow> trim_space s = s"
proof -
  have left: "digit_text s \<Longrightarrow> trim_left_go 0 s = s" for s
    by (cases s) (auto simp: digit_text_def digit_char_plain)
  have "digit_text s \<Longrightarrow> trim_right s = s" for s
  proof (induction s)
    case (Cons c s)
    then have "trim_right s = s" by (simp add: digit_text_def)
    with left [OF Cons.prems] show ?case by simp
  qed simp
  then show "digit_text s \<Longrightarrow> trim_space s = s" by (simp add: trim_space_def left)
qed

lemma atoi_itoa: "int n \<le> max_duration \<Longrightarrow> atoi (trim_space (itoa n)) = Some (int n)"
proof -
  assume n: "int n \<le> max_duration"
  have d: "digit_text (itoa n)" "itoa n \<noteq> []" using digit_text_itoa by auto
  then obtain c r where c: "itoa n = c # r" by (cases "itoa n") auto
  with d(1) obtain k where "k < 10" "c = digit_char k" by (auto simp: digit_text_def)
  then have "c \<noteq> CHR ''-''" "c \<noteq> CHR ''+''" using digit_char_plain by auto
  with c n digits_val_itoa [of n] show ?thesis
    unfolding trim_digits [OF d(1)] by (simp add: atoi_def min_duration_def)
qed

subsection \<open>Rows and the queue\<close>

definition queue_size :: "hook_lib \<Rightarrow> string \<Rightarrow> hook_world \<Rightarrow> nat" where
  "queue_size l cdir w =
     (case hk_files w (inbox_path cdir) of None \<Rightarrow> 0 | Some t \<Rightarrow> count_text l t) +
     (case hk_files w (processing_path cdir) of None \<Rightarrow> 0 | Some t \<Rightarrow> count_text l t)"

text \<open>
  What the library promises of a row's JSON text: it is one line, and each field is read back as it
  was written if it is well-formed UTF-8. (\<open>encoding/json\<close> replaces what is not.)
\<close>

definition read_back :: "feedback_event \<Rightarrow> feedback_event \<Rightarrow> bool" where
  "read_back e d =
     list_all (\<lambda>f. valid_utf8 (f e) \<longrightarrow> f d = f e)
       [fe_timestamp, fe_session, fe_channel, fe_kind, fe_trigger, fe_detail]"

definition row_codec_ok :: "hook_lib \<Rightarrow> bool" where
  "row_codec_ok l =
     (hl_now_text l \<noteq> [] \<and> valid_utf8 (hl_now_text l) \<and> hl_decode l [] = None \<and>
      (\<forall>e. \<exists>row d. hl_encode l e = Some row \<and> newline \<notin> set row \<and> hl_decode l row = Some d \<and> read_back e d))"

definition whole_lines :: "string \<Rightarrow> bool" where
  "whole_lines t = (t = [] \<or> last t = newline)"

lemma hk_io_good [simp]: "hk_io w = [] \<Longrightarrow> hk_next_io w = (Good, w)"
  by (simp add: hk_next_io_def)

lemma count_text_append_row:
  assumes "whole_lines t" and "newline \<notin> set row" and "hl_decode l [] = None"
  shows "count_text l (t @ row @ [newline]) = count_text l t + (if actionable l row then 1 else 0)"
proof -
  have empty: "\<not> actionable l []" using assms(3) by (simp add: actionable_def)
  show ?thesis
  proof (cases "t = []")
    case True
    with empty assms(2) show ?thesis
      using split_on_append [of newline row "[]"] by (simp add: count_text_def split_on_no_sep)
  next
    case False
    with assms(1) obtain b where b: "t = b @ [newline]"
      by (metis append_butlast_last_id whole_lines_def)
    have "split_on newline (t @ row @ [newline]) = split_on newline b @ [row, []]"
      using split_on_append [of newline b "row @ [newline]"] split_on_append [of newline row "[]"] assms(2)
      by (simp add: b split_on_no_sep)
    moreover have "split_on newline t = split_on newline b @ [[]]"
      using split_on_append [of newline b "[]"] by (simp add: b)
    ultimately show ?thesis using empty by (simp add: count_text_def)
  qed
qed

text \<open>A row the disk cut short takes the next one with it: both end up on one line.\<close>

lemma torn_row_swallows_the_next:
  assumes "newline \<notin> set torn" and "newline \<notin> set row" and "hl_decode l [] = None" and "\<not> actionable l (torn @ row)"
  shows "count_text l (torn @ row @ [newline]) = 0"
  using assms split_on_append [of newline "torn @ row" "[]"]
  by (simp add: count_text_def split_on_no_sep actionable_def)

subsection \<open>Details within bounds\<close>

lemma back_off_le: "back_off s n \<le> n"
  by (induction n) (auto intro: le_SucI)

lemma back_off_start: "back_off s n = 0 \<or> rune_start (s ! back_off s n)"
  by (induction n) auto

lemma back_off_near: "k \<le> n \<Longrightarrow> rune_start (s ! k) \<Longrightarrow> k \<le> back_off s n"
  by (induction n) (auto simp: le_Suc_eq)

text \<open>
  A row's detail is never longer than the cap and the mark that says it was cut, is the user's own
  words up to there, and ends at a character: the byte after the cut starts one, and no later byte
  within the cap does.
\<close>

theorem capped_detail:
  "length (cap_detail d) \<le> detail_cap + length truncated_mark \<and>
   (\<exists>n. cap_detail d = d \<or>
      (n \<le> detail_cap \<and> detail_cap < length d \<and> cap_detail d = take n d @ truncated_mark \<and>
       (n = 0 \<or> rune_start (d ! n)) \<and> (\<forall>k \<le> detail_cap. rune_start (d ! k) \<longrightarrow> k \<le> n))) \<and>
   newline \<notin> set (flatten_text (cap_detail d)) \<and> length (flatten_text (cap_detail d)) = length (cap_detail d)"
proof -
  have flat: "newline \<notin> set (flatten_text s)" "length (flatten_text s) = length s" for s
    by (auto simp: flatten_text_def newline_def)
  show ?thesis
  proof (cases "length d \<le> detail_cap")
    case True
    then have "cap_detail d = d" by (simp add: cap_detail_def)
    with True flat show ?thesis by auto
  next
    case False
    then have c: "cap_detail d = take (back_off d detail_cap) d @ truncated_mark" by (simp add: cap_detail_def)
    have len: "length (cap_detail d) \<le> detail_cap + length truncated_mark"
      using back_off_le [of d detail_cap] by (simp add: c)
    have "back_off d detail_cap \<le> detail_cap \<and> detail_cap < length d \<and>
        cap_detail d = take (back_off d detail_cap) d @ truncated_mark \<and>
        (back_off d detail_cap = 0 \<or> rune_start (d ! back_off d detail_cap)) \<and>
        (\<forall>k \<le> detail_cap. rune_start (d ! k) \<longrightarrow> k \<le> back_off d detail_cap)"
      using False c back_off_le back_off_start [of d detail_cap] back_off_near [of _ detail_cap d] by simp
    with len flat show ?thesis by blast
  qed
qed

subsection \<open>What is filed\<close>

lemma flatten_valid: "valid_utf8 s \<Longrightarrow> valid_utf8 (flatten_text s)"
  unfolding flatten_text_def by (rule valid_utf8_map) (auto simp: newline_def)

lemma cap_detail_valid:
  assumes "valid_utf8 d"
  shows "valid_utf8 (cap_detail d)"
proof (cases "length d \<le> detail_cap")
  case True
  with assms show ?thesis by (simp add: cap_detail_def)
next
  case False
  have "valid_utf8 truncated_mark" by code_simp
  with False assms back_off_le [of d detail_cap] back_off_start [of d detail_cap] show ?thesis
    by (auto simp: cap_detail_def intro!: valid_utf8_append valid_utf8_take)
qed

lemma cap_detail_near:
  assumes "valid_utf8 d" and "detail_cap < length d"
  obtains n where "detail_cap - 3 \<le> n" and "n \<le> detail_cap" and "cap_detail d = take n d @ truncated_mark"
proof
  obtain k where k: "k \<le> detail_cap" "detail_cap \<le> k + 3" "rune_start (d ! k)"
    using valid_utf8_start_near [OF assms(1), of detail_cap] assms(2) by auto
  show "detail_cap - 3 \<le> back_off d detail_cap" using back_off_near [OF k(1,3)] k(2) by linarith
  show "back_off d detail_cap \<le> detail_cap" by (rule back_off_le)
  show "cap_detail d = take (back_off d detail_cap) d @ truncated_mark" using assms(2) by (simp add: cap_detail_def)
qed

text \<open>
  C16. A captured event is one more row the retro finds, and the row says what happened. Let the file
  operations of the append succeed and the inbox end in a whole line (the disk has not cut an
  earlier row short). Then one line is appended: the queue grows by exactly one actionable row of
  the event's kind, stamped with the time, and the inbox ends in a whole line again. Each text of
  the event that is well-formed UTF-8 is found in that row with every line break and tab a blank: the
  session and the channel as they were, the trigger in full, and the detail in full up to 2000 bytes; a
  longer one is cut at a character, at most three bytes short of 2000, and marked as truncated.
\<close>

theorem captured_row_is_counted:
  assumes "row_codec_ok l" and "hk_io w = []" and "he_config_dir env \<noteq> []"
    and "whole_lines (hk_content w (inbox_path (he_config_dir env)))"
    and "fn_kind e = kind_correction \<or> fn_kind e = kind_guard_block"
    and "inbox_path (he_config_dir env) \<noteq> processing_path (he_config_dir env)"
    and "queue_feedback l env e w = w'"
  shows "queue_size l (he_config_dir env) w' = Suc (queue_size l (he_config_dir env) w) \<and>
         whole_lines (hk_content w' (inbox_path (he_config_dir env))) \<and>
         (\<exists>row d. newline \<notin> set row \<and> hl_decode l row = Some d \<and>
            hk_content w' (inbox_path (he_config_dir env)) =
              hk_content w (inbox_path (he_config_dir env)) @ row @ [newline] \<and>
            fe_timestamp d = hl_now_text l \<and> fe_kind d = fn_kind e \<and>
            (fn_session e \<noteq> [] \<longrightarrow> valid_utf8 (fn_session e) \<longrightarrow> fe_session d = fn_session e) \<and>
            (valid_utf8 (he_channel env) \<longrightarrow> fe_channel d = he_channel env) \<and>
            (valid_utf8 (fn_trigger e) \<longrightarrow>
               fe_trigger d = map (\<lambda>c. if c \<in> {CHR 0x0A, CHR 0x0D, CHR 0x09} then CHR '' '' else c) (fn_trigger e)) \<and>
            (valid_utf8 (fn_detail e) \<longrightarrow>
               (\<exists>n mark. fe_detail d =
                  map (\<lambda>c. if c \<in> {CHR 0x0A, CHR 0x0D, CHR 0x09} then CHR '' '' else c) (take n (fn_detail e)) @ mark \<and>
                  (if length (fn_detail e) \<le> 2000 then n = length (fn_detail e) \<and> mark = []
                   else 1997 \<le> n \<and> n \<le> 2000 \<and> mark = truncated_mark))))"
proof -
  let ?p = "inbox_path (he_config_dir env)" and ?r = "feedback_row l env e"
  let ?blank = "\<lambda>c. if c \<in> {CHR 0x0A, CHR 0x0D, CHR 0x09} then CHR '' '' else c"
  from assms(1) obtain row d where row: "hl_encode l ?r = Some row" "newline \<notin> set row" "hl_decode l row = Some d"
    and rb: "read_back ?r d" by (metis row_codec_ok_def)
  have now: "hl_now_text l \<noteq> []" "valid_utf8 (hl_now_text l)" "hl_decode l [] = None"
    using assms(1) by (simp_all add: row_codec_ok_def)
  have "valid_utf8 (fn_kind e)" using assms(5) by (elim disjE) (simp, code_simp)+
  with rb now have kind: "fe_timestamp d = hl_now_text l" "fe_kind d = fn_kind e"
    by (simp_all add: read_back_def feedback_row_def)
  with assms(5) now row(3) have act: "actionable l row" by (simp add: actionable_def)
  have empty: "count_text l [] = 0" using now by (simp add: count_text_def actionable_def)
  have w': "w' = w\<lparr>hk_files := (hk_files w)(?p \<mapsto> hk_content w ?p @ row @ [newline])\<rparr>"
    using assms(2,3,7) row(1) by (simp add: queue_feedback_def append_file_def)
  have "count_text l (hk_content w ?p @ row @ [newline]) = Suc (count_text l (hk_content w ?p))"
    using count_text_append_row [OF assms(4) row(2) now(3)] act by simp
  then have grows: "queue_size l (he_config_dir env) w' = Suc (queue_size l (he_config_dir env) w)"
    using assms(6) empty by (auto simp: w' queue_size_def hk_content_def split: option.splits)
  have session: "fe_session d = fn_session e" if "fn_session e \<noteq> []" "valid_utf8 (fn_session e)"
    using rb that by (simp add: read_back_def feedback_row_def)
  have channel: "fe_channel d = he_channel env" if "valid_utf8 (he_channel env)"
    using rb that by (simp add: read_back_def feedback_row_def)
  have trigger: "fe_trigger d = map ?blank (fn_trigger e)" if "valid_utf8 (fn_trigger e)"
    using rb flatten_valid [OF that] by (simp add: read_back_def feedback_row_def flatten_text_def newline_def)
  have detail: "\<exists>n mark. fe_detail d = map ?blank (take n (fn_detail e)) @ mark \<and>
      (if length (fn_detail e) \<le> 2000 then n = length (fn_detail e) \<and> mark = []
       else 1997 \<le> n \<and> n \<le> 2000 \<and> mark = truncated_mark)" if v: "valid_utf8 (fn_detail e)"
  proof -
    have "fe_detail d = flatten_text (cap_detail (fn_detail e))"
      using rb flatten_valid [OF cap_detail_valid [OF v]] by (simp add: read_back_def feedback_row_def)
    then have fe: "fe_detail d = map ?blank (cap_detail (fn_detail e))" by (simp add: flatten_text_def newline_def)
    show ?thesis
    proof (cases "length (fn_detail e) \<le> 2000")
      case True
      then have "cap_detail (fn_detail e) = fn_detail e" by (simp add: cap_detail_def detail_cap_def)
      with True fe show ?thesis by simp
    next
      case False
      then obtain n where n: "1997 \<le> n" "n \<le> 2000" "cap_detail (fn_detail e) = take n (fn_detail e) @ truncated_mark"
        using cap_detail_near [OF v] by (auto simp: detail_cap_def)
      have "map ?blank truncated_mark = truncated_mark" by code_simp
      with n fe False show ?thesis by (intro exI [of _ n] exI [of _ truncated_mark]) simp
    qed
  qed
  have "hk_content w' ?p = hk_content w ?p @ row @ [newline]" by (simp add: w' hk_content_def)
  moreover from this have "whole_lines (hk_content w' ?p)" by (simp add: whole_lines_def)
  ultimately show ?thesis
    using grows row(2,3) kind session channel trigger detail by blast
qed

subsection \<open>When the nudge speaks\<close>

definition marker_at :: "string \<Rightarrow> hook_world \<Rightarrow> int" where
  "marker_at cdir w =
     (case hk_files w (nudge_marker cdir) of
        None \<Rightarrow> 0 | Some s \<Rightarrow> (case atoi (trim_space s) of None \<Rightarrow> 0 | Some n \<Rightarrow> n))"

definition distinct_queue_files :: "string \<Rightarrow> bool" where
  "distinct_queue_files cdir = distinct [inbox_path cdir, processing_path cdir, nudge_marker cdir]"

lemma queued_corrections_good:
  "hk_io w = [] \<Longrightarrow> queued_corrections l cdir w = (queue_size l cdir w, w)"
  by (simp add: queued_corrections_def count_corrections_def queue_size_def)

lemma write_marker_good:
  assumes "hk_io w = []"
  shows "write_marker (nudge_marker cdir) n w = w\<lparr>hk_files := (hk_files w)(nudge_marker cdir \<mapsto> itoa n)\<rparr>"
  using assms by (simp add: write_marker_def)

lemma marker_written:
  "int n \<le> max_duration \<Longrightarrow>
     marker_at cdir (w\<lparr>hk_files := (hk_files w)(nudge_marker cdir \<mapsto> itoa n)\<rparr>) = int n"
  using atoi_itoa [of n] by (simp add: marker_at_def)

text \<open>The reference: the mark is the size last mentioned, and falls to zero with the queue.\<close>

definition nudge_base :: "int \<Rightarrow> nat \<Rightarrow> int" where
  "nudge_base at n = (if int n < at then 0 else at)"

definition nudge_due :: "int \<Rightarrow> nat \<Rightarrow> bool" where
  "nudge_due at n = (3 \<le> n \<and> nudge_base at n + 3 \<le> int n)"

fun nudge_spec :: "int \<Rightarrow> nat list \<Rightarrow> bool list" where
  "nudge_spec at [] = []"
| "nudge_spec at (n # ns) = nudge_due at n # nudge_spec (if nudge_due at n then int n else nudge_base at n) ns"

lemma retro_nudge_good:
  assumes "hk_io w = []" and "int (queue_size l cdir w) \<le> max_duration" and "retro_nudge l cdir w = (r, w')"
  shows "(r \<noteq> None \<longleftrightarrow> nudge_due (marker_at cdir w) (queue_size l cdir w)) \<and> hk_io w' = [] \<and>
         marker_at cdir w' = (if nudge_due (marker_at cdir w) (queue_size l cdir w) then int (queue_size l cdir w)
                              else nudge_base (marker_at cdir w) (queue_size l cdir w))"
proof -
  let ?n = "queue_size l cdir w" and ?m = "nudge_marker cdir"
  have at: "last_nudged_at ?m w = (marker_at cdir w, w)"
    using assms(1) by (simp add: last_nudged_at_def marker_at_def)
  define w3 where "w3 = (if int ?n < marker_at cdir w then write_marker ?m 0 w else w)"
  have io3: "hk_io w3 = []" and m3: "marker_at cdir w3 = nudge_base (marker_at cdir w) ?n"
    using assms(1) marker_written [of 0 cdir w]
    by (auto simp: w3_def nudge_base_def write_marker_good max_duration_def)
  have "(r, w') = (if nudge_due (marker_at cdir w) ?n
      then (Some (RetroWaiting ?n (feedback_dir cdir)), write_marker ?m ?n w3) else (None, w3))"
    using assms(1,3) at
    by (auto simp: retro_nudge_def queued_corrections_good nudge_due_def nudge_base_def retro_threshold_def
        retro_nudge_step_def w3_def Let_def split: if_splits)
  with io3 m3 write_marker_good [OF io3, of cdir ?n] marker_written [OF assms(2), of cdir w3]
  show ?thesis by (auto split: if_splits)
qed

definition with_queue :: "string \<Rightarrow> string option \<times> string option \<Rightarrow> hook_world \<Rightarrow> hook_world" where
  "with_queue cdir q w =
     w\<lparr>hk_files := (hk_files w)(inbox_path cdir := fst q, processing_path cdir := snd q)\<rparr>"

fun nudge_run :: "hook_lib \<Rightarrow> string \<Rightarrow> (string option \<times> string option) list \<Rightarrow> hook_world \<Rightarrow> hook_note option list" where
  "nudge_run l cdir [] w = []"
| "nudge_run l cdir (q # qs) w =
     (case retro_nudge l cdir (with_queue cdir q w) of (r, w') \<Rightarrow> r # nudge_run l cdir qs w')"

definition rows_in :: "hook_lib \<Rightarrow> string option \<times> string option \<Rightarrow> nat" where
  "rows_in l q =
     (case fst q of None \<Rightarrow> 0 | Some t \<Rightarrow> count_text l t) + (case snd q of None \<Rightarrow> 0 | Some t \<Rightarrow> count_text l t)"

lemma nudge_run_spec:
  assumes "distinct_queue_files cdir"
  shows "hk_io w = [] \<Longrightarrow> \<forall>q \<in> set qs. int (rows_in l q) \<le> max_duration \<Longrightarrow>
     map (\<lambda>r. r \<noteq> None) (nudge_run l cdir qs w) = nudge_spec (marker_at cdir w) (map (rows_in l) qs)"
proof (induction qs arbitrary: w)
  case (Cons q qs)
  let ?w = "with_queue cdir q w"
  have size: "queue_size l cdir ?w = rows_in l q" and mark: "marker_at cdir ?w = marker_at cdir w"
      and io: "hk_io ?w = []"
    using assms Cons.prems(1)
    by (auto simp: distinct_queue_files_def queue_size_def rows_in_def marker_at_def with_queue_def)
  obtain r w' where r: "retro_nudge l cdir ?w = (r, w')" by (rule prod.exhaust)
  have n: "int (queue_size l cdir ?w) \<le> max_duration" using Cons.prems(2) size by simp
  note good = retro_nudge_good [OF io n r, unfolded size mark]
  have "map (\<lambda>r. r \<noteq> None) (nudge_run l cdir qs w') = nudge_spec (marker_at cdir w') (map (rows_in l) qs)"
    using Cons.IH [of w'] good Cons.prems(2) by simp
  with good r show ?case by simp
qed simp

text \<open>
  The nudge follows the queue: over any course of the two queue files, with the hook's own marker
  file between the calls, the hook speaks exactly when the reference does, that is when at least
  three rows wait and at least three more than at the last mention, where a queue that has fallen
  below the mark starts again from zero.
\<close>

theorem nudges_follow_the_queue:
  assumes "distinct_queue_files cdir" and "hk_io w = []" and "hk_files w (nudge_marker cdir) = None"
    and "\<forall>q \<in> set qs. int (rows_in l q) \<le> max_duration"
  shows "map (\<lambda>r. r \<noteq> None) (nudge_run l cdir qs w) = nudge_spec 0 (map (rows_in l) qs)"
  using nudge_run_spec [OF assms(1,2,4)] assms(3) by (simp add: marker_at_def)

subsection \<open>The gate\<close>

lemma join_rooted_nonempty: "is_rooted r \<Longrightarrow> join_path r b \<noteq> []"
proof -
  assume r: "is_rooted r"
  then have "r \<noteq> []" by (auto simp: is_rooted_def)
  moreover have "is_rooted (r @ s)" for s using r by (auto simp: is_rooted_def has_prefix_iff)
  ultimately show ?thesis using r by (simp add: join_path_def clean_rooted)
qed

text \<open>The rulebook pool as the file system has it, and where a write to a path would land.\<close>

definition gate_pool :: "string \<Rightarrow> string" where
  "gate_pool mreal = join_path mreal ''rules''"

text \<open>
  C15. The gate decides by where the file's directory is. Let the directory of the file a write tool
  names, made absolute, resolve to \<open>real\<close>, and the directory that holds the pool to \<open>mreal\<close>. Then
  the call is refused if and only if \<open>real\<close> with the file's last element, as it was written, lies
  below \<open>mreal/rules\<close>: so a write into the pool is refused by whatever detour or linked directory
  the path names it. A refused call asks for one row in the feedback queue (what becomes of the row
  is another property), and every other call passes and leaves no trace. The last elements
  themselves are not resolved, neither the file's nor \<open>rules\<close>: a link to a rulebook, and a pool that
  is a link, are outside of this (\<open>gate_passes_links\<close>).
\<close>

theorem gate_refuses_rulebook_writes:
  assumes "he_memory_dir env \<noteq> []" and "target_path p \<noteq> []" and "hl_abs l (target_path p) = Some a"
    and "rev (path_segs a) = base # up" and "hl_eval_links l (show_segs (is_rooted a) (rev up)) = Some real"
    and "rev (path_segs (rules_dir (he_memory_dir env))) = ''rules'' # mup"
    and "hl_eval_links l (show_segs (is_rooted (rules_dir (he_memory_dir env))) (rev mup)) = Some mreal"
    and "is_rooted mreal" and "rules_gate l env (Some p) w = (r, w')"
  shows "(if has_prefix (join_path real base) (gate_pool mreal @ [slash])
          then \<exists>reason. r = Block reason \<and>
                 w' = queue_feedback l env \<lparr>fn_session = hp_session p, fn_kind = kind_guard_block,
                                            fn_trigger = ''rules-gate'', fn_detail = reason\<rparr> w
          else r = Pass \<and> w' = w)"
proof -
  have "in_rules (hl_eval_links l) (hl_abs l) (he_memory_dir env) (target_path p) \<longleftrightarrow>
      has_prefix (join_path real base) (gate_pool mreal @ [slash])"
    using assms(1-3) resolve_known_dir [of a base up "hl_eval_links l" real, OF assms(4,5)]
      resolve_known_dir [of "rules_dir (he_memory_dir env)" "''rules''" mup "hl_eval_links l" mreal, OF assms(6,7)]
      join_rooted_nonempty [OF assms(8)]
    by (simp add: in_rules_def gate_pool_def)
  with assms(1,9) show ?thesis
    by (auto simp: rules_gate_def block_call_def read_payload_def Let_def split: if_splits)
qed

subsection \<open>Concrete hooks\<close>

definition plain_hooks :: "(string \<Rightarrow> string option) \<Rightarrow> hook_lib" where
  "plain_hooks links =
     \<lparr>hl_eval_links = links, hl_abs = (\<lambda>p. Some p), hl_encode = (\<lambda>e. Some (fe_kind e)),
      hl_decode = (\<lambda>s. if s = [] then None else Some \<lparr>fe_timestamp = ''t'', fe_session = [], fe_channel = [],
                      fe_kind = s, fe_trigger = [], fe_detail = []\<rparr>),
      hl_now_text = ''t'', hl_gate_reason = (\<lambda>a b. ''ask first''), hl_rx_find = (\<lambda>p s. None),
      hl_rx_replace = (\<lambda>p s r. s)\<rparr>"

definition plain_links :: "string \<Rightarrow> string option" where
  "plain_links d = (if d \<in> {''/m'', ''/m/rules'', ''/m/notes''} then Some d else None)"

definition sample_hook_env :: hook_env where
  "sample_hook_env = \<lparr>he_memory_dir = ''/m'', he_channel = ''dev'', he_config_dir = ''/c''\<rparr>"

definition write_to :: "string \<Rightarrow> hook_payload" where
  "write_to p = empty_payload\<lparr>hp_file_path := p\<rparr>"

definition fresh_hooks :: hook_world where
  "fresh_hooks = \<lparr>hk_files = (\<lambda>p. None), hk_io = []\<rparr>"

theorem gate_refuses_rulebook_writes_witness:
  "(\<exists>reason w'. rules_gate (plain_hooks plain_links) sample_hook_env (Some (write_to ''/m/rules/bills.md'')) fresh_hooks =
      (Block reason, w') \<and> w' = queue_feedback (plain_hooks plain_links) sample_hook_env
        \<lparr>fn_session = [], fn_kind = kind_guard_block, fn_trigger = ''rules-gate'', fn_detail = reason\<rparr> fresh_hooks)"
proof -
  let ?l = "plain_hooks plain_links" and ?p = "write_to ''/m/rules/bills.md''"
  obtain r w' where g: "rules_gate ?l sample_hook_env (Some ?p) fresh_hooks = (r, w')" by (rule prod.exhaust)
  have "if has_prefix (join_path ''/m/rules'' ''bills.md'') (gate_pool ''/m'' @ [slash])
      then \<exists>reason. r = Block reason \<and> w' = queue_feedback ?l sample_hook_env
             \<lparr>fn_session = hp_session ?p, fn_kind = kind_guard_block, fn_trigger = ''rules-gate'', fn_detail = reason\<rparr> fresh_hooks
      else r = Pass \<and> w' = fresh_hooks"
    by (rule gate_refuses_rulebook_writes [OF _ _ _ _ _ _ _ _ g, where a = "''/m/rules/bills.md''" and up = "[''rules'', ''m'']"
          and mup = "[''m'']"]) code_simp+
  moreover have "has_prefix (join_path ''/m/rules'' ''bills.md'') (gate_pool ''/m'' @ [slash])" by code_simp
  moreover have "hp_session ?p = []" by code_simp
  ultimately show ?thesis using g by auto
qed

text \<open>
  The last element of a path is not resolved: a write through a link to a rulebook passes the gate,
  and when the pool itself is a link, so does a write to any rulebook.
\<close>

lemma gate_passes_links:
  "fst (rules_gate (plain_hooks (plain_links(''/m/notes/l.md'' \<mapsto> ''/m/rules/bills.md''))) sample_hook_env
     (Some (write_to ''/m/notes/l.md'')) fresh_hooks) = Pass"
  "fst (rules_gate (plain_hooks (plain_links(''/m/rules'' \<mapsto> ''/pool''))) sample_hook_env
     (Some (write_to ''/m/rules/bills.md'')) fresh_hooks) = Pass"
  by code_simp+

lemma sample_queue_files: "distinct_queue_files ''/c''"
  by code_simp

definition rows_text :: "nat \<Rightarrow> string" where
  "rows_text n = concat (replicate n (kind_correction @ [newline]))"

theorem nudges_follow_the_queue_witness:
  "map (\<lambda>r. r \<noteq> None) (nudge_run (plain_hooks plain_links) ''/c''
      (map (\<lambda>n. (Some (rows_text n), None)) [3, 5, 6, 2, 3]) fresh_hooks) = [True, False, True, False, True]"
proof -
  let ?l = "plain_hooks plain_links" and ?qs = "map (\<lambda>n. (Some (rows_text n), None :: string option)) [3, 5, 6, 2, 3]"
  have r: "map (rows_in ?l) ?qs = [3, 5, 6, 2, 3]" by code_simp
  then have "\<forall>n \<in> set (map (rows_in ?l) ?qs). int n \<le> max_duration"
    by (simp only: r) (simp add: max_duration_def)
  then have bound: "\<forall>q \<in> set ?qs. int (rows_in ?l q) \<le> max_duration" by (simp only: set_map ball_simps)
  have "map (\<lambda>r. r \<noteq> None) (nudge_run ?l ''/c'' ?qs fresh_hooks) = nudge_spec 0 (map (rows_in ?l) ?qs)"
    by (rule nudges_follow_the_queue [OF sample_queue_files _ _ bound]) (simp_all add: fresh_hooks_def)
  also have "\<dots> = [True, False, True, False, True]" unfolding r by code_simp
  finally show ?thesis .
qed

text \<open>A concrete row format: every byte marked, a line break by a mark of its own, fields ended.\<close>

definition esc_field :: "string \<Rightarrow> string" where
  "esc_field s = concat (map (\<lambda>c. if c = newline then ''n'' else [CHR ''x'', c]) s) @ '';''"

fun read_field :: "string \<Rightarrow> (string \<times> string) option" where
  "read_field [] = None"
| "read_field (c # s) =
     (if c = CHR '';'' then Some ([], s)
      else if c = CHR ''n'' then map_option (\<lambda>(f, r). (newline # f, r)) (read_field s)
      else (case s of [] \<Rightarrow> None | d # t \<Rightarrow> map_option (\<lambda>(f, r). (d # f, r)) (read_field t)))"

definition row_fields :: "feedback_event \<Rightarrow> string list" where
  "row_fields e = [fe_timestamp e, fe_session e, fe_channel e, fe_kind e, fe_trigger e, fe_detail e]"

fun read_fields :: "nat \<Rightarrow> string \<Rightarrow> string list option" where
  "read_fields 0 s = (if s = [] then Some [] else None)"
| "read_fields (Suc n) s =
     (case read_field s of None \<Rightarrow> None | Some (f, r) \<Rightarrow> map_option (\<lambda>fs. f # fs) (read_fields n r))"

definition row_of_fields :: "string list \<Rightarrow> feedback_event option" where
  "row_of_fields fs =
     (case fs of
        [a, b, c, d, e, f] \<Rightarrow>
          Some \<lparr>fe_timestamp = a, fe_session = b, fe_channel = c, fe_kind = d, fe_trigger = e, fe_detail = f\<rparr>
      | _ \<Rightarrow> None)"

definition marked_hooks :: hook_lib where
  "marked_hooks = (plain_hooks plain_links)\<lparr>
     hl_encode := (\<lambda>e. Some (concat (map esc_field (row_fields e)))),
     hl_decode := (\<lambda>s. case read_fields 6 s of None \<Rightarrow> None | Some fs \<Rightarrow> row_of_fields fs)\<rparr>"

lemma read_esc_field: "read_field (esc_field s @ r) = Some (s, r)"
  by (induction s) (auto simp: esc_field_def newline_def)

lemma read_esc_fields: "read_fields (length fs) (concat (map esc_field fs)) = Some fs"
  by (induction fs) (simp_all add: read_esc_field)

lemma marked_hooks_ok: "row_codec_ok marked_hooks"
proof -
  have nl: "newline \<notin> set (esc_field s)" for s
    by (auto simp: esc_field_def newline_def split: if_splits)
  have "read_fields 6 (concat (map esc_field (row_fields e))) = Some (row_fields e)" for e
  proof -
    have "length (row_fields e) = 6" by (simp add: row_fields_def)
    then show ?thesis using read_esc_fields [of "row_fields e"] by simp
  qed
  moreover have "row_of_fields (row_fields e) = Some e" for e by (simp add: row_of_fields_def row_fields_def)
  moreover have "read_fields 6 [] = None" by (simp add: numeral_eq_Suc)
  moreover have "newline \<notin> set (concat (map esc_field fs))" for fs using nl by auto
  moreover have "valid_utf8 ''t''" by code_simp
  ultimately show ?thesis
    unfolding row_codec_ok_def by (simp add: marked_hooks_def plain_hooks_def read_back_def)
qed

theorem captured_row_is_counted_witness:
  "queue_size marked_hooks ''/c'' (queue_feedback marked_hooks sample_hook_env
      \<lparr>fn_session = [], fn_kind = kind_correction, fn_trigger = ''!log'', fn_detail = ''a'' @ [newline] @ ''b''\<rparr> fresh_hooks) = 1"
proof -
  let ?e = "\<lparr>fn_session = [], fn_kind = kind_correction, fn_trigger = ''!log'', fn_detail = ''a'' @ [newline] @ ''b''\<rparr>"
  have cdir: "he_config_dir sample_hook_env = ''/c''" by code_simp
  have "queue_size marked_hooks (he_config_dir sample_hook_env) (queue_feedback marked_hooks sample_hook_env ?e fresh_hooks) =
      Suc (queue_size marked_hooks (he_config_dir sample_hook_env) fresh_hooks)"
    using sample_queue_files
    by (intro conjunct1 [OF captured_row_is_counted [OF marked_hooks_ok _ _ _ _ _ refl]])
      (simp_all add: cdir fresh_hooks_def hk_content_def whole_lines_def distinct_queue_files_def)
  then show ?thesis by (simp add: cdir queue_size_def fresh_hooks_def)
qed

end
