(* ===== verification/Spec2Isabelle.thy ===== *)
theory Spec2Isabelle
  imports StreamResponse GitProxy ConfigLoad Notifications ConfirmProps Queue Outbox Sandbox PermissionPrompt NetGuard LogBuffer
    Sessions AgentLoop RateLimit SecretForm RemoteProxy RepoSweep Lifecycle FanIn ChannelToolsProps Hooks
begin

text \<open>
  A verification library of tclaw, a Go program that runs a personal assistant: messages of chat
  channels and of schedules are queued, a loop hands them one at a time to the Claude CLI, which runs
  in a sandbox and calls back into the program's tools, and what it says is written into the chat.
  All paths below are under \<open>src/internal\<close>.

  The program's parts and how they meet

  A transport delivers a message. The router (\<open>router\<close>) records the activity, offers the message to
  open questions - a confirmation asked by an earlier turn, an approval asked in the middle of this
  one - and puts what is left into the message queue (\<open>queue\<close>), which survives restarts. The queue
  feeds the merge of the durable and the live stream and the bridge to the agent (\<open>router/merge.go\<close>,
  \<open>waitAndStart\<close>). The agent loop (\<open>agent\<close>) takes a message through its stages - commands, sign-in,
  tool approval - and runs a turn: it resolves the channel's settings and tools, builds the command
  line, the environment and the sandbox, retries over rate limits, and turns the CLI's events into
  the messages of the chat. What it sends goes through the outbox (\<open>channel/outbox\<close>). During a turn
  the CLI reaches the program through its MCP tools, through the git proxy, which holds the
  credentials and the push policy of every tracked repository, through the proxy in front of remote
  MCP servers, and through hooks that run around its tool calls. Beside these run the scheduler, the
  notifications, the reconciler with the reaper of ephemeral channels, the sweep over repositories,
  and an HTTP server for OAuth redirects and secret forms. All of it keeps its state in a file store,
  an encrypted secret store and the config file, and starts from a validated configuration.

  Theories, from the base upwards, with the sources they model

  Prelude: times and durations as integers with Go's saturating subtraction, wrap-around of int64,
  lemmas on lists and maps, sequences of checks. GoText, GoPath, Glob, Utf8: the functions of
  \<open>strings\<close>, \<open>path/filepath\<close>, \<open>encoding/hex\<close> and \<open>unicode/utf8\<close> the code uses.
  Store (\<open>libraries/store\<close>): the \<open>Store\<close> interface as the locale \<open>kv_store\<close> and \<open>FS\<close> as its
  interpretation; a store is the map of files with what they hold, and a list of outcomes for the
  coming file operations, so that every call may be refused or leave an empty or torn file.
  Registry: the one-document collections behind schedules, notifications, credential sets and remote
  servers, as the locale \<open>id_registry\<close>, interpreted for each of the four. Secrets
  (\<open>libraries/secret/encrypted.go\<close>): \<open>kv_store\<close> again, over sealed values.
  CliTypes (\<open>claudecli\<close>), Channels and RuntimeState (\<open>channel\<close>), ConfigWriter (\<open>config/writer.go\<close>),
  ConfigLoad (\<open>config/config.go\<close>), ChannelRegistry (\<open>channel/registry.go\<close>, \<open>multi.go\<close>,
  \<open>router/channelset.go\<close>), Repo (\<open>repo\<close>), Credentials (\<open>credential\<close>), RemoteMcp
  (\<open>remotemcpstore\<close>), DevSessions (\<open>dev\<close>), Sessions (\<open>channel/session_store.go\<close>,
  \<open>router/session_cleanup.go\<close>), MemoryLayout (\<open>memorylayout\<close>): the data and its stores, one definition
  per operation.
  Activity (\<open>channel/activity.go\<close>): which channels are busy; locale \<open>idle_notifier\<close>. Queue
  (\<open>queue/queue.go\<close>, \<open>router/resume.go\<close>, \<open>startup.go\<close>): locale \<open>message_queue\<close>, and \<open>Next\<close> as a machine
  whose phases are its selects. FanIn (\<open>router/merge.go\<close>, the bridge in \<open>router/router.go\<close>): one step
  per branch of each goroutine. Outbox: the queue of a channel and its delivery goroutine.
  ToolAccess (\<open>toolgroup\<close>, \<open>router/tools.go\<close>, parts of \<open>agent/agent.go\<close>), CliArgs, Flows, AgentLoop
  (\<open>agent\<close>): the lists of tools of a turn, its arguments, the interactive flows and the loop as a
  machine over events. Sandbox (\<open>agent/sandbox.go\<close>, \<open>handle.go\<close>). TurnWriter, TurnText, StreamResponse
  (\<open>agent/handle.go\<close>, \<open>format.go\<close>): from the CLI's events to the chat. PermissionPrompt
  (\<open>router/permission_prompt.go\<close>), Confirm and ConfirmProps (\<open>router/done.go\<close>, \<open>repo_grant.go\<close>,
  \<open>rule_write.go\<close>): the two kinds of question. Hooks (\<open>hooks\<close>).
  Lifecycle (\<open>reconciler\<close>, \<open>router/ephemeral.go\<close>, \<open>parent_notify.go\<close>), ChannelTools and
  ChannelToolsProps (\<open>tool/channeltools\<close>), RepoSweep (\<open>router/repo_lifecycle.go\<close>): how channels and
  grants come and go. Schedule, Scheduler, Notifications (\<open>schedule\<close>, \<open>tool/scheduletools\<close>,
  \<open>notification\<close>). GitProxy (\<open>gitproxy\<close>), RemoteProxy (\<open>remotemcpproxy\<close>), OAuthCallback and RateLimit
  (\<open>oauth\<close>), SecretForm (\<open>tool/secretform\<close>), NetGuard (\<open>mcp/discovery\<close>, \<open>egressproxy\<close>), LogBuffer
  (\<open>libraries/logbuffer\<close>).

  How code becomes definitions

  A struct is a record, an enumeration a datatype, a Go error a value: an \<open>option\<close> where nothing else
  is returned, a sum otherwise, so that every early return is a branch. A handler takes its world -
  the record of the stores and registries it touches - and returns it changed, on the error paths too.
  Strings are byte lists. Times are nanoseconds, the zero time is 0; int64 and Duration arithmetic
  saturates or wraps where Go's does. Addresses are lists of 8-bit words. A Go map that is ranged over
  is a list in the order of the range, so that a statement about every list holds for every order.
  Clock readings, random ids, answers of libraries and services, and the outcome of each file
  operation are arguments. Goroutines that share state are step relations: \<open>merge_step\<close> and
  \<open>bridge_step\<close> (FanIn), \<open>next_run\<close> (Queue), \<open>delivery_run\<close> (Outbox), the runs of the agent loop and of
  the permission prompts. A step is what the code does under one lock or between two blocking points.

  Loops that wait are bounded by what the code bounds them with, and not by fuel: the attempts of a
  rate-limited turn (\<open>rateLimitMaxRetries\<close>, 3), the cold-start retries (9), the outbox retries (50). Every
  other recursion is structural or has a measure. The list of coming file outcomes ends in successes.

  What the properties show

  Output: the reply in the chat reads as the CLI spoke it (C1), and a writer only edits the last of its
  own messages (C17). Channels: a reaper round spares channels in use (C2) and removes a channel
  only after its platform resources, leaving everything as it was when that fails (C9); created
  channels are as asked (C13) with tool groups their creator may hand on (C11), edits and removals keep
  the config well-formed (C10), deletion follows teardown (C12), messages go to declared targets (C14),
  and a report without failures is one (C18). Messages: nothing durable is lost in the merge (C3), the
  bridge leaves at most one automated message behind (C19), the queue serves by priority (C31), loses
  nothing (C32) and is restored between operations (C33), the outbox disposes of its operations in
  order (C34), and whoever waits for an idle channel waits for a reason (C35). Consent: extra tools
  need an approval (C23) that lasts one turn (C24), approvals need a press (C36), and a confirmed
  action needs consent (C28) and does what was asked (C29). Credentials and access: redirects and forms
  store only what belongs to them (C4 to C6), the proxy reaches registered servers only (C7) and sends
  only their headers and token (C8), no push passes without access (C26) and the gate of pull requests
  is exact (C27, C30), the sweep never widens access (C22). Confinement: the sandbox (C37), the
  resolved tools (C38), the guarded dialler (C39), the rulebook gate (C15). The rest: the retro's queue
  (C16), the rate limiter (C20, C21), the end of a rate-limited turn (C25), the log (C40).

  Besides these the theories hold theorems of the same standing: a loaded configuration is coherent, is
  scrubbed from the environment and can be loaded again (ConfigLoad); a resolved development session
  is in scope (DevSessions); what a turn may use, exactly (ToolAccess); a refresh is remembered
  (RemoteProxy); nudges follow the queue (Hooks). Lemmas named after a flaw (\<open>message_strands_waiters\<close>,
  \<open>buffered_message_is_lost\<close>, \<open>stale_write_loses_push\<close>, \<open>creation_without_rights\<close>,
  \<open>gate_passes_links\<close>, \<open>unguarded_ranges\<close>, \<open>revoked_access_comes_back\<close>, \<open>vault_mount_is_not_checked\<close>
  and others) prove on a concrete run that the code does less than it means to, and mark where the
  properties end.

  Limits that the statements carry

  Hypotheses name what is taken from outside: the YAML codec of a channel reads back what it wrote
  (\<open>codec_ok\<close>), a row of the feedback queue is one line whose well-formed texts are read back
  (\<open>row_codec_ok\<close>), bubblewrap mounts as documented (\<open>bwrap_documented\<close>), fetches of the sweep leave the
  repo store alone (\<open>quiet_fetch\<close>). Each is instantiated by a concrete function in the witness of its
  property. The queue's operations are one step each, so overlapping writes are outside of C33; the
  outbox's runs go from one start to the next; a command section is read up to 64 KiB.

  What is not modelled, and why

  Transports, the MCP server and its discovery requests, and the clients of external services are
  input and output over third-party libraries. The router's wiring - constructors, goroutines, prompt
  and skill texts - connects what is modelled. Repository, credential, model, onboarding, remote MCP
  and development tools are checks in front of stores that are modelled, or subprocesses. Rendering,
  the command line, deployment and the test harness carry no state of the assistant. JSON, YAML,
  regular expressions, cron expressions, ciphers, hashes, DNS and URL parsing are parameters.
\<close>

end
